(* ===== verification/Prelude.thy ===== *)
theory Prelude
  imports Main "HOL-Library.Word"
begin

text \<open>
  Shared vocabulary of the development: the machine types of the C sources
  (\<open>unsigned char\<close>, \<open>uint16_t\<close>, \<open>uint32_t\<close>, \<open>uint64_t\<close>), C string literals as
  byte lists, byte-order conversions, and the list facts that the component
  theories use. A C buffer is the list of the bytes it holds; a pointer into it is
  the suffix of the list that starts there, or an offset where the code compares or
  subtracts pointers.
\<close>

unbundle bit_operations_syntax

type_synonym byte = "8 word"
type_synonym u16 = "16 word"
type_synonym u32 = "32 word"
type_synonym u64 = "64 word"

named_theorems byte_simps

text \<open>The bytes of a string literal of the source, without the terminating NUL.\<close>

definition bs :: "string \<Rightarrow> byte list" where
  "bs s = map of_char s"

lemma bs_Nil [simp]: "bs [] = []"
  and bs_Cons: "bs (c # s) = of_char c # bs s"
  by (simp_all add: bs_def)

lemma length_bs [simp]: "length (bs s) = length s"
  by (simp add: bs_def)

lemma unat_byte_less: "unat (w :: byte) < 256"
  using unsigned_less [of w] by simp

lemma unat_u16_less: "unat (w :: u16) < 2 ^ 16"
  using unsigned_less [of w] by simp

lemma unat_u32_less: "unat (w :: u32) < 2 ^ 32"
  using unsigned_less [of w] by simp

lemma unat_u64_less: "unat (w :: u64) < 2 ^ 64"
  using unsigned_less [of w] by simp

text \<open>Lists cut in pieces.\<close>

lemma take_append_ge: "length xs \<le> n \<Longrightarrow> take n (xs @ ys) = xs @ take (n - length xs) ys"
  by simp

lemma length_ge_Suc_conv: "Suc n \<le> length xs \<longleftrightarrow> (\<exists>y ys. xs = y # ys \<and> n \<le> length ys)"
  by (cases xs) auto

lemma foldl_append_list: "foldl (\<lambda>acc x. acc @ f x) a xs = a @ concat (map f xs)"
  by (induction xs arbitrary: a) auto

lemma list_induct_3step [case_names Nil One Two Step]:
  assumes "P []" and "\<And>a. P [a]" and "\<And>a b. P [a, b]"
    and "\<And>a b c s. P s \<Longrightarrow> P (a # b # c # s)"
  shows "P xs"
proof (induction xs rule: length_induct)
  case (1 xs)
  consider "xs = []" | a where "xs = [a]" | a b where "xs = [a, b]"
    | a b c s where "xs = a # b # c # s"
    by (metis list.exhaust)
  then show ?case
    using assms 1 by cases auto
qed

text \<open>A quantifier over a small range of naturals as a conjunction, for case checks.\<close>

lemma All_less_Suc_nat: "(\<forall>i < Suc n. P i) \<longleftrightarrow> P n \<and> (\<forall>i < n. P i)"
  by (auto simp: less_Suc_eq)

text \<open>\<open>memcpy (dst + off, src, n)\<close> and \<open>memset (dst + off, c, n)\<close> inside an array.\<close>

definition blit :: "nat \<Rightarrow> 'a list \<Rightarrow> 'a list \<Rightarrow> 'a list" where
  "blit off src dst = take off dst @ src @ drop (off + length src) dst"

lemma length_blit [simp]: "off + length src \<le> length dst \<Longrightarrow> length (blit off src dst) = length dst"
  by (simp add: blit_def)

lemma take_blit: "off \<le> length dst \<Longrightarrow> n = off + length src \<Longrightarrow> take n (blit off src dst) = take off dst @ src"
  by (simp add: blit_def)

lemma blit_grow:
  "take off dst = pre \<Longrightarrow> off + length src \<le> length dst \<Longrightarrow> n = off + length src \<Longrightarrow>
    take n (blit off src dst) = pre @ src"
  by (auto simp: blit_def)

lemma blit_full: "length src + off = length dst \<Longrightarrow> blit off src dst = take off dst @ src"
  by (simp add: blit_def)

lemma blit_0: "length src = length dst \<Longrightarrow> blit 0 src dst = src"
  by (simp add: blit_def)

text \<open>The fields of a list separated by \<open>c\<close>, and the list of given fields.\<close>

fun split_on :: "'a \<Rightarrow> 'a list \<Rightarrow> 'a list list" where
  "split_on c [] = [[]]"
| "split_on c (x # xs) =
     (if x = c then [] # split_on c xs else (x # hd (split_on c xs)) # tl (split_on c xs))"

fun join :: "'a \<Rightarrow> 'a list list \<Rightarrow> 'a list" where
  "join c [] = []"
| "join c [f] = f"
| "join c (f # g # fs) = f @ c # join c (g # fs)"

lemma split_on_not_Nil [simp]: "split_on c xs \<noteq> []"
  by (cases xs) auto

lemma split_on_no_sep: "c \<notin> set xs \<Longrightarrow> split_on c xs = [xs]"
  by (induction xs) auto

lemma split_on_append: "c \<notin> set xs \<Longrightarrow> split_on c (xs @ c # ys) = xs # split_on c ys"
  by (induction xs) auto

lemma split_on_join: "fs \<noteq> [] \<Longrightarrow> \<forall>f \<in> set fs. c \<notin> set f \<Longrightarrow> split_on c (join c fs) = fs"
  by (induction c fs rule: join.induct) (auto simp: split_on_no_sep split_on_append)

lemma join_split_on: "join c (split_on c xs) = xs"
proof (induction xs)
  case (Cons x xs)
  show ?case
    by (cases "split_on c xs"; cases "tl (split_on c xs)") (use Cons in auto)
qed simp

lemma split_on_sep: "f \<in> set (split_on c xs) \<Longrightarrow> c \<notin> set f"
proof (induction xs arbitrary: f)
  case (Cons x xs)
  then show ?case
    by (cases "split_on c xs") (auto split: if_splits)
qed simp

text \<open>
  Network byte order: the two bytes that \<open>htons\<close> leaves in memory, the four of \<open>htonl\<close>, and
  the values that \<open>ntohs\<close> and \<open>ntohl\<close> read back.
\<close>

definition be16 :: "u16 \<Rightarrow> byte list" where
  "be16 w = [ucast (drop_bit 8 w), ucast w]"

definition rd16 :: "byte \<Rightarrow> byte \<Rightarrow> u16" where
  "rd16 a b = push_bit 8 (ucast a) OR ucast b"

definition be32 :: "u32 \<Rightarrow> byte list" where
  "be32 w = [ucast (drop_bit 24 w), ucast (drop_bit 16 w), ucast (drop_bit 8 w), ucast w]"

definition rd32 :: "byte \<Rightarrow> byte \<Rightarrow> byte \<Rightarrow> byte \<Rightarrow> u32" where
  "rd32 a b c d = push_bit 24 (ucast a) OR push_bit 16 (ucast b) OR push_bit 8 (ucast c) OR ucast d"

lemma rd16_be16 [simp]: "rd16 (ucast (drop_bit 8 w)) (ucast w) = w"
  unfolding rd16_def by (rule bit_word_eqI) (auto simp: bit_simps)

lemma rd32_be32 [simp]:
  "rd32 (ucast (drop_bit 24 w)) (ucast (drop_bit 16 w)) (ucast (drop_bit 8 w)) (ucast w) = w"
proof (unfold rd32_def, rule bit_word_eqI)
  fix n
  assume "n < LENGTH(32)"
  then show "bit (push_bit 24 (ucast (ucast (drop_bit 24 w) :: byte)) OR
      push_bit 16 (ucast (ucast (drop_bit 16 w) :: byte)) OR
      push_bit 8 (ucast (ucast (drop_bit 8 w) :: byte)) OR ucast (ucast w :: byte) :: u32) n = bit w n"
    by (cases "n < 8"; cases "n < 16"; cases "n < 24") (auto simp: bit_simps)
qed

lemma length_be16 [simp]: "length (be16 w) = 2"
  and length_be32 [simp]: "length (be32 v) = 4"
  by (simp_all add: be16_def be32_def)

lemma unat_of_nat_u16: "n < 2 ^ 16 \<Longrightarrow> unat (of_nat n :: u16) = n"
  by (simp add: unat_of_nat)

lemma unat_of_nat_byte: "n < 256 \<Longrightarrow> unat (of_nat n :: byte) = n"
  by (simp add: unat_of_nat)

text \<open>\<open>mbuf_remove\<close> on the bytes of a buffer: a count beyond the contents is ignored.\<close>

definition buf_remove :: "byte list \<Rightarrow> nat \<Rightarrow> byte list" where
  "buf_remove io n = (if n > 0 \<and> n \<le> length io then drop n io else io)"

lemma buf_remove_append [simp]: "length xs = n \<Longrightarrow> buf_remove (xs @ ys) n = ys"
  by (auto simp: buf_remove_def)

end
