(* ===== verification/Base64.thy ===== *)
theory Base64
  imports Prelude
begin

text \<open>
  The base64 coder of Mongoose (\<open>common/base64.c\<close> inside \<open>Mongoose/mongoose.c\<close>): the
  streaming encoder with its context and output callback, the one-shot encoder
  \<open>cs_base64_encode\<close> and the decoder \<open>cs_base64_decode\<close>. Shown: the streaming encoder
  writes what the one-shot encoder writes, however the input is split; decoding what
  was encoded gives the input back; the decoder never writes past the bound its
  callers allocate.
\<close>

unbundle bit_operations_syntax

section \<open>The streaming encoder\<close>

text \<open>
  \<open>struct cs_base64_ctx\<close>. The callback \<open>b64_putc (ch, user_data)\<close> updates the object
  behind \<open>user_data\<close>: it is a function from a character and that object to the object
  after the call.
\<close>

record 'u cs_base64_ctx =
  b64_putc :: "byte \<Rightarrow> 'u \<Rightarrow> 'u"
  b64_chunk :: "byte list"
  b64_chunk_size :: nat
  b64_user_data :: 'u

abbreviation (input) NUM_UPPERCASES :: int where "NUM_UPPERCASES \<equiv> 26"
abbreviation (input) NUM_LETTERS :: int where "NUM_LETTERS \<equiv> 52"
abbreviation (input) NUM_DIGITS :: int where "NUM_DIGITS \<equiv> 10"

definition b64_call_putc :: "byte \<Rightarrow> 'u cs_base64_ctx \<Rightarrow> 'u cs_base64_ctx" where
  "b64_call_putc ch ctx = ctx\<lparr>b64_user_data := b64_putc ctx ch (b64_user_data ctx)\<rparr>"

definition cs_base64_code :: "int \<Rightarrow> byte" where
  "cs_base64_code v =
     (if v < NUM_UPPERCASES then word_of_int (v + 65)
      else if v < NUM_LETTERS then word_of_int (v - NUM_UPPERCASES + 97)
      else if v < NUM_LETTERS + NUM_DIGITS then word_of_int (v - NUM_LETTERS + 48)
      else if v - NUM_LETTERS - NUM_DIGITS = 0 then 43 else 47)"

definition cs_base64_emit_code :: "'u cs_base64_ctx \<Rightarrow> int \<Rightarrow> 'u cs_base64_ctx" where
  "cs_base64_emit_code ctx v = b64_call_putc (cs_base64_code v) ctx"

text \<open>The four 6-bit groups of three bytes, as both encoders compute them.\<close>

definition b64_g0 :: "int \<Rightarrow> int" where "b64_g0 a = drop_bit 2 a"
definition b64_g1 :: "int \<Rightarrow> int \<Rightarrow> int" where
  "b64_g1 a b = push_bit 4 (a AND 3) OR drop_bit 4 b"
definition b64_g2 :: "int \<Rightarrow> int \<Rightarrow> int" where
  "b64_g2 b c = push_bit 2 (b AND 15) OR drop_bit 6 c"
definition b64_g3 :: "int \<Rightarrow> int" where "b64_g3 c = c AND 63"

lemmas group_defs = b64_g0_def b64_g1_def b64_g2_def b64_g3_def

definition cs_base64_emit_chunk :: "'u cs_base64_ctx \<Rightarrow> 'u cs_base64_ctx" where
  "cs_base64_emit_chunk ctx =
     (let a = uint (b64_chunk ctx ! 0);
          b = uint (b64_chunk ctx ! 1);
          c = uint (b64_chunk ctx ! 2);
          ctx1 = cs_base64_emit_code ctx (b64_g0 a);
          ctx2 = cs_base64_emit_code ctx1 (b64_g1 a b);
          ctx3 = (if b64_chunk_size ctx2 > 1
                  then cs_base64_emit_code ctx2 (b64_g2 b c)
                  else ctx2)
      in if b64_chunk_size ctx3 > 2 then cs_base64_emit_code ctx3 (b64_g3 c) else ctx3)"

text \<open>\<open>cs_base64_init\<close> leaves the chunk array as it finds it.\<close>

definition cs_base64_init ::
  "'u cs_base64_ctx \<Rightarrow> (byte \<Rightarrow> 'u \<Rightarrow> 'u) \<Rightarrow> 'u \<Rightarrow> 'u cs_base64_ctx" where
  "cs_base64_init ctx putc user_data =
     ctx\<lparr>b64_chunk_size := 0, b64_putc := putc, b64_user_data := user_data\<rparr>"

definition cs_base64_push :: "'u cs_base64_ctx \<Rightarrow> byte \<Rightarrow> 'u cs_base64_ctx" where
  "cs_base64_push ctx x =
     (let ctx1 = ctx\<lparr>b64_chunk := (b64_chunk ctx)[b64_chunk_size ctx := x],
                     b64_chunk_size := b64_chunk_size ctx + 1\<rparr>
      in if b64_chunk_size ctx1 = 3
         then (cs_base64_emit_chunk ctx1)\<lparr>b64_chunk_size := 0\<rparr>
         else ctx1)"

fun cs_base64_update :: "'u cs_base64_ctx \<Rightarrow> byte list \<Rightarrow> 'u cs_base64_ctx" where
  "cs_base64_update ctx [] = ctx"
| "cs_base64_update ctx (x # str) = cs_base64_update (cs_base64_push ctx x) str"

fun b64_put_pad :: "nat \<Rightarrow> 'u cs_base64_ctx \<Rightarrow> 'u cs_base64_ctx" where
  "b64_put_pad 0 ctx = ctx"
| "b64_put_pad (Suc n) ctx = b64_put_pad n (b64_call_putc 61 ctx)"

definition cs_base64_finish :: "'u cs_base64_ctx \<Rightarrow> 'u cs_base64_ctx" where
  "cs_base64_finish ctx =
     (if b64_chunk_size ctx > 0
      then let k = b64_chunk_size ctx;
               ctx1 = ctx\<lparr>b64_chunk := take k (b64_chunk ctx) @ replicate (3 - k) 0\<rparr>;
               ctx2 = cs_base64_emit_chunk ctx1
           in b64_put_pad (3 - b64_chunk_size ctx2) ctx2
      else ctx)"

section \<open>The one-shot encoder\<close>

definition b64 :: "byte list" where
  "b64 = bs ''ABCDEFGHIJKLMNOPQRSTUVWXYZabcdefghijklmnopqrstuvwxyz0123456789+/''"

text \<open>
  The loop of \<open>BASE64_ENCODE_BODY\<close>: \<open>src\<close> is the rest of the input from index \<open>i\<close>. The C code counts input and output with
  \<open>int i, j\<close>; the model has no bound, so it speaks of inputs whose encoding has less than \<open>2 ^ 31\<close> bytes, before an overflow.
\<close>

fun base64_encode_loop :: "byte list \<Rightarrow> byte list" where
  "base64_encode_loop [] = []"
| "base64_encode_loop (x # xs) =
     (let src = x # xs;
          a = uint (src ! 0);
          b = (if 1 \<ge> length src then 0 else uint (src ! 1));
          c = (if 2 \<ge> length src then 0 else uint (src ! 2))
      in b64 ! nat (b64_g0 a)
         # b64 ! nat (b64_g1 a b)
         # (if 1 < length src then [b64 ! nat (b64_g2 b c)] else [])
         @ (if 2 < length src then [b64 ! nat (b64_g3 c)] else [])
         @ base64_encode_loop (drop 3 src))"

text \<open>\<open>while (j % 4 != 0) BASE64_OUT('=')\<close>, then the NUL of \<open>BASE64_FLUSH\<close>.\<close>

function base64_pad :: "byte list \<Rightarrow> byte list" where
  "base64_pad out = (if length out mod 4 \<noteq> 0 then base64_pad (out @ [61]) else out)"
  by pat_completeness auto
termination
  by (relation "measure (\<lambda>out. (4 - length out mod 4) mod 4)") (auto simp: mod_Suc)

declare base64_pad.simps [simp del]

definition cs_base64_encode :: "byte list \<Rightarrow> byte list" where
  "cs_base64_encode src = base64_pad (base64_encode_loop src) @ [0]"

section \<open>The decoder\<close>

definition from_b64_tab :: "byte list" where
  "from_b64_tab =
     [255, 255, 255, 255, 255, 255, 255, 255,
      255, 255, 255, 255, 255, 255, 255, 255,
      255, 255, 255, 255, 255, 255, 255, 255,
      255, 255, 255, 255, 255, 255, 255, 255,
      255, 255, 255, 255, 255, 255, 255, 255,
      255, 255, 255, 62, 255, 255, 255, 63,
      52, 53, 54, 55, 56, 57, 58, 59,
      60, 61, 255, 255, 255, 200, 255, 255,
      255, 0, 1, 2, 3, 4, 5, 6,
      7, 8, 9, 10, 11, 12, 13, 14,
      15, 16, 17, 18, 19, 20, 21, 22,
      23, 24, 25, 255, 255, 255, 255, 255,
      255, 26, 27, 28, 29, 30, 31, 32,
      33, 34, 35, 36, 37, 38, 39, 40,
      41, 42, 43, 44, 45, 46, 47, 48,
      49, 50, 51, 255, 255, 255, 255, 255]"

definition from_b64 :: "byte \<Rightarrow> byte" where
  "from_b64 ch = from_b64_tab ! unat (ch AND 127)"

text \<open>
  The loop of \<open>cs_base64_decode\<close>: the bytes written to \<open>dst\<close> and the number of input
  bytes left when it stops.
\<close>

fun base64_decode_loop :: "byte list \<Rightarrow> byte list \<times> nat" where
  "base64_decode_loop (s0 # s1 # s2 # s3 # s) =
     (let a = from_b64 s0; b = from_b64 s1; c = from_b64 s2; d = from_b64 s3 in
      if a \<noteq> 255 \<and> b \<noteq> 255 \<and> c \<noteq> 255 \<and> d \<noteq> 255 then
        (if a = 200 \<or> b = 200 then ([], length s)
         else let x = word_of_int (push_bit 2 (uint a) OR drop_bit 4 (uint b)) in
         if c = 200 then ([x], length s)
         else let y = word_of_int (push_bit 4 (uint b) OR drop_bit 2 (uint c)) in
         if d = 200 then ([x, y], length s)
         else let z = word_of_int (push_bit 6 (uint c) OR uint d);
                  (rest, l) = base64_decode_loop s
              in (x # y # z # rest, l))
      else ([], length (s0 # s1 # s2 # s3 # s)))"
| "base64_decode_loop s = ([], length s)"

text \<open>\<open>cs_base64_decode\<close> returns the bytes consumed; \<open>dst\<close> ends with a NUL.\<close>

definition cs_base64_decode :: "byte list \<Rightarrow> nat \<times> byte list" where
  "cs_base64_decode s =
     (let (out, l) = base64_decode_loop s in (length s - l, out @ [0]))"

section \<open>The two encoders agree\<close>

lemma base64_code_table: "\<forall>n \<in> set [0..<64]. cs_base64_code (int n) = b64 ! n
    \<and> from_b64 (b64 ! n) = word_of_int (int n)"
  by (simp add: upt_rec cs_base64_code_def b64_def bs_def from_b64_def from_b64_tab_def)

lemma uint_byte_less: "uint (a :: byte) < 256"
  using uint_bounded [of a] by simp

lemma and_mask_less: "x AND 3 < (4::int)" "x AND 15 < (16::int)" "x AND 63 < (64::int)"
  using AND_upper2 [of 3 x] AND_upper2 [of 15 x] AND_upper2 [of 63 x] by simp_all

lemma group_bounds:
  fixes a b c :: byte
  shows "0 \<le> b64_g0 (uint a)" "b64_g0 (uint a) < 64"
    and "0 \<le> b64_g1 (uint a) (uint b)" "b64_g1 (uint a) (uint b) < 64"
    and "0 \<le> b64_g2 (uint b) (uint c)" "b64_g2 (uint b) (uint c) < 64"
    and "0 \<le> b64_g3 (uint c)" "b64_g3 (uint c) < 64"
proof -
  note lt = uint_byte_less [of a] uint_byte_less [of b] uint_byte_less [of c]
  show "0 \<le> b64_g0 (uint a)" "0 \<le> b64_g1 (uint a) (uint b)" "0 \<le> b64_g2 (uint b) (uint c)"
    "0 \<le> b64_g3 (uint c)"
    by (simp_all add: group_defs)
  show "b64_g0 (uint a) < 64" using lt by (simp add: b64_g0_def drop_bit_eq_div)
  show "b64_g3 (uint c) < 64" by (simp add: b64_g3_def and_mask_less)
  have "push_bit 4 (uint a AND 3) < 2 ^ 6" "drop_bit 4 (uint b) < 2 ^ 6"
    using lt and_mask_less(1) [of "uint a"]
    by (simp_all only: push_bit_eq_mult drop_bit_eq_div) simp_all
  then show "b64_g1 (uint a) (uint b) < 64" unfolding b64_g1_def
    using OR_upper [of "push_bit 4 (uint a AND 3)" 6 "drop_bit 4 (uint b)"] by simp
  have "push_bit 2 (uint b AND 15) < 2 ^ 6" "drop_bit 6 (uint c) < 2 ^ 6"
    using lt and_mask_less(2) [of "uint b"]
    by (simp_all only: push_bit_eq_mult drop_bit_eq_div) simp_all
  then show "b64_g2 (uint b) (uint c) < 64" unfolding b64_g2_def
    using OR_upper [of "push_bit 2 (uint b AND 15)" 6 "drop_bit 6 (uint c)"] by simp
qed

lemmas group_bounds_0 = group_bounds(3,4) [where b = 0, simplified] group_bounds(5,6) [where c = 0, simplified]

lemma code_is_table: "0 \<le> v \<Longrightarrow> v < 64 \<Longrightarrow> cs_base64_code v = b64 ! nat v"
  using base64_code_table [THEN bspec, of "nat v"] by auto

lemma from_b64_code: "0 \<le> v \<Longrightarrow> v < 64 \<Longrightarrow> from_b64 (b64 ! nat v) = word_of_int v"
  using base64_code_table [THEN bspec, of "nat v"] by auto

abbreviation tb :: "int \<Rightarrow> byte" where "tb v \<equiv> b64 ! nat v"

lemma encode_loop_1: "base64_encode_loop [a] = [tb (b64_g0 (uint a)), tb (b64_g1 (uint a) 0)]"
  by (simp add: Let_def)

lemma encode_loop_2: "base64_encode_loop [a, b] =
    [tb (b64_g0 (uint a)), tb (b64_g1 (uint a) (uint b)), tb (b64_g2 (uint b) 0)]"
  by (simp add: Let_def)

lemma encode_loop_3: "base64_encode_loop (a # b # c # s) =
    tb (b64_g0 (uint a)) # tb (b64_g1 (uint a) (uint b)) # tb (b64_g2 (uint b) (uint c))
    # tb (b64_g3 (uint c)) # base64_encode_loop s"
  by (simp add: Let_def)

declare base64_encode_loop.simps(2) [simp del]
lemmas encode_loop_simps = encode_loop_1 encode_loop_2 encode_loop_3

lemma base64_pad_dvd: "4 dvd length xs \<Longrightarrow> base64_pad (xs @ ys) = xs @ base64_pad ys"
proof (induction ys rule: base64_pad.induct)
  case (1 ys)
  then have "length (xs @ ys) mod 4 = length ys mod 4"
    by (metis length_append mod_0_imp_dvd dvd_imp_mod_0 mod_add_left_eq add_0)
  with 1 show ?case
    by (simp add: base64_pad.simps [of "xs @ ys"] base64_pad.simps [of ys])
qed

lemma base64_pad_step: "base64_pad (a # b # c # d # ys) = a # b # c # d # base64_pad ys"
  using base64_pad_dvd [of "[a, b, c, d]" ys] by (simp add: numeral_eq_Suc)

lemma base64_pad_tail:
  "base64_pad [] = []" "base64_pad [x, y] = [x, y, 61, 61]" "base64_pad [x, y, z] = [x, y, z, 61]"
  by (simp_all add: base64_pad.simps)

text \<open>What the context keeps: the bytes not yet emitted are the first of the chunk.\<close>

definition b64_pending :: "'u cs_base64_ctx \<Rightarrow> byte list" where
  "b64_pending ctx = take (b64_chunk_size ctx) (b64_chunk ctx)"

definition b64_wf :: "'u cs_base64_ctx \<Rightarrow> bool" where
  "b64_wf ctx \<longleftrightarrow> length (b64_chunk ctx) = 3 \<and> b64_chunk_size ctx < 3"

lemmas emit_defs = cs_base64_emit_chunk_def cs_base64_emit_code_def b64_call_putc_def Let_def

lemma emit_chunk_full:
  assumes "b64_chunk ctx = [a, b, c]" and "b64_chunk_size ctx = 3"
  shows "cs_base64_emit_chunk ctx =
    ctx\<lparr>b64_user_data := fold (b64_putc ctx) (base64_encode_loop [a, b, c]) (b64_user_data ctx)\<rparr>"
  using assms
  by (simp add: emit_defs encode_loop_simps group_bounds code_is_table)

lemma emit_chunk_part:
  assumes "b64_chunk ctx = xs @ replicate (3 - length xs) 0" and "b64_chunk_size ctx = length xs"
    and "length xs = 1 \<or> length xs = 2"
  shows "cs_base64_emit_chunk ctx =
    ctx\<lparr>b64_user_data := fold (b64_putc ctx) (base64_encode_loop xs) (b64_user_data ctx)\<rparr>"
proof -
  from assms(3) consider a where "xs = [a]" | a b where "xs = [a, b]"
    by (auto simp: length_Suc_conv numeral_2_eq_2)
  then show ?thesis
    using assms(1,2)
    by cases (simp_all add: emit_defs encode_loop_simps group_bounds group_bounds_0
        code_is_table numeral_2_eq_2)
qed

text \<open>
  The output object once the rest \<open>xs\<close> of the input is written and the stream is
  finished, seen from a context: each byte written leaves it unchanged.
\<close>

definition b64_final :: "'u cs_base64_ctx \<Rightarrow> byte list \<Rightarrow> 'u" where
  "b64_final ctx xs =
     fold (b64_putc ctx) (base64_pad (base64_encode_loop (b64_pending ctx @ xs))) (b64_user_data ctx)"

lemma b64_wf_cases:
  assumes "b64_wf ctx"
  obtains (none) a b c where "b64_chunk ctx = [a, b, c]" "b64_chunk_size ctx = 0"
  | (one) a b c where "b64_chunk ctx = [a, b, c]" "b64_chunk_size ctx = 1"
  | (two) a b c where "b64_chunk ctx = [a, b, c]" "b64_chunk_size ctx = 2"
proof -
  from assms obtain a b c where "b64_chunk ctx = [a, b, c]"
    by (auto simp: b64_wf_def length_Suc_conv numeral_3_eq_3)
  moreover from assms have "b64_chunk_size ctx = 0 \<or> b64_chunk_size ctx = 1 \<or> b64_chunk_size ctx = 2"
    by (auto simp: b64_wf_def)
  ultimately show thesis using that by blast
qed

lemma b64_push_final:
  assumes "b64_wf ctx"
  shows "b64_wf (cs_base64_push ctx x) \<and> b64_final (cs_base64_push ctx x) xs = b64_final ctx (x # xs)"
  using assms
proof (cases ctx rule: b64_wf_cases)
  case (two a b c)
  then show ?thesis
    by (simp add: cs_base64_push_def emit_chunk_full [of _ a b x] b64_wf_def b64_final_def
        b64_pending_def encode_loop_simps base64_pad_step numeral_2_eq_2)
qed (simp_all add: cs_base64_push_def b64_wf_def b64_final_def b64_pending_def numeral_2_eq_2)

lemma b64_update_final:
  "b64_wf ctx \<Longrightarrow>
    b64_wf (cs_base64_update ctx xs) \<and> b64_final (cs_base64_update ctx xs) ys = b64_final ctx (xs @ ys)"
  by (induction xs arbitrary: ctx) (simp_all add: b64_push_final)

lemma b64_put_pad_user_data:
  "b64_user_data (b64_put_pad n ctx) = fold (b64_putc ctx) (replicate n 61) (b64_user_data ctx)"
  by (induction n arbitrary: ctx) (simp_all add: b64_call_putc_def)

lemma b64_finish_final:
  assumes "b64_wf ctx"
  shows "b64_user_data (cs_base64_finish ctx) = b64_final ctx []"
  using assms
proof (cases ctx rule: b64_wf_cases)
  case (one a b c)
  then show ?thesis
    by (simp add: cs_base64_finish_def emit_chunk_part [of _ "[a]"] b64_put_pad_user_data b64_final_def
        b64_pending_def encode_loop_simps base64_pad_tail b64_call_putc_def numeral_2_eq_2 Let_def)
next
  case (two a b c)
  then show ?thesis
    by (simp add: cs_base64_finish_def emit_chunk_part [of _ "[a, b]"] b64_put_pad_user_data b64_final_def
        b64_pending_def encode_loop_simps base64_pad_tail b64_call_putc_def numeral_2_eq_2 Let_def)
qed (simp add: cs_base64_finish_def b64_final_def b64_pending_def base64_pad_tail)

lemma b64_stream_final:
  "b64_wf ctx \<Longrightarrow>
    b64_wf (foldl cs_base64_update ctx pieces) \<and>
    b64_final (foldl cs_base64_update ctx pieces) [] = b64_final ctx (concat pieces)"
proof (induction pieces arbitrary: ctx)
  case (Cons p pieces)
  then show ?case
    using b64_update_final [of ctx p "concat pieces"] by simp
qed simp

section \<open>Decoding inverts encoding\<close>

lemma sextet_join:
  fixes a b c :: byte
  shows "word_of_int (push_bit 2 (b64_g0 (uint a)) OR drop_bit 4 (b64_g1 (uint a) (uint b))) = a"
    and "word_of_int (push_bit 4 (b64_g1 (uint a) (uint b)) OR drop_bit 2 (b64_g2 (uint b) (uint c))) = b"
    and "word_of_int (push_bit 6 (b64_g2 (uint b) (uint c)) OR b64_g3 (uint c)) = c"
proof -
  have m: "x AND 3 = take_bit 2 x" "x AND 15 = take_bit 4 x" "x AND 63 = take_bit 6 x" for x :: int
    by (simp_all add: take_bit_eq_mask mask_eq_exp_minus_1)
  have bit_byte: "bit (uint x) n \<longleftrightarrow> bit x n" for x :: byte and n
    by (simp add: bit_uint_iff) (auto dest: bit_imp_le_length)
  show "word_of_int (push_bit 2 (b64_g0 (uint a)) OR drop_bit 4 (b64_g1 (uint a) (uint b))) = a"
  proof (rule bit_word_eqI)
    fix n
    assume "n < LENGTH(8)"
    moreover have "2 \<le> n \<Longrightarrow> Suc (Suc (n - 2)) = n" by simp
    ultimately show "bit (word_of_int (push_bit 2 (b64_g0 (uint a)) OR
        drop_bit 4 (b64_g1 (uint a) (uint b))) :: byte) n = bit a n"
      by (cases "2 \<le> n") (auto simp: group_defs m bit_simps bit_byte dest: bit_imp_le_length)
  qed
  show "word_of_int (push_bit 4 (b64_g1 (uint a) (uint b)) OR drop_bit 2 (b64_g2 (uint b) (uint c))) = b"
  proof (rule bit_word_eqI)
    fix n
    assume "n < LENGTH(8)"
    then show "bit (word_of_int (push_bit 4 (b64_g1 (uint a) (uint b)) OR drop_bit 2 (b64_g2 (uint b) (uint c))) :: byte) n = bit b n"
      by (cases "4 \<le> n") (auto simp: group_defs m bit_simps bit_byte dest: bit_imp_le_length)
  qed
  show "word_of_int (push_bit 6 (b64_g2 (uint b) (uint c)) OR b64_g3 (uint c)) = c"
  proof (rule bit_word_eqI)
    fix n
    assume "n < LENGTH(8)"
    then show "bit (word_of_int (push_bit 6 (b64_g2 (uint b) (uint c)) OR b64_g3 (uint c)) :: byte) n = bit c n"
      by (cases "6 \<le> n") (auto simp: group_defs m bit_simps bit_byte dest: bit_imp_le_length)
  qed
qed

lemma sextet_word:
  assumes "0 \<le> v" and "v < 64"
  shows "from_b64 (tb v) \<noteq> 255" "from_b64 (tb v) \<noteq> 200" "uint (from_b64 (tb v)) = v"
proof -
  have u: "uint (from_b64 (tb v)) = v"
    using assms by (simp add: from_b64_code uint_word_of_int)
  then show "uint (from_b64 (tb v)) = v" .
  show "from_b64 (tb v) \<noteq> 255" "from_b64 (tb v) \<noteq> 200"
    using u assms by auto
qed

lemma from_b64_pad_char: "from_b64 61 = 200"
  by (simp add: from_b64_def from_b64_tab_def)

lemmas sextet_simps = sextet_word group_bounds group_bounds_0 from_b64_pad_char sextet_join
  sextet_join(1) [where b = 0, simplified] sextet_join(2) [where c = 0, simplified]

lemma decode_loop_encode: "base64_decode_loop (base64_pad (base64_encode_loop src)) = (src, 0)"
  by (induction src rule: list_induct_3step)
    (simp_all add: encode_loop_simps base64_pad_tail base64_pad_step sextet_simps)

text \<open>How far the decoder writes, on any input.\<close>

lemma decode_loop_bounds:
  "base64_decode_loop s = (out, l) \<Longrightarrow>
    l \<le> length s \<and> 4 dvd (length s - l) \<and> 4 * length out \<le> 3 * (length s - l)"
proof (induction s arbitrary: out l rule: base64_decode_loop.induct)
  case (1 s0 s1 s2 s3 s)
  obtain r k where rk: "base64_decode_loop s = (r, k)" by force
  show ?case
  proof (cases "from_b64 s0 = 255 \<or> from_b64 s1 = 255 \<or> from_b64 s2 = 255 \<or> from_b64 s3 = 255 \<or>
      from_b64 s0 = 200 \<or> from_b64 s1 = 200 \<or> from_b64 s2 = 200 \<or> from_b64 s3 = 200")
    case True
    with "1.prems" show ?thesis by (auto simp: Let_def split: if_splits)
  next
    case False
    then have IH: "k \<le> length s" "4 dvd (length s - k)" "4 * length r \<le> 3 * (length s - k)"
      using rk "1.IH" by auto
    then obtain q where q: "length s = 4 * q + k" by (metis dvdE le_add_diff_inverse2)
    have "l = k" "length out = 3 + length r"
      using False "1.prems" rk by (auto simp: Let_def)
    moreover have "length (s0 # s1 # s2 # s3 # s) - l = 4 * (q + 1)"
      using q \<open>l = k\<close> by simp
    ultimately show ?thesis using IH q by simp
  qed
qed auto

section \<open>Properties\<close>

text \<open>
  C36. Streaming equivalence: initialise a context (whatever it held before, its array
  has three elements), feed the input in any pieces with \<open>cs_base64_update\<close> and call
  \<open>cs_base64_finish\<close>: the callback has received, in order, exactly the characters that
  \<open>cs_base64_encode\<close> stores for the whole input, without the final NUL.
\<close>

theorem base64_stream_eq_oneshot:
  assumes "length (b64_chunk ctx) = 3"
  shows "b64_user_data (cs_base64_finish (foldl cs_base64_update (cs_base64_init ctx putc u) pieces)) =
    fold putc (butlast (cs_base64_encode (concat pieces))) u"
proof -
  let ?c = "cs_base64_init ctx putc u"
  have "b64_wf ?c" using assms by (simp add: cs_base64_init_def b64_wf_def)
  then have "b64_user_data (cs_base64_finish (foldl cs_base64_update ?c pieces)) = b64_final ?c (concat pieces)"
    by (simp add: b64_finish_final b64_stream_final)
  then show ?thesis
    by (simp add: b64_final_def b64_pending_def cs_base64_init_def cs_base64_encode_def)
qed

theorem base64_stream_eq_oneshot_witness:
  "b64_user_data (cs_base64_finish (foldl cs_base64_update
     (cs_base64_init \<lparr>b64_putc = (\<lambda>_ u. u), b64_chunk = [7, 7, 7], b64_chunk_size = 2,
        b64_user_data = []\<rparr> (\<lambda>ch u. u @ [ch]) []) [bs ''h'', bs ''ell'', bs ''o'']))
   = bs ''aGVsbG8=''"
  by (subst base64_stream_eq_oneshot)
    (simp_all add: bs_def cs_base64_encode_def base64_pad.simps b64_def encode_loop_simps group_defs)

text \<open>
  Round trip: decoding the characters that \<open>cs_base64_encode\<close> produced (without the
  final NUL) consumes all of them and stores the original bytes followed by a NUL.
\<close>

lemma base64_decode_encode:
  "cs_base64_decode (butlast (cs_base64_encode src)) =
    (length (butlast (cs_base64_encode src)), src @ [0])"
  by (simp add: cs_base64_decode_def cs_base64_encode_def decode_loop_encode)

text \<open>
  Bounds: on any input, valid or not, the decoder consumes a multiple of four bytes,
  no more than it was given, and writes at most three bytes per four consumed plus the
  NUL, so a destination of \<open>3 * (len / 4) + 1\<close> bytes is never overrun.
\<close>

lemma base64_decode_bounds:
  "case cs_base64_decode s of (consumed, dst) \<Rightarrow>
     consumed \<le> length s \<and> 4 dvd consumed \<and> length dst \<le> 3 * (length s div 4) + 1"
proof -
  obtain out l where l: "base64_decode_loop s = (out, l)" by force
  note b = decode_loop_bounds [OF this]
  then obtain k where k: "length s - l = 4 * k" by (auto elim!: dvdE)
  with b have "length out \<le> 3 * k" by simp
  moreover have "k \<le> length s div 4"
    using k div_le_mono [of "4 * k" "length s" 4] by simp
  ultimately have "length out \<le> 3 * (length s div 4)" by linarith
  with b show ?thesis by (simp add: cs_base64_decode_def l)
qed

end
