(* ===== verification/Hash_Stream.thy ===== *)
theory Hash_Stream
  imports Prelude
begin

text \<open>
  What the two block hashes of Mongoose (\<open>common/md5.c\<close>, \<open>common/sha1.c\<close>) share: the
  64-byte block scheme, the 64-bit message length kept as two \<open>uint32_t\<close>, and the
  interface of an incremental hash (initialise, update any number of times, finalise)
  with the law a client relies on: only the concatenation of the pieces matters.
\<close>

unbundle bit_operations_syntax

section \<open>Blocks of 64 bytes\<close>

function absorb :: "('st \<Rightarrow> byte list \<Rightarrow> 'st) \<Rightarrow> 'st \<Rightarrow> byte list \<Rightarrow> 'st" where
  "absorb f st xs = (if length xs < 64 then st else absorb f (f st (take 64 xs)) (drop 64 xs))"
  by pat_completeness auto
termination by (relation "measure (\<lambda>(f, st, xs). length xs)") auto

declare absorb.simps [simp del]

definition leftover :: "byte list \<Rightarrow> byte list" where
  "leftover xs = drop (64 * (length xs div 64)) xs"

lemma length_leftover: "length (leftover xs) = length xs mod 64"
  by (simp add: leftover_def minus_mult_div_eq_mod)

lemma length_leftover_less: "length (leftover xs) < 64"
  by (simp add: length_leftover)

lemma absorb_short: "length xs < 64 \<Longrightarrow> absorb f st xs = st"
  by (simp add: absorb.simps)

lemma leftover_short: "length xs < 64 \<Longrightarrow> leftover xs = xs"
  by (simp add: leftover_def)

lemma absorb_block: "length b = 64 \<Longrightarrow> absorb f st (b @ xs) = absorb f (f st b) xs"
  by (subst absorb.simps) simp

lemma absorb_block1: "length b = 64 \<Longrightarrow> absorb f st b = f st b"
  using absorb_block [of b f st "[]"] by (simp add: absorb_short)

lemma leftover_drop: "64 \<le> length xs \<Longrightarrow> leftover (drop 64 xs) = leftover xs"
proof -
  assume "64 \<le> length xs"
  then have "length xs div 64 = Suc ((length xs - 64) div 64)"
    by (simp add: le_div_geq)
  then show ?thesis by (simp add: leftover_def ac_simps)
qed

lemma absorb_append: "absorb f st (m @ xs) = absorb f (absorb f st m) (leftover m @ xs)"
proof (induction f st m rule: absorb.induct)
  case (1 f st m)
  show ?case
  proof (cases "length m < 64")
    case True
    then show ?thesis by (simp add: absorb_short leftover_short)
  next
    case False
    with 1 have "absorb f (f st (take 64 m)) (drop 64 m @ xs) =
        absorb f (absorb f (f st (take 64 m)) (drop 64 m)) (leftover (drop 64 m) @ xs)"
      by simp
    with False show ?thesis
      by (simp add: absorb.simps [of f st "m @ xs"] absorb.simps [of f st m] leftover_drop)
  qed
qed

lemma leftover_append: "leftover (m @ xs) = leftover (leftover m @ xs)"
proof -
  let ?q = "length m div 64"
  have l: "length (leftover m @ xs) + 64 * ?q = length (m @ xs)"
    by (simp add: length_leftover)
  have "length (m @ xs) div 64 = ?q + length (leftover m @ xs) div 64"
    using l by (metis add.commute div_mult_self4 zero_neq_numeral)
  then have "leftover (m @ xs) = drop (64 * (length (leftover m @ xs) div 64)) (drop (64 * ?q) (m @ xs))"
    by (simp add: leftover_def algebra_simps)
  also have "drop (64 * ?q) (m @ xs) = leftover m @ xs"
    by (simp add: leftover_def)
  finally show ?thesis by (simp add: leftover_def)
qed

text \<open>One update, by the fill level of the partial block.\<close>

lemma absorb_fits:
  assumes "length d < 64 - length m mod 64"
  shows "absorb f st (m @ d) = absorb f st m" "leftover (m @ d) = leftover m @ d"
    "length (m @ d) mod 64 = length m mod 64 + length d"
proof -
  have s: "length (leftover m @ d) < 64" using assms by (simp add: length_leftover)
  show "absorb f st (m @ d) = absorb f st m" using s by (simp add: absorb_append [of _ _ m] absorb_short)
  show l: "leftover (m @ d) = leftover m @ d"
    using s by (simp add: leftover_append [of m] leftover_short)
  show "length (m @ d) mod 64 = length m mod 64 + length d"
    using arg_cong [OF l, of length] by (simp add: length_leftover)
qed

lemma absorb_spills:
  assumes "64 - length m mod 64 \<le> length d"
  shows "absorb f st (m @ d) =
      absorb f (f (absorb f st m) (leftover m @ take (64 - length m mod 64) d)) (drop (64 - length m mod 64) d)"
    "leftover (m @ d) = leftover (drop (64 - length m mod 64) d)"
    "length (m @ d) mod 64 = length (drop (64 - length m mod 64) d) mod 64"
proof -
  let ?blk = "leftover m @ take (64 - length m mod 64) d"
  let ?rest = "drop (64 - length m mod 64) d"
  have lb: "length ?blk = 64" using assms by (simp add: length_leftover)
  have md: "leftover m @ d = ?blk @ ?rest" by simp
  show "absorb f st (m @ d) = absorb f (f (absorb f st m) ?blk) ?rest"
    unfolding absorb_append [of _ _ m] md using lb by (simp add: absorb_block del: append_assoc)
  show l: "leftover (m @ d) = leftover ?rest"
    unfolding leftover_append [of m] md using leftover_drop [of "?blk @ ?rest"] lb by (simp add: length_leftover)
  show "length (m @ d) mod 64 = length ?rest mod 64"
    unfolding length_leftover [symmetric] l ..
qed

lemma leftover_aligned: "length m mod 64 = 0 \<Longrightarrow> leftover m = []"
  using length_leftover [of m] by simp

lemma absorb_aligned:
  assumes "length m mod 64 = 0"
  shows "absorb f st (m @ d) = absorb f (absorb f st m) d" "leftover (m @ d) = leftover d"
    "length (m @ d) mod 64 = length d mod 64"
  using assms mod_add_left_eq [of "length m" 64 "length d"]
  by (simp_all add: absorb_append [of _ _ m] leftover_append [of m] leftover_aligned)

section \<open>The message length in two words\<close>

text \<open>\<open>if ((lo = t + (len << 3)) < t) hi++; hi += len >> 29\<close>, as both hashes do it.\<close>

definition count_add :: "u32 \<Rightarrow> u32 \<times> u32 \<Rightarrow> u32 \<times> u32" where
  "count_add len = (\<lambda>(lo, hi).
     let lo' = lo + push_bit 3 len;
         hi' = (if lo' < lo then hi + 1 else hi)
     in (lo', hi' + drop_bit 29 len))"

definition count_val :: "u32 \<times> u32 \<Rightarrow> nat" where
  "count_val = (\<lambda>(lo, hi). unat lo + 2 ^ 32 * unat hi)"

lemma add_carry:
  fixes a b :: nat
  assumes "a < M" "b < M"
  shows "(a + b) mod M + M * of_bool ((a + b) mod M < a) = a + b"
proof (cases "a + b < M")
  case False
  then have "(a + b) mod M = a + b - M"
    using assms by (simp add: mod_if)
  with False assms show ?thesis by simp
qed simp

lemma mod_digit: "r < M \<Longrightarrow> r + M * (x mod M) = (r + M * x) mod (M * M)" for r M x :: nat
  by (simp add: mod_mult2_eq)

lemma count_add_val:
  "count_val (count_add (of_nat len) c) = (count_val c + 8 * len) mod 2 ^ 64" if "len < 2 ^ 32"
proof -
  obtain lo hi where c: "c = (lo, hi)" by force
  let ?M = "2 ^ 32 :: nat"
  let ?p = "push_bit 3 (of_nat len :: u32)"
  have up: "unat ?p = 8 * len mod ?M"
    using that by (simp add: push_bit_eq_mult unat_word_ariths unat_of_nat mult.commute)
  have ud: "unat (drop_bit 29 (of_nat len :: u32)) = 8 * len div ?M"
    using that div_mult2_eq [of "8 * len" 8 536870912]
    by (simp add: drop_bit_eq_div unat_div unat_of_nat)
  have lo: "unat (lo + ?p) = (unat lo + unat ?p) mod ?M"
    by (simp add: unat_word_ariths)
  have carry: "unat (lo + ?p) + ?M * of_bool (lo + ?p < lo) = unat lo + unat ?p"
    unfolding word_less_nat_alt lo
    by (rule add_carry) (use unat_u32_less [of lo] unat_u32_less [of ?p] in simp_all)
  let ?k = "of_bool (lo + ?p < lo) :: nat"
  have hi: "unat ((if lo + ?p < lo then hi + 1 else hi) + drop_bit 29 (of_nat len)) =
      (unat hi + ?k + 8 * len div ?M) mod ?M"
    by (simp add: unat_word_ariths ud mod_simps)
  have "count_val (count_add (of_nat len) c) =
      unat (lo + ?p) + ?M * ((unat hi + ?k + 8 * len div ?M) mod ?M)"
    by (simp add: c count_add_def count_val_def Let_def hi)
  also have "\<dots> = (unat (lo + ?p) + ?M * (unat hi + ?k + 8 * len div ?M)) mod (?M * ?M)"
  proof -
    have "unat (lo + ?p) < ?M" using unat_u32_less [of "lo + ?p"] by simp
    then show ?thesis by (rule mod_digit)
  qed
  also have "unat (lo + ?p) + ?M * (unat hi + ?k + 8 * len div ?M) =
      unat lo + ?M * unat hi + 8 * len"
    using carry up mult_div_mod_eq [of ?M "8 * len"] by (simp add: algebra_simps)
  finally show ?thesis by (simp add: c count_val_def)
qed

text \<open>The block fill level that both hashes read off the low word.\<close>

lemma count_fill:
  assumes "count_val (lo, hi) = 8 * n mod 2 ^ 64"
  shows "unat (drop_bit 3 lo AND 63) = n mod 64"
proof -
  have lt: "unat lo < 2 ^ 32" using unat_u32_less [of lo] by simp
  have "unat lo = count_val (lo, hi) mod 2 ^ 32"
    using lt by (simp add: count_val_def)
  also have "\<dots> = 8 * n mod 2 ^ 32"
    unfolding assms by (rule mod_mod_cancel) (simp add: le_imp_power_dvd)
  finally have "unat lo = 8 * (n mod 2 ^ 29)"
    using mod_mult_mult1 [of 8 n "2 ^ 29"] by simp
  then have "unat lo div 8 mod 64 = n mod 64"
    by (simp add: mod_mod_cancel)
  moreover have "drop_bit 3 lo AND 63 = take_bit 6 (drop_bit 3 lo)"
    by (simp add: take_bit_eq_mask mask_eq_exp_minus_1)
  ultimately show ?thesis
    by (simp add: take_bit_eq_mod drop_bit_eq_div unat_div unat_mod)
qed

section \<open>Words as bytes\<close>

definition le32_bytes :: "u32 \<Rightarrow> byte list" where
  "le32_bytes w = [ucast w, ucast (drop_bit 8 w), ucast (drop_bit 16 w), ucast (drop_bit 24 w)]"

definition be32_bytes :: "u32 \<Rightarrow> byte list" where
  "be32_bytes w = [ucast (drop_bit 24 w), ucast (drop_bit 16 w), ucast (drop_bit 8 w), ucast w]"

definition le32 :: "byte \<Rightarrow> byte \<Rightarrow> byte \<Rightarrow> byte \<Rightarrow> u32" where
  "le32 a b c d = ucast a OR push_bit 8 (ucast b) OR push_bit 16 (ucast c) OR push_bit 24 (ucast d)"

text \<open>An array of bytes read through a \<open>uint32_t *\<close> on a little-endian machine.\<close>

fun le_words :: "byte list \<Rightarrow> u32 list" where
  "le_words (a # b # c # d # xs) = le32 a b c d # le_words xs"
| "le_words _ = []"

lemma length_le32_bytes [simp]: "length (le32_bytes w) = 4"
  and length_be32_bytes [simp]: "length (be32_bytes w) = 4"
  by (simp_all add: le32_bytes_def be32_bytes_def)

text \<open>The 64-bit message length of the standards, least or most significant byte first.\<close>

definition le64_of_nat :: "nat \<Rightarrow> byte list" where
  "le64_of_nat n = map (\<lambda>i. of_nat (n div 256 ^ i)) [0..<8]"

definition be64_of_nat :: "nat \<Rightarrow> byte list" where
  "be64_of_nat n = rev (le64_of_nat n)"

lemma ucast_byte_of_nat: "(ucast (w :: u32) :: byte) = of_nat (unat w)"
  by (simp only: of_nat_unat)

lemma ucast_drop_byte: "(ucast (drop_bit k (w :: u32)) :: byte) = of_nat (unat w div 2 ^ k)"
  unfolding ucast_byte_of_nat unat_drop_bit_eq by (simp only: drop_bit_eq_div)

lemma of_nat_byte_eq: "(of_nat a = (of_nat b :: byte)) \<longleftrightarrow> a mod 256 = b mod 256"
  by (simp add: word_of_nat_eq_iff take_bit_eq_mod)

lemma count_bytes_le:
  assumes "count_val (lo, hi) = n"
  shows "le32_bytes lo @ le32_bytes hi = le64_of_nat n"
proof -
  have n: "n = unat lo + 2 ^ 32 * unat hi" and lt: "unat lo < 2 ^ 32"
    using assms unat_u32_less [of lo] by (simp_all add: count_val_def)
  have low: "(unat lo + c * (256 * e) * unat hi) div c mod 256 = unat lo div c mod 256"
    if "0 < c" for c e :: nat
    using that by (simp add: mult.assoc)
  have high: "n div (2 ^ 32 * c) = unat hi div c" for c
    using lt by (simp add: n div_mult2_eq)
  have byte: "(of_nat (unat lo div c) :: byte) = of_nat (n div c)" if "2 ^ 32 = c * (256 * e)" for c e
  proof -
    from that have "0 < c" by (cases c) auto
    from low [OF this, of e] show ?thesis by (simp add: of_nat_byte_eq n that [symmetric])
  qed
  have "le64_of_nat n = map (\<lambda>i. of_nat (n div 2 ^ i)) [0, 8, 16, 24, 32, 40, 48, 56]"
    by (simp add: le64_of_nat_def upt_rec)
  also have "\<dots> = map (\<lambda>i. of_nat (unat lo div 2 ^ i)) [0, 8, 16, 24] @
      map (\<lambda>i. of_nat (unat hi div 2 ^ i)) [0, 8, 16, 24]"
    using byte [of 1 "2 ^ 24"] byte [of "2 ^ 8" "2 ^ 16"] byte [of "2 ^ 16" "2 ^ 8"] byte [of "2 ^ 24" 1]
      high [of 1] high [of "2 ^ 8"] high [of "2 ^ 16"] high [of "2 ^ 24"]
    by (simp del: of_nat_unat)
  also have "\<dots> = le32_bytes lo @ le32_bytes hi"
    unfolding le32_bytes_def ucast_drop_byte by simp
  finally show ?thesis by simp
qed

section \<open>The incremental interface\<close>

text \<open>
  \<open>repr c m\<close> says that context \<open>c\<close> stands for the message \<open>m\<close> written so far; \<open>piece\<close>
  bounds what one update call accepts; \<open>digest\<close> is the hash of a whole message.
\<close>

locale incremental_hash =
  fixes init :: 'c
    and update :: "'c \<Rightarrow> byte list \<Rightarrow> 'c"
    and final :: "'c \<Rightarrow> byte list"
    and piece :: "byte list \<Rightarrow> bool"
    and repr :: "'c \<Rightarrow> byte list \<Rightarrow> bool"
    and digest :: "byte list \<Rightarrow> byte list"
  assumes init_repr: "repr init []"
    and update_repr: "repr c m \<Longrightarrow> piece d \<Longrightarrow> repr (update c d) (m @ d)"
    and final_digest: "repr c m \<Longrightarrow> final c = digest m"
begin

lemma updates_repr: "repr c m \<Longrightarrow> list_all piece ds \<Longrightarrow> repr (foldl update c ds) (m @ concat ds)"
proof (induction ds arbitrary: c m)
  case (Cons d ds)
  then show ?case using update_repr [of c m d] Cons.IH [of "update c d" "m @ d"] by simp
qed simp

lemma hash_pieces:
  assumes "list_all piece ds"
  shows "final (foldl update init ds) = digest (concat ds)"
  using updates_repr [OF init_repr assms] by (simp add: final_digest)

lemma hash_only_concat:
  assumes "list_all piece ds" "list_all piece es" "concat ds = concat es"
  shows "final (foldl update init ds) = final (foldl update init es)"
  using assms by (simp add: hash_pieces)

end

end
