(* ===== verification/Md5.thy ===== *)
theory Md5
  imports Hash_Stream
begin

text \<open>
  The MD5 code of Mongoose (\<open>common/md5.c\<close>): the context, \<open>MD5_Init\<close>, \<open>MD5_Update\<close> with
  its partial-block buffer, \<open>MD5_Final\<close> with its in-place padding, \<open>cs_to_hex\<close> and
  \<open>cs_md5\<close>. The machine is little-endian, so \<open>byteReverse\<close> does nothing and the
  buffer is read through \<open>uint32_t *\<close> least significant byte first. Shown: however a
  message is cut into pieces, the digest is that of the padded message, block by block.
\<close>

unbundle bit_operations_syntax

type_synonym md5_state = "u32 \<times> u32 \<times> u32 \<times> u32"

record md5_ctx =
  md5_buf :: md5_state
  md5_bits :: "u32 \<times> u32"
  md5_in :: "byte list"

section \<open>The compression function\<close>

definition F1 :: "u32 \<Rightarrow> u32 \<Rightarrow> u32 \<Rightarrow> u32" where "F1 x y z = z XOR (x AND (y XOR z))"
definition F2 :: "u32 \<Rightarrow> u32 \<Rightarrow> u32 \<Rightarrow> u32" where "F2 x y z = F1 z x y"
definition F3 :: "u32 \<Rightarrow> u32 \<Rightarrow> u32 \<Rightarrow> u32" where "F3 x y z = x XOR y XOR z"
definition F4 :: "u32 \<Rightarrow> u32 \<Rightarrow> u32 \<Rightarrow> u32" where "F4 x y z = y XOR (x OR NOT z)"

text \<open>\<open>MD5STEP\<close>: the new value of \<open>w\<close>.\<close>

definition MD5STEP ::
  "(u32 \<Rightarrow> u32 \<Rightarrow> u32 \<Rightarrow> u32) \<Rightarrow> u32 \<Rightarrow> u32 \<Rightarrow> u32 \<Rightarrow> u32 \<Rightarrow> u32 \<Rightarrow> nat \<Rightarrow> u32" where
  "MD5STEP f w x y z data s =
     (let w1 = w + (f x y z + data);
          w2 = push_bit s w1 OR drop_bit (32 - s) w1
      in w2 + x)"

text \<open>The four rounds of \<open>MD5Transform\<close>, sixteen steps each, on the working registers.\<close>

definition md5_round1 :: "u32 list \<Rightarrow> md5_state \<Rightarrow> md5_state" where
  "md5_round1 inw = (\<lambda>(a, b, c, d). let
       a = MD5STEP F1 a b c d (inw ! 0 + 0xd76aa478) 7;
       d = MD5STEP F1 d a b c (inw ! 1 + 0xe8c7b756) 12;
       c = MD5STEP F1 c d a b (inw ! 2 + 0x242070db) 17;
       b = MD5STEP F1 b c d a (inw ! 3 + 0xc1bdceee) 22;
       a = MD5STEP F1 a b c d (inw ! 4 + 0xf57c0faf) 7;
       d = MD5STEP F1 d a b c (inw ! 5 + 0x4787c62a) 12;
       c = MD5STEP F1 c d a b (inw ! 6 + 0xa8304613) 17;
       b = MD5STEP F1 b c d a (inw ! 7 + 0xfd469501) 22;
       a = MD5STEP F1 a b c d (inw ! 8 + 0x698098d8) 7;
       d = MD5STEP F1 d a b c (inw ! 9 + 0x8b44f7af) 12;
       c = MD5STEP F1 c d a b (inw ! 10 + 0xffff5bb1) 17;
       b = MD5STEP F1 b c d a (inw ! 11 + 0x895cd7be) 22;
       a = MD5STEP F1 a b c d (inw ! 12 + 0x6b901122) 7;
       d = MD5STEP F1 d a b c (inw ! 13 + 0xfd987193) 12;
       c = MD5STEP F1 c d a b (inw ! 14 + 0xa679438e) 17;
       b = MD5STEP F1 b c d a (inw ! 15 + 0x49b40821) 22
     in (a, b, c, d))"

definition md5_round2 :: "u32 list \<Rightarrow> md5_state \<Rightarrow> md5_state" where
  "md5_round2 inw = (\<lambda>(a, b, c, d). let
       a = MD5STEP F2 a b c d (inw ! 1 + 0xf61e2562) 5;
       d = MD5STEP F2 d a b c (inw ! 6 + 0xc040b340) 9;
       c = MD5STEP F2 c d a b (inw ! 11 + 0x265e5a51) 14;
       b = MD5STEP F2 b c d a (inw ! 0 + 0xe9b6c7aa) 20;
       a = MD5STEP F2 a b c d (inw ! 5 + 0xd62f105d) 5;
       d = MD5STEP F2 d a b c (inw ! 10 + 0x02441453) 9;
       c = MD5STEP F2 c d a b (inw ! 15 + 0xd8a1e681) 14;
       b = MD5STEP F2 b c d a (inw ! 4 + 0xe7d3fbc8) 20;
       a = MD5STEP F2 a b c d (inw ! 9 + 0x21e1cde6) 5;
       d = MD5STEP F2 d a b c (inw ! 14 + 0xc33707d6) 9;
       c = MD5STEP F2 c d a b (inw ! 3 + 0xf4d50d87) 14;
       b = MD5STEP F2 b c d a (inw ! 8 + 0x455a14ed) 20;
       a = MD5STEP F2 a b c d (inw ! 13 + 0xa9e3e905) 5;
       d = MD5STEP F2 d a b c (inw ! 2 + 0xfcefa3f8) 9;
       c = MD5STEP F2 c d a b (inw ! 7 + 0x676f02d9) 14;
       b = MD5STEP F2 b c d a (inw ! 12 + 0x8d2a4c8a) 20
     in (a, b, c, d))"

definition md5_round3 :: "u32 list \<Rightarrow> md5_state \<Rightarrow> md5_state" where
  "md5_round3 inw = (\<lambda>(a, b, c, d). let
       a = MD5STEP F3 a b c d (inw ! 5 + 0xfffa3942) 4;
       d = MD5STEP F3 d a b c (inw ! 8 + 0x8771f681) 11;
       c = MD5STEP F3 c d a b (inw ! 11 + 0x6d9d6122) 16;
       b = MD5STEP F3 b c d a (inw ! 14 + 0xfde5380c) 23;
       a = MD5STEP F3 a b c d (inw ! 1 + 0xa4beea44) 4;
       d = MD5STEP F3 d a b c (inw ! 4 + 0x4bdecfa9) 11;
       c = MD5STEP F3 c d a b (inw ! 7 + 0xf6bb4b60) 16;
       b = MD5STEP F3 b c d a (inw ! 10 + 0xbebfbc70) 23;
       a = MD5STEP F3 a b c d (inw ! 13 + 0x289b7ec6) 4;
       d = MD5STEP F3 d a b c (inw ! 0 + 0xeaa127fa) 11;
       c = MD5STEP F3 c d a b (inw ! 3 + 0xd4ef3085) 16;
       b = MD5STEP F3 b c d a (inw ! 6 + 0x04881d05) 23;
       a = MD5STEP F3 a b c d (inw ! 9 + 0xd9d4d039) 4;
       d = MD5STEP F3 d a b c (inw ! 12 + 0xe6db99e5) 11;
       c = MD5STEP F3 c d a b (inw ! 15 + 0x1fa27cf8) 16;
       b = MD5STEP F3 b c d a (inw ! 2 + 0xc4ac5665) 23
     in (a, b, c, d))"

definition md5_round4 :: "u32 list \<Rightarrow> md5_state \<Rightarrow> md5_state" where
  "md5_round4 inw = (\<lambda>(a, b, c, d). let
       a = MD5STEP F4 a b c d (inw ! 0 + 0xf4292244) 6;
       d = MD5STEP F4 d a b c (inw ! 7 + 0x432aff97) 10;
       c = MD5STEP F4 c d a b (inw ! 14 + 0xab9423a7) 15;
       b = MD5STEP F4 b c d a (inw ! 5 + 0xfc93a039) 21;
       a = MD5STEP F4 a b c d (inw ! 12 + 0x655b59c3) 6;
       d = MD5STEP F4 d a b c (inw ! 3 + 0x8f0ccc92) 10;
       c = MD5STEP F4 c d a b (inw ! 10 + 0xffeff47d) 15;
       b = MD5STEP F4 b c d a (inw ! 1 + 0x85845dd1) 21;
       a = MD5STEP F4 a b c d (inw ! 8 + 0x6fa87e4f) 6;
       d = MD5STEP F4 d a b c (inw ! 15 + 0xfe2ce6e0) 10;
       c = MD5STEP F4 c d a b (inw ! 6 + 0xa3014314) 15;
       b = MD5STEP F4 b c d a (inw ! 13 + 0x4e0811a1) 21;
       a = MD5STEP F4 a b c d (inw ! 4 + 0xf7537e82) 6;
       d = MD5STEP F4 d a b c (inw ! 11 + 0xbd3af235) 10;
       c = MD5STEP F4 c d a b (inw ! 2 + 0x2ad7d2bb) 15;
       b = MD5STEP F4 b c d a (inw ! 9 + 0xeb86d391) 21
     in (a, b, c, d))"

definition MD5Transform :: "md5_state \<Rightarrow> u32 list \<Rightarrow> md5_state" where
  "MD5Transform buf inw =
     (let (a, b, c, d) = md5_round4 inw (md5_round3 inw (md5_round2 inw (md5_round1 inw buf)));
          (a0, b0, c0, d0) = buf
      in (a0 + a, b0 + b, c0 + c, d0 + d))"

section \<open>The incremental hash\<close>

definition MD5_Init :: "md5_ctx \<Rightarrow> md5_ctx" where
  "MD5_Init ctx = ctx\<lparr>md5_buf := (0x67452301, 0xefcdab89, 0x98badcfe, 0x10325476),
                      md5_bits := (0, 0)\<rparr>"

text \<open>\<open>while (len >= 64)\<close> and the final \<open>memcpy\<close> of what remains.\<close>

function md5_update_blocks :: "md5_ctx \<Rightarrow> byte list \<Rightarrow> md5_ctx" where
  "md5_update_blocks ctx buf =
     (if length buf \<ge> 64
      then let ctx1 = ctx\<lparr>md5_in := blit 0 (take 64 buf) (md5_in ctx)\<rparr>;
               ctx2 = ctx1\<lparr>md5_buf := MD5Transform (md5_buf ctx1) (le_words (md5_in ctx1))\<rparr>
           in md5_update_blocks ctx2 (drop 64 buf)
      else ctx\<lparr>md5_in := blit 0 buf (md5_in ctx)\<rparr>)"
  by pat_completeness auto
termination by (relation "measure (\<lambda>(ctx, buf). length buf)") auto

declare md5_update_blocks.simps [simp del]

definition MD5_Update :: "md5_ctx \<Rightarrow> byte list \<Rightarrow> md5_ctx" where
  "MD5_Update ctx buf =
     (let len = length buf;
          t0 = fst (md5_bits ctx);
          ctx1 = ctx\<lparr>md5_bits := count_add (of_nat len) (md5_bits ctx)\<rparr>;
          t = unat (drop_bit 3 t0 AND 0x3f)
      in if t \<noteq> 0 then
           (if len < 64 - t then ctx1\<lparr>md5_in := blit t buf (md5_in ctx1)\<rparr>
            else let ctx2 = ctx1\<lparr>md5_in := blit t (take (64 - t) buf) (md5_in ctx1)\<rparr>;
                     ctx3 = ctx2\<lparr>md5_buf := MD5Transform (md5_buf ctx2) (le_words (md5_in ctx2))\<rparr>
                 in md5_update_blocks ctx3 (drop (64 - t) buf))
         else md5_update_blocks ctx1 buf)"

definition MD5_Final :: "md5_ctx \<Rightarrow> byte list" where
  "MD5_Final ctx =
     (let count0 = unat (drop_bit 3 (fst (md5_bits ctx)) AND 0x3F);
          ctx1 = ctx\<lparr>md5_in := blit count0 [0x80] (md5_in ctx)\<rparr>;
          p = count0 + 1;
          count = 64 - 1 - count0;
          ctx2 = (if count < 8
                  then let c1 = ctx1\<lparr>md5_in := blit p (replicate count 0) (md5_in ctx1)\<rparr>;
                           c2 = c1\<lparr>md5_buf := MD5Transform (md5_buf c1) (le_words (md5_in c1))\<rparr>
                       in c2\<lparr>md5_in := blit 0 (replicate 56 0) (md5_in c2)\<rparr>
                  else ctx1\<lparr>md5_in := blit p (replicate (count - 8) 0) (md5_in ctx1)\<rparr>);
          ctx3 = ctx2\<lparr>md5_in := blit 56 (le32_bytes (fst (md5_bits ctx2)) @ le32_bytes (snd (md5_bits ctx2)))
                                (md5_in ctx2)\<rparr>;
          (a, b, c, d) = MD5Transform (md5_buf ctx3) (le_words (md5_in ctx3))
      in le32_bytes a @ le32_bytes b @ le32_bytes c @ le32_bytes d)"

definition hex_digits :: "byte list" where
  "hex_digits = bs ''0123456789abcdef''"

text \<open>\<open>cs_to_hex\<close> writes two characters per byte and a NUL.\<close>

fun cs_to_hex :: "byte list \<Rightarrow> byte list" where
  "cs_to_hex [] = [0]"
| "cs_to_hex (p # ps) =
     hex_digits ! unat (drop_bit 4 p) # hex_digits ! unat (p AND 0x0f) # cs_to_hex ps"

text \<open>
  \<open>cs_md5\<close>: the variadic (pointer, length) pairs are the list of pieces; \<open>junk\<close> is the
  uninitialised context on the stack.
\<close>

definition cs_md5 :: "md5_ctx \<Rightarrow> byte list list \<Rightarrow> byte list" where
  "cs_md5 junk pieces = cs_to_hex (MD5_Final (foldl MD5_Update (MD5_Init junk) pieces))"

section \<open>MD5 of a whole message\<close>

definition md5_block :: "md5_state \<Rightarrow> byte list \<Rightarrow> md5_state" where
  "md5_block st b = MD5Transform st (le_words b)"

definition md5_iv :: md5_state where
  "md5_iv = (0x67452301, 0xefcdab89, 0x98badcfe, 0x10325476)"

text \<open>RFC 1321, section 3: a 1 bit, zeros up to 56 modulo 64, the length in bits modulo \<open>2 ^ 64\<close>.\<close>

definition md5_pad :: "byte list \<Rightarrow> byte list" where
  "md5_pad m = m @ [0x80] @ replicate ((119 - length m mod 64) mod 64) 0
     @ le64_of_nat (8 * length m mod 2 ^ 64)"

definition md5_output :: "md5_state \<Rightarrow> byte list" where
  "md5_output = (\<lambda>(a, b, c, d). le32_bytes a @ le32_bytes b @ le32_bytes c @ le32_bytes d)"

definition md5_digest :: "byte list \<Rightarrow> byte list" where
  "md5_digest m = md5_output (absorb md5_block md5_iv (md5_pad m))"

section \<open>The context stands for the message so far\<close>

definition md5_repr :: "md5_ctx \<Rightarrow> byte list \<Rightarrow> bool" where
  "md5_repr ctx m \<longleftrightarrow>
     length (md5_in ctx) = 64 \<and>
     md5_buf ctx = absorb md5_block md5_iv m \<and>
     take (length m mod 64) (md5_in ctx) = leftover m \<and>
     count_val (md5_bits ctx) = 8 * length m mod 2 ^ 64"

lemma md5_update_blocks_result:
  assumes "length (md5_in ctx) = 64"
  shows "md5_buf (md5_update_blocks ctx xs) = absorb md5_block (md5_buf ctx) xs \<and>
    md5_bits (md5_update_blocks ctx xs) = md5_bits ctx \<and>
    length (md5_in (md5_update_blocks ctx xs)) = 64 \<and>
    take (length xs mod 64) (md5_in (md5_update_blocks ctx xs)) = leftover xs"
  using assms
proof (induction ctx xs rule: md5_update_blocks.induct)
  case (1 ctx xs)
  show ?case
  proof (cases "64 \<le> length xs")
    case True
    then have "length xs mod 64 = (length xs - 64) mod 64" by (simp add: le_mod_geq)
    with True 1 show ?thesis
      by (simp add: md5_update_blocks.simps [of ctx xs] absorb.simps [of _ _ xs] leftover_drop
          md5_block_def blit_0 Let_def)
  next
    case False
    with 1 show ?thesis
      by (simp add: md5_update_blocks.simps [of ctx xs] absorb_short leftover_short take_blit)
  qed
qed

lemma md5_fill:
  "md5_repr ctx m \<Longrightarrow> unat (drop_bit 3 (fst (md5_bits ctx)) AND 0x3f) = length m mod 64"
  using count_fill [of "fst (md5_bits ctx)" "snd (md5_bits ctx)" "length m"] by (simp add: md5_repr_def)

lemma md5_bits_update:
  "md5_repr ctx m \<Longrightarrow> length d < 2 ^ 32 \<Longrightarrow>
    count_val (count_add (of_nat (length d)) (md5_bits ctx)) = 8 * length (m @ d) mod 2 ^ 64"
  by (simp add: md5_repr_def count_add_val mod_simps)

lemma md5_update_repr:
  assumes r: "md5_repr ctx m" and d: "length d < 2 ^ 32"
  shows "md5_repr (MD5_Update ctx d) (m @ d)"
proof -
  let ?t = "length m mod 64"
  let ?ctx1 = "ctx\<lparr>md5_bits := count_add (of_nat (length d)) (md5_bits ctx)\<rparr>"
  from r have L: "length (md5_in ctx) = 64" and B: "md5_buf ctx = absorb md5_block md5_iv m"
    and T: "take ?t (md5_in ctx) = leftover m"
    by (simp_all add: md5_repr_def)
  note bits = md5_bits_update [OF r d]
  note upd = MD5_Update_def [of ctx d, unfolded Let_def md5_fill [OF r]]
  consider (aligned) "?t = 0" | (fits) "?t \<noteq> 0" "length d < 64 - ?t"
    | (spills) "?t \<noteq> 0" "64 - ?t \<le> length d" by linarith
  then show ?thesis
  proof cases
    case aligned
    then have "MD5_Update ctx d = md5_update_blocks ?ctx1 d" by (simp add: upd)
    then show ?thesis
      using md5_update_blocks_result [of ?ctx1 d] L B bits
      unfolding md5_repr_def absorb_aligned [OF aligned] by simp
  next
    case fits
    then have "MD5_Update ctx d = ?ctx1\<lparr>md5_in := blit ?t d (md5_in ctx)\<rparr>" by (simp add: upd)
    then show ?thesis
      using fits L B T bits unfolding md5_repr_def absorb_fits [OF fits(2)] by (simp add: take_blit)
  next
    case spills
    let ?blk = "leftover m @ take (64 - ?t) d"
    let ?ctx3 = "?ctx1\<lparr>md5_in := ?blk, md5_buf := md5_block (md5_buf ctx) ?blk\<rparr>"
    have "blit ?t (take (64 - ?t) d) (md5_in ctx) = ?blk"
      using spills L T by (subst blit_full) auto
    then have "MD5_Update ctx d = md5_update_blocks ?ctx3 (drop (64 - ?t) d)"
      using spills by (simp add: upd md5_block_def)
    moreover have "length ?blk = 64" using spills by (simp add: length_leftover)
    ultimately show ?thesis
      using md5_update_blocks_result [of ?ctx3 "drop (64 - ?t) d"] bits B
      unfolding md5_repr_def absorb_spills [OF spills(2)] by simp
  qed
qed

section \<open>Finalisation\<close>

lemma md5_pad_tail:
  "absorb f st (md5_pad m) = absorb f (absorb f st m) (leftover m @ [0x80]
     @ replicate ((119 - length m mod 64) mod 64) 0 @ le64_of_nat (8 * length m mod 2 ^ 64))"
  unfolding md5_pad_def by (simp add: absorb_append [of _ _ m])

lemma length_le64 [simp]: "length (le64_of_nat n) = 8"
  by (simp add: le64_of_nat_def)

lemma md5_final_one_block:
  assumes "unat (drop_bit 3 (fst (md5_bits ctx)) AND 0x3f) = t" and "t < 56"
  shows "MD5_Final ctx = md5_output (md5_block (md5_buf ctx)
    (blit 56 (le32_bytes (fst (md5_bits ctx)) @ le32_bytes (snd (md5_bits ctx)))
      (blit (t + 1) (replicate (55 - t) 0) (blit t [0x80] (md5_in ctx)))))"
proof -
  have "\<not> 63 - t < 8" using assms by arith
  with assms show ?thesis
    unfolding MD5_Final_def Let_def md5_output_def md5_block_def by simp
qed

lemma md5_final_two_blocks:
  assumes "unat (drop_bit 3 (fst (md5_bits ctx)) AND 0x3f) = t" and "\<not> t < 56"
  shows "MD5_Final ctx =
    (let b1 = blit (t + 1) (replicate (63 - t) 0) (blit t [0x80] (md5_in ctx))
     in md5_output (md5_block (md5_block (md5_buf ctx) b1)
       (blit 56 (le32_bytes (fst (md5_bits ctx)) @ le32_bytes (snd (md5_bits ctx)))
         (blit 0 (replicate 56 0) b1))))"
proof -
  have "63 - t < 8" using assms by arith
  with assms show ?thesis unfolding MD5_Final_def Let_def md5_output_def md5_block_def by simp
qed

text \<open>The array after the in-place padding, block by block.\<close>

lemma md5_padded_array:
  fixes dst :: "byte list"
  assumes T: "take t dst = pre" and "length dst = 64" and "t < 64" and k: "t + 1 + k \<le> 64"
  shows "take (t + 1 + k) (blit (t + 1) (replicate k 0) (blit t [0x80] dst)) = pre @ [0x80] @ replicate k 0"
    and "length (blit (t + 1) (replicate k 0) (blit t [0x80] dst)) = 64"
proof -
  let ?i1 = "blit t [0x80] dst :: byte list"
  have 1: "take (t + 1) ?i1 = pre @ [0x80]"
    by (rule blit_grow [OF T]) (use assms in simp_all)
  have 2: "length ?i1 = 64" using assms by simp
  have "take (t + 1 + k) (blit (t + 1) (replicate k 0) ?i1) = (pre @ [0x80]) @ replicate k 0"
    by (rule blit_grow [OF 1]) (use 2 k in simp_all)
  then show "take (t + 1 + k) (blit (t + 1) (replicate k 0) ?i1) = pre @ [0x80] @ replicate k 0"
    by simp
  show "length (blit (t + 1) (replicate k 0) ?i1) = 64" using 2 k by simp
qed

lemma md5_final_digest:
  assumes r: "md5_repr ctx m"
  shows "MD5_Final ctx = md5_digest m"
proof -
  let ?t = "length m mod 64"
  let ?len = "le64_of_nat (8 * length m mod 2 ^ 64)"
  let ?st = "absorb md5_block md5_iv m"
  from r have L: "length (md5_in ctx) = 64" and B: "md5_buf ctx = ?st"
    and T: "take ?t (md5_in ctx) = leftover m"
    by (simp_all add: md5_repr_def)
  have len: "le32_bytes (fst (md5_bits ctx)) @ le32_bytes (snd (md5_bits ctx)) = ?len"
    using r by (intro count_bytes_le) (simp add: md5_repr_def)
  have t: "?t < 64" by simp
  note pad = md5_padded_array [OF T L t]
  show ?thesis
  proof (cases "?t < 56")
    case True
    let ?a = "blit (?t + 1) (replicate (55 - ?t) 0) (blit ?t [0x80] (md5_in ctx))"
    have "(119 - ?t) mod 64 = 55 - ?t" using True by (simp add: le_mod_geq)
    then have "md5_digest m = md5_output (md5_block ?st
        (leftover m @ [0x80] @ replicate (55 - ?t) 0 @ ?len))"
      using True by (simp add: md5_digest_def md5_pad_tail absorb_block1 length_leftover)
    moreover have "blit 56 ?len ?a = leftover m @ [0x80] @ replicate (55 - ?t) 0 @ ?len"
      using pad [of "55 - ?t"] True by (simp add: blit_full)
    ultimately show ?thesis
      unfolding md5_final_one_block [OF md5_fill [OF r] True] len B by simp
  next
    case False
    let ?b1 = "leftover m @ [0x80] @ replicate (63 - ?t) 0"
    have e: "(119 - ?t) mod 64 = (63 - ?t) + 56" using t False by simp
    have "leftover m @ [0x80] @ replicate ((119 - ?t) mod 64) 0 @ ?len = ?b1 @ replicate 56 0 @ ?len"
      unfolding e by (simp only: replicate_add append_assoc)
    then have "md5_digest m = md5_output (md5_block (md5_block ?st ?b1) (replicate 56 0 @ ?len))"
      unfolding md5_digest_def md5_pad_tail using t
      by (simp only: absorb_block absorb_block1 length_append length_replicate length_leftover
          length_le64 list.size)
    moreover have "blit (?t + 1) (replicate (63 - ?t) 0) (blit ?t [0x80] (md5_in ctx)) = ?b1"
      using pad [of "63 - ?t"] t by simp
    moreover have "blit 56 ?len (blit 0 (replicate 56 0) ?b1) = replicate 56 0 @ ?len"
      using t by (simp add: blit_def length_leftover)
    ultimately show ?thesis
      unfolding md5_final_two_blocks [OF md5_fill [OF r] False] len B Let_def by simp
  qed
qed

text \<open>The MD5 code is an incremental hash.\<close>

abbreviation md5_start :: md5_ctx where
  "md5_start \<equiv> MD5_Init \<lparr>md5_buf = (0, 0, 0, 0), md5_bits = (0, 0), md5_in = replicate 64 0\<rparr>"

lemma md5_init_repr: "length (md5_in junk) = 64 \<Longrightarrow> md5_repr (MD5_Init junk) []"
  by (simp add: md5_repr_def MD5_Init_def md5_iv_def absorb_short leftover_short count_val_def)

interpretation md5: incremental_hash md5_start MD5_Update MD5_Final
  "\<lambda>d. length d < 2 ^ 32" md5_repr md5_digest
  by unfold_locales (simp_all add: md5_init_repr md5_update_repr md5_final_digest)

section \<open>Properties\<close>

text \<open>
  MD5: \<open>cs_md5\<close> on any list of (pointer, length) pairs, each shorter than \<open>2 ^ 32\<close>
  bytes and on any uninitialised context, prints the hexadecimal MD5 of the
  concatenation: RFC 1321 padding, 64-byte blocks compressed in order. The buffered
  \<open>MD5_Update\<close> and the in-place padding of \<open>MD5_Final\<close> implement that definition.
\<close>

lemma cs_md5_correct:
  assumes "length (md5_in junk) = 64" and "\<forall>d \<in> set pieces. length d < 2 ^ 32"
  shows "cs_md5 junk pieces = cs_to_hex (md5_digest (concat pieces))"
proof -
  have "md5_repr (foldl MD5_Update (MD5_Init junk) pieces) ([] @ concat pieces)"
    using assms by (intro md5.updates_repr md5_init_repr) (simp_all add: list_all_iff)
  then show ?thesis by (simp add: cs_md5_def md5_final_digest)
qed

lemma cs_md5_correct_witness:
  "cs_md5 \<lparr>md5_buf = (1, 2, 3, 4), md5_bits = (5, 6), md5_in = replicate 64 7\<rparr> [bs ''ad'', [], bs ''min'']
    = cs_to_hex (md5_digest (bs ''admin''))"
  by (subst cs_md5_correct) (simp_all add: bs_def)

end
