(* ===== verification/Sha1.thy ===== *)
theory Sha1
  imports Hash_Stream
begin

text \<open>
  The SHA-1 and HMAC code of Mongoose (\<open>common/sha1.c\<close>). The machine is little-endian:
  \<open>memcpy\<close> into the block union gives words least significant byte first and \<open>blk0\<close>
  swaps each one in place the first time it is used. Lengths are below
  \<open>2 ^ 32 - 64\<close>, where the \<open>uint32_t\<close> index arithmetic of \<open>cs_sha1_update\<close> does not wrap
  and is written on naturals. Shown: the digest of a message fed in any pieces is that
  of the padded message, the padding loop of \<open>cs_sha1_final\<close> ends, and \<open>cs_hmac_sha1\<close>
  is the HMAC construction over that digest.
\<close>

unbundle bit_operations_syntax

type_synonym sha1_state = "u32 \<times> u32 \<times> u32 \<times> u32 \<times> u32"
type_synonym sha1_work = "u32 \<times> u32 \<times> u32 \<times> u32 \<times> u32 \<times> u32 list"

record sha1_ctx =
  sha1_state :: sha1_state
  sha1_count :: "u32 \<times> u32"
  sha1_buffer :: "byte list"

section \<open>The compression function\<close>

definition rol :: "u32 \<Rightarrow> nat \<Rightarrow> u32" where
  "rol v k = push_bit k v OR drop_bit (32 - k) v"

text \<open>\<open>blk0\<close> and \<open>blk\<close>: the word used by a step and the block after it.\<close>

definition blk0 :: "nat \<Rightarrow> u32 list \<Rightarrow> u32 \<times> u32 list" where
  "blk0 i l = (let x = (rol (l ! i) 24 AND 0xFF00FF00) OR (rol (l ! i) 8 AND 0x00FF00FF)
               in (x, l[i := x]))"

definition blk :: "nat \<Rightarrow> u32 list \<Rightarrow> u32 \<times> u32 list" where
  "blk i l = (let x = rol (l ! ((i + 13) mod 16) XOR l ! ((i + 8) mod 16) XOR
                           l ! ((i + 2) mod 16) XOR l ! (i mod 16)) 1
              in (x, l[i mod 16 := x]))"

text \<open>The five step macros: the new \<open>w\<close>, the new \<open>z\<close> and the block.\<close>

definition sha1_R0 :: "u32 \<Rightarrow> u32 \<Rightarrow> u32 \<Rightarrow> u32 \<Rightarrow> u32 \<Rightarrow> nat \<Rightarrow> u32 list \<Rightarrow> u32 \<times> u32 \<times> u32 list" where
  "sha1_R0 v w x y z i l = (let (k, l') = blk0 i l
     in (rol w 30, z + (((w AND (x XOR y)) XOR y) + k + 0x5A827999 + rol v 5), l'))"

definition sha1_R1 :: "u32 \<Rightarrow> u32 \<Rightarrow> u32 \<Rightarrow> u32 \<Rightarrow> u32 \<Rightarrow> nat \<Rightarrow> u32 list \<Rightarrow> u32 \<times> u32 \<times> u32 list" where
  "sha1_R1 v w x y z i l = (let (k, l') = blk i l
     in (rol w 30, z + (((w AND (x XOR y)) XOR y) + k + 0x5A827999 + rol v 5), l'))"

definition sha1_R2 :: "u32 \<Rightarrow> u32 \<Rightarrow> u32 \<Rightarrow> u32 \<Rightarrow> u32 \<Rightarrow> nat \<Rightarrow> u32 list \<Rightarrow> u32 \<times> u32 \<times> u32 list" where
  "sha1_R2 v w x y z i l = (let (k, l') = blk i l
     in (rol w 30, z + ((w XOR x XOR y) + k + 0x6ED9EBA1 + rol v 5), l'))"

definition sha1_R3 :: "u32 \<Rightarrow> u32 \<Rightarrow> u32 \<Rightarrow> u32 \<Rightarrow> u32 \<Rightarrow> nat \<Rightarrow> u32 list \<Rightarrow> u32 \<times> u32 \<times> u32 list" where
  "sha1_R3 v w x y z i l = (let (k, l') = blk i l
     in (rol w 30, z + ((((w OR x) AND y) OR (w AND x)) + k + 0x8F1BBCDC + rol v 5), l'))"

definition sha1_R4 :: "u32 \<Rightarrow> u32 \<Rightarrow> u32 \<Rightarrow> u32 \<Rightarrow> u32 \<Rightarrow> nat \<Rightarrow> u32 list \<Rightarrow> u32 \<times> u32 \<times> u32 list" where
  "sha1_R4 v w x y z i l = (let (k, l') = blk i l
     in (rol w 30, z + ((w XOR x XOR y) + k + 0xCA62C1D6 + rol v 5), l'))"

text \<open>The eighty steps of \<open>cs_sha1_transform\<close>.\<close>

definition sha1_rounds1 :: "sha1_work \<Rightarrow> sha1_work" where
  "sha1_rounds1 = (\<lambda>(a, b, c, d, e, l). let
       (b, e, l) = sha1_R0 a b c d e 0 l;
       (a, d, l) = sha1_R0 e a b c d 1 l;
       (e, c, l) = sha1_R0 d e a b c 2 l;
       (d, b, l) = sha1_R0 c d e a b 3 l;
       (c, a, l) = sha1_R0 b c d e a 4 l;
       (b, e, l) = sha1_R0 a b c d e 5 l;
       (a, d, l) = sha1_R0 e a b c d 6 l;
       (e, c, l) = sha1_R0 d e a b c 7 l;
       (d, b, l) = sha1_R0 c d e a b 8 l;
       (c, a, l) = sha1_R0 b c d e a 9 l;
       (b, e, l) = sha1_R0 a b c d e 10 l;
       (a, d, l) = sha1_R0 e a b c d 11 l;
       (e, c, l) = sha1_R0 d e a b c 12 l;
       (d, b, l) = sha1_R0 c d e a b 13 l;
       (c, a, l) = sha1_R0 b c d e a 14 l;
       (b, e, l) = sha1_R0 a b c d e 15 l;
       (a, d, l) = sha1_R1 e a b c d 16 l;
       (e, c, l) = sha1_R1 d e a b c 17 l;
       (d, b, l) = sha1_R1 c d e a b 18 l;
       (c, a, l) = sha1_R1 b c d e a 19 l
     in (a, b, c, d, e, l))"

definition sha1_rounds2 :: "sha1_work \<Rightarrow> sha1_work" where
  "sha1_rounds2 = (\<lambda>(a, b, c, d, e, l). let
       (b, e, l) = sha1_R2 a b c d e 20 l;
       (a, d, l) = sha1_R2 e a b c d 21 l;
       (e, c, l) = sha1_R2 d e a b c 22 l;
       (d, b, l) = sha1_R2 c d e a b 23 l;
       (c, a, l) = sha1_R2 b c d e a 24 l;
       (b, e, l) = sha1_R2 a b c d e 25 l;
       (a, d, l) = sha1_R2 e a b c d 26 l;
       (e, c, l) = sha1_R2 d e a b c 27 l;
       (d, b, l) = sha1_R2 c d e a b 28 l;
       (c, a, l) = sha1_R2 b c d e a 29 l;
       (b, e, l) = sha1_R2 a b c d e 30 l;
       (a, d, l) = sha1_R2 e a b c d 31 l;
       (e, c, l) = sha1_R2 d e a b c 32 l;
       (d, b, l) = sha1_R2 c d e a b 33 l;
       (c, a, l) = sha1_R2 b c d e a 34 l;
       (b, e, l) = sha1_R2 a b c d e 35 l;
       (a, d, l) = sha1_R2 e a b c d 36 l;
       (e, c, l) = sha1_R2 d e a b c 37 l;
       (d, b, l) = sha1_R2 c d e a b 38 l;
       (c, a, l) = sha1_R2 b c d e a 39 l
     in (a, b, c, d, e, l))"

definition sha1_rounds3 :: "sha1_work \<Rightarrow> sha1_work" where
  "sha1_rounds3 = (\<lambda>(a, b, c, d, e, l). let
       (b, e, l) = sha1_R3 a b c d e 40 l;
       (a, d, l) = sha1_R3 e a b c d 41 l;
       (e, c, l) = sha1_R3 d e a b c 42 l;
       (d, b, l) = sha1_R3 c d e a b 43 l;
       (c, a, l) = sha1_R3 b c d e a 44 l;
       (b, e, l) = sha1_R3 a b c d e 45 l;
       (a, d, l) = sha1_R3 e a b c d 46 l;
       (e, c, l) = sha1_R3 d e a b c 47 l;
       (d, b, l) = sha1_R3 c d e a b 48 l;
       (c, a, l) = sha1_R3 b c d e a 49 l;
       (b, e, l) = sha1_R3 a b c d e 50 l;
       (a, d, l) = sha1_R3 e a b c d 51 l;
       (e, c, l) = sha1_R3 d e a b c 52 l;
       (d, b, l) = sha1_R3 c d e a b 53 l;
       (c, a, l) = sha1_R3 b c d e a 54 l;
       (b, e, l) = sha1_R3 a b c d e 55 l;
       (a, d, l) = sha1_R3 e a b c d 56 l;
       (e, c, l) = sha1_R3 d e a b c 57 l;
       (d, b, l) = sha1_R3 c d e a b 58 l;
       (c, a, l) = sha1_R3 b c d e a 59 l
     in (a, b, c, d, e, l))"

definition sha1_rounds4 :: "sha1_work \<Rightarrow> sha1_work" where
  "sha1_rounds4 = (\<lambda>(a, b, c, d, e, l). let
       (b, e, l) = sha1_R4 a b c d e 60 l;
       (a, d, l) = sha1_R4 e a b c d 61 l;
       (e, c, l) = sha1_R4 d e a b c 62 l;
       (d, b, l) = sha1_R4 c d e a b 63 l;
       (c, a, l) = sha1_R4 b c d e a 64 l;
       (b, e, l) = sha1_R4 a b c d e 65 l;
       (a, d, l) = sha1_R4 e a b c d 66 l;
       (e, c, l) = sha1_R4 d e a b c 67 l;
       (d, b, l) = sha1_R4 c d e a b 68 l;
       (c, a, l) = sha1_R4 b c d e a 69 l;
       (b, e, l) = sha1_R4 a b c d e 70 l;
       (a, d, l) = sha1_R4 e a b c d 71 l;
       (e, c, l) = sha1_R4 d e a b c 72 l;
       (d, b, l) = sha1_R4 c d e a b 73 l;
       (c, a, l) = sha1_R4 b c d e a 74 l;
       (b, e, l) = sha1_R4 a b c d e 75 l;
       (a, d, l) = sha1_R4 e a b c d 76 l;
       (e, c, l) = sha1_R4 d e a b c 77 l;
       (d, b, l) = sha1_R4 c d e a b 78 l;
       (c, a, l) = sha1_R4 b c d e a 79 l
     in (a, b, c, d, e, l))"

definition cs_sha1_transform :: "sha1_state \<Rightarrow> byte list \<Rightarrow> sha1_state" where
  "cs_sha1_transform st buffer =
     (let (a0, b0, c0, d0, e0) = st;
          (a, b, c, d, e, l) =
            sha1_rounds4 (sha1_rounds3 (sha1_rounds2 (sha1_rounds1 (a0, b0, c0, d0, e0, le_words buffer))))
      in (a0 + a, b0 + b, c0 + c, d0 + d, e0 + e))"

section \<open>The incremental hash\<close>

definition cs_sha1_init :: "sha1_ctx \<Rightarrow> sha1_ctx" where
  "cs_sha1_init ctx =
     ctx\<lparr>sha1_state := (0x67452301, 0xEFCDAB89, 0x98BADCFE, 0x10325476, 0xC3D2E1F0),
         sha1_count := (0, 0)\<rparr>"

text \<open>\<open>for (; i + 63 < len; i += 64)\<close>: the state and the data from the final \<open>i\<close> on.\<close>

function sha1_update_blocks :: "sha1_state \<Rightarrow> byte list \<Rightarrow> sha1_state \<times> byte list" where
  "sha1_update_blocks st data =
     (if 63 < length data then sha1_update_blocks (cs_sha1_transform st (take 64 data)) (drop 64 data)
      else (st, data))"
  by pat_completeness auto
termination by (relation "measure (\<lambda>(st, data). length data)") auto

declare sha1_update_blocks.simps [simp del]

definition cs_sha1_update :: "sha1_ctx \<Rightarrow> byte list \<Rightarrow> sha1_ctx" where
  "cs_sha1_update ctx data =
     (let len = length data;
          j = unat (drop_bit 3 (fst (sha1_count ctx)) AND 63);
          ctx1 = ctx\<lparr>sha1_count := count_add (of_nat len) (sha1_count ctx)\<rparr>
      in if j + len > 63 then
           let i = 64 - j;
               buf = blit j (take i data) (sha1_buffer ctx1);
               (st, rest) = sha1_update_blocks (cs_sha1_transform (sha1_state ctx1) buf) (drop i data)
           in ctx1\<lparr>sha1_state := st, sha1_buffer := blit 0 rest buf\<rparr>
         else ctx1\<lparr>sha1_buffer := blit j data (sha1_buffer ctx1)\<rparr>)"

definition sha1_fill :: "u32 \<Rightarrow> nat" where
  "sha1_fill c = unat (drop_bit 3 c AND 63)"

lemma count_504: "(c AND 504 = (448 :: u32)) \<longleftrightarrow> (drop_bit 3 c AND 63 = 56)"
proof -
  have m: "(504 :: u32) = push_bit 3 (mask 6)" "(63 :: u32) = mask 6"
    by (simp_all add: mask_eq_exp_minus_1)
  have d: "drop_bit 3 (c AND 504) = drop_bit 3 c AND 63"
    unfolding m by (rule bit_word_eqI) (auto simp: bit_simps)
  have p: "c AND 504 = push_bit 3 (drop_bit 3 c AND 63)"
    unfolding m by (rule bit_word_eqI) (auto simp: bit_simps)
  show ?thesis
  proof
    assume "c AND 504 = 448"
    then have "drop_bit 3 (c AND 504) = drop_bit 3 448" by simp
    then show "drop_bit 3 c AND 63 = 56" unfolding d by simp
  next
    assume "drop_bit 3 c AND 63 = 56"
    then show "c AND 504 = 448" unfolding p by simp
  qed
qed

lemma sha1_fill_alt: "sha1_fill c = unat c div 8 mod 64"
proof -
  have "drop_bit 3 c AND 63 = take_bit 6 (drop_bit 3 c)"
    by (simp add: take_bit_eq_mask mask_eq_exp_minus_1)
  then show ?thesis
    by (simp add: sha1_fill_def take_bit_eq_mod drop_bit_eq_div unat_div unat_mod)
qed

lemma sha1_fill_56: "(c AND 504 \<noteq> 448) \<longleftrightarrow> sha1_fill c \<noteq> 56"
  unfolding count_504 sha1_fill_def by (simp add: word_unat_eq_iff)

lemma sha1_fill_step: "sha1_fill (c + 8) = (sha1_fill c + 1) mod 64"
proof -
  have "unat (c + 8) = (unat c + 8) mod (8 * 2 ^ 29)" by (simp add: unat_word_ariths)
  then have "unat (c + 8) div 8 = (unat c + 8) div 8 mod 2 ^ 29" by (simp only: mod_mult2_eq)
  moreover have "(unat c + 8) div 8 = unat c div 8 + 1" by simp
  ultimately show ?thesis by (simp add: sha1_fill_alt mod_mod_cancel mod_simps)
qed

lemma pad_distance_Suc:
  assumes "f < (64::nat)" and "f \<noteq> 56"
  shows "Suc ((120 - (f + 1) mod 64) mod 64) = (120 - f) mod 64"
proof -
  have "\<forall>f \<in> set [0..<64]. f \<noteq> 56 \<longrightarrow> Suc ((120 - (f + 1) mod 64) mod 64) = (120 - f) mod (64::nat)"
    by (simp add: upt_rec)
  with assms show ?thesis by auto
qed

lemma length_mod_pad: "(120 - Suc n mod 64) mod 64 = (119 - n mod 64) mod (64::nat)"
proof -
  have "\<forall>f \<in> set [0..<64]. (120 - (f + 1) mod 64) mod 64 = (119 - f) mod (64::nat)"
    by (simp add: upt_rec)
  then have "(120 - (n mod 64 + 1) mod 64) mod 64 = (119 - n mod 64) mod 64" by simp
  then show ?thesis by (simp add: mod_simps)
qed

lemma sha1_count_byte: "fst (sha1_count (cs_sha1_update ctx [x])) = fst (sha1_count ctx) + 8"
  by (simp add: cs_sha1_update_def count_add_def Let_def split_def)

text \<open>\<open>while ((context->count[0] & 504) != 448)\<close>: ends when the block is filled up to 56.\<close>

function sha1_pad_zeros :: "sha1_ctx \<Rightarrow> sha1_ctx" where
  "sha1_pad_zeros ctx =
     (if fst (sha1_count ctx) AND 504 \<noteq> 448 then sha1_pad_zeros (cs_sha1_update ctx [0]) else ctx)"
  by pat_completeness auto
termination
proof (relation "measure (\<lambda>ctx. (120 - sha1_fill (fst (sha1_count ctx))) mod 64)")
  fix ctx :: sha1_ctx
  let ?f = "sha1_fill (fst (sha1_count ctx))"
  assume "fst (sha1_count ctx) AND 504 \<noteq> 448"
  then have "?f \<noteq> 56" by (simp add: sha1_fill_56)
  moreover have "?f < 64" by (simp add: sha1_fill_alt)
  ultimately have "(120 - (?f + 1) mod 64) mod 64 < (120 - ?f) mod 64"
    using pad_distance_Suc [of ?f] by linarith
  then show "(cs_sha1_update ctx [0], ctx) \<in> measure (\<lambda>ctx. (120 - sha1_fill (fst (sha1_count ctx))) mod 64)"
    by (simp add: sha1_count_byte sha1_fill_step)
qed auto

declare sha1_pad_zeros.simps [simp del]

definition cs_sha1_final :: "sha1_ctx \<Rightarrow> byte list" where
  "cs_sha1_final ctx =
     (let finalcount = be32_bytes (snd (sha1_count ctx)) @ be32_bytes (fst (sha1_count ctx));
          ctx1 = cs_sha1_update ctx [0x80];
          ctx2 = sha1_pad_zeros ctx1;
          ctx3 = cs_sha1_update ctx2 finalcount;
          (a, b, c, d, e) = sha1_state ctx3
      in be32_bytes a @ be32_bytes b @ be32_bytes c @ be32_bytes d @ be32_bytes e)"

text \<open>\<open>junk\<close> is the uninitialised context on the stack, used for every hash in turn.\<close>

definition sha1_once :: "sha1_ctx \<Rightarrow> byte list list \<Rightarrow> byte list" where
  "sha1_once junk pieces = cs_sha1_final (foldl cs_sha1_update (cs_sha1_init junk) pieces)"

definition cs_hmac_sha1 :: "sha1_ctx \<Rightarrow> byte list \<Rightarrow> byte list \<Rightarrow> byte list" where
  "cs_hmac_sha1 junk key0 data =
     (let key = (if length key0 > 64 then sha1_once junk [key0] else key0);
          buf1 = map (\<lambda>b. b XOR 0x36) (blit 0 key (replicate 64 0));
          buf2 = map (\<lambda>b. b XOR 0x5c) (blit 0 key (replicate 64 0));
          out = sha1_once junk [buf1, data]
      in sha1_once junk [buf2, out])"

section \<open>SHA-1 of a whole message\<close>

definition sha1_iv :: sha1_state where
  "sha1_iv = (0x67452301, 0xEFCDAB89, 0x98BADCFE, 0x10325476, 0xC3D2E1F0)"

definition sha1_pad :: "byte list \<Rightarrow> byte list" where
  "sha1_pad m = m @ [0x80] @ replicate ((119 - length m mod 64) mod 64) 0
     @ be64_of_nat (8 * length m mod 2 ^ 64)"

definition sha1_output :: "sha1_state \<Rightarrow> byte list" where
  "sha1_output = (\<lambda>(a, b, c, d, e).
     be32_bytes a @ be32_bytes b @ be32_bytes c @ be32_bytes d @ be32_bytes e)"

definition sha1_digest :: "byte list \<Rightarrow> byte list" where
  "sha1_digest m = sha1_output (absorb cs_sha1_transform sha1_iv (sha1_pad m))"

text \<open>RFC 2104 with SHA-1.\<close>

definition hmac_sha1 :: "byte list \<Rightarrow> byte list \<Rightarrow> byte list" where
  "hmac_sha1 key m =
     (let k = (if length key > 64 then sha1_digest key else key);
          k0 = k @ replicate (64 - length k) 0
      in sha1_digest (map (\<lambda>b. b XOR 0x5c) k0 @ sha1_digest (map (\<lambda>b. b XOR 0x36) k0 @ m)))"

section \<open>The context stands for the message so far\<close>

definition sha1_repr :: "sha1_ctx \<Rightarrow> byte list \<Rightarrow> bool" where
  "sha1_repr ctx m \<longleftrightarrow>
     length (sha1_buffer ctx) = 64 \<and>
     sha1_state ctx = absorb cs_sha1_transform sha1_iv m \<and>
     take (length m mod 64) (sha1_buffer ctx) = leftover m \<and>
     count_val (sha1_count ctx) = 8 * length m mod 2 ^ 64"

lemma sha1_update_blocks_result:
  "sha1_update_blocks st xs = (absorb cs_sha1_transform st xs, leftover xs)"
proof (induction st xs rule: sha1_update_blocks.induct)
  case (1 st xs)
  show ?case
  proof (cases "63 < length xs")
    case True
    with 1 show ?thesis
      by (simp add: sha1_update_blocks.simps [of st xs] absorb.simps [of _ _ xs] leftover_drop)
  next
    case False
    then show ?thesis
      by (simp add: sha1_update_blocks.simps [of st xs] absorb_short leftover_short)
  qed
qed

lemma sha1_fill_repr: "sha1_repr ctx m \<Longrightarrow> sha1_fill (fst (sha1_count ctx)) = length m mod 64"
  using count_fill [of "fst (sha1_count ctx)" "snd (sha1_count ctx)" "length m"]
  by (simp add: sha1_repr_def sha1_fill_def)

lemma sha1_update_repr:
  assumes r: "sha1_repr ctx m" and d: "length d < 2 ^ 32 - 64"
  shows "sha1_repr (cs_sha1_update ctx d) (m @ d)"
proof -
  let ?t = "length m mod 64"
  let ?ctx1 = "ctx\<lparr>sha1_count := count_add (of_nat (length d)) (sha1_count ctx)\<rparr>"
  from r have L: "length (sha1_buffer ctx) = 64" and B: "sha1_state ctx = absorb cs_sha1_transform sha1_iv m"
    and T: "take ?t (sha1_buffer ctx) = leftover m"
    by (simp_all add: sha1_repr_def)
  have bits: "count_val (sha1_count ?ctx1) = 8 * length (m @ d) mod 2 ^ 64"
    using r d by (simp add: sha1_repr_def count_add_val mod_simps)
  note upd = cs_sha1_update_def [of ctx d, unfolded Let_def sha1_fill_def [symmetric] sha1_fill_repr [OF r]]
  show ?thesis
  proof (cases "63 < ?t + length d")
    case True
    then have s: "64 - ?t \<le> length d" by linarith
    let ?blk = "leftover m @ take (64 - ?t) d"
    let ?rest = "drop (64 - ?t) d"
    have "blit ?t (take (64 - ?t) d) (sha1_buffer ctx) = ?blk"
      using s L T by (subst blit_full) auto
    then have "cs_sha1_update ctx d = ?ctx1\<lparr>
        sha1_state := absorb cs_sha1_transform (cs_sha1_transform (sha1_state ctx) ?blk) ?rest,
        sha1_buffer := blit 0 (leftover ?rest) ?blk\<rparr>"
      using True by (simp add: upd sha1_update_blocks_result)
    moreover have "length ?blk = 64" using s by (simp add: length_leftover)
    ultimately show ?thesis
      using bits B length_leftover_less [of ?rest] unfolding sha1_repr_def absorb_spills [OF s]
      by (simp add: take_blit length_leftover)
  next
    case False
    then have f: "length d < 64 - ?t" by linarith
    from False have "cs_sha1_update ctx d = ?ctx1\<lparr>sha1_buffer := blit ?t d (sha1_buffer ctx)\<rparr>"
      by (simp add: upd)
    then show ?thesis
      using f L B T bits unfolding sha1_repr_def absorb_fits [OF f] by (simp add: take_blit)
  qed
qed

lemma sha1_pad_zeros_repr:
  "sha1_repr ctx m \<Longrightarrow> sha1_repr (sha1_pad_zeros ctx) (m @ replicate ((120 - length m mod 64) mod 64) 0)"
proof (induction ctx arbitrary: m rule: sha1_pad_zeros.induct)
  case (1 ctx)
  let ?f = "length m mod 64"
  note fill = sha1_fill_repr [OF "1.prems"]
  show ?case
  proof (cases "?f = 56")
    case True
    then have "sha1_pad_zeros ctx = ctx"
      using fill sha1_fill_56 [of "fst (sha1_count ctx)"] by (subst sha1_pad_zeros.simps) auto
    then show ?thesis using "1.prems" True by simp
  next
    case False
    then have g: "fst (sha1_count ctx) AND 504 \<noteq> 448" using fill by (simp add: sha1_fill_56)
    have "sha1_repr (cs_sha1_update ctx [0]) (m @ [0])" by (rule sha1_update_repr [OF "1.prems"]) simp
    from "1.IH" [OF g this] g
    have "sha1_repr (sha1_pad_zeros ctx) ((m @ [0]) @ replicate ((120 - length (m @ [0]) mod 64) mod 64) 0)"
      by (simp add: sha1_pad_zeros.simps [of ctx])
    moreover have "Suc ((120 - length (m @ [0]) mod 64) mod 64) = (120 - ?f) mod 64"
      using pad_distance_Suc [of ?f] False by (simp add: mod_simps)
    ultimately show ?thesis by (metis append.assoc append_Cons append_Nil replicate_Suc)
  qed
qed

lemma be64_count:
  assumes "count_val (lo, hi) = n"
  shows "be32_bytes hi @ be32_bytes lo = be64_of_nat n"
proof -
  have "be64_of_nat n = rev (le32_bytes hi) @ rev (le32_bytes lo)"
    by (simp add: be64_of_nat_def flip: count_bytes_le [OF assms])
  then show ?thesis by (simp add: le32_bytes_def be32_bytes_def)
qed

lemma sha1_final_digest:
  assumes r: "sha1_repr ctx m"
  shows "cs_sha1_final ctx = sha1_digest m"
proof -
  let ?z = "replicate ((119 - length m mod 64) mod 64) (0 :: byte)"
  let ?len = "be64_of_nat (8 * length m mod 2 ^ 64)"
  have fc: "be32_bytes (snd (sha1_count ctx)) @ be32_bytes (fst (sha1_count ctx)) = ?len"
    using r by (intro be64_count) (simp add: sha1_repr_def)
  have 1: "sha1_repr (cs_sha1_update ctx [0x80]) (m @ [0x80])"
    by (rule sha1_update_repr [OF r]) simp
  have "(120 - length (m @ [0x80 :: byte]) mod 64) mod 64 = (119 - length m mod 64) mod 64"
    using length_mod_pad [of "length m"] by simp
  then have 2: "sha1_repr (sha1_pad_zeros (cs_sha1_update ctx [0x80])) (m @ [0x80] @ ?z)"
    using sha1_pad_zeros_repr [OF 1] by simp
  have 3: "sha1_repr (cs_sha1_update (sha1_pad_zeros (cs_sha1_update ctx [0x80])) ?len)
      ((m @ [0x80] @ ?z) @ ?len)"
    by (rule sha1_update_repr [OF 2]) (simp add: be64_of_nat_def le64_of_nat_def)
  then show ?thesis
    unfolding cs_sha1_final_def Let_def fc sha1_digest_def sha1_pad_def sha1_output_def
    by (simp add: sha1_repr_def)
qed

lemma length_sha1_digest [simp]: "length (sha1_digest m) = 20"
  by (simp add: sha1_digest_def sha1_output_def split: prod.split)

lemma sha1_init_repr: "length (sha1_buffer junk) = 64 \<Longrightarrow> sha1_repr (cs_sha1_init junk) []"
  by (simp add: sha1_repr_def cs_sha1_init_def sha1_iv_def absorb_short leftover_short count_val_def)

abbreviation sha1_start :: sha1_ctx where
  "sha1_start \<equiv> cs_sha1_init \<lparr>sha1_state = (0, 0, 0, 0, 0), sha1_count = (0, 0), sha1_buffer = replicate 64 0\<rparr>"

text \<open>The SHA-1 code is an incremental hash.\<close>

interpretation sha1: incremental_hash sha1_start cs_sha1_update cs_sha1_final
  "\<lambda>d. length d < 2 ^ 32 - 64" sha1_repr sha1_digest
  by unfold_locales (simp_all add: sha1_init_repr sha1_update_repr sha1_final_digest)

lemma sha1_once_digest:
  assumes "length (sha1_buffer junk) = 64" and "\<forall>d \<in> set pieces. length d < 2 ^ 32 - 64"
  shows "sha1_once junk pieces = sha1_digest (concat pieces)"
proof -
  have "sha1_repr (foldl cs_sha1_update (cs_sha1_init junk) pieces) ([] @ concat pieces)"
    using assms by (intro sha1.updates_repr sha1_init_repr) (simp_all add: list_all_iff)
  then show ?thesis by (simp add: sha1_once_def sha1_final_digest)
qed

section \<open>Properties\<close>

text \<open>
  HMAC: \<open>cs_hmac_sha1\<close> computes the HMAC of RFC 2104 with SHA-1, where SHA-1 is the
  padded, block-wise hash of the whole message: a key longer than 64 bytes is hashed
  first, a shorter one is zero-padded, and the two passes run through the incremental
  \<open>cs_sha1_update\<close> and the padding loop of \<open>cs_sha1_final\<close>.
\<close>

lemma cs_hmac_sha1_correct:
  assumes "length (sha1_buffer junk) = 64"
    and "length key < 2 ^ 32 - 64" and "length data < 2 ^ 32 - 64"
  shows "cs_hmac_sha1 junk key data = hmac_sha1 key data"
proof -
  let ?k = "if length key > 64 then sha1_digest key else key"
  have k: "(if length key > 64 then sha1_once junk [key] else key) = ?k"
    using assms by (simp add: sha1_once_digest)
  have "blit 0 ?k (replicate 64 0) = ?k @ replicate (64 - length ?k) 0"
    by (simp add: blit_def)
  then show ?thesis
    using assms unfolding cs_hmac_sha1_def hmac_sha1_def Let_def k
    by (simp add: sha1_once_digest)
qed

lemma cs_hmac_sha1_correct_witness:
  "cs_hmac_sha1 \<lparr>sha1_state = (1, 2, 3, 4, 5), sha1_count = (6, 7), sha1_buffer = replicate 64 8\<rparr>
     (bs ''key'') (bs ''payload'') = hmac_sha1 (bs ''key'') (bs ''payload'')"
  by (rule cs_hmac_sha1_correct) simp_all

end
