(* ===== verification/Mbuf.thy ===== *)
theory Mbuf
  imports Prelude
begin

text \<open>
  The growable byte buffer \<open>struct mbuf\<close> (\<open>common/mbuf.c\<close>) on which every protocol of
  Mongoose reads and writes. The allocator is a parameter \<open>realloc\<close>: given the old block
  and a size it returns the new block or fails. Sizes are naturals: on the 64-bit targets
  they are below \<open>2 ^ 47\<close>, so no \<open>size_t\<close> sum here wraps and the product by
  \<open>MBUF_SIZE_MULTIPLIER\<close> (1.5, in \<open>double\<close>) is exact. Shown: every operation keeps
  \<open>len \<le> size\<close>, and refines the operation on the byte list that the buffer stands for.
\<close>

record mbuf =
  mbuf_buf :: "byte list"  \<comment> \<open>the allocated block, \<open>mbuf_size\<close> bytes\<close>
  mbuf_addr :: u64         \<comment> \<open>its address, 0 for \<open>NULL\<close>\<close>
  mbuf_len :: nat
  mbuf_size :: nat

text \<open>The new block and its address, or nothing when memory is exhausted.\<close>

type_synonym allocator = "byte list \<Rightarrow> nat \<Rightarrow> (byte list \<times> u64) option"

text \<open>What \<open>realloc\<close> promises: a block of the size asked for that keeps the old bytes.\<close>

definition realloc_spec :: "allocator \<Rightarrow> bool" where
  "realloc_spec realloc \<longleftrightarrow>
     (\<forall>old n new a. realloc old n = Some (new, a) \<longrightarrow>
        length new = n \<and> take (min (length old) n) new = take (min (length old) n) old)"

definition mbuf_resize :: "allocator \<Rightarrow> mbuf \<Rightarrow> nat \<Rightarrow> mbuf" where
  "mbuf_resize realloc a new_size =
     (if new_size > mbuf_size a \<or> (new_size < mbuf_size a \<and> new_size \<ge> mbuf_len a)
      then (case realloc (mbuf_buf a) new_size of
              None \<Rightarrow> (if new_size \<noteq> 0 then a
                       else a\<lparr>mbuf_buf := [], mbuf_addr := 0, mbuf_size := 0\<rparr>)
            | Some (b, p) \<Rightarrow> a\<lparr>mbuf_buf := b, mbuf_addr := p, mbuf_size := new_size\<rparr>)
      else a)"

definition mbuf_init :: "allocator \<Rightarrow> nat \<Rightarrow> mbuf" where
  "mbuf_init realloc initial_size =
     mbuf_resize realloc \<lparr>mbuf_buf = [], mbuf_addr = 0, mbuf_len = 0, mbuf_size = 0\<rparr> initial_size"

definition mbuf_free :: "allocator \<Rightarrow> mbuf \<Rightarrow> mbuf" where
  "mbuf_free realloc a = (if mbuf_addr a \<noteq> 0 then mbuf_init realloc 0 else a)"

definition mbuf_trim :: "allocator \<Rightarrow> mbuf \<Rightarrow> mbuf" where
  "mbuf_trim realloc a = mbuf_resize realloc a (mbuf_len a)"

text \<open>\<open>memmove (buf + off + len, buf + off, cnt)\<close> inside the block.\<close>

definition memmove_within :: "nat \<Rightarrow> nat \<Rightarrow> nat \<Rightarrow> byte list \<Rightarrow> byte list" where
  "memmove_within dst src cnt b = blit dst (take cnt (drop src b)) b"

definition mbuf_open_gap :: "nat \<Rightarrow> byte list option \<Rightarrow> nat \<Rightarrow> nat \<Rightarrow> byte list \<Rightarrow> byte list" where
  "mbuf_open_gap off src len old_len b =
     (let b1 = memmove_within (off + len) off (old_len - off) b
      in case src of None \<Rightarrow> b1 | Some bytes \<Rightarrow> blit off bytes b1)"

text \<open>
  \<open>mbuf_insert\<close>: \<open>src\<close> is \<open>None\<close> for a null pointer (a gap is left), else the \<open>len\<close> bytes
  to copy. The result is \<open>None\<close> when an assertion fails, else the value returned and
  the buffer.
\<close>

definition mbuf_insert :: "allocator \<Rightarrow> mbuf \<Rightarrow> nat \<Rightarrow> byte list option \<Rightarrow> nat \<Rightarrow> (nat \<times> mbuf) option" where
  "mbuf_insert realloc a off src len =
     (if \<not> mbuf_len a \<le> mbuf_size a \<or> \<not> off \<le> mbuf_len a then None
      else if 2 ^ 64 - 1 - unat (mbuf_addr a) < len then Some (0, a)
      else if mbuf_len a + len \<le> mbuf_size a then
        Some (len, a\<lparr>mbuf_buf := mbuf_open_gap off src len (mbuf_len a) (mbuf_buf a),
                      mbuf_len := mbuf_len a + len\<rparr>)
      else let new_size = (mbuf_len a + len) * 3 div 2 in
        (case realloc (mbuf_buf a) new_size of
           None \<Rightarrow> Some (0, a)
         | Some (b, p) \<Rightarrow>
             Some (len, a\<lparr>mbuf_buf := mbuf_open_gap off src len (mbuf_len a) b, mbuf_addr := p,
                           mbuf_len := mbuf_len a + len, mbuf_size := new_size\<rparr>)))"

definition mbuf_append :: "allocator \<Rightarrow> mbuf \<Rightarrow> byte list option \<Rightarrow> nat \<Rightarrow> (nat \<times> mbuf) option" where
  "mbuf_append realloc a src len = mbuf_insert realloc a (mbuf_len a) src len"

definition mbuf_remove :: "mbuf \<Rightarrow> nat \<Rightarrow> mbuf" where
  "mbuf_remove mb n =
     (if n > 0 \<and> n \<le> mbuf_len mb
      then mb\<lparr>mbuf_buf := memmove_within 0 n (mbuf_len mb - n) (mbuf_buf mb),
              mbuf_len := mbuf_len mb - n\<rparr>
      else mb)"

section \<open>Invariant and abstraction\<close>

definition mbuf_inv :: "mbuf \<Rightarrow> bool" where
  "mbuf_inv a \<longleftrightarrow> length (mbuf_buf a) = mbuf_size a \<and> mbuf_len a \<le> mbuf_size a"

definition mbuf_data :: "mbuf \<Rightarrow> byte list" where
  "mbuf_data a = take (mbuf_len a) (mbuf_buf a)"

lemma length_mbuf_data: "mbuf_inv a \<Longrightarrow> length (mbuf_data a) = mbuf_len a"
  by (simp add: mbuf_inv_def mbuf_data_def)

lemma realloc_keeps:
  assumes "realloc_spec realloc" and "realloc old n = Some (new, p)" and "k \<le> length old" and "k \<le> n"
  shows "length new = n \<and> take k new = take k old"
proof -
  have new: "length new = n" "take (min (length old) n) new = take (min (length old) n) old"
    using assms(1,2) by (auto simp: realloc_spec_def)
  have "take k (take (min (length old) n) new) = take k (take (min (length old) n) old)"
    by (simp add: new)
  then show ?thesis using assms(3,4) new by (simp add: min_def split: if_splits)
qed

lemma mbuf_resize_ok:
  assumes "realloc_spec realloc" and "mbuf_inv a"
  shows "mbuf_inv (mbuf_resize realloc a n) \<and> mbuf_data (mbuf_resize realloc a n) = mbuf_data a"
  using assms realloc_keeps [OF assms(1), of "mbuf_buf a" n _ _ "mbuf_len a"]
  by (auto simp: mbuf_resize_def mbuf_inv_def mbuf_data_def split: option.split)

lemma open_gap:
  assumes "length b \<ge> old_len + len" and "off \<le> old_len" and "src = Some bytes" and "length bytes = len"
  shows "length (mbuf_open_gap off src len old_len b) = length b"
    and "take (old_len + len) (mbuf_open_gap off src len old_len b) =
      take off (take old_len b) @ bytes @ drop off (take old_len b)"
proof -
  show "length (mbuf_open_gap off src len old_len b) = length b"
    using assms by (simp add: mbuf_open_gap_def memmove_within_def)
  let ?tail = "take (old_len - off) (drop off b)"
  have t: "length ?tail = old_len - off" using assms by simp
  have "blit off bytes (blit (off + len) ?tail b) = take off b @ bytes @ ?tail @ drop (old_len + len) b"
    using assms t by (simp add: blit_def add.commute)
  moreover have "?tail = drop off (take old_len b)" by (simp add: drop_take)
  ultimately show "take (old_len + len) (mbuf_open_gap off src len old_len b) =
      take off (take old_len b) @ bytes @ drop off (take old_len b)"
    using assms by (simp add: mbuf_open_gap_def memmove_within_def)
qed

lemma mbuf_insert_total:
  assumes "mbuf_inv a" and "off \<le> mbuf_len a"
  shows "\<exists>r. mbuf_insert realloc a off src len = Some r"
  using assms by (auto simp: mbuf_insert_def mbuf_inv_def Let_def split: option.split)

text \<open>The three outcomes of an insertion: refused, in place, or into a larger block.\<close>

lemma mbuf_insert_cases:
  assumes "mbuf_insert realloc a off src len = Some (r, a')"
  obtains (refused) "a' = a" "r = 0"
  | (in_place) "mbuf_len a + len \<le> mbuf_size a" "r = len"
      "a' = a\<lparr>mbuf_buf := mbuf_open_gap off src len (mbuf_len a) (mbuf_buf a), mbuf_len := mbuf_len a + len\<rparr>"
  | (grown) b p where "r = len" "realloc (mbuf_buf a) ((mbuf_len a + len) * 3 div 2) = Some (b, p)"
      "a' = a\<lparr>mbuf_buf := mbuf_open_gap off src len (mbuf_len a) b, mbuf_addr := p,
               mbuf_len := mbuf_len a + len, mbuf_size := (mbuf_len a + len) * 3 div 2\<rparr>"
proof -
  define full where "full \<longleftrightarrow> 2 ^ 64 - 1 - unat (mbuf_addr a) < len"
  define n where "n = (mbuf_len a + len) * 3 div 2"
  show thesis
  proof (cases "full \<or> (mbuf_size a < mbuf_len a + len \<and> realloc (mbuf_buf a) n = None)")
    case True
    then show ?thesis using assms refused
      unfolding mbuf_insert_def full_def [symmetric] n_def [symmetric] Let_def
      by (simp split: if_splits)
  next
    case False
    then show ?thesis using assms in_place grown
      unfolding mbuf_insert_def full_def [symmetric] n_def [symmetric] Let_def
      by (auto split: if_splits option.splits)
  qed
qed

lemma mbuf_insert_result:
  assumes "realloc_spec realloc" and "mbuf_inv a" and "off \<le> mbuf_len a"
    and "mbuf_insert realloc a off (Some bytes) (length bytes) = Some (r, a')"
  shows "mbuf_inv a' \<and> (a' = a \<and> r = 0 \<or>
    mbuf_data a' = take off (mbuf_data a) @ bytes @ drop off (mbuf_data a) \<and> r = length bytes)"
  using assms(4)
proof (cases rule: mbuf_insert_cases)
  case refused
  then show ?thesis using assms(2) by simp
next
  case in_place
  then show ?thesis
    using assms(2,3) open_gap [of "mbuf_len a" "length bytes" "mbuf_buf a" off "Some bytes" bytes]
    by (simp add: mbuf_inv_def mbuf_data_def)
next
  case (grown b p)
  let ?n = "(mbuf_len a + length bytes) * 3 div 2"
  have n: "mbuf_len a + length bytes \<le> ?n" by simp
  have b: "length b = ?n" "take (mbuf_len a) b = take (mbuf_len a) (mbuf_buf a)"
    using realloc_keeps [OF assms(1) grown(2), of "mbuf_len a"] assms(2) n by (auto simp: mbuf_inv_def)
  have "mbuf_len a + length bytes \<le> length b" using n b(1) by simp
  note gap = open_gap [OF this assms(3) refl refl]
  show ?thesis
    using gap n b by (simp add: grown(1,3) mbuf_inv_def mbuf_data_def)
qed

lemma mbuf_remove_ok:
  assumes "mbuf_inv a"
  shows "mbuf_inv (mbuf_remove a n)"
    and "mbuf_data (mbuf_remove a n) = (if n \<le> mbuf_len a then drop n (mbuf_data a) else mbuf_data a)"
  using assms by (auto simp: mbuf_remove_def mbuf_inv_def mbuf_data_def memmove_within_def
      blit_def drop_take)

section \<open>Sequences of operations\<close>

datatype mbuf_op =
    Insert nat "byte list"
  | Append "byte list"
  | Remove nat
  | Resize nat
  | Trim

definition mbuf_exec :: "allocator \<Rightarrow> mbuf \<Rightarrow> mbuf_op \<Rightarrow> mbuf option" where
  "mbuf_exec realloc a op = (case op of
      Insert off bytes \<Rightarrow> map_option snd (mbuf_insert realloc a off (Some bytes) (length bytes))
    | Append bytes \<Rightarrow> map_option snd (mbuf_append realloc a (Some bytes) (length bytes))
    | Remove n \<Rightarrow> Some (mbuf_remove a n)
    | Resize n \<Rightarrow> Some (mbuf_resize realloc a n)
    | Trim \<Rightarrow> Some (mbuf_trim realloc a))"

text \<open>What the operations mean on the byte list: an insertion happens or is refused.\<close>

inductive bytes_step :: "byte list \<Rightarrow> mbuf_op \<Rightarrow> byte list \<Rightarrow> bool" where
  insert: "off \<le> length d \<Longrightarrow> bytes_step d (Insert off bytes) (take off d @ bytes @ drop off d)"
| insert_refused: "bytes_step d (Insert off bytes) d"
| append: "bytes_step d (Append bytes) (d @ bytes)"
| append_refused: "bytes_step d (Append bytes) d"
| remove: "n \<le> length d \<Longrightarrow> bytes_step d (Remove n) (drop n d)"
| remove_beyond: "length d < n \<Longrightarrow> bytes_step d (Remove n) d"
| resize: "bytes_step d (Resize n) d"
| trim: "bytes_step d Trim d"

lemmas bytes_step_intros = bytes_step.intros

lemma mbuf_exec_refines:
  assumes R: "realloc_spec realloc" and inv: "mbuf_inv a" and ex: "mbuf_exec realloc a op = Some a'"
  shows "mbuf_inv a' \<and> bytes_step (mbuf_data a) op (mbuf_data a')"
proof -
  note len = length_mbuf_data [OF inv]
  have ins: "mbuf_inv b \<and> bytes_step (mbuf_data a) (Insert off bytes) (mbuf_data b)"
    if "mbuf_insert realloc a off (Some bytes) (length bytes) = Some (r, b)" for off bytes r b
  proof -
    from that have "off \<le> mbuf_len a" by (auto simp: mbuf_insert_def split: if_splits)
    with mbuf_insert_result [OF R inv this that] len bytes_step.insert [of off "mbuf_data a" bytes]
    show ?thesis by (auto intro: bytes_step_intros)
  qed
  have app: "mbuf_inv b \<and> bytes_step (mbuf_data a) (Append bytes) (mbuf_data b)"
    if "mbuf_append realloc a (Some bytes) (length bytes) = Some (r, b)" for bytes r b
    using mbuf_insert_result [OF R inv le_refl that [unfolded mbuf_append_def]] len
    by (auto intro: bytes_step_intros)
  have rem: "bytes_step (mbuf_data a) (Remove n) (mbuf_data (mbuf_remove a n))" for n
    using mbuf_remove_ok(2) [OF inv, of n] len
    by (cases "n \<le> mbuf_len a") (simp_all add: bytes_step.remove bytes_step.remove_beyond)
  show ?thesis
    using ex ins app rem mbuf_remove_ok(1) [OF inv] mbuf_resize_ok [OF R inv]
    by (cases op) (auto simp: mbuf_exec_def mbuf_trim_def intro: bytes_step_intros)
qed

fun mbuf_run :: "allocator \<Rightarrow> mbuf \<Rightarrow> mbuf_op list \<Rightarrow> mbuf option" where
  "mbuf_run realloc a [] = Some a"
| "mbuf_run realloc a (op # ops) = Option.bind (mbuf_exec realloc a op) (\<lambda>a'. mbuf_run realloc a' ops)"

inductive bytes_steps :: "byte list \<Rightarrow> mbuf_op list \<Rightarrow> byte list \<Rightarrow> bool" where
  nil: "bytes_steps d [] d"
| cons: "bytes_step d op d' \<Longrightarrow> bytes_steps d' ops d'' \<Longrightarrow> bytes_steps d (op # ops) d''"

lemma mbuf_run_refines:
  "realloc_spec realloc \<Longrightarrow> mbuf_inv a \<Longrightarrow> mbuf_run realloc a ops = Some a' \<Longrightarrow>
    mbuf_inv a' \<and> bytes_steps (mbuf_data a) ops (mbuf_data a')"
proof (induction ops arbitrary: a)
  case (Cons op ops)
  then obtain b where b: "mbuf_exec realloc a op = Some b" "mbuf_run realloc b ops = Some a'"
    by (auto split: bind_splits)
  with Cons mbuf_exec_refines [OF Cons.prems(1,2) b(1)] show ?case
    by (auto intro: bytes_steps.cons)
qed (auto intro: bytes_steps.nil)

lemma mbuf_init_ok:
  assumes "realloc_spec realloc"
  shows "mbuf_inv (mbuf_init realloc n) \<and> mbuf_data (mbuf_init realloc n) = []"
  using mbuf_resize_ok [OF assms, of "\<lparr>mbuf_buf = [], mbuf_addr = 0, mbuf_len = 0, mbuf_size = 0\<rparr>" n]
  by (simp add: mbuf_init_def mbuf_inv_def mbuf_data_def)

section \<open>The interface its clients use\<close>

text \<open>
  The protocol code appends what it sends and removes what it has consumed. It relies on
  these laws when memory is available.
\<close>

locale byte_queue =
  fixes invar :: "'b \<Rightarrow> bool"
    and contents :: "'b \<Rightarrow> byte list"
    and put :: "'b \<Rightarrow> byte list \<Rightarrow> 'b"
    and discard :: "'b \<Rightarrow> nat \<Rightarrow> 'b"
    and fits :: "byte list \<Rightarrow> bool"
  assumes invar_put: "invar b \<Longrightarrow> fits xs \<Longrightarrow> invar (put b xs)"
    and invar_discard: "invar b \<Longrightarrow> invar (discard b n)"
    and contents_put: "invar b \<Longrightarrow> fits xs \<Longrightarrow> contents (put b xs) = contents b @ xs"
    and contents_discard: "invar b \<Longrightarrow> n \<le> length (contents b) \<Longrightarrow> contents (discard b n) = drop n (contents b)"
begin

lemma put_all:
  "invar b \<Longrightarrow> list_all fits ps \<Longrightarrow>
    invar (foldl put b ps) \<and> contents (foldl put b ps) = contents b @ concat ps"
  by (induction ps arbitrary: b) (simp_all add: invar_put contents_put)

text \<open>What was put first comes out first: discarding the old contents leaves the new.\<close>

lemma fifo:
  assumes "invar b" and "list_all fits ps"
  shows "contents (discard (foldl put b ps) (length (contents b))) = concat ps"
  using put_all [OF assms] by (simp add: contents_discard)

end

text \<open>An allocator that does not run out: fresh bytes are zero, blocks live at page 1.\<close>

definition heap_realloc :: allocator where
  "heap_realloc old n = Some (take n old @ replicate (n - length old) 0, 4096)"

lemma heap_realloc_spec: "realloc_spec heap_realloc"
  by (auto simp: realloc_spec_def heap_realloc_def min_def)

definition mbuf_put :: "mbuf \<Rightarrow> byte list \<Rightarrow> mbuf" where
  "mbuf_put a xs = (case mbuf_append heap_realloc a (Some xs) (length xs) of Some (_, b) \<Rightarrow> b | None \<Rightarrow> a)"

definition mbuf_usable :: "mbuf \<Rightarrow> bool" where
  "mbuf_usable a \<longleftrightarrow> mbuf_inv a \<and> unat (mbuf_addr a) \<le> 4096"

text \<open>Bytes are appended in blocks of less than \<open>2 ^ 63\<close>.\<close>

lemma mbuf_put_ok:
  assumes "mbuf_usable a" and "length xs < 2 ^ 63"
  shows "mbuf_usable (mbuf_put a xs) \<and> mbuf_data (mbuf_put a xs) = mbuf_data a @ xs"
proof -
  from assms have inv: "mbuf_inv a" and addr: "unat (mbuf_addr a) \<le> 4096" by (simp_all add: mbuf_usable_def)
  have "\<not> 2 ^ 64 - 1 - unat (mbuf_addr a) < length xs" using addr assms(2) by simp
  then obtain b where b: "mbuf_append heap_realloc a (Some xs) (length xs) = Some (length xs, b)"
      "unat (mbuf_addr b) \<le> 4096"
    using inv addr that
    by (cases "mbuf_len a + length xs \<le> mbuf_size a")
      (simp_all add: mbuf_append_def mbuf_insert_def mbuf_inv_def heap_realloc_def Let_def)
  from mbuf_insert_result [OF heap_realloc_spec inv le_refl b(1) [unfolded mbuf_append_def]]
  have "mbuf_inv b \<and> mbuf_data b = mbuf_data a @ xs"
    using length_mbuf_data [OF inv] by auto
  then show ?thesis using b by (simp add: mbuf_put_def mbuf_usable_def)
qed

interpretation mbuf_queue: byte_queue mbuf_usable mbuf_data mbuf_put mbuf_remove "\<lambda>xs. length xs < 2 ^ 63"
proof unfold_locales
  fix b :: mbuf and n :: nat
  assume u: "mbuf_usable b"
  then have inv: "mbuf_inv b" by (simp add: mbuf_usable_def)
  show "mbuf_usable (mbuf_remove b n)"
    using u mbuf_remove_ok(1) [OF inv] by (simp add: mbuf_usable_def mbuf_remove_def)
  show "mbuf_data (mbuf_remove b n) = drop n (mbuf_data b)" if "n \<le> length (mbuf_data b)"
    using that mbuf_remove_ok(2) [OF inv] length_mbuf_data [OF inv] by simp
qed (simp_all add: mbuf_put_ok)

section \<open>Properties\<close>

text \<open>
  C35. Buffer refinement: from a buffer made by \<open>mbuf_init\<close>, under any allocator that keeps
  its contract (it may fail at any call), every run of insertions, appends, removals,
  resizes and trims that hits no assertion keeps \<open>len \<le> size\<close> and the block of that
  size, and changes the contents as the same operations change a byte list, where an
  insertion may be refused as a whole but never done in part.
\<close>

theorem mbuf_run_refines_bytes:
  assumes "realloc_spec realloc" and "mbuf_run realloc (mbuf_init realloc n) ops = Some a"
  shows "mbuf_len a \<le> mbuf_size a \<and> length (mbuf_buf a) = mbuf_size a
    \<and> bytes_steps [] ops (mbuf_data a)"
  using mbuf_run_refines [OF assms(1) _ assms(2)] mbuf_init_ok [OF assms(1), of n]
  by (auto simp: mbuf_inv_def)

theorem mbuf_run_refines_bytes_witness:
  "\<exists>a. mbuf_run heap_realloc (mbuf_init heap_realloc 2) [Append [1, 2, 3], Remove 1, Insert 1 [9], Trim] = Some a
    \<and> mbuf_data a = [2, 9, 3] \<and> mbuf_len a \<le> mbuf_size a
    \<and> bytes_steps [] [Append [1, 2, 3], Remove 1, Insert 1 [9], Trim] (mbuf_data a)"
proof -
  let ?ops = "[Append [1, 2, 3], Remove 1, Insert 1 [9], Trim]"
  have r: "replicate 2 (0 :: byte) = [0, 0]" by (simp add: numeral_2_eq_2)
  obtain a where a: "mbuf_run heap_realloc (mbuf_init heap_realloc 2) ?ops = Some a" and "mbuf_data a = [2, 9, 3]"
    by (simp add: r mbuf_init_def mbuf_resize_def heap_realloc_def mbuf_exec_def mbuf_append_def
        mbuf_insert_def mbuf_open_gap_def memmove_within_def blit_def mbuf_remove_def mbuf_trim_def
        mbuf_data_def Let_def)
  with mbuf_run_refines_bytes [OF heap_realloc_spec a] show ?thesis by auto
qed

text \<open>
  No assertion of \<open>mbuf_insert\<close> can fail in an invariant-keeping buffer when the
  offset is inside the data, and a successful call returns the number of bytes stored;
  appending any pieces and then removing the old length leaves exactly the pieces.
\<close>

lemma mbuf_fifo:
  assumes "mbuf_usable b" and "\<forall>p \<in> set ps. length p < 2 ^ 63"
  shows "mbuf_data (mbuf_remove (foldl mbuf_put b ps) (mbuf_len b)) = concat ps
    \<and> (\<forall>off src len realloc. off \<le> mbuf_len b \<longrightarrow> mbuf_insert realloc b off src len \<noteq> None)"
proof -
  have inv: "mbuf_inv b" using assms(1) by (simp add: mbuf_usable_def)
  have "mbuf_data (mbuf_remove (foldl mbuf_put b ps) (length (mbuf_data b))) = concat ps"
    using assms by (intro mbuf_queue.fifo) (simp_all add: list_all_iff)
  then show ?thesis
    using mbuf_insert_total [OF inv] length_mbuf_data [OF inv] by auto
qed

lemma mbuf_fifo_witness:
  "mbuf_data (mbuf_remove (foldl mbuf_put (mbuf_init heap_realloc 0) [[1, 2], [], [3]]) 0) = [1, 2, 3]"
proof -
  have u: "mbuf_usable (mbuf_init heap_realloc 0)" "mbuf_len (mbuf_init heap_realloc 0) = 0"
    by (simp_all add: mbuf_usable_def mbuf_inv_def mbuf_init_def mbuf_resize_def)
  show ?thesis using mbuf_fifo [OF u(1), of "[[1, 2], [], [3]]"] u(2) by simp
qed

end
