(* ===== verification/MgStr.thy ===== *)
theory MgStr
  imports Prelude
begin

text \<open>
  Strings in Mongoose: \<open>struct mg_str\<close> and its comparisons (\<open>common/mg_str.c\<close>), and the
  text helpers of \<open>util.c\<close>: \<open>mg_skip\<close>, \<open>mg_ncasecmp\<close>, \<open>mg_next_comma_list_entry\<close> and the
  glob matcher \<open>mg_match_prefix\<close>. An \<open>mg_str\<close> whose bytes are read is the list of its
  \<open>len\<close> bytes; a C string is the list of its bytes before the NUL.
\<close>

section \<open>Comparisons\<close>

text \<open>\<open>tolower\<close> in the C locale, and \<open>lowercase\<close>, which applies it to an \<open>unsigned char\<close>.\<close>

definition lowercase :: "byte \<Rightarrow> byte" where
  "lowercase c = (if 65 \<le> c \<and> c \<le> 90 then c + 32 else c)"

text \<open>\<open>memcmp\<close> of \<open>n\<close> bytes: the difference at the first byte that differs.\<close>

fun memcmp :: "byte list \<Rightarrow> byte list \<Rightarrow> nat \<Rightarrow> int" where
  "memcmp (a # s) (b # t) (Suc n) = (if a = b then memcmp s t n else uint a - uint b)"
| "memcmp _ _ _ = 0"

text \<open>A C string read byte by byte: the NUL follows its last byte.\<close>

fun chop :: "byte list \<Rightarrow> byte \<times> byte list" where
  "chop [] = (0, [])"
| "chop (c # s) = (c, s)"

fun mg_ncasecmp :: "byte list \<Rightarrow> byte list \<Rightarrow> nat \<Rightarrow> int" where
  "mg_ncasecmp s1 s2 0 = 0"
| "mg_ncasecmp s1 s2 (Suc len) =
     (let (c1, r1) = chop s1; (c2, r2) = chop s2;
          diff = uint (lowercase c1) - uint (lowercase c2)
      in if diff = 0 \<and> c1 \<noteq> 0 \<and> len > 0 then mg_ncasecmp r1 r2 len else diff)"

text \<open>The \<open>size_t\<close> difference \<open>n1 - n2\<close> returned as an \<open>int\<close>.\<close>

definition size_diff :: "nat \<Rightarrow> nat \<Rightarrow> int" where
  "size_diff n1 n2 = sint (of_int (int n1 - int n2) :: u32)"

definition mg_vcmp :: "byte list \<Rightarrow> byte list \<Rightarrow> int" where
  "mg_vcmp str1 str2 =
     (let n2 = length str2; n1 = length str1;
          r = memcmp str1 str2 (if n1 < n2 then n1 else n2)
      in if r = 0 then size_diff n1 n2 else r)"

definition mg_vcasecmp :: "byte list \<Rightarrow> byte list \<Rightarrow> int" where
  "mg_vcasecmp str1 str2 =
     (let n2 = length str2; n1 = length str1;
          r = mg_ncasecmp str1 str2 (if n1 < n2 then n1 else n2)
      in if r = 0 then size_diff n1 n2 else r)"

text \<open>\<open>mg_casecmp\<close> bounds the comparison by \<open>(size_t) ~0\<close>.\<close>

definition mg_casecmp :: "byte list \<Rightarrow> byte list \<Rightarrow> int" where
  "mg_casecmp s1 s2 = mg_ncasecmp s1 s2 (2 ^ 64 - 1)"

section \<open>Scanning\<close>

text \<open>
  \<open>strchr (delims, c) != NULL\<close>: also true of the NUL, which terminates \<open>delims\<close>.
\<close>

definition is_delim :: "byte list \<Rightarrow> byte \<Rightarrow> bool" where
  "is_delim delims c \<longleftrightarrow> c = 0 \<or> c \<in> set delims"

text \<open>\<open>mg_skip\<close>: the token \<open>v\<close> and the rest of the input up to \<open>end\<close>.\<close>

definition mg_skip :: "byte list \<Rightarrow> byte list \<Rightarrow> byte list \<times> byte list" where
  "mg_skip s delims =
     (let v = takeWhile (\<lambda>c. \<not> is_delim delims c) s;
          s1 = dropWhile (\<lambda>c. \<not> is_delim delims c) s
      in (v, dropWhile (is_delim delims) s1))"

text \<open>\<open>memchr\<close>: the index of the first occurrence.\<close>

fun memchr :: "byte list \<Rightarrow> byte \<Rightarrow> nat option" where
  "memchr [] c = None"
| "memchr (x # s) c = (if x = c then Some 0 else map_option Suc (memchr s c))"

text \<open>
  \<open>mg_next_comma_list_entry\<close>: nothing at the end of the list, else the rest of the list,
  \<open>val\<close> and \<open>eq_val\<close> (when asked for; \<open>None\<close> is its null pointer).
\<close>

definition mg_next_comma_list_entry ::
  "byte list \<Rightarrow> bool \<Rightarrow> (byte list \<times> byte list \<times> byte list option) option" where
  "mg_next_comma_list_entry list want_eq =
     (if list = [] then None
      else let (val, rest) = (case memchr list 44 of
                 Some k \<Rightarrow> (take k list, drop (k + 1) list)
               | None \<Rightarrow> (list, []))
           in if want_eq
              then (case memchr val 61 of
                      Some k \<Rightarrow> Some (rest, take k val, Some (drop (k + 1) val))
                    | None \<Rightarrow> Some (rest, val, None))
              else Some (rest, val, None))"

section \<open>Glob matching\<close>

text \<open>Reading a C string at an index: past its last byte there is its NUL.\<close>

definition rd :: "byte list \<Rightarrow> nat \<Rightarrow> byte" where
  "rd p i = (if i < length p then p ! i else 0)"

text \<open>
  \<open>while (j + len != str.len && str.p[len] != '/') len++\<close>. The source indexes the string
  from its start, not from \<open>j\<close>.
\<close>

function mp_star_len :: "byte list \<Rightarrow> nat \<Rightarrow> nat \<Rightarrow> nat" where
  "mp_star_len s j len =
     (if j + len < length s \<and> rd s len \<noteq> 47 then mp_star_len s j (len + 1) else len)"
  by pat_completeness auto
termination by (relation "measure (\<lambda>(s, j, len). length s - (j + len))") auto

declare mp_star_len.simps [simp del]

text \<open>
  \<open>mg_match_prefix_n\<close>. The string \<open>s\<close> is followed by a NUL, as the strings of
  \<open>mg_match_prefix\<close> are, so that \<open>j\<close> never passes its end; the pattern is the memory \<open>p\<close>
  from its pointer on, of which the first \<open>plen\<close> bytes are the pattern (the look-ahead after
  a star reads the byte behind it). The loop over the pattern and the backtracking
  \<open>do ... while\<close> after a star are functions of their own.
\<close>

function mg_match_prefix_n :: "byte list \<Rightarrow> nat \<Rightarrow> byte list \<Rightarrow> int"
  and mp_loop :: "byte list \<Rightarrow> nat \<Rightarrow> byte list \<Rightarrow> nat \<Rightarrow> nat \<Rightarrow> int"
  and mp_star :: "byte list \<Rightarrow> nat \<Rightarrow> byte list \<Rightarrow> nat \<Rightarrow> nat \<Rightarrow> int" where
  "mg_match_prefix_n p plen s =
     (case memchr (take plen p) 124 of
        Some k \<Rightarrow>
          (if k < plen then
             let res = mg_match_prefix_n p k s
             in if res > 0 then res
                else mg_match_prefix_n (drop (k + 1) p) (plen - (k + 1)) s
           else -1)
      | None \<Rightarrow> mp_loop p plen s 0 0)"
| "mp_loop p plen s i j =
     (if i < plen then
        (if rd p i = 63 \<and> j \<noteq> length s then mp_loop p plen s (i + 1) (j + 1)
         else if rd p i = 36 then (if j = length s then int j else -1)
         else if rd p i = 42 then
           (let i1 = i + 1;
                double = (rd p i1 = 42);
                i2 = (if double then i1 + 1 else i1);
                len = (if double then length s - j else mp_star_len s j 0)
            in if i2 = plen then int (j + len)
               else mp_star (drop i2 p) (plen - i2) s j len)
         else if lowercase (rd p i) \<noteq> lowercase (rd s j) then -1
         else mp_loop p plen s (i + 1) (j + 1))
      else int j)"
| "mp_star p plen s j len =
     (let res = mg_match_prefix_n p plen (drop (j + len) s)
      in if res = -1 \<and> len > 0 then mp_star p plen s j (len - 1)
         else if res = -1 then -1 else int j + res + int len)"
  by pat_completeness auto
termination
  by (relation "measures
      [\<lambda>x. case x of Inl (p, plen, s) \<Rightarrow> plen
         | Inr (Inl (p, plen, s, i, j)) \<Rightarrow> plen
         | Inr (Inr (p, plen, s, j, len)) \<Rightarrow> plen,
       \<lambda>x. case x of Inl _ \<Rightarrow> 1 | Inr (Inl _) \<Rightarrow> 0 | Inr (Inr _) \<Rightarrow> (2 :: nat),
       \<lambda>x. case x of Inl _ \<Rightarrow> 0
         | Inr (Inl (p, plen, s, i, j)) \<Rightarrow> plen - i
         | Inr (Inr (p, plen, s, j, len)) \<Rightarrow> len]") auto

declare mg_match_prefix_n.simps [simp del] mp_loop.simps [simp del] mp_star.simps [simp del]

definition mg_match_prefix :: "byte list \<Rightarrow> byte list \<Rightarrow> int" where
  "mg_match_prefix pattern str = mg_match_prefix_n pattern (length pattern) str"

section \<open>Facts on comparisons\<close>

lemma lowercase_0 [simp]: "lowercase 0 = 0"
  by (simp add: lowercase_def)

lemma lowercase_eq_0: "lowercase c = 0 \<longleftrightarrow> c = 0"
proof -
  have "unat (c + 32) \<noteq> 0" if "65 \<le> c" "c \<le> 90"
    using that by (simp add: unat_plus_if' word_le_nat_alt)
  then show ?thesis
    by (auto simp: lowercase_def)
qed

lemma memcmp_eq_0:
  "n \<le> length s \<Longrightarrow> n \<le> length t \<Longrightarrow> memcmp s t n = 0 \<longleftrightarrow> take n s = take n t"
  by (induction s t n rule: memcmp.induct) (auto simp: word_uint_eq_iff)

lemma mg_ncasecmp_eq_0:
  assumes "n \<le> length s" "n \<le> length t" "0 \<notin> set t"
  shows "mg_ncasecmp s t n = 0 \<longleftrightarrow> map lowercase (take n s) = map lowercase (take n t)"
  using assms
proof (induction s t n rule: mg_ncasecmp.induct)
  case (2 s t n)
  then obtain a s' b t' where [simp]: "s = a # s'" "t = b # t'"
    by (cases s; cases t) auto
  have "lowercase a = lowercase b \<Longrightarrow> a \<noteq> 0"
    using 2 lowercase_eq_0 [of a] lowercase_eq_0 [of b] by auto
  then show ?case
    using 2 by (auto simp: word_uint_eq_iff)
qed simp

lemma size_diff_eq_0:
  "n1 < 2 ^ 31 \<Longrightarrow> n2 < 2 ^ 31 \<Longrightarrow> size_diff n1 n2 = 0 \<longleftrightarrow> n1 = n2"
  using signed_take_bit_int_eq_self [of 31 "int n1 - int n2"]
  by (simp add: size_diff_def signed_of_int del: of_int_diff of_int_of_nat_eq)

lemma mg_vcmp_eq_0:
  "length s < 2 ^ 31 \<Longrightarrow> length t < 2 ^ 31 \<Longrightarrow> mg_vcmp s t = 0 \<longleftrightarrow> s = t"
  by (auto simp: mg_vcmp_def Let_def memcmp_eq_0 size_diff_eq_0)

lemma mg_vcasecmp_eq_0:
  assumes "length s < 2 ^ 31" "length t < 2 ^ 31" "0 \<notin> set t"
  shows "mg_vcasecmp s t = 0 \<longleftrightarrow> map lowercase s = map lowercase t"
proof -
  have "map lowercase s = map lowercase t \<Longrightarrow> length s = length t"
    by (metis length_map)
  moreover have "mg_ncasecmp s t (length s) = 0 \<longleftrightarrow> map lowercase s = map lowercase t"
    if "length s = length t"
    using mg_ncasecmp_eq_0 [of "length s" s t] that assms by simp
  moreover have "size_diff (length s) (length t) = 0 \<longleftrightarrow> length s = length t"
    using assms by (intro size_diff_eq_0)
  ultimately show ?thesis
    by (auto simp: mg_vcasecmp_def Let_def)
qed

section \<open>Comma-separated lists\<close>

lemma memchr_Some:
  "memchr s c = Some k \<Longrightarrow> k < length s \<and> s ! k = c \<and> c \<notin> set (take k s)
     \<and> s = take k s @ c # drop (k + 1) s"
  by (induction s arbitrary: k) (auto split: if_splits)

lemma memchr_None: "memchr s c = None \<longleftrightarrow> c \<notin> set s"
  by (induction s) auto

lemma memchr_append: "c \<notin> set a \<Longrightarrow> memchr (a @ c # b) c = Some (length a)"
  by (induction a) auto

text \<open>
  The loop in which the callers use \<open>mg_next_comma_list_entry\<close>: until it returns null, the
  entries it stores.
\<close>

function comma_entries :: "byte list \<Rightarrow> (byte list \<times> byte list option) list" where
  "comma_entries list =
     (case mg_next_comma_list_entry list True of
        None \<Rightarrow> []
      | Some (rest, val, eq_val) \<Rightarrow> (val, eq_val) # comma_entries rest)"
  by pat_completeness auto
termination
  by (relation "measure length")
    (auto simp: mg_next_comma_list_entry_def Let_def split: if_splits option.splits
      dest!: memchr_Some)

declare comma_entries.simps [simp del]

text \<open>What an entry \<open>x=y\<close> stands for.\<close>

definition key_value :: "byte list \<Rightarrow> byte list \<times> byte list option" where
  "key_value f =
     (if 61 \<in> set f
      then (takeWhile (\<lambda>c. c \<noteq> 61) f, Some (tl (dropWhile (\<lambda>c. c \<noteq> 61) f)))
      else (f, None))"

lemma memchr_takeWhile:
  "memchr f c = (if c \<in> set f then Some (length (takeWhile (\<lambda>x. x \<noteq> c) f)) else None)"
  by (induction f) auto

lemma key_value_memchr:
  "key_value f =
     (case memchr f 61 of None \<Rightarrow> (f, None) | Some k \<Rightarrow> (take k f, Some (drop (k + 1) f)))"
  by (simp add: key_value_def memchr_takeWhile dropWhile_eq_drop drop_Suc tl_drop
      flip: takeWhile_eq_take)

lemma comma_entries_Nil [simp]: "comma_entries [] = []"
  by (simp add: comma_entries.simps mg_next_comma_list_entry_def)

lemma comma_entries_last:
  "f \<noteq> [] \<Longrightarrow> 44 \<notin> set f \<Longrightarrow> comma_entries f = [key_value f]"
  using iffD2 [OF memchr_None, of 44 f]
  by (subst comma_entries.simps)
    (simp add: mg_next_comma_list_entry_def key_value_memchr split: option.split)

lemma comma_entries_step:
  "44 \<notin> set f \<Longrightarrow> comma_entries (f @ 44 # rest) = key_value f # comma_entries rest"
  by (subst comma_entries.simps)
    (simp add: mg_next_comma_list_entry_def memchr_append key_value_memchr split: option.split)

text \<open>
  Walking a comma-separated list with \<open>mg_next_comma_list_entry\<close> visits each of its
  fields once and in order, empty ones included, cut at its first \<open>=\<close> into key and value;
  only an empty field at the very end is not visited (the list ends at a trailing comma).
\<close>

lemma comma_list_visits_fields:
  assumes "fs \<noteq> []" and "\<forall>f \<in> set fs. 44 \<notin> set f" and "last fs \<noteq> []"
  shows "comma_entries (join 44 fs) = map key_value fs
    \<and> comma_entries (join 44 (fs @ [[]])) = map key_value fs"
proof -
  have "comma_entries (join 44 fs) = map key_value fs"
    using assms
    by (induction "44 :: byte" fs rule: join.induct)
      (auto simp: comma_entries_last comma_entries_step)
  moreover have "comma_entries (join 44 (fs @ [[]])) = map key_value fs"
    using assms(1,2)
  proof (induction fs)
    case (Cons f fs)
    then show ?case
      using comma_entries_step [of f "[]"] by (cases fs) (auto simp: comma_entries_step)
  qed simp
  ultimately show ?thesis by simp
qed

lemma comma_list_visits_fields_witness:
  "comma_entries (join 44 [bs ''a=1'', [], bs ''b''])
     = [(bs ''a'', Some (bs ''1'')), ([], None), (bs ''b'', None)]"
  using comma_list_visits_fields [of "[bs ''a=1'', [], bs ''b'']"]
  by (simp add: bs_def key_value_def of_char_def)

section \<open>Correctness of the glob matcher\<close>

text \<open>
  The patterns: \<open>glob p s k\<close> says that the alternative \<open>p\<close> matches the first \<open>k\<close> bytes of
  \<open>s\<close>. A dollar stands for the end of the string (what follows it in the pattern is
  ignored), a question mark for any byte, a star for any bytes.
\<close>

inductive glob :: "byte list \<Rightarrow> byte list \<Rightarrow> nat \<Rightarrow> bool" where
  glob_Nil: "glob [] s 0"
| glob_lit: "lowercase c = lowercase d \<Longrightarrow> c \<notin> {36, 42} \<Longrightarrow> glob p s k \<Longrightarrow> glob (c # p) (d # s) (Suc k)"
| glob_any: "glob p s k \<Longrightarrow> glob (63 # p) (d # s) (Suc k)"
| glob_end: "glob (36 # p) [] 0"
| glob_star: "m \<le> length s \<Longrightarrow> glob p (drop m s) k \<Longrightarrow> glob (42 # p) s (m + k)"

inductive_cases glob_ConsE: "glob (c # p) s k"

inductive_simps glob_simps [simp]: "glob [] s k"

lemma glob_Cons_cases:
  assumes "glob (c # p) s k"
  obtains (byte) d s' k' where "c \<notin> {36, 42}" "c = 63 \<or> lowercase c = lowercase d" "s = d # s'"
      "glob p s' k'"
  | (dollar) "c = 36" "s = []"
  | (star) "c = 42"
  using assms by (auto elim: glob_ConsE)

lemma glob_length: "glob p s k \<Longrightarrow> k \<le> length s"
  by (induction rule: glob.induct) auto

lemma glob_star_star: "glob (42 # 42 # p) s k \<Longrightarrow> \<exists>m \<le> length s. \<exists>k'. glob p (drop m s) k'"
proof -
  assume "glob (42 # 42 # p) s k"
  then obtain m k1 where "m \<le> length s" "glob (42 # p) (drop m s) k1"
    by (auto elim: glob_ConsE)
  then obtain m' k2 where "m' \<le> length s - m" "glob p (drop m' (drop m s)) k2"
    by (auto elim: glob_ConsE)
  then show ?thesis
    using \<open>m \<le> length s\<close> by (intro exI [of _ "m + m'"]) (auto simp: add.commute)
qed

lemma mp_star_len_le: "j + len \<le> length s \<Longrightarrow> j + mp_star_len s j len \<le> length s"
  by (induction s j len rule: mp_star_len.induct) (simp add: mp_star_len.simps)

lemma rd_drop [simp]: "rd (drop n p) i = rd p (n + i)"
  by (auto simp: rd_def less_diff_conv add.commute)

lemma drop_rd: "i < plen \<Longrightarrow> plen \<le> length p \<Longrightarrow> drop i (take plen p) = rd p i # drop (Suc i) (take plen p)"
  by (simp add: rd_def Cons_nth_drop_Suc [symmetric])

text \<open>
  What is shown of a result: \<open>-1\<close>, or the end of a match of \<open>pat\<close> that starts at \<open>j\<close>.
\<close>

definition match_at :: "byte list \<Rightarrow> byte list \<Rightarrow> nat \<Rightarrow> int \<Rightarrow> bool" where
  "match_at pat s j r \<longleftrightarrow> r = -1 \<or> (\<exists>k. r = int (j + k) \<and> glob pat (drop j s) k)"

lemma match_at_fail [simp]: "match_at pat s j (-1)"
  by (simp add: match_at_def)

lemma match_at_step:
  assumes "match_at pat s (j + 1) r" and "j < length s"
    and "\<And>k. glob pat (drop (j + 1) s) k \<Longrightarrow> glob (c # pat) (rd s j # drop (j + 1) s) (Suc k)"
  shows "match_at (c # pat) s j r"
proof -
  have "drop j s = rd s j # drop (j + 1) s"
    using assms(2) by (simp add: rd_def Cons_nth_drop_Suc)
  then show ?thesis
    using assms(1,3) unfolding match_at_def by force
qed

lemma match_at_star:
  assumes "match_at pat (drop (j + len) s) 0 r" and "j + len \<le> length s" and "r \<noteq> -1"
  shows "match_at (42 # pat) s j (int j + r + int len)"
proof -
  obtain k where k: "r = int k" "glob pat (drop len (drop j s)) k"
    using assms by (auto simp: match_at_def add.commute)
  then have "glob (42 # pat) (drop j s) (len + k)"
    using assms(2) by (intro glob_star) auto
  moreover have "int j + r + int len = int (j + (len + k))"
    using k by simp
  ultimately show ?thesis
    unfolding match_at_def by blast
qed

lemma glob_double: "glob (42 # p) s k \<Longrightarrow> glob (42 # 42 # p) s k"
  using glob_star [of 0 s "42 # p" k] by simp

lemma match_at_double: "match_at (42 # p) s j r \<Longrightarrow> match_at (42 # 42 # p) s j r"
  by (auto simp: match_at_def glob_double)

text \<open>The pattern \<open>p\<close>, \<open>plen\<close> is well placed in memory: no NUL in it and no star behind it.\<close>

definition pattern_ok :: "byte list \<Rightarrow> nat \<Rightarrow> bool" where
  "pattern_ok p plen \<longleftrightarrow> plen \<le> length p \<and> rd p plen \<noteq> 42 \<and> 0 \<notin> set p"

lemma pattern_ok_drop: "pattern_ok p plen \<Longrightarrow> n \<le> plen \<Longrightarrow> pattern_ok (drop n p) (plen - n)"
  by (auto simp: pattern_ok_def dest: in_set_dropD)

lemma pattern_ok_cut:
  assumes "pattern_ok p plen" and "memchr (take plen p) 124 = Some k"
  shows "pattern_ok p k \<and> k < plen \<and> split_on 124 (take plen p) =
    take k p # split_on 124 (take (plen - (k + 1)) (drop (k + 1) p))"
proof -
  define a b where "a = take k p" and "b = drop (k + 1) (take plen p)"
  note k = memchr_Some [OF assms(2)]
  then have K: "k < plen" "k < length p" "p ! k = 124"
    by auto
  then have a: "take k (take plen p) = a"
    by (simp add: a_def min_def)
  have "take plen p = a @ 124 # b" "124 \<notin> set a"
    using k a by (auto simp only: b_def)
  then have "split_on 124 (take plen p) = a # split_on 124 b"
    by (simp add: split_on_append)
  then show ?thesis
    using K assms(1) by (simp add: a_def b_def pattern_ok_def rd_def drop_take)
qed

lemma pattern_literal:
  assumes "pattern_ok p plen" "i < plen" "lowercase (rd p i) = lowercase (rd s j)" "j \<le> length s"
  shows "j < length s"
proof (rule ccontr)
  assume "\<not> j < length s"
  then have "rd p i = 0"
    using assms lowercase_eq_0 [of "rd p i"] by (simp add: rd_def)
  moreover have "i < length p"
    using assms by (simp add: pattern_ok_def)
  ultimately have "0 \<in> set p"
    by (metis nth_mem rd_def)
  then show False
    using assms by (simp add: pattern_ok_def)
qed

lemma match_at_all: "j + len \<le> length s \<Longrightarrow> match_at [42] s j (int (j + len))"
  using glob_star [of len "drop j s" "[]" 0] by (auto simp: match_at_def)

text \<open>One round of the loop over the pattern, given the results of what it calls.\<close>

lemma mp_loop_sound_step:
  assumes ok: "pattern_ok p plen" "i \<le> plen" "j \<le> length s"
    and loop: "\<And>j'. j' \<le> length s \<Longrightarrow> i < plen \<Longrightarrow>
      match_at (drop (i + 1) (take plen p)) s j' (mp_loop p plen s (i + 1) j')"
    and star: "\<And>i2 len. i < i2 \<Longrightarrow> i2 < plen \<Longrightarrow> j + len \<le> length s \<Longrightarrow>
      match_at (42 # take (plen - i2) (drop i2 p)) s j (mp_star (drop i2 p) (plen - i2) s j len)"
  shows "match_at (drop i (take plen p)) s j (mp_loop p plen s i j)"
proof (cases "i < plen")
  case False
  then have "drop i (take plen p) = []"
    by simp
  moreover have "mp_loop p plen s i j = int j"
    using False by (subst mp_loop.simps) simp
  ultimately show ?thesis
    by (simp add: match_at_def)
next
  case True
  define c where "c = rd p i"
  define rest where "rest = drop (i + 1) (take plen p)"
  have D: "drop i (take plen p) = c # rest"
    using True ok drop_rd [of i plen p] by (simp add: c_def rest_def pattern_ok_def)
  consider "c = 63" "j < length s" | "c = 36" | "c = 42" | "c \<notin> {36, 42}" "\<not> (c = 63 \<and> j < length s)"
    by auto
  then show ?thesis
  proof cases
    case 1
    then have "mp_loop p plen s i j = mp_loop p plen s (i + 1) (j + 1)"
      using True by (subst mp_loop.simps) (simp add: c_def)
    then show ?thesis
      using 1 loop [of "j + 1"] True
      by (auto simp: D rest_def intro!: match_at_step glob_any)
  next
    case 2
    then have "mp_loop p plen s i j = (if j = length s then int j else -1)"
      using True by (subst mp_loop.simps) (simp add: c_def)
    then show ?thesis
      using 2 glob_end by (auto simp: D match_at_def)
  next
    case 3
    define i2 where "i2 = (if rd p (i + 1) = 42 then i + 2 else i + 1)"
    define len where "len = (if rd p (i + 1) = 42 then length s - j else mp_star_len s j 0)"
    have L: "j + len \<le> length s"
      using ok mp_star_len_le [of j 0 s] by (simp add: len_def)
    have I: "i < i2" "i2 \<le> plen"
      using ok True by (cases "i + 1 = plen"; auto simp: i2_def pattern_ok_def)+
    have R: "mp_loop p plen s i j =
        (if i2 = plen then int (j + len) else mp_star (drop i2 p) (plen - i2) s j len)"
      using True 3 by (subst mp_loop.simps) (auto simp add: c_def i2_def len_def Let_def)
    have "match_at (42 # take (plen - i2) (drop i2 p)) s j (mp_loop p plen s i j)"
      using R L I star match_at_all by (cases "i2 = plen") auto
    moreover have "42 # rest = (if rd p (i + 1) = 42 then 42 # 42 # take (plen - i2) (drop i2 p)
        else 42 # take (plen - i2) (drop i2 p))"
      using I drop_rd [of "i + 1" plen p] ok
      by (auto simp: rest_def i2_def drop_take pattern_ok_def)
    ultimately show ?thesis
      using 3 by (auto simp: D match_at_double)
  next
    case 4
    then have "mp_loop p plen s i j = (if lowercase c \<noteq> lowercase (rd s j) then -1
        else mp_loop p plen s (i + 1) (j + 1))"
      using True ok by (subst mp_loop.simps) (auto simp: c_def)
    then show ?thesis
      using 4 True ok loop [of "j + 1"] pattern_literal [of p plen i s j]
      by (auto simp: D rest_def c_def intro!: match_at_step glob_lit)
  qed
qed

text \<open>The backtracking loop, given that the recursive calls are sound.\<close>

lemma mp_star_sound:
  assumes "\<And>s. match_at pat s 0 (mg_match_prefix_n p plen s)" and "j + len \<le> length s"
  shows "match_at (42 # pat) s j (mp_star p plen s j len)"
  using assms(2)
proof (induction len)
  case 0
  then show ?case
    using match_at_star [OF assms(1) 0] by (subst mp_star.simps) (auto simp: Let_def)
next
  case (Suc len)
  then show ?case
    using match_at_star [OF assms(1) Suc(2)] by (subst mp_star.simps) (auto simp: Let_def)
qed

lemma mp_loop_sound:
  assumes "pattern_ok p plen"
    and "\<And>i2 s. 0 < i2 \<Longrightarrow> i2 \<le> plen \<Longrightarrow>
      match_at (take (plen - i2) (drop i2 p)) s 0 (mg_match_prefix_n (drop i2 p) (plen - i2) s)"
  shows "i \<le> plen \<Longrightarrow> j \<le> length s \<Longrightarrow>
    match_at (drop i (take plen p)) s j (mp_loop p plen s i j)"
proof (induction "plen - i" arbitrary: i j rule: less_induct)
  case less
  show ?case
    by (rule mp_loop_sound_step [OF assms(1) less(2,3)])
      (use less(1) assms(2) in \<open>auto intro!: mp_star_sound\<close>)
qed

lemma mg_match_prefix_n_sound:
  "pattern_ok p plen \<Longrightarrow>
     \<exists>pat \<in> set (split_on 124 (take plen p)). match_at pat s 0 (mg_match_prefix_n p plen s)"
proof (induction plen arbitrary: p s rule: less_induct)
  case (less plen)
  show ?case
  proof (cases "memchr (take plen p) 124")
    case None
    then have R: "mg_match_prefix_n p plen s = mp_loop p plen s 0 0" "124 \<notin> set (take plen p)"
      by (simp add: mg_match_prefix_n.simps) (use None in \<open>simp add: memchr_None\<close>)
    have "match_at (take (plen - i2) (drop i2 p)) s 0 (mg_match_prefix_n (drop i2 p) (plen - i2) s)"
      if "0 < i2" "i2 \<le> plen" for i2 s
    proof -
      have "124 \<notin> set (take (plen - i2) (drop i2 p))"
        using R(2) set_drop_subset [of i2 "take plen p"] by (auto simp: drop_take)
      then show ?thesis
        using less(1) [of "plen - i2" "drop i2 p"] pattern_ok_drop [OF less(2), of i2] that
        by (simp add: split_on_no_sep)
    qed
    then have "match_at (take plen p) s 0 (mg_match_prefix_n p plen s)"
      using mp_loop_sound [OF less(2), of 0 0 s] by (simp add: R)
    then show ?thesis
      by (simp add: split_on_no_sep R(2))
  next
    case (Some k)
    note cut = pattern_ok_cut [OF less(2) Some]
    have "mg_match_prefix_n p plen s = (if mg_match_prefix_n p k s > 0 then mg_match_prefix_n p k s
        else mg_match_prefix_n (drop (k + 1) p) (plen - (k + 1)) s)"
      using Some cut by (subst mg_match_prefix_n.simps) (simp add: Let_def)
    moreover have "split_on 124 (take k p) = [take k p]"
      using memchr_Some [OF Some] by (intro split_on_no_sep) (auto simp: min_def split: if_splits)
    ultimately show ?thesis
      using less(1) [of k p] less(1) [of "plen - (k + 1)" "drop (k + 1) p"]
        pattern_ok_drop [OF less(2), of "k + 1"] cut by auto
  qed
qed

text \<open>Patterns in which every star is doubled.\<close>

fun doubled :: "byte list \<Rightarrow> bool" where
  "doubled [] \<longleftrightarrow> True"
| "doubled [c] \<longleftrightarrow> c \<noteq> 42"
| "doubled (c # d # p) \<longleftrightarrow> (if c = 42 then d = 42 \<and> doubled p else doubled (d # p))"

lemma doubled_Cons: "doubled (c # p) \<Longrightarrow> c \<noteq> 42 \<Longrightarrow> doubled p"
  by (cases p) auto

lemma mp_star_complete:
  assumes "glob pat (drop (j + m) s) k" "m \<le> len" "j + len \<le> length s"
    and "\<And>s k. glob pat s k \<Longrightarrow> mg_match_prefix_n p plen s \<noteq> -1"
    and "\<And>s. match_at pat s 0 (mg_match_prefix_n p plen s)"
  shows "mp_star p plen s j len \<noteq> -1"
  using assms(2,3)
proof (induction len)
  case 0
  then show ?case
    using assms(1,4) assms(5) [of "drop j s"]
    by (subst mp_star.simps) (auto simp: Let_def match_at_def)
next
  case (Suc len)
  then show ?case
    using assms(1,4) assms(5) [of "drop (j + Suc len) s"]
    by (subst mp_star.simps) (auto simp: Let_def match_at_def le_Suc_eq)
qed

lemma mp_loop_complete:
  assumes ok: "pattern_ok p plen"
    and rec: "\<And>i2 s k. 0 < i2 \<Longrightarrow> i2 \<le> plen \<Longrightarrow> doubled (drop i2 (take plen p)) \<Longrightarrow>
      glob (drop i2 (take plen p)) s k \<Longrightarrow> mg_match_prefix_n (drop i2 p) (plen - i2) s \<noteq> -1"
    and sound: "\<And>i2 s. 0 < i2 \<Longrightarrow> i2 \<le> plen \<Longrightarrow>
      match_at (drop i2 (take plen p)) s 0 (mg_match_prefix_n (drop i2 p) (plen - i2) s)"
  shows "i \<le> plen \<Longrightarrow> j \<le> length s \<Longrightarrow> doubled (drop i (take plen p)) \<Longrightarrow>
    glob (drop i (take plen p)) (drop j s) k \<Longrightarrow> mp_loop p plen s i j \<noteq> -1"
proof (induction "plen - i" arbitrary: i j k rule: less_induct)
  case less
  show ?case
  proof (cases "i < plen")
    case False
    then show ?thesis by (subst mp_loop.simps) simp
  next
    case True
    define c where "c = rd p i"
    define rest where "rest = drop (i + 1) (take plen p)"
    have D: "drop i (take plen p) = c # rest"
      using True ok drop_rd [of i plen p] by (simp add: c_def rest_def pattern_ok_def)
    have G: "glob (c # rest) (drop j s) k" and dbl: "doubled (c # rest)"
      using less D by simp_all
    have step: "mp_loop p plen s (i + 1) (j + 1) \<noteq> -1"
      if "c \<noteq> 42" "glob rest (drop (j + 1) s) k'" "j < length s" for k'
      using that less(1) [of "i + 1" "j + 1" k'] True doubled_Cons [OF dbl] by (auto simp: rest_def)
    show ?thesis
      using G
    proof (cases rule: glob_Cons_cases)
      case (byte d s' k')
      then have "j < length s"
        by (cases "j < length s") auto
      then have s: "drop (j + 1) s = s'" "rd s j = d" "j < length s"
        using byte(3) by (auto simp: rd_def drop_Suc tl_drop [symmetric] nth_via_drop)
      then have "mp_loop p plen s i j = mp_loop p plen s (i + 1) (j + 1)"
        using byte True by (subst mp_loop.simps) (auto simp: c_def)
      then show ?thesis
        using step byte s by simp
    next
      case dollar
      then show ?thesis
        using less(3) by (subst mp_loop.simps) (simp add: c_def)
    next
      case star
      then have two: "rd p (i + 1) = 42" "i + 2 \<le> plen" "rest = 42 # drop (i + 2) (take plen p)"
        using dbl True ok drop_rd [of "i + 1" plen p]
        by (cases "i + 1 < plen"; auto simp: rest_def pattern_ok_def)+
      then obtain m k' where "m \<le> length (drop j s)" "glob (drop (i + 2) (take plen p)) (drop m (drop j s)) k'"
        using glob_star_star G star by metis
      moreover have "doubled (drop (i + 2) (take plen p))"
        using dbl star two(3) by simp
      ultimately have "mp_star (drop (i + 2) p) (plen - (i + 2)) s j (length s - j) \<noteq> -1"
        using rec [of "i + 2"] sound [of "i + 2"] two(2) less(3)
        by (intro mp_star_complete [where m = m and k = k' and pat = "drop (i + 2) (take plen p)"])
          (auto simp: add.commute)
      moreover have "mp_loop p plen s i j = (if i + 2 = plen then int (j + (length s - j))
          else mp_star (drop (i + 2) p) (plen - (i + 2)) s j (length s - j))"
        using True star two(1) by (subst mp_loop.simps) (simp add: c_def)
      ultimately show ?thesis
        by simp
    qed
  qed
qed

lemma mg_match_prefix_n_complete:
  "pattern_ok p plen \<Longrightarrow> 124 \<notin> set (take plen p) \<Longrightarrow> doubled (take plen p) \<Longrightarrow>
     glob (take plen p) s k \<Longrightarrow> mg_match_prefix_n p plen s \<noteq> -1"
proof (induction plen arbitrary: p s k rule: less_induct)
  case (less plen)
  have no_bar: "124 \<notin> set (drop i2 (take plen p))" for i2
    using less(3) by (auto dest: in_set_dropD)
  have "mg_match_prefix_n p plen s = mp_loop p plen s 0 0"
    using iffD2 [OF memchr_None less(3)] by (simp add: mg_match_prefix_n.simps)
  moreover have "mp_loop p plen s 0 0 \<noteq> -1"
  proof (rule mp_loop_complete [OF less(2)])
    fix i2 s k
    assume "0 < i2" "i2 \<le> plen"
    then have ok: "pattern_ok (drop i2 p) (plen - i2)"
      by (intro pattern_ok_drop [OF less(2)]) simp
    show "match_at (drop i2 (take plen p)) s 0 (mg_match_prefix_n (drop i2 p) (plen - i2) s)"
      using mg_match_prefix_n_sound [OF ok, of s] no_bar [of i2]
      by (simp add: drop_take split_on_no_sep)
    show "mg_match_prefix_n (drop i2 p) (plen - i2) s \<noteq> -1"
      if "doubled (drop i2 (take plen p))" "glob (drop i2 (take plen p)) s k"
      using less(1) [OF _ ok] \<open>0 < i2\<close> \<open>i2 \<le> plen\<close> that no_bar [of i2] by (simp add: drop_take)
  qed (use less in auto)
  ultimately show ?case by simp
qed

text \<open>
  \<open>mg_match_prefix\<close> is sound: for a pattern without NUL it returns -1, or the length
  (within the string) of a prefix that one of the alternatives of the pattern matches. For a
  pattern without \<open>|\<close> whose stars are all doubled it is complete too: it returns -1 only
  when no prefix of the string matches.
\<close>

lemma mg_match_prefix_correct:
  assumes "0 \<notin> set pattern"
  shows "(mg_match_prefix pattern str = -1 \<or>
      (\<exists>pat \<in> set (split_on 124 pattern). \<exists>k \<le> length str.
         mg_match_prefix pattern str = int k \<and> glob pat str k))
    \<and> (124 \<notin> set pattern \<and> doubled pattern \<longrightarrow>
      (mg_match_prefix pattern str = -1 \<longleftrightarrow> (\<nexists>k. glob pattern str k)))"
proof -
  have ok: "pattern_ok pattern (length pattern)"
    using assms by (simp add: pattern_ok_def rd_def)
  note sound = mg_match_prefix_n_sound [OF ok, of str]
  have "124 \<notin> set pattern \<and> doubled pattern \<longrightarrow>
      (mg_match_prefix pattern str = -1 \<longleftrightarrow> (\<nexists>k. glob pattern str k))"
    using sound mg_match_prefix_n_complete [OF ok, of str]
    by (auto simp: mg_match_prefix_def match_at_def split_on_no_sep)
  then show ?thesis
    using sound by (auto simp: mg_match_prefix_def match_at_def dest: glob_length)
qed

lemma mg_match_prefix_correct_witness:
  "mg_match_prefix (bs ''**.b$'') (bs ''a.c'') = -1 \<longleftrightarrow> (\<nexists>k. glob (bs ''**.b$'') (bs ''a.c'') k)"
  using mg_match_prefix_correct [of "bs ''**.b$''" "bs ''a.c''"]
  by (simp add: bs_def of_char_def)

text \<open>
  The star indexes the string from its start: after \<open>/foo/\<close> the star of \<open>/foo/*\<close> stops
  at once, at the slash that begins the string, instead of taking \<open>bar\<close>.
\<close>

lemma mg_match_prefix_star_flaw:
  "mg_match_prefix (bs ''/foo/*'') (bs ''/foo/bar'') = 5
     \<and> mg_match_prefix (bs ''/foo/**'') (bs ''/foo/bar'') = 8"
  by (simp add: mg_match_prefix_def mg_match_prefix_n.simps mp_loop.simps mp_star_len.simps
      bs_def of_char_def rd_def Let_def)

end
