(* ===== verification/Uri.thy ===== *)
theory Uri
  imports MgStr
begin

text \<open>
  URIs (\<open>mongoose/src/uri.c\<close>): the state machine of \<open>mg_parse_uri\<close> and the path
  normalisation \<open>mg_normalize_uri_path\<close>, which the HTTP server runs in place on the path of
  a request before it maps it to a file name.
\<close>

section \<open>Components\<close>

text \<open>
  \<open>parse_uri_component\<close>: the bytes before the separator, and the position behind it.
\<close>

definition parse_uri_component :: "byte \<Rightarrow> byte list \<Rightarrow> byte list \<times> byte list" where
  "parse_uri_component sep p =
     (let res = takeWhile (\<lambda>c. c \<noteq> sep) p; p1 = dropWhile (\<lambda>c. c \<noteq> sep) p
      in (res, drop 1 p1))"

section \<open>The parser\<close>

datatype uri_state = P_START | P_SCHEME_OR_PORT | P_USER_INFO | P_HOST | P_PORT | P_REST

record uri_parts =
  rscheme :: "byte list"
  ruser_info :: "byte list"
  rhost :: "byte list"
  rport :: u32
  rpath :: "byte list"
  rquery :: "byte list"
  rfragment :: "byte list"

definition no_parts :: uri_parts where
  "no_parts = \<lparr>rscheme = [], ruser_info = [], rhost = [], rport = 0, rpath = [], rquery = [],
     rfragment = []\<rparr>"

text \<open>The bytes up to the first \<open>:\<close> or \<open>/\<close>, and the state that this byte selects.\<close>

definition host_byte :: "byte \<Rightarrow> bool" where
  "host_byte c \<longleftrightarrow> c \<noteq> 58 \<and> c \<noteq> 47"

definition host_next :: "uri_state \<Rightarrow> uri_state \<Rightarrow> byte list \<Rightarrow> uri_state" where
  "host_next st colon p = (case p of [] \<Rightarrow> st | c # _ \<Rightarrow> if c = 58 then colon else P_REST)"

text \<open>\<open>rport *= 10; rport += *p - '0'\<close>, in \<open>unsigned int\<close>, from a signed \<open>char\<close>.\<close>

definition port_digit :: "u32 \<Rightarrow> byte \<Rightarrow> u32" where
  "port_digit port c = port * 10 + (scast c - 48)"

text \<open>
  One round of the \<open>while\<close> loop. \<open>pre\<close> holds the bytes of the URI before the position
  \<open>p\<close>: while the machine is in its first two states they become the host or the scheme.
\<close>

fun parse_uri_step ::
  "uri_state \<Rightarrow> byte list \<Rightarrow> byte list \<Rightarrow> uri_parts \<Rightarrow> uri_state \<times> byte list \<times> byte list \<times> uri_parts" where
  "parse_uri_step P_START pre p r =
     (let pre1 = pre @ takeWhile host_byte p; p1 = dropWhile host_byte p;
          st = host_next P_START P_SCHEME_OR_PORT p1
      in (st, pre1, p1, if st = P_SCHEME_OR_PORT then r else r\<lparr>rhost := pre1\<rparr>))"
| "parse_uri_step P_SCHEME_OR_PORT pre p r =
     (if length p \<ge> 3 \<and> memcmp p (bs ''://'') 3 = 0
      then (P_USER_INFO, pre @ take 2 p, drop 2 p, r\<lparr>rscheme := pre\<rparr>)
      else (P_PORT, pre, p, r\<lparr>rhost := pre\<rparr>))"
| "parse_uri_step P_USER_INFO pre p r =
     (let p1 = drop 1 p;
          user = takeWhile (\<lambda>c. c \<noteq> 64 \<and> c \<noteq> 47) p1;
          p2 = dropWhile (\<lambda>c. c \<noteq> 64 \<and> c \<noteq> 47) p1
      in if p2 = [] \<or> hd p2 = 47
         then (P_HOST, pre @ take 1 p, p1, r\<lparr>ruser_info := []\<rparr>)
         else (P_HOST, pre @ take 1 p @ user, p2, r\<lparr>ruser_info := user\<rparr>))"
| "parse_uri_step P_HOST pre p r =
     (let p1 = (if p \<noteq> [] \<and> hd p = 64 then drop 1 p else p);
          host = takeWhile host_byte p1; p2 = dropWhile host_byte p1
      in (host_next P_HOST P_PORT p2, pre, p2, r\<lparr>rhost := host\<rparr>))"
| "parse_uri_step P_PORT pre p r =
     (let p1 = drop 1 p;
          digits = takeWhile (\<lambda>c. c \<noteq> 47) p1; p2 = dropWhile (\<lambda>c. c \<noteq> 47) p1
      in (if p2 = [] then P_PORT else P_REST, pre, p2,
          r\<lparr>rport := foldl port_digit (rport r) digits\<rparr>))"
| "parse_uri_step P_REST pre p r =
     (let (path, p1) = parse_uri_component 63 p;
          (query, p2) = parse_uri_component 35 p1;
          (fragment, p3) = parse_uri_component 0 p2
      in (P_REST, pre, p3, r\<lparr>rpath := path, rquery := query, rfragment := fragment\<rparr>))"

fun uri_rank :: "uri_state \<Rightarrow> nat" where
  "uri_rank P_START = 5" | "uri_rank P_SCHEME_OR_PORT = 4" | "uri_rank P_USER_INFO = 3"
| "uri_rank P_HOST = 2" | "uri_rank P_PORT = 1" | "uri_rank P_REST = 0"

lemma length_component: "p \<noteq> [] \<Longrightarrow> length (snd (parse_uri_component sep p)) < length p"
  by (cases p) (auto simp: parse_uri_component_def Let_def length_dropWhile_le less_Suc_eq_le
      intro: le_trans [OF diff_le_self])

lemma length_component_le: "length (snd (parse_uri_component sep p)) \<le> length p"
  using length_component [of p sep] by (cases "p = []") (auto simp: parse_uri_component_def)

lemma uri_rank_step:
  assumes "parse_uri_step st pre p r = (st1, pre1, p1, r1)" and "p \<noteq> []"
  shows "uri_rank st1 < uri_rank st \<or> st1 = st \<and> length p1 < length p"
proof (cases st)
  case P_REST
  then show ?thesis
    using assms length_component [of p 63] length_component_le [of 35 "snd (parse_uri_component 63 p)"]
      length_component_le [of 0 "snd (parse_uri_component 35 (snd (parse_uri_component 63 p)))"]
    by (auto simp: split_beta Let_def)
next
  case P_PORT
  then show ?thesis
    using assms length_dropWhile_le [of "\<lambda>c. c \<noteq> 47" "drop 1 p"]
    by (cases p) (auto simp: Let_def split: if_splits)
qed (use assms in \<open>auto simp: Let_def host_next_def split: if_splits list.splits\<close>)

function mg_parse_uri_loop :: "uri_state \<Rightarrow> byte list \<Rightarrow> byte list \<Rightarrow> uri_parts \<Rightarrow> uri_parts" where
  "mg_parse_uri_loop st pre p r =
     (if p = [] then r
      else let (st1, pre1, p1, r1) = parse_uri_step st pre p r
           in mg_parse_uri_loop st1 pre1 p1 r1)"
  by pat_completeness auto
termination
proof (relation "measures [\<lambda>(st, pre, p, r). uri_rank st, \<lambda>(st, pre, p, r). length p]", goal_cases)
  case (2 st pre p r x st1 y pre1 z p1 r1)
  then have "parse_uri_step st pre p r = (st1, pre1, p1, r1)"
    by simp
  from uri_rank_step [OF this 2(1)] show ?case
    by auto
qed simp

declare mg_parse_uri_loop.simps [simp del]

definition mg_parse_uri :: "byte list \<Rightarrow> uri_parts" where
  "mg_parse_uri uri = mg_parse_uri_loop P_START [] uri no_parts"

section \<open>Parsing what was printed\<close>

text \<open>
  A URI as it is written: \<open>scheme://user@host:port/path?query#fragment\<close>, where the user
  information, the port and what follows the host may be missing, and a fragment follows a
  query.
\<close>

definition uri_tail :: "(byte list \<times> (byte list \<times> byte list option) option) option \<Rightarrow> byte list" where
  "uri_tail t = (case t of None \<Rightarrow> []
     | Some (path, None) \<Rightarrow> path
     | Some (path, Some (query, None)) \<Rightarrow> path @ 63 # query
     | Some (path, Some (query, Some fragment)) \<Rightarrow> path @ 63 # query @ 35 # fragment)"

definition uri_print :: "byte list \<Rightarrow> byte list option \<Rightarrow> byte list \<Rightarrow> byte list option \<Rightarrow>
    (byte list \<times> (byte list \<times> byte list option) option) option \<Rightarrow> byte list" where
  "uri_print scheme user host port t =
     scheme @ bs ''://'' @ (case user of None \<Rightarrow> [] | Some u \<Rightarrow> u @ [64]) @ host
       @ (case port of None \<Rightarrow> [] | Some ds \<Rightarrow> 58 # ds) @ uri_tail t"

definition tail_ok :: "(byte list \<times> (byte list \<times> byte list option) option) option \<Rightarrow> bool" where
  "tail_ok t = (case t of None \<Rightarrow> True
     | Some (path, q) \<Rightarrow> path \<noteq> [] \<and> hd path = 47 \<and> 63 \<notin> set path \<and>
         (case q of None \<Rightarrow> True
          | Some (query, f) \<Rightarrow> 35 \<notin> set query \<and> (case f of None \<Rightarrow> True | Some fr \<Rightarrow> 0 \<notin> set fr)))"

definition uri_ok :: "byte list \<Rightarrow> byte list option \<Rightarrow> byte list \<Rightarrow> byte list option \<Rightarrow>
    (byte list \<times> (byte list \<times> byte list option) option) option \<Rightarrow> bool" where
  "uri_ok scheme user host port t \<longleftrightarrow>
     list_all host_byte scheme
     \<and> (case user of None \<Rightarrow> True | Some u \<Rightarrow> 64 \<notin> set u \<and> 47 \<notin> set u)
     \<and> host \<noteq> [] \<and> list_all host_byte host \<and> 64 \<notin> set host
     \<and> (case port of None \<Rightarrow> True | Some ds \<Rightarrow> list_all (\<lambda>c. 48 \<le> c \<and> c \<le> 57) ds)
     \<and> tail_ok t"

text \<open>The value of a string of decimal digits.\<close>

definition dec_value :: "byte list \<Rightarrow> nat" where
  "dec_value ds = foldl (\<lambda>v d. v * 10 + (unat d - 48)) 0 ds"

lemma port_digit_value:
  assumes "48 \<le> d" and "d \<le> 57"
  shows "port_digit (of_nat v) d = of_nat (v * 10 + (unat d - 48))"
proof -
  have d: "unat d \<le> 57" "48 \<le> unat d"
    using assms by (simp_all add: word_le_nat_alt)
  have "sint d = signed_take_bit 7 (uint d)"
    by (simp add: sint_uint)
  also have "int (unat d) = uint d"
    by simp
  then have "uint d < 128" "- 128 \<le> uint d"
    using d by linarith+
  then have "signed_take_bit 7 (uint d) = uint d"
    using signed_take_bit_int_eq_self [of 7 "uint d"] by simp
  finally have "(scast d :: u32) = of_nat (unat d)"
    by (simp only: scast_eq uint_nat of_int_of_nat_eq)
  moreover have "of_nat (unat d - 48) = (of_nat (unat d) - 48 :: u32)"
    unfolding of_nat_diff [OF d(2)] by simp
  ultimately show ?thesis
    unfolding port_digit_def of_nat_add of_nat_mult by simp
qed

lemma port_digits:
  "list_all (\<lambda>c. 48 \<le> c \<and> c \<le> 57) ds \<Longrightarrow>
     foldl port_digit (of_nat v) ds = of_nat (foldl (\<lambda>v d. v * 10 + (unat d - 48)) v ds)"
  by (induction ds arbitrary: v) (simp_all add: port_digit_value del: of_nat_add of_nat_mult)

lemma foldl_port: "list_all (\<lambda>c. 48 \<le> c \<and> c \<le> 57) ds \<Longrightarrow> foldl port_digit 0 ds = of_nat (dec_value ds)"
  using port_digits [of ds 0] by (simp add: dec_value_def)

text \<open>The parser on the tail, then on what follows the host, then on the host.\<close>

lemma component_last: "sep \<notin> set p \<Longrightarrow> parse_uri_component sep p = (p, [])"
proof -
  assume "sep \<notin> set p"
  then have "dropWhile (\<lambda>c. c \<noteq> sep) p = []" "takeWhile (\<lambda>c. c \<noteq> sep) p = p"
    by auto
  then show ?thesis by (simp add: parse_uri_component_def del: dropWhile_eq_Nil_conv)
qed

lemma component_sep: "sep \<notin> set p \<Longrightarrow> parse_uri_component sep (p @ sep # rest) = (p, rest)"
  by (auto simp: parse_uri_component_def takeWhile_append dropWhile_append)

definition tail_parts ::
  "(byte list \<times> (byte list \<times> byte list option) option) option \<Rightarrow> uri_parts \<Rightarrow> uri_parts" where
  "tail_parts t r = (case t of None \<Rightarrow> r
     | Some (path, None) \<Rightarrow> r\<lparr>rpath := path, rquery := [], rfragment := []\<rparr>
     | Some (path, Some (query, None)) \<Rightarrow> r\<lparr>rpath := path, rquery := query, rfragment := []\<rparr>
     | Some (path, Some (query, Some fragment)) \<Rightarrow>
         r\<lparr>rpath := path, rquery := query, rfragment := fragment\<rparr>)"

lemma uri_loop_Nil [simp]: "mg_parse_uri_loop st pre [] r = r"
  by (simp add: mg_parse_uri_loop.simps)

lemma uri_loop_step:
  "p \<noteq> [] \<Longrightarrow> parse_uri_step st pre p r = (st1, pre1, p1, r1) \<Longrightarrow>
     mg_parse_uri_loop st pre p r = mg_parse_uri_loop st1 pre1 p1 r1"
  by (subst mg_parse_uri_loop.simps) simp

lemma component_Nil [simp]: "parse_uri_component sep [] = ([], [])"
  by (simp add: parse_uri_component_def)

lemma uri_loop_tail:
  assumes "tail_ok t" and "uri_tail t \<noteq> []"
  shows "mg_parse_uri_loop P_REST pre (uri_tail t) r = tail_parts t r"
proof -
  have "parse_uri_step P_REST pre (uri_tail t) r = (P_REST, pre, [], tail_parts t r)"
    using assms
    by (auto simp: uri_tail_def tail_parts_def tail_ok_def component_last component_sep
        split: option.splits)
  then show ?thesis
    using assms(2) by (simp add: uri_loop_step)
qed

lemma uri_tail_cases:
  "tail_ok t \<Longrightarrow> uri_tail t = [] \<and> t = None \<or> uri_tail t \<noteq> [] \<and> hd (uri_tail t) = 47"
  by (auto simp: tail_ok_def uri_tail_def split: option.splits)

lemma digits_plain: "list_all (\<lambda>c. 48 \<le> c \<and> c \<le> 57) ds \<Longrightarrow> 64 \<notin> set ds \<and> (47 :: byte) \<notin> set ds"
  by (induction ds) auto

lemma uri_loop_port:
  assumes "tail_ok t" and "list_all (\<lambda>c. 48 \<le> c \<and> c \<le> 57) ds" and "rport r = 0"
  shows "mg_parse_uri_loop P_PORT pre (58 # ds @ uri_tail t) r
    = tail_parts t (r\<lparr>rport := of_nat (dec_value ds)\<rparr>)"
proof -
  have ds: "\<forall>c \<in> set ds. c \<noteq> 47"
    using digits_plain [OF assms(2)] by auto
  have T: "takeWhile (\<lambda>c. c \<noteq> 47) (uri_tail t) = []" "dropWhile (\<lambda>c. c \<noteq> 47) (uri_tail t) = uri_tail t"
    using uri_tail_cases [OF assms(1)] by (cases "uri_tail t"; auto)+
  have "parse_uri_step P_PORT pre (58 # ds @ uri_tail t) r =
      (if uri_tail t = [] then P_PORT else P_REST, pre, uri_tail t, r\<lparr>rport := of_nat (dec_value ds)\<rparr>)"
    using ds T foldl_port [OF assms(2)] assms(3) dropWhile_eq_Nil_conv [of "\<lambda>c. c \<noteq> 47" "uri_tail t"]
    by (simp add: takeWhile_append dropWhile_append ball_Un)
  then show ?thesis
    using uri_tail_cases [OF assms(1)] uri_loop_tail [OF assms(1)]
    by (subst uri_loop_step) (auto simp: tail_parts_def)
qed

lemma uri_loop_host:
  assumes "list_all host_byte host" and "host \<noteq> []" and "64 \<notin> set host"
    and rest: "rest = [] \<or> \<not> host_byte (hd rest)"
    and p: "p = host @ rest \<or> p = 64 # host @ rest"
  shows "mg_parse_uri_loop P_HOST pre p r =
    mg_parse_uri_loop (host_next P_HOST P_PORT rest) pre rest (r\<lparr>rhost := host\<rparr>)"
proof -
  have R: "takeWhile host_byte rest = []" "dropWhile host_byte rest = rest"
    using rest by (cases rest; auto)+
  have H: "\<forall>c \<in> set host. host_byte c"
    using assms(1) by (simp add: list_all_iff)
  have "hd (host @ rest) \<noteq> 64"
    using assms(2,3) by (cases host) auto
  then have "parse_uri_step P_HOST pre p r =
      (host_next P_HOST P_PORT rest, pre, rest, r\<lparr>rhost := host\<rparr>)"
    using p R H by (auto simp: takeWhile_append dropWhile_append Let_def)
  then show ?thesis
    using p assms(2) by (intro uri_loop_step) auto
qed

lemma uri_loop_user:
  assumes "case user of None \<Rightarrow> 64 \<notin> set h | Some u \<Rightarrow> 64 \<notin> set u \<and> 47 \<notin> set u"
    and "rest = [] \<or> hd rest = 47" and "47 \<notin> set h"
  shows "\<exists>pre1 p. (p = h @ rest \<or> p = 64 # h @ rest) \<and>
    mg_parse_uri_loop P_USER_INFO pre (47 # (case user of None \<Rightarrow> [] | Some u \<Rightarrow> u @ [64]) @ h @ rest) r
      = mg_parse_uri_loop P_HOST pre1 p
          (r\<lparr>ruser_info := (case user of None \<Rightarrow> [] | Some u \<Rightarrow> u)\<rparr>)"
proof (cases user)
  case None
  have "\<forall>c \<in> set h. c \<noteq> 64 \<and> c \<noteq> 47"
    using assms None by auto
  then have "parse_uri_step P_USER_INFO pre (47 # h @ rest) r =
      (P_HOST, pre @ [47], h @ rest, r\<lparr>ruser_info := []\<rparr>)"
    using assms(2) by (cases rest) (auto simp: Let_def takeWhile_append dropWhile_append)
  then show ?thesis
    using None by (auto simp: uri_loop_step)
next
  case (Some u)
  then have "\<forall>c \<in> set u. c \<noteq> 64 \<and> c \<noteq> 47"
    using assms by auto
  then have "parse_uri_step P_USER_INFO pre (47 # u @ 64 # h @ rest) r =
      (P_HOST, pre @ [47] @ u, 64 # h @ rest, r\<lparr>ruser_info := u\<rparr>)"
    by (simp add: Let_def takeWhile_append dropWhile_append)
  then show ?thesis
    using Some by (auto simp: uri_loop_step)
qed

lemma uri_loop_scheme:
  assumes "list_all host_byte scheme"
  shows "mg_parse_uri (scheme @ bs ''://'' @ rest)
    = mg_parse_uri_loop P_USER_INFO (scheme @ [58, 47]) (47 # rest) (no_parts\<lparr>rscheme := scheme\<rparr>)"
proof -
  have b: "bs ''://'' = [58, 47, 47]"
    by (simp add: bs_def of_char_def)
  have "parse_uri_step P_START [] (scheme @ bs ''://'' @ rest) no_parts
      = (P_SCHEME_OR_PORT, scheme, 58 # 47 # 47 # rest, no_parts)"
    using assms
    by (simp add: b Let_def takeWhile_append dropWhile_append list_all_iff host_byte_def host_next_def)
  moreover have "parse_uri_step P_SCHEME_OR_PORT scheme (58 # 47 # 47 # rest) no_parts
      = (P_USER_INFO, scheme @ [58, 47], 47 # rest, no_parts\<lparr>rscheme := scheme\<rparr>)"
    by (simp add: b numeral_3_eq_3)
  ultimately show ?thesis
    by (simp add: mg_parse_uri_def uri_loop_step b)
qed

text \<open>
  Parsing the printed form of a URI gives back its parts: the scheme, the user
  information when there is one, the host, the port number (modulo \<open>2 ^ 32\<close>), the path, the
  query and the fragment. Absent parts are empty, an absent port is 0.
\<close>

lemma mg_parse_uri_print:
  assumes "uri_ok scheme user host port t"
  shows "mg_parse_uri (uri_print scheme user host port t) =
    tail_parts t \<lparr>rscheme = scheme, ruser_info = (case user of None \<Rightarrow> [] | Some u \<Rightarrow> u),
      rhost = host, rport = (case port of None \<Rightarrow> 0 | Some ds \<Rightarrow> of_nat (dec_value ds)),
      rpath = [], rquery = [], rfragment = []\<rparr>"
proof -
  define h where "h = host @ (case port of None \<Rightarrow> [] | Some ds \<Rightarrow> 58 # ds)"
  have ok: "tail_ok t" "list_all host_byte host" "host \<noteq> []" "64 \<notin> set host"
    "list_all host_byte scheme" "case user of None \<Rightarrow> True | Some u \<Rightarrow> 64 \<notin> set u \<and> 47 \<notin> set u"
    "\<And>ds. port = Some ds \<Longrightarrow> list_all (\<lambda>c. 48 \<le> c \<and> c \<le> 57) ds"
    using assms by (auto simp: uri_ok_def)
  have "64 \<notin> set h \<and> 47 \<notin> set h"
    using ok(2,4) digits_plain [OF ok(7)]
    by (auto simp: h_def list_all_iff host_byte_def split: option.splits)
  then obtain pre1 p where p: "p = h @ uri_tail t \<or> p = 64 # h @ uri_tail t"
    and "mg_parse_uri (uri_print scheme user host port t) = mg_parse_uri_loop P_HOST pre1 p
      (no_parts\<lparr>rscheme := scheme, ruser_info := (case user of None \<Rightarrow> [] | Some u \<Rightarrow> u)\<rparr>)"
    using uri_loop_user [where user = user and h = h and rest = "uri_tail t"
        and pre = "scheme @ [58, 47]" and r = "no_parts\<lparr>rscheme := scheme\<rparr>"]
      uri_loop_scheme [OF ok(5)] uri_tail_cases [OF ok(1)] ok(6)
    by (auto simp: uri_print_def h_def split: option.splits)
  moreover have "mg_parse_uri_loop P_HOST pre1 p r = tail_parts t
      (r\<lparr>rhost := host, rport := (case port of None \<Rightarrow> 0 | Some ds \<Rightarrow> of_nat (dec_value ds))\<rparr>)"
    if "rport r = 0" for r
  proof (cases port)
    case None
    then have "mg_parse_uri_loop P_HOST pre1 p r =
        mg_parse_uri_loop (host_next P_HOST P_PORT (uri_tail t)) pre1 (uri_tail t) (r\<lparr>rhost := host\<rparr>)"
      using p uri_tail_cases [OF ok(1)] by (intro uri_loop_host ok) (auto simp: h_def host_byte_def)
    also have "\<dots> = tail_parts t (r\<lparr>rhost := host\<rparr>)"
      using uri_tail_cases [OF ok(1)] uri_loop_tail [OF ok(1)]
      by (cases "uri_tail t") (auto simp: tail_parts_def host_next_def)
    finally show ?thesis
      using None that by (cases r) simp
  next
    case (Some ds)
    have "mg_parse_uri_loop P_HOST pre1 p r =
        mg_parse_uri_loop (host_next P_HOST P_PORT (58 # ds @ uri_tail t)) pre1 (58 # ds @ uri_tail t)
          (r\<lparr>rhost := host\<rparr>)"
      using p Some by (intro uri_loop_host ok) (auto simp: h_def host_byte_def)
    then show ?thesis
      using uri_loop_port [OF ok(1) ok(7) [OF Some]] Some that by (simp add: host_next_def)
  qed
  ultimately show ?thesis
    by (simp add: no_parts_def)
qed

lemma mg_parse_uri_print_witness:
  "mg_parse_uri (bs ''ws://a:b@h:81/x?y=1#z'') =
     \<lparr>rscheme = bs ''ws'', ruser_info = bs ''a:b'', rhost = bs ''h'', rport = 81,
       rpath = bs ''/x'', rquery = bs ''y=1'', rfragment = bs ''z''\<rparr>"
  using mg_parse_uri_print [of "bs ''ws''" "Some (bs ''a:b'')" "bs ''h''" "Some (bs ''81'')"
      "Some (bs ''/x'', Some (bs ''y=1'', Some (bs ''z'')))"]
  by (simp add: uri_print_def uri_ok_def uri_tail_def tail_ok_def tail_parts_def dec_value_def
      host_byte_def bs_def of_char_def)

text \<open>A fragment that follows no query stays in the path.\<close>

lemma fragment_without_query:
  "rpath (mg_parse_uri (bs ''h/x#z'')) = bs ''/x#z'' \<and> rfragment (mg_parse_uri (bs ''h/x#z'')) = []"
  by (simp add: mg_parse_uri_def mg_parse_uri_loop.simps no_parts_def host_byte_def host_next_def
      parse_uri_component_def bs_def of_char_def Let_def)

section \<open>Path normalisation\<close>

text \<open>
  \<open>mg_normalize_uri_path\<close> as the server calls it, with the same \<open>mg_str\<close> for input and
  output: the path is rewritten in its own buffer, \<open>s\<close> is the read position and \<open>d\<close> the
  write position. First the two backward moves of a double dot.
\<close>

fun back_scan :: "byte list \<Rightarrow> nat \<Rightarrow> nat" where
  "back_scan buf 0 = 0"
| "back_scan buf (Suc d) = (if buf ! d \<noteq> 47 then back_scan buf d else Suc d)"

definition back_slash :: "byte list \<Rightarrow> nat \<Rightarrow> nat" where
  "back_slash buf d = back_scan buf (if d > 1 \<and> buf ! (d - 1) = 47 then d - 1 else d)"

text \<open>
  The component at \<open>s\<close> and the position \<open>next\<close> behind it and, inside the path, its slash.
\<close>

definition norm_component :: "byte list \<Rightarrow> nat \<Rightarrow> nat \<Rightarrow> byte list \<times> nat" where
  "norm_component buf se s =
     (let component = fst (parse_uri_component 47 (take (se - s) (drop s buf)));
          p = s + length component
      in (component, if p < se then p + 1 else se))"

function norm_loop :: "byte list \<Rightarrow> nat \<Rightarrow> nat \<Rightarrow> nat \<Rightarrow> byte list \<times> nat" where
  "norm_loop buf se s d =
     (if s < se then
        let (component, nx) = norm_component buf se s
        in if mg_vcmp component (bs ''.'') = 0 then norm_loop buf se nx d
           else if mg_vcmp component (bs ''..'') = 0 then norm_loop buf se nx (back_slash buf d)
           else norm_loop (blit d (take (nx - s) (drop s buf)) buf) se nx (d + (nx - s))
      else (buf, d))"
  by pat_completeness auto
termination
  by (relation "measure (\<lambda>(buf, se, s, d). se - s)")
    (auto simp: norm_component_def Let_def split: if_splits)

declare norm_loop.simps [simp del]

text \<open>The result code and the bytes of the output.\<close>

definition mg_normalize_uri_path :: "byte list \<Rightarrow> int \<times> byte list" where
  "mg_normalize_uri_path path =
     (if path = [] \<or> hd path \<noteq> 47 then (0, [])
      else let (buf, d) = norm_loop path (length path) 0 0;
               (buf, d) = (if d = 0 then (buf[0 := 47], 1) else (buf, d))
           in (1, take d buf))"

text \<open>
  What the normal form is: the components form a stack on which a dot does nothing and a
  double dot pops; the last component is not followed by a slash.
\<close>

definition dir_path :: "byte list list \<Rightarrow> byte list" where
  "dir_path st = 47 # concat (map (\<lambda>c. c @ [47]) st)"

definition norm_push :: "byte list list \<Rightarrow> byte list \<Rightarrow> byte list list" where
  "norm_push st c = (if c = bs ''.'' then st else if c = bs ''..'' then butlast st else st @ [c])"

fun norm_ref :: "byte list list \<Rightarrow> byte list list \<Rightarrow> byte list" where
  "norm_ref st [] = dir_path st"
| "norm_ref st [c] =
     (if c = bs ''.'' then dir_path st else if c = bs ''..'' then dir_path (butlast st)
      else dir_path st @ c)"
| "norm_ref st (c # c' # cs) = norm_ref (norm_push st c) (c' # cs)"

lemma norm_push_plain:
  "\<forall>c \<in> set st. 47 \<notin> set c \<Longrightarrow> 47 \<notin> set c \<Longrightarrow> \<forall>x \<in> set (norm_push st c). 47 \<notin> set x"
  by (auto simp: norm_push_def dest: in_set_butlastD)

lemma back_scan_to:
  "take d buf = pre @ c \<Longrightarrow> d \<le> length buf \<Longrightarrow> 47 \<notin> set c \<Longrightarrow> pre \<noteq> [] \<Longrightarrow> last pre = 47 \<Longrightarrow>
     back_scan buf d = length pre"
proof (induction c arbitrary: d rule: rev_induct)
  case Nil
  then obtain k where k: "d = Suc k" by (cases d) auto
  then have "buf ! k = last (take d buf)" "length pre = d"
    using Nil arg_cong [OF Nil.prems(1), of length] by (auto simp: take_Suc_conv_app_nth)
  then show ?case
    using Nil k by simp
next
  case (snoc x c)
  then obtain k where k: "d = Suc k" by (cases d) auto
  then have "take k buf @ [buf ! k] = (pre @ c) @ [x]"
    using snoc.prems by (simp add: take_Suc_conv_app_nth)
  then show ?case
    using snoc k by simp
qed

lemma last_dir_path [simp]: "last (dir_path st) = 47" "dir_path st \<noteq> []"
  by (auto simp: dir_path_def) (cases st rule: rev_cases; auto)

lemma dir_path_snoc: "dir_path (st @ [c]) = dir_path st @ c @ [47]"
  by (simp add: dir_path_def)

lemma back_slash_dir:
  assumes "take d buf = dir_path st" "d \<le> length buf" "\<forall>c \<in> set st. 47 \<notin> set c"
  shows "take (back_slash buf d) buf = dir_path (butlast st) \<and> back_slash buf d \<le> d"
proof (cases st rule: rev_cases)
  case Nil
  then have "take d buf = [47]"
    using assms by (simp add: dir_path_def)
  then have "d = 1" "buf ! 0 = 47"
    using assms(2) by (cases d; cases buf; auto)+
  then show ?thesis
    using assms Nil by (simp add: back_slash_def)
next
  case (snoc st' c)
  have len: "length (dir_path st) = d"
    using assms(1,2) by (metis length_take min.absorb2)
  then have d: "d > 1"
    by (simp add: snoc dir_path_snoc) (simp add: dir_path_def)
  then have split: "take (d - 1) buf @ [buf ! (d - 1)] = (dir_path st' @ c) @ [47]"
    using assms(1,2) take_Suc_conv_app_nth [of "d - 1" buf] by (simp add: snoc dir_path_snoc)
  then have "back_scan buf (d - 1) = length (dir_path st')"
    using assms d by (intro back_scan_to [where c = c]) (auto simp: snoc)
  moreover have "take (length (dir_path st')) buf = dir_path st'"
    using arg_cong [OF assms(1), of "take (length (dir_path st'))"] len
    by (simp add: snoc dir_path_snoc)
  ultimately show ?thesis
    using d split len by (simp add: back_slash_def snoc dir_path_snoc)
qed

text \<open>
  The loop: while it is at \<open>s\<close> with the components \<open>c # cs\<close> to come, the output is the
  directory of the stack, it never reaches the unread input, and the loop ends with the normal
  form.
\<close>

lemma norm_component_eq:
  assumes "drop s buf = join 47 (c # cs)" "s < length buf" "47 \<notin> set c"
  shows "norm_component buf (length buf) s = (c, s + length c + (if cs = [] then 0 else 1))
    \<and> s + length c + (if cs = [] then 0 else 1) \<le> length buf
    \<and> take (length c + (if cs = [] then 0 else 1)) (drop s buf) = c @ (if cs = [] then [] else [47])"
proof (cases cs)
  case Nil
  then have "drop s buf = c" "length c = length buf - s"
    using assms by (auto simp: Nil dest: arg_cong [of _ _ length])
  then show ?thesis
    using assms Nil by (simp add: norm_component_def component_last)
next
  case (Cons d ds)
  then have e: "drop s buf = c @ 47 # join 47 (d # ds)"
    using assms by simp
  then have "length buf = s + (length c + 1 + length (join 47 (d # ds)))"
    using assms(2) arg_cong [OF e, of length] unfolding length_drop by simp
  then show ?thesis
    using Cons assms(3) by (simp add: norm_component_def e component_sep)
qed

lemma norm_loop_done: "norm_loop buf (length buf) (length buf) d = (buf, d)"
  by (simp add: norm_loop.simps)

lemma blit_behind:
  assumes "d + n \<le> nx" "s + n = nx" "nx \<le> length buf"
  shows "drop nx (blit d (take n (drop s buf)) buf) = drop nx buf"
    and "take (d + n) (blit d (take n (drop s buf)) buf) = take d buf @ take n (drop s buf)"
    and "length (blit d (take n (drop s buf)) buf) = length buf"
  using assms by (auto simp: blit_def)

lemma norm_loop_step:
  assumes s: "drop s buf = join 47 (c # rest)" "s < length buf" "47 \<notin> set c" "d \<le> s"
    and st: "\<forall>c \<in> set st. 47 \<notin> set c" "take d buf = dir_path st"
    and L: "length buf < 2 ^ 31" and nx: "nx = s + length c + (if rest = [] then 0 else 1)"
  obtains buf1 d1 where "norm_loop buf (length buf) s d = norm_loop buf1 (length buf1) nx d1"
    and "length buf1 = length buf" "drop nx buf1 = drop nx buf" "d1 \<le> nx" "nx \<le> length buf"
    and "take d1 buf1 = (if c = bs ''.'' then dir_path st else if c = bs ''..'' then dir_path (butlast st)
      else dir_path st @ c @ (if rest = [] then [] else [47]))"
proof -
  have C: "norm_component buf (length buf) s = (c, nx)" "nx \<le> length buf"
    "take (nx - s) (drop s buf) = c @ (if rest = [] then [] else [47])"
    using norm_component_eq [OF s(1-3)] nx by auto
  have "length c \<le> length buf"
    using C(2) nx by simp
  then have vc: "mg_vcmp c (bs ''.'') = 0 \<longleftrightarrow> c = bs ''.''" "mg_vcmp c (bs ''..'') = 0 \<longleftrightarrow> c = bs ''..''"
    using L by (simp_all add: mg_vcmp_eq_0)
  have dot: "bs ''..'' \<noteq> bs ''.''"
    by (simp add: bs_def)
  have U: "norm_loop buf (length buf) s d =
      (if c = bs ''.'' then norm_loop buf (length buf) nx d
       else if c = bs ''..'' then norm_loop buf (length buf) nx (back_slash buf d)
       else norm_loop (blit d (take (nx - s) (drop s buf)) buf) (length buf) nx (d + (nx - s)))"
    using s(2) C(1) vc by (subst norm_loop.simps) simp
  have nx': "d + (nx - s) \<le> nx" "s + (nx - s) = nx" "d \<le> nx" "d \<le> length buf"
    using s nx by auto
  note B = blit_behind [OF nx'(1,2) C(2)]
  note bk = back_slash_dir [OF st(2) nx'(4) st(1)]
  consider "c = bs ''.''" | "c = bs ''..''" | "c \<noteq> bs ''.''" "c \<noteq> bs ''..''"
    by blast
  then show ?thesis
  proof cases
    case 1
    then show ?thesis
      using that [of buf d] U C st nx' by simp
  next
    case 2
    then show ?thesis
      using that [of buf "back_slash buf d"] U C bk nx' dot by simp
  next
    case 3
    then show ?thesis
      using that [of "blit d (take (nx - s) (drop s buf)) buf" "d + (nx - s)"] U C(2,3) B st(2) nx'
      by simp
  qed
qed

lemma norm_loop_ref:
  assumes "drop s buf = join 47 cs" "s < length buf \<or> cs = [[]] \<and> s = length buf" "d \<le> s"
    "cs \<noteq> []" "\<forall>c \<in> set cs. 47 \<notin> set c" "\<forall>c \<in> set st. 47 \<notin> set c"
    "take d buf = dir_path st" "length buf < 2 ^ 31"
  shows "\<exists>buf' d'. norm_loop buf (length buf) s d = (buf', d') \<and> d' \<le> length buf'
    \<and> length buf' = length buf \<and> take d' buf' = norm_ref st cs"
  using assms
proof (induction st cs arbitrary: buf s d rule: norm_ref.induct)
  case (2 st c)
  show ?case
  proof (cases "s < length buf")
    case False
    then show ?thesis
      using 2 by (auto simp: norm_loop_done bs_def)
  next
    case True
    have "length c = length buf - s"
      using arg_cong [OF 2(1), of length] unfolding length_drop by simp
    then have nx: "length buf = s + length c + (if [] = ([] :: byte list list) then 0 else 1)"
      using True by simp
    have c: "47 \<notin> set c"
      using 2(5) by simp
    obtain buf1 d1 where "norm_loop buf (length buf) s d = norm_loop buf1 (length buf1) (length buf) d1"
      "length buf1 = length buf" "d1 \<le> length buf"
      "take d1 buf1 = (if c = bs ''.'' then dir_path st else if c = bs ''..'' then dir_path (butlast st)
        else dir_path st @ c)"
      by (rule norm_loop_step [OF 2(1) True c 2(3) 2(6,7,8) nx]) simp
    then show ?thesis
      using norm_loop_done [of buf1 d1] by auto
  qed
next
  case (3 st c c' cs)
  define nx where "nx = s + length c + (if c' # cs = [] then 0 else 1)"
  have s: "s < length buf" and c: "47 \<notin> set c"
    using 3(3,6) by auto
  obtain buf1 d1 where st1: "norm_loop buf (length buf) s d = norm_loop buf1 (length buf1) nx d1"
    "length buf1 = length buf" "drop nx buf1 = drop nx buf" "d1 \<le> nx" "nx \<le> length buf"
    "take d1 buf1 = (if c = bs ''.'' then dir_path st else if c = bs ''..'' then dir_path (butlast st)
      else dir_path st @ c @ [47])"
    by (rule norm_loop_step [OF 3(2) s c 3(4) 3(7,8,9) nx_def]) simp
  have dr: "drop nx buf1 = join 47 (c' # cs)"
    using st1(3) arg_cong [OF 3(2), of "drop (length c + 1)"] by (simp add: nx_def add.commute)
  have end_case: "nx < length buf1 \<or> c' # cs = [[]] \<and> nx = length buf1"
    using dr st1(2,5) by (cases "nx < length buf1"; cases cs) auto
  have "take d1 buf1 = dir_path (norm_push st c)"
    by (simp add: st1(6) norm_push_def dir_path_snoc)
  moreover have "length buf1 < 2 ^ 31" "\<forall>x \<in> set (c' # cs). 47 \<notin> set x"
    using 3(6,9) st1(2) by auto
  ultimately show ?case
    using 3(1) [OF dr end_case st1(4) _ _ norm_push_plain [OF 3(7) c]] st1(1,2) by simp
qed simp

text \<open>The normal form is a path from the root without dot components.\<close>

definition no_dots :: "byte list list \<Rightarrow> bool" where
  "no_dots cs \<longleftrightarrow> bs ''.'' \<notin> set cs \<and> bs ''..'' \<notin> set cs"

lemma fields_dir_path:
  "\<forall>c \<in> set st. 47 \<notin> set c \<Longrightarrow> 47 \<notin> set c' \<Longrightarrow> split_on 47 (dir_path st @ c') = [] # st @ [c']"
proof -
  assume *: "\<forall>c \<in> set st. 47 \<notin> set c" "47 \<notin> set c'"
  then have "split_on 47 (concat (map (\<lambda>c. c @ [47]) st) @ c') = st @ [c']"
    by (induction st) (auto simp: split_on_no_sep split_on_append)
  then show ?thesis
    by (simp add: dir_path_def)
qed

lemma no_dots_dir:
  assumes "\<forall>c \<in> set st. 47 \<notin> set c" "no_dots st" "47 \<notin> set c" "c \<noteq> bs ''.''" "c \<noteq> bs ''..''"
  shows "no_dots (split_on 47 (dir_path st @ c)) \<and> hd (dir_path st @ c) = 47 \<and> dir_path st @ c \<noteq> []"
  using assms fields_dir_path [OF assms(1,3)] by (auto simp: no_dots_def dir_path_def bs_def)

lemma norm_ref_safe:
  "\<forall>c \<in> set st. 47 \<notin> set c \<Longrightarrow> no_dots st \<Longrightarrow> \<forall>c \<in> set cs. 47 \<notin> set c \<Longrightarrow>
     no_dots (split_on 47 (norm_ref st cs)) \<and> hd (norm_ref st cs) = 47 \<and> norm_ref st cs \<noteq> []"
proof (induction st cs rule: norm_ref.induct)
  case (2 st c)
  have "\<forall>c \<in> set (butlast st). 47 \<notin> set c" "no_dots (butlast st)"
    using 2 by (auto simp: no_dots_def dest: in_set_butlastD)
  then show ?case
    using 2 no_dots_dir [of st c] no_dots_dir [of st "[]"] no_dots_dir [of "butlast st" "[]"]
    by (auto simp: bs_def)
next
  case (3 st c c' cs)
  have "no_dots (norm_push st c)"
    using 3(3) by (auto simp: no_dots_def norm_push_def dest: in_set_butlastD)
  then show ?case
    using 3 norm_push_plain [OF 3(2), of c] by simp
qed (use no_dots_dir [of _ "[]"] in \<open>auto simp: bs_def\<close>)

text \<open>
  C34. \<open>mg_normalize_uri_path\<close>, run in place on a path below 2 GB, rejects a path that does
  not start with a slash; otherwise its output is the path obtained by resolving the components
  on a stack, it starts with a slash, is not longer than the input, and none of its components
  is a dot or a double dot: no request path can leave the document root.
\<close>

theorem mg_normalize_uri_path_safe:
  assumes "length path < 2 ^ 31"
  shows "(path = [] \<or> hd path \<noteq> 47 \<longrightarrow> mg_normalize_uri_path path = (0, []))
    \<and> (path \<noteq> [] \<and> hd path = 47 \<longrightarrow>
        (\<exists>out. mg_normalize_uri_path path = (1, out) \<and> out = norm_ref [] (split_on 47 (tl path))
          \<and> out \<noteq> [] \<and> hd out = 47 \<and> length out \<le> length path
          \<and> bs ''.'' \<notin> set (split_on 47 out) \<and> bs ''..'' \<notin> set (split_on 47 out)))"
proof (cases "path = [] \<or> hd path \<noteq> 47")
  case True
  then show ?thesis by (auto simp: mg_normalize_uri_path_def)
next
  case False
  then obtain xs where p: "path = 47 # xs" by (cases path) auto
  define cs where "cs = split_on 47 xs"
  have cs: "cs \<noteq> []" "\<forall>c \<in> set cs. 47 \<notin> set c" "drop 1 path = join 47 cs"
    using split_on_sep [of _ 47 xs] by (auto simp: cs_def p join_split_on)
  have first: "norm_component path (length path) 0 = ([], 1)" "mg_vcmp [] (bs ''.'') \<noteq> 0" "mg_vcmp [] (bs ''..'') \<noteq> 0"
    by (simp_all add: p norm_component_def parse_uri_component_def mg_vcmp_eq_0) (simp_all add: bs_def)
  have "norm_loop path (length path) 0 0 = norm_loop path (length path) 1 1"
    using first by (subst norm_loop.simps) (simp add: p blit_def)
  moreover have "\<exists>buf d. norm_loop path (length path) 1 1 = (buf, d) \<and> d \<le> length buf
      \<and> length buf = length path \<and> take d buf = norm_ref [] cs"
    using cs assms by (intro norm_loop_ref) (auto simp: p dir_path_def cs_def)
  ultimately obtain buf d where "norm_loop path (length path) 0 0 = (buf, d)" "d \<le> length buf"
    "length buf = length path" "take d buf = norm_ref [] cs"
    by auto
  moreover have "no_dots (split_on 47 (norm_ref [] cs)) \<and> hd (norm_ref [] cs) = 47 \<and> norm_ref [] cs \<noteq> []"
    using cs by (intro norm_ref_safe) (auto simp: no_dots_def)
  moreover have "length (norm_ref [] cs) \<le> length path" "d \<noteq> 0"
    using calculation(2-5) by (auto simp flip: calculation(4))
  ultimately show ?thesis
    using p by (auto simp: mg_normalize_uri_path_def no_dots_def cs_def)
qed

theorem mg_normalize_uri_path_safe_witness:
  "\<exists>out. mg_normalize_uri_path (bs ''/a/../../b/./c'') = (1, out) \<and> out = bs ''/b/c''"
  using mg_normalize_uri_path_safe [of "bs ''/a/../../b/./c''"]
  by (auto simp: bs_def of_char_def dir_path_def norm_push_def)

end
