(* ===== verification/Mqtt.thy ===== *)
theory Mqtt
  imports Prelude
begin

text \<open>
  The MQTT module (\<open>mongoose/src/mqtt.c\<close>): the functions that append control packets to the
  send buffer of a connection, and the parser of received packets. A buffer is the list of its
  bytes (\<open>Mbuf\<close> shows that \<open>mbuf_append\<close>, \<open>mbuf_insert\<close> and \<open>mbuf_remove\<close> act on it as
  the list operations here do). A read behind the received bytes, or a shift that C leaves
  undefined, is the result \<open>Undef\<close> of the parser.
\<close>

section \<open>Packets\<close>

text \<open>\<open>struct mg_mqtt_message\<close>; a topic that was not set is a null pointer.\<close>

record mqtt_message =
  mm_cmd :: nat
  mm_payload :: "byte list"
  mm_qos :: nat
  mm_connack_ret_code :: byte
  mm_message_id :: u16
  mm_topic :: "byte list option"

definition mqtt_message0 :: mqtt_message where
  "mqtt_message0 = \<lparr>mm_cmd = 0, mm_payload = [], mm_qos = 0, mm_connack_ret_code = 0,
     mm_message_id = 0, mm_topic = None\<rparr>"

definition MG_MQTT_QOS :: "nat \<Rightarrow> byte" where
  "MG_MQTT_QOS qos = push_bit 1 (of_nat qos)"

definition MG_MQTT_GET_QOS :: "byte \<Rightarrow> nat" where
  "MG_MQTT_GET_QOS flags = unat (drop_bit 1 (flags AND 6))"

section \<open>Sending\<close>

text \<open>\<open>mg_send\<close> on a TCP connection appends to the send buffer.\<close>

definition mg_send :: "byte list \<Rightarrow> byte list \<Rightarrow> byte list" where
  "mg_send sb data = sb @ data"

text \<open>The variable length: seven bits per byte, the eighth tells that more follow.\<close>

fun mqtt_vlen :: "nat \<Rightarrow> byte list" where
  "mqtt_vlen len =
     (if len div 128 > 0 then (of_nat (len mod 128) OR 128) # mqtt_vlen (len div 128)
      else [of_nat (len mod 128)])"

declare mqtt_vlen.simps [simp del]

text \<open>\<open>None\<close> is the failed assertion that the send buffer holds \<open>len\<close> bytes.\<close>

definition mg_mqtt_prepend_header :: "byte list \<Rightarrow> nat \<Rightarrow> byte \<Rightarrow> nat \<Rightarrow> byte list option" where
  "mg_mqtt_prepend_header sb cmd flags len =
     (if length sb \<ge> len then
        let off = length sb - len;
            header = push_bit 4 (of_nat cmd) OR flags
        in Some (take off sb @ (header # mqtt_vlen len) @ drop off sb)
      else None)"

definition mg_mqtt_publish ::
  "byte list \<Rightarrow> byte list \<Rightarrow> u16 \<Rightarrow> byte \<Rightarrow> byte list \<Rightarrow> byte list option" where
  "mg_mqtt_publish sb topic message_id flags data =
     (let old_len = length sb;
          sb = mg_send sb (be16 (of_nat (length topic)));
          sb = mg_send sb topic;
          sb = (if MG_MQTT_GET_QOS flags > 0 then mg_send sb (be16 message_id) else sb);
          sb = mg_send sb data
      in mg_mqtt_prepend_header sb 3 flags (length sb - old_len))"

fun mqtt_topics :: "byte list \<Rightarrow> (byte list \<times> byte) list \<Rightarrow> byte list" where
  "mqtt_topics sb [] = sb"
| "mqtt_topics sb ((topic, qos) # ts) =
     mqtt_topics (mg_send (mg_send (mg_send sb (be16 (of_nat (length topic)))) topic) [qos]) ts"

definition mg_mqtt_subscribe ::
  "byte list \<Rightarrow> (byte list \<times> byte) list \<Rightarrow> u16 \<Rightarrow> byte list option" where
  "mg_mqtt_subscribe sb topics message_id =
     (let old_len = length sb;
          sb = mqtt_topics (mg_send sb (be16 message_id)) topics
      in mg_mqtt_prepend_header sb 8 (MG_MQTT_QOS 1) (length sb - old_len))"

fun mqtt_untopics :: "byte list \<Rightarrow> byte list list \<Rightarrow> byte list" where
  "mqtt_untopics sb [] = sb"
| "mqtt_untopics sb (topic # ts) =
     mqtt_untopics (mg_send (mg_send sb (be16 (of_nat (length topic)))) topic) ts"

definition mg_mqtt_unsubscribe :: "byte list \<Rightarrow> byte list list \<Rightarrow> u16 \<Rightarrow> byte list option" where
  "mg_mqtt_unsubscribe sb topics message_id =
     (let old_len = length sb;
          sb = mqtt_untopics (mg_send sb (be16 message_id)) topics
      in mg_mqtt_prepend_header sb 10 (MG_MQTT_QOS 1) (length sb - old_len))"

definition mg_mqtt_connack :: "byte list \<Rightarrow> byte \<Rightarrow> byte list option" where
  "mg_mqtt_connack sb return_code =
     mg_mqtt_prepend_header (mg_send (mg_send sb [0]) [return_code]) 2 0 2"

definition mg_send_mqtt_short_command :: "byte list \<Rightarrow> nat \<Rightarrow> u16 \<Rightarrow> byte list option" where
  "mg_send_mqtt_short_command sb cmd message_id =
     mg_mqtt_prepend_header (mg_send sb (be16 message_id)) cmd (MG_MQTT_QOS 1) 2"

definition mg_mqtt_puback :: "byte list \<Rightarrow> u16 \<Rightarrow> byte list option" where
  "mg_mqtt_puback sb = mg_send_mqtt_short_command sb 4"

definition mg_mqtt_pubrec :: "byte list \<Rightarrow> u16 \<Rightarrow> byte list option" where
  "mg_mqtt_pubrec sb = mg_send_mqtt_short_command sb 5"

definition mg_mqtt_pubrel :: "byte list \<Rightarrow> u16 \<Rightarrow> byte list option" where
  "mg_mqtt_pubrel sb = mg_send_mqtt_short_command sb 6"

definition mg_mqtt_pubcomp :: "byte list \<Rightarrow> u16 \<Rightarrow> byte list option" where
  "mg_mqtt_pubcomp sb = mg_send_mqtt_short_command sb 7"

definition mg_mqtt_suback :: "byte list \<Rightarrow> byte list \<Rightarrow> u16 \<Rightarrow> byte list option" where
  "mg_mqtt_suback sb qoss message_id =
     (let sb = foldl (\<lambda>sb q. mg_send sb [q]) (mg_send sb (be16 message_id)) qoss
      in mg_mqtt_prepend_header sb 9 (MG_MQTT_QOS 1) (2 + length qoss))"

definition mg_mqtt_unsuback :: "byte list \<Rightarrow> u16 \<Rightarrow> byte list option" where
  "mg_mqtt_unsuback sb = mg_send_mqtt_short_command sb 11"

definition mg_mqtt_ping :: "byte list \<Rightarrow> byte list option" where
  "mg_mqtt_ping sb = mg_mqtt_prepend_header sb 12 0 0"

definition mg_mqtt_pong :: "byte list \<Rightarrow> byte list option" where
  "mg_mqtt_pong sb = mg_mqtt_prepend_header sb 13 0 0"

definition mg_mqtt_disconnect :: "byte list \<Rightarrow> byte list option" where
  "mg_mqtt_disconnect sb = mg_mqtt_prepend_header sb 14 0 0"

text \<open>
  \<open>mg_send_mqtt_handshake_opt\<close>. The remaining length is one byte, so it wraps. \<open>None\<close> is the
  read of a null pointer, when the caller sets the flag of a name that is not given.
\<close>

record mqtt_handshake_opts =
  ho_flags :: byte
  ho_keep_alive :: u16
  ho_user_name :: "byte list option"
  ho_password :: "byte list option"

definition mqtt_credential :: "bool \<Rightarrow> byte list option \<Rightarrow> byte list \<Rightarrow> byte list option" where
  "mqtt_credential has cred sb =
     (if has then (case cred of None \<Rightarrow> None
        | Some u \<Rightarrow> Some (mg_send (mg_send sb (be16 (of_nat (length u)))) u))
      else Some sb)"

definition mg_send_mqtt_handshake_opt ::
  "byte list \<Rightarrow> byte list \<Rightarrow> mqtt_handshake_opts \<Rightarrow> byte list option" where
  "mg_send_mqtt_handshake_opt sb client_id opts =
     (let rem_len = of_nat (9 + 1 + 2 + 2 + length client_id) :: byte;
          flags = ho_flags opts;
          (flags, rem_len) = (case ho_user_name opts of None \<Rightarrow> (flags, rem_len)
            | Some u \<Rightarrow> (flags OR 128, rem_len + of_nat (length u + 2)));
          (flags, rem_len) = (case ho_password opts of None \<Rightarrow> (flags, rem_len)
            | Some p \<Rightarrow> (flags OR 64, rem_len + of_nat (length p + 2)));
          sb = mg_send sb [push_bit 4 1];
          sb = mg_send sb [rem_len];
          sb = mg_send sb ([0, 6] @ bs ''MQIsdp'' @ [3]);
          sb = mg_send sb [flags];
          sb = mg_send sb (be16 (if ho_keep_alive opts = 0 then 60 else ho_keep_alive opts));
          sb = mg_send sb (be16 (of_nat (length client_id)));
          sb = mg_send sb client_id
      in Option.bind (mqtt_credential (flags AND 128 \<noteq> 0) (ho_user_name opts) sb)
           (mqtt_credential (flags AND 64 \<noteq> 0) (ho_password opts)))"

section \<open>Receiving\<close>

datatype mqtt_result = Undef | Wait | Parsed int mqtt_message "byte list"

text \<open>
  The length loop. Its guard \<open>vlen - io->buf <= io->len\<close> holds at every byte of the buffer
  and at the one behind it, so the loop ends at a byte without continuation bit or reads
  behind the buffer. \<open>(b & 127) << 7 * k\<close> is an \<open>int\<close>: a shift of 35 or a value of
  \<open>2 ^ 31\<close> is undefined.
\<close>

fun mqtt_len_loop :: "byte list \<Rightarrow> nat \<Rightarrow> nat \<Rightarrow> (nat \<times> nat) option" where
  "mqtt_len_loop [] k len = None"
| "mqtt_len_loop (b # v) k len =
     (let add = unat (b AND 127) * 2 ^ (7 * k) in
      if k > 4 \<or> add \<ge> 2 ^ 31 then None
      else if b AND 128 \<noteq> 0 then mqtt_len_loop v (k + 1) (len + add)
      else Some (len + add, k + 1))"

fun mqtt_id :: "byte list \<Rightarrow> u16 option" where
  "mqtt_id (a # b # _) = Some (rd16 a b)"
| "mqtt_id _ = None"

text \<open>
  The variable header: \<open>var_len\<close> and the message, from the bytes behind the fixed header.
  \<open>strncpy\<close> stops at a NUL, and reads no byte behind it.
\<close>

definition mqtt_var_header :: "byte \<Rightarrow> nat \<Rightarrow> byte list \<Rightarrow> mqtt_message \<Rightarrow> (nat \<times> mqtt_message) option" where
  "mqtt_var_header header cmd io mm =
     (if cmd = 2 then
        (if length io < 2 then None else Some (2, mm\<lparr>mm_connack_ret_code := io ! 1\<rparr>))
      else if cmd \<in> {4, 5, 6, 7, 9, 8} then
        (case mqtt_id io of None \<Rightarrow> None | Some i \<Rightarrow> Some (2, mm\<lparr>mm_message_id := i\<rparr>))
      else if cmd = 3 then
        (case mqtt_id io of None \<Rightarrow> None
         | Some i \<Rightarrow>
             let topic_len = unat i; src = take topic_len (drop 2 io);
                 topic = takeWhile (\<lambda>c. c \<noteq> 0) src
             in if length src < topic_len \<and> topic = src then None
                else if MG_MQTT_GET_QOS header > 0
                then Some (topic_len + 2 + 2, mm\<lparr>mm_topic := Some topic, mm_message_id := i\<rparr>)
                else Some (topic_len + 2, mm\<lparr>mm_topic := Some topic\<rparr>))
      else Some (0, mm))"

definition parse_mqtt :: "byte list \<Rightarrow> mqtt_message \<Rightarrow> mqtt_result" where
  "parse_mqtt io mm =
     (if length io < 2 then Wait
      else let header = io ! 0; cmd = unat (drop_bit 4 header)
      in case mqtt_len_loop (drop 1 io) 0 0 of
           None \<Rightarrow> Undef
         | Some (len, n) \<Rightarrow>
             if len \<noteq> 0 \<and> length io < len - 1 then Wait
             else let io1 = buf_remove io (1 + n);
                      mm1 = mm\<lparr>mm_cmd := cmd, mm_qos := MG_MQTT_GET_QOS header\<rparr>
             in case mqtt_var_header header cmd io1 mm1 of
                  None \<Rightarrow> Undef
                | Some (var_len, mm2) \<Rightarrow>
                    Parsed (sint (of_int (int len - int var_len) :: u32)) mm2 (buf_remove io1 var_len))"

text \<open>
  \<open>mqtt_handler\<close> on \<open>MG_EV_RECV\<close>: the event it raises, if any, and the receive buffer after
  it. A packet is passed on with its payload; the payload length is the \<open>int\<close> that the parser
  returned, as a \<open>size_t\<close>. \<open>None\<close>: the parser ran into undefined behaviour, or the payload
  passed to the handler reaches behind the received bytes.
\<close>

definition mqtt_recv :: "byte list \<Rightarrow> ((nat \<times> mqtt_message) option \<times> byte list) option" where
  "mqtt_recv io =
     (case parse_mqtt io mqtt_message0 of
        Undef \<Rightarrow> None
      | Wait \<Rightarrow> Some (None, io)
      | Parsed len mm io1 \<Rightarrow>
          if len = -1 then Some (None, io1)
          else let n = unat (of_int len :: u64)
               in if n > length io1 then None
                  else Some (Some (200 + mm_cmd mm, mm\<lparr>mm_payload := take n io1\<rparr>), buf_remove io1 n))"

text \<open>
  \<open>mg_mqtt_next_subscribe_topic\<close>: \<open>None\<close> is a read behind the payload, \<open>Some None\<close> the -1
  at its end.
\<close>

definition mg_mqtt_next_subscribe_topic ::
  "byte list \<Rightarrow> nat \<Rightarrow> ((byte list \<times> byte \<times> nat) option) option" where
  "mg_mqtt_next_subscribe_topic payload pos =
     (if pos \<ge> length payload then Some None
      else case drop pos payload of
        a # b # rest \<Rightarrow>
          (let len = unat a * 256 + unat b
           in if len < length rest then Some (Some (take len rest, rest ! len, pos + 2 + len + 1))
              else None)
      | _ \<Rightarrow> None)"

text \<open>The loop in which it is used: all topics with their quality of service.\<close>

function mqtt_subscribe_topics :: "byte list \<Rightarrow> nat \<Rightarrow> ((byte list \<times> byte) list) option" where
  "mqtt_subscribe_topics payload pos =
     (case mg_mqtt_next_subscribe_topic payload pos of
        None \<Rightarrow> None
      | Some None \<Rightarrow> Some []
      | Some (Some (topic, qos, pos')) \<Rightarrow>
          map_option (\<lambda>ts. (topic, qos) # ts) (mqtt_subscribe_topics payload pos'))"
  by pat_completeness auto
termination
  by (relation "measure (\<lambda>(payload, pos). length payload - pos)")
    (auto simp: mg_mqtt_next_subscribe_topic_def Let_def split: if_splits list.splits)

declare mqtt_subscribe_topics.simps [simp del]

section \<open>Frames\<close>

lemma byte_low7:
  assumes "m < 128"
  shows "unat (of_nat m AND (127 :: byte)) = m" "of_nat m AND (128 :: byte) = 0"
    and "unat ((of_nat m OR 128) AND (127 :: byte)) = m" "(of_nat m OR 128) AND (128 :: byte) \<noteq> 0"
proof -
  have "\<forall>m \<in> set [0..<128]. unat (of_nat m AND (127 :: byte)) = m \<and> of_nat m AND (128 :: byte) = 0
      \<and> unat ((of_nat m OR 128) AND (127 :: byte)) = m \<and> (of_nat m OR 128) AND (128 :: byte) \<noteq> 0"
    by (simp add: upt_rec)
  then show "unat (of_nat m AND (127 :: byte)) = m" "of_nat m AND (128 :: byte) = 0"
    "unat ((of_nat m OR 128) AND (127 :: byte)) = m" "(of_nat m OR 128) AND (128 :: byte) \<noteq> 0"
    using assms by auto
qed

lemma mqtt_len_loop_vlen:
  "n < 128 ^ (4 - k) \<Longrightarrow> k < 4 \<Longrightarrow>
     mqtt_len_loop (mqtt_vlen n @ rest) k acc = Some (acc + n * 128 ^ k, k + length (mqtt_vlen n))"
proof (induction n arbitrary: k acc rule: mqtt_vlen.induct)
  case (1 n)
  have p: "(2 :: nat) ^ (7 * k) = 128 ^ k"
    by (simp add: power_mult)
  have b: "m * 128 ^ k < 2 ^ 31" if "m < 128" for m :: nat
  proof -
    have "m * 128 ^ k < 128 * 128 ^ k"
      using that by simp
    also have "\<dots> \<le> 128 * 128 ^ 3"
      using 1(3) by (intro mult_le_mono power_increasing) auto
    finally show ?thesis by simp
  qed
  show ?case
  proof (cases "n div 128 > 0")
    case True
    have k: "k + 1 < 4"
    proof (rule ccontr)
      assume "\<not> k + 1 < 4"
      then have "4 - k = 1" using 1(3) by simp
      then show False using 1(2) True by simp
    qed
    have "(128 :: nat) ^ (4 - k) = 128 * 128 ^ (4 - (k + 1))"
      using 1(3) by (simp flip: power_Suc add: Suc_diff_Suc)
    then have "n div 128 < 128 ^ (4 - (k + 1))"
      using 1(2) by (simp add: less_mult_imp_div_less mult.commute)
    note IH = 1(1) [OF True this k]
    have "mqtt_len_loop (mqtt_vlen n @ rest) k acc =
        mqtt_len_loop (mqtt_vlen (n div 128) @ rest) (k + 1) (acc + n mod 128 * 128 ^ k)"
      using True 1(3) b [of "n mod 128"] byte_low7 [of "n mod 128"]
      by (subst mqtt_vlen.simps) (simp add: Let_def p)
    also have "\<dots> = Some (acc + n * 128 ^ k, k + length (mqtt_vlen n))"
    proof -
      have digits: "r * 128 ^ k + q * 128 ^ (k + 1) = (128 * q + r) * 128 ^ k" for q r :: nat
        by (simp add: algebra_simps)
      have "n mod 128 * 128 ^ k + n div 128 * 128 ^ (k + 1) = n * 128 ^ k"
        unfolding digits by simp
      moreover have "length (mqtt_vlen n) = Suc (length (mqtt_vlen (n div 128)))"
        using True by (subst mqtt_vlen.simps) simp
      ultimately show ?thesis
        unfolding IH by simp
    qed
    finally show ?thesis .
  next
    case False
    then have "n < 128" by simp
    then show ?thesis
      using 1(3) b [of n] byte_low7 [of n] False
      by (subst (1 2) mqtt_vlen.simps) (simp add: Let_def p)
  qed
qed

lemma mqtt_vlen_not_Nil [simp]: "mqtt_vlen n \<noteq> []"
  by (simp add: mqtt_vlen.simps)

lemma header_cmd:
  assumes "cmd < 16" and "flags < (16 :: byte)"
  shows "unat (drop_bit 4 (push_bit 4 (of_nat cmd) OR flags)) = cmd"
    and "MG_MQTT_GET_QOS (push_bit 4 (of_nat cmd) OR flags) = MG_MQTT_GET_QOS flags"
proof -
  have "\<forall>c \<in> set [0..<16]. \<forall>f \<in> set [0..<16].
      unat (drop_bit 4 (push_bit 4 (of_nat c) OR (of_nat f :: byte))) = c
      \<and> MG_MQTT_GET_QOS (push_bit 4 (of_nat c) OR of_nat f) = MG_MQTT_GET_QOS (of_nat f)"
    by (simp add: upt_rec MG_MQTT_GET_QOS_def)
  moreover have "unat flags < 16"
    using assms(2) by (simp add: word_less_nat_alt)
  ultimately have "unat (drop_bit 4 (push_bit 4 (of_nat cmd) OR (of_nat (unat flags) :: byte))) = cmd
      \<and> MG_MQTT_GET_QOS (push_bit 4 (of_nat cmd) OR of_nat (unat flags)) = MG_MQTT_GET_QOS (of_nat (unat flags))"
    using assms(1) by (metis atLeast0LessThan lessThan_iff set_upt)
  then show "unat (drop_bit 4 (push_bit 4 (of_nat cmd) OR flags)) = cmd"
    "MG_MQTT_GET_QOS (push_bit 4 (of_nat cmd) OR flags) = MG_MQTT_GET_QOS flags"
    by simp_all
qed

text \<open>A frame on the wire: the fixed header, the length of the body and the body.\<close>

definition mqtt_frame :: "nat \<Rightarrow> byte \<Rightarrow> byte list \<Rightarrow> byte list" where
  "mqtt_frame cmd flags body = (push_bit 4 (of_nat cmd) OR flags) # mqtt_vlen (length body) @ body"

lemma prepend_frame:
  "n = length body \<Longrightarrow>
     mg_mqtt_prepend_header (sb @ body) cmd flags n = Some (sb @ mqtt_frame cmd flags body)"
  by (simp add: mg_mqtt_prepend_header_def mqtt_frame_def Let_def)

lemma sint_int_u32: "0 \<le> i \<Longrightarrow> i < 2 ^ 31 \<Longrightarrow> sint (of_int i :: u32) = i"
  by (simp add: signed_of_int signed_take_bit_int_eq_self)

text \<open>
  Receiving a frame: when the variable header of \<open>v\<close> bytes is read inside the body, the event
  carries the rest of the body, and the bytes behind the frame stay in the buffer.
\<close>

lemma recv_frame:
  assumes "cmd < 16" and "flags < 16" and "length body < 2 ^ 28"
    and var: "mqtt_var_header (push_bit 4 (of_nat cmd) OR flags) cmd (body @ rest)
        (mqtt_message0\<lparr>mm_cmd := cmd, mm_qos := MG_MQTT_GET_QOS flags\<rparr>) = Some (v, mm)"
    and "v \<le> length body"
  shows "mqtt_recv (mqtt_frame cmd flags body @ rest) =
    Some (Some (200 + mm_cmd mm, mm\<lparr>mm_payload := drop v body\<rparr>), rest)"
proof -
  define io where "io = mqtt_frame cmd flags body @ rest"
  define n where "n = length (mqtt_vlen (length body))"
  have len: "mqtt_len_loop (drop 1 io) 0 0 = Some (length body, n)"
    using mqtt_len_loop_vlen [of "length body" 0 "body @ rest" 0] assms(3)
    by (simp add: io_def mqtt_frame_def n_def)
  have io1: "buf_remove io (1 + n) = body @ rest"
    using buf_remove_append [of "(push_bit 4 (of_nat cmd) OR flags) # mqtt_vlen (length body)" "1 + n" "body @ rest"]
    by (simp add: io_def mqtt_frame_def n_def)
  have rv: "buf_remove (body @ rest) v = drop v body @ rest"
    using assms(5) by (auto simp: buf_remove_def)
  have "io ! 0 = push_bit 4 (of_nat cmd) OR flags" "\<not> length io < 2" "\<not> length io < length body - 1"
    by (auto simp: io_def mqtt_frame_def not_less Suc_le_eq)
  moreover have "sint (of_int (int (length body) - int v) :: u32) = int (length body - v)"
    using assms(3,5) sint_int_u32 [of "int (length body) - int v"] by (simp add: of_nat_diff)
  ultimately have "parse_mqtt io mqtt_message0 = Parsed (int (length body - v)) mm (drop v body @ rest)"
    using header_cmd [OF assms(1,2)]
    unfolding parse_mqtt_def Let_def len option.case prod.case io1 by (simp add: var rv)
  moreover have "unat (of_int (int (length body - v)) :: u64) = length body - v"
    using assms(3) by (simp add: unat_of_nat)
  ultimately show ?thesis
    unfolding io_def [symmetric] mqtt_recv_def by simp
qed

section \<open>What is sent is received\<close>

lemma rd16_id: "mqtt_id (be16 w @ xs) = Some w"
  by (simp add: be16_def)

lemma var_header_publish:
  assumes "length topic < 2 ^ 16" and "0 \<notin> set topic"
  shows "mqtt_var_header h 3 (be16 (of_nat (length topic)) @ topic @ xs) mm =
    Some (if MG_MQTT_GET_QOS h > 0
          then (length topic + 2 + 2, mm\<lparr>mm_topic := Some topic, mm_message_id := of_nat (length topic)\<rparr>)
          else (length topic + 2, mm\<lparr>mm_topic := Some topic\<rparr>))"
proof -
  have "takeWhile (\<lambda>c. c \<noteq> 0) topic = topic"
    using assms(2) by (auto simp: takeWhile_eq_all_conv)
  moreover have "drop 2 (be16 w @ topic @ xs) = topic @ xs" for w
    by simp
  ultimately show ?thesis
    using assms(1) by (simp add: mqtt_var_header_def rd16_id unat_of_nat_u16 Let_def)
qed

text \<open>
  C31. A published message comes through: \<open>mg_mqtt_publish\<close> appends one frame to the send
  buffer, and a receiver whose buffer starts with that frame raises the publish event with the
  topic, the quality of service and the data that were sent, and keeps the bytes behind the
  frame. The message id does not come through: of a message with quality of service above 0
  the parser reports the length of the topic as the id.
\<close>

theorem mqtt_publish_roundtrip:
  assumes "length topic < 2 ^ 16" and "0 \<notin> set topic" and "flags < 16"
    and "length topic + length data + 4 < 2 ^ 28"
  shows "\<exists>frame. mg_mqtt_publish sb topic message_id flags data = Some (sb @ frame)
    \<and> mqtt_recv (frame @ rest) = Some (Some (203, \<lparr>mm_cmd = 3, mm_payload = data,
        mm_qos = MG_MQTT_GET_QOS flags, mm_connack_ret_code = 0,
        mm_message_id = (if MG_MQTT_GET_QOS flags > 0 then of_nat (length topic) else 0),
        mm_topic = Some topic\<rparr>), rest)"
proof -
  define ident where "ident = (if MG_MQTT_GET_QOS flags > 0 then be16 message_id else [])"
  define body where "body = be16 (of_nat (length topic)) @ topic @ ident @ data"
  have "mg_mqtt_publish sb topic message_id flags data = Some (sb @ mqtt_frame 3 flags body)"
    by (simp add: mg_mqtt_publish_def mg_send_def Let_def body_def ident_def prepend_frame)
  moreover have "mqtt_recv (mqtt_frame 3 flags body @ rest) = Some (Some (200 + 3, \<lparr>mm_cmd = 3,
        mm_payload = data, mm_qos = MG_MQTT_GET_QOS flags, mm_connack_ret_code = 0,
        mm_message_id = (if MG_MQTT_GET_QOS flags > 0 then of_nat (length topic) else 0),
        mm_topic = Some topic\<rparr>), rest)"
    using assms var_header_publish [OF assms(1,2), of "push_bit 4 (of_nat 3) OR flags" "ident @ data @ rest"]
      header_cmd [of 3 flags]
    by (subst recv_frame [where v = "length topic + 2 + length ident"
          and mm = "\<lparr>mm_cmd = 3, mm_payload = [], mm_qos = MG_MQTT_GET_QOS flags,
            mm_connack_ret_code = 0,
            mm_message_id = (if MG_MQTT_GET_QOS flags > 0 then of_nat (length topic) else 0),
            mm_topic = Some topic\<rparr>"])
      (auto simp: body_def ident_def mqtt_message0_def)
  ultimately show ?thesis by auto
qed

theorem mqtt_publish_roundtrip_witness:
  "\<exists>frame. mg_mqtt_publish [7] (bs ''t'') 9 2 [1, 2] = Some ([7] @ frame)
    \<and> mqtt_recv (frame @ [5]) = Some (Some (203, \<lparr>mm_cmd = 3, mm_payload = [1, 2], mm_qos = 1,
        mm_connack_ret_code = 0, mm_message_id = 1, mm_topic = Some (bs ''t'')\<rparr>), [5])"
  using mqtt_publish_roundtrip [of "bs ''t''" 2 "[1, 2]" "[7]" 9 "[5]"]
  by (simp add: bs_def of_char_def MG_MQTT_GET_QOS_def)

lemma mqtt_topics_eq:
  "mqtt_topics sb ts = sb @ concat (map (\<lambda>(t, q). be16 (of_nat (length t)) @ t @ [q]) ts)"
  by (induction sb ts rule: mqtt_topics.induct) (simp_all add: mg_send_def)

lemma rd16_unat: "unat (ucast (drop_bit 8 w) :: byte) * 256 + unat (ucast w :: byte) = unat (w :: u16)"
proof -
  have "unat (ucast w :: byte) = unat w mod 256"
    by (simp add: unsigned_ucast_eq take_bit_eq_mod)
  moreover have "unat (ucast (drop_bit 8 w) :: byte) = unat w div 256"
    using unat_u16_less [of w]
    by (simp add: unsigned_ucast_eq take_bit_eq_mod drop_bit_eq_div unat_div less_mult_imp_div_less)
  ultimately show ?thesis
    by simp
qed

lemma next_topic:
  assumes "length t < 2 ^ 16"
  shows "mg_mqtt_next_subscribe_topic (pre @ be16 (of_nat (length t)) @ t @ [q] @ xs) (length pre)
    = Some (Some (t, q, length pre + 2 + length t + 1))"
  using rd16_unat [of "of_nat (length t)"] unat_of_nat_u16 [OF assms]
  by (simp add: mg_mqtt_next_subscribe_topic_def be16_def Let_def)

lemma subscribe_topics_eq:
  "\<forall>(t, q) \<in> set ts. length t < 2 ^ 16 \<Longrightarrow>
    mqtt_subscribe_topics (pre @ concat (map (\<lambda>(t, q). be16 (of_nat (length t)) @ t @ [q]) ts)) (length pre)
      = Some ts"
proof (induction ts arbitrary: pre)
  case Nil
  then show ?case
    by (subst mqtt_subscribe_topics.simps) (simp add: mg_mqtt_next_subscribe_topic_def)
next
  case (Cons tq ts)
  obtain t q where tq: "tq = (t, q)" by (cases tq)
  define xs where "xs = concat (map (\<lambda>(t, q). be16 (of_nat (length t)) @ t @ [q]) ts)"
  have "mqtt_subscribe_topics ((pre @ be16 (of_nat (length t)) @ t @ [q]) @ xs)
      (length (pre @ be16 (of_nat (length t)) @ t @ [q])) = Some ts"
    unfolding xs_def using Cons by (intro Cons.IH) auto
  then show ?case
    using Cons.prems next_topic [of t pre q xs]
    by (subst mqtt_subscribe_topics.simps) (simp add: tq xs_def)
qed

lemma recv_ids:
  assumes "cmd \<in> {4, 5, 6, 7, 9, 8}" and "flags < 16" and "length body + 2 < 2 ^ 28"
  shows "\<exists>mm. mqtt_recv (mqtt_frame cmd flags (be16 message_id @ body) @ rest) = Some (Some (200 + cmd, mm), rest)
      \<and> mm_message_id mm = message_id \<and> mm_payload mm = body"
  using assms
  by (subst recv_frame [where v = 2 and mm = "mqtt_message0\<lparr>mm_cmd := cmd,
        mm_qos := MG_MQTT_GET_QOS flags, mm_message_id := message_id\<rparr>"])
    (auto simp: mqtt_var_header_def rd16_id)

lemma recv_connack:
  "\<exists>frame mm. mg_mqtt_connack sb code = Some (sb @ frame)
      \<and> mqtt_recv (frame @ rest) = Some (Some (200 + 2, mm), rest)
      \<and> mm_connack_ret_code mm = code \<and> mm_payload mm = []"
  by (intro exI [of _ "mqtt_frame 2 0 [0, code]"], subst recv_frame [where v = 2 and
        mm = "mqtt_message0\<lparr>mm_cmd := 2, mm_qos := 0, mm_connack_ret_code := code\<rparr>"])
    (auto simp: mqtt_var_header_def mg_mqtt_connack_def mg_send_def prepend_frame MG_MQTT_GET_QOS_def)

lemma recv_empty:
  assumes "cmd \<in> {12, 13, 14}"
  shows "\<exists>frame mm. mg_mqtt_prepend_header sb cmd 0 0 = Some (sb @ frame)
      \<and> mqtt_recv (frame @ rest) = Some (Some (200 + cmd, mm), rest) \<and> mm_payload mm = []"
  using assms prepend_frame [of 0 "[]" sb cmd 0]
  by (intro exI [of _ "mqtt_frame cmd 0 []"], subst recv_frame [where v = 0 and
        mm = "mqtt_message0\<lparr>mm_cmd := cmd, mm_qos := 0\<rparr>"])
    (auto simp: mqtt_var_header_def MG_MQTT_GET_QOS_def)

text \<open>
  A subscription comes through with its message id, and walking its payload with
  \<open>mg_mqtt_next_subscribe_topic\<close> gives exactly the topics and qualities of service that were
  sent, without a read behind the payload. The acknowledgements carry their message id (the
  connection acknowledgement its return code, the subscription acknowledgement the granted
  qualities of service), and the packets without content raise their event.
\<close>

lemma mqtt_subscribe_roundtrip:
  assumes "\<forall>(t, q) \<in> set topics. length t < 2 ^ 16"
    and "2 + (\<Sum>(t, q) \<leftarrow> topics. length t + 3) < 2 ^ 28" and "length qoss + 2 < 2 ^ 28"
  shows "(\<exists>frame mm. mg_mqtt_subscribe sb topics message_id = Some (sb @ frame)
        \<and> mqtt_recv (frame @ rest) = Some (Some (208, mm), rest)
        \<and> mm_message_id mm = message_id \<and> mqtt_subscribe_topics (mm_payload mm) 0 = Some topics)
    \<and> (\<forall>(cmd, enc) \<in> {(4, mg_mqtt_puback), (5, mg_mqtt_pubrec), (6, mg_mqtt_pubrel), (7, mg_mqtt_pubcomp)}.
        \<exists>frame mm. enc sb message_id = Some (sb @ frame)
          \<and> mqtt_recv (frame @ rest) = Some (Some (200 + cmd, mm), rest)
          \<and> mm_message_id mm = message_id \<and> mm_payload mm = [])
    \<and> (\<exists>frame mm. mg_mqtt_suback sb qoss message_id = Some (sb @ frame)
        \<and> mqtt_recv (frame @ rest) = Some (Some (209, mm), rest)
        \<and> mm_message_id mm = message_id \<and> mm_payload mm = qoss)
    \<and> (\<exists>frame mm. mg_mqtt_connack sb code = Some (sb @ frame)
        \<and> mqtt_recv (frame @ rest) = Some (Some (202, mm), rest)
        \<and> mm_connack_ret_code mm = code \<and> mm_payload mm = [])
    \<and> (\<forall>(cmd, enc) \<in> {(12, mg_mqtt_ping), (13, mg_mqtt_pong), (14, mg_mqtt_disconnect)}.
        \<exists>frame mm. enc sb = Some (sb @ frame)
          \<and> mqtt_recv (frame @ rest) = Some (Some (200 + cmd, mm), rest) \<and> mm_payload mm = [])"
proof -
  define tbytes where "tbytes = concat (map (\<lambda>(t, q). be16 (of_nat (length t)) @ t @ [q]) topics)"
  have len: "length tbytes = (\<Sum>(t, q) \<leftarrow> topics. length t + 3)"
    unfolding tbytes_def by (induction topics) auto
  have q1: "MG_MQTT_QOS 1 < 16"
    by (simp add: MG_MQTT_QOS_def)
  note ids = recv_ids [OF _ q1, of _ _ message_id rest]
  have short: "\<exists>frame mm. mg_send_mqtt_short_command sb cmd message_id = Some (sb @ frame)
      \<and> mqtt_recv (frame @ rest) = Some (Some (200 + cmd, mm), rest)
      \<and> mm_message_id mm = message_id \<and> mm_payload mm = []" if "cmd \<in> {4, 5, 6, 7}" for cmd
    using ids [of cmd "[]"] that
    by (intro exI [of _ "mqtt_frame cmd (MG_MQTT_QOS 1) (be16 message_id)"])
      (auto simp: mg_send_mqtt_short_command_def mg_send_def prepend_frame)
  have "\<exists>frame mm. mg_mqtt_subscribe sb topics message_id = Some (sb @ frame)
      \<and> mqtt_recv (frame @ rest) = Some (Some (200 + 8, mm), rest)
      \<and> mm_message_id mm = message_id \<and> mqtt_subscribe_topics (mm_payload mm) 0 = Some topics"
    using ids [of 8 tbytes] len assms(2) subscribe_topics_eq [OF assms(1), of "[]"]
    by (intro exI [of _ "mqtt_frame 8 (MG_MQTT_QOS 1) (be16 message_id @ tbytes)"])
      (auto simp: mg_mqtt_subscribe_def mqtt_topics_eq mg_send_def Let_def prepend_frame tbytes_def)
  moreover have "\<exists>frame mm. mg_mqtt_suback sb qoss message_id = Some (sb @ frame)
      \<and> mqtt_recv (frame @ rest) = Some (Some (200 + 9, mm), rest)
      \<and> mm_message_id mm = message_id \<and> mm_payload mm = qoss"
    using ids [of 9 qoss] assms(3)
    by (intro exI [of _ "mqtt_frame 9 (MG_MQTT_QOS 1) (be16 message_id @ qoss)"])
      (auto simp: mg_mqtt_suback_def mg_send_def foldl_append_list Let_def prepend_frame)
  moreover note short [of 4] short [of 5] short [of 6] short [of 7]
    recv_connack [of sb code rest] recv_empty [of 12 sb rest] recv_empty [of 13 sb rest]
    recv_empty [of 14 sb rest]
  ultimately show ?thesis
    by (simp add: mg_mqtt_puback_def mg_mqtt_pubrec_def mg_mqtt_pubrel_def mg_mqtt_pubcomp_def
        mg_mqtt_ping_def mg_mqtt_pong_def mg_mqtt_disconnect_def)
qed

lemma mqtt_subscribe_roundtrip_witness:
  "\<exists>frame mm. mg_mqtt_subscribe [] [(bs ''a/b'', 1), (bs ''c'', 0)] 77 = Some ([] @ frame)
     \<and> mqtt_recv (frame @ [1]) = Some (Some (208, mm), [1])
     \<and> mm_message_id mm = 77 \<and> mqtt_subscribe_topics (mm_payload mm) 0 = Some [(bs ''a/b'', 1), (bs ''c'', 0)]"
  using mqtt_subscribe_roundtrip [of "[(bs ''a/b'', 1), (bs ''c'', 0)]" "[]" "[]" 77 "[1]" 0]
  by simp

section \<open>The handshake\<close>

lemma credential_flags:
  fixes fl :: byte
  assumes "fl AND 128 = 0" and "fl AND 64 = 0"
  shows "(fl OR 128) AND 128 \<noteq> 0" "(fl OR 64) AND 128 = 0" "((fl OR 128) OR 64) AND 128 \<noteq> 0"
    "(fl OR 128) AND 64 = 0" "(fl OR 64) AND 64 \<noteq> 0" "((fl OR 128) OR 64) AND 64 \<noteq> 0"
  using assms by (simp_all add: bit.conj_disj_distrib2)

text \<open>
  The handshake is one frame whose length byte is the number of bytes that follow it, modulo
  256: it is a valid MQTT length as long as that number is below 128.
\<close>

lemma handshake_frame:
  assumes "ho_flags opts AND 128 = 0" and "ho_flags opts AND 64 = 0"
  shows "\<exists>body. mg_send_mqtt_handshake_opt sb client_id opts = Some (sb @ [16, of_nat (length body)] @ body)
    \<and> length body = 14 + length client_id
        + (case ho_user_name opts of None \<Rightarrow> 0 | Some u \<Rightarrow> length u + 2)
        + (case ho_password opts of None \<Rightarrow> 0 | Some p \<Rightarrow> length p + 2)"
  using credential_flags [OF assms] assms
  by (auto simp: mg_send_mqtt_handshake_opt_def mqtt_credential_def mg_send_def Let_def
      split: option.splits)

end
