(* ===== verification/Mqtt_Broker.thy ===== *)
theory Mqtt_Broker
  imports Mqtt "HOL-Library.Monad_Syntax"
begin

text \<open>
  The MQTT broker of Mongoose (\<open>src/mqtt-broker.c\<close>) over an explicit heap of sessions, which are doubly linked, and a table of connections. An access
  through a pointer of the wrong kind, to freed memory or outside of a block is the outcome \<open>None\<close>. Clients that
  keep to an order of events, stated as an abstract broker, are served; the main result is that simulation.
\<close>

section \<open>Data\<close>

text \<open>\<open>struct mg_mqtt_topic_expression\<close>: the block that the topic is copied to, and the quality of service.\<close>

record topic_expression =
  te_topic :: "byte list"
  te_qos :: byte

text \<open>
  \<open>struct mg_mqtt_session\<close>. \<open>ms_subscriptions\<close> are the \<open>num_subscriptions\<close> entries that were written and \<open>ms_allocated\<close> is the number that the
  array has room for. The \<open>user_data\<close> of a session is not read.
\<close>

record mqtt_session =
  ms_next :: "nat option"
  ms_prev :: "nat option"
  ms_nc :: nat
  ms_subscriptions :: "topic_expression list"
  ms_allocated :: nat

text \<open>The \<open>user_data\<close> of a connection: that of its listener, which is the broker, until it points to a session.\<close>

datatype user_data = Broker_data | Session_data nat

record mqtt_conn =
  mc_user_data :: user_data
  mc_send :: "byte list"

record mqtt_broker =
  bk_heap :: "nat \<Rightarrow> mqtt_session option"
  bk_sessions :: "nat option"
  bk_conns :: "nat \<Rightarrow> mqtt_conn option"

definition mg_mqtt_broker_init :: mqtt_broker where
  "mg_mqtt_broker_init = \<lparr>bk_heap = Map.empty, bk_sessions = None, bk_conns = Map.empty\<rparr>"

definition put_session :: "nat \<Rightarrow> (mqtt_session \<Rightarrow> mqtt_session) \<Rightarrow> mqtt_broker \<Rightarrow> mqtt_broker option" where
  "put_session a f brk = do { s \<leftarrow> bk_heap brk a; Some (brk\<lparr>bk_heap := (bk_heap brk)(a \<mapsto> f s)\<rparr>) }"

definition put_at :: "nat option \<Rightarrow> (mqtt_session \<Rightarrow> mqtt_session) \<Rightarrow> mqtt_broker \<Rightarrow> mqtt_broker option" where
  "put_at p f brk = (case p of None \<Rightarrow> Some brk | Some a \<Rightarrow> put_session a f brk)"

section \<open>Sessions\<close>

definition mg_mqtt_session_init :: "nat \<Rightarrow> mqtt_session" where
  "mg_mqtt_session_init nc = \<lparr>ms_next = None, ms_prev = None, ms_nc = nc, ms_subscriptions = [], ms_allocated = 0\<rparr>"

definition mg_mqtt_add_session :: "nat \<Rightarrow> mqtt_broker \<Rightarrow> mqtt_broker option" where
  "mg_mqtt_add_session a brk = do {
     let old = bk_sessions brk;
     brk \<leftarrow> put_session a (\<lambda>s. s\<lparr>ms_next := old, ms_prev := None\<rparr>) (brk\<lparr>bk_sessions := Some a\<rparr>);
     put_at old (\<lambda>s. s\<lparr>ms_prev := Some a\<rparr>) brk
   }"

definition mg_mqtt_remove_session :: "nat \<Rightarrow> mqtt_broker \<Rightarrow> mqtt_broker option" where
  "mg_mqtt_remove_session a brk = do {
     s \<leftarrow> bk_heap brk a;
     let brk = (if ms_prev s = None then brk\<lparr>bk_sessions := ms_next s\<rparr> else brk);
     brk \<leftarrow> put_at (ms_prev s) (\<lambda>p. p\<lparr>ms_next := ms_next s\<rparr>) brk;
     put_at (ms_next s) (\<lambda>n. n\<lparr>ms_prev := ms_prev s\<rparr>) brk
   }"

definition mg_mqtt_destroy_session :: "nat \<Rightarrow> mqtt_broker \<Rightarrow> mqtt_broker" where
  "mg_mqtt_destroy_session a brk = brk\<lparr>bk_heap := (bk_heap brk)(a := None)\<rparr>"

definition mg_mqtt_close_session :: "nat \<Rightarrow> mqtt_broker \<Rightarrow> mqtt_broker option" where
  "mg_mqtt_close_session a brk = map_option (mg_mqtt_destroy_session a) (mg_mqtt_remove_session a brk)"

section \<open>Handlers\<close>

text \<open>A packet to a connection.\<close>

definition send_to :: "nat \<Rightarrow> (byte list \<Rightarrow> byte list option) \<Rightarrow> mqtt_broker \<Rightarrow> mqtt_broker option" where
  "send_to nc packet brk = do {
     c \<leftarrow> bk_conns brk nc;
     sb \<leftarrow> packet (mc_send c);
     Some (brk\<lparr>bk_conns := (bk_conns brk)(nc \<mapsto> c\<lparr>mc_send := sb\<rparr>)\<rparr>)
   }"

text \<open>\<open>malloc\<close> gives an address that is not in use, or fails.\<close>

definition mg_mqtt_broker_handle_connect :: "nat option \<Rightarrow> nat \<Rightarrow> mqtt_broker \<Rightarrow> mqtt_broker option" where
  "mg_mqtt_broker_handle_connect block nc brk = (case block of
     None \<Rightarrow> send_to nc (\<lambda>sb. mg_mqtt_connack sb 3) brk
   | Some a \<Rightarrow> do {
       c \<leftarrow> bk_conns brk nc;
       let brk = brk\<lparr>bk_heap := (bk_heap brk)(a \<mapsto> mg_mqtt_session_init nc)\<rparr>;
       let brk = brk\<lparr>bk_conns := (bk_conns brk)(nc \<mapsto> c\<lparr>mc_user_data := Session_data a\<rparr>)\<rparr>;
       brk \<leftarrow> mg_mqtt_add_session a brk;
       send_to nc (\<lambda>sb. mg_mqtt_connack sb 0) brk
     })"

text \<open>
  \<open>strncpy\<close> of one byte more than the topic has: a NUL in the topic ends it, and otherwise the byte behind the topic, which is the
  quality of service, is copied too.
\<close>

definition copied_topic :: "byte list \<Rightarrow> byte \<Rightarrow> byte list" where
  "copied_topic topic qos =
     (let t = takeWhile (\<lambda>c. c \<noteq> 0) (topic @ [qos]) in t @ replicate (length topic + 1 - length t) 0)"

text \<open>
  The array is reallocated for the topics of this packet only, and the new entries are written behind the old ones; \<open>ok\<close> tells that the allocations succeed,
  which the code does not check. \<open>qoss\<close> has 512 bytes.
\<close>

definition mg_mqtt_broker_handle_subscribe :: "bool \<Rightarrow> nat \<Rightarrow> mqtt_message \<Rightarrow> mqtt_broker \<Rightarrow> mqtt_broker option" where
  "mg_mqtt_broker_handle_subscribe ok nc msg brk = do {
     c \<leftarrow> bk_conns brk nc;
     a \<leftarrow> (case mc_user_data c of Broker_data \<Rightarrow> None | Session_data a \<Rightarrow> Some a);
     ss \<leftarrow> bk_heap brk a;
     topics \<leftarrow> mqtt_subscribe_topics (mm_payload msg) 0;
     (if 512 < length topics then None else Some ());
     let subs = ms_subscriptions ss @ map (\<lambda>(t, q). \<lparr>te_topic = copied_topic t q, te_qos = q\<rparr>) topics;
     (if topics \<noteq> [] \<and> (\<not> ok \<or> length topics < length subs) then None else Some ());
     brk \<leftarrow> put_session a (\<lambda>s. s\<lparr>ms_subscriptions := subs, ms_allocated := length topics\<rparr>) brk;
     send_to nc (\<lambda>sb. mg_mqtt_suback sb (map snd topics) (mm_message_id msg)) brk
   }"

text \<open>The string in a block: \<open>None\<close> when no NUL ends it.\<close>

definition c_string :: "byte list \<Rightarrow> byte list option" where
  "c_string block = (if 0 \<in> set block then Some (takeWhile (\<lambda>c. c \<noteq> 0) block) else None)"

text \<open>\<open>strncmp\<close> of two strings without NUL is zero when they agree in their first \<open>n\<close> bytes. A negative length becomes a large \<open>size_t\<close>.\<close>

definition mg_mqtt_match_topic_expression :: "byte list \<Rightarrow> byte list \<Rightarrow> bool option" where
  "mg_mqtt_match_topic_expression exp topic = do {
     exp \<leftarrow> c_string exp;
     let len = (if of_char CHR ''#'' \<in> set exp then int (length exp) - 2 else int (length exp));
     let n = unat (of_int len :: u64);
     Some (take n exp = take n topic)
   }"

fun match_any :: "nat \<Rightarrow> nat \<Rightarrow> topic_expression list \<Rightarrow> byte list option \<Rightarrow> bool option" where
  "match_any allocated i [] topic = Some False"
| "match_any allocated i (te # tes) topic =
     (if allocated \<le> i then None
      else do {
        t \<leftarrow> topic;
        m \<leftarrow> mg_mqtt_match_topic_expression (te_topic te) t;
        if m then Some True else match_any allocated (i + 1) tes topic
      })"

partial_function (option) publish_from :: "nat option \<Rightarrow> mqtt_message \<Rightarrow> mqtt_broker \<Rightarrow> mqtt_broker option" where
  "publish_from s msg brk = (case s of
     None \<Rightarrow> Some brk
   | Some a \<Rightarrow> do {
       ss \<leftarrow> bk_heap brk a;
       m \<leftarrow> match_any (ms_allocated ss) 0 (ms_subscriptions ss) (mm_topic msg);
       brk \<leftarrow> (if m then send_to (ms_nc ss) (\<lambda>sb. mg_mqtt_publish sb (the (mm_topic msg)) 0 0 (mm_payload msg)) brk else Some brk);
       publish_from (ms_next ss) msg brk
     })"

definition mg_mqtt_broker_handle_publish :: "mqtt_message \<Rightarrow> mqtt_broker \<Rightarrow> mqtt_broker option" where
  "mg_mqtt_broker_handle_publish msg brk = publish_from (bk_sessions brk) msg brk"

section \<open>Events\<close>

text \<open>
  What happens to an accepted connection. \<open>Ev_accept\<close> includes \<open>mg_if_accept_new_conn\<close>, which copies the \<open>user_data\<close> of the listener, and after \<open>Ev_close\<close> the
  connection is gone. \<open>Ev_connect\<close> and \<open>Ev_subscribe\<close> tell whether allocations succeed; \<open>fresh\<close> gives the address of a new session.
\<close>

datatype mqtt_event = Ev_accept nat | Ev_connect nat bool | Ev_subscribe nat mqtt_message bool | Ev_publish nat mqtt_message | Ev_close nat

definition mg_mqtt_broker :: "((nat \<Rightarrow> mqtt_session option) \<Rightarrow> nat) \<Rightarrow> mqtt_event \<Rightarrow> mqtt_broker \<Rightarrow> mqtt_broker option" where
  "mg_mqtt_broker fresh ev brk = (case ev of
     Ev_accept nc \<Rightarrow> Some (brk\<lparr>bk_conns := (bk_conns brk)(nc \<mapsto> \<lparr>mc_user_data = Broker_data, mc_send = []\<rparr>)\<rparr>)
   | Ev_connect nc ok \<Rightarrow> mg_mqtt_broker_handle_connect (if ok then Some (fresh (bk_heap brk)) else None) nc brk
   | Ev_subscribe nc msg ok \<Rightarrow> mg_mqtt_broker_handle_subscribe ok nc msg brk
   | Ev_publish nc msg \<Rightarrow> mg_mqtt_broker_handle_publish msg brk
   | Ev_close nc \<Rightarrow> do {
       c \<leftarrow> bk_conns brk nc;
       a \<leftarrow> (case mc_user_data c of Broker_data \<Rightarrow> None | Session_data a \<Rightarrow> Some a);
       brk \<leftarrow> mg_mqtt_close_session a brk;
       Some (brk\<lparr>bk_conns := (bk_conns brk)(nc := None)\<rparr>)
     })"

fun broker_run :: "((nat \<Rightarrow> mqtt_session option) \<Rightarrow> nat) \<Rightarrow> mqtt_event list \<Rightarrow> mqtt_broker \<Rightarrow> mqtt_broker option" where
  "broker_run fresh [] brk = Some brk"
| "broker_run fresh (ev # evs) brk = mg_mqtt_broker fresh ev brk \<bind> broker_run fresh evs"

section \<open>The abstract broker\<close>

text \<open>
  Connections that wait for their first packet, the sessions from the newest on with the topics of their clients, and what was sent to each connection.
\<close>

record abroker =
  ab_waiting :: "nat list"
  ab_sessions :: "(nat \<times> byte list list) list"
  ab_sent :: "nat \<Rightarrow> byte list"

definition abroker0 :: abroker where
  "abroker0 = \<lparr>ab_waiting = [], ab_sessions = [], ab_sent = (\<lambda>nc. [])\<rparr>"

text \<open>
  What the broker takes for a match: a topic that begins with the expression, and for an expression with a wildcard one that begins with the expression without its last
  two characters; a wildcard alone matches itself only.
\<close>

definition topic_matches :: "byte list \<Rightarrow> byte list \<Rightarrow> bool" where
  "topic_matches e t \<longleftrightarrow>
     (if of_char CHR ''#'' \<notin> set e then take (length e) t = e
      else if length e < 2 then t = e else take (length e - 2) t = take (length e - 2) e)"

definition subscribed :: "abroker \<Rightarrow> nat \<Rightarrow> byte list \<Rightarrow> bool" where
  "subscribed ab nc t \<longleftrightarrow> (\<exists>(n, es) \<in> set (ab_sessions ab). n = nc \<and> (\<exists>e \<in> set es. topic_matches e t))"

definition publish_packet :: "byte list \<Rightarrow> byte list \<Rightarrow> byte list" where
  "publish_packet t data = mqtt_frame 3 0 (be16 (of_nat (length t)) @ t @ data)"

text \<open>
  The events in an order that is served: a connection is accepted, sends one \<open>CONNECT\<close>, at most one \<open>SUBSCRIBE\<close> with topics, at most 512 of
  them and all of them without quality of service, and is closed after its \<open>CONNECT\<close>. A topic has a length of 16 bits.
\<close>

definition ab_step :: "mqtt_event \<Rightarrow> abroker \<Rightarrow> abroker option" where
  "ab_step ev ab = (case ev of
     Ev_accept nc \<Rightarrow>
       if nc \<in> set (ab_waiting ab) \<union> fst ` set (ab_sessions ab) then None
       else Some (ab\<lparr>ab_waiting := nc # ab_waiting ab, ab_sent := (ab_sent ab)(nc := [])\<rparr>)
   | Ev_connect nc ok \<Rightarrow>
       if nc \<notin> set (ab_waiting ab) then None
       else if ok then Some (ab\<lparr>ab_waiting := removeAll nc (ab_waiting ab), ab_sessions := (nc, []) # ab_sessions ab,
         ab_sent := (ab_sent ab)(nc := ab_sent ab nc @ mqtt_frame 2 0 [0, 0])\<rparr>)
       else Some (ab\<lparr>ab_sent := (ab_sent ab)(nc := ab_sent ab nc @ mqtt_frame 2 0 [0, 3])\<rparr>)
   | Ev_subscribe nc msg ok \<Rightarrow> (case mqtt_subscribe_topics (mm_payload msg) 0 of
       None \<Rightarrow> None
     | Some ts \<Rightarrow>
         if (nc, []) \<in> set (ab_sessions ab) \<and> ok \<and> length ts \<le> 512 \<and> list_all (\<lambda>(t, q). q = 0) ts
         then Some (ab\<lparr>ab_sessions := map (\<lambda>(n, es). (n, if n = nc then map (\<lambda>(t, q). takeWhile (\<lambda>c. c \<noteq> 0) t) ts else es)) (ab_sessions ab),
           ab_sent := (ab_sent ab)(nc := ab_sent ab nc @ mqtt_frame 9 (MG_MQTT_QOS 1) (be16 (mm_message_id msg) @ map snd ts))\<rparr>)
         else None)
   | Ev_publish nc msg \<Rightarrow> (case mm_topic msg of
       None \<Rightarrow> None
     | Some t \<Rightarrow>
         if length t < 2 ^ 16
         then Some (ab\<lparr>ab_sent := (\<lambda>n. if subscribed ab n t then ab_sent ab n @ publish_packet t (mm_payload msg) else ab_sent ab n)\<rparr>)
         else None)
   | Ev_close nc \<Rightarrow>
       if nc \<in> fst ` set (ab_sessions ab) then Some (ab\<lparr>ab_sessions := filter (\<lambda>(n, es). n \<noteq> nc) (ab_sessions ab)\<rparr>)
       else None)"

fun ab_run :: "mqtt_event list \<Rightarrow> abroker \<Rightarrow> abroker option" where
  "ab_run [] ab = Some ab"
| "ab_run (ev # evs) ab = ab_step ev ab \<bind> ab_run evs"

section \<open>The list of sessions\<close>

text \<open>A segment of the list, from \<open>h\<close> with the predecessor \<open>p\<close> to the last node \<open>q\<close> with the successor \<open>n\<close>.\<close>

fun seg :: "(nat \<Rightarrow> mqtt_session option) \<Rightarrow> nat option \<Rightarrow> nat option \<Rightarrow> nat list \<Rightarrow> nat option \<Rightarrow> nat option \<Rightarrow> bool" where
  "seg H p h [] q n \<longleftrightarrow> p = q \<and> h = n"
| "seg H p h (a # as) q n \<longleftrightarrow> h = Some a \<and> (\<exists>s. H a = Some s \<and> ms_prev s = p \<and> seg H (Some a) (ms_next s) as q n)"

lemma seg_append: "seg H p h (xs @ ys) q n \<longleftrightarrow> (\<exists>r m. seg H p h xs r m \<and> seg H r m ys q n)"
  by (induction xs arbitrary: p h) auto

lemma seg_frame:
  assumes "\<And>a. a \<in> set as \<Longrightarrow> map_option (\<lambda>s. (ms_prev s, ms_next s)) (H' a) = map_option (\<lambda>s. (ms_prev s, ms_next s)) (H a)"
  shows "seg H p h as q n \<Longrightarrow> seg H' p h as q n"
  using assms
proof (induction as arbitrary: p h)
  case (Cons a as)
  from Cons.prems(1) obtain s where s: "h = Some a" "H a = Some s" "ms_prev s = p" "seg H (Some a) (ms_next s) as q n"
    by auto
  moreover obtain s' where "H' a = Some s'" "ms_prev s' = ms_prev s" "ms_next s' = ms_next s"
    using Cons.prems(2) [of a] s(2) by auto
  moreover have "seg H' (Some a) (ms_next s) as q n"
    using Cons s(4) by auto
  ultimately show ?case
    by simp
qed simp

lemma seg_upd: "a \<notin> set as \<Longrightarrow> seg H p h as q n \<Longrightarrow> seg (H(a := x)) p h as q n"
  by (rule seg_frame) auto

lemma seg_set_next:
  assumes "seg H p h (xs @ [b]) q n" "b \<notin> set xs" "H b = Some s"
  shows "seg (H(b \<mapsto> s\<lparr>ms_next := m\<rparr>)) p h (xs @ [b]) (Some b) m"
  using assms by (auto simp: seg_append intro!: exI seg_upd)

lemma seg_set_prev:
  assumes "seg H p h (b # ys) q n" "b \<notin> set ys" "H b = Some s"
  shows "seg (H(b \<mapsto> s\<lparr>ms_prev := r\<rparr>)) r (Some b) (b # ys) q n"
  using assms by (auto intro: seg_upd)

lemma seg_last: "seg H p h as q n \<Longrightarrow> q = (if as = [] then p else Some (last as))"
  by (induction as arbitrary: p h) auto

lemma seg_head: "seg H p h as q n \<Longrightarrow> h = (if as = [] then n else Some (hd as))"
  by (cases as) auto

lemma seg_ends: "seg H p h (xs @ a # ys) q n \<Longrightarrow> H a = Some s
    \<Longrightarrow> ms_prev s = (if xs = [] then p else Some (last xs)) \<and> ms_next s = (if ys = [] then n else Some (hd ys))"
  by (auto simp: seg_append dest: seg_last seg_head)

text \<open>The part of a session that the links do not concern.\<close>

definition core :: "mqtt_session \<Rightarrow> nat \<times> topic_expression list \<times> nat" where
  "core s = (ms_nc s, ms_subscriptions s, ms_allocated s)"

lemma core_links [simp]: "core (s\<lparr>ms_next := x\<rparr>) = core s" "core (s\<lparr>ms_prev := y\<rparr>) = core s" "core (s\<lparr>ms_next := x, ms_prev := y\<rparr>) = core s"
  by (simp_all add: core_def)

lemma close_session_list:
  assumes "seg (bk_heap brk) None (bk_sessions brk) (xs @ a # ys) q None" "distinct (xs @ a # ys)"
  shows "\<exists>brk' q'. mg_mqtt_close_session a brk = Some brk' \<and> seg (bk_heap brk') None (bk_sessions brk') (xs @ ys) q' None
    \<and> bk_heap brk' a = None \<and> (\<forall>b. b \<noteq> a \<longrightarrow> map_option core (bk_heap brk' b) = map_option core (bk_heap brk b)) \<and> bk_conns brk' = bk_conns brk"
proof -
  let ?H = "bk_heap brk"
  obtain r m where x: "seg ?H None (bk_sessions brk) xs r m" and y: "seg ?H r m (a # ys) q None"
    using assms(1) by (auto simp: seg_append)
  obtain s where s: "?H a = Some s" "ms_prev s = r" "m = Some a" "seg ?H (Some a) (ms_next s) ys q None"
    using y by auto
  define H1 where "H1 = (if xs = [] then ?H else ?H(last xs \<mapsto> (the (?H (last xs)))\<lparr>ms_next := ms_next s\<rparr>))"
  define h1 where "h1 = (if xs = [] then ms_next s else bk_sessions brk)"
  have r: "r = (if xs = [] then None else Some (last xs))"
    using seg_last [OF x] by simp
  have lx: "xs \<noteq> [] \<Longrightarrow> \<exists>p. ?H (last xs) = Some p"
    using x by (cases xs rule: rev_cases) (auto simp: seg_append)
  have x1: "seg H1 None h1 xs r (ms_next s)"
  proof (cases xs rule: rev_cases)
    case Nil
    then show ?thesis
      using x r by (simp add: h1_def)
  next
    case (snoc zs b)
    then show ?thesis
      using seg_set_next [of ?H None "bk_sessions brk" zs b r m] x lx assms(2) r by (auto simp: H1_def h1_def)
  qed
  have y1: "seg H1 (Some a) (ms_next s) ys q None"
    using s(4) assms(2) by (cases xs rule: rev_cases) (auto simp: H1_def intro: seg_upd)
  define H2 where "H2 = (if ys = [] then H1 else H1(hd ys \<mapsto> (the (H1 (hd ys)))\<lparr>ms_prev := r\<rparr>))"
  have hy: "ms_next s = (if ys = [] then None else Some (hd ys))" "ys \<noteq> [] \<Longrightarrow> \<exists>n. H1 (hd ys) = Some n"
    using seg_head [OF y1] y1 by (auto simp: neq_Nil_conv)
  have y2: "\<exists>q'. seg H2 r (ms_next s) ys q' None"
  proof (cases ys)
    case Nil
    then show ?thesis
      using hy by (simp add: H2_def)
  next
    case (Cons b zs)
    then show ?thesis
      using y1 assms(2) by (auto simp: H2_def intro!: exI [of _ q] seg_upd)
  qed
  have x2: "seg H2 None h1 xs r (ms_next s)"
    using x1 assms(2) by (cases ys) (auto simp: H2_def intro: seg_upd)
  obtain q' where "seg H2 None h1 (xs @ ys) q' None"
    using x2 y2 seg_append by blast
  then have l: "seg (H2(a := None)) None h1 (xs @ ys) q' None"
    using assms(2) by (intro seg_upd) auto
  obtain p n where pn: "xs \<noteq> [] \<Longrightarrow> ?H (last xs) = Some p" "ys \<noteq> [] \<Longrightarrow> H1 (hd ys) = Some n"
    using lx hy(2) by meson
  have "put_at (ms_prev s) (\<lambda>p. p\<lparr>ms_next := ms_next s\<rparr>) (if ms_prev s = None then brk\<lparr>bk_sessions := ms_next s\<rparr> else brk)
      = Some (brk\<lparr>bk_heap := H1, bk_sessions := h1\<rparr>)"
    using s(2) r pn(1) by (simp add: put_at_def put_session_def H1_def h1_def)
  moreover have "put_at (ms_next s) (\<lambda>n. n\<lparr>ms_prev := ms_prev s\<rparr>) (brk\<lparr>bk_heap := H1, bk_sessions := h1\<rparr>) = Some (brk\<lparr>bk_heap := H2, bk_sessions := h1\<rparr>)"
    using s(2) hy(1) pn(2) by (simp add: put_at_def put_session_def H2_def)
  ultimately have "mg_mqtt_remove_session a brk = Some (brk\<lparr>bk_heap := H2, bk_sessions := h1\<rparr>)"
    using s(1) by (simp add: mg_mqtt_remove_session_def Let_def)
  moreover have "map_option core (H1 b) = map_option core (?H b)" for b
    using pn(1) by (simp add: H1_def)
  moreover have "map_option core (H2 b) = map_option core (H1 b)" for b
    using pn(2) by (simp add: H2_def)
  ultimately show ?thesis
    using l by (auto simp: mg_mqtt_close_session_def mg_mqtt_destroy_session_def)
qed

lemma add_session_list:
  assumes "seg (bk_heap brk) None (bk_sessions brk) as q None" "bk_heap brk a = Some s" "a \<notin> set as" "distinct as"
  shows "\<exists>brk' q'. mg_mqtt_add_session a brk = Some brk' \<and> seg (bk_heap brk') None (bk_sessions brk') (a # as) q' None
    \<and> (\<forall>b. map_option core (bk_heap brk' b) = map_option core (bk_heap brk b)) \<and> bk_conns brk' = bk_conns brk"
proof -
  let ?H = "bk_heap brk" and ?h = "bk_sessions brk"
  let ?H1 = "?H(a \<mapsto> s\<lparr>ms_next := ?h, ms_prev := None\<rparr>)"
  have l: "seg ?H1 None ?h as q None"
    using assms(1,3) by (intro seg_upd)
  show ?thesis
  proof (cases as)
    case Nil
    then show ?thesis
      using assms by (auto simp: mg_mqtt_add_session_def put_session_def put_at_def)
  next
    case (Cons b bs)
    then obtain sb where b: "?h = Some b" "?H b = Some sb" "a \<noteq> b"
      using assms(1,3) by auto
    let ?H2 = "?H1(b \<mapsto> sb\<lparr>ms_prev := Some a\<rparr>)"
    have "seg ?H2 (Some a) (Some b) as q None"
      using seg_set_prev [of ?H1 None ?h b bs q None sb "Some a"] l b assms(4) Cons by simp
    then have "seg ?H2 None (Some a) (a # as) q None"
      using b by simp
    moreover have "mg_mqtt_add_session a brk = Some (brk\<lparr>bk_heap := ?H2, bk_sessions := Some a\<rparr>)"
      using assms(2) b by (simp add: mg_mqtt_add_session_def put_session_def put_at_def)
    ultimately show ?thesis
      using assms(2) b by auto
  qed
qed

section \<open>Packets and matches\<close>

lemma packets:
  "mg_mqtt_connack sb c = Some (sb @ mqtt_frame 2 0 [0, c])"
  "mg_mqtt_publish sb t 0 0 data = Some (sb @ publish_packet t data)"
  "mg_mqtt_suback sb qs i = Some (sb @ mqtt_frame 9 (MG_MQTT_QOS 1) (be16 i @ qs))"
proof -
  show "mg_mqtt_connack sb c = Some (sb @ mqtt_frame 2 0 [0, c])"
    using prepend_frame [of 2 "[0, c]" sb] by (simp add: mg_mqtt_connack_def mg_send_def)
  show "mg_mqtt_publish sb t 0 0 data = Some (sb @ publish_packet t data)"
    using prepend_frame [of _ "be16 (of_nat (length t)) @ t @ data" sb]
    by (simp add: mg_mqtt_publish_def mg_send_def publish_packet_def MG_MQTT_GET_QOS_def Let_def)
  have "foldl (\<lambda>sb q. mg_send sb [q]) sb qs = sb @ qs" for sb
    by (induction qs arbitrary: sb) (simp_all add: mg_send_def)
  then show "mg_mqtt_suback sb qs i = Some (sb @ mqtt_frame 9 (MG_MQTT_QOS 1) (be16 i @ qs))"
    using prepend_frame [of _ "be16 i @ qs" sb] by (simp add: mg_mqtt_suback_def mg_send_def Let_def)
qed

text \<open>The text of a block that a NUL ends.\<close>

definition block_text :: "byte list \<Rightarrow> byte list" where
  "block_text block = takeWhile (\<lambda>c. c \<noteq> 0) block"

lemma take_unat_long: "int (length e) < 2 ^ 63 \<Longrightarrow> int (length t) < 2 ^ 63 \<Longrightarrow> n = - 1 \<Longrightarrow> take (unat (of_int n :: u64)) e = take (unat (of_int n :: u64)) t \<longleftrightarrow> e = t"
proof -
  have "unat (- 1 :: u64) = 2 ^ 64 - 1"
    by (simp add: unsigned_minus_1_eq_mask mask_eq_exp_minus_1)
  then show "int (length e) < 2 ^ 63 \<Longrightarrow> int (length t) < 2 ^ 63 \<Longrightarrow> n = - 1 \<Longrightarrow> ?thesis"
    by simp
qed

lemma match_text:
  assumes "0 \<in> set block" "length block < 2 ^ 62" "length t < 2 ^ 62"
  shows "mg_mqtt_match_topic_expression block t = Some (topic_matches (block_text block) t)"
proof -
  let ?e = "block_text block"
  have l: "length ?e < 2 ^ 62"
    using assms(2) length_takeWhile_le [of "\<lambda>c. c \<noteq> 0" block] unfolding block_text_def by linarith
  have u: "unat (of_int (int n) :: u64) = n" if "n < 2 ^ 62" for n
    using that by (simp add: unat_of_nat)
  have s: "c_string block = Some ?e"
    using assms(1) by (simp add: c_string_def block_text_def)
  show ?thesis
  proof (cases "of_char CHR ''#'' \<in> set ?e")
    case False
    then show ?thesis
      using u [OF l] s by (auto simp: mg_mqtt_match_topic_expression_def topic_matches_def Let_def)
  next
    case True
    then have "?e \<noteq> []"
      by auto
    show ?thesis
    proof (cases "length ?e < 2")
      case L: True
      then have "int (length ?e) - 2 = - 1"
        using \<open>?e \<noteq> []\<close> by (cases ?e) auto
      then show ?thesis
        using True L s take_unat_long [of ?e t "- 1"] l assms(3) by (auto simp: mg_mqtt_match_topic_expression_def topic_matches_def Let_def)
    next
      case L: False
      then have "int (length ?e) - 2 = int (length ?e - 2)"
        by simp
      then show ?thesis
        using True L s u [of "length ?e - 2"] l unfolding mg_mqtt_match_topic_expression_def topic_matches_def Let_def by auto
    qed
  qed
qed

text \<open>Subscriptions that were written inside of their array and end with a NUL, and what the client sees of a session.\<close>

fun core_ok :: "nat \<times> topic_expression list \<times> nat \<Rightarrow> bool" where
  "core_ok (nc, subs, allocated) \<longleftrightarrow> length subs \<le> allocated \<and> (\<forall>te \<in> set subs. 0 \<in> set (te_topic te) \<and> length (te_topic te) < 2 ^ 62)"

fun core_view :: "nat \<times> topic_expression list \<times> nat \<Rightarrow> nat \<times> byte list list" where
  "core_view (nc, subs, allocated) = (nc, map (\<lambda>te. block_text (te_topic te)) subs)"

lemma fst_core_view [simp]: "fst (core_view k) = fst k"
  by (cases k) simp

lemma match_any_eq:
  assumes "i + length tes \<le> allocated" "\<forall>te \<in> set tes. 0 \<in> set (te_topic te) \<and> length (te_topic te) < 2 ^ 62" "length t < 2 ^ 62"
  shows "match_any allocated i tes (Some t) = Some (\<exists>te \<in> set tes. topic_matches (block_text (te_topic te)) t)"
  using assms(1,2)
proof (induction tes arbitrary: i)
  case (Cons te tes)
  then show ?case
    using match_text [of "te_topic te" t] assms(3) by auto
qed simp

section \<open>The simulation\<close>

definition matched :: "byte list \<Rightarrow> mqtt_session \<Rightarrow> bool" where
  "matched t s \<longleftrightarrow> (\<exists>te \<in> set (ms_subscriptions s). topic_matches (block_text (te_topic te)) t)"

definition goes_to :: "(nat \<Rightarrow> mqtt_session option) \<Rightarrow> nat list \<Rightarrow> byte list \<Rightarrow> nat \<Rightarrow> bool" where
  "goes_to H as t nc \<longleftrightarrow> (\<exists>a \<in> set as. ms_nc (the (H a)) = nc \<and> matched t (the (H a)))"

lemma publish_from_eq:
  assumes "seg H p h as q None" "bk_heap brk = H" "distinct (map (\<lambda>a. ms_nc (the (H a))) as)"
    and "\<And>a s. a \<in> set as \<Longrightarrow> H a = Some s \<Longrightarrow> core_ok (core s) \<and> bk_conns brk (ms_nc s) \<noteq> None" and "mm_topic msg = Some t" "length t < 2 ^ 16"
  shows "publish_from h msg brk = Some (brk\<lparr>bk_conns := (\<lambda>nc. map_option (\<lambda>c.
     if goes_to H as t nc
     then c\<lparr>mc_send := mc_send c @ publish_packet t (mm_payload msg)\<rparr> else c) (bk_conns brk nc))\<rparr>)"
  using assms(1-4)
proof (induction as arbitrary: p h brk)
  case Nil
  then show ?case
    by (subst publish_from.simps) (simp add: option.map_ident goes_to_def)
next
  case (Cons a as)
  obtain s where s: "h = Some a" "H a = Some s" "seg H (Some a) (ms_next s) as q None"
    using Cons.prems(1) by auto
  let ?m = "matched t s"
  obtain c where c: "bk_conns brk (ms_nc s) = Some c"
    using Cons.prems(4) [of a s] s(2) by auto
  have m: "match_any (ms_allocated s) 0 (ms_subscriptions s) (mm_topic msg) = Some ?m"
    using match_any_eq [of 0 "ms_subscriptions s" "ms_allocated s" t] Cons.prems(4) [of a s] s(2) assms(5,6) by (simp add: core_def matched_def)
  define brk1 where "brk1 = (if ?m then brk\<lparr>bk_conns := (bk_conns brk)(ms_nc s \<mapsto> c\<lparr>mc_send := mc_send c @ publish_packet t (mm_payload msg)\<rparr>)\<rparr> else brk)"
  have "publish_from h msg brk = publish_from (ms_next s) msg brk1"
    using s m c Cons.prems(2) assms(5) by (subst publish_from.simps) (simp add: send_to_def packets brk1_def)
  also have "publish_from (ms_next s) msg brk1 = Some (brk1\<lparr>bk_conns := (\<lambda>nc. map_option (\<lambda>c.
     if goes_to H as t nc
     then c\<lparr>mc_send := mc_send c @ publish_packet t (mm_payload msg)\<rparr> else c) (bk_conns brk1 nc))\<rparr>)"
  proof (rule Cons.IH [OF s(3)])
    show "bk_heap brk1 = H" "distinct (map (\<lambda>a. ms_nc (the (H a))) as)"
      using Cons.prems(2,3) by (simp_all add: brk1_def)
    fix b sb
    assume b: "b \<in> set as" "H b = Some sb"
    then have "core_ok (core sb) \<and> bk_conns brk (ms_nc sb) \<noteq> None"
      by (intro Cons.prems(4) [of b]) simp_all
    then show "core_ok (core sb) \<and> bk_conns brk1 (ms_nc sb) \<noteq> None"
      by (auto simp: brk1_def)
  qed
  also have "\<dots> = Some (brk\<lparr>bk_conns := (\<lambda>nc. map_option (\<lambda>c.
     if goes_to H (a # as) t nc
     then c\<lparr>mc_send := mc_send c @ publish_packet t (mm_payload msg)\<rparr> else c) (bk_conns brk nc))\<rparr>)"
  proof -
    have n: "goes_to H (a # as) t nc \<longleftrightarrow> (nc = ms_nc s \<and> ?m) \<or> goes_to H as t nc" "\<not> goes_to H as t (ms_nc s)" for nc
      using s(2) Cons.prems(3) by (force simp: goes_to_def)+
    have "map_option (\<lambda>c. if goes_to H as t nc then c\<lparr>mc_send := mc_send c @ publish_packet t (mm_payload msg)\<rparr> else c) (bk_conns brk1 nc)
        = map_option (\<lambda>c. if goes_to H (a # as) t nc then c\<lparr>mc_send := mc_send c @ publish_packet t (mm_payload msg)\<rparr> else c) (bk_conns brk nc)" for nc
      using n(1) [of nc] n(2) c by (auto simp: brk1_def)
    then show ?thesis
      by (simp add: brk1_def)
  qed
  finally show ?case .
qed

text \<open>Sending to one connection.\<close>

lemma send_to_eq:
  "bk_conns brk nc = Some c \<Longrightarrow> packet (mc_send c) = Some (mc_send c @ d)
    \<Longrightarrow> send_to nc packet brk = Some (brk\<lparr>bk_conns := (bk_conns brk)(nc \<mapsto> c\<lparr>mc_send := mc_send c @ d\<rparr>)\<rparr>)"
  by (simp add: send_to_def)

text \<open>
  The sessions without their links, the connections and the abstract broker belong together: \<open>K\<close> has the contents of the sessions by their address and \<open>as\<close> the
  addresses in the order of the list.
\<close>

definition content :: "(nat \<Rightarrow> (nat \<times> topic_expression list \<times> nat) option) \<Rightarrow> (nat \<Rightarrow> mqtt_conn option) \<Rightarrow> abroker \<Rightarrow> nat list \<Rightarrow> bool" where
  "content K conns ab as \<longleftrightarrow> distinct as \<and> dom K = set as \<and> map (\<lambda>a. core_view (the (K a))) as = ab_sessions ab
     \<and> (\<forall>a k. K a = Some k \<longrightarrow> core_ok k \<and> conns (fst k) = Some \<lparr>mc_user_data = Session_data a, mc_send = ab_sent ab (fst k)\<rparr>)
     \<and> (\<forall>nc \<in> set (ab_waiting ab). conns nc = Some \<lparr>mc_user_data = Broker_data, mc_send = ab_sent ab nc\<rparr>)
     \<and> distinct (ab_waiting ab @ map fst (ab_sessions ab))"

definition broker_rep :: "mqtt_broker \<Rightarrow> abroker \<Rightarrow> nat list \<Rightarrow> bool" where
  "broker_rep brk ab as \<longleftrightarrow> (\<exists>q. seg (bk_heap brk) None (bk_sessions brk) as q None)
     \<and> content (\<lambda>a. map_option core (bk_heap brk a)) (bk_conns brk) ab as"

lemma contentD:
  assumes "content K conns ab as"
  shows "distinct as" "dom K = set as" "map (\<lambda>a. core_view (the (K a))) as = ab_sessions ab"
    "\<And>a k. K a = Some k \<Longrightarrow> core_ok k \<and> conns (fst k) = Some \<lparr>mc_user_data = Session_data a, mc_send = ab_sent ab (fst k)\<rparr>"
    "\<And>nc. nc \<in> set (ab_waiting ab) \<Longrightarrow> conns nc = Some \<lparr>mc_user_data = Broker_data, mc_send = ab_sent ab nc\<rparr>"
    "distinct (ab_waiting ab @ map fst (ab_sessions ab))"
  using assms unfolding content_def by blast+

lemma contentI:
  assumes "distinct as" "dom K = set as" "map (\<lambda>a. core_view (the (K a))) as = ab_sessions ab"
    "\<And>a k. K a = Some k \<Longrightarrow> core_ok k \<and> conns (fst k) = Some \<lparr>mc_user_data = Session_data a, mc_send = ab_sent ab (fst k)\<rparr>"
    "\<And>nc. nc \<in> set (ab_waiting ab) \<Longrightarrow> conns nc = Some \<lparr>mc_user_data = Broker_data, mc_send = ab_sent ab nc\<rparr>"
    "distinct (ab_waiting ab @ map fst (ab_sessions ab))"
  shows "content K conns ab as"
  using assms unfolding content_def by blast

lemma content_sessions:
  assumes "content K conns ab as"
  shows "v \<in> set (ab_sessions ab) \<longleftrightarrow> (\<exists>a k. K a = Some k \<and> core_view k = v)"
proof -
  have "set (ab_sessions ab) = (\<lambda>a. core_view (the (K a))) ` dom K"
    unfolding contentD(3) [OF assms, symmetric] contentD(2) [OF assms] by simp
  then show ?thesis
    by (force simp: dom_def image_iff)
qed

text \<open>Two sessions do not share a connection, and a waiting connection has none.\<close>

lemma content_inj:
  assumes "content K conns ab as" "K a = Some k" "K b = Some k'" "fst k = fst k'"
  shows "a = b"
  using contentD(4) [OF assms(1,2)] contentD(4) [OF assms(1,3)] assms(4) by simp

lemma content_waiting:
  assumes "content K conns ab as" "K a = Some k"
  shows "fst k \<notin> set (ab_waiting ab)"
  using contentD(4) [OF assms] contentD(5) [OF assms(1), of "fst k"] by auto

lemma content_accept:
  assumes "content K conns ab as" "nc \<notin> set (ab_waiting ab)" "nc \<notin> fst ` set (ab_sessions ab)"
  shows "content K (conns(nc \<mapsto> \<lparr>mc_user_data = Broker_data, mc_send = []\<rparr>)) (ab\<lparr>ab_waiting := nc # ab_waiting ab, ab_sent := (ab_sent ab)(nc := [])\<rparr>) as"
proof -
  have "fst k \<noteq> nc" if "K a = Some k" for a k
  proof -
    have "core_view k \<in> set (ab_sessions ab)"
      using content_sessions [OF assms(1), of "core_view k"] that by blast
    then have "fst (core_view k) \<in> fst ` set (ab_sessions ab)"
      by (rule imageI)
    then show ?thesis
      using assms(3) by auto
  qed
  then show ?thesis
    using assms unfolding content_def by auto
qed

lemma content_sent:
  assumes "content K conns ab as" "conns nc = Some c"
  shows "content K (conns(nc \<mapsto> c\<lparr>mc_send := mc_send c @ d\<rparr>)) (ab\<lparr>ab_sent := (ab_sent ab)(nc := ab_sent ab nc @ d)\<rparr>) as"
  using assms unfolding content_def by auto

lemma content_connect:
  assumes "content K conns ab as" "nc \<in> set (ab_waiting ab)" "K a = None"
  shows "content (K(a \<mapsto> (nc, [], 0))) (conns(nc \<mapsto> \<lparr>mc_user_data = Session_data a, mc_send = ab_sent ab nc\<rparr>))
    (ab\<lparr>ab_waiting := removeAll nc (ab_waiting ab), ab_sessions := (nc, []) # ab_sessions ab\<rparr>) (a # as)" (is "content ?K ?c ?ab _")
proof (rule contentI)
  note c = contentD [OF assms(1)]
  have a: "a \<notin> set as"
    using c(2) assms(3) by auto
  have new: "nc \<notin> fst ` set (ab_sessions ab)"
    using c(6) assms(2) by auto
  show "distinct (a # as)" "dom ?K = set (a # as)"
    using a c(1,2) by auto
  show "map (\<lambda>b. core_view (the (?K b))) (a # as) = ab_sessions ?ab"
    using a c(3) [symmetric] by auto
  show "core_ok k \<and> ?c (fst k) = Some \<lparr>mc_user_data = Session_data b, mc_send = ab_sent ?ab (fst k)\<rparr>" if "?K b = Some k" for b k
    using that c(4) [of b k] content_waiting [OF assms(1), of b k] assms(2) by (cases "b = a") auto
  show "?c m = Some \<lparr>mc_user_data = Broker_data, mc_send = ab_sent ?ab m\<rparr>" if "m \<in> set (ab_waiting ?ab)" for m
    using that c(5) by auto
  show "distinct (ab_waiting ?ab @ map fst (ab_sessions ?ab))"
    using c(6) new by (auto simp: distinct_removeAll)
qed

lemma content_subscribe:
  assumes "content K conns ab as" "K a = Some (nc, subs, n)" "core_ok (nc, subs', n')"
  shows "content (K(a \<mapsto> (nc, subs', n'))) conns
    (ab\<lparr>ab_sessions := map (\<lambda>(m, es). (m, if m = nc then map (\<lambda>te. block_text (te_topic te)) subs' else es)) (ab_sessions ab)\<rparr>) as"
proof -
  have "core_view (the ((K(a \<mapsto> (nc, subs', n'))) b)) = (\<lambda>(m, es). (m, if m = nc then map (\<lambda>te. block_text (te_topic te)) subs' else es)) (core_view (the (K b)))"
    if "b \<in> set as" for b
  proof (cases "b = a")
    case False
    have "b \<in> dom K"
      using that contentD(2) [OF assms(1)] by simp
    then obtain k where k: "K b = Some k"
      using domD by metis
    then have "fst k \<noteq> nc"
      using False content_inj [OF assms(1) k assms(2)] by auto
    then show ?thesis
      using False k by (cases k) simp
  qed (use assms(2) in simp)
  then have "map (\<lambda>b. core_view (the ((K(a \<mapsto> (nc, subs', n'))) b))) as
      = map (\<lambda>(m, es). (m, if m = nc then map (\<lambda>te. block_text (te_topic te)) subs' else es)) (ab_sessions ab)"
    unfolding contentD(3) [OF assms(1), symmetric] by simp
  moreover have "dom (K(a \<mapsto> (nc, subs', n'))) = set as"
    using contentD(2) [OF assms(1)] assms(2) by auto
  moreover have "map fst (map (\<lambda>(m, es). (m, if m = nc then map (\<lambda>te. block_text (te_topic te)) subs' else es)) (ab_sessions ab)) = map fst (ab_sessions ab)"
    by auto
  moreover have "core_ok k \<and> conns (fst k) = Some \<lparr>mc_user_data = Session_data b, mc_send = ab_sent ab (fst k)\<rparr>" if "(K(a \<mapsto> (nc, subs', n'))) b = Some k" for b k
    using that assms(2,3) contentD(4) [OF assms(1), of b k] contentD(4) [OF assms(1,2)] by (cases "b = a") auto
  ultimately show ?thesis
    using contentD [OF assms(1)] by (intro contentI) (simp_all del: fun_upd_apply map_map)
qed

lemma content_close:
  assumes "content K conns ab (xs @ a # ys)" "K a = Some (nc, subs, n)"
  shows "content (K(a := None)) (conns(nc := None)) (ab\<lparr>ab_sessions := filter (\<lambda>(m, es). m \<noteq> nc) (ab_sessions ab)\<rparr>) (xs @ ys)"
proof -
  note c = contentD [OF assms(1)]
  have other: "fst k \<noteq> nc" if "K b = Some k" "b \<noteq> a" for b k
    using content_inj [OF assms(1) that(1) assms(2)] that(2) by auto
  have "filter (\<lambda>(m, es). m \<noteq> nc) (map (\<lambda>b. core_view (the (K b))) bs) = map (\<lambda>b. core_view (the ((K(a := None)) b))) bs" if "a \<notin> set bs" "set bs \<subseteq> dom K" for bs
    using that
  proof (induction bs)
    case (Cons b bs)
    then obtain k where "K b = Some k"
      by auto
    then show ?case
      using Cons other [of b k] by (cases k) auto
  qed simp
  moreover have "a \<notin> set xs" "a \<notin> set ys" "set xs \<subseteq> dom K" "set ys \<subseteq> dom K"
    using c(1,2) by auto
  ultimately have "map (\<lambda>b. core_view (the ((K(a := None)) b))) (xs @ ys) = filter (\<lambda>(m, es). m \<noteq> nc) (ab_sessions ab)"
    unfolding c(3) [symmetric] using assms(2) by (simp del: fun_upd_apply)
  moreover have "nc \<notin> set (ab_waiting ab)"
    using content_waiting [OF assms] by simp
  moreover have "distinct (map fst (filter (\<lambda>(m, es). m \<noteq> nc) (ab_sessions ab)))"
    using c(6) by (simp add: distinct_map_filter)
  moreover have "core_ok k \<and> (conns(nc := None)) (fst k) = Some \<lparr>mc_user_data = Session_data b, mc_send = ab_sent ab (fst k)\<rparr>" if "(K(a := None)) b = Some k" for b k
    using that other [of b k] c(4) [of b k] by (cases "b = a") auto
  ultimately show ?thesis
    using c by (intro contentI) (auto simp del: map_append)
qed

lemma accept_sim:
  assumes "broker_rep brk ab as" "ab_step (Ev_accept nc) ab = Some ab'"
  shows "\<exists>brk'. mg_mqtt_broker fresh (Ev_accept nc) brk = Some brk' \<and> broker_rep brk' ab' as"
  using assms content_accept by (auto simp: ab_step_def broker_rep_def mg_mqtt_broker_def split: if_splits)

lemma publish_sim:
  assumes "broker_rep brk ab as" "ab_step (Ev_publish nc msg) ab = Some ab'"
  shows "\<exists>brk'. mg_mqtt_broker fresh (Ev_publish nc msg) brk = Some brk' \<and> broker_rep brk' ab' as"
proof -
  obtain t where t: "mm_topic msg = Some t" "length t < 2 ^ 16"
    "ab' = ab\<lparr>ab_sent := (\<lambda>n. if subscribed ab n t then ab_sent ab n @ publish_packet t (mm_payload msg) else ab_sent ab n)\<rparr>"
    using assms(2) by (auto simp: ab_step_def split: option.splits if_splits)
  obtain q where q: "seg (bk_heap brk) None (bk_sessions brk) as q None" and c: "content (\<lambda>a. map_option core (bk_heap brk a)) (bk_conns brk) ab as"
    using assms(1) by (auto simp: broker_rep_def)
  have h: "\<exists>s. bk_heap brk a = Some s" if "a \<in> set as" for a
    using that contentD(2) [OF c] by auto
  then have v: "ab_sessions ab = map (\<lambda>a. core_view (core (the (bk_heap brk a)))) as"
    unfolding contentD(3) [OF c, symmetric] by (intro map_cong) fastforce+
  have d: "distinct (map (\<lambda>a. ms_nc (the (bk_heap brk a))) as)"
    using contentD(6) [OF c] v by (simp add: comp_def core_def)
  have to: "goes_to (bk_heap brk) as t nc \<longleftrightarrow> subscribed ab nc t" for nc
    unfolding subscribed_def goes_to_def matched_def v by (force simp: core_def)
  let ?conns = "\<lambda>nc. map_option (\<lambda>c. if subscribed ab nc t then c\<lparr>mc_send := mc_send c @ publish_packet t (mm_payload msg)\<rparr> else c) (bk_conns brk nc)"
  have "core_ok (core s) \<and> bk_conns brk (ms_nc s) \<noteq> None" if "bk_heap brk a = Some s" for a s
    using contentD(4) [OF c, of a "core s"] that by (simp add: core_def)
  then have "publish_from (bk_sessions brk) msg brk = Some (brk\<lparr>bk_conns := ?conns\<rparr>)"
    unfolding to [symmetric] by (intro publish_from_eq [OF q refl d _ t(1,2)])
  moreover have "content (\<lambda>a. map_option core (bk_heap brk a)) ?conns ab' as"
    using contentD [OF c] t(3) by (intro contentI) auto
  ultimately show ?thesis
    using q by (auto simp: mg_mqtt_broker_def mg_mqtt_broker_handle_publish_def broker_rep_def)
qed

lemma connect_sim:
  assumes "broker_rep brk ab as" "ab_step (Ev_connect nc ok) ab = Some ab'" "\<And>H. finite (dom H) \<Longrightarrow> H (fresh H) = None"
  shows "\<exists>brk' as'. mg_mqtt_broker fresh (Ev_connect nc ok) brk = Some brk' \<and> broker_rep brk' ab' as'"
proof -
  obtain q where q: "seg (bk_heap brk) None (bk_sessions brk) as q None" and c: "content (\<lambda>a. map_option core (bk_heap brk a)) (bk_conns brk) ab as"
    using assms(1) by (auto simp: broker_rep_def)
  have w: "nc \<in> set (ab_waiting ab)"
    using assms(2) by (auto simp: ab_step_def split: if_splits)
  note nc = contentD(5) [OF c w]
  show ?thesis
  proof (cases ok)
    case False
    then have ab': "ab' = ab\<lparr>ab_sent := (ab_sent ab)(nc := ab_sent ab nc @ mqtt_frame 2 0 [0, 3])\<rparr>"
      using assms(2) w by (simp add: ab_step_def)
    show ?thesis
      unfolding ab' using False q content_sent [OF c nc, of "mqtt_frame 2 0 [0, 3]"] send_to_eq [OF nc, of _ "mqtt_frame 2 0 [0, 3]"]
      by (auto simp: mg_mqtt_broker_def mg_mqtt_broker_handle_connect_def packets broker_rep_def)
  next
    case True
    define a where "a = fresh (bk_heap brk)"
    have "dom (bk_heap brk) = set as"
      using contentD(2) [OF c] by (auto simp: dom_def)
    then have a: "bk_heap brk a = None" "a \<notin> set as"
      using assms(3) [of "bk_heap brk"] by (auto simp: a_def)
    define conns where "conns = (bk_conns brk)(nc \<mapsto> \<lparr>mc_user_data = Session_data a, mc_send = ab_sent ab nc\<rparr>)"
    define brk1 where "brk1 = brk\<lparr>bk_heap := (bk_heap brk)(a \<mapsto> mg_mqtt_session_init nc), bk_conns := conns\<rparr>"
    have "seg (bk_heap brk1) None (bk_sessions brk1) as q None"
      using a(2) q by (simp add: brk1_def seg_upd)
    then obtain brk2 q' where brk2: "mg_mqtt_add_session a brk1 = Some brk2" "seg (bk_heap brk2) None (bk_sessions brk2) (a # as) q' None"
      "\<forall>b. map_option core (bk_heap brk2 b) = map_option core (bk_heap brk1 b)" "bk_conns brk2 = conns"
      using add_session_list [of brk1 as q a] a(2) contentD(1) [OF c] by (auto simp: brk1_def)
    let ?ab = "ab\<lparr>ab_waiting := removeAll nc (ab_waiting ab), ab_sessions := (nc, []) # ab_sessions ab\<rparr>"
    have "(\<lambda>b. map_option core (bk_heap brk2 b)) = (\<lambda>b. map_option core (bk_heap brk b))(a \<mapsto> (nc, [], 0))"
      using brk2(3) by (auto simp: brk1_def fun_eq_iff core_def mg_mqtt_session_init_def)
    then have c2: "content (\<lambda>b. map_option core (bk_heap brk2 b)) conns ?ab (a # as)"
      using content_connect [OF c w, of a] a(1) by (simp add: conns_def)
    have n2: "conns nc = Some \<lparr>mc_user_data = Session_data a, mc_send = ab_sent ?ab nc\<rparr>"
      by (simp add: conns_def)
    have "ab' = ?ab\<lparr>ab_sent := (ab_sent ?ab)(nc := ab_sent ?ab nc @ mqtt_frame 2 0 [0, 0])\<rparr>"
      using assms(2) w True by (simp add: ab_step_def)
    then have "broker_rep (brk2\<lparr>bk_conns :=
        conns(nc \<mapsto> \<lparr>mc_user_data = Session_data a, mc_send = ab_sent ab nc @ mqtt_frame 2 0 [0, 0]\<rparr>)\<rparr>) ab' (a # as)"
      using brk2(2) content_sent [OF c2 n2, of "mqtt_frame 2 0 [0, 0]"] by (auto simp: broker_rep_def)
    moreover have "mg_mqtt_broker fresh (Ev_connect nc ok) brk = Some (brk2\<lparr>bk_conns :=
        conns(nc \<mapsto> \<lparr>mc_user_data = Session_data a, mc_send = ab_sent ab nc @ mqtt_frame 2 0 [0, 0]\<rparr>)\<rparr>)"
      using True nc brk2(1,4) n2 a_def
      by (simp add: mg_mqtt_broker_def mg_mqtt_broker_handle_connect_def send_to_def packets brk1_def conns_def)
    ultimately show ?thesis
      by blast
  qed
qed

lemma copied_topic_0: "0 \<in> set (copied_topic t 0) \<and> block_text (copied_topic t 0) = takeWhile (\<lambda>c. c \<noteq> 0) t \<and> length (copied_topic t 0) = length t + 1"
proof -
  let ?u = "takeWhile (\<lambda>c. c \<noteq> 0) (t @ [0])"
  have u: "?u = takeWhile (\<lambda>c. c \<noteq> 0) t" "length ?u \<le> length t"
    using length_takeWhile_le [of "\<lambda>c. c \<noteq> (0 :: byte)" t] by (simp_all add: takeWhile_append takeWhile_eq_all_conv [THEN iffD2])
  have "copied_topic t 0 = ?u @ 0 # replicate (length t - length ?u) 0"
    using u(2) by (simp add: copied_topic_def Let_def Suc_diff_le)
  moreover have "takeWhile (\<lambda>c. c \<noteq> 0) (?u @ 0 # w) = ?u" for w
    by (subst takeWhile_append2) (auto dest: set_takeWhileD)
  ultimately show ?thesis
    using u by (simp add: block_text_def)
qed

lemma subscribe_topic_length: "mqtt_subscribe_topics payload pos = Some ts \<Longrightarrow> (t, q) \<in> set ts \<Longrightarrow> length t < 2 ^ 17"
proof (induction payload pos arbitrary: ts rule: mqtt_subscribe_topics.induct)
  case (1 payload pos)
  have short: "length t < 2 ^ 17" if h: "mg_mqtt_next_subscribe_topic payload pos = Some (Some (t, q, p))" for t q p
  proof -
    obtain x y rest where "t = take (unat (x :: byte) * 256 + unat (y :: byte)) rest"
      using h by (auto simp: mg_mqtt_next_subscribe_topic_def Let_def split: if_splits list.splits)
    then show ?thesis
      using unat_byte_less [of x] unat_byte_less [of y] by simp
  qed
  then show ?case
    using 1 by (subst (asm) (2) mqtt_subscribe_topics.simps) (auto split: option.splits)
qed

lemma subscribe_sim:
  assumes "broker_rep brk ab as" "ab_step (Ev_subscribe nc msg ok) ab = Some ab'"
  shows "\<exists>brk'. mg_mqtt_broker fresh (Ev_subscribe nc msg ok) brk = Some brk' \<and> broker_rep brk' ab' as"
proof -
  obtain q where q: "seg (bk_heap brk) None (bk_sessions brk) as q None" and c: "content (\<lambda>a. map_option core (bk_heap brk a)) (bk_conns brk) ab as"
    using assms(1) by (auto simp: broker_rep_def)
  obtain ts where ts: "mqtt_subscribe_topics (mm_payload msg) 0 = Some ts" "(nc, []) \<in> set (ab_sessions ab)" ok "length ts \<le> 512" "list_all (\<lambda>(t, q). q = 0) ts"
    using assms(2) by (auto simp: ab_step_def split: option.splits if_splits)
  obtain a s where s: "bk_heap brk a = Some s" "ms_nc s = nc" "ms_subscriptions s = []"
    using ts(2) content_sessions [OF c, of "(nc, [])"] by (auto simp: core_def)
  define subs where "subs = map (\<lambda>(t, q). \<lparr>te_topic = copied_topic t q, te_qos = q\<rparr>) ts"
  have te: "0 \<in> set (te_topic te) \<and> length (te_topic te) < 2 ^ 62" if h: "te \<in> set subs" for te
  proof -
    obtain t where "(t, 0) \<in> set ts" "te_topic te = copied_topic t 0"
      using h ts(5) by (fastforce simp: subs_def list_all_iff)
    then show ?thesis
      using copied_topic_0 [of t] subscribe_topic_length [OF ts(1), of t 0] by simp
  qed
  have texts: "map (\<lambda>te. block_text (te_topic te)) subs = map (\<lambda>(t, q). takeWhile (\<lambda>c. c \<noteq> 0) t) ts"
    using ts(5) copied_topic_0 by (auto simp: subs_def list_all_iff)
  let ?H = "(bk_heap brk)(a \<mapsto> s\<lparr>ms_subscriptions := subs, ms_allocated := length ts\<rparr>)"
  let ?ab = "ab\<lparr>ab_sessions := map (\<lambda>(m, es). (m, if m = nc then map (\<lambda>te. block_text (te_topic te)) subs else es)) (ab_sessions ab)\<rparr>"
  have "(\<lambda>b. map_option core (?H b)) = (\<lambda>b. map_option core (bk_heap brk b))(a \<mapsto> (nc, subs, length ts))"
    using s(2) by (auto simp: core_def)
  then have c2: "content (\<lambda>b. map_option core (?H b)) (bk_conns brk) ?ab as"
    using content_subscribe [OF c, of a nc "[]" "ms_allocated s" subs "length ts"] s te by (simp add: core_def subs_def)
  have nc: "bk_conns brk nc = Some \<lparr>mc_user_data = Session_data a, mc_send = ab_sent ?ab nc\<rparr>"
    using contentD(4) [OF c, of a "core s"] s(1,2) by (simp add: core_def)
  let ?d = "mqtt_frame 9 (MG_MQTT_QOS 1) (be16 (mm_message_id msg) @ map snd ts)"
  have "seg ?H None (bk_sessions brk) as q None"
    using s(1) by (intro seg_frame [OF _ q]) auto
  moreover have "ab' = ?ab\<lparr>ab_sent := (ab_sent ?ab)(nc := ab_sent ?ab nc @ ?d)\<rparr>"
    using assms(2) ts unfolding texts by (auto simp: ab_step_def)
  ultimately have "broker_rep (brk\<lparr>bk_heap := ?H, bk_conns := (bk_conns brk)(nc \<mapsto> \<lparr>mc_user_data = Session_data a, mc_send = ab_sent ab nc @ ?d\<rparr>)\<rparr>) ab' as"
    using content_sent [OF c2 nc, of ?d] by (auto simp: broker_rep_def)
  moreover have "mg_mqtt_broker fresh (Ev_subscribe nc msg ok) brk
      = Some (brk\<lparr>bk_heap := ?H, bk_conns := (bk_conns brk)(nc \<mapsto> \<lparr>mc_user_data = Session_data a, mc_send = ab_sent ab nc @ ?d\<rparr>)\<rparr>)"
    using nc s ts(1,3,4)
    by (simp add: mg_mqtt_broker_def mg_mqtt_broker_handle_subscribe_def put_session_def send_to_def packets subs_def)
  ultimately show ?thesis
    by blast
qed

lemma close_sim:
  assumes "broker_rep brk ab as" "ab_step (Ev_close nc) ab = Some ab'"
  shows "\<exists>brk' as'. mg_mqtt_broker fresh (Ev_close nc) brk = Some brk' \<and> broker_rep brk' ab' as'"
proof -
  obtain q where q: "seg (bk_heap brk) None (bk_sessions brk) as q None" and c: "content (\<lambda>a. map_option core (bk_heap brk a)) (bk_conns brk) ab as"
    using assms(1) by (auto simp: broker_rep_def)
  obtain es where "(nc, es) \<in> set (ab_sessions ab)"
    and ab': "ab' = ab\<lparr>ab_sessions := filter (\<lambda>(n, es). n \<noteq> nc) (ab_sessions ab)\<rparr>"
    using assms(2) by (auto simp: ab_step_def split: if_splits)
  then obtain a s where s: "bk_heap brk a = Some s" "ms_nc s = nc"
    using content_sessions [OF c, of "(nc, es)"] by (auto simp: core_def)
  have nc: "bk_conns brk nc = Some \<lparr>mc_user_data = Session_data a, mc_send = ab_sent ab nc\<rparr>"
    using contentD(4) [OF c, of a "core s"] s by (simp add: core_def)
  have "a \<in> set as"
    using contentD(2) [OF c] s(1) by (auto simp: dom_def)
  then obtain xs ys where as: "as = xs @ a # ys"
    by (meson split_list)
  obtain brk1 q' where brk1: "mg_mqtt_close_session a brk = Some brk1" "seg (bk_heap brk1) None (bk_sessions brk1) (xs @ ys) q' None"
    "bk_heap brk1 a = None" "\<forall>b. b \<noteq> a \<longrightarrow> map_option core (bk_heap brk1 b) = map_option core (bk_heap brk b)" "bk_conns brk1 = bk_conns brk"
    using close_session_list [of brk xs a ys q] q contentD(1) [OF c] unfolding as by blast
  have "(\<lambda>b. map_option core (bk_heap brk1 b)) = (\<lambda>b. map_option core (bk_heap brk b))(a := None)"
    using brk1(3,4) by (auto simp: fun_eq_iff)
  then have "content (\<lambda>b. map_option core (bk_heap brk1 b)) ((bk_conns brk)(nc := None)) ab' (xs @ ys)"
    using content_close [OF c [unfolded as], of nc "ms_subscriptions s" "ms_allocated s"] s unfolding ab' by (simp add: core_def)
  then have "broker_rep (brk1\<lparr>bk_conns := (bk_conns brk)(nc := None)\<rparr>) ab' (xs @ ys)"
    using brk1(2) by (auto simp: broker_rep_def)
  moreover have "mg_mqtt_broker fresh (Ev_close nc) brk = Some (brk1\<lparr>bk_conns := (bk_conns brk)(nc := None)\<rparr>)"
    using nc brk1(1,5) by (simp add: mg_mqtt_broker_def)
  ultimately show ?thesis
    by blast
qed

lemma event_sim:
  assumes "broker_rep brk ab as" "ab_step ev ab = Some ab'" "\<And>H. finite (dom H) \<Longrightarrow> H (fresh H) = None"
  shows "\<exists>brk' as'. mg_mqtt_broker fresh ev brk = Some brk' \<and> broker_rep brk' ab' as'"
  using assms accept_sim connect_sim subscribe_sim publish_sim close_sim by (cases ev) meson+

lemma run_sim:
  assumes "\<And>H. finite (dom H) \<Longrightarrow> H (fresh H) = None"
  shows "broker_rep brk ab as \<Longrightarrow> ab_run evs ab = Some ab' \<Longrightarrow> \<exists>brk' as'. broker_run fresh evs brk = Some brk' \<and> broker_rep brk' ab' as'"
proof (induction evs arbitrary: brk ab as)
  case (Cons ev evs)
  then obtain ab1 where ab1: "ab_step ev ab = Some ab1" "ab_run evs ab1 = Some ab'"
    by (auto simp: bind_eq_Some_conv)
  obtain brk1 as1 where "mg_mqtt_broker fresh ev brk = Some brk1" "broker_rep brk1 ab1 as1"
    using event_sim [of brk ab as ev ab1 fresh] Cons.prems(1) ab1(1) assms by blast
  then show ?case
    using Cons.IH [OF _ ab1(2)] by simp
qed auto

lemma broker_rep_init: "broker_rep mg_mqtt_broker_init abroker0 []"
  by (simp add: broker_rep_def content_def mg_mqtt_broker_init_def abroker0_def)


text \<open>Two clients, of which one subscribes; a message of the other reaches it.\<close>

definition sub_message :: mqtt_message where
  "sub_message = mqtt_message0\<lparr>mm_cmd := 8, mm_message_id := 5, mm_payload := [0, 1, 97, 0]\<rparr>"

definition pub_message :: mqtt_message where
  "pub_message = mqtt_message0\<lparr>mm_cmd := 3, mm_topic := Some [97], mm_payload := [1, 2]\<rparr>"

definition sample_events :: "mqtt_event list" where
  "sample_events = [Ev_accept 1, Ev_accept 2, Ev_connect 1 True, Ev_connect 2 True, Ev_subscribe 1 sub_message True, Ev_publish 2 pub_message, Ev_close 2]"


section \<open>Clients that are not served\<close>

text \<open>Closing before the first packet, a second subscription, and a quality of service lead to invalid memory accesses.\<close>

lemma close_before_connect: "mg_mqtt_broker fresh (Ev_accept nc) brk \<bind> mg_mqtt_broker fresh (Ev_close nc) = None"
  by (simp add: mg_mqtt_broker_def)

lemma subscribe_twice:
  assumes "bk_conns brk nc = Some c" "mc_user_data c = Session_data a" "bk_heap brk a = Some s" "ms_subscriptions s \<noteq> []"
    and "mqtt_subscribe_topics (mm_payload msg) 0 = Some ts" "ts \<noteq> []"
  shows "mg_mqtt_broker fresh (Ev_subscribe nc msg ok) brk = None"
  using assms by (simp add: mg_mqtt_broker_def mg_mqtt_broker_handle_subscribe_def)

lemma quality_unterminated:
  assumes "0 \<notin> set topic" "q \<noteq> 0"
  shows "mg_mqtt_match_topic_expression (copied_topic topic q) t = None"
proof -
  have "takeWhile (\<lambda>c. c \<noteq> 0) (topic @ [q]) = topic @ [q]"
    using assms by (intro takeWhile_eq_all_conv [THEN iffD2]) auto
  then show ?thesis
    using assms by (simp add: mg_mqtt_match_topic_expression_def copied_topic_def c_string_def)
qed

end
