(* ===== verification/Dns.thy ===== *)
theory Dns
  imports Prelude
begin

text \<open>
  The DNS module (\<open>mongoose/src/dns.c\<close>) and the reply builder (\<open>dns-server.c\<close>): encoding of
  names, records and headers into a buffer, parsing of packets, expansion of compressed names.
  Pointers into a packet are offsets; every read goes through a check against the end of the
  packet, so that a read behind it shows as \<open>None\<close>.
\<close>

section \<open>Messages\<close>

datatype dns_kind = MG_DNS_INVALID_RECORD | MG_DNS_QUESTION | MG_DNS_ANSWER

text \<open>\<open>struct mg_dns_resource_record\<close>: the two \<open>mg_str\<close> are an offset and a length.\<close>

record dns_rr =
  rr_name :: "nat \<times> nat"
  rr_rtype :: int
  rr_rclass :: int
  rr_ttl :: int
  rr_kind :: dns_kind
  rr_rdata :: "nat \<times> nat"

definition rr0 :: dns_rr where
  "rr0 = \<lparr>rr_name = (0, 0), rr_rtype = 0, rr_rclass = 0, rr_ttl = 0,
     rr_kind = MG_DNS_INVALID_RECORD, rr_rdata = (0, 0)\<rparr>"

text \<open>\<open>struct mg_dns_message\<close>; the lists hold the records that are in use.\<close>

record dns_message =
  dm_pkt :: "byte list"
  dm_flags :: u16
  dm_transaction_id :: u16
  dm_num_questions :: nat
  dm_num_answers :: nat
  dm_questions :: "dns_rr list"
  dm_answers :: "dns_rr list"

definition dns_message0 :: dns_message where
  "dns_message0 = \<lparr>dm_pkt = [], dm_flags = 0, dm_transaction_id = 0, dm_num_questions = 0,
     dm_num_answers = 0, dm_questions = [], dm_answers = []\<rparr>"

section \<open>Encoding\<close>

text \<open>
  \<open>mg_dns_insert_header\<close>: the transaction id is copied as it is in memory (little-endian),
  the other fields go through \<open>htons\<close>.
\<close>

definition dns_header :: "dns_message \<Rightarrow> byte list" where
  "dns_header msg =
     [ucast (dm_transaction_id msg), ucast (drop_bit 8 (dm_transaction_id msg))]
     @ be16 (dm_flags msg) @ be16 (of_nat (dm_num_questions msg)) @ be16 (of_nat (dm_num_answers msg))
     @ [0, 0, 0, 0]"

definition mg_dns_insert_header :: "byte list \<Rightarrow> nat \<Rightarrow> dns_message \<Rightarrow> byte list" where
  "mg_dns_insert_header io pos msg = take pos io @ dns_header msg @ drop pos io"

text \<open>
  \<open>mg_dns_encode_name\<close> on a name that is followed by a NUL: the buffer, and whether every
  label was at most 127 bytes long (what was appended before a longer one stays). \<open>strchr\<close> looks for
  a dot up to the first NUL; without one the rest of the name is the last label.
\<close>

function dns_encode_labels :: "byte list \<Rightarrow> byte list \<Rightarrow> byte list \<times> bool" where
  "dns_encode_labels io name =
     (let dot = (46 \<in> set (takeWhile (\<lambda>c. c \<noteq> 0) name));
          lab = (if dot then takeWhile (\<lambda>c. c \<noteq> 46) name else name)
      in if length lab > 127 then (io, False)
         else let io = io @ [of_nat (length lab)] @ lab
              in if \<not> dot then (io, True) else dns_encode_labels io (drop (Suc (length lab)) name))"
  by pat_completeness auto
termination
proof (relation "measure (\<lambda>(io, name). length name)", goal_cases)
  case (2 io name dot lab io')
  then have "name \<noteq> []"
    by auto
  then show ?case
    by simp
qed simp

declare dns_encode_labels.simps [simp del]

definition mg_dns_encode_name :: "byte list \<Rightarrow> byte list \<Rightarrow> byte list \<times> int" where
  "mg_dns_encode_name io name =
     (let pos = length io; (io, ok) = dns_encode_labels io name
      in if ok then (io @ [0], int (length (io @ [0]) - pos)) else (io, -1))"

definition mg_dns_encode_record ::
  "byte list \<Rightarrow> dns_rr \<Rightarrow> byte list \<Rightarrow> byte list \<Rightarrow> byte list \<times> int" where
  "mg_dns_encode_record io rr name rdata =
     (let pos = length io in
      if rr_kind rr = MG_DNS_INVALID_RECORD then (io, -1)
      else let (io, r) = mg_dns_encode_name io name in
      if r = -1 then (io, -1)
      else let io = io @ be16 (of_int (rr_rtype rr)); io = io @ be16 (of_int (rr_rclass rr)) in
      if rr_kind rr = MG_DNS_ANSWER then
        let io = io @ be32 (of_int (rr_ttl rr)) in
        if rr_rtype rr = 5 then
          let off = length io;
              io = io @ be16 (of_int (rr_rclass rr));
              (io, clen) = mg_dns_encode_name io rdata
          in if clen = -1 then (io, -1)
             else let u = of_int clen :: u16;
                      io = io[off := ucast (drop_bit 8 u), off + 1 := ucast (u AND 255)]
                  in (io, int (length io - pos))
        else let io = io @ be16 (of_nat (length rdata)); io = io @ rdata
             in (io, int (length io - pos))
      else (io, int (length io - pos)))"

text \<open>\<open>mg_send_dns_query\<close>: the packet that is sent, and the new value of \<open>mg_dns_tid\<close>.\<close>

definition mg_send_dns_query :: "u16 \<Rightarrow> bool \<Rightarrow> byte list \<Rightarrow> int \<Rightarrow> byte list option \<times> u16" where
  "mg_send_dns_query mg_dns_tid udp name query_type =
     (let tid = mg_dns_tid + 1;
          msg = dns_message0\<lparr>dm_transaction_id := tid, dm_flags := 256, dm_num_questions := 1\<rparr>;
          pkt = mg_dns_insert_header [] 0 msg;
          rr = rr0\<lparr>rr_rtype := query_type, rr_rclass := 1, rr_kind := MG_DNS_QUESTION\<rparr>;
          (pkt, r) = mg_dns_encode_record pkt rr name []
      in if r = -1 then (None, tid)
         else (Some (if udp then pkt else be16 (of_nat (length pkt)) @ pkt), tid))"

section \<open>Parsing\<close>

text \<open>A read at an offset of the packet.\<close>

definition pget :: "byte list \<Rightarrow> nat \<Rightarrow> byte option" where
  "pget pkt i = (if i < length pkt then Some (pkt ! i) else None)"

definition pget16 :: "byte list \<Rightarrow> nat \<Rightarrow> u16 option" where
  "pget16 pkt i = (case (pget pkt i, pget pkt (i + 1)) of (Some a, Some b) \<Rightarrow> Some (rd16 a b) | _ \<Rightarrow> None)"

definition pget32 :: "byte list \<Rightarrow> nat \<Rightarrow> u32 option" where
  "pget32 pkt i = (case (pget pkt i, pget pkt (i + 1), pget pkt (i + 2), pget pkt (i + 3)) of
     (Some a, Some b, Some c, Some d) \<Rightarrow> Some (rd32 a b c d) | _ \<Rightarrow> None)"

text \<open>The loop over the labels of a name: the offset of its last byte.\<close>

function dns_skip_name :: "byte list \<Rightarrow> nat \<Rightarrow> nat" where
  "dns_skip_name pkt data =
     (if data < length pkt \<and> pkt ! data \<noteq> 0
      then if pkt ! data AND 192 \<noteq> 0 then data + 1
           else dns_skip_name pkt (data + unat (pkt ! data) + 1)
      else data)"
  by pat_completeness auto
termination by (relation "measure (\<lambda>(pkt, data). length pkt - data)") auto

declare dns_skip_name.simps [simp del]

text \<open>
  \<open>mg_parse_dns_resource_record\<close>: \<open>None\<close> is a read behind the packet, \<open>Some None\<close> the null
  pointer it returns for a malformed record, else the record and the offset behind it.
\<close>

definition mg_parse_dns_resource_record ::
  "byte list \<Rightarrow> nat \<Rightarrow> bool \<Rightarrow> (dns_rr \<times> nat) option option" where
  "mg_parse_dns_resource_record pkt name reply =
     (let data = dns_skip_name pkt name in
      if data + 5 > length pkt then Some None
      else case (pget16 pkt (data + 1), pget16 pkt (data + 3)) of
        (Some t, Some c) \<Rightarrow>
          (let rr = rr0\<lparr>rr_name := (name, data - name + 1), rr_rtype := uint t, rr_rclass := uint c,
                 rr_kind := (if reply then MG_DNS_ANSWER else MG_DNS_QUESTION)\<rparr>;
               data = data + 5
           in if reply then
                if data + 6 \<ge> length pkt then Some None
                else (case (pget32 pkt data, pget16 pkt (data + 4)) of
                  (Some ttl, Some l) \<Rightarrow>
                    Some (Some (rr\<lparr>rr_ttl := sint ttl, rr_rdata := (data + 6, unat l)\<rparr>, data + 6 + unat l))
                | _ \<Rightarrow> None)
              else Some (Some (rr, data)))
      | _ \<Rightarrow> None)"

fun dns_parse_records :: "byte list \<Rightarrow> nat \<Rightarrow> bool \<Rightarrow> nat \<Rightarrow> (dns_rr list \<times> nat) option option" where
  "dns_parse_records pkt data reply 0 = Some (Some ([], data))"
| "dns_parse_records pkt data reply (Suc n) =
     (case mg_parse_dns_resource_record pkt data reply of
        None \<Rightarrow> None
      | Some None \<Rightarrow> Some None
      | Some (Some (rr, data')) \<Rightarrow>
          map_option (map_option (\<lambda>(rrs, d). (rr # rrs, d))) (dns_parse_records pkt data' reply n))"

text \<open>\<open>mg_parse_dns\<close>: \<open>Some None\<close> is its -1. At most 32 questions and answers are read.\<close>

definition mg_parse_dns :: "byte list \<Rightarrow> dns_message option option" where
  "mg_parse_dns buf =
     (if length buf < 12 then Some None
      else case (pget buf 0, pget buf 1, pget16 buf 2, pget16 buf 4, pget16 buf 6) of
        (Some i0, Some i1, Some fl, Some nq, Some na) \<Rightarrow>
          (let nq = min (unat nq) 32; na = min (unat na) 32
           in case dns_parse_records buf 12 False nq of
                None \<Rightarrow> None | Some None \<Rightarrow> Some None
              | Some (Some (qs, data)) \<Rightarrow>
                (case dns_parse_records buf data True na of
                   None \<Rightarrow> None | Some None \<Rightarrow> Some None
                 | Some (Some (ans, _)) \<Rightarrow>
                     Some (Some \<lparr>dm_pkt = buf, dm_flags = fl, dm_transaction_id = rd16 i1 i0,
                       dm_num_questions = nq, dm_num_answers = na, dm_questions = qs,
                       dm_answers = ans\<rparr>)))
      | _ \<Rightarrow> None)"

text \<open>
  \<open>mg_dns_uncompress_name\<close>: the bytes it reports in \<open>dst\<close>. It follows compression pointers
  without a bound, so it may run forever, which is \<open>None\<close>.
\<close>

partial_function (option) dns_uncompress :: "byte list \<Rightarrow> nat \<Rightarrow> byte list \<Rightarrow> nat \<Rightarrow> byte list option" where
  "dns_uncompress pkt data dst dst_len =
     (let chunk = pkt ! data; data = data + 1 in
      if chunk = 0 then Some (butlast dst)
      else let leeway = dst_len - length dst in
      if data \<ge> length pkt then Some []
      else if chunk AND 192 \<noteq> 0 then
        (let off = unat (rd16 (chunk AND 63) (pkt ! data))
         in if off \<ge> length pkt then Some [] else dns_uncompress pkt off dst dst_len)
      else let n = min (unat chunk) leeway in
      if data + n \<ge> length pkt then Some []
      else let dst = dst @ take n (drop data pkt) in
      if leeway - n = 0 then Some dst
      else dns_uncompress pkt (data + n) (dst @ [46]) dst_len)"

definition mg_dns_uncompress_name :: "byte list \<Rightarrow> nat \<Rightarrow> nat \<Rightarrow> byte list option" where
  "mg_dns_uncompress_name pkt name dst_len =
     (if name \<ge> length pkt then Some [] else dns_uncompress pkt name [] dst_len)"

section \<open>Using a message\<close>

text \<open>
  \<open>mg_dns_next_record\<close>: the index of the next answer of a type, behind the one given.
\<close>

definition mg_dns_next_record :: "dns_message \<Rightarrow> int \<Rightarrow> nat option \<Rightarrow> nat option" where
  "mg_dns_next_record msg query prev =
     find (\<lambda>i. rr_rtype (dm_answers msg ! i) = query)
       [(case prev of None \<Rightarrow> 0 | Some p \<Rightarrow> p + 1) ..< dm_num_answers msg]"

text \<open>
  \<open>mg_dns_parse_record_data\<close> (without IPv6): \<open>Some None\<close> is its -1, else the bytes stored;
  \<open>None\<close> when the expansion of a CNAME does not end.
\<close>

definition mg_dns_parse_record_data :: "dns_message \<Rightarrow> dns_rr \<Rightarrow> nat \<Rightarrow> byte list option option" where
  "mg_dns_parse_record_data msg rr data_len =
     (if rr_rtype rr = 1 then
        (if data_len < 4 then Some None
         else if fst (rr_rdata rr) + data_len > length (dm_pkt msg) then Some None
         else Some (Some (take data_len (drop (fst (rr_rdata rr)) (dm_pkt msg)))))
      else if rr_rtype rr = 5 then
        map_option Some (mg_dns_uncompress_name (dm_pkt msg) (fst (rr_rdata rr)) data_len)
      else Some None)"

definition mg_dns_copy_questions :: "byte list \<Rightarrow> dns_message \<Rightarrow> byte list" where
  "mg_dns_copy_questions io msg =
     (if dm_num_questions msg = 0 then io
      else let last_q = dm_questions msg ! (dm_num_questions msg - 1);
               e = fst (rr_name last_q) + snd (rr_name last_q) + 4
           in io @ take (e - 12) (drop 12 (dm_pkt msg)))"

text \<open>
  \<open>dns_handler\<close> on \<open>MG_EV_RECV\<close>: a packet to send for a malformed request, or a message event;
  the receive buffer is emptied.
\<close>

datatype dns_event = Dns_send "byte list" | Dns_message dns_message

definition dns_handler :: "bool \<Rightarrow> byte list \<Rightarrow> (dns_event \<times> byte list) option" where
  "dns_handler udp io =
     (let io = (if udp then io else buf_remove io 2) in
      case mg_parse_dns io of
        None \<Rightarrow> None
      | Some (Some msg) \<Rightarrow> Some (Dns_message msg, [])
      | Some None \<Rightarrow>
          (let io = mg_dns_insert_header io 0 (dns_message0\<lparr>dm_flags := 0x8081\<rparr>);
               io = (if udp then io else be16 (of_nat (length io)) @ io)
           in Some (Dns_send io, [])))"

text \<open>The reply builder of \<open>dns-server.c\<close>.\<close>

record dns_reply =
  rep_msg :: dns_message
  rep_io :: "byte list"
  rep_start :: nat

definition mg_dns_create_reply :: "byte list \<Rightarrow> dns_message \<Rightarrow> dns_reply" where
  "mg_dns_create_reply io msg =
     (let msg1 = msg\<lparr>dm_flags := dm_flags msg OR 0x8080\<rparr>
      in \<lparr>rep_msg = msg1\<lparr>dm_num_answers := 0\<rparr>, rep_io = mg_dns_copy_questions io msg1,
          rep_start = length io\<rparr>)"

text \<open>
  \<open>mg_dns_reply_record\<close>: the reply and 0 or -1; \<open>None\<close> when the expansion of the name of the
  question does not end, or stores nothing, so that the name would be read from an array that
  was never written. The name taken from the question is a C string: it ends at a NUL.
\<close>

definition mg_dns_reply_record ::
  "dns_reply \<Rightarrow> dns_rr \<Rightarrow> byte list option \<Rightarrow> int \<Rightarrow> int \<Rightarrow> byte list \<Rightarrow> (dns_reply \<times> int) option" where
  "mg_dns_reply_record reply question name rtype ttl rdata =
     (let msg = rep_msg reply in
      if dm_num_answers msg \<ge> 32 then Some (reply, -1)
      else case (case name of Some n \<Rightarrow> Some n
          | None \<Rightarrow>
              (case mg_dns_uncompress_name (dm_pkt msg) (fst (rr_name question)) 511 of
                 Some n \<Rightarrow> if n = [] then None else Some (takeWhile (\<lambda>c. c \<noteq> 0) n)
               | None \<Rightarrow> None)) of
        None \<Rightarrow> None
      | Some n \<Rightarrow>
          (let ans = question\<lparr>rr_kind := MG_DNS_ANSWER, rr_rtype := rtype, rr_ttl := ttl\<rparr>;
               msg1 = msg\<lparr>dm_answers := take (dm_num_answers msg) (dm_answers msg) @ [ans]\<rparr>;
               (io, r) = mg_dns_encode_record (rep_io reply) ans n rdata
           in if r = -1 then Some (reply\<lparr>rep_msg := msg1, rep_io := io\<rparr>, -1)
              else Some (reply\<lparr>rep_msg := msg1\<lparr>dm_num_answers := dm_num_answers msg + 1\<rparr>,
                           rep_io := io\<rparr>, 0)))"

text \<open>\<open>mg_dns_send_reply\<close>: the bytes that leave.\<close>

definition mg_dns_send_reply :: "bool \<Rightarrow> dns_reply \<Rightarrow> byte list" where
  "mg_dns_send_reply udp r =
     (let sent = length (rep_io r) - rep_start r;
          io = mg_dns_insert_header (rep_io r) (rep_start r) (rep_msg r);
          io = (if udp then io
                else take (rep_start r) io @ be16 (of_nat sent) @ drop (rep_start r) io)
      in drop (rep_start r) io)"

section \<open>The parser stays inside the packet\<close>

lemma dns_skip_name_ge: "data \<le> dns_skip_name pkt data"
  by (induction pkt data rule: dns_skip_name.induct) (subst dns_skip_name.simps, force)

lemma pget_in: "i < length pkt \<Longrightarrow> pget pkt i = Some (pkt ! i)"
  by (simp add: pget_def)

lemma pget16_in: "i + 1 < length pkt \<Longrightarrow> pget16 pkt i = Some (rd16 (pkt ! i) (pkt ! (i + 1)))"
  by (simp add: pget16_def pget_def)

lemma pget32_in:
  "i + 3 < length pkt \<Longrightarrow>
     pget32 pkt i = Some (rd32 (pkt ! i) (pkt ! (i + 1)) (pkt ! (i + 2)) (pkt ! (i + 3)))"
  by (simp add: pget32_def pget_def)

definition rr_inside :: "nat \<Rightarrow> dns_rr \<Rightarrow> bool" where
  "rr_inside n rr \<longleftrightarrow> fst (rr_name rr) + snd (rr_name rr) \<le> n \<and> snd (rr_name rr) > 0
     \<and> (rr_kind rr = MG_DNS_ANSWER \<longrightarrow> fst (rr_rdata rr) \<le> n)"

lemma parse_record_safe:
  "mg_parse_dns_resource_record pkt name reply = Some None
   \<or> (\<exists>rr data. mg_parse_dns_resource_record pkt name reply = Some (Some (rr, data))
        \<and> rr_inside (length pkt) rr)"
  using dns_skip_name_ge [of name pkt]
  by (auto simp: mg_parse_dns_resource_record_def Let_def pget16_in pget32_in rr_inside_def rr0_def)

lemma parse_records_safe:
  "dns_parse_records pkt data reply n = Some None
   \<or> (\<exists>rrs d. dns_parse_records pkt data reply n = Some (Some (rrs, d))
        \<and> length rrs = n \<and> list_all (rr_inside (length pkt)) rrs)"
proof (induction n arbitrary: data)
  case (Suc n)
  then show ?case
    using parse_record_safe [of pkt data reply] by fastforce
qed simp

lemma mg_parse_dns_records:
  assumes "12 \<le> length buf" and "nq = min (unat (rd16 (buf ! 4) (buf ! 5))) 32"
    and "na = min (unat (rd16 (buf ! 6) (buf ! 7))) 32"
  shows "mg_parse_dns buf = (case dns_parse_records buf 12 False nq of
      None \<Rightarrow> None | Some None \<Rightarrow> Some None
    | Some (Some (qs, data)) \<Rightarrow>
      (case dns_parse_records buf data True na of
         None \<Rightarrow> None | Some None \<Rightarrow> Some None
       | Some (Some (ans, _)) \<Rightarrow>
           Some (Some \<lparr>dm_pkt = buf, dm_flags = rd16 (buf ! 2) (buf ! 3),
             dm_transaction_id = rd16 (buf ! Suc 0) (buf ! 0),
             dm_num_questions = nq, dm_num_answers = na, dm_questions = qs, dm_answers = ans\<rparr>)))"
proof -
  have "pget buf 0 = Some (buf ! 0)"
    by (rule pget_in) (use assms in linarith)
  then show ?thesis
    unfolding assms(2,3)
    using assms(1) by (simp add: mg_parse_dns_def pget_in [of "Suc 0"] pget16_in Let_def)
qed

text \<open>
  C37. \<open>mg_parse_dns\<close> reads no byte behind the packet, whatever its contents: it returns -1 or
  a message with at most 32 questions and 32 answers, exactly as many as it counts, the name of
  each of which lies inside the packet.
\<close>

theorem mg_parse_dns_safe:
  "mg_parse_dns buf = Some None \<or>
   (\<exists>msg. mg_parse_dns buf = Some (Some msg) \<and> dm_pkt msg = buf
      \<and> length (dm_questions msg) = dm_num_questions msg \<and> dm_num_questions msg \<le> 32
      \<and> length (dm_answers msg) = dm_num_answers msg \<and> dm_num_answers msg \<le> 32
      \<and> list_all (rr_inside (length buf)) (dm_questions msg @ dm_answers msg))"
proof (cases "length buf < 12")
  case True
  then show ?thesis by (simp add: mg_parse_dns_def)
next
  case False
  define nq where "nq = min (unat (rd16 (buf ! 4) (buf ! 5))) 32"
  define na where "na = min (unat (rd16 (buf ! 6) (buf ! 7))) 32"
  note R = mg_parse_dns_records [OF _ nq_def na_def]
  from parse_records_safe [of buf 12 False nq] show ?thesis
  proof (elim disjE exE conjE)
    fix qs d
    assume q: "dns_parse_records buf 12 False nq = Some (Some (qs, d))" "length qs = nq"
      "list_all (rr_inside (length buf)) qs"
    have "nq \<le> 32" "na \<le> 32"
      by (auto simp: nq_def na_def)
    then show ?thesis
      using parse_records_safe [of buf d True na] False q by (auto simp: R)
  qed (use False in \<open>simp add: R\<close>)
qed

section \<open>Expansion of names\<close>

text \<open>What is stored never exceeds the destination buffer.\<close>

lemma dns_uncompress_bound:
  assumes "dns_uncompress pkt data dst dst_len = Some r"
  shows "length dst \<le> dst_len \<longrightarrow> length r \<le> dst_len"
proof (rule dns_uncompress.raw_induct [OF _ assms], intro impI, goal_cases)
  case (1 f pkt data dst dst_len r)
  have app: "length (dst @ take (min m (dst_len - length dst)) xs) \<le> dst_len" for m xs
    using 1(3) by (auto simp: min_def)
  have app1: "length ((dst @ take (min m (dst_len - length dst)) xs) @ [46]) \<le> dst_len"
    if "dst_len - length dst - min m (dst_len - length dst) \<noteq> 0" for m xs
    using that 1(3) by (simp add: min_def)
  show ?case
    using 1(2) 1(1) 1(3) app app1
    by (simp only: Let_def split: if_splits) (force+)
qed

text \<open>
  A compression pointer that points to itself keeps the expansion running forever, whatever the
  size of the destination.
\<close>

definition self_pointer :: "byte list \<Rightarrow> nat \<Rightarrow> bool" where
  "self_pointer pkt data \<longleftrightarrow> data + 1 < length pkt \<and> pkt ! data AND 192 \<noteq> 0
     \<and> unat (rd16 (pkt ! data AND 63) (pkt ! (data + 1))) = data"

lemma dns_uncompress_self_pointer:
  assumes "self_pointer pkt data"
  shows "dns_uncompress pkt data dst dst_len = None"
proof (rule ccontr)
  assume "dns_uncompress pkt data dst dst_len \<noteq> None"
  then obtain r where r: "dns_uncompress pkt data dst dst_len = Some r"
    by auto
  have "\<not> self_pointer pkt data"
  proof (rule dns_uncompress.raw_induct [OF _ r], goal_cases)
    case (1 f pkt data dst dst_len r)
    show ?case
    proof
      assume s: "self_pointer pkt data"
      then have "f pkt data dst dst_len = Some r"
        using 1(2) by (auto simp: self_pointer_def Let_def split: if_splits)
      then show False
        using 1(1) s by blast
    qed
  qed
  then show False
    using assms by simp
qed

section \<open>What is encoded is parsed\<close>

text \<open>A name on the wire: each label with its length, then an empty one.\<close>

definition wire_label :: "byte list \<Rightarrow> byte list" where
  "wire_label l = of_nat (length l) # l"

definition wire_name :: "byte list \<Rightarrow> byte list" where
  "wire_name name = concat (map wire_label (split_on 46 name)) @ [0]"

text \<open>The names of the DNS: labels of 1 to 63 bytes, at most 255 bytes in all.\<close>

definition name_ok :: "byte list \<Rightarrow> bool" where
  "name_ok name \<longleftrightarrow> (\<forall>l \<in> set (split_on 46 name). 0 < length l \<and> length l < 64) \<and> length name < 255 \<and> 0 \<notin> set name"

lemma small_label:
  assumes "n < 64"
  shows "of_nat n AND (192 :: byte) = 0" "unat (of_nat n :: byte) = n"
proof -
  have "\<forall>n \<in> set [0..<64]. of_nat n AND (192 :: byte) = 0"
    by (simp add: upt_rec)
  then show "of_nat n AND (192 :: byte) = 0"
    using assms by auto
  show "unat (of_nat n :: byte) = n"
    using assms by (simp add: unat_of_nat_byte)
qed

lemma split_on_takeWhile:
  "split_on c xs = (if c \<in> set xs
     then takeWhile (\<lambda>x. x \<noteq> c) xs # split_on c (drop 1 (dropWhile (\<lambda>x. x \<noteq> c) xs)) else [xs])"
  by (induction xs) (auto simp: split_on_no_sep)

lemma encode_labels_wire:
  "\<forall>l \<in> set (split_on 46 name). length l \<le> 127 \<Longrightarrow> 0 \<notin> set name \<Longrightarrow>
     dns_encode_labels io name = (io @ concat (map wire_label (split_on 46 name)), True)"
proof (induction name arbitrary: io rule: length_induct)
  case (1 name)
  define lab where "lab = takeWhile (\<lambda>c. c \<noteq> 46) name"
  have nz: "takeWhile (\<lambda>c. c \<noteq> 0) name = name"
    using 1(3) by (auto simp: takeWhile_eq_all_conv)
  show ?case
  proof (cases "46 \<in> set name")
    case True
    let ?r = "drop (Suc (length lab)) name"
    have "drop 1 (dropWhile (\<lambda>c. c \<noteq> 46) name) = ?r"
      by (simp add: dropWhile_eq_drop lab_def)
    then have sp: "split_on 46 name = lab # split_on 46 ?r"
      using True split_on_takeWhile [of 46 name] by (simp add: lab_def)
    have "length ?r < length name"
      using True by (cases name) auto
    moreover have "0 \<notin> set ?r" "\<forall>l \<in> set (split_on 46 ?r). length l \<le> 127"
      using 1(2,3) sp by (auto dest: in_set_dropD)
    ultimately have "dns_encode_labels (io @ [of_nat (length lab)] @ lab) ?r =
        ((io @ [of_nat (length lab)] @ lab) @ concat (map wire_label (split_on 46 ?r)), True)"
      using 1(1) by blast
    moreover have "\<not> length lab > 127"
      using 1(2) sp by auto
    ultimately show ?thesis
      using True by (subst dns_encode_labels.simps) (simp add: sp wire_label_def nz flip: lab_def)
  next
    case False
    then have "split_on 46 name = [name]"
      by (simp add: split_on_no_sep)
    then show ?thesis
      using 1(2) False by (subst dns_encode_labels.simps) (simp add: wire_label_def nz)
  qed
qed

lemma encode_name_wire:
  "name_ok name \<Longrightarrow> mg_dns_encode_name io name = (io @ wire_name name, int (length (wire_name name)))"
  using encode_labels_wire [of name io]
  by (force simp: mg_dns_encode_name_def wire_name_def name_ok_def)

lemma skip_labels:
  "\<forall>l \<in> set ls. 0 < length l \<and> length l < 64 \<Longrightarrow>
     dns_skip_name (pre @ concat (map wire_label ls) @ 0 # post) (length pre)
       = length pre + length (concat (map wire_label ls))"
proof (induction ls arbitrary: pre)
  case Nil
  then show ?case by (simp add: dns_skip_name.simps nth_append)
next
  case (Cons l ls)
  have "dns_skip_name ((pre @ wire_label l) @ concat (map wire_label ls) @ 0 # post) (length (pre @ wire_label l))
      = length (pre @ wire_label l) + length (concat (map wire_label ls))"
    using Cons by (intro Cons.IH) auto
  moreover have "(of_nat (length l) :: byte) \<noteq> 0"
    using Cons(2) small_label(2) [of "length l"] by force
  ultimately show ?case
    using Cons(2) small_label [of "length l"]
    by (subst dns_skip_name.simps) (simp add: nth_append wire_label_def add.assoc)
qed

lemma uncompress_labels:
  "\<forall>l \<in> set ls. 0 < length l \<and> length l < 64 \<Longrightarrow>
     length dst + length (concat (map wire_label ls)) \<le> dst_len \<Longrightarrow>
     dns_uncompress (pre @ concat (map wire_label ls) @ 0 # post) (length pre) dst dst_len
       = Some (butlast (dst @ concat (map (\<lambda>l. l @ [46]) ls)))"
proof (induction ls arbitrary: pre dst)
  case Nil
  then show ?case by (subst dns_uncompress.simps) (simp add: nth_append)
next
  case (Cons l ls)
  have "dns_uncompress ((pre @ wire_label l) @ concat (map wire_label ls) @ 0 # post)
      (length (pre @ wire_label l)) (dst @ l @ [46]) dst_len
      = Some (butlast ((dst @ l @ [46]) @ concat (map (\<lambda>l. l @ [46]) ls)))"
    using Cons by (intro Cons.IH) (auto simp: wire_label_def)
  moreover have "(of_nat (length l) :: byte) \<noteq> 0"
    using Cons(2) small_label(2) [of "length l"] by force
  moreover have "min (length l) (dst_len - length dst) = length l"
    "\<not> dst_len - length dst \<le> length l"
    using Cons(3) by (auto simp: wire_label_def)
  ultimately show ?case
    using Cons(2) small_label [of "length l"]
    by (subst dns_uncompress.simps) (simp add: nth_append wire_label_def add.assoc Let_def)
qed

lemma butlast_labels: "ls \<noteq> [] \<Longrightarrow> butlast (concat (map (\<lambda>l. l @ [c]) ls)) = join c ls"
proof (induction c ls rule: join.induct)
  case (3 c l l' ls)
  then show ?case by (simp add: butlast_append)
qed (simp_all add: butlast_append)

lemma length_wire_labels:
  "ls \<noteq> [] \<Longrightarrow> length (concat (map wire_label ls)) = length (join c ls) + 1"
  by (induction c ls rule: join.induct) (simp_all add: wire_label_def)

lemma length_wire_name: "length (wire_name name) = length name + 2"
  by (simp add: wire_name_def length_wire_labels [where c = 46] join_split_on)

lemma uncompress_wire:
  assumes "name_ok name" and "length name < dst_len" and "pkt = pre @ wire_name name @ post"
  shows "mg_dns_uncompress_name pkt (length pre) dst_len = Some name"
  using assms uncompress_labels [of "split_on 46 name" "[]" dst_len pre post]
  by (simp add: mg_dns_uncompress_name_def wire_name_def name_ok_def length_wire_labels [where c = 46]
      join_split_on butlast_labels)

text \<open>
  A record to encode: its type, class, time to live and kind, its name and its data (for a
  CNAME record the data is a name).
\<close>

definition wire_data :: "dns_rr \<Rightarrow> byte list \<Rightarrow> byte list" where
  "wire_data rr rdata = (if rr_rtype rr = 5 then wire_name rdata else rdata)"

definition wire_record :: "dns_rr \<times> byte list \<times> byte list \<Rightarrow> byte list" where
  "wire_record = (\<lambda>(rr, name, rdata).
     wire_name name @ be16 (of_int (rr_rtype rr)) @ be16 (of_int (rr_rclass rr))
     @ (if rr_kind rr = MG_DNS_ANSWER
        then be32 (of_int (rr_ttl rr)) @ be16 (of_nat (length (wire_data rr rdata))) @ wire_data rr rdata
        else []))"

definition record_ok :: "dns_kind \<Rightarrow> dns_rr \<times> byte list \<times> byte list \<Rightarrow> bool" where
  "record_ok k = (\<lambda>(rr, name, rdata).
     rr_kind rr = k \<and> name_ok name \<and> 0 \<le> rr_rtype rr \<and> rr_rtype rr < 65536
     \<and> 0 \<le> rr_rclass rr \<and> rr_rclass rr < 65536
     \<and> - 2147483648 \<le> rr_ttl rr \<and> rr_ttl rr < 2147483648
     \<and> (rr_rtype rr = 5 \<longrightarrow> name_ok rdata) \<and> 0 < length rdata \<and> length rdata < 65536)"

lemma list_update_2:
  "(xs @ a # b # ys)[length xs := c, length xs + 1 := d] = xs @ c # d # ys"
  by (simp add: list_update_append)

lemma mask_byte: "ucast (w AND 255) = (ucast (w :: u16) :: byte)"
proof -
  have "w AND 255 = take_bit 8 w"
    by (simp add: take_bit_eq_mask mask_eq_exp_minus_1)
  then show ?thesis
    by (auto simp: bit_simps intro: bit_word_eqI)
qed

lemma encode_record_wire:
  assumes "record_ok k (rr, name, rdata)" and "k \<noteq> MG_DNS_INVALID_RECORD"
  shows "\<exists>r. mg_dns_encode_record io rr name rdata = (io @ wire_record (rr, name, rdata), r) \<and> r \<noteq> -1"
proof (cases "rr_kind rr = MG_DNS_ANSWER \<and> rr_rtype rr = 5")
  case True
  define head where "head = io @ wire_name name @ be16 (of_int (rr_rtype rr))
    @ be16 (of_int (rr_rclass rr)) @ be32 (of_int (rr_ttl rr))"
  define u where "u = (of_nat (length (wire_name rdata)) :: u16)"
  have ok: "name_ok name" "name_ok rdata"
    using assms True by (auto simp: record_ok_def)
  have "mg_dns_encode_record io rr name rdata =
      (let x = (head @ be16 (of_int (rr_rclass rr)) @ wire_name rdata)
           [length head := ucast (drop_bit 8 u), length head + 1 := ucast (u AND 255)]
       in (x, int (length x - length io)))"
    using True encode_name_wire [OF ok(1), of io]
      encode_name_wire [OF ok(2), of "head @ be16 (of_int (rr_rclass rr))"]
    by (simp add: mg_dns_encode_record_def Let_def head_def u_def)
  moreover have "(head @ be16 w @ wire_name rdata)[length head := ucast (drop_bit 8 u),
      length head + 1 := ucast (u AND 255)] = head @ be16 u @ wire_name rdata" for w
    using list_update_2 [of head] by (simp add: be16_def mask_byte)
  ultimately show ?thesis
    using True by (simp add: wire_record_def wire_data_def head_def u_def)
next
  case False
  then show ?thesis
    using assms
    by (cases "rr_kind rr") (auto simp: mg_dns_encode_record_def encode_name_wire record_ok_def
        wire_record_def wire_data_def Let_def)
qed

text \<open>A parsed record stands for the record that was encoded.\<close>

definition rr_matches :: "byte list \<Rightarrow> dns_rr \<times> byte list \<times> byte list \<Rightarrow> dns_rr \<Rightarrow> bool" where
  "rr_matches pkt = (\<lambda>(rr, name, rdata) r.
     rr_rtype r = rr_rtype rr \<and> rr_rclass r = rr_rclass rr \<and> rr_kind r = rr_kind rr
     \<and> mg_dns_uncompress_name pkt (fst (rr_name r)) 256 = Some name
     \<and> (rr_kind rr = MG_DNS_ANSWER \<longrightarrow> rr_ttl r = rr_ttl rr \<and>
         (if rr_rtype rr = 5 then mg_dns_uncompress_name pkt (fst (rr_rdata r)) 256 = Some rdata
          else take (snd (rr_rdata r)) (drop (fst (rr_rdata r)) pkt) = rdata)))"

lemma pget16_at: "pkt = pre @ be16 w @ post \<Longrightarrow> i = length pre \<Longrightarrow> pget16 pkt i = Some w"
  by (simp add: pget16_def pget_def be16_def nth_append)

lemma pget32_at: "pkt = pre @ be32 w @ post \<Longrightarrow> i = length pre \<Longrightarrow> pget32 pkt i = Some w"
  by (simp add: pget32_def pget_def be32_def nth_append)

lemma skip_wire_name:
  "name_ok name \<Longrightarrow> pkt = pre @ wire_name name @ post \<Longrightarrow>
     dns_skip_name pkt (length pre) = length pre + length name + 1"
  using skip_labels [of "split_on 46 name" pre post]
  by (simp add: wire_name_def name_ok_def length_wire_labels [where c = 46] join_split_on)

lemma uint_of_int_u16: "0 \<le> i \<Longrightarrow> i < 65536 \<Longrightarrow> uint (of_int i :: u16) = i"
  by (simp add: unsigned_of_int take_bit_int_eq_self)

lemma sint_of_int_u32: "- 2147483648 \<le> i \<Longrightarrow> i < 2147483648 \<Longrightarrow> sint (of_int i :: u32) = i"
  by (simp add: signed_of_int signed_take_bit_int_eq_self)

lemma length_wire_data:
  "record_ok k (rr, name, rdata) \<Longrightarrow> 0 < length (wire_data rr rdata) \<and> length (wire_data rr rdata) < 65536"
  by (cases "rr_rtype rr = 5") (simp_all add: wire_data_def record_ok_def length_wire_name name_ok_def)

lemma parse_question_wire:
  assumes ok: "record_ok MG_DNS_QUESTION (rr, name, rdata)"
    and pkt: "pkt = pre @ wire_record (rr, name, rdata) @ post"
  shows "\<exists>r. mg_parse_dns_resource_record pkt (length pre) False
      = Some (Some (r, length (pre @ wire_record (rr, name, rdata))))
    \<and> rr_matches pkt (rr, name, rdata) r"
proof -
  have n: "name_ok name" "length name < 256" and k: "rr_kind rr = MG_DNS_QUESTION"
    using ok by (auto simp: record_ok_def name_ok_def)
  define t c where "t = (of_int (rr_rtype rr) :: u16)" and "c = (of_int (rr_rclass rr) :: u16)"
  have p: "pkt = pre @ wire_name name @ be16 t @ be16 c @ post"
    by (simp add: pkt wire_record_def k t_def c_def)
  have s: "dns_skip_name pkt (length pre) = length pre + length name + 1"
    by (rule skip_wire_name [OF n(1) p])
  have "pget16 pkt (length pre + length name + 1 + 1) = Some t"
    by (rule pget16_at [where pre = "pre @ wire_name name" and post = "be16 c @ post"])
      (simp_all add: p length_wire_name)
  moreover have "pget16 pkt (length pre + length name + 1 + 3) = Some c"
    by (rule pget16_at [where pre = "pre @ wire_name name @ be16 t" and post = post])
      (simp_all add: p length_wire_name)
  moreover have "\<not> length pre + length name + 1 + 5 > length pkt"
    by (simp add: p length_wire_name)
  moreover have "uint t = rr_rtype rr" "uint c = rr_rclass rr"
    using ok by (simp_all add: t_def c_def record_ok_def uint_of_int_u16)
  moreover have "length (pre @ wire_record (rr, name, rdata)) = length pre + length name + 1 + 5"
    by (simp add: wire_record_def k length_wire_name)
  ultimately show ?thesis
    using uncompress_wire [OF n p] k
    by (simp add: mg_parse_dns_resource_record_def s Let_def rr_matches_def rr0_def)
qed

lemma parse_answer_wire:
  assumes ok: "record_ok MG_DNS_ANSWER (rr, name, rdata)"
    and pkt: "pkt = pre @ wire_record (rr, name, rdata) @ post"
  shows "\<exists>r. mg_parse_dns_resource_record pkt (length pre) True
      = Some (Some (r, length (pre @ wire_record (rr, name, rdata))))
    \<and> rr_matches pkt (rr, name, rdata) r"
proof -
  have n: "name_ok name" "length name < 256" and k: "rr_kind rr = MG_DNS_ANSWER"
    using ok by (auto simp: record_ok_def name_ok_def)
  define t c where "t = (of_int (rr_rtype rr) :: u16)" and "c = (of_int (rr_rclass rr) :: u16)"
  define ttl where "ttl = (of_int (rr_ttl rr) :: u32)"
  define d where "d = wire_data rr rdata"
  define l where "l = (of_nat (length d) :: u16)"
  note D = length_wire_data [OF ok, folded d_def]
  have l: "unat l = length d"
    using D by (simp add: l_def unat_of_nat_u16)
  have p: "pkt = pre @ wire_name name @ be16 t @ be16 c @ be32 ttl @ be16 l @ d @ post"
    by (simp add: pkt wire_record_def k t_def c_def ttl_def d_def l_def)
  have s: "dns_skip_name pkt (length pre) = length pre + length name + 1"
    by (rule skip_wire_name [OF n(1) p])
  define e where "e = length pre + length name + 1 + 5"
  have "pget16 pkt (length pre + length name + 1 + 1) = Some t"
    by (rule pget16_at [where pre = "pre @ wire_name name" and post = "be16 c @ be32 ttl @ be16 l @ d @ post"])
      (simp_all add: p length_wire_name)
  moreover have "pget16 pkt (length pre + length name + 1 + 3) = Some c"
    by (rule pget16_at [where pre = "pre @ wire_name name @ be16 t" and post = "be32 ttl @ be16 l @ d @ post"])
      (simp_all add: p length_wire_name)
  moreover have "pget32 pkt e = Some ttl"
    by (rule pget32_at [where pre = "pre @ wire_name name @ be16 t @ be16 c" and post = "be16 l @ d @ post"])
      (simp_all add: p length_wire_name e_def)
  moreover have "pget16 pkt (e + 4) = Some l"
    by (rule pget16_at [where pre = "pre @ wire_name name @ be16 t @ be16 c @ be32 ttl" and post = "d @ post"])
      (simp_all add: p length_wire_name e_def)
  moreover have "\<not> length pre + length name + 1 + 5 > length pkt" "\<not> e + 6 \<ge> length pkt"
    using D by (simp_all add: p length_wire_name e_def)
  moreover have "uint t = rr_rtype rr" "uint c = rr_rclass rr" "sint ttl = rr_ttl rr"
    using ok by (simp_all add: t_def c_def ttl_def record_ok_def uint_of_int_u16 sint_of_int_u32)
  ultimately have R: "mg_parse_dns_resource_record pkt (length pre) True = Some (Some
      (rr0\<lparr>rr_name := (length pre, length name + 2), rr_rtype := rr_rtype rr, rr_rclass := rr_rclass rr,
         rr_kind := MG_DNS_ANSWER, rr_ttl := rr_ttl rr, rr_rdata := (e + 6, length d)\<rparr>, e + 6 + length d))"
    unfolding e_def by (simp add: mg_parse_dns_resource_record_def s Let_def l)
  define H where "H = pre @ wire_name name @ be16 t @ be16 c @ be32 ttl @ be16 l"
  have data: "pkt = H @ d @ post" and H: "length H = e + 6"
    by (simp_all add: p length_wire_name e_def H_def)
  have "if rr_rtype rr = 5 then mg_dns_uncompress_name pkt (e + 6) 256 = Some rdata
      else take (length d) (drop (e + 6) pkt) = rdata"
  proof (cases "rr_rtype rr = 5")
    case True
    then have "name_ok rdata" "length rdata < 256" "pkt = H @ wire_name rdata @ post"
      using ok data by (auto simp: record_ok_def name_ok_def d_def wire_data_def)
    then show ?thesis
      using uncompress_wire [of rdata 256 pkt H post] H True by simp
  next
    case False
    then show ?thesis
      using data H by (simp add: d_def wire_data_def)
  qed
  moreover have "length (pre @ wire_record (rr, name, rdata)) = e + 6 + length d"
    by (simp add: wire_record_def k length_wire_name e_def d_def)
  ultimately show ?thesis
    using uncompress_wire [OF n p] k R by (simp add: rr_matches_def rr0_def)
qed

text \<open>Encoding a list of records into a buffer, and what the parser makes of it.\<close>

definition dns_encode_all :: "byte list \<Rightarrow> (dns_rr \<times> byte list \<times> byte list) list \<Rightarrow> byte list" where
  "dns_encode_all io rs = foldl (\<lambda>io (rr, name, rdata). fst (mg_dns_encode_record io rr name rdata)) io rs"

lemma encode_all_wire:
  assumes "list_all (record_ok k) rs" and "k \<noteq> MG_DNS_INVALID_RECORD"
  shows "dns_encode_all io rs = io @ concat (map wire_record rs)"
  using assms(1)
proof (induction rs arbitrary: io)
  case (Cons r rs)
  obtain rr name rdata where r: "r = (rr, name, rdata)" by (cases r)
  have "fst (mg_dns_encode_record io rr name rdata) = io @ wire_record r"
    using encode_record_wire [of k rr name rdata io] Cons(2) assms(2) by (auto simp: r)
  then show ?case
    using Cons by (simp add: dns_encode_all_def r)
qed (simp add: dns_encode_all_def)

lemma parse_records_wire:
  assumes "list_all (record_ok (if reply then MG_DNS_ANSWER else MG_DNS_QUESTION)) rs"
    and "pkt = pre @ concat (map wire_record rs) @ post"
  shows "\<exists>rrs. dns_parse_records pkt (length pre) reply (length rs)
      = Some (Some (rrs, length (pre @ concat (map wire_record rs)))) \<and> list_all2 (rr_matches pkt) rs rrs"
  using assms
proof (induction rs arbitrary: pre)
  case (Cons x rs)
  obtain rr name rdata where x: "x = (rr, name, rdata)" by (cases x)
  have "\<exists>r. mg_parse_dns_resource_record pkt (length pre) reply
      = Some (Some (r, length (pre @ wire_record x))) \<and> rr_matches pkt x r"
    using parse_question_wire [of rr name rdata pkt pre "concat (map wire_record rs) @ post"]
      parse_answer_wire [of rr name rdata pkt pre "concat (map wire_record rs) @ post"] Cons.prems
    by (cases reply) (auto simp: x)
  then obtain r where r: "mg_parse_dns_resource_record pkt (length pre) reply
      = Some (Some (r, length (pre @ wire_record x)))" "rr_matches pkt x r"
    by auto
  have "\<exists>rrs. dns_parse_records pkt (length (pre @ wire_record x)) reply (length rs)
      = Some (Some (rrs, length ((pre @ wire_record x) @ concat (map wire_record rs))))
      \<and> list_all2 (rr_matches pkt) rs rrs"
    using Cons.prems by (intro Cons.IH) auto
  then show ?case
    using r by auto
qed simp

lemma parse_dns_wire:
  assumes qs: "list_all (record_ok MG_DNS_QUESTION) qs" "length qs \<le> 32"
    and ans: "list_all (record_ok MG_DNS_ANSWER) ans" "length ans \<le> 32"
    and hdr: "dm_num_questions hdr = length qs" "dm_num_answers hdr = length ans"
    and pkt: "pkt = dns_header hdr @ concat (map wire_record qs) @ concat (map wire_record ans)"
  shows "\<exists>rqs ras d. mg_parse_dns pkt = Some (Some \<lparr>dm_pkt = pkt, dm_flags = dm_flags hdr,
        dm_transaction_id = dm_transaction_id hdr, dm_num_questions = length qs,
        dm_num_answers = length ans, dm_questions = rqs, dm_answers = ras\<rparr>)
    \<and> list_all2 (rr_matches pkt) qs rqs \<and> list_all2 (rr_matches pkt) ans ras
    \<and> dns_parse_records pkt 12 False (length qs)
        = Some (Some (rqs, 12 + length (concat (map wire_record qs))))"
proof -
  define Q where "Q = concat (map wire_record qs)"
  define A where "A = concat (map wire_record ans)"
  have p: "pkt = dns_header hdr @ Q @ A"
    by (simp add: pkt Q_def A_def)
  have h: "length (dns_header hdr) = 12"
    by (simp add: dns_header_def be16_def)
  obtain rqs where q: "dns_parse_records pkt 12 False (length qs) = Some (Some (rqs, 12 + length Q))"
    "list_all2 (rr_matches pkt) qs rqs"
    using parse_records_wire [of False qs pkt "dns_header hdr" A] qs(1) p h by (auto simp: Q_def)
  obtain ras d where a: "dns_parse_records pkt (12 + length Q) True (length ans) = Some (Some (ras, d))"
    "list_all2 (rr_matches pkt) ans ras"
    using parse_records_wire [of True ans pkt "dns_header hdr @ Q" "[]"] ans(1) p h by (auto simp: A_def)
  have F: "rd16 (pkt ! 4) (pkt ! 5) = of_nat (length qs)" "rd16 (pkt ! 6) (pkt ! 7) = of_nat (length ans)"
    "rd16 (pkt ! 2) (pkt ! 3) = dm_flags hdr" "rd16 (pkt ! Suc 0) (pkt ! 0) = dm_transaction_id hdr"
    by (simp_all add: p dns_header_def be16_def hdr nth_append)
  have "length qs = min (unat (rd16 (pkt ! 4) (pkt ! 5))) 32" "length ans = min (unat (rd16 (pkt ! 6) (pkt ! 7))) 32"
    using qs(2) ans(2) by (simp_all add: F unat_of_nat_u16)
  from mg_parse_dns_records [OF _ this] show ?thesis
    using p h q a F by (simp add: Q_def)
qed

text \<open>
  C32. A DNS message of up to 32 questions and 32 answers, written with
  \<open>mg_dns_insert_header\<close> and \<open>mg_dns_encode_record\<close>, is parsed back: the transaction id, the
  flags, and for each record its type, class and name (expanded with
  \<open>mg_dns_uncompress_name\<close>), for an answer also its time to live and its data, or the name in
  it when it is a CNAME record. Names have less than 255 bytes, no NUL, and labels of 1 to 63 bytes (the encoder takes up to
  127, which the parser reads as pointers or otherwise wrongly); the data of an answer is not empty (the parser refuses a last answer with empty
  data) and has less than 65536 bytes.
\<close>

theorem dns_message_roundtrip:
  assumes "list_all (record_ok MG_DNS_QUESTION) qs" and "length qs \<le> 32"
    and "list_all (record_ok MG_DNS_ANSWER) ans" and "length ans \<le> 32"
    and "hdr = dns_message0\<lparr>dm_transaction_id := tid, dm_flags := fl,
      dm_num_questions := length qs, dm_num_answers := length ans\<rparr>"
    and "pkt = dns_encode_all (dns_encode_all (mg_dns_insert_header [] 0 hdr) qs) ans"
  shows "\<exists>msg. mg_parse_dns pkt = Some (Some msg)
    \<and> dm_transaction_id msg = tid \<and> dm_flags msg = fl
    \<and> list_all2 (rr_matches pkt) qs (dm_questions msg)
    \<and> list_all2 (rr_matches pkt) ans (dm_answers msg)"
proof -
  have "pkt = dns_header hdr @ concat (map wire_record qs) @ concat (map wire_record ans)"
    using encode_all_wire [OF assms(1)] encode_all_wire [OF assms(3)] assms(6)
    by (simp add: mg_dns_insert_header_def)
  from parse_dns_wire [OF assms(1-4) _ _ this] show ?thesis
    using assms(5) by auto
qed

theorem dns_message_roundtrip_witness:
  "\<exists>msg. mg_parse_dns (dns_encode_all (dns_encode_all (mg_dns_insert_header [] 0
       (dns_message0\<lparr>dm_transaction_id := 7, dm_flags := 256, dm_num_questions := 1, dm_num_answers := 1\<rparr>))
       [(rr0\<lparr>rr_rtype := 1, rr_rclass := 1, rr_kind := MG_DNS_QUESTION\<rparr>, bs ''a.bc'', [0])])
       [(rr0\<lparr>rr_rtype := 5, rr_rclass := 1, rr_ttl := 60, rr_kind := MG_DNS_ANSWER\<rparr>, bs ''a.bc'', bs ''d'')])
     = Some (Some msg) \<and> dm_transaction_id msg = 7"
  using dns_message_roundtrip [where tid = 7 and fl = 256
      and qs = "[(rr0\<lparr>rr_rtype := 1, rr_rclass := 1, rr_kind := MG_DNS_QUESTION\<rparr>, bs ''a.bc'', [0])]"
      and ans = "[(rr0\<lparr>rr_rtype := 5, rr_rclass := 1, rr_ttl := 60, rr_kind := MG_DNS_ANSWER\<rparr>, bs ''a.bc'', bs ''d'')]",
      OF _ _ _ _ refl refl]
  by (auto simp: record_ok_def rr0_def name_ok_def bs_def of_char_def)

section \<open>Replies\<close>

lemma question_end:
  "mg_parse_dns_resource_record pkt d False = Some (Some (r, d')) \<Longrightarrow>
     d' = fst (rr_name r) + snd (rr_name r) + 4"
  using dns_skip_name_ge [of d pkt]
  by (auto simp: mg_parse_dns_resource_record_def Let_def rr0_def split: if_splits option.splits)

lemma questions_end:
  "dns_parse_records pkt d False n = Some (Some (rs, d')) \<Longrightarrow>
     length rs = n \<and> (n > 0 \<longrightarrow> d' = fst (rr_name (last rs)) + snd (rr_name (last rs)) + 4)"
proof (induction n arbitrary: d rs)
  case (Suc n)
  then obtain r d1 rs' where r: "mg_parse_dns_resource_record pkt d False = Some (Some (r, d1))"
    "dns_parse_records pkt d1 False n = Some (Some (rs', d'))" "rs = r # rs'"
    by (auto split: option.splits)
  then show ?case
    using Suc.IH [OF r(2)] question_end [OF r(1)] by (cases n) (auto split: option.splits)
qed simp

text \<open>The answers given to a reply, one after the other, each for a question and with its name.\<close>

fun dns_reply_all ::
  "dns_reply \<Rightarrow> (dns_rr \<times> byte list \<times> int \<times> int \<times> byte list) list \<Rightarrow> dns_reply option" where
  "dns_reply_all r [] = Some r"
| "dns_reply_all r ((q, name, rtype, ttl, rdata) # as) =
     (case mg_dns_reply_record r q (Some name) rtype ttl rdata of
        Some (r', k) \<Rightarrow> if k = 0 then dns_reply_all r' as else None
      | None \<Rightarrow> None)"

definition answer_of :: "dns_rr \<times> byte list \<times> int \<times> int \<times> byte list \<Rightarrow> dns_rr \<times> byte list \<times> byte list" where
  "answer_of = (\<lambda>(q, name, rtype, ttl, rdata).
     (q\<lparr>rr_kind := MG_DNS_ANSWER, rr_rtype := rtype, rr_ttl := ttl\<rparr>, name, rdata))"

lemma reply_all_wire:
  assumes "list_all (record_ok MG_DNS_ANSWER) (map answer_of as)"
    and "dm_num_answers (rep_msg r) + length as \<le> 32"
  shows "\<exists>r'. dns_reply_all r as = Some r' \<and> rep_start r' = rep_start r
    \<and> rep_io r' = rep_io r @ concat (map (wire_record \<circ> answer_of) as)
    \<and> dm_num_answers (rep_msg r') = dm_num_answers (rep_msg r) + length as
    \<and> dm_num_questions (rep_msg r') = dm_num_questions (rep_msg r)
    \<and> dm_flags (rep_msg r') = dm_flags (rep_msg r)
    \<and> dm_transaction_id (rep_msg r') = dm_transaction_id (rep_msg r)"
  using assms
proof (induction as arbitrary: r)
  case (Cons a as)
  obtain q name rtype ttl rdata where a: "a = (q, name, rtype, ttl, rdata)"
    by (cases a)
  define rr where "rr = q\<lparr>rr_kind := MG_DNS_ANSWER, rr_rtype := rtype, rr_ttl := ttl\<rparr>"
  have "record_ok MG_DNS_ANSWER (rr, name, rdata)"
    using Cons.prems by (simp add: a answer_of_def rr_def)
  then obtain k where "mg_dns_encode_record (rep_io r) rr name rdata
      = (rep_io r @ wire_record (rr, name, rdata), k)" "k \<noteq> -1"
    using encode_record_wire [of MG_DNS_ANSWER rr name rdata "rep_io r"] by auto
  then obtain r1 where r1: "mg_dns_reply_record r q (Some name) rtype ttl rdata = Some (r1, 0)"
    "rep_start r1 = rep_start r" "rep_io r1 = rep_io r @ wire_record (rr, name, rdata)"
    "dm_num_answers (rep_msg r1) = dm_num_answers (rep_msg r) + 1"
    "dm_num_questions (rep_msg r1) = dm_num_questions (rep_msg r)"
    "dm_flags (rep_msg r1) = dm_flags (rep_msg r)"
    "dm_transaction_id (rep_msg r1) = dm_transaction_id (rep_msg r)"
    using Cons.prems(2) by (simp add: mg_dns_reply_record_def Let_def rr_def)
  then show ?case
    using Cons.IH [of r1] Cons.prems by (auto simp: a answer_of_def rr_def)
qed simp

text \<open>
  Answering a query: when the packet of a query with these questions was parsed, a reply
  made with \<open>mg_dns_create_reply\<close>, one \<open>mg_dns_reply_record\<close> per answer and
  \<open>mg_dns_send_reply\<close> over UDP is a packet that parses to the transaction id of the query, its
  flags with the reply bits, its questions and the given answers.
\<close>

lemma dns_reply_roundtrip:
  assumes "list_all (record_ok MG_DNS_QUESTION) qs" and "length qs \<le> 32"
    and "list_all (record_ok MG_DNS_ANSWER) (map answer_of as)" and "length as \<le> 32"
    and "hdr = dns_message0\<lparr>dm_transaction_id := tid, dm_flags := fl, dm_num_questions := length qs\<rparr>"
    and "mg_parse_dns (dns_encode_all (mg_dns_insert_header [] 0 hdr) qs) = Some (Some msg)"
  shows "\<exists>r pkt ans. dns_reply_all (mg_dns_create_reply [] msg) as = Some r
    \<and> pkt = mg_dns_send_reply True r \<and> mg_parse_dns pkt = Some (Some ans)
    \<and> dm_transaction_id ans = tid \<and> dm_flags ans = fl OR 0x8080
    \<and> list_all2 (rr_matches pkt) qs (dm_questions ans)
    \<and> list_all2 (rr_matches pkt) (map answer_of as) (dm_answers ans)"
proof -
  define Q where "Q = concat (map wire_record qs)"
  have enc: "dns_encode_all (mg_dns_insert_header [] 0 hdr) qs = dns_header hdr @ Q"
    using encode_all_wire [OF assms(1)] by (simp add: mg_dns_insert_header_def Q_def)
  obtain rqs where msg: "msg = \<lparr>dm_pkt = dns_header hdr @ Q, dm_flags = fl, dm_transaction_id = tid,
      dm_num_questions = length qs, dm_num_answers = 0, dm_questions = rqs, dm_answers = dm_answers msg\<rparr>"
    and rqs: "dns_parse_records (dns_header hdr @ Q) 12 False (length qs) = Some (Some (rqs, 12 + length Q))"
    using parse_dns_wire [OF assms(1,2), of "[]" hdr "dns_header hdr @ Q"] assms(5,6) enc
    by (auto simp: Q_def dns_message0_def)
  have len: "length (dns_header hdr) = 12"
    by (simp add: dns_header_def be16_def)
  have "mg_dns_copy_questions [] (msg\<lparr>dm_flags := f\<rparr>) = Q" for f
  proof (cases "qs = []")
    case True
    then show ?thesis
      by (subst msg) (simp add: mg_dns_copy_questions_def Q_def)
  next
    case False
    define q where "q = rqs ! (length qs - 1)"
    have "rqs \<noteq> []" "length rqs = length qs"
      using questions_end [OF rqs] False by auto
    then have "last rqs = q"
      by (simp add: q_def last_conv_nth)
    then have "12 + length Q = fst (rr_name q) + snd (rr_name q) + 4"
      using questions_end [OF rqs] False by simp
    then have "fst (rr_name q) + snd (rr_name q) + 4 - 12 = length Q"
      by simp
    then show ?thesis
      using False len unfolding q_def by (subst msg) (simp add: mg_dns_copy_questions_def Let_def)
  qed
  then have cr: "mg_dns_create_reply [] msg =
      \<lparr>rep_msg = msg\<lparr>dm_flags := fl OR 0x8080, dm_num_answers := 0\<rparr>, rep_io = Q, rep_start = 0\<rparr>"
    using msg by (simp add: mg_dns_create_reply_def)
      (metis dns_message.select_convs(2))
  obtain r where r: "dns_reply_all (mg_dns_create_reply [] msg) as = Some r" "rep_start r = 0"
    "rep_io r = Q @ concat (map (wire_record \<circ> answer_of) as)"
    "dm_num_answers (rep_msg r) = length as" "dm_num_questions (rep_msg r) = length qs"
    "dm_flags (rep_msg r) = fl OR 0x8080" "dm_transaction_id (rep_msg r) = tid"
    using reply_all_wire [OF assms(3), of "mg_dns_create_reply [] msg"] assms(4)
    by (auto simp: cr) (metis msg dns_message.select_convs(3,4))
  have "mg_dns_send_reply True r =
      dns_header (rep_msg r) @ concat (map wire_record qs) @ concat (map wire_record (map answer_of as))"
    by (simp add: mg_dns_send_reply_def r mg_dns_insert_header_def Q_def)
  from parse_dns_wire [OF assms(1-3) _ _ _ this] show ?thesis
    using r assms(4) by auto
qed

lemma dns_reply_roundtrip_witness:
  "\<exists>q r pkt ans. mg_parse_dns (dns_encode_all (mg_dns_insert_header [] 0
        (dns_message0\<lparr>dm_transaction_id := 7, dm_flags := 256, dm_num_questions := 1\<rparr>))
        [(rr0\<lparr>rr_rtype := 1, rr_rclass := 1, rr_kind := MG_DNS_QUESTION\<rparr>, bs ''a.bc'', [0])])
      = Some (Some q)
    \<and> dns_reply_all (mg_dns_create_reply [] q) [(rr0, bs ''a.bc'', 1, 60, [127, 0, 0, 1])] = Some r
    \<and> pkt = mg_dns_send_reply True r \<and> mg_parse_dns pkt = Some (Some ans)
    \<and> dm_transaction_id ans = 7 \<and> dm_flags ans = 256 OR 0x8080"
proof -
  let ?qs = "[(rr0\<lparr>rr_rtype := 1, rr_rclass := 1, rr_kind := MG_DNS_QUESTION\<rparr>, bs ''a.bc'', [0 :: byte])]"
  let ?hdr = "dns_message0\<lparr>dm_transaction_id := 7, dm_flags := 256, dm_num_questions := length ?qs\<rparr>"
  have ok: "list_all (record_ok MG_DNS_QUESTION) ?qs"
    "list_all (record_ok MG_DNS_ANSWER) (map answer_of [(rr0, bs ''a.bc'', 1, 60, [127, 0, 0, 1])])"
    by (simp_all add: record_ok_def rr0_def name_ok_def bs_def of_char_def answer_of_def)
  have "dns_encode_all (mg_dns_insert_header [] 0 ?hdr) ?qs = dns_header ?hdr @ concat (map wire_record ?qs)"
    using encode_all_wire [OF ok(1)] by (simp add: mg_dns_insert_header_def)
  then obtain q where "mg_parse_dns (dns_encode_all (mg_dns_insert_header [] 0 ?hdr) ?qs) = Some (Some q)"
    using parse_dns_wire [OF ok(1), of "[]" ?hdr] by (auto simp: dns_message0_def)
  from dns_reply_roundtrip [OF ok(1) _ ok(2) _ refl this] this show ?thesis
    by auto
qed

text \<open>
  Over TCP the length in front of a reply is computed before the header is inserted: it is 12
  bytes short.
\<close>

lemma dns_tcp_reply_length:
  assumes "rep_start r \<le> length (rep_io r)"
  shows "\<exists>rest. mg_dns_send_reply False r = be16 (of_nat (length rest - 12)) @ rest"
  using assms
  by (intro exI [of _ "dns_header (rep_msg r) @ drop (rep_start r) (rep_io r)"])
    (simp add: mg_dns_send_reply_def mg_dns_insert_header_def Let_def dns_header_def)

end
