(* ===== verification/Coap.thy ===== *)
theory Coap
  imports Prelude "HOL-Library.Multiset"
begin

text \<open>
  The CoAP module (\<open>mongoose/src/coap.c\<close>): the option list, the parser with its flags, and the
  composition of packets, which computes the size of a packet before it writes it. The
  remaining input is the list of the bytes from \<open>ptr\<close> to the end of the buffer.
\<close>

section \<open>Messages\<close>

type_synonym coap_option = "u32 \<times> byte list"

text \<open>
  \<open>struct mg_coap_message\<close>. The linked list of options is a list; \<open>optiomg_tail\<close> is its last
  element whenever it is not empty. The length of the token is a field of its own, since the
  parser sets it before the token.
\<close>

record coap_message =
  cm_flags :: u32
  cm_msg_type :: byte
  cm_code_class :: byte
  cm_code_detail :: byte
  cm_msg_id :: u16
  cm_token_len :: nat
  cm_token :: "byte list"
  cm_options :: "coap_option list"
  cm_payload :: "byte list"

definition coap_message0 :: coap_message where
  "coap_message0 = \<lparr>cm_flags = 0, cm_msg_type = 0, cm_code_class = 0, cm_code_detail = 0,
     cm_msg_id = 0, cm_token_len = 0, cm_token = [], cm_options = [], cm_payload = []\<rparr>"

definition MG_COAP_ERROR :: u32 where "MG_COAP_ERROR = 0x10000"
definition MG_COAP_FORMAT_ERROR :: u32 where "MG_COAP_FORMAT_ERROR = MG_COAP_ERROR OR 0x20000"
definition MG_COAP_IGNORE :: u32 where "MG_COAP_IGNORE = MG_COAP_ERROR OR 0x40000"
definition MG_COAP_NOT_ENOUGH_DATA :: u32 where "MG_COAP_NOT_ENOUGH_DATA = MG_COAP_ERROR OR 0x80000"

definition add_flags :: "u32 \<Rightarrow> coap_message \<Rightarrow> coap_message" where
  "add_flags fl cm = cm\<lparr>cm_flags := cm_flags cm OR fl\<rparr>"

section \<open>Options\<close>

definition mg_coap_free_options :: "coap_message \<Rightarrow> coap_message" where
  "mg_coap_free_options cm = cm\<lparr>cm_options := []\<rparr>"

text \<open>The search for the position of an option: in front of the first greater number.\<close>

fun coap_insert :: "coap_option \<Rightarrow> coap_option list \<Rightarrow> coap_option list" where
  "coap_insert x [] = [x]"
| "coap_insert x (y # ys) = (if fst y > fst x then x # y # ys else y # coap_insert x ys)"

definition mg_coap_add_option :: "coap_message \<Rightarrow> u32 \<Rightarrow> byte list \<Rightarrow> coap_message" where
  "mg_coap_add_option cm number val =
     (if cm_options cm = [] then cm\<lparr>cm_options := [(number, val)]\<rparr>
      else if fst (last (cm_options cm)) \<le> number
      then cm\<lparr>cm_options := cm_options cm @ [(number, val)]\<rparr>
      else cm\<lparr>cm_options := coap_insert (number, val) (cm_options cm)\<rparr>)"

section \<open>Parsing\<close>

text \<open>Each step gives the rest of the packet, or \<open>None\<close> for its null pointer, and the message.\<close>

definition coap_parse_header :: "byte list \<Rightarrow> coap_message \<Rightarrow> byte list option \<times> coap_message" where
  "coap_parse_header io cm =
     (case io of
        a # b # c # d # ptr \<Rightarrow>
          (if drop_bit 6 a \<noteq> 1 then (None, add_flags MG_COAP_IGNORE cm)
           else let cm = add_flags 2 (cm\<lparr>cm_msg_type := drop_bit 4 (a AND 0x30)\<rparr>);
                    cm = cm\<lparr>cm_token_len := unat (a AND 0x0F)\<rparr>
           in if cm_token_len cm > 8 then (None, add_flags MG_COAP_FORMAT_ERROR cm)
              else let cm = add_flags (4 OR 8) (cm\<lparr>cm_code_class := drop_bit 5 b, cm_code_detail := b AND 0x1F\<rparr>);
                       cm = add_flags 0x10 (cm\<lparr>cm_msg_id := rd16 c d\<rparr>)
              in (Some ptr, cm))
      | _ \<Rightarrow> (None, add_flags MG_COAP_NOT_ENOUGH_DATA cm))"

definition coap_get_token :: "byte list \<Rightarrow> coap_message \<Rightarrow> byte list option \<times> coap_message" where
  "coap_get_token ptr cm =
     (if cm_token_len cm \<noteq> 0 then
        (if cm_token_len cm > length ptr then (None, add_flags MG_COAP_NOT_ENOUGH_DATA cm)
         else (Some (drop (cm_token_len cm) ptr), add_flags 0x20 (cm\<lparr>cm_token := take (cm_token_len cm) ptr\<rparr>)))
      else (Some ptr, cm))"

text \<open>
  \<open>coap_get_ext_opt\<close>: the option delta or length, extended by the bytes that follow, and the
  rest of the packet; \<open>None\<close> is its -1. The value is a \<open>uint16_t\<close>.
\<close>

definition coap_get_ext_opt :: "byte list \<Rightarrow> u16 \<Rightarrow> (u16 \<times> byte list) option" where
  "coap_get_ext_opt ptr opt_info =
     (if opt_info = 13 then (case ptr of a # r \<Rightarrow> Some (ucast a + 13, r) | [] \<Rightarrow> None)
      else if opt_info = 14 then
        (case ptr of a # b # r \<Rightarrow> Some (rd16 a b + 269, r) | _ \<Rightarrow> None)
      else Some (opt_info, ptr))"

lemma coap_get_ext_opt_length: "coap_get_ext_opt ptr v = Some (v', r) \<Longrightarrow> length r \<le> length ptr"
  by (auto simp: coap_get_ext_opt_def split: if_splits list.splits)

text \<open>The loop over the options; it stops at the payload marker, at the end or on an error.\<close>

function coap_options_loop :: "byte list \<Rightarrow> u16 \<Rightarrow> coap_message \<Rightarrow> byte list \<times> coap_message" where
  "coap_options_loop ptr prev_opt cm =
     (case ptr of
        [] \<Rightarrow> (ptr, cm)
      | c # ptr1 \<Rightarrow>
          if c = 0xFF then (ptr, cm)
          else let delta = ucast (drop_bit 4 (c AND 0xF0)) :: u16; len = ucast (c AND 0x0F) :: u16 in
          if delta = 15 \<or> len = 15 then (ptr, add_flags MG_COAP_FORMAT_ERROR cm)
          else (case coap_get_ext_opt ptr1 delta of
            None \<Rightarrow> (ptr1, add_flags MG_COAP_NOT_ENOUGH_DATA cm)
          | Some (delta, ptr2) \<Rightarrow>
              (case coap_get_ext_opt ptr2 len of
                 None \<Rightarrow> (ptr2, add_flags MG_COAP_NOT_ENOUGH_DATA cm)
               | Some (len, ptr3) \<Rightarrow>
                   let delta = delta + prev_opt;
                       cm = mg_coap_add_option cm (ucast delta) (take (unat len) ptr3)
                   in if unat len > length ptr3 then (ptr3, add_flags MG_COAP_NOT_ENOUGH_DATA cm)
                      else coap_options_loop (drop (unat len) ptr3) delta cm)))"
  by pat_completeness auto
termination
  by (relation "measure (\<lambda>(ptr, prev, cm). length ptr)")
    (auto dest!: coap_get_ext_opt_length)

declare coap_options_loop.simps [simp del]

definition coap_get_options :: "byte list \<Rightarrow> coap_message \<Rightarrow> byte list option \<times> coap_message" where
  "coap_get_options ptr cm =
     (if ptr = [] then (None, cm)
      else let (ptr, cm) = coap_options_loop ptr 0 cm in
      if cm_flags cm AND MG_COAP_ERROR \<noteq> 0 then (None, mg_coap_free_options cm)
      else let cm = add_flags 0x40 cm in
      if ptr = [] then (None, cm) else (Some (drop 1 ptr), cm))"

definition mg_coap_parse :: "byte list \<Rightarrow> coap_message" where
  "mg_coap_parse io =
     (case coap_parse_header io coap_message0 of
        (None, cm) \<Rightarrow> cm
      | (Some ptr, cm) \<Rightarrow>
          (case coap_get_token ptr cm of
             (None, cm) \<Rightarrow> cm
           | (Some ptr, cm) \<Rightarrow>
               (case coap_get_options ptr cm of
                  (None, cm) \<Rightarrow> cm
                | (Some ptr, cm) \<Rightarrow>
                    if ptr \<noteq> [] then add_flags 0x80 (cm\<lparr>cm_payload := ptr\<rparr>) else cm)))"

section \<open>Composing\<close>

definition coap_get_ext_opt_size :: "u32 \<Rightarrow> nat" where
  "coap_get_ext_opt_size v =
     (if v \<ge> 13 \<and> v \<le> 0xFF + 13 then 1 else if v > 0xFF + 13 \<and> v \<le> 0xFFFF + 269 then 2 else 0)"

text \<open>\<open>coap_split_opt\<close>: base, extension and the size of the extension.\<close>

definition coap_split_opt :: "u32 \<Rightarrow> byte \<times> u16 \<times> nat" where
  "coap_split_opt v =
     (if v < 13 then (ucast v, 0, 0)
      else if v \<ge> 13 \<and> v \<le> 0xFF + 13 then (13, ucast (v - 13), 1)
      else if v > 0xFF + 13 \<and> v \<le> 0xFFFF + 269 then (14, ucast (v - 269), 2)
      else (0, 0, 0))"

definition coap_add_opt_info :: "u16 \<Rightarrow> nat \<Rightarrow> byte list" where
  "coap_add_opt_info v len = (if len = 1 then [ucast v] else if len = 2 then be16 v else [])"

text \<open>
  \<open>coap_calculate_packet_size\<close>: an error code or the size. \<open>prev_opt_number\<close> stays 0 in it,
  and the extension of a delta is counted by the number itself.
\<close>

fun coap_options_size :: "coap_option list \<Rightarrow> nat option" where
  "coap_options_size [] = Some 0"
| "coap_options_size ((number, val) # opts) =
     (if (opts \<noteq> [] \<and> number > fst (hd opts)) \<or> length val > 0xFFFF + 269 \<or> number > 0xFFFF + 269
      then None
      else map_option (\<lambda>n. 1 + coap_get_ext_opt_size number
             + coap_get_ext_opt_size (of_nat (length val)) + length val + n) (coap_options_size opts))"

definition coap_calculate_packet_size :: "coap_message \<Rightarrow> u32 + nat" where
  "coap_calculate_packet_size cm =
     (if cm_msg_type cm > 3 then Inl (MG_COAP_ERROR OR 2)
      else if cm_token_len cm > 8 then Inl (MG_COAP_ERROR OR 0x20)
      else if cm_code_class cm > 7 then Inl (MG_COAP_ERROR OR 4)
      else if cm_code_detail cm > 31 then Inl (MG_COAP_ERROR OR 8)
      else let len = 4 + cm_token_len cm + (if cm_payload cm \<noteq> [] then length (cm_payload cm) + 1 else 0)
           in case coap_options_size (cm_options cm) of
                None \<Rightarrow> Inl (MG_COAP_ERROR OR 0x40)
              | Some n \<Rightarrow> Inr (len + n))"

text \<open>The bytes that \<open>mg_coap_compose\<close> writes for the options.\<close>

fun coap_put_options :: "u32 \<Rightarrow> coap_option list \<Rightarrow> byte list" where
  "coap_put_options prev [] = []"
| "coap_put_options prev ((number, val) # opts) =
     (let (delta_base, delta_ext, delta_len) = coap_split_opt (number - prev);
          (length_base, length_ext, length_len) = coap_split_opt (of_nat (length val))
      in (push_bit 4 delta_base OR length_base)
         # coap_add_opt_info delta_ext delta_len @ coap_add_opt_info length_ext length_len
         @ val @ coap_put_options number opts)"

definition coap_put :: "coap_message \<Rightarrow> byte list" where
  "coap_put cm =
     [push_bit 6 1 OR push_bit 4 (cm_msg_type cm) OR of_nat (cm_token_len cm),
      push_bit 5 (cm_code_class cm) OR cm_code_detail cm]
     @ be16 (cm_msg_id cm)
     @ take (cm_token_len cm) (cm_token cm)
     @ coap_put_options 0 (cm_options cm)
     @ (if cm_payload cm \<noteq> [] then 0xFF # cm_payload cm else [])"

text \<open>
  \<open>mg_coap_compose\<close>: the result code and the buffer. The packet is reserved with
  \<open>mbuf_append (io, NULL, packet_size)\<close>, which leaves the bytes \<open>junk packet_size\<close> in it,
  and written from its start; \<open>None\<close> would be a write behind it.
\<close>

definition mg_coap_compose :: "(nat \<Rightarrow> byte list) \<Rightarrow> coap_message \<Rightarrow> byte list \<Rightarrow> (u32 \<times> byte list) option" where
  "mg_coap_compose junk cm io =
     (case coap_calculate_packet_size cm of
        Inl res \<Rightarrow> Some (res, io)
      | Inr packet_size \<Rightarrow>
          (let w = coap_put cm
           in if length w \<le> packet_size
              then Some (0, io @ blit 0 w (take packet_size (junk packet_size)))
              else None))"

definition mg_coap_send_message :: "(nat \<Rightarrow> byte list) \<Rightarrow> coap_message \<Rightarrow> (u32 \<times> byte list) option" where
  "mg_coap_send_message junk cm = mg_coap_compose junk cm []"

definition mg_coap_send_ack :: "(nat \<Rightarrow> byte list) \<Rightarrow> u16 \<Rightarrow> (u32 \<times> byte list) option" where
  "mg_coap_send_ack junk msg_id =
     mg_coap_send_message junk (coap_message0\<lparr>cm_msg_type := 2, cm_msg_id := msg_id\<rparr>)"

text \<open>\<open>coap_handler\<close> on \<open>MG_EV_RECV\<close>: the event it raises, if any; the buffer is emptied.\<close>

definition coap_handler :: "byte list \<Rightarrow> (nat \<times> coap_message) option \<times> byte list" where
  "coap_handler io =
     (let cm = mg_coap_parse io in
      (if cm_flags cm AND MG_COAP_IGNORE = 0
       then Some (300 + unat (cm_msg_type cm),
              if cm_flags cm AND MG_COAP_NOT_ENOUGH_DATA \<noteq> 0 then add_flags MG_COAP_FORMAT_ERROR cm else cm)
       else None, []))"

section \<open>The option list is kept sorted\<close>

lemma coap_insert_split:
  "coap_insert x ys = takeWhile (\<lambda>y. fst y \<le> fst x) ys @ x # dropWhile (\<lambda>y. fst y \<le> fst x) ys"
  by (induction ys) auto

lemma sorted_last: "sorted (map fst ys) \<Longrightarrow> y \<in> set ys \<Longrightarrow> fst y \<le> fst (last ys)"
  by (induction ys) auto

lemma add_option_split:
  assumes "sorted (map fst (cm_options cm))"
  shows "cm_options (mg_coap_add_option cm n v) =
    takeWhile (\<lambda>y. fst y \<le> n) (cm_options cm) @ (n, v) # dropWhile (\<lambda>y. fst y \<le> n) (cm_options cm)"
proof (cases "cm_options cm = [] \<or> fst (last (cm_options cm)) > n")
  case True
  then show ?thesis
    by (auto simp: mg_coap_add_option_def coap_insert_split)
next
  case False
  have "\<forall>y \<in> set (cm_options cm). fst y \<le> n"
    using False sorted_last [OF assms] by force
  then have "takeWhile (\<lambda>y. fst y \<le> n) (cm_options cm) = cm_options cm"
    "dropWhile (\<lambda>y. fst y \<le> n) (cm_options cm) = []"
    by auto
  then show ?thesis
    using False by (simp add: mg_coap_add_option_def not_less
        del: dropWhile_eq_Nil_conv takeWhile_eq_all_conv)
qed

lemma sorted_insert_split:
  assumes "sorted (map fst ys)"
  shows "sorted (map fst (takeWhile (\<lambda>y. fst y \<le> n) ys @ (n, v) # dropWhile (\<lambda>y. fst y \<le> n) ys))"
  using assms
proof (induction ys)
  case (Cons y ys)
  then show ?case
    by (cases "fst y \<le> n") (auto dest: set_takeWhileD set_dropWhileD)
qed simp

lemma filter_insert_split:
  assumes "sorted (map fst ys)"
  shows "filter (\<lambda>x. fst x = k) (takeWhile (\<lambda>y. fst y \<le> n) ys @ (n, v) # dropWhile (\<lambda>y. fst y \<le> n) ys)
    = filter (\<lambda>x. fst x = k) (ys @ [(n, v)])"
  using assms
proof (induction ys)
  case (Cons y ys)
  show ?case
  proof (cases "fst y \<le> n")
    case True
    then show ?thesis using Cons by simp
  next
    case False
    then have "\<forall>x \<in> set (y # ys). fst x \<noteq> n"
      using Cons.prems by force
    then show ?thesis
      using False by (auto simp: filter_empty_conv)
  qed
qed simp

text \<open>
  Adding options to an empty message in any order leaves the list of options sorted by
  number, options of the same number in the order of their addition: it is the stable sort of
  the options by number.
\<close>

lemma mg_coap_add_option_sorts:
  "cm_options (foldl (\<lambda>cm (n, v). mg_coap_add_option cm n v) coap_message0 opts) = sort_key fst opts"
proof (rule sym, rule properties_for_sort_key)
  let ?ys = "\<lambda>opts. cm_options (foldl (\<lambda>cm (n, v). mg_coap_add_option cm n v) coap_message0 opts)"
  have inv: "sorted (map fst (?ys opts)) \<and> mset (?ys opts) = mset opts
      \<and> (\<forall>k. filter (\<lambda>x. fst x = k) (?ys opts) = filter (\<lambda>x. fst x = k) opts)"
  proof (induction opts rule: rev_induct)
    case (snoc o' opts)
    obtain n v where o': "o' = (n, v)" by (cases o')
    define ys where "ys = ?ys opts"
    have s: "sorted (map fst ys)" "mset ys = mset opts"
      "\<forall>k. filter (\<lambda>x. fst x = k) ys = filter (\<lambda>x. fst x = k) opts"
      using snoc by (auto simp: ys_def)
    have e: "?ys (opts @ [o']) = takeWhile (\<lambda>y. fst y \<le> n) ys @ (n, v) # dropWhile (\<lambda>y. fst y \<le> n) ys"
      using add_option_split s(1) by (simp add: o' ys_def)
    have "mset (takeWhile (\<lambda>y. fst y \<le> n) ys) + mset (dropWhile (\<lambda>y. fst y \<le> n) ys) = mset ys"
      by (metis mset_append takeWhile_dropWhile_id)
    then show ?case
      unfolding e using s sorted_insert_split [OF s(1), of n v] filter_insert_split [OF s(1), of _ n v]
      by (simp add: o')
  qed (simp add: coap_message0_def)
  then show "mset (?ys opts) = mset opts" "sorted (map fst (?ys opts))"
    by auto
  show "filter (\<lambda>x. fst k = fst x) (?ys opts) = filter (\<lambda>x. fst k = fst x) opts" if "k \<in> set (?ys opts)" for k
    using inv by (simp add: eq_commute [of "fst k"])
qed

section \<open>What is composed is parsed\<close>

text \<open>Bit fields of the first two header bytes and of the first byte of an option.\<close>

lemma header_bits:
  assumes "t \<le> (3 :: byte)" and "k \<le> 8"
  shows "drop_bit 6 (push_bit 6 1 OR push_bit 4 t OR of_nat k) = 1"
    and "drop_bit 4 ((push_bit 6 1 OR push_bit 4 t OR of_nat k) AND 0x30) = t"
    and "unat ((push_bit 6 1 OR push_bit 4 t OR (of_nat k :: byte)) AND 0x0F) = k"
proof -
  have "\<forall>t \<in> set [0..<4]. \<forall>k \<in> set [0..<9].
      drop_bit 6 (push_bit 6 1 OR push_bit 4 (of_nat t) OR (of_nat k :: byte)) = 1
      \<and> drop_bit 4 ((push_bit 6 1 OR push_bit 4 (of_nat t) OR (of_nat k :: byte)) AND 0x30) = of_nat t
      \<and> unat ((push_bit 6 1 OR push_bit 4 (of_nat t) OR (of_nat k :: byte)) AND 0x0F) = k"
    by (simp add: upt_rec)
  moreover have "unat t \<in> set [0..<4]" "k \<in> set [0..<9]"
    using assms by (auto simp: word_le_nat_alt)
  ultimately have "drop_bit 6 (push_bit 6 1 OR push_bit 4 (of_nat (unat t)) OR (of_nat k :: byte)) = 1
      \<and> drop_bit 4 ((push_bit 6 1 OR push_bit 4 (of_nat (unat t)) OR (of_nat k :: byte)) AND 0x30) = of_nat (unat t)
      \<and> unat ((push_bit 6 1 OR push_bit 4 (of_nat (unat t)) OR (of_nat k :: byte)) AND 0x0F) = k"
    by blast
  then show "drop_bit 6 (push_bit 6 1 OR push_bit 4 t OR of_nat k) = 1"
    "drop_bit 4 ((push_bit 6 1 OR push_bit 4 t OR of_nat k) AND 0x30) = t"
    "unat ((push_bit 6 1 OR push_bit 4 t OR (of_nat k :: byte)) AND 0x0F) = k"
    by simp_all
qed

lemma code_bits:
  assumes "c \<le> (7 :: byte)" and "d \<le> 31"
  shows "drop_bit 5 (push_bit 5 c OR d) = c" and "(push_bit 5 c OR d) AND 0x1F = d"
proof -
  have "\<forall>c \<in> set [0..<8]. \<forall>d \<in> set [0..<32].
      drop_bit 5 (push_bit 5 (of_nat c) OR (of_nat d :: byte)) = of_nat c
      \<and> (push_bit 5 (of_nat c) OR (of_nat d :: byte)) AND 0x1F = of_nat d"
    by (simp add: upt_rec)
  moreover have "unat c \<in> set [0..<8]" "unat d \<in> set [0..<32]"
    using assms by (auto simp: word_le_nat_alt)
  ultimately have "drop_bit 5 (push_bit 5 (of_nat (unat c)) OR (of_nat (unat d) :: byte)) = of_nat (unat c)
      \<and> (push_bit 5 (of_nat (unat c)) OR (of_nat (unat d) :: byte)) AND 0x1F = of_nat (unat d)"
    by blast
  then show "drop_bit 5 (push_bit 5 c OR d) = c" "(push_bit 5 c OR d) AND 0x1F = d"
    by simp_all
qed

lemma option_bits:
  assumes "db < (15 :: byte)" and "lb < 15"
  shows "drop_bit 4 ((push_bit 4 db OR lb) AND 0xF0) = db" "(push_bit 4 db OR lb) AND 0x0F = lb"
    "push_bit 4 db OR lb \<noteq> 0xFF"
proof -
  have "\<forall>c \<in> set [0..<15]. \<forall>d \<in> set [0..<15].
      drop_bit 4 ((push_bit 4 (of_nat c) OR (of_nat d :: byte)) AND 0xF0) = of_nat c
      \<and> (push_bit 4 (of_nat c) OR (of_nat d :: byte)) AND 0x0F = of_nat d
      \<and> push_bit 4 (of_nat c) OR (of_nat d :: byte) \<noteq> 0xFF"
    by (simp add: upt_rec)
  moreover have "unat db \<in> set [0..<15]" "unat lb \<in> set [0..<15]"
    using assms by (auto simp: word_less_nat_alt)
  ultimately have "drop_bit 4 ((push_bit 4 (of_nat (unat db)) OR (of_nat (unat lb) :: byte)) AND 0xF0) = of_nat (unat db)
      \<and> (push_bit 4 (of_nat (unat db)) OR (of_nat (unat lb) :: byte)) AND 0x0F = of_nat (unat lb)
      \<and> push_bit 4 (of_nat (unat db)) OR (of_nat (unat lb) :: byte) \<noteq> 0xFF"
    by blast
  then show "drop_bit 4 ((push_bit 4 db OR lb) AND 0xF0) = db" "(push_bit 4 db OR lb) AND 0x0F = lb"
    "push_bit 4 db OR lb \<noteq> 0xFF"
    by simp_all
qed

text \<open>An option delta or length below \<open>2 ^ 16\<close> is split and read back.\<close>

lemma ucast_small:
  "n < 65536 \<Longrightarrow> (ucast (of_nat n :: u32) :: u16) = of_nat n"
  "n < 256 \<Longrightarrow> (ucast (of_nat n :: u32) :: byte) = of_nat n"
  "n < 256 \<Longrightarrow> (ucast (of_nat n :: byte) :: u16) = of_nat n"
  "n < 65536 \<Longrightarrow> (ucast (of_nat n :: u16) :: u32) = of_nat n"
  "n < 256 \<Longrightarrow> (ucast (of_nat n :: u16) :: byte) = of_nat n"
  by (simp_all add: unsigned_of_nat take_bit_nat_eq_self)

lemma of_nat_le_u32: "n < 65536 \<Longrightarrow> m < 65536 * 2 \<Longrightarrow> (of_nat n \<le> (of_nat m :: u32)) \<longleftrightarrow> n \<le> m"
  by (simp add: word_le_nat_alt unat_of_nat)

lemma split_opt_nat:
  assumes "n < 65536"
  shows "coap_split_opt (of_nat n) =
    (if n < 13 then (of_nat n, 0, 0) else if n \<le> 268 then (13, of_nat (n - 13), 1)
     else (14, of_nat (n - 269), 2))"
proof -
  have c: "(of_nat n :: u32) < 13 \<longleftrightarrow> n < 13" "(13 :: u32) \<le> of_nat n \<longleftrightarrow> 13 \<le> n"
    "(of_nat n :: u32) \<le> 268 \<longleftrightarrow> n \<le> 268" "(268 :: u32) < of_nat n \<longleftrightarrow> 268 < n"
    "(of_nat n :: u32) \<le> 65804"
    using assms by (simp_all add: word_le_nat_alt word_less_nat_alt unat_of_nat)
  have d: "(of_nat n - 13 :: u32) = of_nat (n - 13)" if "13 \<le> n"
    using that by (simp add: of_nat_diff)
  have e: "(of_nat n - 269 :: u32) = of_nat (n - 269)" if "269 \<le> n"
    using that by (simp add: of_nat_diff)
  show ?thesis
    using assms c d e by (auto simp: coap_split_opt_def ucast_small simp del: of_nat_diff)
qed

lemma split_opt_parse:
  assumes "n < 65536" and "coap_split_opt (of_nat n) = (base, ext, len)"
  shows "base < 15 \<and> coap_get_ext_opt (coap_add_opt_info ext len @ r) (ucast base) = Some (of_nat n, r)"
proof -
  consider "n < 13" | "13 \<le> n" "n \<le> 268" | "269 \<le> n"
    by linarith
  then show ?thesis
  proof cases
    case 1
    then have "base = of_nat n" "ext = 0" "len = 0"
      using assms by (simp_all add: split_opt_nat)
    moreover have "(of_nat n :: byte) < 15" "(of_nat n :: u16) \<noteq> 13" "(of_nat n :: u16) \<noteq> 14"
      using 1 by (auto simp: word_less_nat_alt unat_of_nat word_unat_eq_iff)
    ultimately show ?thesis
      using 1 by (simp add: coap_get_ext_opt_def coap_add_opt_info_def ucast_small)
  next
    case 2
    then have "base = 13" "ext = of_nat (n - 13)" "len = 1"
      using assms by (simp_all add: split_opt_nat)
    moreover have "(of_nat (n - 13) :: u16) + 13 = of_nat n"
      using 2 by (simp add: of_nat_diff)
    ultimately show ?thesis
      using 2 by (simp add: coap_get_ext_opt_def coap_add_opt_info_def ucast_small del: of_nat_diff)
  next
    case 3
    then have "base = 14" "ext = of_nat (n - 269)" "len = 2"
      using assms by (simp_all add: split_opt_nat)
    moreover have "(of_nat (n - 269) :: u16) + 269 = of_nat n"
      using 3 by (simp add: of_nat_diff)
    ultimately show ?thesis
      by (simp add: coap_get_ext_opt_def coap_add_opt_info_def be16_def del: of_nat_diff)
  qed
qed

text \<open>One option, written and read.\<close>

definition option_ok :: "coap_option \<Rightarrow> bool" where
  "option_ok = (\<lambda>(n, v). n < 65536 \<and> length v < 65536)"

lemma option_step:
  assumes "option_ok (n, v)" and "prev \<le> n"
    and "cm_options cm \<noteq> [] \<longrightarrow> fst (last (cm_options cm)) = prev"
  shows "coap_options_loop (coap_put_options prev ((n, v) # opts) @ tail) (ucast prev) cm =
    coap_options_loop (coap_put_options n opts @ tail) (ucast n) (cm\<lparr>cm_options := cm_options cm @ [(n, v)]\<rparr>)"
proof -
  define d where "d = unat n - unat prev"
  have n: "unat n < 65536" and v: "length v < 65536" and le: "unat prev \<le> unat n"
    using assms by (auto simp: option_ok_def word_less_nat_alt word_le_nat_alt)
  have d: "n - prev = of_nat d" "d < 65536"
    using le n by (simp_all add: d_def of_nat_diff)
  obtain db de dl where D: "coap_split_opt (of_nat d) = (db, de, dl)"
    by (cases "coap_split_opt (of_nat d)")
  obtain lb le' ll where L: "coap_split_opt (of_nat (length v)) = (lb, le', ll)"
    by (cases "coap_split_opt (of_nat (length v))")
  define rest where "rest = coap_put_options n opts @ tail"
  have put: "coap_put_options prev ((n, v) # opts) @ tail =
      (push_bit 4 db OR lb) # coap_add_opt_info de dl @ coap_add_opt_info le' ll @ v @ rest"
    by (simp add: d D L rest_def)
  have bases: "db < 15" "lb < 15"
    using split_opt_parse [OF d(2) D] split_opt_parse [OF v L] by auto
  have parse: "coap_get_ext_opt (coap_add_opt_info de dl @ r) (ucast db) = Some (of_nat d, r)"
    "coap_get_ext_opt (coap_add_opt_info le' ll @ r) (ucast lb) = Some (of_nat (length v), r)" for r
    using split_opt_parse [OF d(2) D] split_opt_parse [OF v L] by auto
  have fifteen: "(ucast db :: u16) \<noteq> 15" "(ucast lb :: u16) \<noteq> 15"
    using bases by (auto simp: word_less_nat_alt word_unat_eq_iff unsigned_ucast_eq take_bit_eq_mod)
  have sum: "of_nat d + ucast prev = (ucast n :: u16)"
  proof -
    have "of_nat d + (of_nat (unat prev) :: u16) = of_nat (unat n)"
      using le by (simp add: d_def of_nat_diff del: of_nat_unat)
    then show ?thesis by simp
  qed
  have num: "(ucast (ucast n :: u16) :: u32) = n"
    using n by (simp add: word_unat_eq_iff unsigned_ucast_eq take_bit_eq_mod unat_mod)
  have add: "mg_coap_add_option cm n v = cm\<lparr>cm_options := cm_options cm @ [(n, v)]\<rparr>"
    using assms(2,3) by (auto simp: mg_coap_add_option_def)
  have "coap_options_loop ((push_bit 4 db OR lb) # coap_add_opt_info de dl @ coap_add_opt_info le' ll @ v @ rest)
      (ucast prev) cm = coap_options_loop rest (ucast n) (cm\<lparr>cm_options := cm_options cm @ [(n, v)]\<rparr>)"
    using option_bits [OF bases] fifteen v
    by (subst coap_options_loop.simps)
      (simp add: parse sum num add unat_of_nat_u16 Let_def)
  then show ?thesis
    unfolding put rest_def .
qed

lemma options_loop_put:
  assumes "list_all option_ok opts" and "sorted (prev # map fst opts)"
    and "cm_options cm \<noteq> [] \<longrightarrow> fst (last (cm_options cm)) = prev"
    and "tail = [] \<or> hd tail = 0xFF"
  shows "coap_options_loop (coap_put_options prev opts @ tail) (ucast prev) cm =
    (tail, cm\<lparr>cm_options := cm_options cm @ opts\<rparr>)"
  using assms(1-3)
proof (induction opts arbitrary: prev cm)
  case Nil
  then show ?case
    using assms(4) by (subst coap_options_loop.simps) (cases tail; auto)
next
  case (Cons x opts)
  obtain n v where x: "x = (n, v)" by (cases x)
  have "coap_options_loop (coap_put_options n opts @ tail) (ucast n) (cm\<lparr>cm_options := cm_options cm @ [(n, v)]\<rparr>)
      = (tail, (cm\<lparr>cm_options := cm_options cm @ [(n, v)]\<rparr>)\<lparr>cm_options := (cm_options cm @ [(n, v)]) @ opts\<rparr>)"
    using Cons.prems Cons.IH [of n "cm\<lparr>cm_options := cm_options cm @ [(n, v)]\<rparr>"] by (simp add: x)
  then show ?case
    using option_step [of n v prev cm opts tail] Cons.prems by (simp add: x)
qed

text \<open>
  The computed size of the options, and what they take: the size counts the extension of the
  number where the extension of the delta is written.
\<close>

fun coap_slack :: "u32 \<Rightarrow> coap_option list \<Rightarrow> nat" where
  "coap_slack prev [] = 0"
| "coap_slack prev ((n, v) # opts) =
     coap_get_ext_opt_size n - coap_get_ext_opt_size (n - prev) + coap_slack n opts"

lemma length_opt_info:
  "coap_split_opt v = (b, e, l) \<Longrightarrow> length (coap_add_opt_info e l) = coap_get_ext_opt_size v"
  using order.strict_trans [of v 13 268]
  by (auto simp: coap_split_opt_def coap_get_ext_opt_size_def coap_add_opt_info_def split: if_splits)

lemma ext_size_nat:
  assumes "n < 65536"
  shows "coap_get_ext_opt_size (of_nat n) = (if n < 13 then 0 else if n \<le> 268 then 1 else 2)"
proof -
  have "(13 :: u32) \<le> of_nat n \<longleftrightarrow> 13 \<le> n" "(of_nat n :: u32) \<le> 268 \<longleftrightarrow> n \<le> 268"
    "(268 :: u32) < of_nat n \<longleftrightarrow> 268 < n" "(of_nat n :: u32) \<le> 65804"
    using assms by (simp_all add: word_le_nat_alt word_less_nat_alt unat_of_nat)
  then show ?thesis
    by (simp add: coap_get_ext_opt_size_def)
qed

lemma ext_size_mono:
  assumes "prev \<le> n" and "n < 65536"
  shows "coap_get_ext_opt_size (n - prev) \<le> coap_get_ext_opt_size n"
proof -
  have "unat n < 65536" "unat prev \<le> unat n"
    using assms by (auto simp: word_less_nat_alt word_le_nat_alt)
  moreover from this have "n - prev = of_nat (unat n - unat prev)"
    by (simp add: of_nat_diff)
  ultimately show ?thesis
    using ext_size_nat [of "unat n"] ext_size_nat [of "unat n - unat prev"] by (auto split: if_splits)
qed

lemma options_size_put:
  assumes "list_all option_ok opts" and "sorted (prev # map fst opts)"
  shows "coap_options_size opts = Some (length (coap_put_options prev opts) + coap_slack prev opts)"
  using assms
proof (induction opts arbitrary: prev)
  case (Cons x opts)
  obtain n v where x: "x = (n, v)" by (cases x)
  obtain db de dl where D: "coap_split_opt (n - prev) = (db, de, dl)"
    by (cases "coap_split_opt (n - prev)")
  obtain lb le ll where L: "coap_split_opt (of_nat (length v)) = (lb, le, ll)"
    by (cases "coap_split_opt (of_nat (length v))")
  have nv: "n < 65536" "length v < 65536" "prev \<le> n" "sorted (n # map fst opts)" "list_all option_ok opts"
    using Cons.prems by (auto simp: x option_ok_def)
  have "\<not> n > 65804"
    using nv(1) by (simp add: word_less_nat_alt)
  moreover have "\<not> (opts \<noteq> [] \<and> n > fst (hd opts))"
    using nv(4) by (cases opts) auto
  ultimately show ?case
    using Cons.IH [OF nv(5,4)] nv(2) ext_size_mono [OF nv(3,1)] length_opt_info [OF D] length_opt_info [OF L]
    by (simp add: x D L)
qed simp

definition coap_ok :: "coap_message \<Rightarrow> bool" where
  "coap_ok cm \<longleftrightarrow> cm_msg_type cm \<le> 3 \<and> cm_token_len cm = length (cm_token cm) \<and> cm_token_len cm \<le> 8
     \<and> cm_code_class cm \<le> 7 \<and> cm_code_detail cm \<le> 31
     \<and> list_all option_ok (cm_options cm) \<and> sorted (map fst (cm_options cm))"

lemma coap_compose_ok:
  assumes "coap_ok cm" and "\<And>n. length (junk n) = n"
  shows "\<exists>pad. mg_coap_compose junk cm io = Some (0, io @ coap_put cm @ pad)
    \<and> length pad = coap_slack 0 (cm_options cm)"
proof -
  have opts: "coap_options_size (cm_options cm)
      = Some (length (coap_put_options 0 (cm_options cm)) + coap_slack 0 (cm_options cm))"
    using assms(1) by (intro options_size_put) (auto simp: coap_ok_def)
  have size: "coap_calculate_packet_size cm = Inr (length (coap_put cm) + coap_slack 0 (cm_options cm))"
    using assms(1) opts by (simp add: coap_calculate_packet_size_def coap_ok_def coap_put_def not_less)
  then show ?thesis
    using assms(2) by (simp add: mg_coap_compose_def blit_def Let_def)
qed

lemma coap_parse_put:
  assumes "coap_ok cm"
  shows "\<exists>fl. mg_coap_parse (coap_put cm) = cm\<lparr>cm_flags := fl\<rparr> \<and> fl AND MG_COAP_ERROR = 0"
proof -
  define tail where "tail = (if cm_payload cm \<noteq> [] then 0xFF # cm_payload cm else [])"
  define tk where "tk = cm_token cm"
  define opts where "opts = coap_put_options 0 (cm_options cm)"
  have ok: "cm_msg_type cm \<le> 3" "cm_token_len cm \<le> 8" "cm_token_len cm = length tk"
    "cm_code_class cm \<le> 7" "cm_code_detail cm \<le> 31"
    "list_all option_ok (cm_options cm)" "sorted (0 # map fst (cm_options cm))"
    using assms by (auto simp: coap_ok_def tk_def)
  define cm1 where "cm1 = coap_message0\<lparr>cm_flags := 0x1E, cm_msg_type := cm_msg_type cm,
      cm_token_len := cm_token_len cm, cm_code_class := cm_code_class cm,
      cm_code_detail := cm_code_detail cm, cm_msg_id := cm_msg_id cm\<rparr>"
  have h: "coap_parse_header (coap_put cm) coap_message0 = (Some (tk @ opts @ tail), cm1)"
    using header_bits [OF ok(1,2)] code_bits [OF ok(4,5)] ok(2,3)
    by (simp add: coap_parse_header_def coap_put_def be16_def Let_def add_flags_def cm1_def
        coap_message0_def tk_def opts_def tail_def)
  define fl where "fl = (if tk = [] then 0x1E else 0x3E :: u32)"
  define cm2 where "cm2 = cm1\<lparr>cm_token := tk, cm_flags := fl\<rparr>"
  have k: "coap_get_token (tk @ opts @ tail) cm1 = (Some (opts @ tail), cm2)"
    using ok(3) by (auto simp: coap_get_token_def cm1_def cm2_def fl_def add_flags_def coap_message0_def)
  have "coap_options_loop (opts @ tail) (ucast (0 :: u32)) cm2 = (tail, cm2\<lparr>cm_options := cm_options cm\<rparr>)"
    unfolding opts_def using options_loop_put [OF ok(6,7), of cm2 tail]
    by (simp add: cm2_def cm1_def coap_message0_def tail_def)
  then have l: "coap_options_loop (opts @ tail) 0 cm2 = (tail, cm2\<lparr>cm_options := cm_options cm\<rparr>)"
    by simp
  have ne: "opts = [] \<longleftrightarrow> cm_options cm = []"
    by (cases "cm_options cm") (auto simp: opts_def Let_def split: prod.splits)
  show ?thesis
  proof (cases "opts @ tail = []")
    case True
    then have "mg_coap_parse (coap_put cm) = cm2"
      unfolding mg_coap_parse_def h prod.case option.case k by (simp add: coap_get_options_def)
    then show ?thesis
      using True ne by (intro exI [of _ fl])
        (auto simp: cm2_def cm1_def coap_message0_def tail_def tk_def fl_def MG_COAP_ERROR_def split: if_splits)
  next
    case False
    define fl2 where "fl2 = (if cm_payload cm = [] then fl OR 0x40 else fl OR 0x40 OR 0x80)"
    have fl: "fl AND MG_COAP_ERROR = 0" "fl2 AND MG_COAP_ERROR = 0"
      by (auto simp: fl_def fl2_def MG_COAP_ERROR_def)
    have payload: "tail \<noteq> [] \<Longrightarrow> drop (Suc 0) tail = cm_payload cm"
      by (simp add: tail_def split: if_splits)
    have c2: "cm_flags cm2 = fl" "cm_payload cm2 = []"
      by (simp_all add: cm2_def cm1_def coap_message0_def)
    have g: "coap_get_options (opts @ tail) cm2 =
        (if tail = [] then None else Some (cm_payload cm), cm2\<lparr>cm_options := cm_options cm, cm_flags := fl OR 0x40\<rparr>)"
      using False fl payload unfolding coap_get_options_def l Let_def prod.case
      by (auto simp: add_flags_def c2)
    have "mg_coap_parse (coap_put cm) = cm2\<lparr>cm_options := cm_options cm, cm_payload := cm_payload cm, cm_flags := fl2\<rparr>"
      unfolding mg_coap_parse_def h prod.case option.case k g
      using c2 by (auto simp: tail_def fl2_def add_flags_def or.assoc)
    then show ?thesis
      using fl by (intro exI [of _ fl2]) (simp add: cm2_def cm1_def coap_message0_def tk_def)
  qed
qed

text \<open>
  C33. A well-formed message is composed without error and without a write behind the reserved
  packet; parsing the written bytes gives the message back, type, code, id, token, options and
  payload, with no error flag. Behind the written bytes the packet holds one uninitialised byte
  for each byte by which the extension of an option number is longer than that of its delta:
  only when there is none is the packet what was written.
\<close>

theorem mg_coap_roundtrip:
  assumes "coap_ok cm" and "\<And>n. length (junk n) = n"
  shows "\<exists>pad fl. mg_coap_compose junk cm io = Some (0, io @ coap_put cm @ pad)
    \<and> length pad = coap_slack 0 (cm_options cm)
    \<and> mg_coap_parse (coap_put cm) = cm\<lparr>cm_flags := fl\<rparr> \<and> fl AND MG_COAP_ERROR = 0"
  using coap_compose_ok [OF assms, of io] coap_parse_put [OF assms(1)] by auto

theorem mg_coap_roundtrip_witness:
  "\<exists>pad fl. mg_coap_compose (\<lambda>n. replicate n 7)
      (coap_message0\<lparr>cm_code_class := 2, cm_options := [(11, bs ''a''), (300, bs ''b'')], cm_payload := [1]\<rparr>) []
        = Some (0, [] @ coap_put
      (coap_message0\<lparr>cm_code_class := 2, cm_options := [(11, bs ''a''), (300, bs ''b'')], cm_payload := [1]\<rparr>) @ pad)
    \<and> length pad = 0
    \<and> mg_coap_parse (coap_put (coap_message0\<lparr>cm_code_class := 2,
          cm_options := [(11, bs ''a''), (300, bs ''b'')], cm_payload := [1]\<rparr>))
        = (coap_message0\<lparr>cm_code_class := 2, cm_options := [(11, bs ''a''), (300, bs ''b'')],
             cm_payload := [1]\<rparr>)\<lparr>cm_flags := fl\<rparr>"
  using mg_coap_roundtrip [of "coap_message0\<lparr>cm_code_class := 2,
      cm_options := [(11, bs ''a''), (300, bs ''b'')], cm_payload := [1]\<rparr>" "\<lambda>n. replicate n 7" "[]"]
  by (simp add: coap_ok_def coap_message0_def option_ok_def bs_def of_char_def coap_get_ext_opt_size_def)
    blast

text \<open>
  The options 11 and 15 leave a byte of slack: the second delta is 4 and needs no extension,
  but the size counts the extension of 15. The receiver takes the byte for an option or for
  the end of the payload.
\<close>

lemma coap_slack_flaw: "coap_slack 0 [(11, v), (15, w)] = 1"
  by (simp add: coap_get_ext_opt_size_def)

text \<open>
  \<open>MG_COAP_IGNORE\<close> contains the error bit, so the handler raises no event for any message with
  an error, also not for the format errors that it prepares to report.
\<close>

lemma coap_handler_drops_errors:
  "cm_flags (mg_coap_parse io) AND MG_COAP_ERROR \<noteq> 0 \<Longrightarrow> coap_handler io = (None, [])"
proof -
  assume "cm_flags (mg_coap_parse io) AND MG_COAP_ERROR \<noteq> 0"
  then have "cm_flags (mg_coap_parse io) AND MG_COAP_IGNORE \<noteq> 0"
    unfolding MG_COAP_IGNORE_def by (metis and.right_idem and.commute and.assoc bit.conj_disj_distrib or.right_neutral or_eq_0_iff)
  then show ?thesis
    by (simp add: coap_handler_def)
qed

end
