(* ===== verification/Websocket.thy ===== *)
theory Websocket
  imports Prelude
begin

text \<open>
  WebSocket frames in \<open>mongoose/src/http.c\<close>: sending (\<open>mg_send_ws_header\<close>,
  \<open>mg_ws_mask_frame\<close>, \<open>mg_send_websocket_frame\<close>) and receiving, where
  \<open>mg_deliver_websocket_data\<close> unmasks and reassembles frames inside the receive buffer. That
  buffer is modelled as memory: a function from offsets to bytes, of which the first
  \<open>len\<close> are received data. Where \<open>realloc\<close> moves it, the code goes on with pointers into the old block, and the model ends in \<open>Ws_undef\<close>.
\<close>

section \<open>Sending\<close>

definition WEBSOCKET_DONT_FIN :: u32 where "WEBSOCKET_DONT_FIN = 0x100"

text \<open>The header bytes; the operation is an \<open>int\<close>, the length a \<open>size_t\<close>.\<close>

definition ws_header_bytes :: "u32 \<Rightarrow> nat \<Rightarrow> byte list" where
  "ws_header_bytes op len =
     (let b0 = (if op AND WEBSOCKET_DONT_FIN \<noteq> 0 then 0 else 0x80) + ucast (op AND 0x0f)
      in if len < 126 then [b0, of_nat len]
         else if len < 65535 then [b0, 126] @ be16 (of_nat len)
         else [b0, 127] @ be32 (of_nat (len div 2 ^ 32)) @ be32 (of_nat len))"

text \<open>
  \<open>mg_send_ws_header\<close>: the send buffer and the start of the data to mask, 0 for none. A
  connection without listener is a client's and masks; the four mask bytes stand for the
  random word in memory.
\<close>

definition mg_send_ws_header :: "byte list \<Rightarrow> byte list option \<Rightarrow> u32 \<Rightarrow> nat \<Rightarrow> byte list \<times> nat" where
  "mg_send_ws_header sb key op len =
     (let header = ws_header_bytes op len
      in case key of
           Some m \<Rightarrow>
             (let header = header[1 := header ! 1 OR 128]; sb = sb @ header; sb = sb @ m
              in (sb, length sb))
         | None \<Rightarrow> (sb @ header, 0))"

definition mg_ws_mask_frame :: "byte list \<Rightarrow> byte list option \<Rightarrow> nat \<Rightarrow> byte list" where
  "mg_ws_mask_frame sb key pos =
     (if pos = 0 then sb
      else take pos sb @ map (\<lambda>i. (sb ! (pos + i)) XOR (the key ! (i mod 4))) [0..<length sb - pos])"

text \<open>The send buffer, and whether the connection is to be closed after sending.\<close>

definition mg_send_websocket_framev :: "byte list \<Rightarrow> byte list option \<Rightarrow> u32 \<Rightarrow> byte list list \<Rightarrow> byte list \<times> bool" where
  "mg_send_websocket_framev sb key op strv =
     (let len = sum_list (map length strv);
          (sb, pos) = mg_send_ws_header sb key op len;
          sb = foldl (\<lambda>sb s. sb @ s) sb strv
      in (mg_ws_mask_frame sb key pos, op = 8))"

definition mg_send_websocket_frame :: "byte list \<Rightarrow> byte list option \<Rightarrow> u32 \<Rightarrow> byte list \<Rightarrow> byte list \<times> bool" where
  "mg_send_websocket_frame sb key op data =
     (let (sb, pos) = mg_send_ws_header sb key op (length data);
          sb = sb @ data
      in (mg_ws_mask_frame sb key pos, op = 8))"

section \<open>Receiving\<close>

type_synonym mem = "nat \<Rightarrow> byte"

definition slice :: "mem \<Rightarrow> nat \<Rightarrow> nat \<Rightarrow> byte list" where
  "slice m a n = map m [a..<a + n]"

definition mg_is_ws_fragment :: "byte \<Rightarrow> bool" where
  "mg_is_ws_fragment flags \<longleftrightarrow> flags AND 0x80 = 0 \<or> flags AND 0x0f = 0"

definition mg_is_ws_first_fragment :: "byte \<Rightarrow> bool" where
  "mg_is_ws_first_fragment flags \<longleftrightarrow> flags AND 0x80 = 0 \<and> flags AND 0x0f \<noteq> 0"

text \<open>The word \<open>*sizep\<close> at offset 1 (little-endian), and \<open>memmove\<close> inside the buffer.\<close>

definition get_size :: "mem \<Rightarrow> u32" where
  "get_size m = rd32 (m 4) (m 3) (m 2) (m 1)"

definition put_size :: "mem \<Rightarrow> u32 \<Rightarrow> mem" where
  "put_size m w = m(1 := ucast w, 2 := ucast (drop_bit 8 w), 3 := ucast (drop_bit 16 w),
     4 := ucast (drop_bit 24 w))"

definition memmove :: "mem \<Rightarrow> nat \<Rightarrow> nat \<Rightarrow> nat \<Rightarrow> mem" where
  "memmove m dst src n = (\<lambda>i. if dst \<le> i \<and> i < dst + n then m (src + (i - dst)) else m i)"

definition mem_remove :: "mem \<Rightarrow> nat \<Rightarrow> nat \<Rightarrow> mem \<times> nat" where
  "mem_remove m len n = (if n > 0 \<and> n \<le> len then (memmove m 0 n (len - n), len - n) else (m, len))"

text \<open>
  The header of the frame at offset \<open>buf\<close>, of which \<open>buf_len\<close> bytes are there: the length of
  the mask, of the header and of the data.
\<close>

definition ws_frame_header :: "mem \<Rightarrow> nat \<Rightarrow> nat \<Rightarrow> nat \<times> nat \<times> u64" where
  "ws_frame_header m buf buf_len =
     (if buf_len \<ge> 2 then
        let len = m (buf + 1) AND 127; mask_len = (if m (buf + 1) AND 128 \<noteq> 0 then 4 else 0 :: nat)
        in if len < 126 \<and> buf_len \<ge> mask_len then (mask_len, 2 + mask_len, ucast len)
           else if len = 126 \<and> buf_len \<ge> 4 + mask_len
           then (mask_len, 4 + mask_len, ucast (rd16 (m (buf + 2)) (m (buf + 3))))
           else if buf_len \<ge> 10 + mask_len
           then (mask_len, 10 + mask_len,
                 push_bit 32 (ucast (rd32 (m (buf + 2)) (m (buf + 3)) (m (buf + 4)) (m (buf + 5))))
                   + ucast (rd32 (m (buf + 6)) (m (buf + 7)) (m (buf + 8)) (m (buf + 9))))
           else (mask_len, 0, 0)
      else (0, 0, 0))"

definition ws_unmask :: "mem \<Rightarrow> nat \<Rightarrow> nat \<Rightarrow> nat \<Rightarrow> mem" where
  "ws_unmask m start mask_len n =
     (if mask_len > 0
      then (\<lambda>i. if start \<le> i \<and> i < start + n then m i XOR m (start - mask_len + (i - start) mod 4) else m i)
      else m)"

text \<open>An event is the flag byte of the frame and its data; control frames have opcode bit 3.\<close>

datatype ws_event = Ws_frame byte "byte list" | Ws_control_frame byte "byte list"

definition mg_handle_incoming_websocket_frame :: "byte \<Rightarrow> byte list \<Rightarrow> ws_event" where
  "mg_handle_incoming_websocket_frame flags data =
     (if flags AND 8 \<noteq> 0 then Ws_control_frame flags data else Ws_frame flags data)"

datatype ws_result =
  Ws_undef
| Ws_wait
| Ws_ok "ws_event option" mem nat bool

text \<open>
  \<open>mg_deliver_websocket_data\<close>: nothing complete (\<open>Ws_wait\<close>), or the event if one is raised, the
  buffer after it, and whether the connection is to be closed. \<open>Ws_undef\<close>: the 64-bit sum of
  header and data length wrapped around, so that the loops run behind the buffer; or the first fragment of a
  message made \<open>mbuf_resize\<close> call \<open>realloc\<close>, and the block was not extended where it is (\<open>mv\<close>), so that \<open>p\<close>, \<open>buf\<close>, \<open>e\<close> and
  \<open>sizep\<close> point into the block that was freed (or, without memory, that the room behind the data is
  missing). The test for a close frame reads the byte at \<open>buf\<close> after the buffer was changed.
\<close>

definition mg_deliver_websocket_data :: "(mem \<Rightarrow> nat \<Rightarrow> bool) \<Rightarrow> bool \<Rightarrow> mem \<Rightarrow> nat \<Rightarrow> ws_result" where
  "mg_deliver_websocket_data mv no_defrag m len =
     (let reass = (len > 0 \<and> mg_is_ws_fragment (m 0) \<and> \<not> no_defrag);
          size = unat (get_size m);
          buf = (if reass \<and> \<not> mg_is_ws_first_fragment (m 0) \<and> len \<ge> 5 \<and> len \<ge> 5 + size
                 then 5 + size else 0);
          buf_len = len - buf;
          (mask_len, header_len, data_len) = ws_frame_header m buf buf_len;
          frame_len = of_nat header_len + data_len
      in if \<not> (frame_len > 0 \<and> unat frame_len \<le> buf_len) then Ws_wait
         else if header_len + unat data_len > buf_len then Ws_undef
         else let n = unat data_len; data = buf + header_len; flags = m buf;
                  m = ws_unmask m data mask_len n
         in if reass \<and> mg_is_ws_first_fragment flags \<and> mv m len then Ws_undef
            else if reass then
              let (m, buf) = (if mg_is_ws_first_fragment flags
                              then (put_size (m(0 := m 0 AND NOT 0x0f)) 0, 5) else (m, buf));
                  m = memmove m buf data (len - data);
                  m = put_size m (get_size m + of_nat n);
                  len = len + buf - data
              in if flags AND 0x80 \<noteq> 0
                 then let sz = unat (get_size m);
                          ev = mg_handle_incoming_websocket_frame flags (slice m 5 sz);
                          (m, len) = mem_remove m len (5 + sz)
                      in Ws_ok (Some ev) m len (m buf AND 0x0f = 8)
                 else Ws_ok None m len (m buf AND 0x0f = 8)
            else let ev = mg_handle_incoming_websocket_frame flags (slice m data n);
                     (m, len) = mem_remove m len (unat frame_len)
                 in Ws_ok (Some ev) m len (m buf AND 0x0f = 8))"

text \<open>
  \<open>mg_websocket_handler\<close> on \<open>MG_EV_RECV\<close>: \<open>do { } while (mg_deliver_websocket_data (nc))\<close>, with
  fuel; the events, the buffer and whether the connection is to be closed.
\<close>

fun ws_recv_loop :: "(mem \<Rightarrow> nat \<Rightarrow> bool) \<Rightarrow> nat \<Rightarrow> bool \<Rightarrow> mem \<Rightarrow> nat \<Rightarrow> (ws_event list \<times> mem \<times> nat \<times> bool) option" where
  "ws_recv_loop mv 0 no_defrag m len = None"
| "ws_recv_loop mv (Suc fuel) no_defrag m len =
     (case mg_deliver_websocket_data mv no_defrag m len of
        Ws_undef \<Rightarrow> None
      | Ws_wait \<Rightarrow> Some ([], m, len, False)
      | Ws_ok ev m' len' close \<Rightarrow>
          map_option (\<lambda>(evs, m2, len2, c). ((case ev of None \<Rightarrow> evs | Some e \<Rightarrow> e # evs), m2, len2, close \<or> c))
            (ws_recv_loop mv fuel no_defrag m' len'))"

section \<open>Memory and slices\<close>

lemma length_slice [simp]: "length (slice m a n) = n"
  by (simp add: slice_def)

lemma nth_slice [simp]: "i < n \<Longrightarrow> slice m a n ! i = m (a + i)"
  by (simp add: slice_def)

lemma slice_add: "slice m a (n + k) = slice m a n @ slice m (a + n) k"
  using upt_add_eq_append [of a "a + n" k] by (simp add: slice_def add.assoc)

lemma slice_cong: "(\<And>i. a \<le> i \<Longrightarrow> i < a + n \<Longrightarrow> m i = m' i) \<Longrightarrow> slice m a n = slice m' a n"
  by (auto simp: slice_def)

lemma slice_memmove: "slice (memmove m dst src n) dst n = slice m src n"
  by (rule nth_equalityI) (simp_all add: memmove_def)

lemma slice_memmove_before: "a + k \<le> dst \<Longrightarrow> slice (memmove m dst src n) a k = slice m a k"
  by (rule slice_cong) (simp add: memmove_def)

lemma slice_append_iff:
  "slice m a n = xs @ ys \<longleftrightarrow>
     n = length xs + length ys \<and> slice m a (length xs) = xs \<and> slice m (a + length xs) (length ys) = ys"
proof
  assume h: "slice m a n = xs @ ys"
  then have n: "n = length xs + length ys"
    by (metis length_append length_slice)
  have "slice m a (length xs) @ slice m (a + length xs) (length ys) = xs @ ys"
    using h by (simp add: n flip: slice_add)
  then show "n = length xs + length ys \<and> slice m a (length xs) = xs \<and> slice m (a + length xs) (length ys) = ys"
    using n by simp
qed (simp add: slice_add)

lemma slice_remove:
  "slice m 0 len = xs @ ys \<Longrightarrow> xs \<noteq> [] \<Longrightarrow> n = length xs \<Longrightarrow>
     \<exists>m'. mem_remove m len n = (m', length ys) \<and> slice m' 0 (length ys) = ys"
  by (auto simp: mem_remove_def slice_append_iff slice_memmove)

text \<open>The frame that is sent.\<close>

definition ws_xor :: "byte list \<Rightarrow> byte list \<Rightarrow> byte list" where
  "ws_xor k data = map (\<lambda>i. data ! i XOR k ! (i mod 4)) [0..<length data]"

definition ws_frame :: "byte list option \<Rightarrow> u32 \<Rightarrow> byte list \<Rightarrow> byte list" where
  "ws_frame key op data =
     (let h = ws_header_bytes op (length data)
      in case key of None \<Rightarrow> h @ data
         | Some k \<Rightarrow> h[1 := h ! 1 OR 128] @ k @ ws_xor k data)"

definition key_ok :: "byte list option \<Rightarrow> bool" where
  "key_ok key = (case key of None \<Rightarrow> True | Some k \<Rightarrow> length k = 4)"

lemma length_ws_xor [simp]: "length (ws_xor k data) = length data"
  by (simp add: ws_xor_def)

lemma send_frame:
  assumes "key_ok key"
  shows "mg_send_websocket_frame sb key op data = (sb @ ws_frame key op data, op = 8)"
proof (cases key)
  case None
  then show ?thesis
    by (simp add: mg_send_websocket_frame_def mg_send_ws_header_def mg_ws_mask_frame_def ws_frame_def Let_def)
next
  case (Some k)
  define h where "h = ws_header_bytes op (length data)"
  define pre where "pre = sb @ h[1 := h ! 1 OR 128] @ k"
  have "pre \<noteq> []"
    using assms Some by (auto simp: pre_def key_ok_def)
  moreover have "map (\<lambda>i. (pre @ data) ! (length pre + i) XOR k ! (i mod 4)) [0..<length data] = ws_xor k data"
    by (simp add: ws_xor_def)
  ultimately have "mg_ws_mask_frame (pre @ data) key (length pre) = pre @ ws_xor k data"
    by (simp add: mg_ws_mask_frame_def Some)
  moreover have "mg_send_ws_header sb key op (length data) = (pre, length pre)"
    by (simp add: mg_send_ws_header_def Some pre_def h_def Let_def)
  ultimately show ?thesis
    by (simp add: mg_send_websocket_frame_def ws_frame_def Some pre_def h_def Let_def)
qed

text \<open>Sending the pieces of a message at once sends their concatenation.\<close>

lemma send_framev:
  "mg_send_websocket_framev sb key op strv = mg_send_websocket_frame sb key op (concat strv)"
proof -
  have "foldl (\<lambda>sb s. sb @ s) b strv = b @ concat strv" for b
    using foldl_append_list [of "\<lambda>s. s" b strv] by simp
  then show ?thesis
    by (simp add: mg_send_websocket_framev_def mg_send_websocket_frame_def length_concat)
qed

section \<open>One frame\<close>

lemma small_len:
  assumes "n < 126"
  shows "of_nat n AND (127 :: byte) = of_nat n" "(of_nat n OR 128) AND (127 :: byte) = of_nat n"
    "of_nat n AND (128 :: byte) = 0" "(of_nat n OR 128) AND (128 :: byte) \<noteq> 0" "(of_nat n :: byte) < 126"
    "(ucast (of_nat n :: byte) :: u64) = of_nat n"
proof -
  have "\<forall>n \<in> set [0..<126]. of_nat n AND (127 :: byte) = of_nat n \<and> (of_nat n OR 128) AND (127 :: byte) = of_nat n
      \<and> of_nat n AND (128 :: byte) = 0 \<and> (of_nat n OR 128) AND (128 :: byte) \<noteq> 0 \<and> (of_nat n :: byte) < 126"
    by (simp add: upt_rec)
  then show "of_nat n AND (127 :: byte) = of_nat n" "(of_nat n OR 128) AND (127 :: byte) = of_nat n"
    "of_nat n AND (128 :: byte) = 0" "(of_nat n OR 128) AND (128 :: byte) \<noteq> 0" "(of_nat n :: byte) < 126"
    using assms by auto
  show "(ucast (of_nat n :: byte) :: u64) = of_nat n"
    using assms by (simp add: unsigned_of_nat take_bit_nat_eq_self)
qed

lemma len64:
  assumes "n < 2 ^ 64"
  shows "push_bit 32 (ucast (of_nat (n div 2 ^ 32) :: u32)) + ucast (of_nat n :: u32) = (of_nat n :: u64)"
proof -
  have "n div 2 ^ 32 < 2 ^ 32"
    using assms by (simp add: less_mult_imp_div_less)
  then have "push_bit 32 (ucast (of_nat (n div 2 ^ 32) :: u32)) + ucast (of_nat n :: u32)
      = (of_nat (n div 4294967296) * of_nat 4294967296 + of_nat (n mod 4294967296) :: u64)"
    by (simp add: unsigned_of_nat take_bit_nat_eq_self take_bit_eq_mod push_bit_eq_mult)
  also have "\<dots> = of_nat (n div 4294967296 * 4294967296 + n mod 4294967296)"
    by (simp only: of_nat_add of_nat_mult)
  also have "\<dots> = of_nat n"
    by (simp only: div_mult_mod_eq)
  finally show ?thesis .
qed

text \<open>The header is read as it was written.\<close>

lemma read_header:
  assumes s: "slice m buf n = ws_frame key op data @ rest" and "key_ok key" and "length data < 2 ^ 63"
    and h: "h = length (ws_header_bytes op (length data))"
    and k: "k = (case key of None \<Rightarrow> 0 | Some _ \<Rightarrow> 4)"
  shows "ws_frame_header m buf n = (k, h + k, of_nat (length data))"
proof -
  define hb where "hb = ws_header_bytes op (length data)"
  have n: "n = length (ws_frame key op data) + length rest"
    using s by (metis length_append length_slice)
  have len: "length (ws_frame key op data) = h + k + length data"
    using assms(2) by (auto simp: ws_frame_def key_ok_def h k Let_def split: option.splits)
  have "m (buf + i) = (ws_frame key op data @ rest) ! i" if "i < n" for i
    using that s by (metis nth_slice)
  then have hd: "m (buf + i) = (case key of None \<Rightarrow> hb | Some _ \<Rightarrow> hb[1 := hb ! 1 OR 128]) ! i" if "i < h" for i
    using that n len by (simp add: ws_frame_def h hb_def nth_append Let_def split: option.splits)
  consider "length data < 126" | "126 \<le> length data" "length data < 65535" | "65535 \<le> length data"
    by linarith
  then show ?thesis
  proof cases
    case 1
    then obtain b0 where H: "h = 2" "hb = [b0, of_nat (length data)]"
      by (simp add: h hb_def ws_header_bytes_def Let_def)
    have "m (buf + 1) = (case key of None \<Rightarrow> of_nat (length data) | Some _ \<Rightarrow> of_nat (length data) OR 128)"
      using hd [of 1] by (cases key) (simp_all add: H)
    then show ?thesis
      using small_len [OF 1] n len k H(1) by (cases key) (simp_all add: ws_frame_header_def Let_def)
  next
    case 2
    define w where "w = (of_nat (length data) :: u16)"
    obtain b0 where H: "h = 4" "hb = [b0, 126, ucast (drop_bit 8 w), ucast w]"
      using 2 by (simp add: h hb_def ws_header_bytes_def Let_def be16_def w_def)
    have B: "m (buf + 1) = (case key of None \<Rightarrow> 126 | Some _ \<Rightarrow> 254)"
      "m (buf + 2) = ucast (drop_bit 8 w)" "m (buf + 3) = ucast w"
      using hd [of 1] hd [of 2] hd [of 3] by (cases key; simp add: H)+
    have "(ucast w :: u64) = of_nat (length data)"
      using 2 by (simp add: w_def unsigned_of_nat take_bit_nat_eq_self)
    then show ?thesis
      using B n len k H(1) by (cases key) (simp_all add: ws_frame_header_def Let_def)
  next
    case 3
    define hi lo where "hi = (of_nat (length data div 2 ^ 32) :: u32)" and "lo = (of_nat (length data) :: u32)"
    obtain b0 where H: "h = 10" "hb = [b0, 127, ucast (drop_bit 24 hi), ucast (drop_bit 16 hi), ucast (drop_bit 8 hi),
        ucast hi, ucast (drop_bit 24 lo), ucast (drop_bit 16 lo), ucast (drop_bit 8 lo), ucast lo]"
      using 3 by (simp add: h hb_def ws_header_bytes_def Let_def be32_def hi_def lo_def)
    have B: "m (buf + 1) = (case key of None \<Rightarrow> 127 | Some _ \<Rightarrow> 255)"
      "m (buf + 2) = ucast (drop_bit 24 hi)" "m (buf + 3) = ucast (drop_bit 16 hi)"
      "m (buf + 4) = ucast (drop_bit 8 hi)" "m (buf + 5) = ucast hi"
      "m (buf + 6) = ucast (drop_bit 24 lo)" "m (buf + 7) = ucast (drop_bit 16 lo)"
      "m (buf + 8) = ucast (drop_bit 8 lo)" "m (buf + 9) = ucast lo"
      using hd [of 1] hd [of 2] hd [of 3] hd [of 4] hd [of 5] hd [of 6] hd [of 7] hd [of 8] hd [of 9]
      by (cases key; simp add: H)+
    have "push_bit 32 (ucast hi) + ucast lo = (of_nat (length data) :: u64)"
      using len64 [of "length data"] assms(3) by (simp add: hi_def lo_def)
    then show ?thesis
      using B n len k H(1) by (cases key) (simp_all add: ws_frame_header_def Let_def)
  qed
qed

text \<open>Unmasking restores the data and touches nothing else.\<close>

lemma unmask_other:
  "i < start \<or> start + n \<le> i \<Longrightarrow> ws_unmask m start k n i = m i"
  by (auto simp: ws_unmask_def)

lemma unmask_data:
  assumes s: "slice m buf n = ws_frame key op data @ rest" and "key_ok key"
    and h: "h = length (ws_header_bytes op (length data))"
    and k: "k = (case key of None \<Rightarrow> 0 | Some _ \<Rightarrow> 4)"
  shows "slice (ws_unmask m (buf + (h + k)) k (length data)) (buf + (h + k)) (length data) = data
    \<and> slice m (buf + (h + k + length data)) (length rest) = rest
    \<and> n = h + k + length data + length rest"
proof (cases key)
  case None
  then show ?thesis
    using s by (simp add: ws_frame_def h k slice_append_iff ws_unmask_def Let_def add.assoc)
next
  case (Some kb)
  define hb where "hb = ws_header_bytes op (length data)"
  have kb: "length kb = 4" "k = 4" "length hb = h"
    using assms(2) Some k by (simp_all add: key_ok_def hb_def h)
  have s': "slice m buf n = hb[1 := hb ! 1 OR 128] @ kb @ ws_xor kb data @ rest"
    using s by (simp add: ws_frame_def Some hb_def Let_def)
  then have p: "slice m (buf + h) 4 = kb" "slice m (buf + (h + 4)) (length data) = ws_xor kb data"
    "slice m (buf + (h + 4 + length data)) (length rest) = rest" "n = h + 4 + length data + length rest"
    by (simp_all add: slice_append_iff kb add.assoc)
  have "slice (ws_unmask m (buf + (h + 4)) 4 (length data)) (buf + (h + 4)) (length data) = data"
  proof (rule nth_equalityI)
    fix i assume "i < length (slice (ws_unmask m (buf + (h + 4)) 4 (length data)) (buf + (h + 4)) (length data))"
    then have i: "i < length data" by simp
    have "m (buf + (h + 4) + i) = data ! i XOR kb ! (i mod 4)"
      using i p(2) nth_slice [OF i, of m "buf + (h + 4)"] by (simp add: ws_xor_def)
    moreover have "m (buf + h + i mod 4) = kb ! (i mod 4)"
      using p(1) nth_slice [of "i mod 4" 4 m "buf + h"] by simp
    ultimately show "slice (ws_unmask m (buf + (h + 4)) 4 (length data)) (buf + (h + 4)) (length data) ! i = data ! i"
      using i by (simp add: ws_unmask_def xor.assoc)
  qed simp
  then show ?thesis
    using p kb by simp
qed

text \<open>The first byte of a frame.\<close>

definition ws_byte0 :: "u32 \<Rightarrow> byte" where
  "ws_byte0 op = (if op AND WEBSOCKET_DONT_FIN \<noteq> 0 then 0 else 0x80) + ucast (op AND 0x0f)"

lemma ws_frame_Cons: "\<exists>x xs. ws_frame key op data = ws_byte0 op # x # xs"
  by (auto simp: ws_frame_def ws_header_bytes_def ws_byte0_def Let_def be16_def be32_def split: option.splits)

lemma first_byte:
  assumes "slice m buf n = ws_frame key op data @ rest"
  shows "m buf = ws_byte0 op \<and> 0 < n"
proof -
  obtain x xs where f: "ws_frame key op data = ws_byte0 op # x # xs"
    using ws_frame_Cons by blast
  have "0 < n"
    using assms f by (cases n) (auto simp: slice_def)
  then show ?thesis
    using assms f nth_slice [of 0 n m buf] by simp
qed

lemma byte0_bits:
  shows "ws_byte0 op AND 0x80 = 0 \<longleftrightarrow> op AND WEBSOCKET_DONT_FIN \<noteq> 0"
    and "ws_byte0 op AND 0x0f = 0 \<longleftrightarrow> op AND 0x0f = 0"
    and "op AND WEBSOCKET_DONT_FIN \<noteq> 0 \<Longrightarrow> ws_byte0 op AND NOT 0x0f = 0"
proof -
  have all: "\<forall>c \<in> set [0..<16]. (0x80 + ucast (of_nat c :: u32)) AND (0x80 :: byte) \<noteq> 0
      \<and> (ucast (of_nat c :: u32)) AND (0x80 :: byte) = 0
      \<and> ((0x80 + ucast (of_nat c :: u32)) AND (0x0f :: byte) = 0 \<longleftrightarrow> c = 0)
      \<and> ((ucast (of_nat c :: u32)) AND (0x0f :: byte) = 0 \<longleftrightarrow> c = 0)
      \<and> (ucast (of_nat c :: u32)) AND NOT (0x0f :: byte) = 0"
    by (simp add: upt_rec)
  have "unat (op AND 0x0f) \<in> set [0..<16]"
    using word_and_le1 [of op "0x0f"] by (simp add: word_le_nat_alt)
  from bspec [OF all this] have c: "(0x80 + ucast (op AND 0x0f)) AND (0x80 :: byte) \<noteq> 0
      \<and> (ucast (op AND 0x0f)) AND (0x80 :: byte) = 0
      \<and> ((0x80 + ucast (op AND 0x0f)) AND (0x0f :: byte) = 0 \<longleftrightarrow> unat (op AND 0x0f) = 0)
      \<and> ((ucast (op AND 0x0f)) AND (0x0f :: byte) = 0 \<longleftrightarrow> unat (op AND 0x0f) = 0)
      \<and> (ucast (op AND 0x0f)) AND NOT (0x0f :: byte) = 0"
    by simp
  then show "ws_byte0 op AND 0x80 = 0 \<longleftrightarrow> op AND WEBSOCKET_DONT_FIN \<noteq> 0"
    "ws_byte0 op AND 0x0f = 0 \<longleftrightarrow> op AND 0x0f = 0"
    "op AND WEBSOCKET_DONT_FIN \<noteq> 0 \<Longrightarrow> ws_byte0 op AND NOT 0x0f = 0"
    by (simp_all add: ws_byte0_def word_unat_eq_iff [of "op AND 15" 0])
qed

text \<open>A frame that is not a fragment is delivered and removed.\<close>

lemma deliver_whole:
  assumes s: "slice m 0 len = ws_frame key op data @ rest" and ok: "key_ok key" "length data < 2 ^ 62"
    and op: "op AND WEBSOCKET_DONT_FIN = 0" "op AND 0x0f \<noteq> 0"
  shows "\<exists>m' c. mg_deliver_websocket_data mv no_defrag m len =
      Ws_ok (Some (mg_handle_incoming_websocket_frame (ws_byte0 op) data)) m' (length rest) c
    \<and> slice m' 0 (length rest) = rest"
proof -
  define h where "h = length (ws_header_bytes op (length data))"
  define k :: nat where "k = (case key of None \<Rightarrow> 0 | Some _ \<Rightarrow> 4)"
  define n where "n = length data"
  define m1 where "m1 = ws_unmask m (h + k) k n"
  have hk: "2 \<le> h" "h + k \<le> 14"
    by (auto simp: h_def k_def ws_header_bytes_def be16_def be32_def Let_def split: option.splits)
  have b: "m 0 = ws_byte0 op" "0 < len"
    using first_byte [OF s] by auto
  have nf: "\<not> mg_is_ws_fragment (m 0)"
    using op byte0_bits [of op] by (auto simp: mg_is_ws_fragment_def b)
  have hdr: "ws_frame_header m 0 len = (k, h + k, of_nat n)"
    using read_header [OF s ok(1) _ h_def k_def] ok(2) by (simp add: n_def)
  have d: "slice m1 (h + k) n = data" "slice m (h + k + n) (length rest) = rest" "len = h + k + n + length rest"
    using unmask_data [OF s ok(1) h_def k_def] by (simp_all add: m1_def n_def)
  have fl: "unat (of_nat (h + k) + of_nat n :: u64) = h + k + n" "unat (of_nat n :: u64) = n"
  proof -
    have "h + k + n < 2 ^ 64" using hk ok(2) by (simp add: n_def)
    then show "unat (of_nat (h + k) + of_nat n :: u64) = h + k + n" "unat (of_nat n :: u64) = n"
      by (simp_all add: unat_of_nat flip: of_nat_add)
  qed
  have pos: "(of_nat (h + k) + of_nat n :: u64) > 0"
    using fl(1) hk by (simp add: word_less_nat_alt)
  have "slice m1 0 len = slice m1 0 (h + k + n) @ rest"
  proof -
    have "slice m1 (h + k + n) (length rest) = slice m (h + k + n) (length rest)"
      unfolding m1_def by (rule slice_cong) (rule unmask_other, simp)
    then show ?thesis
      using slice_add [of m1 0 "h + k + n" "length rest"] d by simp
  qed
  then obtain m2 where m2: "mem_remove m1 len (h + k + n) = (m2, length rest)" "slice m2 0 (length rest) = rest"
    using slice_remove [of m1 len "slice m1 0 (h + k + n)" rest "h + k + n"] hk
    by (metis length_slice list.size(3) add_is_0 not_numeral_le_zero)
  have "mg_deliver_websocket_data mv no_defrag m len =
      Ws_ok (Some (mg_handle_incoming_websocket_frame (ws_byte0 op) data)) m2 (length rest) (m2 0 AND 0x0f = 8)"
    using nf hdr fl pos d m2(1) b unfolding mg_deliver_websocket_data_def Let_def
    by (simp add: m1_def)
  then show ?thesis
    using m2(2) by blast
qed

section \<open>Fragments\<close>

text \<open>
  The buffer while a message is being reassembled: a zero byte, the size so far, the data so
  far, and what was received behind it.
\<close>

definition ws_partial :: "mem \<Rightarrow> nat \<Rightarrow> byte list \<Rightarrow> byte list \<Rightarrow> bool" where
  "ws_partial m len acc rest \<longleftrightarrow> m 0 = 0 \<and> get_size m = of_nat (length acc) \<and> 5 \<le> len
     \<and> slice m 5 (len - 5) = acc @ rest"

lemma get_put_size [simp]: "get_size (put_size m w) = w"
  by (simp add: get_size_def put_size_def)

lemma put_size_other: "i = 0 \<or> 5 \<le> i \<Longrightarrow> put_size m w i = m i"
  by (auto simp: put_size_def)

lemma slice_put_size: "5 \<le> a \<Longrightarrow> slice (put_size m w) a n = slice m a n"
  by (rule slice_cong) (simp add: put_size_other)

lemma get_size_memmove: "5 \<le> dst \<Longrightarrow> get_size (memmove m dst src n) = get_size m"
  by (simp add: get_size_def memmove_def)

text \<open>What \<open>mg_deliver_websocket_data\<close> finds for a complete frame at \<open>buf\<close>.\<close>

lemma frame_at:
  assumes s: "slice m buf bl = ws_frame (Some kb) op data @ rest" and kb: "length kb = 4"
    and len: "length data < 2 ^ 62" and h: "h = length (ws_header_bytes op (length data))"
    and D: "D = buf + (h + 4)" and n: "n = length data"
  shows "ws_frame_header m buf bl = (4, h + 4, of_nat n)" and "2 \<le> h"
    and "unat (of_nat (h + 4) + of_nat n :: u64) = h + 4 + n" and "unat (of_nat n :: u64) = n"
    and "(of_nat (h + 4) + of_nat n :: u64) > 0" and "bl = h + 4 + n + length rest"
    and "slice (ws_unmask m D 4 n) D (n + length rest) = data @ rest"
proof -
  have ok: "key_ok (Some kb)"
    using kb by (simp add: key_ok_def)
  show hd: "ws_frame_header m buf bl = (4, h + 4, of_nat n)"
    using read_header [OF s ok _ h] len by (simp add: n)
  show h2: "2 \<le> h"
    by (auto simp: h ws_header_bytes_def Let_def)
  have "h + 4 + n < 2 ^ 64"
    using len by (auto simp: n h ws_header_bytes_def be16_def be32_def Let_def)
  then show u: "unat (of_nat (h + 4) + of_nat n :: u64) = h + 4 + n" "unat (of_nat n :: u64) = n"
    by (simp_all add: unat_of_nat flip: of_nat_add)
  show "(of_nat (h + 4) + of_nat n :: u64) > 0"
    using u(1) by (simp add: word_less_nat_alt)
  have d: "slice (ws_unmask m D 4 n) D n = data" "slice m (D + n) (length rest) = rest"
    "bl = h + 4 + n + length rest"
    using unmask_data [OF s ok h, of 4] by (simp_all add: D n add.assoc)
  have "slice (ws_unmask m D 4 n) (D + n) (length rest) = slice m (D + n) (length rest)"
    by (rule slice_cong) (rule unmask_other, simp)
  then show "slice (ws_unmask m D 4 n) D (n + length rest) = data @ rest"
    using d by (simp add: slice_add)
  show "bl = h + 4 + n + length rest"
    by (rule d(3))
qed

lemma deliver_first:
  assumes s: "slice m 0 len = ws_frame (Some kb) op data @ rest" and kb: "length kb = 4"
    and l: "length data < 2 ^ 32" and op: "op AND WEBSOCKET_DONT_FIN \<noteq> 0" "op AND 0x0f \<noteq> 0"
    and stays: "\<And>m. \<not> mv m len"
  shows "\<exists>m' len' c. mg_deliver_websocket_data mv False m len = Ws_ok None m' len' c
    \<and> ws_partial m' len' data rest"
proof -
  define h where "h = length (ws_header_bytes op (length data))"
  define n where "n = length data"
  define D where "D = 0 + (h + 4)"
  note F = frame_at [OF s kb _ h_def D_def n_def]
  have b: "m 0 = ws_byte0 op" "0 < len"
    using first_byte [OF s] by auto
  have fr: "mg_is_ws_fragment (m 0)" "mg_is_ws_first_fragment (m 0)" "\<not> ws_byte0 op AND 0x80 \<noteq> 0"
    using op byte0_bits [of op] by (auto simp: mg_is_ws_fragment_def mg_is_ws_first_fragment_def b)
  define m1 where "m1 = ws_unmask m D 4 n"
  define m2 where "m2 = put_size (m1(0 := m1 0 AND NOT 0x0f)) 0"
  define m3 where "m3 = memmove m2 5 D (len - D)"
  define m4 where "m4 = put_size m3 (get_size m3 + of_nat n)"
  have D6: "5 \<le> D" "D \<le> len"
    using F l by (auto simp: D_def)
  have "mg_deliver_websocket_data mv False m len = Ws_ok None m4 (len + 5 - D) (m4 5 AND 0x0f = 8)"
    using F fr l b stays unfolding mg_deliver_websocket_data_def Let_def
    by (simp add: m4_def m3_def m2_def m1_def D_def)
  moreover have "ws_partial m4 (len + 5 - D) data rest"
  proof -
    have "m1 0 = m 0"
      using D6 by (simp add: m1_def unmask_other)
    then have "m4 0 = 0"
      using byte0_bits(3) [OF op(1)] by (simp add: m4_def m3_def m2_def put_size_other memmove_def b)
    moreover have "get_size m4 = of_nat (length data)"
      by (simp add: m4_def m3_def m2_def get_size_memmove n_def)
    moreover have "slice m4 5 (len + 5 - D - 5) = data @ rest"
    proof -
      have "slice m2 D (len - D) = slice m1 D (len - D)"
        unfolding m2_def using D6 by (intro slice_cong) (simp add: put_size_other)
      then have "slice m3 5 (len - D) = slice m1 D (len - D)"
        by (simp add: m3_def slice_memmove)
      moreover have "len - D = n + length rest" "slice m1 D (n + length rest) = data @ rest"
        using F l by (simp_all add: D_def m1_def)
      ultimately show ?thesis
        by (simp add: m4_def slice_put_size)
    qed
    ultimately show ?thesis
      using D6 by (simp add: ws_partial_def)
  qed
  ultimately show ?thesis
    by blast
qed

lemma deliver_next:
  assumes p: "ws_partial m len acc (ws_frame (Some kb) op data @ rest)" and kb: "length kb = 4"
    and l: "length acc + length data < 2 ^ 32" and op: "op AND 0x0f = 0"
  shows "\<exists>m' len' c. if op AND WEBSOCKET_DONT_FIN \<noteq> 0
    then mg_deliver_websocket_data mv False m len = Ws_ok None m' len' c \<and> ws_partial m' len' (acc @ data) rest
    else mg_deliver_websocket_data mv False m len = Ws_ok (Some (Ws_frame (ws_byte0 op) (acc @ data))) m' len' c
      \<and> slice m' 0 len' = rest"
proof -
  define a where "a = length acc"
  define buf where "buf = 5 + a"
  define h where "h = length (ws_header_bytes op (length data))"
  define n where "n = length data"
  define D where "D = buf + (h + 4)"
  have P: "m 0 = 0" "get_size m = of_nat a" "5 \<le> len" "slice m 5 a = acc"
    "slice m buf (len - buf) = ws_frame (Some kb) op data @ rest" "buf \<le> len"
    using p by (auto simp: ws_partial_def slice_append_iff buf_def a_def)
  note F = frame_at [OF P(5) kb _ h_def D_def n_def]
  have l62: "length data < 2 ^ 62"
    using l by simp
  have ua: "unat (of_nat a :: u32) = a" "unat (of_nat a + of_nat n :: u32) = a + n"
    using l by (simp_all add: a_def n_def unat_of_nat flip: of_nat_add)
  have b: "m buf = ws_byte0 op"
    using first_byte [OF P(5)] by simp
  have fr: "mg_is_ws_fragment 0" "\<not> mg_is_ws_first_fragment 0" "\<not> mg_is_ws_first_fragment (ws_byte0 op)"
    using op byte0_bits [of op] by (auto simp: mg_is_ws_fragment_def mg_is_ws_first_fragment_def)
  define m1 where "m1 = ws_unmask m D 4 n"
  define m3 where "m3 = memmove m1 buf D (len - D)"
  define m4 where "m4 = put_size m3 (get_size m3 + of_nat n)"
  define len4 where "len4 = len + buf - D"
  have D6: "5 \<le> buf" "buf \<le> D" "len - D = n + length rest" "D \<le> len"
    using F l62 P(6) by (auto simp: D_def buf_def)
  have m1: "m1 i = m i" if "i < D" for i
    using that by (simp add: m1_def unmask_other)
  have gs: "get_size m3 = of_nat a"
    using D6 P(2) m1 [of 1] m1 [of 2] m1 [of 3] m1 [of 4] get_size_memmove [of buf m1 D "len - D"]
    by (simp add: m3_def get_size_def)
  have sz: "unat (get_size m4) = a + n"
    using ua by (simp add: m4_def gs)
  have data: "slice m4 5 (a + n + length rest) = acc @ data @ rest"
  proof -
    have "slice m3 5 a = slice m1 5 a"
      unfolding m3_def using D6 by (intro slice_memmove_before) (simp add: buf_def)
    also have "\<dots> = acc"
      using P(4) D6 m1 slice_cong [of 5 a m1 m] by (simp add: buf_def)
    finally have "slice m3 5 a = acc" .
    moreover have "slice m3 buf (n + length rest) = data @ rest"
      using F(7) l62 D6(3) by (simp add: m3_def slice_memmove m1_def)
    ultimately show ?thesis
      by (simp add: m4_def slice_put_size add.assoc slice_add [of m3 5 a] flip: buf_def)
  qed
  have len4: "len4 = 5 + (a + n + length rest)"
    using D6 by (simp add: len4_def buf_def)
  have ev: "mg_handle_incoming_websocket_frame (ws_byte0 op) x = Ws_frame (ws_byte0 op) x" for x
  proof -
    have "ws_byte0 op AND 8 = (ws_byte0 op AND 0x0f) AND 8"
      by (simp add: and.assoc)
    then show ?thesis
      using op byte0_bits(2) [of op] by (simp add: mg_handle_incoming_websocket_frame_def)
  qed
  have dl: "mg_deliver_websocket_data mv False m len =
      (if ws_byte0 op AND 0x80 \<noteq> 0
       then case mem_remove m4 len4 (5 + (a + n)) of
          (m5, len5) \<Rightarrow> Ws_ok (Some (Ws_frame (ws_byte0 op) (slice m4 5 (a + n)))) m5 len5 (m5 buf AND 0x0f = 8)
       else Ws_ok None m4 len4 (m4 buf AND 0x0f = 8))"
    using F l62 fr b P ua sz ev unfolding mg_deliver_websocket_data_def Let_def
    by (simp add: m4_def m3_def m1_def D_def len4_def flip: buf_def)
  show ?thesis
  proof (cases "op AND WEBSOCKET_DONT_FIN \<noteq> 0")
    case True
    moreover have "ws_partial m4 len4 (acc @ data) rest"
      using data len4 gs P(1) m1 [of 0] D6
      by (simp add: ws_partial_def m4_def put_size_other m3_def memmove_def a_def n_def)
    ultimately show ?thesis
      using dl byte0_bits(1) [of op] by auto
  next
    case False
    have ne: "slice m4 0 5 \<noteq> []"
      using length_slice [of m4 0 5] by (metis list.size(3) zero_neq_numeral)
    have "slice m4 0 len4 = (slice m4 0 5 @ acc @ data) @ rest"
      using data slice_add [of m4 0 5 "a + n + length rest"] by (simp add: len4)
    then obtain m5 where "mem_remove m4 len4 (5 + (a + n)) = (m5, length rest)" "slice m5 0 (length rest) = rest"
      using slice_remove [of m4 len4 "slice m4 0 5 @ acc @ data" rest] ne by (auto simp: a_def n_def)
    moreover have "slice m4 5 (a + n) = acc @ data"
      using data slice_append_iff [of m4 5 "a + n + length rest" "acc @ data" rest] by (simp add: a_def n_def)
    ultimately show ?thesis
      using dl False byte0_bits(1) [of op] by auto
  qed
qed

section \<open>Streams of messages\<close>

text \<open>
  A message is sent in one frame, masked or not, or in fragments, masked: a first frame with
  its opcode, continuation frames, and a last one with the final bit.
\<close>

type_synonym keyed = "byte list \<times> byte list"

datatype ws_msg = Whole "byte list option" u32 "byte list" | Fragmented u32 keyed "keyed list" keyed

fun ws_send_parts :: "byte list \<Rightarrow> keyed list \<Rightarrow> byte list" where
  "ws_send_parts sb [] = sb"
| "ws_send_parts sb ((k, d) # ps) =
     ws_send_parts (fst (mg_send_websocket_frame sb (Some k) WEBSOCKET_DONT_FIN d)) ps"

fun ws_send_msg :: "byte list \<Rightarrow> ws_msg \<Rightarrow> byte list" where
  "ws_send_msg sb (Whole key op data) = fst (mg_send_websocket_frame sb key op data)"
| "ws_send_msg sb (Fragmented op (k, d) ps (kl, dl)) =
     fst (mg_send_websocket_frame
       (ws_send_parts (fst (mg_send_websocket_frame sb (Some k) op d)) ps) (Some kl) 0 dl)"

fun ws_msg_ok :: "ws_msg \<Rightarrow> bool" where
  "ws_msg_ok (Whole key op data) \<longleftrightarrow> key_ok key \<and> length data < 2 ^ 62
     \<and> op AND WEBSOCKET_DONT_FIN = 0 \<and> op AND 0x0f \<noteq> 0"
| "ws_msg_ok (Fragmented op (k, d) ps (kl, dl)) \<longleftrightarrow> op AND WEBSOCKET_DONT_FIN \<noteq> 0 \<and> op AND 0x0f \<noteq> 0
     \<and> length k = 4 \<and> length kl = 4 \<and> (\<forall>(k', d') \<in> set ps. length k' = 4)
     \<and> length (d @ concat (map snd ps) @ dl) < 2 ^ 32"

fun ws_msg_event :: "ws_msg \<Rightarrow> ws_event" where
  "ws_msg_event (Whole key op data) = mg_handle_incoming_websocket_frame (ws_byte0 op) data"
| "ws_msg_event (Fragmented op (k, d) ps (kl, dl)) = Ws_frame 0x80 (d @ concat (map snd ps) @ dl)"

fun ws_msg_frames :: "ws_msg \<Rightarrow> nat" where
  "ws_msg_frames (Whole key op data) = 1"
| "ws_msg_frames (Fragmented op x ps y) = 2 + length ps"

definition ws_parts :: "keyed list \<Rightarrow> byte list" where
  "ws_parts ps = concat (map (\<lambda>(k, d). ws_frame (Some k) WEBSOCKET_DONT_FIN d) ps)"

fun ws_msg_bytes :: "ws_msg \<Rightarrow> byte list" where
  "ws_msg_bytes (Whole key op data) = ws_frame key op data"
| "ws_msg_bytes (Fragmented op (k, d) ps (kl, dl)) =
     ws_frame (Some k) op d @ ws_parts ps @ ws_frame (Some kl) 0 dl"

lemma send_parts:
  "\<forall>(k, d) \<in> set ps. length k = 4 \<Longrightarrow> ws_send_parts sb ps = sb @ ws_parts ps"
  by (induction sb ps rule: ws_send_parts.induct) (auto simp: ws_parts_def send_frame key_ok_def)

lemma send_msg: "ws_msg_ok msg \<Longrightarrow> ws_send_msg sb msg = sb @ ws_msg_bytes msg"
  by (induction sb msg rule: ws_send_msg.induct) (auto simp: send_frame send_parts key_ok_def)

text \<open>The receive buffer is never moved, or there is no need to resize it.\<close>

fun in_place :: "(mem \<Rightarrow> nat \<Rightarrow> bool) \<Rightarrow> ws_msg \<Rightarrow> bool" where
  "in_place mv (Whole key op data) \<longleftrightarrow> True"
| "in_place mv (Fragmented op x ps y) \<longleftrightarrow> (\<forall>m n. \<not> mv m n)"

text \<open>Running the receive loop past a message.\<close>

definition ws_after :: "(mem \<Rightarrow> nat \<Rightarrow> bool) \<Rightarrow> nat \<Rightarrow> ws_event \<Rightarrow> mem \<Rightarrow> nat \<Rightarrow> byte list \<Rightarrow> bool" where
  "ws_after mv k ev m len rest \<longleftrightarrow> (\<exists>m' len' c. slice m' 0 len' = rest \<and>
     (\<forall>fuel. ws_recv_loop mv (k + fuel) False m len =
        map_option (\<lambda>(evs, m2, len2, c2). (ev # evs, m2, len2, c \<or> c2)) (ws_recv_loop mv fuel False m' len')))"

lemma ws_after_event:
  assumes "mg_deliver_websocket_data mv False m len = Ws_ok (Some ev) m' len' c" and "slice m' 0 len' = rest"
  shows "ws_after mv 1 ev m len rest"
  using assms unfolding ws_after_def by (intro exI [of _ m'] exI [of _ len'] exI [of _ c]) simp

lemma ws_after_step:
  assumes "mg_deliver_websocket_data mv False m len = Ws_ok None m' len' c" and "ws_after mv k ev m' len' rest"
  shows "ws_after mv (Suc k) ev m len rest"
proof -
  obtain m2 len2 c2 where r: "slice m2 0 len2 = rest"
    "\<And>fuel. ws_recv_loop mv (k + fuel) False m' len' =
        map_option (\<lambda>(evs, m3, len3, c3). (ev # evs, m3, len3, c2 \<or> c3)) (ws_recv_loop mv fuel False m2 len2)"
    using assms(2) by (auto simp: ws_after_def)
  have "ws_recv_loop mv (Suc k + fuel) False m len =
      map_option (\<lambda>(evs, m3, len3, c3). (ev # evs, m3, len3, (c \<or> c2) \<or> c3)) (ws_recv_loop mv fuel False m2 len2)" for fuel
    using assms(1) r(2) [of fuel]
    by (cases "ws_recv_loop mv fuel False m2 len2") (auto simp: disj_assoc)
  then show ?thesis
    using r(1) unfolding ws_after_def by blast
qed

lemma ws_after_parts:
  assumes "ws_partial m len acc (ws_parts ps @ ws_frame (Some kl) 0 dl @ rest)"
    and "\<forall>(k, d) \<in> set ps. length k = 4" and "length kl = 4"
    and "length (acc @ concat (map snd ps) @ dl) < 2 ^ 32"
  shows "ws_after mv (Suc (length ps)) (Ws_frame 0x80 (acc @ concat (map snd ps) @ dl)) m len rest"
  using assms
proof (induction ps arbitrary: m len acc)
  case Nil
  obtain m' len' c where "mg_deliver_websocket_data mv False m len = Ws_ok (Some (Ws_frame (ws_byte0 0) (acc @ dl))) m' len' c"
    "slice m' 0 len' = rest"
    using deliver_next [of m len acc kl 0 dl rest mv] Nil by (auto simp: ws_parts_def)
  then show ?case
    using ws_after_event by (simp add: ws_byte0_def)
next
  case (Cons p ps)
  obtain k d where p: "p = (k, d)" by (cases p)
  have "WEBSOCKET_DONT_FIN AND 0x0f = 0" "WEBSOCKET_DONT_FIN \<noteq> 0"
    by (simp_all add: WEBSOCKET_DONT_FIN_def)
  then obtain m' len' c where "mg_deliver_websocket_data mv False m len = Ws_ok None m' len' c"
    "ws_partial m' len' (acc @ d) (ws_parts ps @ ws_frame (Some kl) 0 dl @ rest)"
    using deliver_next [of m len acc k WEBSOCKET_DONT_FIN d "ws_parts ps @ ws_frame (Some kl) 0 dl @ rest" mv] Cons.prems
    by (auto simp: p ws_parts_def)
  then show ?case
    using ws_after_step Cons.IH [of m' len' "acc @ d"] Cons.prems by (fastforce simp: p)
qed

lemma ws_after_msg:
  assumes "slice m 0 len = ws_msg_bytes msg @ rest" and "ws_msg_ok msg" and "in_place mv msg"
  shows "ws_after mv (ws_msg_frames msg) (ws_msg_event msg) m len rest"
proof (cases msg)
  case (Whole key op data)
  obtain m' c where "mg_deliver_websocket_data mv False m len =
      Ws_ok (Some (mg_handle_incoming_websocket_frame (ws_byte0 op) data)) m' (length rest) c"
    "slice m' 0 (length rest) = rest"
    using deliver_whole [of m len key op data rest mv False] assms by (auto simp: Whole)
  then show ?thesis
    using ws_after_event by (auto simp: Whole)
next
  case (Fragmented op x ps y)
  obtain k d kl dl where xy: "x = (k, d)" "y = (kl, dl)" by (cases x; cases y)
  obtain m' len' c where "mg_deliver_websocket_data mv False m len = Ws_ok None m' len' c"
    "ws_partial m' len' d (ws_parts ps @ ws_frame (Some kl) 0 dl @ rest)"
    using deliver_first [of m len k op d "ws_parts ps @ ws_frame (Some kl) 0 dl @ rest" mv] assms
    by (auto simp: Fragmented xy)
  then show ?thesis
    using ws_after_step ws_after_parts [of m' len' d ps kl dl rest] assms(2) by (auto simp: Fragmented xy)
qed

lemma ws_loop_stream:
  assumes "slice m 0 len = concat (map ws_msg_bytes msgs)" and "list_all ws_msg_ok msgs" and "list_all (in_place mv) msgs"
  shows "\<exists>m' c. \<forall>fuel > sum_list (map ws_msg_frames msgs).
    ws_recv_loop mv fuel False m len = Some (map ws_msg_event msgs, m', 0, c)"
  using assms
proof (induction msgs arbitrary: m len)
  case Nil
  then have "len = 0"
    by (simp add: slice_def)
  then have "mg_deliver_websocket_data mv False m len = Ws_wait"
    by (simp add: mg_deliver_websocket_data_def ws_frame_header_def)
  then have "ws_recv_loop mv fuel False m len = Some ([], m, 0, False)" if "fuel > 0" for fuel
    using that \<open>len = 0\<close> by (cases fuel) auto
  then show ?case by auto
next
  case (Cons msg msgs)
  obtain m1 len1 c1 where r: "slice m1 0 len1 = concat (map ws_msg_bytes msgs)"
    "\<And>fuel. ws_recv_loop mv (ws_msg_frames msg + fuel) False m len =
        map_option (\<lambda>(evs, m2, len2, c2). (ws_msg_event msg # evs, m2, len2, c1 \<or> c2)) (ws_recv_loop mv fuel False m1 len1)"
    using ws_after_msg [of m len msg "concat (map ws_msg_bytes msgs)" mv] Cons.prems by (auto simp: ws_after_def)
  obtain m' c where "\<forall>fuel > sum_list (map ws_msg_frames msgs).
      ws_recv_loop mv fuel False m1 len1 = Some (map ws_msg_event msgs, m', 0, c)"
    using Cons.IH [OF r(1)] Cons.prems by auto
  then have "ws_recv_loop mv fuel False m len = Some (map ws_msg_event (msg # msgs), m', 0, c1 \<or> c)"
    if "fuel > sum_list (map ws_msg_frames (msg # msgs))" for fuel
    using r(2) [of "fuel - ws_msg_frames msg"] that by simp
  then show ?case by blast
qed

text \<open>Where \<open>realloc\<close> moves the buffer, the first fragment of a message leaves the pointers of the function dangling.\<close>

lemma first_fragment_moved:
  assumes s: "slice m 0 len = ws_frame (Some kb) op data @ rest" and kb: "length kb = 4"
    and l: "length data < 2 ^ 32" and op: "op AND WEBSOCKET_DONT_FIN \<noteq> 0" "op AND 0x0f \<noteq> 0" and moved: "\<And>m. mv m len"
  shows "mg_deliver_websocket_data mv False m len = Ws_undef"
proof -
  define h where "h = length (ws_header_bytes op (length data))"
  define n where "n = length data"
  define D where "D = 0 + (h + 4)"
  note F = frame_at [OF s kb _ h_def D_def n_def]
  have b: "m 0 = ws_byte0 op" "0 < len"
    using first_byte [OF s] by auto
  have "mg_is_ws_fragment (m 0)" "mg_is_ws_first_fragment (m 0)"
    using op byte0_bits [of op] by (auto simp: mg_is_ws_fragment_def mg_is_ws_first_fragment_def b)
  then show ?thesis
    using F l b moved unfolding mg_deliver_websocket_data_def Let_def by simp
qed

text \<open>
  C23. Messages sent with \<open>mg_send_websocket_frame\<close>, each in one frame (masked or not) or in
  masked fragments, are received: when the receive buffer holds the bytes that were sent, the
  receive loop raises exactly one event per message, in order, with the data of the message (of
  a fragmented one, the data of its fragments joined), and leaves the buffer empty. The event
  of a fragmented message carries the flags of its last frame, not its opcode. Opcodes are not 0, whole messages have less than \<open>2 ^ 62\<close> bytes and fragmented ones less than \<open>2 ^ 32\<close>. For fragmented messages \<open>realloc\<close>
  must extend the receive buffer where it is; otherwise the code goes on with pointers into the old block
  (\<open>first_fragment_moved\<close>).
\<close>

theorem websocket_stream:
  assumes "list_all ws_msg_ok msgs" and "list_all (in_place mv) msgs" and "slice m 0 len = foldl ws_send_msg [] msgs"
  shows "\<exists>m' c. \<forall>fuel > sum_list (map ws_msg_frames msgs).
    ws_recv_loop mv fuel False m len = Some (map ws_msg_event msgs, m', 0, c)"
proof -
  have "foldl ws_send_msg sb msgs = sb @ concat (map ws_msg_bytes msgs)" for sb
    using assms(1) by (induction msgs arbitrary: sb) (simp_all add: send_msg)
  then show ?thesis
    using assms ws_loop_stream [of m len msgs mv] by simp
qed

theorem websocket_stream_witness:
  "\<exists>m' c. \<forall>fuel > 4. ws_recv_loop (\<lambda>m n. False) fuel False
      (\<lambda>i. foldl ws_send_msg [] [Whole None 1 [7, 8], Fragmented 0x101 ([1, 2, 3, 4], [5]) [([9, 9, 9, 9], [6])] ([0, 1, 2, 3], [7])] ! i)
      (length (foldl ws_send_msg [] [Whole None 1 [7, 8], Fragmented 0x101 ([1, 2, 3, 4], [5]) [([9, 9, 9, 9], [6])] ([0, 1, 2, 3], [7])]))
    = Some ([Ws_frame 0x81 [7, 8], Ws_frame 0x80 [5, 6, 7]], m', 0, c)"
proof -
  have s: "slice (\<lambda>i. xs ! i) 0 (length xs) = xs" for xs :: "byte list"
    by (simp add: slice_def map_nth)
  show ?thesis
    using websocket_stream [OF _ _ s, of "[Whole None 1 [7, 8], Fragmented 0x101 ([1, 2, 3, 4], [5]) [([9, 9, 9, 9], [6])] ([0, 1, 2, 3], [7])]" "\<lambda>m n. False"]
    by (simp add: key_ok_def WEBSOCKET_DONT_FIN_def ws_byte0_def mg_handle_incoming_websocket_frame_def
        del: foldl_Cons foldl_Nil ws_recv_loop.simps)
qed

end
