(* ===== verification/Http.thy ===== *)
theory Http
  imports MgStr
begin

text \<open>
  HTTP in \<open>mongoose/src/http.c\<close>: \<open>mg_parse_http\<close> with the scan for the end of the headers, chunked
  bodies in both directions, and the decoding of URL-encoded text. A pointer into the message
  is the suffix of the buffered bytes that starts there.
\<close>

section \<open>Messages\<close>

abbreviation CR :: byte where "CR \<equiv> 13"
abbreviation LF :: byte where "LF \<equiv> 10"

definition isprint :: "byte \<Rightarrow> bool" where
  "isprint b \<longleftrightarrow> 32 \<le> b \<and> b < 127"

definition isspace :: "byte \<Rightarrow> bool" where
  "isspace b \<longleftrightarrow> b = 32 \<or> 9 \<le> b \<and> b \<le> 13"

definition isdigit_byte :: "byte \<Rightarrow> bool" where
  "isdigit_byte b \<longleftrightarrow> 48 \<le> b \<and> b \<le> 57"

text \<open>\<open>mg_http_get_request_len\<close> from the index \<open>i\<close> on.\<close>

fun request_len :: "nat \<Rightarrow> byte list \<Rightarrow> int" where
  "request_len i [] = 0"
| "request_len i (b # s) =
     (if \<not> isprint b \<and> b \<noteq> CR \<and> b \<noteq> LF \<and> b < 128 then -1
      else if b = LF \<and> take 1 s = [LF] then int i + 2
      else if b = LF \<and> take 2 s = [CR, LF] then int i + 3
      else request_len (Suc i) s)"

definition mg_http_get_request_len :: "byte list \<Rightarrow> int" where
  "mg_http_get_request_len buf = request_len 0 buf"

text \<open>\<open>strtoll (s, NULL, 10)\<close>, which stops at its limits.\<close>

definition strtoll :: "byte list \<Rightarrow> int" where
  "strtoll s0 =
     (let s = dropWhile isspace s0; neg = (take 1 s = [45]);
          ds = takeWhile isdigit_byte (if neg \<or> take 1 s = [43] then tl s else s);
          v = foldl (\<lambda>n d. n * 10 + (uint d - 48)) 0 ds
      in max (- (2 ^ 63)) (min (2 ^ 63 - 1) (if neg then - v else v)))"

definition to64 :: "byte list \<Rightarrow> u64" where
  "to64 s = of_int (strtoll s)"

definition atoi :: "byte list \<Rightarrow> int" where
  "atoi s = signed_take_bit 31 (strtoll s)"

text \<open>\<open>struct http_message\<close>; the body and the message are given by their lengths.\<close>

record http_msg =
  hq_message_len :: u64
  hq_method :: "byte list"
  hq_uri :: "byte list"
  hq_proto :: "byte list"
  hq_resp_code :: int
  hq_resp_status_msg :: "byte list"
  hq_query_string :: "byte list option"   \<comment> \<open>None is the null pointer\<close>
  hq_headers :: "(byte list \<times> byte list) list"
  hq_body_len :: u64

definition http_msg0 :: http_msg where
  "http_msg0 = \<lparr>hq_message_len = 0, hq_method = [], hq_uri = [], hq_proto = [], hq_resp_code = 0, hq_resp_status_msg = [],
     hq_query_string = None, hq_headers = [], hq_body_len = 0\<rparr>"

definition MG_MAX_HTTP_HEADERS :: nat where
  "MG_MAX_HTTP_HEADERS = 40"

definition trim_spaces :: "byte list \<Rightarrow> byte list" where
  "trim_spaces v = rev (dropWhile (\<lambda>c. c = 32) (rev v))"

text \<open>The first argument counts the iterations that are left.\<close>

fun mg_http_parse_headers :: "nat \<Rightarrow> nat \<Rightarrow> byte list \<Rightarrow> http_msg \<Rightarrow> http_msg" where
  "mg_http_parse_headers 0 len s req = req"
| "mg_http_parse_headers (Suc n) len s req =
     (let (k, s1) = mg_skip s (bs '': ''); (v0, s2) = mg_skip s1 [CR, LF]; v = trim_spaces v0 in
      if k = [] \<or> v = [] then req
      else let req1 = req\<lparr>hq_headers := hq_headers req @ [(k, v)]\<rparr>;
               req2 = (if mg_ncasecmp s (bs ''Content-Length'') 14 = 0
                 then req1\<lparr>hq_body_len := to64 s1, hq_message_len := of_nat len + to64 s1\<rparr> else req1)
           in mg_http_parse_headers n len s2 req2)"

definition mg_parse_http :: "byte list \<Rightarrow> bool \<Rightarrow> int \<times> http_msg" where
  "mg_parse_http buf is_req =
     (let len = mg_http_get_request_len buf in
      if len \<le> 0 then (len, http_msg0)
      else let hm = http_msg0\<lparr>hq_message_len := - 1, hq_body_len := - 1\<rparr>;
               s = dropWhile isspace (take (nat len) buf)
           in if is_req then
                (let (meth, s1) = mg_skip s (bs '' ''); (uri, s2) = mg_skip s1 (bs '' ''); (proto, s3) = mg_skip s2 [CR, LF] in
                 if length s1 \<ge> length s \<or> length s2 \<ge> length s1 then (-1, hm\<lparr>hq_method := meth, hq_uri := uri, hq_proto := proto\<rparr>)
                 else let hm1 = (case memchr uri 63 of
                        None \<Rightarrow> hm\<lparr>hq_method := meth, hq_uri := uri, hq_proto := proto\<rparr>
                      | Some q \<Rightarrow> hm\<lparr>hq_method := meth, hq_uri := take q uri, hq_proto := proto, hq_query_string := Some (drop (Suc q) uri)\<rparr>);
                      hm2 = mg_http_parse_headers (MG_MAX_HTTP_HEADERS - 1) (nat len) s3 hm1
                   in (len, if hq_body_len hm2 = - 1 \<and> mg_vcasecmp meth (bs ''PUT'') \<noteq> 0 \<and> mg_vcasecmp meth (bs ''POST'') \<noteq> 0
                            then hm2\<lparr>hq_body_len := 0, hq_message_len := of_int len\<rparr> else hm2))
              else
                (let (proto, s1) = mg_skip s (bs '' '') in
                 if length s1 < 4 \<or> s1 ! 3 \<noteq> 32 then (-1, hm\<lparr>hq_proto := proto\<rparr>)
                 else if atoi s1 < 100 \<or> atoi s1 \<ge> 600 then (-1, hm\<lparr>hq_proto := proto, hq_resp_code := atoi s1\<rparr>)
                 else let (msg, s3) = mg_skip (drop 4 s1) [CR, LF]
                   in (len, mg_http_parse_headers (MG_MAX_HTTP_HEADERS - 1) (nat len) s3
                        (hm\<lparr>hq_proto := proto, hq_resp_code := atoi s1, hq_resp_status_msg := msg\<rparr>))))"

section \<open>Requests that are printed\<close>

text \<open>Decimal digits.\<close>

function dec :: "nat \<Rightarrow> byte list" where
  "dec n = (if n < 10 then [of_nat (48 + n)] else dec (n div 10) @ [of_nat (48 + n mod 10)])"
  by auto
termination
  by (relation "measure id") auto

declare dec.simps [simp del]

definition header_line :: "byte list \<times> byte list \<Rightarrow> byte list" where
  "header_line h = fst h @ bs '': '' @ snd h @ [CR, LF]"

record request =
  rq_method :: "byte list"
  rq_path :: "byte list"
  rq_query :: "byte list option"
  rq_proto :: "byte list"
  rq_headers :: "(byte list \<times> byte list) list"
  rq_body :: "byte list"

definition target :: "request \<Rightarrow> byte list" where
  "target r = rq_path r @ (case rq_query r of None \<Rightarrow> [] | Some q \<Rightarrow> 63 # q)"

definition all_headers :: "request \<Rightarrow> (byte list \<times> byte list) list" where
  "all_headers r = (bs ''Content-Length'', dec (length (rq_body r))) # rq_headers r"

definition request_head :: "request \<Rightarrow> byte list" where
  "request_head r = rq_method r @ [32] @ target r @ [32] @ rq_proto r @ [CR, LF] @ concat (map header_line (all_headers r)) @ [CR, LF]"

text \<open>Text that may stand in a line, words without spaces, and headers that the parser keeps as they are.\<close>

definition plain :: "byte list \<Rightarrow> bool" where
  "plain s \<longleftrightarrow> list_all (\<lambda>b. 32 \<le> b \<and> b \<noteq> 127) s"

definition word_text :: "byte list \<Rightarrow> bool" where
  "word_text s \<longleftrightarrow> s \<noteq> [] \<and> plain s \<and> 32 \<notin> set s"

definition header_ok :: "byte list \<times> byte list \<Rightarrow> bool" where
  "header_ok h \<longleftrightarrow> word_text (fst h) \<and> 58 \<notin> set (fst h)
     \<and> snd h \<noteq> [] \<and> plain (snd h) \<and> hd (snd h) \<notin> {32, 58} \<and> last (snd h) \<noteq> 32"

definition is_content_length :: "byte list \<Rightarrow> bool" where
  "is_content_length k \<longleftrightarrow> map lowercase (take 14 k) = bs ''content-length''"

definition request_text_ok :: "request \<Rightarrow> bool" where
  "request_text_ok r \<longleftrightarrow> word_text (rq_method r) \<and> word_text (rq_path r) \<and> 63 \<notin> set (rq_path r)
     \<and> (case rq_query r of None \<Rightarrow> True | Some q \<Rightarrow> plain q \<and> 32 \<notin> set q)
     \<and> rq_proto r \<noteq> [] \<and> plain (rq_proto r) \<and> hd (rq_proto r) \<noteq> 32
     \<and> list_all header_ok (rq_headers r) \<and> length (rq_headers r) \<le> 38
     \<and> list_all (\<lambda>h. \<not> is_content_length (fst h)) (rq_headers r)"

definition request_ok :: "request \<Rightarrow> bool" where
  "request_ok r \<longleftrightarrow> request_text_ok r \<and> length (rq_body r) < 2 ^ 63"

lemma skip_word:
  assumes "\<And>c. c \<in> set v \<Longrightarrow> \<not> is_delim d c" and "\<And>c. c \<in> set sep \<Longrightarrow> is_delim d c" and "sep \<noteq> []"
    and "s = [] \<or> \<not> is_delim d (hd s)"
  shows "mg_skip (v @ sep @ s) d = (v, s)"
proof -
  obtain b sep' where b: "sep = b # sep'" "is_delim d b"
    using assms(2,3) by (cases sep) auto
  have "takeWhile (\<lambda>c. \<not> is_delim d c) (v @ sep @ s) = v" "dropWhile (\<lambda>c. \<not> is_delim d c) (v @ sep @ s) = sep @ s"
    using assms(1) b by (simp_all add: takeWhile_append dropWhile_append)
  moreover have "dropWhile (is_delim d) (sep @ s) = s"
    using assms(2,4) by (cases s) (auto simp: dropWhile_append)
  ultimately show ?thesis
    by (simp add: mg_skip_def)
qed

lemma plain_byte:
  "32 \<le> b \<Longrightarrow> b \<noteq> 127 \<Longrightarrow> b < 128 \<Longrightarrow> b < (127 :: byte)"
  by unat_arith

lemma plain_Nil [simp]: "plain []"
  by (simp add: plain_def)

lemma plain_Cons [simp]: "plain (b # s) \<longleftrightarrow> 32 \<le> b \<and> b \<noteq> 127 \<and> plain s"
  by (simp add: plain_def)

lemma plain_append [simp]: "plain (s @ t) \<longleftrightarrow> plain s \<and> plain t"
  by (simp add: plain_def)

lemma plain_set: "plain s \<Longrightarrow> b \<in> set s \<Longrightarrow> 32 \<le> b"
  by (simp add: plain_def list_all_iff)

lemma request_len_plain:
  "plain s \<Longrightarrow> request_len i (s @ t) = request_len (i + length s) t"
proof (induction s arbitrary: i)
  case (Cons b s)
  then have b: "32 \<le> b" "b < 128 \<Longrightarrow> b < 127" and s: "plain s"
    using plain_byte [of b] by auto
  from b(1) have "b \<noteq> LF"
    by auto
  with b show ?case
    using Cons.IH [OF s, of "Suc i"] by (auto simp: isprint_def)
qed simp

lemma request_len_eol:
  "t \<noteq> [] \<Longrightarrow> hd t \<noteq> CR \<Longrightarrow> hd t \<noteq> LF \<Longrightarrow> request_len i (CR # LF # t) = request_len (i + 2) t"
  "request_len i (CR # LF # CR # LF # t) = int i + 4"
  by (cases t; simp add: isprint_def)+

declare request_len.simps [simp del]

lemma sep_bytes [simp]: "bs '': '' = [58, 32]" "bs '' '' = [32]"
  by code_simp+

lemma header_ok_parts:
  assumes "header_ok h"
  shows "fst h \<noteq> []" "snd h \<noteq> []" "plain (fst h)" "plain (snd h)" "32 \<notin> set (fst h)" "58 \<notin> set (fst h)"
    "hd (snd h) \<noteq> 32" "hd (snd h) \<noteq> 58" "List.last (snd h) \<noteq> 32"
  using assms by (auto simp: header_ok_def word_text_def)

lemma plain_hd: "plain s \<Longrightarrow> s \<noteq> [] \<Longrightarrow> 32 \<le> hd s"
  by (cases s) auto

lemma line_bytes:
  "(32 :: byte) \<le> b \<Longrightarrow> b \<noteq> 0 \<and> b \<noteq> CR \<and> b \<noteq> LF"
  by auto

lemma request_len_headers:
  assumes "list_all header_ok hs"
  shows "request_len i ([CR, LF] @ concat (map header_line hs) @ [CR, LF] @ rest) = int (i + 4 + length (concat (map header_line hs)))"
  using assms
proof (induction hs arbitrary: i)
  case Nil
  then show ?case
    using request_len_eol(2) [of i rest] by simp
next
  case (Cons h hs)
  note h = header_ok_parts [of h]
  have ok: "header_ok h" "list_all header_ok hs"
    using Cons.prems by auto
  let ?l = "fst h @ [58, 32] @ snd h" and ?t = "[CR, LF] @ concat (map header_line hs) @ [CR, LF] @ rest"
  have l: "plain ?l" "?l @ ?t \<noteq> []" "32 \<le> hd (?l @ ?t)"
    using h [OF ok(1)] plain_hd [of "fst h"] by (auto simp: hd_append)
  have "request_len i (CR # LF # ?l @ ?t) = request_len (i + 2 + length ?l) ?t"
    using request_len_eol(1) [of "?l @ ?t" i] l(2) line_bytes [OF l(3)] request_len_plain [OF l(1), of "i + 2" ?t] by simp
  then show ?case
    using Cons.IH [OF ok(2), of "i + 2 + length ?l"] by (simp add: header_line_def [of h])
qed

section \<open>Decimal numbers\<close>

lemma digit_byte:
  assumes "d < 10"
  shows "uint (of_nat (48 + d) :: byte) = 48 + int d" "isdigit_byte (of_nat (48 + d))"
proof -
  have u: "unat (of_nat (48 + d) :: byte) = 48 + d"
    using assms by (simp add: unat_of_nat take_bit_nat_eq_self del: of_nat_add)
  then show "uint (of_nat (48 + d) :: byte) = 48 + int d"
    by (metis of_nat_add of_nat_numeral uint_nat)
  show "isdigit_byte (of_nat (48 + d))"
    using assms u by (simp add: isdigit_byte_def word_le_nat_alt del: of_nat_add)
qed

lemma dec_digits: "list_all isdigit_byte (dec n)"
  by (induction n rule: dec.induct) (subst dec.simps, auto simp: digit_byte simp del: of_nat_add)

lemma dec_not_Nil: "dec n \<noteq> []"
  by (subst dec.simps) simp

lemma dec_value: "foldl (\<lambda>n d. n * 10 + (uint d - 48)) 0 (dec n) = int n"
  by (induction n rule: dec.induct) (subst dec.simps, auto simp: digit_byte zdiv_int zmod_int simp del: of_nat_add)

lemma isdigit_not:
  "isdigit_byte b \<Longrightarrow> \<not> isspace b \<and> b \<noteq> 45 \<and> b \<noteq> 43 \<and> b \<noteq> 32 \<and> b \<noteq> 58 \<and> 32 \<le> b \<and> b \<noteq> 127"
  unfolding isdigit_byte_def isspace_def by unat_arith

lemma strtoll_dec:
  assumes "n < 2 ^ 63" "\<not> isdigit_byte (hd (t @ [0]))"
  shows "strtoll (dec n @ t) = int n"
proof -
  obtain d ds where d: "dec n = d # ds" "isdigit_byte d"
    using dec_not_Nil [of n] dec_digits [of n] by (cases "dec n") auto
  have "takeWhile isdigit_byte (dec n @ t) = dec n"
    using dec_digits [of n] assms(2) by (cases t) (auto simp: list_all_iff takeWhile_append)
  moreover have "dropWhile isspace (dec n @ t) = dec n @ t" "take 1 (dec n @ t) = [d]"
    using d isdigit_not by auto
  moreover have "d \<noteq> 45" "d \<noteq> 43"
    using d isdigit_not by auto
  ultimately show ?thesis
    using assms(1) dec_value [of n] by (simp add: strtoll_def Let_def)
qed

section \<open>Parsing what was printed\<close>

lemma trim_spaces_id: "v \<noteq> [] \<Longrightarrow> List.last v \<noteq> 32 \<Longrightarrow> trim_spaces v = v"
  by (cases v rule: rev_cases) (auto simp: trim_spaces_def)

lemma lowercase_colon: "lowercase 58 = 58"
  by (simp add: lowercase_def)

text \<open>Only a name that starts with the text compared can match, because the colon does not occur in it.\<close>

lemma ncasecmp_name:
  assumes "mg_ncasecmp (k @ 58 # x) t n = 0" "n \<le> length t" "58 \<notin> lowercase ` set t" "0 \<notin> set t"
  shows "map lowercase (take n k) = map lowercase (take n t)"
  using assms
proof (induction n arbitrary: k t)
  case (Suc n)
  then obtain b t' where t: "t = b # t'"
    by (cases t) auto
  have b: "b \<noteq> 0" "lowercase b \<noteq> 58" "lowercase b \<noteq> 0"
    using Suc.prems lowercase_eq_0 [of b] by (auto simp: t)
  show ?case
  proof (cases k)
    case Nil
    then show ?thesis
      using Suc.prems(1) b by (auto simp: t lowercase_colon Let_def word_uint_eq_iff split: if_splits)
  next
    case (Cons a k')
    have "lowercase a = lowercase b"
      using Suc.prems(1) by (auto simp: t Cons Let_def word_uint_eq_iff split: if_splits)
    moreover have "a \<noteq> 0"
      using calculation b lowercase_eq_0 [of a] by auto
    moreover have "n = 0 \<or> mg_ncasecmp (k' @ 58 # x) t' n = 0"
      using Suc.prems(1) calculation by (auto simp: t Cons Let_def split: if_splits)
    ultimately show ?thesis
      using Suc.IH [of k' t'] Suc.prems(2-) by (auto simp: t Cons)
  qed
qed simp

lemma content_length_name:
  assumes "\<not> is_content_length k"
  shows "mg_ncasecmp (k @ 58 # x) (bs ''Content-Length'') 14 \<noteq> 0"
proof -
  have "map lowercase (take 14 (bs ''Content-Length'')) = bs ''content-length''"
    "58 \<notin> lowercase ` set (bs ''Content-Length'')" "0 \<notin> set (bs ''Content-Length'')"
    by code_simp+
  then show ?thesis
    using assms ncasecmp_name [of k x "bs ''Content-Length''" 14] by (auto simp: is_content_length_def)
qed

lemma content_length_match:
  "mg_ncasecmp (bs ''Content-Length'' @ x) (bs ''Content-Length'') 14 = 0"
proof -
  have "0 \<notin> set (bs ''Content-Length'')"
    by code_simp
  then show ?thesis
    using mg_ncasecmp_eq_0 [of 14 "bs ''Content-Length'' @ x" "bs ''Content-Length''"] by simp
qed

text \<open>What the loop over the headers sees: the separator after the last header takes the empty line with it.\<close>

definition headers_text :: "(byte list \<times> byte list) list \<Rightarrow> byte list" where
  "headers_text hs = (if hs = [] then [] else concat (map header_line hs) @ [CR, LF])"

lemma skip_name:
  assumes "header_ok h"
  shows "mg_skip (fst h @ [58, 32] @ snd h @ t) [58, 32] = (fst h, snd h @ t)"
  using header_ok_parts [OF assms] line_bytes [OF plain_set [of "fst h"]] line_bytes [OF plain_hd [of "snd h"]]
  by (intro skip_word) (auto simp: is_delim_def hd_append)

lemma skip_line:
  assumes "plain v" "list_all header_ok hs"
  shows "mg_skip (v @ [CR, LF] @ concat (map header_line hs) @ [CR, LF]) [CR, LF] = (v, headers_text hs)"
proof -
  have v: "\<not> is_delim [CR, LF] c" if "c \<in> set v" for c
    using line_bytes [OF plain_set [OF assms(1) that]] by (simp add: is_delim_def)
  show ?thesis
  proof (cases hs)
    case Nil
    then show ?thesis
      using skip_word [of v "[CR, LF]" "[CR, LF, CR, LF]" "[]"] v by (auto simp: is_delim_def headers_text_def)
  next
    case (Cons h hs')
    then have h: "fst h \<noteq> []" "plain (fst h)"
      using assms(2) header_ok_parts [of h] by auto
    then show ?thesis
      using skip_word [of v "[CR, LF]" "[CR, LF]" "headers_text hs"] v line_bytes [OF plain_hd [OF h(2,1)]]
      by (auto simp: is_delim_def headers_text_def Cons header_line_def hd_append)
  qed
qed

lemma parse_headers_step:
  assumes h: "header_ok h" and hs: "list_all header_ok hs"
  shows "mg_http_parse_headers (Suc n) len (headers_text (h # hs)) req =
     (let s1 = snd h @ [CR, LF] @ concat (map header_line hs) @ [CR, LF];
          req1 = req\<lparr>hq_headers := hq_headers req @ [h]\<rparr>;
          req2 = (if mg_ncasecmp (headers_text (h # hs)) (bs ''Content-Length'') 14 = 0
            then req1\<lparr>hq_body_len := to64 s1, hq_message_len := of_nat len + to64 s1\<rparr> else req1)
      in mg_http_parse_headers n len (headers_text hs) req2)"
proof -
  let ?t = "[CR, LF] @ concat (map header_line hs) @ [CR, LF]"
  have "mg_skip (headers_text (h # hs)) [58, 32] = (fst h, snd h @ ?t)"
    using skip_name [OF h, of ?t] by (simp add: headers_text_def header_line_def)
  moreover have "mg_skip (snd h @ ?t) [CR, LF] = (snd h, headers_text hs)"
    using header_ok_parts [OF h] hs by (intro skip_line)
  ultimately show ?thesis
    using header_ok_parts [OF h] by (simp add: trim_spaces_id Let_def)
qed

lemma parse_headers_run:
  assumes "list_all header_ok hs" "list_all (\<lambda>h. \<not> is_content_length (fst h)) hs" "length hs \<le> n"
  shows "mg_http_parse_headers n len (headers_text hs) req = req\<lparr>hq_headers := hq_headers req @ hs\<rparr>"
  using assms
proof (induction hs arbitrary: n req)
  case Nil
  then show ?case
    by (cases n) (simp_all add: headers_text_def mg_skip_def)
next
  case (Cons h hs)
  then obtain n' where n: "n = Suc n'" "length hs \<le> n'"
    by (cases n) auto
  have "mg_ncasecmp (headers_text (h # hs)) (bs ''Content-Length'') 14 \<noteq> 0"
    using content_length_name [of "fst h"] Cons.prems(2) by (simp add: headers_text_def header_line_def)
  then show ?case
    using Cons.prems Cons.IH [of n' "req\<lparr>hq_headers := hq_headers req @ [h]\<rparr>"] n parse_headers_step [of h hs n' len req]
    by (simp add: Let_def)
qed

lemma header_ok_content_length: "header_ok (bs ''Content-Length'', dec n)"
proof -
  have "word_text (bs ''Content-Length'') \<and> 58 \<notin> set (bs ''Content-Length'')"
    by code_simp
  moreover have "isdigit_byte b" if "b \<in> set (dec n)" for b
    using dec_digits [of n] that by (simp add: list_all_iff)
  ultimately show ?thesis
    using dec_not_Nil [of n] isdigit_not by (auto simp: header_ok_def plain_def list_all_iff)
qed

lemma body_len_not_all: "n < 2 ^ 63 \<Longrightarrow> (of_nat n :: u64) \<noteq> - 1"
proof
  assume n: "n < 2 ^ 63" "(of_nat n :: u64) = - 1"
  then have "(of_nat (Suc n) :: u64) = 0"
    by simp
  then show False
    using n(1) by (auto simp: word_of_nat_eq_0_iff simp del: of_nat_Suc dest: dvd_imp_le)
qed

lemma mg_http_get_request_len_head:
  assumes "request_ok r"
  shows "mg_http_get_request_len (request_head r @ rest) = int (length (request_head r))"
proof -
  let ?l = "rq_method r @ [32] @ target r @ [32] @ rq_proto r"
  have hs: "list_all header_ok (all_headers r)"
    using assms header_ok_content_length by (simp add: all_headers_def request_ok_def request_text_ok_def)
  have "plain ?l"
    using assms by (auto simp: request_ok_def request_text_ok_def word_text_def target_def split: option.splits)
  then show ?thesis
    using request_len_plain [of ?l 0 "[CR, LF] @ concat (map header_line (all_headers r)) @ [CR, LF] @ rest"]
      request_len_headers [OF hs, of "length ?l" rest]
    by (simp add: mg_http_get_request_len_def request_head_def)
qed

lemma memchr_target:
  assumes "request_ok r"
  shows "case memchr (target r) 63 of None \<Rightarrow> target r = rq_path r \<and> rq_query r = None
     | Some k \<Rightarrow> take k (target r) = rq_path r \<and> rq_query r = Some (drop (Suc k) (target r))"
proof -
  have "63 \<notin> set (rq_path r)"
    using assms by (simp add: request_ok_def request_text_ok_def)
  then show ?thesis
    using memchr_None [of "rq_path r" 63] by (cases "rq_query r") (auto simp: target_def memchr_append)
qed

lemma skip_space:
  assumes "plain v" "32 \<notin> set v" "t \<noteq> []" "32 \<le> hd t" "hd t \<noteq> 32"
  shows "mg_skip (v @ [32] @ t) [32] = (v, t)"
  using assms line_bytes [OF plain_set [OF assms(1)]] line_bytes [OF assms(4)]
  by (intro skip_word) (auto simp: is_delim_def)

lemma parse_headers_all:
  assumes "request_ok r"
  shows "mg_http_parse_headers 39 len (headers_text (all_headers r)) req =
     req\<lparr>hq_headers := hq_headers req @ all_headers r, hq_body_len := of_nat (length (rq_body r)),
       hq_message_len := of_nat len + of_nat (length (rq_body r))\<rparr>"
proof -
  let ?h = "(bs ''Content-Length'', dec (length (rq_body r)))"
  have r: "list_all header_ok (rq_headers r)" "list_all (\<lambda>h. \<not> is_content_length (fst h)) (rq_headers r)" "length (rq_headers r) \<le> 38"
    "length (rq_body r) < 2 ^ 63"
    using assms by (auto simp: request_ok_def request_text_ok_def)
  have "mg_ncasecmp (headers_text (?h # rq_headers r)) (bs ''Content-Length'') 14 = 0"
    using content_length_match by (simp add: headers_text_def header_line_def)
  moreover have "to64 (dec (length (rq_body r)) @ [CR, LF] @ t) = of_nat (length (rq_body r))" for t
    using strtoll_dec [OF r(4), of "[CR, LF] @ t"] by (simp add: to64_def isdigit_byte_def)
  ultimately show ?thesis
    using parse_headers_step [of ?h "rq_headers r" 38 len req] header_ok_content_length r(1) parse_headers_run [OF r(1,2,3), of len]
    by (simp add: all_headers_def Let_def del: mg_http_parse_headers.simps)
qed

definition parsed_request :: "request \<Rightarrow> http_msg" where
  "parsed_request r =
     \<lparr>hq_message_len = of_nat (length (request_head r)) + of_nat (length (rq_body r)), hq_method = rq_method r, hq_uri = rq_path r,
      hq_proto = rq_proto r, hq_resp_code = 0, hq_resp_status_msg = [], hq_query_string = rq_query r,
      hq_headers = all_headers r, hq_body_len = of_nat (length (rq_body r))\<rparr>"

lemma parse_request_head:
  assumes "request_ok r"
  shows "mg_parse_http (request_head r @ rest) True = (int (length (request_head r)), parsed_request r)"
proof -
  note r = assms [unfolded request_ok_def request_text_ok_def word_text_def]
  define t2 where "t2 = rq_proto r @ [CR, LF] @ concat (map header_line (all_headers r)) @ [CR, LF]"
  define t1 where "t1 = target r @ [32] @ t2"
  have head: "request_head r = rq_method r @ [32] @ t1"
    by (simp add: request_head_def t1_def t2_def)
  have tgt: "plain (target r)" "32 \<notin> set (target r)" "target r \<noteq> []"
    using r by (auto simp: target_def split: option.splits)
  have sp: "32 \<le> hd (rq_method r)" "hd (rq_method r) \<noteq> 32" "32 \<le> hd (target r)" "hd (target r) \<noteq> 32"
    using r tgt plain_hd [of "rq_method r"] plain_hd [of "target r"] by (metis list.set_sel(1))+
  have "\<not> isspace (hd (rq_method r))"
    using sp(1,2) unfolding isspace_def by unat_arith
  then have "dropWhile isspace (request_head r) = request_head r"
    using r by (cases "rq_method r") (auto simp: head)
  moreover have "mg_skip (request_head r) [32] = (rq_method r, t1)"
    unfolding head using r tgt sp(3,4) by (intro skip_space) (auto simp: hd_append t1_def)
  moreover have "mg_skip t1 [32] = (target r, t2)"
    unfolding t1_def using r tgt plain_hd [of "rq_proto r"] by (intro skip_space) (auto simp: hd_append t2_def)
  moreover have "mg_skip t2 [CR, LF] = (rq_proto r, headers_text (all_headers r))"
    unfolding t2_def using r header_ok_content_length by (intro skip_line) (auto simp: all_headers_def)
  moreover have "length t1 < length (request_head r)" "length t2 < length t1"
    using tgt by (simp_all add: head t1_def)
  moreover have "(of_nat (length (rq_body r)) :: u64) \<noteq> - 1"
    using r body_len_not_all by simp
  ultimately show ?thesis
    using memchr_target [OF assms] mg_http_get_request_len_head [OF assms, of rest] parse_headers_all [OF assms]
    by (auto simp: mg_parse_http_def Let_def MG_MAX_HTTP_HEADERS_def http_msg0_def parsed_request_def split: option.splits)
qed

text \<open>
  C21. A request with a method, a target, a protocol, a \<open>Content-Length\<close> header and up to 38 further headers,
  printed in the usual form, is parsed back by \<open>mg_parse_http\<close>: the result is the length of the head, the path and the query
  are split at the question mark, every header is kept in order, and the length of the body is the
  one announced, whatever follows the head.
\<close>

theorem http_request_roundtrip:
  assumes "request_ok r"
  shows "mg_parse_http (request_head r @ rest) True =
     (int (length (request_head r)),
      \<lparr>hq_message_len = of_nat (length (request_head r)) + of_nat (length (rq_body r)), hq_method = rq_method r, hq_uri = rq_path r,
       hq_proto = rq_proto r, hq_resp_code = 0, hq_resp_status_msg = [], hq_query_string = rq_query r,
       hq_headers = all_headers r, hq_body_len = of_nat (length (rq_body r))\<rparr>)"
  using parse_request_head [OF assms] by (simp add: parsed_request_def)

theorem http_request_roundtrip_witness:
  "mg_parse_http (bs ''POST /a?b HTTP/1.1'' @ [CR, LF] @ bs ''Content-Length: 12'' @ [CR, LF] @ bs ''Host: x'' @ [CR, LF, CR, LF] @ [1, 2]) True =
     (51, \<lparr>hq_message_len = 63, hq_method = bs ''POST'', hq_uri = bs ''/a'', hq_proto = bs ''HTTP/1.1'', hq_resp_code = 0,
       hq_resp_status_msg = [], hq_query_string = Some (bs ''b''),
       hq_headers = [(bs ''Content-Length'', bs ''12''), (bs ''Host'', bs ''x'')], hq_body_len = 12\<rparr>)"
proof -
  let ?r = "\<lparr>rq_method = bs ''POST'', rq_path = bs ''/a'', rq_query = Some (bs ''b''), rq_proto = bs ''HTTP/1.1'',
    rq_headers = [(bs ''Host'', bs ''x'')], rq_body = replicate 12 7\<rparr>"
  have d: "dec 12 = bs ''12''"
    by code_simp
  have h: "request_head ?r @ [1, 2] = bs ''POST /a?b HTTP/1.1'' @ [CR, LF] @ bs ''Content-Length: 12'' @ [CR, LF] @ bs ''Host: x'' @ [CR, LF, CR, LF] @ [1, 2]"
    "request_text_ok ?r" "length (request_head ?r) = 51"
    by code_simp+
  then have ok: "request_ok ?r"
    by (simp add: request_ok_def)
  show ?thesis
    using http_request_roundtrip [OF ok, of "[1, 2]"] unfolding h(1) by (simp add: h(3) d all_headers_def)
qed

end
