(* ===== verification/Http_Body.thy ===== *)
theory Http_Body
  imports Http
begin

text \<open>
  Chunked bodies in \<open>mongoose/src/http.c\<close>: \<open>mg_send_http_chunk\<close> writes chunks, \<open>mg_handle_chunked\<close>
  collapses the chunks that have arrived in the receive buffer. Sizes are 64-bit words, as \<open>size_t\<close>;
  an access outside the buffer is the value None.
\<close>

section \<open>Chunks\<close>

definition isxdigit :: "byte \<Rightarrow> bool" where
  "isxdigit b \<longleftrightarrow> 48 \<le> b \<and> b \<le> 57 \<or> 65 \<le> b \<and> b \<le> 70 \<or> 97 \<le> b \<and> b \<le> 102"

definition hex_value :: "byte \<Rightarrow> u64" where
  "hex_value b = of_int (if 48 \<le> b \<and> b \<le> 57 then uint b - 48 else uint (lowercase b) - 97 + 10)"

fun scan_chunk_len :: "byte list \<Rightarrow> u64 \<Rightarrow> nat \<Rightarrow> u64 \<times> nat" where
  "scan_chunk_len [] n i = (n, i)"
| "scan_chunk_len (b # s) n i = (if isxdigit b then scan_chunk_len s (n * 16 + hex_value b) (Suc i) else (n, i))"

text \<open>The bytes taken (0 for none), where the data starts and how long it is.\<close>

definition mg_http_parse_chunk :: "byte list \<Rightarrow> (u64 \<times> nat \<times> u64) option" where
  "mg_http_parse_chunk s =
     (let len = of_nat (length s); (n, i0) = scan_chunk_len s 0 0; i = of_nat i0 :: u64 in
      if i = 0 \<or> i + 2 > len then Some (0, 0, 0)
      else if take 2 (drop i0 s) \<noteq> [CR, LF] then Some (0, 0, 0)
      else let i2 = i + 2 + n in
           if i2 = 0 \<or> i2 + 2 > len then Some (0, i0 + 2, n)
           else if length s \<le> unat i2 + 1 then None
           else if take 2 (drop (unat i2) s) \<noteq> [CR, LF] then Some (0, i0 + 2, n)
           else Some (i2 + 2, i0 + 2, n))"

text \<open>
  The connection as \<open>mg_handle_chunked\<close> sees it: the receive buffer from the body on, the length
  of the body collapsed so far, and the two lengths of the message that it changes.
\<close>

record chunked =
  ck_buf :: "byte list"
  ck_body_len :: nat        \<comment> \<open>\<open>pd->chunk.body_len\<close>\<close>
  ck_hm_body_len :: u64     \<comment> \<open>\<open>hm->body.len\<close>\<close>
  ck_message_len :: u64     \<comment> \<open>\<open>hm->message.len\<close>\<close>

text \<open>The loop over the buffered chunks: the index, the length of the body, the buffer, \<open>hm->body.len\<close> and whether the empty chunk came.\<close>

lemma mg_http_parse_chunk_le:
  assumes "mg_http_parse_chunk s = Some (n, off, dl)"
  shows "unat n \<le> length s"
proof -
  have "n = 0 \<or> n \<le> of_nat (length s)"
    using assms by (auto simp: mg_http_parse_chunk_def Let_def not_less split: prod.splits if_splits)
  then have "unat n \<le> unat (of_nat (length s) :: u64)"
    by (auto simp: word_le_nat_alt)
  also have "\<dots> \<le> length s"
    by (simp add: unat_of_nat)
  finally show ?thesis .
qed

lemma mg_http_parse_chunk_Nil [simp]: "mg_http_parse_chunk [] = Some (0, 0, 0)"
  by (simp add: mg_http_parse_chunk_def)

function collapse_chunks :: "nat \<Rightarrow> nat \<Rightarrow> byte list \<Rightarrow> u64 \<Rightarrow> (nat \<times> nat \<times> byte list \<times> u64 \<times> bool) option" where
  "collapse_chunks i body_len buf hb =
     (case mg_http_parse_chunk (drop i buf) of
        None \<Rightarrow> None
      | Some (n, off, data_len) \<Rightarrow>
          if n = 0 then Some (i, body_len, buf, hb, False)
          else if length buf < i + off + unat data_len \<or> length buf < body_len + unat data_len then None
          else let buf1 = take body_len buf @ take (unat data_len) (drop (i + off) buf) @ drop (body_len + unat data_len) buf;
                   body_len1 = body_len + unat data_len
               in if data_len = 0 then Some (i + unat n, body_len1, buf1, of_nat body_len1, True)
                  else collapse_chunks (i + unat n) body_len1 buf1 (of_nat body_len1))"
  by auto
termination
proof (relation "measure (\<lambda>(i, body_len, buf, hb). length buf - i)", goal_cases)
  case (2 i body_len buf hb r n p off dl buf1 bl1)
  then have "unat n \<le> length (drop i buf)" "unat n \<noteq> 0"
    using mg_http_parse_chunk_le [of "drop i buf" n off dl] by (auto simp: unat_eq_0)
  with 2 show ?case
    by simp
qed simp

definition mg_handle_chunked :: "(chunked \<Rightarrow> bool) \<Rightarrow> chunked \<Rightarrow> (nat \<times> chunked) option" where
  "mg_handle_chunked delete_chunk st =
     (let blen = length (ck_buf st) in
      if blen < ck_body_len st then None
      else case collapse_chunks (ck_body_len st) (ck_body_len st) (ck_buf st) (ck_hm_body_len st) of
        None \<Rightarrow> None
      | Some (i, body_len, buf, hb, zero_chunk_received) \<Rightarrow>
          let st = st\<lparr>ck_buf := buf, ck_hm_body_len := hb\<rparr> in
          if body_len < i then
            let st = st\<lparr>ck_buf := take body_len buf @ drop i buf, ck_body_len := body_len\<rparr>;
                st = (if delete_chunk st then st\<lparr>ck_buf := drop body_len (ck_buf st), ck_hm_body_len := 0, ck_body_len := 0\<rparr> else st);
                st = (if zero_chunk_received then st\<lparr>ck_message_len := of_nat (ck_body_len st) + of_nat blen - of_nat i\<rparr> else st)
            in Some (body_len, st)
          else Some (body_len, st))"

text \<open>\<open>\%lX\<close> of a length.\<close>

definition hexdigit_upper :: "nat \<Rightarrow> byte" where
  "hexdigit_upper d = of_nat (if d < 10 then 48 + d else 55 + d)"

function hexX :: "nat \<Rightarrow> byte list" where
  "hexX n = (if n < 16 then [hexdigit_upper n] else hexX (n div 16) @ [hexdigit_upper (n mod 16)])"
  by auto
termination
  by (relation "measure id") auto

declare hexX.simps [simp del] collapse_chunks.simps [simp del]

definition mg_send_http_chunk :: "byte list \<Rightarrow> byte list \<Rightarrow> byte list" where
  "mg_send_http_chunk sb buf = sb @ hexX (length buf) @ [CR, LF] @ buf @ [CR, LF]"


definition http_chunk :: "byte list \<Rightarrow> byte list" where
  "http_chunk d = mg_send_http_chunk [] d"

lemma mg_send_http_chunk: "mg_send_http_chunk sb d = sb @ http_chunk d"
  by (simp add: http_chunk_def mg_send_http_chunk_def)

section \<open>One chunk is read\<close>

lemma hexdigit_upper_value: "d < 16 \<Longrightarrow> isxdigit (hexdigit_upper d) \<and> hex_value (hexdigit_upper d) = of_nat d"
proof -
  have "\<forall>d \<in> set [0..<16]. isxdigit (hexdigit_upper d) \<and> hex_value (hexdigit_upper d) = of_nat d"
    by code_simp
  then show "d < 16 \<Longrightarrow> ?thesis"
    by simp
qed

lemma hexX_digits: "list_all isxdigit (hexX n)"
  by (induction n rule: hexX.induct) (subst hexX.simps, simp add: hexdigit_upper_value)

lemma hexX_not_Nil: "hexX n \<noteq> []"
  by (subst hexX.simps) simp

lemma hexX_value: "foldl (\<lambda>n b. n * 16 + hex_value b) 0 (hexX n) = of_nat n"
proof (induction n rule: hexX.induct)
  case (1 n)
  have "(of_nat (n div 16) * 16 + of_nat (n mod 16) :: u64) = of_nat n"
    by (metis div_mult_mod_eq of_nat_add of_nat_mult of_nat_numeral)
  then show ?case
    using 1 by (subst hexX.simps) (auto simp: hexdigit_upper_value)
qed

lemma scan_chunk_len_append:
  "list_all isxdigit ds \<Longrightarrow> scan_chunk_len (ds @ t) n i = scan_chunk_len t (foldl (\<lambda>n b. n * 16 + hex_value b) n ds) (i + length ds)"
  by (induction ds arbitrary: n i) auto

lemma not_isxdigit_CR: "\<not> isxdigit CR"
  by (simp add: isxdigit_def)

lemma scan_hexX:
  "t = [] \<or> hd t = CR \<Longrightarrow> scan_chunk_len (hexX n @ t) 0 0 = (of_nat n, length (hexX n))"
  using scan_chunk_len_append [OF hexX_digits, of n t 0 0] by (cases t) (auto simp: hexX_value not_isxdigit_CR)

lemma less_of_nat_64:
  "a < 2 ^ 64 \<Longrightarrow> b < 2 ^ 64 \<Longrightarrow> (of_nat a :: u64) < of_nat b \<longleftrightarrow> a < b"
  by (simp add: word_less_nat_alt unat_of_nat take_bit_nat_eq_self)

lemma of_nat_0_64: "a < 2 ^ 64 \<Longrightarrow> (of_nat a :: u64) = 0 \<longleftrightarrow> a = 0"
  by (auto simp: word_of_nat_eq_0_iff dest: dvd_imp_le)

lemma unat_of_nat_64: "a < 2 ^ 64 \<Longrightarrow> unat (of_nat a :: u64) = a"
  by (simp add: unat_of_nat take_bit_nat_eq_self)

lemma length_http_chunk: "length (http_chunk d) = length (hexX (length d)) + length d + 4"
  by (simp add: http_chunk_def mg_send_http_chunk_def)

lemma parse_chunk_line:
  fixes n :: nat
  assumes s: "s = hexX n @ CR # LF # u" and l: "length s < 2 ^ 62" "n < 2 ^ 62"
  defines "h \<equiv> length (hexX n)"
  shows "mg_http_parse_chunk s =
     (if length u < n + 2 \<or> take 2 (drop n u) \<noteq> [CR, LF] then Some (0, h + 2, of_nat n)
      else Some (of_nat (h + n + 4), h + 2, of_nat n))"
proof -
  have len: "length s = h + 2 + length u" and h: "h \<noteq> 0" "h + 2 < 2 ^ 62" "h + 4 < 2 ^ 62 + 2"
    using s l hexX_not_Nil [of n] by (auto simp: h_def)
  have scan: "scan_chunk_len s 0 0 = (of_nat n, h)"
    using scan_hexX [of "CR # LF # u" n] by (simp add: s h_def)
  have i: "(of_nat h :: u64) \<noteq> 0" "\<not> (of_nat (length s) :: u64) < of_nat (h + 2)"
    using h l len by (subst of_nat_0_64 less_of_nat_64; simp)+
  have i2: "unat (of_nat (h + 2 + n) :: u64) = h + 2 + n" "(of_nat (h + 2 + n) :: u64) \<noteq> 0"
    "(of_nat (length s) :: u64) < of_nat (h + n + 4) \<longleftrightarrow> length u < n + 2"
    using h l len unat_of_nat_64 [of "h + 2 + n"] of_nat_0_64 [of "h + 2 + n"] less_of_nat_64 [of "length s" "h + n + 4"] by auto
  have d: "take 2 (drop h s) = [CR, LF]" "drop (h + 2 + n) s = drop n u"
    by (simp_all add: s h_def)
  have w: "(of_nat h :: u64) + 2 = of_nat (h + 2)" "(of_nat (h + 2) :: u64) + of_nat n = of_nat (h + 2 + n)"
    "(of_nat (h + 2 + n) :: u64) + 2 = of_nat (h + n + 4)"
    by simp_all
  show ?thesis
    unfolding mg_http_parse_chunk_def Let_def scan prod.case w d
    using i i2 len d(2) by (auto simp del: of_nat_add)
qed

lemma parse_http_chunk:
  assumes "length (http_chunk d @ t) < 2 ^ 62"
  shows "mg_http_parse_chunk (http_chunk d @ t) = Some (of_nat (length (http_chunk d)), length (hexX (length d)) + 2, of_nat (length d))"
  using assms parse_chunk_line [of "http_chunk d @ t" "length d" "d @ CR # LF # t"]
  by (simp add: length_http_chunk http_chunk_def mg_send_http_chunk_def)

lemma parse_chunk_short:
  assumes "list_all isxdigit ds" "t = [] \<or> t = [CR]" "length ds < 2 ^ 62"
  shows "mg_http_parse_chunk (ds @ t) = Some (0, 0, 0)"
proof -
  have "snd (scan_chunk_len (ds @ t) 0 0) = length ds"
    using assms(2) scan_chunk_len_append [OF assms(1), of t 0 0] not_isxdigit_CR by auto
  moreover have "(of_nat (length (ds @ t)) :: u64) < of_nat (length ds + 2)"
    using assms(2,3) less_of_nat_64 [of "length (ds @ t)" "length ds + 2"] by auto
  ultimately have "(of_nat (length (ds @ t)) :: u64) < of_nat (snd (scan_chunk_len (ds @ t) 0 0)) + 2"
    by (simp add: add.commute)
  then show ?thesis
    by (cases "scan_chunk_len (ds @ t) 0 0") (simp add: mg_http_parse_chunk_def Let_def)
qed

text \<open>A part of a chunk is never taken for a whole one.\<close>

lemma parse_partial_chunk:
  assumes "k < length (http_chunk d)" "length (http_chunk d) < 2 ^ 62"
  shows "\<exists>off dl. mg_http_parse_chunk (take k (http_chunk d)) = Some (0, off, dl)"
proof -
  let ?h = "length (hexX (length d))"
  have c: "http_chunk d = hexX (length d) @ CR # LF # d @ [CR, LF]"
    by (simp add: http_chunk_def mg_send_http_chunk_def)
  have l: "?h + length d + 4 < 2 ^ 62" "k < ?h + length d + 4"
    using assms by (simp_all add: length_http_chunk)
  show ?thesis
  proof (cases "?h + 2 \<le> k")
    case True
    then have "take k (http_chunk d) = hexX (length d) @ CR # LF # take (k - ?h - 2) (d @ [CR, LF])"
      by (simp add: c take_Cons')
    then show ?thesis
      using parse_chunk_line [of "take k (http_chunk d)" "length d" "take (k - ?h - 2) (d @ [CR, LF])"] l True by auto
  next
    case False
    then have "k \<le> ?h \<or> k = Suc ?h"
      by auto
    then have "take k (http_chunk d) = take k (hexX (length d)) @ take (k - ?h) [CR]"
      by (auto simp: c)
    moreover have "list_all isxdigit (take k (hexX (length d)))"
      using hexX_digits [of "length d"] by (auto simp: list_all_iff dest: in_set_takeD)
    ultimately show ?thesis
      using parse_chunk_short [of "take k (hexX (length d))" "take (k - ?h) [CR]"] l by (auto simp: take_Cons')
  qed
qed


section \<open>The chunks of a body are collapsed\<close>

text \<open>A chunk is moved to the end of the body; what lies between the body and the next chunk does not matter.\<close>

lemma collapse_chunk:
  assumes l: "length (body @ gap @ http_chunk d @ t) < 2 ^ 62"
  defines "gap' \<equiv> drop (length d) (gap @ http_chunk d)"
  shows "collapse_chunks (length (body @ gap)) (length body) (body @ gap @ http_chunk d @ t) hb =
     (if d = [] then Some (length ((body @ d) @ gap'), length (body @ d), (body @ d) @ gap' @ t, of_nat (length (body @ d)), True)
      else collapse_chunks (length ((body @ d) @ gap')) (length (body @ d)) ((body @ d) @ gap' @ t) (of_nat (length (body @ d))))"
proof -
  define buf i h where "buf = body @ gap @ http_chunk d @ t" and "i = length (body @ gap)" and "h = length (hexX (length d))"
  have c: "length (http_chunk d @ t) < 2 ^ 62" "length (http_chunk d) < 2 ^ 64" "length d < 2 ^ 64"
    using l by (simp_all add: length_http_chunk)
  have p: "mg_http_parse_chunk (drop i buf) = Some (of_nat (length (http_chunk d)), h + 2, of_nat (length d))"
    using parse_http_chunk [OF c(1)] by (simp add: buf_def i_def h_def)
  have u: "unat (of_nat (length d) :: u64) = length d" "unat (of_nat (length (http_chunk d)) :: u64) = length (http_chunk d)"
    "(of_nat (length (http_chunk d)) :: u64) \<noteq> 0" "(of_nat (length d) :: u64) = 0 \<longleftrightarrow> d = []"
    using unat_of_nat_64 [OF c(2)] unat_of_nat_64 [OF c(3)] of_nat_0_64 [OF c(2)] of_nat_0_64 [OF c(3)] length_http_chunk [of d] by auto
  have dat: "take (length d) (drop (i + (h + 2)) buf) = d" "take (length body) buf = body"
    by (simp_all add: buf_def i_def h_def http_chunk_def mg_send_http_chunk_def)
  have gap: "drop (length body + length d) buf = gap' @ t"
    by (simp add: buf_def gap'_def length_http_chunk)
  have n: "\<not> length buf < i + (h + 2) + length d" "\<not> length buf < length body + length d"
    "length ((body @ d) @ gap') = i + length (http_chunk d)"
    by (simp_all add: buf_def i_def h_def gap'_def length_http_chunk)
  have "collapse_chunks i (length body) buf hb =
     (if d = [] then Some (i + length (http_chunk d), length body + length d, body @ d @ gap' @ t, of_nat (length body + length d), True)
      else collapse_chunks (i + length (http_chunk d)) (length body + length d) (body @ d @ gap' @ t) (of_nat (length body + length d)))"
    unfolding collapse_chunks.simps [of i] p option.case prod.case u dat gap Let_def using n u by auto
  then show ?thesis
    unfolding n(3) by (simp add: i_def buf_def)
qed

lemma collapse_run:
  assumes "list_all (\<lambda>d. d \<noteq> []) cs" "length (body @ gap @ concat (map http_chunk cs) @ t) < 2 ^ 62"
  shows "\<exists>gap'. length ((body @ concat cs) @ gap') = length (body @ gap @ concat (map http_chunk cs))
     \<and> collapse_chunks (length (body @ gap)) (length body) (body @ gap @ concat (map http_chunk cs) @ t) hb =
       collapse_chunks (length ((body @ concat cs) @ gap')) (length (body @ concat cs)) ((body @ concat cs) @ gap' @ t)
         (if cs = [] then hb else of_nat (length (body @ concat cs)))"
  using assms
proof (induction cs arbitrary: body gap hb)
  case (Cons d cs)
  define g where "g = drop (length d) (gap @ http_chunk d)"
  have g: "length (body @ d @ g) = length (body @ gap @ http_chunk d)"
    by (simp add: g_def length_http_chunk)
  have "length ((body @ d) @ g @ concat (map http_chunk cs) @ t) < 2 ^ 62"
    using Cons.prems(2) g by simp
  then obtain gap' where "length (((body @ d) @ concat cs) @ gap') = length ((body @ d) @ g @ concat (map http_chunk cs))"
     "collapse_chunks (length ((body @ d) @ g)) (length (body @ d)) ((body @ d) @ g @ concat (map http_chunk cs) @ t) (of_nat (length (body @ d))) =
       collapse_chunks (length (((body @ d) @ concat cs) @ gap')) (length ((body @ d) @ concat cs)) (((body @ d) @ concat cs) @ gap' @ t)
         (if cs = [] then of_nat (length (body @ d)) else of_nat (length ((body @ d) @ concat cs)))"
    using Cons.IH [of "body @ d" g "of_nat (length (body @ d))"] Cons.prems(1) by auto
  moreover have "collapse_chunks (length (body @ gap)) (length body) (body @ gap @ http_chunk d @ concat (map http_chunk cs) @ t) hb =
     collapse_chunks (length ((body @ d) @ g)) (length (body @ d)) ((body @ d) @ g @ concat (map http_chunk cs) @ t) (of_nat (length (body @ d)))"
    using collapse_chunk [of body gap d "concat (map http_chunk cs) @ t" hb] Cons.prems by (simp add: g_def)
  ultimately show ?case
    using g by (intro exI [of _ gap']) auto
qed auto


text \<open>The body announces more than its chunks hold, so that the loop moves on when a chunk was taken.\<close>

lemma chunks_longer: "length (concat cs) + 4 * length cs \<le> length (concat (map http_chunk cs))"
  by (induction cs) (auto simp: length_http_chunk)

lemma handle_partial:
  assumes "list_all (\<lambda>d. d \<noteq> []) cs" "length (body @ concat (map http_chunk cs) @ t) < 2 ^ 62"
    and "mg_http_parse_chunk t = Some (0, off, dl)"
  shows "mg_handle_chunked (\<lambda>_. False) \<lparr>ck_buf = body @ concat (map http_chunk cs) @ t, ck_body_len = length body, ck_hm_body_len = hb, ck_message_len = m\<rparr>
     = Some (length (body @ concat cs), \<lparr>ck_buf = body @ concat cs @ t, ck_body_len = length (body @ concat cs),
         ck_hm_body_len = (if cs = [] then hb else of_nat (length (body @ concat cs))), ck_message_len = m\<rparr>)"
proof -
  obtain gap where gap: "length ((body @ concat cs) @ gap) = length (body @ concat (map http_chunk cs))"
    "collapse_chunks (length body) (length body) (body @ concat (map http_chunk cs) @ t) hb =
       collapse_chunks (length ((body @ concat cs) @ gap)) (length (body @ concat cs)) ((body @ concat cs) @ gap @ t)
         (if cs = [] then hb else of_nat (length (body @ concat cs)))"
    using collapse_run [of cs body "[]" t hb] assms(1,2) by auto
  have "collapse_chunks (length ((body @ concat cs) @ gap)) bl ((body @ concat cs) @ gap @ t) hb'
      = Some (length ((body @ concat cs) @ gap), bl, (body @ concat cs) @ gap @ t, hb', False)" for bl hb'
    using assms(3) by (subst collapse_chunks.simps) simp
  moreover have "cs = [] \<and> gap = [] \<or> length (concat cs) < length (concat (map http_chunk cs))"
    using gap(1) chunks_longer [of cs] by (cases cs) auto
  ultimately show ?thesis
    using gap by (auto simp: mg_handle_chunked_def Let_def)
qed

lemma handle_complete:
  assumes "list_all (\<lambda>d. d \<noteq> []) cs" "length (body @ concat (map http_chunk cs) @ http_chunk [] @ t) < 2 ^ 62"
  shows "mg_handle_chunked (\<lambda>_. False) \<lparr>ck_buf = body @ concat (map http_chunk cs) @ http_chunk [] @ t, ck_body_len = length body, ck_hm_body_len = hb, ck_message_len = m\<rparr>
     = Some (length (body @ concat cs), \<lparr>ck_buf = body @ concat cs @ t, ck_body_len = length (body @ concat cs),
         ck_hm_body_len = of_nat (length (body @ concat cs)), ck_message_len = of_nat (length (body @ concat cs @ t))\<rparr>)"
proof -
  let ?b = "body @ concat cs"
  obtain gap where gap: "length (?b @ gap) = length (body @ concat (map http_chunk cs))"
    "collapse_chunks (length body) (length body) (body @ concat (map http_chunk cs) @ http_chunk [] @ t) hb =
       collapse_chunks (length (?b @ gap)) (length ?b) (?b @ gap @ http_chunk [] @ t) (if cs = [] then hb else of_nat (length ?b))"
    using collapse_run [of cs body "[]" "http_chunk [] @ t" hb] assms by auto
  have "collapse_chunks (length (?b @ gap)) (length ?b) (?b @ gap @ http_chunk [] @ t) hb'
      = Some (length (?b @ gap @ http_chunk []), length ?b, ?b @ gap @ http_chunk [] @ t, of_nat (length ?b), True)" for hb'
    using collapse_chunk [of ?b gap "[]" t hb'] assms(2) gap(1) by simp
  moreover have "length (body @ concat (map http_chunk cs) @ http_chunk [] @ t) = length (?b @ gap @ http_chunk []) + length t"
    using gap(1) by simp
  moreover have "http_chunk [] \<noteq> []"
    using length_http_chunk [of "[]"] by auto
  ultimately show ?thesis
    using gap(2) by (simp add: mg_handle_chunked_def Let_def)
qed

section \<open>A body that arrives in pieces\<close>

text \<open>Every piece is appended to the receive buffer and the message is parsed anew, which sets both lengths to \<open>~0\<close>.\<close>

fun receive_chunked :: "chunked \<Rightarrow> byte list list \<Rightarrow> chunked option" where
  "receive_chunked st [] = Some st"
| "receive_chunked st (x # xs) =
     (case mg_handle_chunked (\<lambda>_. False) (st\<lparr>ck_buf := ck_buf st @ x, ck_hm_body_len := - 1, ck_message_len := - 1\<rparr>) of
        None \<Rightarrow> None | Some (_, st') \<Rightarrow> receive_chunked st' xs)"

lemma chunks_prefix:
  assumes "p @ q = concat (map http_chunk cs) @ http_chunk []" "q \<noteq> []"
  shows "\<exists>c1 c2 d k. cs = c1 @ c2 \<and> p = concat (map http_chunk c1) @ take k (http_chunk d)
     \<and> k < length (http_chunk d) \<and> length (http_chunk d) \<le> length (p @ q)
     \<and> take k (http_chunk d) @ q = concat (map http_chunk c2) @ http_chunk []"
  using assms(1)
proof (induction cs arbitrary: p)
  case Nil
  then have "length p < length (http_chunk [])"
    using assms(2) by (metis append_Nil concat.simps(1) length_append length_greater_0_conv less_add_same_cancel1 list.simps(8))
  moreover have "p = take (length p) (http_chunk [])"
    using Nil by (metis append_Nil append_eq_conv_conj concat.simps(1) list.simps(8))
  ultimately show ?case
    using Nil by (intro exI [of _ "[]"] exI [of _ "[]"] exI [of _ "[]"] exI [of _ "length p"]) (simp; metis)
next
  case (Cons d cs)
  show ?case
  proof (cases "length p < length (http_chunk d)")
    case True
    then have "p = take (length p) (http_chunk d)"
      using Cons.prems by (simp add: append_eq_append_conv_if)
    moreover have "length (p @ q) = length (http_chunk d @ concat (map http_chunk cs) @ http_chunk [])"
      using Cons.prems by simp
    ultimately show ?thesis
      using True Cons.prems by (intro exI [of _ "[]"] exI [of _ "d # cs"] exI [of _ d] exI [of _ "length p"]) simp
  next
    case False
    define p' where "p' = drop (length (http_chunk d)) p"
    have "take (length (http_chunk d)) p = http_chunk d"
      using False arg_cong [OF Cons.prems, of "take (length (http_chunk d))"] by simp
    then have p': "p = http_chunk d @ p'"
      by (metis append_take_drop_id p'_def)
    then have q: "p' @ q = concat (map http_chunk cs) @ http_chunk []"
      using Cons.prems by simp
    from p' show ?thesis
      using Cons.IH [OF q] by (fastforce intro: exI [of _ "d # _"])
  qed
qed


lemma receive_chunked_rest:
  assumes "list_all (\<lambda>d. d \<noteq> []) cs" "xs \<noteq> []" "list_all (\<lambda>x. x \<noteq> []) xs"
    and "tail @ concat xs = concat (map http_chunk cs) @ http_chunk []"
    and "length (body @ tail @ concat xs) < 2 ^ 62"
  shows "receive_chunked \<lparr>ck_buf = body @ tail, ck_body_len = length body, ck_hm_body_len = hb, ck_message_len = m\<rparr> xs =
     Some \<lparr>ck_buf = body @ concat cs, ck_body_len = length (body @ concat cs), ck_hm_body_len = of_nat (length (body @ concat cs)),
       ck_message_len = of_nat (length (body @ concat cs))\<rparr>"
  using assms
proof (induction xs arbitrary: body cs tail hb m)
  case (Cons x xs)
  show ?case
  proof (cases "xs = []")
    case True
    then have "tail @ x = concat (map http_chunk cs) @ http_chunk [] @ []"
      using Cons.prems(4) by simp
    then show ?thesis
      using handle_complete [of cs body "[]" "- 1" "- 1"] Cons.prems(1,5) True by simp
  next
    case False
    then have ne: "concat xs \<noteq> []"
      using Cons.prems(3) by (cases xs) auto
    obtain c1 c2 d k where c: "cs = c1 @ c2" "tail @ x = concat (map http_chunk c1) @ take k (http_chunk d)"
      "k < length (http_chunk d)" "length (http_chunk d) \<le> length ((tail @ x) @ concat xs)"
      "take k (http_chunk d) @ concat xs = concat (map http_chunk c2) @ http_chunk []"
      using chunks_prefix [of "tail @ x" "concat xs" cs] ne Cons.prems(4) by auto
    have len: "length tail + length x = length (concat (map http_chunk c1)) + length (take k (http_chunk d))"
      using arg_cong [OF c(2), of length] by simp
    have l: "length (body @ concat (map http_chunk c1) @ take k (http_chunk d)) < 2 ^ 62" "length (http_chunk d) < 2 ^ 62"
      "length ((body @ concat c1) @ take k (http_chunk d) @ concat xs) < 2 ^ 62"
      using Cons.prems(5) c(4) len chunks_longer [of c1] by (simp_all del: length_take)
    obtain off dl where "mg_http_parse_chunk (take k (http_chunk d)) = Some (0, off, dl)"
      using parse_partial_chunk [OF c(3) l(2)] by blast
    then have h: "mg_handle_chunked (\<lambda>_. False) \<lparr>ck_buf = body @ tail @ x, ck_body_len = length body, ck_hm_body_len = - 1, ck_message_len = - 1\<rparr>
      = Some (length (body @ concat c1), \<lparr>ck_buf = (body @ concat c1) @ take k (http_chunk d), ck_body_len = length (body @ concat c1),
         ck_hm_body_len = (if c1 = [] then - 1 else of_nat (length (body @ concat c1))), ck_message_len = - 1\<rparr>)"
      using handle_partial [of c1 body "take k (http_chunk d)" off dl "- 1" "- 1"] l(1) Cons.prems(1) c(1,2) by simp
    have "list_all (\<lambda>d. d \<noteq> []) c2" "list_all (\<lambda>x. x \<noteq> []) xs"
      using Cons.prems(1,3) c(1) by auto
    then show ?thesis
      using h Cons.IH [OF _ False _ c(5) l(3)] by (simp add: c(1))
  qed
qed simp

text \<open>
  C17. A body that is sent with \<open>mg_send_http_chunk\<close>, in any chunks and closed by the empty chunk, and that arrives cut
  into any pieces, is collapsed by the calls of \<open>mg_handle_chunked\<close> to exactly its bytes: no access leaves
  the buffer, no part of a chunk is taken for data, and the message counts as complete with the last piece.
\<close>

theorem chunked_body_received:
  assumes "list_all (\<lambda>d. d \<noteq> []) cs" "list_all (\<lambda>x. x \<noteq> []) pieces"
    and "concat pieces = foldl mg_send_http_chunk [] (cs @ [[]])" "length (concat pieces) < 2 ^ 62"
  shows "receive_chunked \<lparr>ck_buf = [], ck_body_len = 0, ck_hm_body_len = hb, ck_message_len = m\<rparr> pieces =
     Some \<lparr>ck_buf = concat cs, ck_body_len = length (concat cs), ck_hm_body_len = of_nat (length (concat cs)),
       ck_message_len = of_nat (length (concat cs))\<rparr>"
proof -
  have "foldl mg_send_http_chunk sb ds = sb @ concat (map http_chunk ds)" for sb ds
    by (induction ds arbitrary: sb) (simp_all add: mg_send_http_chunk)
  then have "concat pieces = concat (map http_chunk cs) @ http_chunk []"
    using assms(3) by (simp add: mg_send_http_chunk)
  moreover from this have "pieces \<noteq> []"
    using length_http_chunk [of "[]"] by auto
  ultimately show ?thesis
    using receive_chunked_rest [of cs pieces "[]" "[]" hb m] assms(1,2,4) by simp
qed

theorem chunked_body_received_witness:
  "receive_chunked \<lparr>ck_buf = [], ck_body_len = 0, ck_hm_body_len = 0, ck_message_len = 0\<rparr>
       [[50, CR], [LF, 7, 8, CR, LF, 49, CR, LF], [9, CR, LF, 48, CR, LF, CR], [LF]] =
     Some \<lparr>ck_buf = [7, 8, 9], ck_body_len = 3, ck_hm_body_len = 3, ck_message_len = 3\<rparr>"
proof -
  define ps :: "byte list list" where "ps = [[50, CR], [LF, 7, 8, CR, LF, 49, CR, LF], [9, CR, LF, 48, CR, LF, CR], [LF]]"
  have "concat ps = foldl mg_send_http_chunk [] ([[7, 8], [9]] @ [[]])" "list_all (\<lambda>x. x \<noteq> []) ps" "length (concat ps) = 18"
    unfolding ps_def by code_simp+
  then show ?thesis
    using chunked_body_received [of "[[7, 8], [9]]" ps 0 0] unfolding ps_def [symmetric] by (simp add: numeral_3_eq_3)
qed

text \<open>A length with the largest digits wraps around: the line of the length itself is taken for the end of the data, and the data lies outside of the buffer.\<close>

lemma chunk_length_wraps:
  "mg_http_parse_chunk (bs ''FFFFFFFFFFFFFFFE'' @ [CR, LF]) = Some (18, 18, - 2)"
  "mg_handle_chunked f \<lparr>ck_buf = bs ''FFFFFFFFFFFFFFFE'' @ [CR, LF], ck_body_len = 0, ck_hm_body_len = - 1, ck_message_len = - 1\<rparr> = None"
proof -
  show p: "mg_http_parse_chunk (bs ''FFFFFFFFFFFFFFFE'' @ [CR, LF]) = Some (18, 18, - 2)"
    by code_simp
  have "unat (- 2 :: u64) = 2 ^ 64 - 2"
    by simp
  then show "mg_handle_chunked f \<lparr>ck_buf = bs ''FFFFFFFFFFFFFFFE'' @ [CR, LF], ck_body_len = 0, ck_hm_body_len = - 1, ck_message_len = - 1\<rparr> = None"
    using p by (subst mg_handle_chunked_def) (simp add: collapse_chunks.simps)
qed

end
