(* ===== verification/Http_Vars.thy ===== *)
theory Http_Vars
  imports Http_Body
begin

text \<open>
  URL-encoded text in \<open>mongoose/src/http.c\<close>: \<open>mg_url_encode\<close>, \<open>mg_url_decode\<close>, the lookup of form variables
  with \<open>mg_get_http_var\<close> and of the parameters of a header with \<open>mg_http_parse_header\<close>. A destination buffer is
  given by its size; the result is the number the function returns with the bytes it stores.
\<close>

section \<open>URL encoding\<close>

definition isalnum :: "byte \<Rightarrow> bool" where
  "isalnum b \<longleftrightarrow> 48 \<le> b \<and> b \<le> 57 \<or> 65 \<le> b \<and> b \<le> 90 \<or> 97 \<le> b \<and> b \<le> 122"

text \<open>\<open>strchr\<close> also finds the NUL at the end of the text that it searches.\<close>

definition url_plain :: "byte \<Rightarrow> bool" where
  "url_plain b \<longleftrightarrow> isalnum b \<or> b = 0 \<or> b \<in> set (bs ''._-$,;~()/'')"

definition hex_lower :: "byte \<Rightarrow> byte" where
  "hex_lower d = bs ''0123456789abcdef'' ! unat d"

text \<open>The loop, with \<open>j\<close> bytes already stored.\<close>

fun url_encode_loop :: "byte list \<Rightarrow> nat \<Rightarrow> nat \<Rightarrow> byte list" where
  "url_encode_loop [] j dst_len = []"
| "url_encode_loop (b # s) j dst_len =
     (if dst_len > 0 \<and> j + 2 < dst_len - 1 then
        if url_plain b then b # url_encode_loop s (j + 1) dst_len
        else [37, hex_lower (drop_bit 4 b), hex_lower (b AND 15)] @ url_encode_loop s (j + 3) dst_len
      else [])"

definition mg_url_encode :: "byte list \<Rightarrow> nat \<Rightarrow> nat \<times> byte list" where
  "mg_url_encode src dst_len = (let out = url_encode_loop src 0 dst_len in (length out, out @ [0]))"

definition HEXTOI :: "byte \<Rightarrow> byte" where
  "HEXTOI x = (if 48 \<le> x \<and> x \<le> 57 then x - 48 else x - 87)"

text \<open>The loop, with room for \<open>room\<close> further bytes: whether an escape was wrong, the source that is left, and the bytes stored.\<close>

fun url_decode_loop :: "byte list \<Rightarrow> nat \<Rightarrow> bool \<Rightarrow> bool \<times> byte list \<times> byte list" where
  "url_decode_loop [] room form = (False, [], [])"
| "url_decode_loop (c # s) 0 form = (False, c # s, [])"
| "url_decode_loop (c # s) (Suc room) form =
     (if c = 37 then
        case s of
          x # y # s' \<Rightarrow>
            if isxdigit x \<and> isxdigit y then
              let (bad, rest, out) = url_decode_loop s' room form
              in (bad, rest, (push_bit 4 (HEXTOI (lowercase x)) OR HEXTOI (lowercase y)) # out)
            else (True, c # s, [])
        | _ \<Rightarrow> (True, c # s, [])
      else let (bad, rest, out) = url_decode_loop s room form
           in (bad, rest, (if form \<and> c = 43 then 32 else c) # out))"

definition mg_url_decode :: "byte list \<Rightarrow> nat \<Rightarrow> bool \<Rightarrow> int \<times> byte list" where
  "mg_url_decode src dst_len form =
     (let (bad, rest, out) = url_decode_loop src (dst_len - 1) form in
      if bad then (-1, out)
      else (if rest = [] then int (length out) else -1, out @ [0]))"

section \<open>Form variables\<close>

text \<open>The search for the name: \<open>start\<close> tells whether the text is at the start of a field; the result is what follows the equals sign.\<close>

fun find_http_var :: "byte list \<Rightarrow> bool \<Rightarrow> byte list \<Rightarrow> byte list option" where
  "find_http_var name start [] = None"
| "find_http_var name start (c # s) =
     (if length (c # s) \<le> length name then None
      else if start \<and> (c # s) ! length name = 61 \<and> mg_ncasecmp name (c # s) (length name) = 0
        then Some (drop (length name + 1) (c # s))
      else find_http_var name (c = 38) s)"

definition mg_get_http_var :: "byte list \<Rightarrow> byte list \<Rightarrow> nat \<Rightarrow> int \<times> byte list" where
  "mg_get_http_var buf name dst_len =
     (if dst_len = 0 then (-2, [])
      else if buf = [] then (-1, [0])
      else case find_http_var name True buf of
        None \<Rightarrow> (-1, [0])
      | Some p \<Rightarrow>
          let (len, dst) = mg_url_decode (case memchr p 38 of None \<Rightarrow> p | Some k \<Rightarrow> take k p) dst_len True
          in (if len = -1 then -2 else len, dst))"

section \<open>Encoding and decoding\<close>

lemma low_nibble: "unat (b AND 15) < 16" for b :: byte
proof -
  have "b AND 15 = take_bit 4 b"
    by (simp add: take_bit_eq_mask mask_numeral)
  then have "unat (b AND 15) = take_bit 4 (unat b)"
    by (simp only: unsigned_take_bit_eq)
  then show ?thesis
    by (simp add: take_bit_eq_mod)
qed

lemma high_nibble: "unat (drop_bit 4 b) < 16" for b :: byte
proof -
  have b: "unat b < 2 ^ 8"
    using unsigned_less [of b] by simp
  then have "unat (drop_bit 4 b) = unat b div 16"
    by (simp only: unsigned_drop_bit_eq) (simp add: drop_bit_eq_div take_bit_nat_eq_self)
  with b show ?thesis
    by simp
qed

lemma nibbles: "push_bit 4 (drop_bit 4 b) OR (b AND 15) = b" for b :: byte
proof -
  have "b AND 15 = take_bit 4 b"
    by (simp add: take_bit_eq_mask mask_numeral)
  then show ?thesis
    by (intro bit_word_eqI) (auto simp: bit_simps)
qed

lemma url_escape:
  "HEXTOI (lowercase (hex_lower (drop_bit 4 b))) = drop_bit 4 b" "HEXTOI (lowercase (hex_lower (b AND 15))) = b AND 15"
  "isxdigit (hex_lower (drop_bit 4 b))" "isxdigit (hex_lower (b AND 15))"
proof -
  have all: "\<forall>d \<in> set [0..<16]. HEXTOI (lowercase (hex_lower (of_nat d))) = of_nat d \<and> isxdigit (hex_lower (of_nat d))"
    by code_simp
  show "HEXTOI (lowercase (hex_lower (drop_bit 4 b))) = drop_bit 4 b" "HEXTOI (lowercase (hex_lower (b AND 15))) = b AND 15"
  "isxdigit (hex_lower (drop_bit 4 b))" "isxdigit (hex_lower (b AND 15))"
    using bspec [OF all, of "unat (drop_bit 4 b)"] bspec [OF all, of "unat (b AND 15)"] low_nibble [of b] high_nibble [of b] by simp_all
qed

definition url_byte :: "byte \<Rightarrow> byte list" where
  "url_byte b = (if url_plain b then [b] else [37, hex_lower (drop_bit 4 b), hex_lower (b AND 15)])"

lemma url_encode_loop_room:
  "j + 3 * length s < dst_len \<Longrightarrow> url_encode_loop s j dst_len = concat (map url_byte s)"
  by (induction s arbitrary: j) (auto simp: url_byte_def)

lemma url_encode_loop_bound: "j < dst_len \<Longrightarrow> j + length (url_encode_loop s j dst_len) < dst_len"
proof (induction s arbitrary: j)
  case (Cons b s)
  then show ?case
    using Cons.IH [of "j + 1"] Cons.IH [of "j + 3"] by (simp add: less_diff_conv numeral_3_eq_3)
qed simp

lemma url_plain_not: "url_plain b \<Longrightarrow> b \<noteq> 37 \<and> b \<noteq> 43 \<and> b \<noteq> 38 \<and> b \<noteq> 61"
proof -
  have "\<forall>c \<in> {37, 43, 38, 61}. \<not> url_plain c"
    by code_simp
  then show "url_plain b \<Longrightarrow> ?thesis"
    by auto
qed

lemma url_decode_encoded:
  "length s \<le> room \<Longrightarrow> url_decode_loop (concat (map url_byte s)) room form = (False, [], s)"
proof (induction s arbitrary: room)
  case (Cons b s)
  then obtain room' where r: "room = Suc room'" "length s \<le> room'"
    by (cases room) auto
  show ?case
    using Cons.IH [OF r(2)] url_plain_not [of b] by (auto simp: url_byte_def r(1) url_escape nibbles)
qed simp

text \<open>
  \<open>mg_url_encode\<close> never stores more than the destination holds, the NUL included; with three bytes of room for each
  byte of the source nothing is cut off, and \<open>mg_url_decode\<close> gives back the source, read as a path or as a form.
\<close>

lemma url_roundtrip:
  assumes "0 < n"
  shows "length (snd (mg_url_encode s n)) \<le> n
     \<and> (3 * length s < n \<and> length s < m \<longrightarrow>
          mg_url_decode (take (fst (mg_url_encode s n)) (snd (mg_url_encode s n))) m form = (int (length s), s @ [0]))"
  using assms url_encode_loop_bound [of 0 n s] url_encode_loop_room [of 0 s n] url_decode_encoded [of s "m - 1" form]
  by (auto simp: mg_url_encode_def mg_url_decode_def Let_def)

lemma url_roundtrip_witness:
  "mg_url_encode (bs ''a b'') 10 = (5, bs ''a%20b'' @ [0]) \<and> mg_url_decode (bs ''a%20b'') 4 True = (3, bs ''a b'' @ [0])"
proof -
  have e: "mg_url_encode (bs ''a b'') 10 = (5, bs ''a%20b'' @ [0])"
    by code_simp
  show ?thesis
    using url_roundtrip [of 10 "bs ''a b''" 4 True] e by simp
qed

section \<open>Looking up a form variable\<close>

text \<open>A form as a client sends it: the names as they are, the values encoded.\<close>

definition form_field :: "byte list \<times> byte list \<Rightarrow> byte list" where
  "form_field nv = fst nv @ 61 # concat (map url_byte (snd nv))"

fun form_text :: "(byte list \<times> byte list) list \<Rightarrow> byte list" where
  "form_text [] = []"
| "form_text [nv] = form_field nv"
| "form_text (nv # nvs) = form_field nv @ 38 # form_text nvs"

definition same_name :: "byte list \<Rightarrow> byte list \<Rightarrow> bool" where
  "same_name a b \<longleftrightarrow> map lowercase a = map lowercase b"

definition name_ok :: "byte list \<Rightarrow> bool" where
  "name_ok a \<longleftrightarrow> 61 \<notin> set a \<and> 38 \<notin> set a \<and> 0 \<notin> set a"

lemma url_bytes_safe: "c \<in> set (concat (map url_byte v)) \<Longrightarrow> c \<noteq> 38"
proof -
  have h: "\<forall>d \<in> set [0..<16]. hex_lower (of_nat d) \<noteq> 38"
    by code_simp
  have "hex_lower d \<noteq> 38" if "unat d < 16" for d
    using bspec [OF h, of "unat d"] that by simp
  then have "38 \<notin> set (url_byte b)" for b
    using low_nibble [of b] high_nibble [of b] url_plain_not [of b] by (auto simp: url_byte_def)
  then show "c \<in> set (concat (map url_byte v)) \<Longrightarrow> c \<noteq> 38"
    by auto
qed

lemma find_inside:
  "38 \<notin> set f \<Longrightarrow> find_http_var name False (f @ 38 # t) = find_http_var name True t"
proof (induction f)
  case Nil
  then show ?case
    by (cases t) auto
next
  case (Cons c f)
  then show ?case
    by (cases t) auto
qed

lemma find_inside_last:
  "38 \<notin> set f \<Longrightarrow> find_http_var name False f = None"
  by (induction f) auto

lemma ncasecmp_eq_0_name:
  "n \<le> length s \<Longrightarrow> n \<le> length t \<Longrightarrow> 0 \<notin> set s \<Longrightarrow>
     mg_ncasecmp s t n = 0 \<longleftrightarrow> map lowercase (take n s) = map lowercase (take n t)"
proof (induction s t n rule: mg_ncasecmp.induct)
  case (2 s t n)
  then obtain a s' b t' where [simp]: "s = a # s'" "t = b # t'"
    by (cases s; cases t) auto
  show ?case
    using 2 by (auto simp: word_uint_eq_iff)
qed simp

lemma lowercase_eq_sign: "lowercase c = 61 \<longleftrightarrow> c = 61"
  unfolding lowercase_def by unat_arith

lemma eq_sign_lowercase: "map lowercase a = map lowercase b \<Longrightarrow> 61 \<in> set a \<Longrightarrow> 61 \<in> set b"
  by (metis (mono_tags) imageE image_eqI list.set_map lowercase_eq_sign)

lemma same_name_length: "same_name a b \<Longrightarrow> length a = length b"
  unfolding same_name_def by (metis length_map)

lemma name_at_start:
  assumes "name_ok name" "name_ok a" "length name < length (a @ 61 # t)"
  shows "(a @ 61 # t) ! length name = 61 \<and> mg_ncasecmp name (a @ 61 # t) (length name) = 0 \<longleftrightarrow> same_name name a"
proof -
  let ?n = "length name"
  have c: "mg_ncasecmp name (a @ 61 # t) ?n = 0 \<longleftrightarrow> map lowercase name = map lowercase (take ?n (a @ 61 # t))"
    using assms(1,3) ncasecmp_eq_0_name [of ?n name "a @ 61 # t"] by (simp add: name_ok_def)
  have "?n \<le> length a" if "map lowercase name = map lowercase (take ?n (a @ 61 # t))"
  proof (rule ccontr)
    assume "\<not> ?n \<le> length a"
    then have "61 \<in> set (take ?n (a @ 61 # t))"
      by (auto simp: take_Cons')
    then show False
      using eq_sign_lowercase [OF that [symmetric]] assms(1) by (simp add: name_ok_def)
  qed
  moreover have "?n = length a" if "?n \<le> length a" "(a @ 61 # t) ! ?n = 61"
    using that assms(2) nth_mem [of ?n a] by (cases "?n < length a") (auto simp: nth_append name_ok_def)
  moreover note same_name_length [of name a]
  ultimately show ?thesis
    unfolding c by (fastforce simp: same_name_def)
qed

lemma find_field:
  assumes "name_ok name" "name_ok (fst nv)" "t = [] \<or> hd t = 38"
  shows "find_http_var name True (form_field nv @ t) =
     (if same_name name (fst nv) then Some (concat (map url_byte (snd nv)) @ t)
      else if t = [] then None else find_http_var name True (tl t))"
proof -
  let ?e = "concat (map url_byte (snd nv))"
  obtain c f where cf: "form_field nv = c # f"
    by (cases "form_field nv") (auto simp: form_field_def)
  have s: "form_field nv @ t = fst nv @ 61 # ?e @ t"
    by (simp add: form_field_def)
  have cft: "c # f @ t = fst nv @ 61 # ?e @ t"
    using s by (simp add: cf)
  have "38 \<notin> set (form_field nv)"
    using url_bytes_safe [of _ "snd nv"] assms(2) by (auto simp: form_field_def name_ok_def)
  then have c: "c \<noteq> 38" "38 \<notin> set f"
    by (auto simp: cf)
  have other: "find_http_var name False (f @ t) = (if t = [] then None else find_http_var name True (tl t))"
    using assms(3) c(2) find_inside_last [of f name] find_inside [of f name] by (cases t) auto
  have short: "length t < length name \<Longrightarrow> find_http_var name True (tl t) = None" for t
    by (cases "tl t") (auto dest: arg_cong [of _ _ length])
  show ?thesis
  proof (cases "length name < length (form_field nv @ t)")
    case True
    then have m: "(c # f @ t) ! length name = 61 \<and> mg_ncasecmp name (c # f @ t) (length name) = 0 \<longleftrightarrow> same_name name (fst nv)"
      using name_at_start [OF assms(1,2), of "?e @ t"] unfolding s cft by simp
    have "same_name name (fst nv) \<Longrightarrow> drop (length name + 1) (c # f @ t) = ?e @ t"
      unfolding cft using same_name_length [of name "fst nv"] by simp
    then show ?thesis
      using m other c(1) True by (simp add: cf)
  next
    case False
    then have "length (c # f @ t) \<le> length name"
      by (simp add: cf)
    moreover have "\<not> same_name name (fst nv)"
      using False same_name_length [of name "fst nv"] by (auto simp: form_field_def)
    ultimately show ?thesis
      using short [of t] by (simp add: cf)
  qed
qed

lemma find_hd: "find P xs = Some x \<Longrightarrow> x \<in> set xs \<and> (\<exists>ys. dropWhile (\<lambda>x. \<not> P x) xs = x # ys)"
  by (induction xs) (auto split: if_splits)

lemma find_in_form:
  assumes "name_ok name" "list_all (\<lambda>nv. name_ok (fst nv)) nvs"
  shows "find_http_var name True (form_text nvs) =
     (case find (\<lambda>nv. same_name name (fst nv)) nvs of None \<Rightarrow> None
      | Some nv \<Rightarrow> Some (concat (map url_byte (snd nv)) @ drop (length (form_field nv)) (form_text (dropWhile (\<lambda>nv. \<not> same_name name (fst nv)) nvs))))"
  using assms(2)
proof (induction nvs rule: form_text.induct)
  case (2 nv)
  then show ?case
    using find_field [OF assms(1), of nv "[]"] by simp
next
  case (3 nv nv2 nvs)
  then show ?case
    using find_field [OF assms(1), of nv "38 # form_text (nv2 # nvs)"] by (simp split: option.splits)
qed simp

lemma form_text_after:
  "nvs \<noteq> [] \<Longrightarrow> drop (length (form_field (hd nvs))) (form_text nvs) = (if tl nvs = [] then [] else 38 # form_text (tl nvs))"
  by (induction nvs rule: form_text.induct) auto

text \<open>
  C22. In a form with any fields, \<open>mg_get_http_var\<close> returns the decoded value of the first field whose name is the one
  asked for up to the case of letters, with its length, and -1 when there is no such field (-2 when there is no room for anything); the
  text of other fields and of their values is never taken for a name. Names have no NUL, equals sign or ampersand, and the values fit into the buffer. The
  comment in \<open>mongoose.h\<close> (lines 2375 to 2377) promises 0 where the code, and the theorem, have -1, and -1 for a buffer that is too small, where the code has -2.
\<close>

theorem http_var_lookup:
  assumes "name_ok name" "list_all (\<lambda>nv. name_ok (fst nv) \<and> length (snd nv) < n) nvs"
  shows "mg_get_http_var (form_text nvs) name n =
     (case find (\<lambda>nv. same_name name (fst nv)) nvs of
        None \<Rightarrow> (if n = 0 then -2 else -1, if n = 0 then [] else [0]) | Some nv \<Rightarrow> (int (length (snd nv)), snd nv @ [0]))"
proof (cases "find (\<lambda>nv. same_name name (fst nv)) nvs")
  case None
  then show ?thesis
    using find_in_form [OF assms(1), of nvs] assms(2) by (simp add: mg_get_http_var_def list_all_iff)
next
  case (Some nv)
  let ?e = "concat (map url_byte (snd nv))" and ?ds = "dropWhile (\<lambda>nv. \<not> same_name name (fst nv)) nvs"
  have ds: "?ds \<noteq> []" "hd ?ds = nv" and nv: "nv \<in> set nvs"
    using find_hd [OF Some] by (auto simp del: dropWhile_eq_Nil_conv)
  then have n: "length (snd nv) \<le> n - 1" "n \<noteq> 0" "form_text nvs \<noteq> []"
    using assms(2) by (auto simp: list_all_iff form_field_def elim: form_text.elims)
  have f: "find_http_var name True (form_text nvs) = Some (?e @ (if tl ?ds = [] then [] else 38 # form_text (tl ?ds)))"
    using find_in_form [OF assms(1), of nvs] assms(2) Some form_text_after [OF ds(1)] ds(2) by (simp add: list_all_iff)
  have "38 \<notin> set ?e"
    using url_bytes_safe [of _ "snd nv"] by blast
  then have "(case memchr (?e @ (if tl ?ds = [] then [] else 38 # t)) 38 of None \<Rightarrow> ?e @ (if tl ?ds = [] then [] else 38 # t)
      | Some k \<Rightarrow> take k (?e @ (if tl ?ds = [] then [] else 38 # t))) = ?e" for t
    using memchr_None [of ?e 38] memchr_append [of 38 ?e t] by auto
  then show ?thesis
    using Some f n url_decode_encoded [OF n(1), of True] by (simp add: mg_get_http_var_def mg_url_decode_def Let_def)
qed

theorem http_var_lookup_witness:
  "mg_get_http_var (bs ''ab=1&B=x%20y&b=z'') (bs ''b'') 10 = (3, bs ''x y'' @ [0])"
proof -
  have h: "bs ''ab=1&B=x%20y&b=z'' = form_text [(bs ''ab'', bs ''1''), (bs ''B'', bs ''x y''), (bs ''b'', bs ''z'')]"
    "name_ok (bs ''b'')" "list_all (\<lambda>nv. name_ok (fst nv) \<and> length (snd nv) < 10) [(bs ''ab'', bs ''1''), (bs ''B'', bs ''x y''), (bs ''b'', bs ''z'')]"
    "find (\<lambda>nv. same_name (bs ''b'') (fst nv)) [(bs ''ab'', bs ''1''), (bs ''B'', bs ''x y''), (bs ''b'', bs ''z'')] = Some (bs ''B'', bs ''x y'')"
    by code_simp+
  show ?thesis
    using http_var_lookup [OF h(2,3)] unfolding h(1,4) by simp
qed

end
