(* ===== verification/Http_Auth.thy ===== *)
theory Http_Auth
  imports Http_Vars Md5
begin

text \<open>
  The parameters of a header and digest authentication in \<open>mongoose/src/http.c\<close>: \<open>mg_http_parse_header\<close>,
  \<open>mg_http_create_digest_auth_header\<close> for a client and \<open>mg_http_check_digest_auth\<close> for a server with
  a password file. The time and the uninitialised memory are arguments.
\<close>

section \<open>Parameters of a header\<close>

text \<open>The search for the name: what follows its equals sign. \<open>start\<close> tells whether a name may start here.\<close>

fun find_param :: "byte list \<Rightarrow> bool \<Rightarrow> byte list \<Rightarrow> byte list option" where
  "find_param name start [] = None"
| "find_param name start (c # s) =
     (if length (c # s) \<le> length name then None
      else if start \<and> (c # s) ! length name = 61 \<and> memcmp (c # s) name (length name) = 0
        then Some (drop (length name + 1) (c # s))
      else find_param name (c = 32 \<or> c = 44) s)"

text \<open>
  The loop that copies the value: \<open>q\<close> is the text from the pointer on, which goes on behind the header, \<open>left\<close> the number of
  bytes of the header that are left, the last argument the room in the buffer.
\<close>

fun param_value :: "byte \<Rightarrow> byte \<Rightarrow> byte list \<Rightarrow> nat \<Rightarrow> nat \<Rightarrow> byte list \<times> byte list" where
  "param_value ch ch1 q left 0 = ([], q)"
| "param_value ch ch1 q left (Suc room) =
     (let c = fst (chop q); s = snd (chop q) in
      if left = 0 \<or> c = ch \<or> c = ch1 then ([], q)
      else if ch \<noteq> 32 \<and> c = 92 \<and> fst (chop s) = ch then
        let (v, q') = param_value ch ch1 (snd (chop s)) (left - 2) room in (ch # v, q')
      else let (v, q') = param_value ch ch1 s (left - 1) room in (c # v, q'))"

definition trim_end :: "byte \<Rightarrow> byte list \<Rightarrow> nat \<Rightarrow> nat" where
  "trim_end b s len = (if len > 0 \<and> s ! (len - 1) = b then len - 1 else len)"

text \<open>The header \<open>hdr\<close> with the bytes \<open>after\<close> it; the result is the length and the bytes in the buffer.\<close>

definition mg_http_parse_header :: "byte list \<Rightarrow> byte list \<Rightarrow> byte list \<Rightarrow> nat \<Rightarrow> nat \<times> byte list" where
  "mg_http_parse_header hdr after var_name buf_size =
     (case find_param var_name True hdr of
        Some (b # s0) \<Rightarrow>
          let quoted = (b = 34 \<or> b = 39); ch = (if quoted then b else 32); ch1 = (if quoted then b else 44);
              s = (if quoted then s0 else b # s0);
              (v, q) = param_value ch ch1 (s @ after) (length s) buf_size
          in if length v \<ge> buf_size \<or> (ch \<noteq> 32 \<and> fst (chop q) \<noteq> ch) then (0, v)
             else let len = trim_end 59 (s @ after) (trim_end 44 (s @ after) (length v)) in (len, take len v @ [0])
      | _ \<Rightarrow> (0, if buf_size > 0 then [0] else []))"

section \<open>Digest authentication\<close>

text \<open>A buffer read as a C string. The results of \<open>cs_md5\<close> end with a NUL.\<close>

definition c_str :: "byte list \<Rightarrow> byte list" where
  "c_str s = takeWhile (\<lambda>c. c \<noteq> 0) s"

definition mg_mkmd5resp :: "md5_ctx \<Rightarrow> byte list \<Rightarrow> byte list \<Rightarrow> byte list \<Rightarrow> byte list \<Rightarrow> byte list \<Rightarrow> byte list \<Rightarrow> byte list \<Rightarrow> byte list" where
  "mg_mkmd5resp junk meth uri ha1 nonce nc cnonce qop =
     (let colon = [58]; ha2 = cs_md5 junk [meth, colon, uri]
      in cs_md5 junk [ha1, colon, nonce, colon, nc, colon, cnonce, colon, qop, colon, take 32 ha2])"

text \<open>\<open>\%x\<close> of a number.\<close>

function hexx :: "nat \<Rightarrow> byte list" where
  "hexx n = (if n < 16 then [hex_lower (of_nat n)] else hexx (n div 16) @ [hex_lower (of_nat (n mod 16))])"
  by auto
termination
  by (relation "measure id") auto

declare hexx.simps [simp del]

text \<open>
  \<open>snprintf\<close> of a text into a buffer: the length of the whole text, and the buffer with what fits of the text and a NUL.
\<close>

definition snprintf_text :: "byte list \<Rightarrow> nat \<Rightarrow> byte list \<Rightarrow> nat \<times> byte list" where
  "snprintf_text buf buf_len s =
     (length s, if buf_len = 0 then buf else let t = take (buf_len - 1) s @ [0] in t @ drop (length t) buf)"

text \<open>The strings are given without their NUL.\<close>

definition mg_http_create_digest_auth_header :: "md5_ctx \<Rightarrow> nat \<Rightarrow> byte list \<Rightarrow> nat \<Rightarrow> byte list \<Rightarrow> byte list \<Rightarrow> byte list \<Rightarrow> byte list \<Rightarrow> byte list \<Rightarrow> nat \<times> byte list" where
  "mg_http_create_digest_auth_header junk now buf buf_len meth uri auth_domain user passwd =
     (let cnonce = hexx (now mod 2 ^ 32); qop = bs ''auth'';
          ha1 = cs_md5 junk [user, [58], auth_domain, [58], passwd];
          resp = mg_mkmd5resp junk meth uri (take 32 ha1) cnonce (bs ''1'') cnonce qop
      in snprintf_text buf buf_len
          (bs ''Authorization: Digest username='' @ [34] @ user @ [34] @ bs '',realm='' @ [34] @ auth_domain @ [34]
           @ bs '',uri='' @ [34] @ uri @ [34] @ bs '',qop='' @ qop @ bs '',nc=1,cnonce='' @ cnonce
           @ bs '',nonce='' @ cnonce @ bs '',response='' @ c_str resp @ [CR, LF]))"

text \<open>\<open>strtoul (s, NULL, 16)\<close>.\<close>

definition strtoul16 :: "byte list \<Rightarrow> u64" where
  "strtoul16 s0 =
     (let s = dropWhile isspace s0; neg = (take 1 s = [45]);
          s1 = (if neg \<or> take 1 s = [43] then tl s else s);
          s2 = (if map lowercase (take 2 s1) = [48, 120] \<and> length s1 > 2 \<and> isxdigit (s1 ! 2) then drop 2 s1 else s1);
          v = foldl (\<lambda>n b. n * 16 + unat (hex_value b)) 0 (takeWhile isxdigit s2)
      in if v \<ge> 2 ^ 64 then - 1 else if neg then - of_nat v else of_nat v)"

definition mg_check_nonce :: "u64 \<Rightarrow> byte list \<Rightarrow> bool" where
  "mg_check_nonce now nonce \<longleftrightarrow> (let val = strtoul16 nonce in now < val \<or> now - val < 3600)"

text \<open>\<open>mg_get_http_header\<close> on a parsed message.\<close>

definition http_header :: "http_msg \<Rightarrow> byte list \<Rightarrow> byte list option" where
  "http_header hm name = map_option snd (find (\<lambda>(h, v). length h = length name \<and> mg_ncasecmp h name (length name) = 0) (hq_headers hm))"

text \<open>The method and the target as the digest covers them: the query with its question mark when it is not empty.\<close>

definition digest_target :: "http_msg \<Rightarrow> byte list" where
  "digest_target hm = hq_uri hm @ (case hq_query_string hm of None \<Rightarrow> [] | Some q \<Rightarrow> if q = [] then [] else 63 # q)"

text \<open>\<open>fgets\<close> with a buffer of 128 bytes, and \<open>sscanf\<close> of a line of the password file.\<close>

definition fgets128 :: "byte list \<Rightarrow> byte list" where
  "fgets128 fp = take (min 127 (Suc (length (takeWhile (\<lambda>c. c \<noteq> LF) fp)))) fp"

definition sscanf_entry :: "byte list \<Rightarrow> (byte list \<times> byte list \<times> byte list) option" where
  "sscanf_entry buf =
     (let b = c_str buf;
          u = takeWhile (\<lambda>c. c \<noteq> 58) b; r1 = dropWhile (\<lambda>c. c \<noteq> 58) b;
          d = takeWhile (\<lambda>c. c \<noteq> 58) (tl r1); r2 = dropWhile (\<lambda>c. c \<noteq> 58) (tl r1);
          h = takeWhile (\<lambda>c. \<not> isspace c) (dropWhile isspace (tl r2))
      in if u \<noteq> [] \<and> r1 \<noteq> [] \<and> d \<noteq> [] \<and> r2 \<noteq> [] \<and> h \<noteq> [] then Some (u, d, h) else None)"

text \<open>The loop over the lines: the hash of the first entry for the user and the domain.\<close>

function password_hash :: "byte list \<Rightarrow> byte list \<Rightarrow> byte list \<Rightarrow> byte list option" where
  "password_hash user auth_domain fp =
     (if fp = [] then None
      else case sscanf_entry (fgets128 fp) of
        Some (f_user, f_domain, f_ha1) \<Rightarrow>
          if user = f_user \<and> auth_domain = f_domain then Some f_ha1
          else password_hash user auth_domain (drop (length (fgets128 fp)) fp)
      | None \<Rightarrow> password_hash user auth_domain (drop (length (fgets128 fp)) fp))"
  by auto
termination
  by (relation "measure (\<lambda>(user, d, fp). length fp)") (auto simp: fgets128_def)

declare password_hash.simps [simp del]

definition mg_http_check_digest_auth :: "md5_ctx \<Rightarrow> u64 \<Rightarrow> byte list \<Rightarrow> http_msg \<Rightarrow> byte list \<Rightarrow> byte list option \<Rightarrow> bool" where
  "mg_http_check_digest_auth junk now after hm auth_domain fp0 =
     (case (fp0, http_header hm (bs ''Authorization'')) of
        (Some fp, Some hdr) \<Rightarrow>
          let par = mg_http_parse_header hdr after;
              (ul, user) = par (bs ''username'') 50; (cl, cnonce) = par (bs ''cnonce'') 33; (rl, response) = par (bs ''response'') 40;
              (il, uri) = par (bs ''uri'') 200; (ql, qop) = par (bs ''qop'') 20; (nl, nc) = par (bs ''nc'') 20; (ol, nonce) = par (bs ''nonce'') 30
          in if ul = 0 \<or> cl = 0 \<or> rl = 0 \<or> il = 0 \<or> ql = 0 \<or> nl = 0 \<or> ol = 0 \<or> \<not> mg_check_nonce now (c_str nonce) then False
             else (case password_hash (c_str user) auth_domain fp of
                 None \<Rightarrow> False
               | Some f_ha1 \<Rightarrow> mg_casecmp (c_str response)
                   (c_str (mg_mkmd5resp junk (hq_method hm) (digest_target hm) f_ha1 (c_str nonce) (c_str nc) (c_str cnonce) (c_str qop))) = 0)
      | _ \<Rightarrow> False)"

section \<open>The parameters of a printed header are found\<close>

lemma find_param_short: "length t \<le> length name \<Longrightarrow> find_param name st t = None"
  by (cases t) auto

lemma memcmp_prefix: "length name \<le> length s \<Longrightarrow> memcmp s name (length name) = 0 \<longleftrightarrow> take (length name) s = name"
  by (simp add: memcmp_eq_0)

text \<open>Text without a space or a comma holds no start of a name; text without an equals sign holds no name up to a byte that is not in the name.\<close>

lemma find_param_no_sep:
  "32 \<notin> set u \<Longrightarrow> 44 \<notin> set u \<Longrightarrow> find_param name False (u @ b # t) = find_param name (b = 32 \<or> b = 44) t"
proof (induction u)
  case (Cons c u)
  then show ?case
    by (auto simp: find_param_short)
qed (simp add: find_param_short)

lemma find_param_no_eq:
  assumes "61 \<notin> set u" "b \<notin> set name" "b \<noteq> 61"
  shows "find_param name st (u @ b # t) = find_param name (b = 32 \<or> b = 44) t"
  using assms(1)
proof (induction u arbitrary: st)
  case Nil
  have "\<not> ((b # t) ! length name = 61 \<and> take (length name) (b # t) = name)"
    using assms(2,3) by (cases name) auto
  then show ?case
    using memcmp_prefix [of name "b # t"] by (auto simp: find_param_short)
next
  case (Cons c u)
  let ?s = "c # u @ b # t"
  have "\<not> (?s ! length name = 61 \<and> take (length name) ?s = name)" if "length name < length ?s"
  proof
    assume a: "?s ! length name = 61 \<and> take (length name) ?s = name"
    show False
    proof (cases "length name \<le> Suc (length u)")
      case True
      then have "?s ! length name \<in> set (c # u @ [b])"
        using nth_mem [of "length name" "c # u @ [b]"] by (simp add: nth_Cons' nth_append split: if_splits)
      then show False
        using a Cons.prems assms(3) by auto
    next
      case False
      then have "b \<in> set (take (length name) ?s)"
        by (auto simp: take_Cons')
      then show False
        using a assms(2) by simp
    qed
  qed
  then show ?case
    using memcmp_prefix [of name ?s] Cons.IH Cons.prems by (auto simp: find_param_short)
qed

text \<open>A parameter as a client prints it: a name, and a value with or without quotes.\<close>

type_synonym param = "byte list \<times> bool \<times> byte list"

definition value_text :: "param \<Rightarrow> byte list" where
  "value_text p = (case p of (n, quoted, v) \<Rightarrow> if quoted then 34 # v @ [34] else v)"

definition param_text :: "param \<Rightarrow> byte list" where
  "param_text p = fst p @ 61 # value_text p"

fun params_text :: "param list \<Rightarrow> byte list" where
  "params_text [] = []"
| "params_text [p] = param_text p"
| "params_text (p # ps) = param_text p @ 44 # params_text ps"

definition param_name_ok :: "byte list \<Rightarrow> bool" where
  "param_name_ok n \<longleftrightarrow> n \<noteq> [] \<and> 32 \<notin> set n \<and> 44 \<notin> set n \<and> 61 \<notin> set n \<and> 34 \<notin> set n"

text \<open>A value with quotes may hold an equals sign, or spaces and commas, but not both.\<close>

definition param_ok :: "param \<Rightarrow> bool" where
  "param_ok p = (case p of (n, quoted, v) \<Rightarrow> param_name_ok n
     \<and> (if quoted then 34 \<notin> set v \<and> 92 \<notin> set v \<and> (61 \<notin> set v \<or> 32 \<notin> set v \<and> 44 \<notin> set v)
        else v \<noteq> [] \<and> hd v \<noteq> 34 \<and> hd v \<noteq> 39 \<and> 32 \<notin> set v \<and> 44 \<notin> set v)
     \<and> (v = [] \<or> List.last v \<noteq> 44 \<and> List.last v \<noteq> 59))"

lemma name_match:
  assumes "61 \<notin> set name" "61 \<notin> set n" "length name < length (n @ 61 # t)"
  shows "(n @ 61 # t) ! length name = 61 \<and> memcmp (n @ 61 # t) name (length name) = 0 \<longleftrightarrow> name = n"
proof -
  let ?s = "n @ 61 # t"
  have m: "memcmp ?s name (length name) = 0 \<longleftrightarrow> take (length name) ?s = name"
    using assms(3) by (simp add: memcmp_prefix)
  show ?thesis
  proof
    assume a: "?s ! length name = 61 \<and> memcmp ?s name (length name) = 0"
    then have tk: "take (length name) ?s = name" and e: "?s ! length name = 61"
      using m by auto
    have "\<not> length n < length name"
    proof
      assume "length n < length name"
      then have "61 \<in> set (take (length name) ?s)"
        by (auto simp: take_Cons')
      then show False
        unfolding tk using assms(1) by blast
    qed
    moreover have "\<not> length name < length n"
      using e assms(2) by (metis nth_append nth_mem)
    ultimately show "name = n"
      using tk by auto
  next
    assume "name = n"
    then show "?s ! length name = 61 \<and> memcmp ?s name (length name) = 0"
      using m by simp
  qed
qed

lemma find_param_hit:
  assumes "param_name_ok n"
  shows "find_param n True (n @ 61 # t) = Some t"
proof -
  obtain c n' where n: "n = c # n'"
    using assms by (cases n) (auto simp: param_name_ok_def)
  have "61 \<notin> set n"
    using assms by (simp add: param_name_ok_def)
  then have "(c # n' @ 61 # t) ! length n = 61 \<and> memcmp (c # n' @ 61 # t) n (length n) = 0"
    using name_match [of n n t] by (simp add: n)
  then show ?thesis
    by (simp add: n)
qed

lemma find_param_other:
  assumes "param_name_ok name" "param_ok p" "fst p \<noteq> name"
  shows "find_param name True (param_text p @ 44 # t) = find_param name True t"
proof -
  obtain n quoted v where p: "p = (n, quoted, v)"
    by (cases p)
  obtain c n' where n: "n = c # n'" "32 \<notin> set n" "44 \<notin> set n" "61 \<notin> set n"
    using assms(2) by (cases n) (auto simp: p param_ok_def param_name_ok_def)
  have nm: "61 \<notin> set name" "34 \<notin> set name"
    using assms(1) by (auto simp: param_name_ok_def)
  let ?s = "n @ 61 # value_text p @ 44 # t"
  have skip: "find_param name True ?s = find_param name False (n' @ 61 # value_text p @ 44 # t)"
    if "length name < length ?s"
  proof -
    have "\<not> (?s ! length name = 61 \<and> memcmp ?s name (length name) = 0)"
      using name_match [of name n "value_text p @ 44 # t"] nm(1) n(4) that assms(3) by (simp add: p)
    then show ?thesis
      using that n(2,3) by (auto simp: n(1))
  qed
  have "find_param name False (n' @ 61 # value_text p @ 44 # t) = find_param name True t"
  proof (cases quoted)
    case False
    then show ?thesis
      using find_param_no_sep [of "n' @ 61 # v" name 44 t] assms(2) n by (auto simp: p value_text_def param_ok_def)
  next
    case True
    have "find_param name False (n' @ 61 # value_text p @ 44 # t) = find_param name False (v @ 34 # 44 # t)"
      using find_param_no_sep [of "n' @ [61]" name 34 "v @ 34 # 44 # t"] n True by (simp add: p value_text_def)
    also have "\<dots> = find_param name False (44 # t)"
      using find_param_no_sep [of v name 34 "44 # t"] find_param_no_eq [of v 34 name False "44 # t"] assms(2) nm True
      by (auto simp: p param_ok_def)
    also have "\<dots> = find_param name True t"
      using find_param_no_sep [of "[]" name 44 t] by simp
    finally show ?thesis .
  qed
  then show ?thesis
    using skip find_param_short [of ?s name] find_param_short [of t name] by (force simp: param_text_def p)
qed

lemma param_value_quoted:
  "34 \<notin> set v \<Longrightarrow> 92 \<notin> set v \<Longrightarrow> length v < room \<Longrightarrow> length v < left \<Longrightarrow> param_value 34 34 (v @ 34 # t) left room = (v, 34 # t)"
proof (induction v arbitrary: left room)
  case Nil
  then show ?case
    by (cases room) (auto simp: Let_def)
next
  case (Cons c v)
  then show ?case
    by (cases room) (auto simp: Let_def)
qed

lemma param_value_plain:
  "32 \<notin> set v \<Longrightarrow> 44 \<notin> set v \<Longrightarrow> length v < room \<Longrightarrow> left = length v \<or> length v < left \<and> t \<noteq> [] \<and> hd t = 44 \<Longrightarrow>
     param_value 32 44 (v @ t) left room = (v, t)"
proof (induction v arbitrary: left room)
  case Nil
  then show ?case
    by (cases room; cases t) (auto simp: Let_def)
next
  case (Cons c v)
  obtain room' where r: "room = Suc room'" "length v < room'"
    using Cons.prems(3) by (cases room) auto
  have "left - 1 = length v \<or> length v < left - 1 \<and> t \<noteq> [] \<and> hd t = 44" "left \<noteq> 0"
    using Cons.prems(4) by auto
  then have "param_value 32 44 (v @ t) (left - 1) room' = (v, t)"
    using Cons.IH [of room' "left - 1"] Cons.prems(1,2) r(2) by auto
  then show ?case
    using Cons.prems(1,2) \<open>left \<noteq> 0\<close> by (simp add: r(1) Let_def)
qed

lemma trim_end_none: "v = [] \<or> List.last v \<noteq> b \<Longrightarrow> trim_end b (v @ t) (length v) = length v"
  by (cases v rule: rev_cases) (auto simp: trim_end_def nth_append)

text \<open>The value of a parameter that is followed by another one or by the end of the header.\<close>

lemma parse_header_value:
  assumes "find_param n True hdr = Some (value_text (n, quoted, v) @ t)" "param_ok (n, quoted, v)" "t = [] \<or> hd t = 44" "length v < sz"
  shows "mg_http_parse_header hdr after n sz = (length v, v @ [0])"
proof (cases quoted)
  case True
  then have "param_value 34 34 (v @ 34 # t @ after) (Suc (length v + length t)) sz = (v, 34 # t @ after)"
    using assms(2,4) by (intro param_value_quoted) (auto simp: param_ok_def)
  moreover have "trim_end 59 (v @ 34 # t @ after) (length v) = length v" "trim_end 44 (v @ 34 # t @ after) (length v) = length v"
    using assms(2) by (auto intro!: trim_end_none simp: param_ok_def)
  ultimately show ?thesis
    using assms(1,4) True by (simp add: mg_http_parse_header_def value_text_def Let_def)
next
  case False
  then obtain b v' where v: "v = b # v'" "b \<noteq> 34" "b \<noteq> 39"
    using assms(2) by (cases v) (auto simp: param_ok_def)
  have "param_value 32 44 (v @ t @ after) (length v + length t) sz = (v, t @ after)"
    using assms(2-4) False by (intro param_value_plain) (auto simp: param_ok_def)
  moreover have "trim_end 59 (v @ t @ after) (length v) = length v" "trim_end 44 (v @ t @ after) (length v) = length v"
    using assms(2) by (auto intro!: trim_end_none simp: param_ok_def)
  ultimately show ?thesis
    using assms(1,4) False v by (simp add: mg_http_parse_header_def value_text_def Let_def)
qed

lemma parse_header_param:
  assumes "list_all param_ok ps" "distinct (map fst ps)" "(n, quoted, v) \<in> set ps" "length v < sz"
    and hd: "61 \<notin> set u" "32 \<notin> set n"
  shows "mg_http_parse_header (u @ 32 # params_text ps) after n sz = (length v, v @ [0])"
proof -
  have "\<exists>t. find_param n True (params_text ps) = Some (value_text (n, quoted, v) @ t) \<and> (t = [] \<or> hd t = 44)"
    using assms(1-3)
  proof (induction ps rule: params_text.induct)
    case (2 p)
    then show ?case
      using find_param_hit [of n "value_text p"] by (auto simp: param_text_def param_ok_def)
  next
    case (3 p p2 ps)
    show ?case
    proof (cases "fst p = n")
      case True
      then have "p = (n, quoted, v)"
        using "3.prems"(2,3) by (force simp: image_iff)
      then show ?thesis
        using find_param_hit [of n "value_text p @ 44 # params_text (p2 # ps)"] "3.prems"(1) by (auto simp: param_text_def param_ok_def)
    next
      case False
      have "param_name_ok n"
        using "3.prems"(1,3) by (force simp: list_all_iff param_ok_def)
      then show ?thesis
        using find_param_other [of n p "params_text (p2 # ps)"] "3.prems" "3.IH" False by auto
    qed
  qed simp
  then obtain t where "find_param n True (params_text ps) = Some (value_text (n, quoted, v) @ t)" "t = [] \<or> hd t = 44"
    by blast
  moreover have "find_param n True (u @ 32 # params_text ps) = find_param n True (params_text ps)"
    using find_param_no_eq [of u 32 n True "params_text ps"] hd by simp
  moreover have "param_ok (n, quoted, v)"
    using assms(1,3) by (auto simp: list_all_iff)
  ultimately show ?thesis
    using assms(4) by (intro parse_header_value) auto
qed

section \<open>A digest header is accepted\<close>

definition lower_hex :: "byte \<Rightarrow> bool" where
  "lower_hex c \<longleftrightarrow> 48 \<le> c \<and> c \<le> 57 \<or> 97 \<le> c \<and> c \<le> 102"

lemma lower_hex_digit: "unat d < 16 \<Longrightarrow> lower_hex (hex_lower d)"
proof -
  have h: "\<forall>d \<in> set [0..<16]. lower_hex (hex_lower (of_nat d))"
    by code_simp
  show "unat d < 16 \<Longrightarrow> ?thesis"
    using bspec [OF h, of "unat d"] by simp
qed

lemma lower_hex_not: "lower_hex c \<Longrightarrow> c \<notin> {0, 32, 34, 39, 44, 45, 43, 58, 59, 92, 120} \<and> isxdigit c \<and> \<not> isspace c \<and> lowercase c = c"
  unfolding lower_hex_def isxdigit_def isspace_def lowercase_def by unat_arith

lemma cs_to_hex_text: "\<exists>h. cs_to_hex d = h @ [0] \<and> length h = 2 * length d \<and> list_all lower_hex h"
proof (induction d)
  case (Cons b d)
  have "lower_hex (hex_digits ! unat (drop_bit 4 b))" "lower_hex (hex_digits ! unat (b AND 15))"
    using lower_hex_digit [OF high_nibble [of b]] lower_hex_digit [OF low_nibble [of b]] by (simp_all add: hex_lower_def hex_digits_def)
  with Cons show ?case
    by auto
qed simp

lemma c_str_text: "0 \<notin> set h \<Longrightarrow> c_str (h @ [0]) = h" "0 \<notin> set h \<Longrightarrow> c_str h = h"
  by (auto simp: c_str_def takeWhile_append)

lemma cs_md5_text:
  "c_str (cs_md5 junk ps) = take 32 (cs_md5 junk ps)" "length (c_str (cs_md5 junk ps)) = 32" "list_all lower_hex (c_str (cs_md5 junk ps))"
proof -
  have "length (MD5_Final ctx) = 16" for ctx
    by (simp add: MD5_Final_def Let_def le32_bytes_def split: prod.splits)
  then obtain h where "cs_md5 junk ps = h @ [0]" "length h = 32" "list_all lower_hex h"
    using cs_to_hex_text [of "MD5_Final (foldl MD5_Update (MD5_Init junk) ps)"] by (auto simp: cs_md5_def)
  moreover from this have "0 \<notin> set h"
    using lower_hex_not [of 0] by (auto simp: list_all_iff)
  ultimately show "c_str (cs_md5 junk ps) = take 32 (cs_md5 junk ps)" "length (c_str (cs_md5 junk ps)) = 32"
    "list_all lower_hex (c_str (cs_md5 junk ps))"
    by (simp_all add: c_str_text)
qed

lemma hexx_digits: "list_all lower_hex (hexx n)"
  by (induction n rule: hexx.induct) (subst hexx.simps, auto intro!: lower_hex_digit simp: unat_of_nat take_bit_nat_eq_self)

lemma hexx_not_Nil: "hexx n \<noteq> []"
  by (subst hexx.simps) simp

lemma length_hexx: "n < 16 ^ k \<Longrightarrow> 0 < k \<Longrightarrow> length (hexx n) \<le> k"
proof (induction n arbitrary: k rule: hexx.induct)
  case (1 n)
  show ?case
  proof (cases "n < 16")
    case True
    then show ?thesis
      using 1 by (subst hexx.simps) simp
  next
    case False
    then obtain k' where k: "k = Suc k'" "0 < k'"
      using 1(2,3) by (cases k; cases "k - 1") auto
    then have "n div 16 < 16 ^ k'"
      using 1(2) by (simp add: less_mult_imp_div_less mult.commute)
    then show ?thesis
      using 1(1) [OF False _ k(2)] False k(1) by (subst hexx.simps) simp
  qed
qed

lemma hex_value_lower: "d < 16 \<Longrightarrow> unat (hex_value (hex_lower (of_nat d))) = d"
proof -
  have h: "\<forall>d \<in> set [0..<16]. unat (hex_value (hex_lower (of_nat d))) = d"
    by code_simp
  show "d < 16 \<Longrightarrow> ?thesis"
    using bspec [OF h, of d] by simp
qed

lemma hexx_value: "foldl (\<lambda>n b. n * 16 + unat (hex_value b)) 0 (hexx n) = n"
  by (induction n rule: hexx.induct) (subst hexx.simps, simp add: hex_value_lower)

lemma strtoul16_hexx:
  assumes "n < 2 ^ 64"
  shows "strtoul16 (hexx n) = of_nat n"
proof -
  obtain d ds where d: "hexx n = d # ds" "lower_hex d"
    using hexx_not_Nil [of n] hexx_digits [of n] by (cases "hexx n") auto
  have all: "\<And>c. c \<in> set (hexx n) \<Longrightarrow> lower_hex c"
    using hexx_digits [of n] by (simp add: list_all_iff)
  have "dropWhile isspace (hexx n) = hexx n" "take 1 (hexx n) \<noteq> [45]" "take 1 (hexx n) \<noteq> [43]"
    using d lower_hex_not [of d] by auto
  moreover have "map lowercase (take 2 (hexx n)) \<noteq> [48, 120]"
  proof
    assume "map lowercase (take 2 (hexx n)) = [48, 120]"
    then have "lowercase (hexx n ! 1) = 120" "1 < length (hexx n)"
      by (cases "hexx n"; cases "tl (hexx n)"; auto)+
    then show False
      using lower_hex_not [OF all [of "hexx n ! 1"]] by auto
  qed
  moreover have "takeWhile isxdigit (hexx n) = hexx n"
    using lower_hex_not all by simp
  ultimately show ?thesis
    using assms hexx_value [of n] by (simp add: strtoul16_def Let_def del: takeWhile_eq_all_conv)
qed


section \<open>The password file\<close>

type_synonym entry = "byte list \<times> byte list \<times> byte list"

definition entry_line :: "entry \<Rightarrow> byte list" where
  "entry_line e = (case e of (u, d, h) \<Rightarrow> u @ [58] @ d @ [58] @ h @ [LF])"

definition entry_ok :: "entry \<Rightarrow> bool" where
  "entry_ok e = (case e of (u, d, h) \<Rightarrow> u \<noteq> [] \<and> d \<noteq> [] \<and> h \<noteq> [] \<and> list_all (\<lambda>c. c \<noteq> 0 \<and> c \<noteq> LF \<and> c \<noteq> 58) (u @ d)
     \<and> list_all (\<lambda>c. c \<noteq> 0 \<and> \<not> isspace c) h \<and> length (entry_line e) \<le> 127)"

lemma isspace_LF: "isspace LF"
  by (simp add: isspace_def)

lemma fgets_entry:
  assumes "entry_ok e"
  shows "fgets128 (entry_line e @ t) = entry_line e"
proof -
  obtain u d h where e: "e = (u, d, h)"
    by (cases e)
  define l where "l = u @ [58] @ d @ [58] @ h"
  have "c \<noteq> LF" if "c \<in> set l" for c
    using assms that isspace_LF by (auto simp: e entry_ok_def list_all_iff l_def)
  then have "takeWhile (\<lambda>c. c \<noteq> LF) (l @ LF # t) = l"
    by (subst takeWhile_append2) auto
  moreover have "entry_line e = l @ [LF]"
    by (simp add: e entry_line_def l_def)
  ultimately show ?thesis
    using assms by (simp add: fgets128_def e entry_ok_def)
qed

lemma sscanf_entry_line:
  assumes "entry_ok e"
  shows "sscanf_entry (entry_line e) = Some e"
proof -
  obtain u d h where e: "e = (u, d, h)"
    by (cases e)
  have ok: "u \<noteq> []" "d \<noteq> []" "h \<noteq> []" "\<And>c. c \<in> set u \<Longrightarrow> c \<noteq> 58" "\<And>c. c \<in> set d \<Longrightarrow> c \<noteq> 58"
    "\<And>c. c \<in> set h \<Longrightarrow> \<not> isspace c" "0 \<notin> set (entry_line e)"
    using assms by (auto simp: e entry_ok_def list_all_iff entry_line_def)
  have "takeWhile (\<lambda>c. c \<noteq> 58) (u @ 58 # t) = u" "dropWhile (\<lambda>c. c \<noteq> 58) (u @ 58 # t) = 58 # t"
    "takeWhile (\<lambda>c. c \<noteq> 58) (d @ 58 # t) = d" "dropWhile (\<lambda>c. c \<noteq> 58) (d @ 58 # t) = 58 # t"
    "takeWhile (\<lambda>c. \<not> isspace c) (h @ [LF]) = h" for t
    using ok(4,5,6) isspace_LF by (auto simp: takeWhile_append dropWhile_append)
  moreover have "dropWhile isspace (h @ [LF]) = h @ [LF]"
    using ok(3,6) by (cases h) auto
  ultimately show ?thesis
    using ok(1-3) c_str_text(2) [OF ok(7)] by (simp add: sscanf_entry_def Let_def) (simp add: entry_line_def e)
qed

lemma password_hash_file:
  "list_all entry_ok es \<Longrightarrow>
     password_hash user realm (concat (map entry_line es)) = map_option (snd \<circ> snd) (find (\<lambda>(u, d, h). user = u \<and> realm = d) es)"
proof (induction es)
  case Nil
  then show ?case
    by (simp add: password_hash.simps)
next
  case (Cons e es)
  have e: "entry_ok e"
    using Cons.prems by simp
  have ne: "entry_line e \<noteq> []"
    by (cases e) (simp add: entry_line_def)
  obtain u d h where "e = (u, d, h)"
    by (cases e)
  then show ?case
    using Cons sscanf_entry_line [OF e] fgets_entry [OF e] ne by (subst password_hash.simps) (simp add: comp_def)
qed

text \<open>What a client may put into the header.\<close>

definition auth_text_ok :: "byte list \<Rightarrow> bool" where
  "auth_text_ok v \<longleftrightarrow> param_ok ([117], True, v) \<and> 0 \<notin> set v"

definition digest_params :: "byte list \<Rightarrow> byte list \<Rightarrow> byte list \<Rightarrow> byte list \<Rightarrow> byte list \<Rightarrow> param list" where
  "digest_params user realm uri nonce resp =
     [(bs ''username'', True, user), (bs ''realm'', True, realm), (bs ''uri'', True, uri), (bs ''qop'', False, bs ''auth''),
      (bs ''nc'', False, bs ''1''), (bs ''cnonce'', False, nonce), (bs ''nonce'', False, nonce), (bs ''response'', False, resp)]"

lemma header_literals:
  "bs ''Authorization: Digest username='' = bs ''Authorization: '' @ bs ''Digest'' @ 32 # bs ''username'' @ [61]"
  "bs '',realm='' = 44 # bs ''realm'' @ [61]" "bs '',uri='' = 44 # bs ''uri'' @ [61]" "bs '',qop='' = 44 # bs ''qop'' @ [61]"
  "bs '',nc=1,cnonce='' = 44 # bs ''nc'' @ 61 # bs ''1'' @ 44 # bs ''cnonce'' @ [61]"
  "bs '',nonce='' = 44 # bs ''nonce'' @ [61]" "bs '',response='' = 44 # bs ''response'' @ [61]"
  by code_simp+

lemma create_header_params:
  "mg_http_create_digest_auth_header junk now buf buf_len meth uri realm user passwd =
     (let nonce = hexx (now mod 2 ^ 32);
          resp = c_str (mg_mkmd5resp junk meth uri (c_str (cs_md5 junk [user, [58], realm, [58], passwd])) nonce (bs ''1'') nonce (bs ''auth''))
      in snprintf_text buf buf_len (bs ''Authorization: '' @ (bs ''Digest'' @ 32 # params_text (digest_params user realm uri nonce resp)) @ [CR, LF]))"
  by (simp add: mg_http_create_digest_auth_header_def Let_def header_literals digest_params_def param_text_def value_text_def cs_md5_text(1))

lemma lower_hex_param: "list_all lower_hex v \<Longrightarrow> v \<noteq> [] \<Longrightarrow> param_name_ok n \<Longrightarrow> param_ok (n, False, v)"
proof -
  assume v: "list_all lower_hex v" "v \<noteq> []" "param_name_ok n"
  have "hd v \<in> set v" "List.last v \<in> set v"
    using v(2) by simp_all
  moreover have "\<And>c. c \<in> set v \<Longrightarrow> c \<notin> {32, 34, 39, 44, 59}"
    using v(1) lower_hex_not by (auto simp: list_all_iff)
  ultimately show ?thesis
    using v(2,3) by (auto simp: param_ok_def)
qed

lemma digest_params_ok:
  assumes "auth_text_ok user" "auth_text_ok realm" "auth_text_ok uri" "list_all lower_hex nonce" "nonce \<noteq> []" "list_all lower_hex resp" "resp \<noteq> []"
  shows "list_all param_ok (digest_params user realm uri nonce resp)" "distinct (map fst (digest_params user realm uri nonce resp))"
proof -
  have n: "list_all param_name_ok [bs ''username'', bs ''realm'', bs ''uri'', bs ''cnonce'', bs ''nonce'', bs ''response'']"
    "param_ok (bs ''qop'', False, bs ''auth'')" "param_ok (bs ''nc'', False, bs ''1'')"
    by code_simp+
  have q: "auth_text_ok v \<Longrightarrow> param_name_ok m \<Longrightarrow> param_ok (m, True, v)" for v m
    by (simp add: auth_text_ok_def param_ok_def)
  show "list_all param_ok (digest_params user realm uri nonce resp)"
    using n assms q lower_hex_param by (simp add: digest_params_def)
  show "distinct (map fst (digest_params user realm uri nonce resp))"
    unfolding digest_params_def list.map fst_conv by code_simp
qed

lemma ncasecmp_refl: "mg_ncasecmp s s n = 0"
  by (induction n arbitrary: s) (simp_all add: Let_def split: prod.splits)

text \<open>A text that fits is in the buffer with its NUL.\<close>

lemma snprintf_fits:
  "length s < buf_len \<Longrightarrow> snprintf_text buf buf_len s = (length s, s @ 0 # drop (Suc (length s)) buf)"
  "length s < buf_len \<Longrightarrow> 0 \<notin> set s \<Longrightarrow> snprintf_text buf buf_len s = (n, b) \<Longrightarrow> c_str b = s"
  by (auto simp: snprintf_text_def c_str_def Let_def takeWhile_append)

lemma header_no_nul:
  assumes "0 \<notin> set (user @ realm @ uri @ nonce @ resp)"
  shows "0 \<notin> set (bs ''Authorization: '' @ (bs ''Digest'' @ 32 # params_text (digest_params user realm uri nonce resp)) @ [CR, LF])"
proof -
  have l: "0 \<notin> set (bs ''Authorization: '' @ bs ''Digest'' @ bs ''username'' @ bs ''realm'' @ bs ''uri'' @ bs ''qop'' @ bs ''nc'' @ bs ''cnonce'' @ bs ''nonce''
      @ bs ''response'' @ bs ''auth'' @ bs ''1'')"
    by code_simp
  then show ?thesis
    using assms by (simp add: digest_params_def param_text_def value_text_def)
qed

text \<open>
  C18. The header that \<open>mg_http_create_digest_auth_header\<close> prints for a user, a password and a request is accepted by
  \<open>mg_http_check_digest_auth\<close> for the same request within an hour when the first entry of the
  password file for the user and the domain holds the hash of user, domain and password, and is refused when the
  file has no such entry or when its hash leads to another response. The header fits into its buffer; the user has less than
  50 bytes and the target less than 200, which is the room that the check has for them, and they are not empty; user, domain and target have
  no NUL, no double quote, no backslash, no equals sign together with a space or a comma, and no comma or semicolon at the end (\<open>auth_text_ok\<close>); every line of the password file is
  an entry of at most 127 bytes.
\<close>

theorem digest_auth_correct:
  assumes vals: "auth_text_ok user" "auth_text_ok realm" "auth_text_ok uri" "user \<noteq> []" "length user < 50" "uri \<noteq> []" "length uri < 200"
    and hdr: "http_header hm (bs ''Authorization'') = Some hdr"
      "mg_http_create_digest_auth_header junk t buf buf_len (hq_method hm) uri realm user passwd = (n, buf')" "n < buf_len"
      "c_str buf' = bs ''Authorization: '' @ hdr @ [CR, LF]"
    and uri: "digest_target hm = uri" and time: "t \<le> t'" "t' < t + 3600" "t' < 2 ^ 32"
    and es: "list_all entry_ok es"
  defines "resp h \<equiv> c_str (mg_mkmd5resp junk (hq_method hm) uri h (hexx t) (bs ''1'') (hexx t) (bs ''auth''))"
    and "ha1 \<equiv> c_str (cs_md5 junk [user, [58], realm, [58], passwd])"
  shows "mg_http_check_digest_auth junk (of_nat t') after hm realm (Some (concat (map entry_line es))) \<longleftrightarrow>
     (case find (\<lambda>(u, d, h). user = u \<and> realm = d) es of None \<Rightarrow> False | Some (u, d, h) \<Rightarrow> h = ha1 \<or> mg_casecmp (resp ha1) (resp h) = 0)"
proof -
  let ?r = "resp ha1" and ?n = "hexx t"
  have nonce: "list_all lower_hex ?n" "?n \<noteq> []" "length ?n \<le> 8"
    using hexx_digits hexx_not_Nil length_hexx [of t 8] time by auto
  have rsp: "list_all lower_hex ?r" "?r \<noteq> []" "length ?r = 32"
    using cs_md5_text(2,3) by (auto simp: resp_def mg_mkmd5resp_def Let_def simp flip: length_greater_0_conv)
  let ?ps = "digest_params user realm uri ?n ?r"
  have zero: "0 \<notin> set user" "0 \<notin> set realm" "0 \<notin> set uri" "0 \<notin> set ?n" "0 \<notin> set ?r"
    using vals(1-3) nonce(1) rsp(1) lower_hex_not [of 0] by (auto simp: auth_text_ok_def list_all_iff)
  let ?s = "bs ''Authorization: '' @ (bs ''Digest'' @ 32 # params_text ?ps) @ [CR, LF]"
  have pr: "snprintf_text buf buf_len ?s = (n, buf')"
    using hdr(2) time by (simp add: create_header_params Let_def resp_def ha1_def)
  then have "length ?s < buf_len"
    using hdr(3) by (simp add: snprintf_text_def)
  moreover have "0 \<notin> set ?s"
    using zero by (intro header_no_nul) simp
  ultimately have "c_str buf' = ?s"
    using snprintf_fits(2) pr by blast
  then have h: "hdr = bs ''Digest'' @ 32 # params_text ?ps"
    using hdr(4) by simp
  note ok = digest_params_ok [OF vals(1-3) nonce(1,2) rsp(1,2)]
  have d: "61 \<notin> set (bs ''Digest'')" "list_all (\<lambda>n. 32 \<notin> set n) [bs ''username'', bs ''cnonce'', bs ''response'', bs ''uri'', bs ''qop'', bs ''nc'', bs ''nonce'']"
    by code_simp+
  have par: "mg_http_parse_header hdr after n sz = (length v, v @ [0])" if "(n, q, v) \<in> set ?ps" "length v < sz" "32 \<notin> set n" for n q v sz
    unfolding h using parse_header_param [OF ok that(1,2) d(1) that(3)] .
  have c: "c_str (bs ''auth'' @ [0]) = bs ''auth''" "c_str (bs ''1'' @ [0]) = bs ''1''"
    by code_simp+
  have age: "mg_check_nonce (of_nat t') ?n"
  proof -
    have "(of_nat t' :: u64) - of_nat t = of_nat (t' - t)"
      using time(1) by (simp add: of_nat_diff)
    moreover have "t' - t < 3600"
      using time by linarith
    ultimately show ?thesis
      using time strtoul16_hexx [of t] less_of_nat_64 [of "t' - t" 3600] by (simp add: mg_check_nonce_def)
  qed
  have mem: "(bs ''username'', True, user) \<in> set ?ps" "(bs ''cnonce'', False, ?n) \<in> set ?ps" "(bs ''response'', False, ?r) \<in> set ?ps"
    "(bs ''uri'', True, uri) \<in> set ?ps" "(bs ''qop'', False, bs ''auth'') \<in> set ?ps" "(bs ''nc'', False, bs ''1'') \<in> set ?ps"
    "(bs ''nonce'', False, ?n) \<in> set ?ps"
    by (simp_all add: digest_params_def)
  have p: "mg_http_parse_header hdr after (bs ''username'') 50 = (length user, user @ [0])"
    "mg_http_parse_header hdr after (bs ''cnonce'') 33 = (length ?n, ?n @ [0])"
    "mg_http_parse_header hdr after (bs ''response'') 40 = (length ?r, ?r @ [0])"
    "mg_http_parse_header hdr after (bs ''uri'') 200 = (length uri, uri @ [0])"
    "mg_http_parse_header hdr after (bs ''qop'') 20 = (length (bs ''auth''), bs ''auth'' @ [0])"
    "mg_http_parse_header hdr after (bs ''nc'') 20 = (length (bs ''1''), bs ''1'' @ [0])"
    "mg_http_parse_header hdr after (bs ''nonce'') 30 = (length ?n, ?n @ [0])"
    using par [OF mem(1), of 50] par [OF mem(2), of 33] par [OF mem(3), of 40] par [OF mem(4), of 200] par [OF mem(5), of 20]
      par [OF mem(6), of 20] par [OF mem(7), of 30] vals(5,7) nonce(3) rsp(3) d(2) by simp_all
  show ?thesis
    unfolding mg_http_check_digest_auth_def hdr(1) option.case prod.case p Let_def c_str_text(1) [OF zero(1)] c_str_text(1) [OF zero(4)]
      c_str_text(1) [OF zero(5)] c password_hash_file [OF es] uri
    using age vals(4,6) nonce(2) rsp(2)
    by (auto simp: resp_def mg_casecmp_def ncasecmp_refl split: option.splits)
qed

text \<open>A user, a realm and a password for which the check is run.\<close>

lemma cs_md5_entry: "auth_entry = (bs ''bob'', bs ''d'', c_str (cs_md5 junk ps)) \<Longrightarrow> entry_ok auth_entry"
proof -
  have h: "list_all lower_hex (c_str (cs_md5 junk ps))" "length (c_str (cs_md5 junk ps)) = 32"
    by (rule cs_md5_text)+
  have "list_all (\<lambda>c. c \<noteq> 0 \<and> c \<noteq> LF \<and> c \<noteq> 58) (bs ''bob'' @ bs ''d'')" "bs ''bob'' \<noteq> []" "bs ''d'' \<noteq> []"
    by code_simp+
  moreover have "list_all (\<lambda>c. c \<noteq> 0 \<and> \<not> isspace c) (c_str (cs_md5 junk ps))"
    using h(1) lower_hex_not by (fastforce simp: list_all_iff)
  moreover have "c_str (cs_md5 junk ps) \<noteq> []"
    using h(2) by auto
  ultimately show "auth_entry = (bs ''bob'', bs ''d'', c_str (cs_md5 junk ps)) \<Longrightarrow> entry_ok auth_entry"
    using h(2) by (simp add: entry_ok_def entry_line_def)
qed

theorem digest_auth_correct_witness:
  "let junk = \<lparr>md5_buf = (1, 2, 3, 4), md5_bits = (5, 6), md5_in = replicate 64 7\<rparr>;
       hdr = takeWhile (\<lambda>c. c \<noteq> CR) (drop 15 (snd (mg_http_create_digest_auth_header junk 1000 (replicate 300 7) 300 (bs ''GET'') (bs ''/x'') (bs ''d'') (bs ''bob'') (bs ''pw''))));
       hm = http_msg0\<lparr>hq_method := bs ''GET'', hq_uri := bs ''/x'', hq_headers := [(bs ''Authorization'', hdr)]\<rparr>
   in mg_http_check_digest_auth junk 1010 [CR, LF] hm (bs ''d'')
        (Some (entry_line (bs ''bob'', bs ''d'', c_str (cs_md5 junk [bs ''bob'', [58], bs ''d'', [58], bs ''pw'']))))"
proof -
  define junk :: md5_ctx where "junk = \<lparr>md5_buf = (1, 2, 3, 4), md5_bits = (5, 6), md5_in = replicate 64 7\<rparr>"
  define ha1 where "ha1 = c_str (cs_md5 junk [bs ''bob'', [58], bs ''d'', [58], bs ''pw''])"
  define n where "n = hexx 1000"
  define resp where "resp = c_str (mg_mkmd5resp junk (bs ''GET'') (bs ''/x'') ha1 n (bs ''1'') n (bs ''auth''))"
  define hdr where "hdr = bs ''Digest'' @ 32 # params_text (digest_params (bs ''bob'') (bs ''d'') (bs ''/x'') n resp)"
  let ?s = "bs ''Authorization: '' @ hdr @ [CR, LF]"
  have cr: "mg_http_create_digest_auth_header junk 1000 (replicate 300 7) 300 (bs ''GET'') (bs ''/x'') (bs ''d'') (bs ''bob'') (bs ''pw'') = snprintf_text (replicate 300 7) 300 ?s"
    by (simp add: create_header_params Let_def hdr_def resp_def n_def ha1_def)
  have lit: "CR \<notin> set (bs ''Digest'' @ 32 # bs ''username=bob,realm=d,uri=/x,qop=auth,nc=1,cnonce=,nonce=,response='')"
    "auth_text_ok (bs ''bob'')" "auth_text_ok (bs ''d'')" "auth_text_ok (bs ''/x'')" "bs ''bob'' \<noteq> []" "bs ''/x'' \<noteq> []"
    by code_simp+
  have lh: "list_all lower_hex n" "list_all lower_hex resp"
    using hexx_digits cs_md5_text(3) by (auto simp: n_def resp_def mg_mkmd5resp_def Let_def)
  then have "CR \<notin> set n" "CR \<notin> set resp"
    using lower_hex_not isspace_def by (fastforce simp: list_all_iff)+
  moreover have "CR \<notin> set (concat (map fst (digest_params (bs ''bob'') (bs ''d'') (bs ''/x'') n resp)))"
    "CR \<notin> set (bs ''bob'' @ bs ''d'' @ bs ''/x'' @ bs ''auth'' @ bs ''1'')"
    unfolding digest_params_def list.map fst_conv by code_simp+
  ultimately have "CR \<notin> set hdr"
    using lit(1) by (simp add: hdr_def digest_params_def param_text_def value_text_def)
  then have hd: "takeWhile (\<lambda>c. c \<noteq> CR) (drop 15 (?s @ t)) = hdr" for t
    by (simp add: takeWhile_append)
  have "length n \<le> 8" "length resp = 32"
    using length_hexx [of 1000 8] cs_md5_text(2) by (simp_all add: n_def resp_def mg_mkmd5resp_def Let_def)
  then have fits: "length ?s < 300"
    by (simp add: hdr_def digest_params_def param_text_def value_text_def)
  define buf' where "buf' = ?s @ 0 # drop (Suc (length ?s)) (replicate 300 7)"
  have cr': "mg_http_create_digest_auth_header junk 1000 (replicate 300 7) 300 (bs ''GET'') (bs ''/x'') (bs ''d'') (bs ''bob'') (bs ''pw'') = (length ?s, buf')"
    unfolding cr buf'_def using fits by (rule snprintf_fits(1))
  have "0 \<notin> set n" "0 \<notin> set resp"
    using lh lower_hex_not [of 0] by (auto simp: list_all_iff)
  moreover have "0 \<notin> set (bs ''bob'' @ bs ''d'' @ bs ''/x'')"
    by code_simp
  ultimately have "0 \<notin> set ?s"
    unfolding hdr_def by (intro header_no_nul) simp
  then have cb: "c_str buf' = ?s"
    using snprintf_fits(2) [OF fits] cr cr' by metis
  define hm where "hm = http_msg0\<lparr>hq_method := bs ''GET'', hq_uri := bs ''/x'', hq_headers := [(bs ''Authorization'', hdr)]\<rparr>"
  have hm: "http_header hm (bs ''Authorization'') = Some hdr" "hq_method hm = bs ''GET''" "digest_target hm = bs ''/x''"
    by (simp_all add: hm_def http_header_def digest_target_def http_msg0_def ncasecmp_refl del: mg_ncasecmp.simps)
  have "mg_http_check_digest_auth junk (of_nat 1010) [CR, LF] hm (bs ''d'') (Some (concat (map entry_line [(bs ''bob'', bs ''d'', ha1)])))"
    using digest_auth_correct [of "bs ''bob''" "bs ''d''" "bs ''/x''" hm hdr junk 1000 "replicate 300 7" 300 "bs ''pw''" "length ?s" buf' 1010 "[(bs ''bob'', bs ''d'', ha1)]" "[CR, LF]"]
      lit(2-6) hm cr' fits cb cs_md5_entry by (simp add: ha1_def)
  then show ?thesis
    unfolding Let_def junk_def [symmetric] cr' snd_conv buf'_def hd ha1_def [symmetric] hm_def [symmetric] by simp
qed

end
