(* ===== verification/Http_Server.thy ===== *)
theory Http_Server
  imports Http_Auth "HOL-Library.Sublist"
begin

text \<open>
  The receiving side of an HTTP connection, \<open>mg_http_handler\<close> in \<open>mongoose/src/http.c\<close>: which events the bytes that
  arrive raise, for which handler, and what stays in the receive buffer. The callbacks of the user are given by the log of events
  and by the choice to delete chunks; they do not touch the receive buffer.
\<close>

section \<open>The handler\<close>

definition MG_MAX_HTTP_REQUEST_SIZE :: nat where
  "MG_MAX_HTTP_REQUEST_SIZE = 8192"

text \<open>An event with the message and the bytes of its body.\<close>

datatype http_event =
    MG_EV_HTTP_REQUEST http_msg "byte list"
  | MG_EV_HTTP_REPLY http_msg "byte list"
  | MG_EV_HTTP_CHUNK http_msg "byte list"
  | MG_EV_WEBSOCKET_HANDSHAKE http_msg

text \<open>
  \<open>hc_listener\<close> tells that a listening connection accepted this one (\<open>nc->listener != NULL\<close>), so that requests are
  expected; \<open>hc_websocket\<close> that it has gone over to \<open>mg_websocket_handler\<close>. The server registers no
  endpoints, so every event goes to the handler of the connection.
\<close>

record http_conn =
  hc_recv_mbuf :: "byte list"
  hc_listener :: bool
  hc_close_immediately :: bool
  hc_websocket :: bool
  hc_chunk_body_len :: nat
  hc_events :: "http_event list"

definition body_bytes :: "byte list \<Rightarrow> int \<Rightarrow> http_msg \<Rightarrow> byte list" where
  "body_bytes buf req_len hm = take (unat (hq_body_len hm)) (drop (nat req_len) buf)"

definition add_event :: "http_event \<Rightarrow> http_conn \<Rightarrow> http_conn" where
  "add_event e c = c\<lparr>hc_events := hc_events c @ [e]\<rparr>"

definition mg_http_call_endpoint_handler :: "http_msg \<Rightarrow> byte list \<Rightarrow> http_conn \<Rightarrow> http_conn" where
  "mg_http_call_endpoint_handler hm body c =
     add_event (if hc_listener c then MG_EV_HTTP_REQUEST hm body else MG_EV_HTTP_REPLY hm body) c"

text \<open>The call of \<open>mg_handle_chunked\<close>, which changes the message and the buffer behind the head; None is an access outside of the buffer.\<close>

definition receive_chunks :: "(chunked \<Rightarrow> bool) \<Rightarrow> int \<Rightarrow> http_msg \<Rightarrow> http_conn \<Rightarrow> (http_msg \<times> http_conn) option" where
  "receive_chunks delete_chunk req_len hm c =
     (let n = nat req_len; buf = drop n (hc_recv_mbuf c) in
      case mg_handle_chunked delete_chunk
          \<lparr>ck_buf = buf, ck_body_len = hc_chunk_body_len c, ck_hm_body_len = hq_body_len hm, ck_message_len = hq_message_len hm\<rparr> of
        None \<Rightarrow> None
      | Some (body_len, st) \<Rightarrow>
          let hm = hm\<lparr>hq_body_len := ck_hm_body_len st, hq_message_len := ck_message_len st\<rparr>;
              c1 = c\<lparr>hc_recv_mbuf := take n (hc_recv_mbuf c) @ ck_buf st, hc_chunk_body_len := ck_body_len st\<rparr>
          in Some (hm, if length (ck_buf st) < length buf then add_event (MG_EV_HTTP_CHUNK hm (take body_len (ck_buf st))) c1 else c1))"

definition is_chunked :: "http_msg \<Rightarrow> bool" where
  "is_chunked hm \<longleftrightarrow> (case http_header hm (bs ''Transfer-Encoding'') of None \<Rightarrow> False | Some s \<Rightarrow> mg_vcasecmp s (bs ''chunked'') = 0)"

text \<open>\<open>mg_http_handler\<close> for \<open>MG_EV_RECV\<close>, after the bytes were appended to the buffer.\<close>

definition http_recv :: "(chunked \<Rightarrow> bool) \<Rightarrow> http_conn \<Rightarrow> http_conn option" where
  "http_recv delete_chunk c =
     (let (req_len, hm) = mg_parse_http (hc_recv_mbuf c) (hc_listener c) in
      case (if req_len > 0 \<and> is_chunked hm then receive_chunks delete_chunk req_len hm c else Some (hm, c)) of
        None \<Rightarrow> None
      | Some (hm, c) \<Rightarrow>
          let io = hc_recv_mbuf c in
          Some (if req_len < 0 \<or> req_len = 0 \<and> length io \<ge> MG_MAX_HTTP_REQUEST_SIZE then c\<lparr>hc_close_immediately := True\<rparr>
                else if req_len = 0 then c
                else if \<not> hc_listener c \<and> http_header hm (bs ''Sec-WebSocket-Accept'') \<noteq> None
                      \<or> hc_listener c \<and> http_header hm (bs ''Sec-WebSocket-Key'') \<noteq> None
                  then add_event (MG_EV_WEBSOCKET_HANDSHAKE hm) (c\<lparr>hc_recv_mbuf := drop (nat req_len) io, hc_websocket := True\<rparr>)
                else if hq_message_len hm \<le> of_nat (length io)
                  then (mg_http_call_endpoint_handler hm (body_bytes io req_len hm) c)\<lparr>hc_recv_mbuf := drop (unat (hq_message_len hm)) io\<rparr>
                else c))"

text \<open>\<open>mg_http_handler\<close> for \<open>MG_EV_CLOSE\<close>: a message without a length ends with the connection.\<close>

definition http_close :: "http_conn \<Rightarrow> http_conn" where
  "http_close c =
     (let io = hc_recv_mbuf c; (req_len, hm) = mg_parse_http io (hc_listener c) in
      if io \<noteq> [] \<and> req_len > 0
      then let hm = hm\<lparr>hq_message_len := of_nat (length io), hq_body_len := of_nat (length io - nat req_len)\<rparr>
           in mg_http_call_endpoint_handler hm (body_bytes io req_len hm) c
      else c)"

text \<open>Pieces that arrive one after the other; nothing is read from a connection that is to be closed or that is a websocket.\<close>

fun http_receive :: "(chunked \<Rightarrow> bool) \<Rightarrow> http_conn \<Rightarrow> byte list list \<Rightarrow> http_conn option" where
  "http_receive delete_chunk c [] = Some c"
| "http_receive delete_chunk c (x # xs) =
     (if hc_close_immediately c \<or> hc_websocket c then Some c
      else case http_recv delete_chunk (c\<lparr>hc_recv_mbuf := hc_recv_mbuf c @ x\<rparr>) of
        None \<Rightarrow> None | Some c \<Rightarrow> http_receive delete_chunk c xs)"

section \<open>Requests that arrive in pieces\<close>

lemma request_len_prefix:
  "request_len i (p @ q) = r \<Longrightarrow> int (i + length p) < r \<Longrightarrow> request_len i p = 0"
proof (induction p arbitrary: i)
  case Nil
  then show ?case
    by (simp add: request_len.simps)
next
  case (Cons b p)
  show ?case
  proof (cases "\<not> isprint b \<and> b \<noteq> CR \<and> b \<noteq> LF \<and> b < 128")
    case True
    then show ?thesis
      using Cons.prems by (simp add: request_len.simps)
  next
    case False
    have e: "request_len i (b # s) = (if b = LF \<and> take 1 s = [LF] then int i + 2
       else if b = LF \<and> take 2 s = [CR, LF] then int i + 3 else request_len (Suc i) s)" for s
      using False by (auto simp: request_len.simps(2))
    have z: "request_len (Suc i) [] = 0" "request_len (Suc i) [CR] = 0"
      by (simp_all add: request_len.simps isprint_def)
    consider "b = LF" "take 1 (p @ q) = [LF]" | "b = LF" "take 1 (p @ q) \<noteq> [LF]" "take 2 (p @ q) = [CR, LF]"
      | "request_len (Suc i) (p @ q) = r" "\<not> (b = LF \<and> take 1 (p @ q) = [LF])" "\<not> (b = LF \<and> take 2 (p @ q) = [CR, LF])"
      using Cons.prems(1) e [of "p @ q"] by (auto split: if_splits)
    then show ?thesis
    proof cases
      case 1
      then have "p = []"
        using Cons.prems e [of "p @ q"] by simp
      then show ?thesis
        using e [of "[]"] z(1) by simp
    next
      case 2
      then have "length p \<le> 1"
        using Cons.prems e [of "p @ q"] by simp
      then have "p = [] \<or> p = [CR]"
        using 2(3) by (cases p) auto
      then show ?thesis
        using e [of p] z by auto
    next
      case 3
      then have "request_len (Suc i) p = 0"
        using Cons.IH [OF 3(1)] Cons.prems(2) by simp
      moreover have "take 1 p = [LF] \<Longrightarrow> take 1 (p @ q) = [LF]" "take 2 p = [CR, LF] \<Longrightarrow> take 2 (p @ q) = [CR, LF]"
        by (cases p; cases "tl p"; auto)+
      ultimately show ?thesis
        using e [of p] 3(2,3) by auto
    qed
  qed
qed

lemma parse_http_partial:
  assumes "request_ok r" "strict_prefix p (request_head r)"
  shows "fst (mg_parse_http p True) = 0"
proof -
  obtain q where q: "request_head r = p @ q" "q \<noteq> []"
    using assms(2) by (auto simp: strict_prefix_def prefix_def)
  have "request_len 0 p = 0"
    using request_len_prefix [of 0 p q] mg_http_get_request_len_head [OF assms(1), of "[]"] q by (simp add: mg_http_get_request_len_def)
  then show ?thesis
    by (simp add: mg_parse_http_def mg_http_get_request_len_def)
qed

text \<open>A request for which the handler takes no other way: it is neither chunked nor a websocket handshake, and its head fits into the limit.\<close>

definition plain_request :: "request \<Rightarrow> bool" where
  "plain_request r \<longleftrightarrow> request_ok r \<and> http_header (parsed_request r) (bs ''Transfer-Encoding'') = None
     \<and> http_header (parsed_request r) (bs ''Sec-WebSocket-Key'') = None
     \<and> length (request_head r) \<le> MG_MAX_HTTP_REQUEST_SIZE"

definition request_event :: "request \<Rightarrow> http_event" where
  "request_event r = MG_EV_HTTP_REQUEST (parsed_request r) (rq_body r)"

lemma less_8192_64: "a \<le> MG_MAX_HTTP_REQUEST_SIZE \<Longrightarrow> b < 2 ^ 63 \<Longrightarrow> a + b < 2 ^ 64"
  by (simp add: MG_MAX_HTTP_REQUEST_SIZE_def)

lemma recv_whole_request:
  assumes "plain_request r" "hc_listener c" "hc_recv_mbuf c = request_head r @ rq_body r @ rest" "length (rq_body r @ rest) < 2 ^ 63"
  shows "http_recv f c = Some (c\<lparr>hc_recv_mbuf := rest, hc_events := hc_events c @ [request_event r]\<rparr>)"
proof -
  let ?h = "length (request_head r)" and ?b = "length (rq_body r)"
  have ok: "request_ok r" and head: "request_head r \<noteq> []"
    using assms(1) by (auto simp: plain_request_def request_head_def)
  have p: "mg_parse_http (hc_recv_mbuf c) True = (int ?h, parsed_request r)"
    using parse_request_head [OF ok] assms(3) by simp
  have l: "?h + ?b < 2 ^ 64" "?h + length (rq_body r @ rest) < 2 ^ 64" "?b < 2 ^ 64"
    using assms(1,4) by (simp_all add: plain_request_def MG_MAX_HTTP_REQUEST_SIZE_def)
  have m: "hq_message_len (parsed_request r) = of_nat (?h + ?b)" "hq_body_len (parsed_request r) = of_nat ?b"
    by (simp_all add: parsed_request_def)
  have "\<not> (of_nat (?h + length (rq_body r @ rest)) :: u64) < of_nat (?h + ?b)"
    using less_of_nat_64 [OF l(2,1)] by simp
  then have "hq_message_len (parsed_request r) \<le> of_nat (length (hc_recv_mbuf c))"
    unfolding m(1) using assms(3) by (simp add: not_less)
  moreover have "body_bytes (hc_recv_mbuf c) (int ?h) (parsed_request r) = rq_body r" "drop (unat (hq_message_len (parsed_request r))) (hc_recv_mbuf c) = rest"
    using unat_of_nat_64 [OF l(1)] unat_of_nat_64 [OF l(3)] by (simp_all add: body_bytes_def m assms(3) del: of_nat_add)
  ultimately show ?thesis
    using assms(1,2) p head
    by (simp add: http_recv_def is_chunked_def plain_request_def mg_http_call_endpoint_handler_def add_event_def request_event_def)
qed

lemma recv_partial_request:
  assumes "plain_request r" "hc_listener c" "strict_prefix (hc_recv_mbuf c) (request_head r @ rq_body r)" "length (rq_body r) < 2 ^ 63"
  shows "http_recv f c = Some c"
proof -
  let ?h = "length (request_head r)" and ?b = "length (rq_body r)"
  have ok: "request_ok r" and size: "?h \<le> MG_MAX_HTTP_REQUEST_SIZE"
    using assms(1) by (auto simp: plain_request_def)
  show ?thesis
  proof (cases "strict_prefix (hc_recv_mbuf c) (request_head r)")
    case True
    then have "fst (mg_parse_http (hc_recv_mbuf c) True) = 0" "length (hc_recv_mbuf c) < MG_MAX_HTTP_REQUEST_SIZE"
      using parse_http_partial [OF ok] prefix_length_less size by force+
    then show ?thesis
      using assms(2) by (cases "mg_parse_http (hc_recv_mbuf c) True") (simp add: http_recv_def)
  next
    case False
    then obtain d where d: "hc_recv_mbuf c = request_head r @ d" "strict_prefix d (rq_body r)"
      using assms(3) by (auto simp: strict_prefix_def prefix_append)
    have l: "?h + ?b < 2 ^ 64" "?h + length d < 2 ^ 64" "length d < ?b"
      using assms(4) size prefix_length_less [OF d(2)] by (simp_all add: MG_MAX_HTTP_REQUEST_SIZE_def)
    then have "\<not> (of_nat (?h + ?b) :: u64) \<le> of_nat (?h + length d)"
      using less_of_nat_64 [OF l(2,1)] by simp
    then have "\<not> hq_message_len (parsed_request r) \<le> of_nat (length (hc_recv_mbuf c))" "request_head r \<noteq> []"
      by (simp_all add: d(1) parsed_request_def) (simp add: request_head_def)
    then show ?thesis
      using assms(1,2) parse_request_head [OF ok, of d, folded d(1)] by (simp add: http_recv_def is_chunked_def plain_request_def)
  qed
qed

lemma receive_request:
  assumes "plain_request r" "hc_listener c" "\<not> hc_close_immediately c" "\<not> hc_websocket c" "length (rq_body r) < 2 ^ 63"
    and "xs \<noteq> []" "list_all (\<lambda>x. x \<noteq> []) xs" "hc_recv_mbuf c @ concat xs = request_head r @ rq_body r"
  shows "http_receive f c xs = Some (c\<lparr>hc_recv_mbuf := [], hc_events := hc_events c @ [request_event r]\<rparr>)"
  using assms
proof (induction xs arbitrary: c)
  case (Cons x xs)
  let ?c = "c\<lparr>hc_recv_mbuf := hc_recv_mbuf c @ x\<rparr>"
  show ?case
  proof (cases "xs = []")
    case True
    then have "http_recv f ?c = Some (?c\<lparr>hc_recv_mbuf := [], hc_events := hc_events c @ [request_event r]\<rparr>)"
      using recv_whole_request [of r ?c "[]" f] Cons.prems by simp
    then show ?thesis
      using Cons.prems(3,4) True by simp
  next
    case False
    then have "concat xs \<noteq> []"
      using Cons.prems(7) by (cases xs) auto
    moreover have "request_head r @ rq_body r = hc_recv_mbuf ?c @ concat xs"
      using Cons.prems(8) by simp
    ultimately have "strict_prefix (hc_recv_mbuf ?c) (request_head r @ rq_body r)"
      by (auto simp: strict_prefix_def)
    then have "http_recv f ?c = Some ?c"
      using Cons.prems by (intro recv_partial_request) auto
    then show ?thesis
      using Cons.IH [of ?c] Cons.prems False by simp
  qed
qed simp

lemma http_receive_append:
  "http_receive f c (xs @ ys) = (case http_receive f c xs of None \<Rightarrow> None | Some c' \<Rightarrow> http_receive f c' ys)"
proof (induction xs arbitrary: c)
  case (Cons x xs)
  have "http_receive f c ys = Some c" if "hc_close_immediately c \<or> hc_websocket c" for c
    using that by (cases ys) auto
  with Cons show ?case
    by (auto split: option.splits)
qed simp

text \<open>
  C16. Plain requests that come in over a listening connection, each in any number of pieces of any size, raise exactly one
  \<open>MG_EV_HTTP_REQUEST\<close> each, in order, with the method, target and headers that were sent and with exactly the bytes of
  the body; nothing is left in the buffer, and the connection is not closed. A plain request is a well-formed one without the headers
  \<open>Transfer-Encoding\<close> and \<open>Sec-WebSocket-Key\<close> whose head has at most 8192 bytes: for a chunked request the handler raises other
  events and leaves bytes in the buffer, a websocket key changes the connection, and a head without its end in the first 8192 bytes
  closes it. The connection is not closing and no websocket, nothing is in the buffer before, and no piece has bytes of two requests.
\<close>

theorem http_requests_delivered:
  assumes "hc_listener c" "\<not> hc_close_immediately c" "\<not> hc_websocket c" "hc_recv_mbuf c = []"
    and "list_all (\<lambda>(r, xs). plain_request r \<and> length (rq_body r) < 2 ^ 63 \<and> list_all (\<lambda>x. x \<noteq> []) xs \<and> concat xs = request_head r @ rq_body r) rs"
  shows "http_receive delete_chunk c (concat (map snd rs)) =
     Some (c\<lparr>hc_events := hc_events c @ map (\<lambda>(r, xs). MG_EV_HTTP_REQUEST (parsed_request r) (rq_body r)) rs\<rparr>)"
  using assms
proof (induction rs arbitrary: c)
  case (Cons rx rs)
  obtain r xs where rx: "rx = (r, xs)"
    by (cases rx)
  let ?c = "c\<lparr>hc_recv_mbuf := [], hc_events := hc_events c @ [request_event r]\<rparr>"
  have "xs \<noteq> []"
    using Cons.prems(5) by (auto simp: rx request_head_def)
  then have "http_receive delete_chunk c xs = Some ?c"
    using Cons.prems by (intro receive_request) (auto simp: rx)
  moreover have "http_receive delete_chunk ?c (concat (map snd rs)) =
     Some (?c\<lparr>hc_events := hc_events ?c @ map (\<lambda>(r, xs). MG_EV_HTTP_REQUEST (parsed_request r) (rq_body r)) rs\<rparr>)"
    using Cons.prems by (intro Cons.IH) auto
  ultimately show ?case
    using Cons.prems(4) by (simp add: rx http_receive_append request_event_def)
qed simp

text \<open>A second request in the same piece waits in the buffer: one call of the handler takes one message.\<close>

lemma pipelined_request_waits:
  assumes "plain_request r" "hc_listener c" "\<not> hc_close_immediately c" "\<not> hc_websocket c" "hc_recv_mbuf c = []"
    and "length (rq_body r @ next_request) < 2 ^ 63"
  shows "http_receive delete_chunk c [request_head r @ rq_body r @ next_request] =
     Some (c\<lparr>hc_recv_mbuf := next_request, hc_events := hc_events c @ [request_event r]\<rparr>)"
  using recv_whole_request [of r "c\<lparr>hc_recv_mbuf := request_head r @ rq_body r @ next_request\<rparr>" next_request delete_chunk] assms by simp

theorem http_requests_delivered_witness:
  "http_receive (\<lambda>_. False) \<lparr>hc_recv_mbuf = [], hc_listener = True, hc_close_immediately = False, hc_websocket = False, hc_chunk_body_len = 0, hc_events = []\<rparr>
     [bs ''PUT / H'' @ [CR], [LF] @ bs ''Content-Length: 2'' @ [CR, LF], [CR, LF, 7], [8]] =
   Some \<lparr>hc_recv_mbuf = [], hc_listener = True, hc_close_immediately = False, hc_websocket = False, hc_chunk_body_len = 0,
     hc_events = [MG_EV_HTTP_REQUEST \<lparr>hq_message_len = 32, hq_method = bs ''PUT'', hq_uri = bs ''/'', hq_proto = bs ''H'', hq_resp_code = 0,
       hq_resp_status_msg = [], hq_query_string = None, hq_headers = [(bs ''Content-Length'', bs ''2'')], hq_body_len = 2\<rparr> [7, 8]]\<rparr>"
proof -
  define xs where "xs = [bs ''PUT / H'' @ [CR], [LF] @ bs ''Content-Length: 2'' @ [CR, LF], [CR, LF, 7], [8]]"
  define r where "r = \<lparr>rq_method = bs ''PUT'', rq_path = bs ''/'', rq_query = None, rq_proto = bs ''H'', rq_headers = [], rq_body = [7, 8]\<rparr>"
  have h: "request_text_ok r" "concat xs = request_head r @ [7, 8]" "length (request_head r) = 30" "list_all (\<lambda>x. x \<noteq> []) xs"
    "all_headers r = [(bs ''Content-Length'', bs ''2'')]" "http_header (parsed_request r) (bs ''Transfer-Encoding'') = None"
    "http_header (parsed_request r) (bs ''Sec-WebSocket-Key'') = None"
    unfolding r_def xs_def by code_simp+
  have b: "rq_body r = [7, 8]"
    by (simp add: r_def)
  have ok: "plain_request r"
    using h by (simp add: plain_request_def request_ok_def MG_MAX_HTTP_REQUEST_SIZE_def b)
  have p: "parsed_request r = \<lparr>hq_message_len = 32, hq_method = bs ''PUT'', hq_uri = bs ''/'', hq_proto = bs ''H'', hq_resp_code = 0,
       hq_resp_status_msg = [], hq_query_string = None, hq_headers = [(bs ''Content-Length'', bs ''2'')], hq_body_len = 2\<rparr>"
    using h(3,5) by (simp add: parsed_request_def b) (simp add: r_def)
  show ?thesis
    using http_requests_delivered [of "\<lparr>hc_recv_mbuf = [], hc_listener = True, hc_close_immediately = False, hc_websocket = False, hc_chunk_body_len = 0, hc_events = []\<rparr>" "[(r, xs)]" "\<lambda>_. False"]
      ok h b p by (simp add: xs_def)
qed

text \<open>
  The length that \<open>mg_handle_chunked\<close> stores does not count the head: after a chunked request, the last bytes of the message, as
  many as the head has, stay in the buffer.
\<close>

lemma chunked_request_leaves_bytes:
  "map_option hc_recv_mbuf (http_receive (\<lambda>_. False)
       \<lparr>hc_recv_mbuf = [], hc_listener = True, hc_close_immediately = False, hc_websocket = False, hc_chunk_body_len = 0, hc_events = []\<rparr>
       [bs ''PUT / H'' @ [CR, LF] @ bs ''Transfer-Encoding: chunked'' @ [CR, LF, CR, LF] @ http_chunk [7, 8] @ http_chunk []]) =
     Some (drop 2 (bs ''PUT / H'' @ [CR, LF] @ bs ''Transfer-Encoding: chunked'' @ [CR, LF, CR, LF, 7, 8]))"
  by code_simp

end
