(* ===== verification/Format.thy ===== *)
theory Format
  imports MgStr
begin

text \<open>
  The formatted output of \<open>common/str_util.c\<close>: \<open>c_strnlen\<close>, \<open>c_itoa\<close>, \<open>c_vsnprintf\<close>, which print into a buffer of a given
  size, and \<open>c_strnstr\<close>. The buffer is a list of bytes and a store outside of it is the outcome \<open>Undefined\<close>.
  The main result is that the buffer holds the printed text as far as it fits, closed by a NUL, and that the
  result is the length of the whole text.
\<close>

section \<open>Arguments and outcomes\<close>

text \<open>
  A variable argument has the type that its caller passed. \<open>int64_t\<close> and \<open>ssize_t\<close> are \<open>long\<close>, and \<open>size_t\<close> is \<open>unsigned long\<close>.
  A pointer to characters is the list of the bytes that can be read from it, or null.
\<close>

datatype va_arg = A_int u32 | A_unsigned u32 | A_long u64 | A_ulong u64 | A_ptr u64 | A_str "byte list option"

text \<open>\<open>abort\<close> on a conversion that is not supported, and undefined behaviour.\<close>

datatype fmt_error = Aborted | Undefined

type_synonym 'a fmt = "fmt_error + 'a"

definition fbind :: "'a fmt \<Rightarrow> ('a \<Rightarrow> 'b fmt) \<Rightarrow> 'b fmt" where
  "fbind r f = (case r of Inl e \<Rightarrow> Inl e | Inr x \<Rightarrow> f x)"

lemma fbind_simps [simp]: "fbind (Inl e) f = Inl e" "fbind (Inr x) f = f x"
  by (simp_all add: fbind_def)

lemma fbind_eq_Inr: "fbind r f = Inr y \<longleftrightarrow> (\<exists>x. r = Inr x \<and> f x = Inr y)"
  by (cases r) simp_all

abbreviation ascii :: "char \<Rightarrow> byte" where
  "ascii c \<equiv> of_char c"

definition INT_MAX :: int where "INT_MAX = 2147483647"

text \<open>The conversion of a \<open>size_t\<close> to \<open>int\<close>.\<close>

definition int_of_size :: "u64 \<Rightarrow> int" where
  "int_of_size n = sint (ucast n :: u32)"

section \<open>Strings\<close>

text \<open>The bytes before the NUL, at most \<open>maxlen\<close> if it is given; reading past the last byte is undefined.\<close>

fun str_chars :: "nat option \<Rightarrow> byte list \<Rightarrow> byte list fmt" where
  "str_chars (Some 0) s = Inr []"
| "str_chars maxlen [] = Inl Undefined"
| "str_chars maxlen (c # s) = (if c = 0 then Inr [] else fbind (str_chars (map_option (\<lambda>n. n - 1) maxlen) s) (\<lambda>t. Inr (c # t)))"

definition c_strnlen :: "byte list option \<Rightarrow> nat \<Rightarrow> nat fmt" where
  "c_strnlen s maxlen = (if maxlen = 0 then Inr 0 else case s of
     None \<Rightarrow> Inl Undefined | Some s \<Rightarrow> fbind (str_chars (Some maxlen) s) (\<lambda>t. Inr (length t)))"

section \<open>Output\<close>

text \<open>
  \<open>C_SNPRINTF_APPEND_CHAR\<close> on the buffer that starts at \<open>base\<close> and has room for \<open>buf_size\<close> bytes. The state is the memory and the counter \<open>i\<close>, an
  \<open>int\<close> whose overflow is undefined.
\<close>

definition C_SNPRINTF_APPEND_CHAR :: "nat \<Rightarrow> u64 \<Rightarrow> byte \<Rightarrow> byte list \<times> nat \<Rightarrow> (byte list \<times> nat) fmt" where
  "C_SNPRINTF_APPEND_CHAR base buf_size ch = (\<lambda>(mem, i).
     if INT_MAX \<le> int i then Inl Undefined
     else if int i < int_of_size buf_size then
       (if base + i < length mem then Inr (mem[base + i := ch], i + 1) else Inl Undefined)
     else Inr (mem, i + 1))"

primrec append_all :: "nat \<Rightarrow> u64 \<Rightarrow> byte list \<Rightarrow> byte list \<times> nat \<Rightarrow> (byte list \<times> nat) fmt" where
  "append_all base buf_size [] st = Inr st"
| "append_all base buf_size (c # cs) st = fbind (C_SNPRINTF_APPEND_CHAR base buf_size c st) (append_all base buf_size cs)"

section \<open>Numbers\<close>

text \<open>The digits from the lowest on, for a base of two or more.\<close>

function itoa_digits :: "nat \<Rightarrow> nat \<Rightarrow> byte list" where
  "itoa_digits base num =
     (let rem = num mod base; d = (if rem < 10 then ascii CHR ''0'' + of_nat rem else ascii CHR ''a'' + (of_nat rem - 10))
      in d # (if 1 < base \<and> 0 < num div base then itoa_digits base (num div base) else []))"
  by auto
termination
  by (relation "measure snd") (auto simp: div_less_dividend dest: div_greater_zero_iff [THEN iffD1])

function zero_pad :: "int \<Rightarrow> byte list \<Rightarrow> byte list" where
  "zero_pad field_width tmp = (if int (length tmp) < field_width \<and> length tmp < 39 then zero_pad field_width (tmp @ [ascii CHR ''0'']) else tmp)"
  by auto
termination
  by (relation "measure (\<lambda>(w, tmp). 40 - length tmp)") auto

declare itoa_digits.simps [simp del] zero_pad.simps [simp del]

text \<open>The negation of the least \<open>int64_t\<close> is undefined; \<open>tmp\<close> has forty bytes.\<close>

definition itoa_text :: "u64 \<Rightarrow> nat \<Rightarrow> nat \<Rightarrow> int \<Rightarrow> byte list fmt" where
  "itoa_text num base flags field_width =
     (if sint num = - (2 ^ 63) then Inl Undefined
      else let neg = sint num < 0;
               tmp = itoa_digits base (nat \<bar>sint num\<bar>);
               tmp = (if flags \<noteq> 0 then zero_pad field_width tmp else tmp);
               tmp = (if neg then tmp @ [ascii CHR ''-''] else tmp)
           in if length tmp \<le> 40 then Inr (rev tmp) else Inl Undefined)"

definition c_itoa :: "nat \<Rightarrow> u64 \<Rightarrow> u64 \<Rightarrow> nat \<Rightarrow> nat \<Rightarrow> int \<Rightarrow> byte list \<Rightarrow> (byte list \<times> nat) fmt" where
  "c_itoa buf buf_size num base flags field_width mem =
     fbind (itoa_text num base flags field_width) (\<lambda>out. append_all buf buf_size out (mem, 0))"

section \<open>Conversion specifications\<close>

record spec =
  sp_flags :: nat
  sp_width :: int
  sp_precision :: int
  sp_len_mod :: byte

text \<open>A field width or precision in digits; its overflow is undefined.\<close>

fun fmt_digits :: "int \<Rightarrow> byte list \<Rightarrow> (int \<times> byte list) fmt" where
  "fmt_digits n [] = Inr (n, [])"
| "fmt_digits n (c # s) =
     (if ascii CHR ''0'' \<le> c \<and> c \<le> ascii CHR ''9''
      then let n' = n * 10 + uint (c - ascii CHR ''0'') in if INT_MAX < n' then Inl Undefined else fmt_digits n' s
      else Inr (n, c # s))"

fun fmt_star :: "va_arg list \<Rightarrow> (int \<times> va_arg list) fmt" where
  "fmt_star (A_int n # ap) = Inr (sint n, ap)"
| "fmt_star _ = Inl Undefined"

definition fmt_width :: "byte list \<Rightarrow> va_arg list \<Rightarrow> (int \<times> byte list \<times> va_arg list) fmt" where
  "fmt_width s ap = fbind (fmt_digits 0 s) (\<lambda>(field_width, s).
     if fst (chop s) = ascii CHR ''*'' then fbind (fmt_star ap) (\<lambda>(n, ap). Inr (n, tl s, ap))
     else Inr (field_width, s, ap))"

definition fmt_precision :: "byte list \<Rightarrow> va_arg list \<Rightarrow> (int \<times> byte list \<times> va_arg list) fmt" where
  "fmt_precision s ap =
     (if fst (chop s) = ascii CHR ''.'' then
        if fst (chop (tl s)) = ascii CHR ''*'' then fbind (fmt_star ap) (\<lambda>(n, ap). Inr (n, tl (tl s), ap))
        else fbind (fmt_digits 0 (tl s)) (\<lambda>(n, s). Inr (n, s, ap))
      else Inr (0, s, ap))"

definition fmt_len_mod :: "byte list \<Rightarrow> byte \<times> byte list" where
  "fmt_len_mod s =
     (let c = fst (chop s) in
      if c \<in> set (map of_char ''hlLIqjzt'') then
        let (len_mod, s) = (c, tl s);
            (len_mod, s) = (if fst (chop s) = ascii CHR ''h'' then (ascii CHR ''H'', tl s) else (len_mod, s));
            (len_mod, s) = (if fst (chop s) = ascii CHR ''l'' then (ascii CHR ''q'', tl s) else (len_mod, s))
        in (len_mod, s)
      else (0, s))"

definition fmt_spec :: "byte list \<Rightarrow> va_arg list \<Rightarrow> (spec \<times> byte list \<times> va_arg list) fmt" where
  "fmt_spec s ap =
     (let flags = (if fst (chop s) = ascii CHR ''0'' then 1 else 0) in
      fbind (fmt_width s ap) (\<lambda>(field_width, s, ap).
      fbind (fmt_precision s ap) (\<lambda>(precision, s, ap).
        let (len_mod, s) = fmt_len_mod s
        in Inr (\<lparr>sp_flags = flags, sp_width = field_width, sp_precision = precision, sp_len_mod = len_mod\<rparr>, s, ap))))"

text \<open>
  The choice by the conversion character and the length modifier, with the argument that it fetches: a string, a character, a number with
  its base, converted to \<open>int64_t\<close>, or a pointer.
\<close>

datatype conversion = C_str "byte list option" | C_char byte | C_num u64 nat | C_ptr u64

definition fmt_fetch :: "byte \<Rightarrow> byte \<Rightarrow> va_arg list \<Rightarrow> (conversion \<times> va_arg list) fmt" where
  "fmt_fetch ch len_mod ap =
     (let hex = (if ch = ascii CHR ''x'' then 16 else 10) in
      if ch = ascii CHR ''s'' then (case ap of A_str s # ap \<Rightarrow> Inr (C_str s, ap) | _ \<Rightarrow> Inl Undefined)
      else if ch = ascii CHR ''c'' then (case ap of A_int n # ap \<Rightarrow> Inr (C_char (ucast n), ap) | _ \<Rightarrow> Inl Undefined)
      else if ch = ascii CHR ''d'' \<and> len_mod = 0 then (case ap of A_int n # ap \<Rightarrow> Inr (C_num (scast n) 10, ap) | _ \<Rightarrow> Inl Undefined)
      else if ch = ascii CHR ''d'' \<and> len_mod \<in> {ascii CHR ''l'', ascii CHR ''z'', ascii CHR ''q''}
        then (case ap of A_long n # ap \<Rightarrow> Inr (C_num n 10, ap) | _ \<Rightarrow> Inl Undefined)
      else if ch \<in> {ascii CHR ''x'', ascii CHR ''u''} \<and> len_mod = 0
        then (case ap of A_unsigned n # ap \<Rightarrow> Inr (C_num (ucast n) hex, ap) | _ \<Rightarrow> Inl Undefined)
      else if ch \<in> {ascii CHR ''x'', ascii CHR ''u''} \<and> len_mod \<in> {ascii CHR ''l'', ascii CHR ''z''}
        then (case ap of A_ulong n # ap \<Rightarrow> Inr (C_num n hex, ap) | _ \<Rightarrow> Inl Undefined)
      else if ch = ascii CHR ''p'' then (case ap of A_ptr p # ap \<Rightarrow> Inr (C_ptr p, ap) | _ \<Rightarrow> Inl Undefined)
      else Inl Aborted)"

text \<open>The padding of a string subtracts in \<open>size_t\<close> and is converted to \<open>int\<close>.\<close>

definition str_pad :: "spec \<Rightarrow> byte list option \<Rightarrow> int fmt" where
  "str_pad sp s =
     fbind (if 0 \<le> sp_precision sp then c_strnlen s (nat (sp_precision sp)) else Inr 0) (\<lambda>n.
     Inr (int_of_size (of_int (sp_width sp) - of_nat n)))"

definition str_body :: "spec \<Rightarrow> byte list option \<Rightarrow> byte list fmt" where
  "str_body sp s = (case s of None \<Rightarrow> Inr []
     | Some s \<Rightarrow> str_chars (if sp_precision sp \<le> 0 then None else Some (nat (sp_precision sp))) s)"

definition add_itoa :: "u64 \<Rightarrow> u64 \<Rightarrow> nat \<Rightarrow> nat \<Rightarrow> int \<Rightarrow> byte list \<times> nat \<Rightarrow> (byte list \<times> nat) fmt" where
  "add_itoa buf_size num base flags field_width = (\<lambda>(mem, i).
     fbind (c_itoa i (buf_size - of_nat i) num base flags field_width mem) (\<lambda>(mem, n).
     if INT_MAX < int (i + n) then Inl Undefined else Inr (mem, i + n)))"

definition fmt_emit :: "u64 \<Rightarrow> spec \<Rightarrow> conversion \<Rightarrow> byte list \<times> nat \<Rightarrow> (byte list \<times> nat) fmt" where
  "fmt_emit buf_size sp conv st = (case conv of
     C_str s \<Rightarrow> fbind (str_pad sp s) (\<lambda>pad. fbind (append_all 0 buf_size (replicate (nat pad) (ascii CHR '' '')) st) (\<lambda>st.
       fbind (str_body sp s) (\<lambda>t. append_all 0 buf_size t st)))
   | C_char c \<Rightarrow> C_SNPRINTF_APPEND_CHAR 0 buf_size c st
   | C_num n base \<Rightarrow> add_itoa buf_size n base (sp_flags sp) (sp_width sp) st
   | C_ptr p \<Rightarrow> fbind (append_all 0 buf_size [ascii CHR ''0'', ascii CHR ''x''] st) (add_itoa buf_size p 16 (sp_flags sp) 0))"

text \<open>The loop over the format and the function. Every turn takes at least one byte of the format.\<close>

lemma chop_tl: "snd (chop s) = tl s"
  by (cases s) simp_all

lemma length_fmt_digits: "fmt_digits n s = Inr (m, s') \<Longrightarrow> length s' \<le> length s"
  by (induction n s rule: fmt_digits.induct) (auto simp: Let_def split: if_splits)

lemma length_fmt_spec: "fmt_spec s ap = Inr (sp, s', ap') \<Longrightarrow> length s' \<le> length s"
proof -
  have w: "fmt_width s ap = Inr (n, s', ap') \<Longrightarrow> length s' \<le> length s" for n s s' ap ap'
    by (auto simp: fmt_width_def fbind_eq_Inr split: if_splits dest!: length_fmt_digits)
  have p: "fmt_precision s ap = Inr (n, s', ap') \<Longrightarrow> length s' \<le> length s" for n s s' ap ap'
    by (auto simp: fmt_precision_def fbind_eq_Inr split: if_splits dest!: length_fmt_digits)
  have l: "fmt_len_mod s = (n, s') \<Longrightarrow> length s' \<le> length s" for n s s'
    by (auto simp: fmt_len_mod_def Let_def split: if_splits)
  assume "fmt_spec s ap = Inr (sp, s', ap')"
  then obtain n1 s1 ap1 n2 s2 n3 where "fmt_width s ap = Inr (n1, s1, ap1)" "fmt_precision s1 ap1 = Inr (n2, s2, ap')" "fmt_len_mod s2 = (n3, s')"
    by (auto simp: fmt_spec_def fbind_eq_Inr Let_def split: prod.splits) (metis surj_pair)
  then show ?thesis
    using w p l by (meson le_trans)
qed

function fmt_loop :: "u64 \<Rightarrow> byte list \<Rightarrow> va_arg list \<Rightarrow> byte list \<times> nat \<Rightarrow> (byte list \<times> nat) fmt" where
  "fmt_loop buf_size s ap st =
     (case s of [] \<Rightarrow> Inr st
      | ch # s \<Rightarrow>
        if ch = 0 then Inr st
        else if ch \<noteq> ascii CHR ''%'' then fbind (C_SNPRINTF_APPEND_CHAR 0 buf_size ch st) (fmt_loop buf_size s ap)
        else case fmt_spec s ap of Inl e \<Rightarrow> Inl e
          | Inr (sp, s, ap) \<Rightarrow>
            case fmt_fetch (fst (chop s)) (sp_len_mod sp) ap of Inl e \<Rightarrow> Inl e
            | Inr (conv, ap) \<Rightarrow> fbind (fmt_emit buf_size sp conv st) (fmt_loop buf_size (tl s) ap))"
  by pat_completeness auto
termination
  by (relation "measure (\<lambda>(n, s, ap, st). length s)") (auto dest!: length_fmt_spec)

declare fmt_loop.simps [simp del]

definition c_vsnprintf :: "byte list \<Rightarrow> u64 \<Rightarrow> byte list \<Rightarrow> va_arg list \<Rightarrow> (nat \<times> byte list) fmt" where
  "c_vsnprintf buf buf_size s ap =
     fbind (fmt_loop buf_size s ap (buf, 0)) (\<lambda>(mem, i).
       if 0 < buf_size then
         let k = (if int i < int_of_size buf_size then int i else int_of_size buf_size - 1)
         in if 0 \<le> k \<and> nat k < length mem then Inr (i, mem[nat k := 0]) else Inl Undefined
       else Inr (i, mem))"

section \<open>The printed text\<close>

text \<open>What is printed when there is room for everything.\<close>

definition conv_text :: "spec \<Rightarrow> conversion \<Rightarrow> byte list fmt" where
  "conv_text sp conv = (case conv of
     C_str s \<Rightarrow> fbind (str_pad sp s) (\<lambda>pad. fbind (str_body sp s) (\<lambda>t. Inr (replicate (nat pad) (ascii CHR '' '') @ t)))
   | C_char c \<Rightarrow> Inr [c]
   | C_num n base \<Rightarrow> itoa_text n base (sp_flags sp) (sp_width sp)
   | C_ptr p \<Rightarrow> fbind (itoa_text p 16 (sp_flags sp) 0) (\<lambda>t. Inr (ascii CHR ''0'' # ascii CHR ''x'' # t)))"

function fmt_text :: "byte list \<Rightarrow> va_arg list \<Rightarrow> byte list fmt" where
  "fmt_text s ap =
     (case s of [] \<Rightarrow> Inr []
      | ch # s \<Rightarrow>
        if ch = 0 then Inr []
        else if ch \<noteq> ascii CHR ''%'' then fbind (fmt_text s ap) (\<lambda>t. Inr (ch # t))
        else case fmt_spec s ap of Inl e \<Rightarrow> Inl e
          | Inr (sp, s, ap) \<Rightarrow>
            case fmt_fetch (fst (chop s)) (sp_len_mod sp) ap of Inl e \<Rightarrow> Inl e
            | Inr (conv, ap) \<Rightarrow> fbind (conv_text sp conv) (\<lambda>t. fbind (fmt_text (tl s) ap) (\<lambda>u. Inr (t @ u))))"
  by pat_completeness auto
termination
  by (relation "measure (\<lambda>(s, ap). length s)") (auto dest!: length_fmt_spec)

declare fmt_text.simps [simp del]

text \<open>The buffer after a text.\<close>

definition filled :: "byte list \<Rightarrow> byte list \<Rightarrow> byte list" where
  "filled mem t = take (length mem) t @ drop (length t) mem"

lemma filled_Nil [simp]: "filled mem [] = mem"
  by (simp add: filled_def)

lemma length_filled [simp]: "length (filled mem t) = length mem"
  by (simp add: filled_def)

lemma filled_snoc: "filled mem (t @ [c]) = (if length t < length mem then (filled mem t)[length t := c] else filled mem t)"
  by (auto simp: filled_def list_update_append drop_Suc_Cons [symmetric] Cons_nth_drop_Suc [symmetric])

lemma int_of_size_sub:
  assumes "unat buf_size = n" "n \<le> 2147483647" "int k \<le> INT_MAX"
  shows "int_of_size (buf_size - of_nat k) = int n - int k"
proof -
  have n: "uint buf_size = int n"
    using assms(1) by (simp add: uint_nat)
  have "sint (ucast (buf_size - of_nat k) :: u32) = signed_take_bit 31 (take_bit 32 (uint (buf_size - of_nat k)))"
    by (simp add: sint_uint unsigned_ucast_eq)
  also have "uint (buf_size - of_nat k) = take_bit 64 (int n - int k)"
    by (simp add: uint_word_ariths n unsigned_of_nat take_bit_eq_mod zmod_int mod_diff_right_eq)
  also have "signed_take_bit 31 (take_bit 32 (take_bit 64 (int n - int k))) = signed_take_bit 31 (int n - int k)"
    by (simp add: signed_take_bit_take_bit)
  also have "\<dots> = int n - int k"
    using assms(2,3) by (intro signed_take_bit_int_eq_self) (simp_all add: INT_MAX_def)
  finally show ?thesis
    by (simp add: int_of_size_def)
qed

lemma append_char:
  assumes "unat buf_size = length mem" "length mem \<le> 2147483647" "int (length (t @ u)) < INT_MAX"
  shows "C_SNPRINTF_APPEND_CHAR (length t) (buf_size - of_nat (length t)) c (filled mem (t @ u), length u) = Inr (filled mem ((t @ u) @ [c]), length u + 1)"
  using assms int_of_size_sub [OF assms(1,2), of "length t"] by (auto simp: C_SNPRINTF_APPEND_CHAR_def filled_snoc simp flip: append_assoc)

lemma append_all_from:
  assumes "unat buf_size = length mem" "length mem \<le> 2147483647" "int (length (t @ u @ v)) \<le> INT_MAX"
  shows "append_all (length t) (buf_size - of_nat (length t)) v (filled mem (t @ u), length u) = Inr (filled mem (t @ u @ v), length (u @ v))"
  using assms(3)
proof (induction v arbitrary: u)
  case (Cons c v)
  then show ?case
    using append_char [OF assms(1,2), of t u c] Cons.IH [of "u @ [c]"] by simp
qed simp

lemma append_all_text:
  assumes "unat buf_size = length mem" "length mem \<le> 2147483647" "int (length (t @ v)) \<le> INT_MAX"
  shows "append_all 0 buf_size v (filled mem t, length t) = Inr (filled mem (t @ v), length (t @ v))"
  using append_all_from [OF assms(1,2), of "[]" t v] assms(3) by simp

lemma add_itoa_text:
  assumes "unat buf_size = length mem" "length mem \<le> 2147483647" "int (length (t @ v)) \<le> INT_MAX" "itoa_text num base flags w = Inr v"
  shows "add_itoa buf_size num base flags w (filled mem t, length t) = Inr (filled mem (t @ v), length (t @ v))"
  using append_all_from [OF assms(1,2), of t "[]" v] assms(3,4) by (simp add: add_itoa_def c_itoa_def)

lemma fmt_emit_text:
  assumes "unat buf_size = length mem" "length mem \<le> 2147483647" "int (length (t @ v)) \<le> INT_MAX" "conv_text sp conv = Inr v"
  shows "fmt_emit buf_size sp conv (filled mem t, length t) = Inr (filled mem (t @ v), length (t @ v))"
proof (cases conv)
  case (C_str s)
  then obtain pad b where "str_pad sp s = Inr pad" "str_body sp s = Inr b" "v = replicate (nat pad) (ascii CHR '' '') @ b"
    using assms(4) by (auto simp: conv_text_def fbind_eq_Inr)
  then show ?thesis
    using C_str assms(3) append_all_text [OF assms(1,2), of t "replicate (nat pad) (ascii CHR '' '')"]
      append_all_text [OF assms(1,2), of "t @ replicate (nat pad) (ascii CHR '' '')" b]
    by (simp add: fmt_emit_def)
next
  case (C_char c)
  then show ?thesis
    using assms(3,4) append_char [OF assms(1,2), of "[]" t c] by (auto simp: fmt_emit_def conv_text_def)
next
  case (C_num n base)
  then show ?thesis
    using assms(4) add_itoa_text [OF assms(1-3)] by (simp add: fmt_emit_def conv_text_def)
next
  case (C_ptr p)
  then obtain u where "itoa_text p 16 (sp_flags sp) 0 = Inr u" "v = ascii CHR ''0'' # ascii CHR ''x'' # u"
    using assms(4) by (auto simp: conv_text_def fbind_eq_Inr)
  then show ?thesis
    using C_ptr assms(3) append_all_text [OF assms(1,2), of t "[ascii CHR ''0'', ascii CHR ''x'']"]
      add_itoa_text [OF assms(1,2), of "t @ [ascii CHR ''0'', ascii CHR ''x'']" u p 16 "sp_flags sp" 0]
    by (simp add: fmt_emit_def del: append_all.simps)
qed

lemma fmt_loop_text:
  assumes "unat buf_size = length mem" "length mem \<le> 2147483647"
  shows "fmt_text s ap = Inr v \<Longrightarrow> int (length (t @ v)) \<le> INT_MAX
    \<Longrightarrow> fmt_loop buf_size s ap (filled mem t, length t) = Inr (filled mem (t @ v), length (t @ v))"
proof (induction s ap arbitrary: t v rule: fmt_text.induct)
  case (1 s ap)
  show ?case
  proof (cases s)
    case Nil
    then show ?thesis
      using "1.prems" by (simp add: fmt_text.simps fmt_loop.simps)
  next
    case (Cons ch s')
    consider "ch = 0" | "ch \<noteq> 0" "ch \<noteq> ascii CHR ''%''" | "ch = ascii CHR ''%''" by blast
    then show ?thesis
    proof cases
      case 1
      then show ?thesis
        using "1.prems" Cons by (simp add: fmt_text.simps [of "0 # s'"] fmt_loop.simps [of _ "0 # s'"])
    next
      case 2
      then obtain u where u: "fmt_text s' ap = Inr u" "v = ch # u"
        using "1.prems"(1) Cons by (auto simp: fmt_text.simps [of "ch # s'"] fbind_eq_Inr)
      then show ?thesis
        using 2 "1.prems"(2) Cons "1.IH"(1) [of ch s' u "t @ [ch]"] append_char [OF assms, of "[]" t ch]
        by (simp add: fmt_loop.simps [of _ "ch # s'"])
    next
      case 3
      then obtain sp s1 ap1 conv ap2 t1 u where p: "fmt_spec s' ap = Inr (sp, s1, ap1)" "fmt_fetch (fst (chop s1)) (sp_len_mod sp) ap1 = Inr (conv, ap2)"
        "conv_text sp conv = Inr t1" "fmt_text (tl s1) ap2 = Inr u" "v = t1 @ u"
        using "1.prems"(1) Cons by (auto simp: fmt_text.simps [of "37 # s'"] fbind_eq_Inr split: sum.splits)
      have "fmt_loop buf_size (tl s1) ap2 (filled mem (t @ t1), length (t @ t1)) = Inr (filled mem ((t @ t1) @ u), length ((t @ t1) @ u))"
        using 3 p "1.prems"(2) Cons by (intro "1.IH"(2) [of ch s']) auto
      then show ?thesis
        using 3 p "1.prems"(2) Cons fmt_emit_text [OF assms _ p(3), of t] by (simp add: fmt_loop.simps [of _ "37 # s'"])
    qed
  qed
qed

text \<open>The contract of \<open>vsnprintf\<close>.\<close>

lemma c_vsnprintf_text:
  assumes "unat buf_size = length mem" "length mem \<le> 2147483647" "fmt_text s ap = Inr t" "int (length t) \<le> INT_MAX"
  shows "c_vsnprintf mem buf_size s ap = Inr (length t,
    if buf_size = 0 then mem else take (length mem - 1) t @ 0 # drop (Suc (min (length t) (length mem - 1))) mem)"
proof -
  have l: "fmt_loop buf_size s ap (mem, 0) = Inr (filled mem t, length t)"
    using fmt_loop_text [OF assms(1,2), of s ap t "[]"] assms(3,4) by simp
  have n: "int_of_size buf_size = int (length mem)"
    using int_of_size_sub [OF assms(1,2), of 0] by (simp add: INT_MAX_def)
  show ?thesis
  proof (cases "buf_size = 0")
    case True
    then show ?thesis
      using l assms(1) by (simp add: c_vsnprintf_def filled_def)
  next
    case False
    then have pos: "0 < length mem" "0 < buf_size"
      using assms(1) by (auto simp: word_neq_0_conv unat_eq_zero)
    show ?thesis
    proof (cases "length t < length mem")
      case True
      then have "(filled mem t)[length t := 0] = t @ 0 # drop (Suc (length t)) mem"
        using assms(1) by (simp add: filled_def list_update_append Cons_nth_drop_Suc [symmetric])
      then show ?thesis
        using True pos l n assms(1) False by (simp add: c_vsnprintf_def)
    next
      case F: False
      then have "(filled mem t)[length mem - 1 := 0] = take (length mem - 1) t @ [0]"
        using assms(1) pos by (intro nth_equalityI) (auto simp: filled_def nth_list_update nth_append)
      moreover have "nat (int (length mem) - 1) = length mem - 1"
        using pos by simp
      ultimately show ?thesis
        using F pos l n assms(1) False by (simp add: c_vsnprintf_def Let_def)
    qed
  qed
qed

section \<open>Formats by their parts\<close>

text \<open>A number in a base, from the highest digit on.\<close>

definition digit :: "nat \<Rightarrow> byte" where
  "digit d = of_nat (if d < 10 then 48 + d else 87 + d)"

function num_text :: "nat \<Rightarrow> nat \<Rightarrow> byte list" where
  "num_text base n = (if base \<le> 1 \<or> n < base then [digit n] else num_text base (n div base) @ [digit (n mod base)])"
  by auto
termination
  by (relation "measure snd") (auto simp: div_less_dividend)

declare num_text.simps [simp del]

definition signed_text :: "int \<Rightarrow> byte list" where
  "signed_text n = (if n < 0 then ascii CHR ''-'' # num_text 10 (nat (- n)) else num_text 10 (nat n))"

text \<open>
  The parts of a format that the library uses: text, \<open>%s\<close> of a string with what follows its NUL, \<open>%.*s\<close> of a buffer, \<open>%d\<close>, \<open>%ld\<close>, \<open>%u\<close>, \<open>%lu\<close>, and \<open>%x\<close> with a width of
  one digit that is filled with zeros.
\<close>

datatype piece = P_text "byte list" | P_str "byte list" "byte list" | P_buf u32 "byte list" | P_int u32 | P_long u64 | P_uns u32 | P_ulong u64 | P_hex nat u32

fun piece_fmt :: "piece \<Rightarrow> byte list" where
  "piece_fmt (P_text s) = s"
| "piece_fmt (P_str s r) = map of_char ''%s''"
| "piece_fmt (P_buf n s) = map of_char ''%.*s''"
| "piece_fmt (P_int n) = map of_char ''%d''"
| "piece_fmt (P_long n) = map of_char ''%ld''"
| "piece_fmt (P_uns n) = map of_char ''%u''"
| "piece_fmt (P_ulong n) = map of_char ''%lu''"
| "piece_fmt (P_hex k n) = [ascii CHR ''%'', ascii CHR ''0'', digit k, ascii CHR ''x'']"

fun piece_args :: "piece \<Rightarrow> va_arg list" where
  "piece_args (P_text s) = []"
| "piece_args (P_str s r) = [A_str (Some (s @ 0 # r))]"
| "piece_args (P_buf n s) = [A_int n, A_str (Some s)]"
| "piece_args (P_int n) = [A_int n]"
| "piece_args (P_long n) = [A_long n]"
| "piece_args (P_uns n) = [A_unsigned n]"
| "piece_args (P_ulong n) = [A_ulong n]"
| "piece_args (P_hex k n) = [A_unsigned n]"

fun piece_text :: "piece \<Rightarrow> byte list" where
  "piece_text (P_text s) = s"
| "piece_text (P_str s r) = s"
| "piece_text (P_buf n s) = takeWhile (\<lambda>c. c \<noteq> 0) (take (nat (sint n)) s)"
| "piece_text (P_int n) = signed_text (sint n)"
| "piece_text (P_long n) = signed_text (sint n)"
| "piece_text (P_uns n) = num_text 10 (unat n)"
| "piece_text (P_ulong n) = signed_text (sint n)"
| "piece_text (P_hex k n) = replicate (k - length (num_text 16 (unat n))) (ascii CHR ''0'') @ num_text 16 (unat n)"

text \<open>A buffer may lack the NUL when the precision is not larger than it, and the precision is not 0, which means that there is none.\<close>

fun piece_ok :: "piece \<Rightarrow> bool" where
  "piece_ok (P_text s) \<longleftrightarrow> 0 \<notin> set s \<and> ascii CHR ''%'' \<notin> set s"
| "piece_ok (P_str s r) \<longleftrightarrow> 0 \<notin> set s"
| "piece_ok (P_buf n s) \<longleftrightarrow> 0 < sint n \<and> (nat (sint n) \<le> length s \<or> 0 \<in> set s)"
| "piece_ok (P_int n) \<longleftrightarrow> True"
| "piece_ok (P_long n) \<longleftrightarrow> sint n \<noteq> - (2 ^ 63)"
| "piece_ok (P_uns n) \<longleftrightarrow> True"
| "piece_ok (P_ulong n) \<longleftrightarrow> sint n \<noteq> - (2 ^ 63)"
| "piece_ok (P_hex k n) \<longleftrightarrow> 0 < k \<and> k < 10"

lemma itoa_digit: "d < 16 \<Longrightarrow> (if d < 10 then ascii CHR ''0'' + of_nat d else ascii CHR ''a'' + (of_nat d - 10)) = digit d"
  by (auto simp: digit_def)

lemma rev_itoa_digits: "1 < base \<Longrightarrow> base \<le> 16 \<Longrightarrow> rev (itoa_digits base n) = num_text base n"
proof (induction n rule: less_induct)
  case (less n)
  have d: "n mod base < 16"
    using less.prems by (meson mod_less_divisor order_less_le_trans less_trans zero_less_one)
  show ?case
  proof (cases "n < base")
    case True
    then show ?thesis
      using less.prems by (auto simp: itoa_digits.simps [of base n] num_text.simps [of base n] Let_def digit_def)
  next
    case False
    then have "n div base < n" "0 < n div base"
      using less.prems by (simp_all add: div_less_dividend div_greater_zero_iff)
    then show ?thesis
      using False itoa_digit [OF d] less by (simp add: itoa_digits.simps [of base n] num_text.simps [of base n] Let_def)
  qed
qed

lemma length_itoa_digits: "1 < base \<Longrightarrow> n < base ^ Suc k \<Longrightarrow> length (itoa_digits base n) \<le> Suc k"
proof (induction k arbitrary: n)
  case 0
  then show ?case
    by (simp add: itoa_digits.simps [of base n] Let_def)
next
  case (Suc k)
  have "n div base < base ^ Suc k"
    using Suc.prems by (simp add: less_mult_imp_div_less mult.commute)
  then show ?case
    using Suc by (auto simp: itoa_digits.simps [of base n] Let_def)
qed

lemma zero_pad_eq: "w \<le> 39 \<Longrightarrow> zero_pad (int w) tmp = tmp @ replicate (w - length tmp) (ascii CHR ''0'')"
proof (induction "w - length tmp" arbitrary: tmp)
  case 0
  then show ?case
    by (simp add: zero_pad.simps [of _ tmp])
next
  case (Suc k)
  then have "w - length tmp = Suc k" "k = w - Suc (length tmp)" "length tmp < w"
    by simp_all
  then show ?case
    using Suc(1) [of "tmp @ [ascii CHR ''0'']"] Suc.prems by (simp add: zero_pad.simps [of _ tmp] replicate_app_Cons_same)
qed

lemma itoa_signed:
  assumes "sint n \<noteq> - (2 ^ 63)"
  shows "itoa_text n 10 0 w = Inr (signed_text (sint n))"
proof -
  have "\<bar>sint n\<bar> < 2 ^ 63"
    using assms sint_less [of n] sint_greater_eq [of n] by simp
  then have "length (itoa_digits 10 (nat \<bar>sint n\<bar>)) \<le> 19"
    using length_itoa_digits [of 10 "nat \<bar>sint n\<bar>" 18] by simp
  then show ?thesis
    using assms by (auto simp: itoa_text_def signed_text_def Let_def rev_itoa_digits)
qed

lemma itoa_unsigned:
  assumes "unat (n :: u32) = k" "base \<in> {10, 16}"
  shows "itoa_text (ucast n) base f w = Inr (rev (if f \<noteq> 0 then zero_pad w (itoa_digits base k) else itoa_digits base k))"
proof -
  have k: "k < 2 ^ 32" "uint n = int k"
    using assms(1) unat_u32_less [of n] by (auto simp: uint_nat)
  moreover have "signed_take_bit 63 (int k) = int k"
    using k by (intro signed_take_bit_int_eq_self) auto
  ultimately have s: "sint (ucast n :: u64) = int k"
    by (simp add: sint_uint unsigned_ucast_eq take_bit_int_eq_self)
  have l: "length (itoa_digits base k) \<le> 10"
    using k(1) assms(2) length_itoa_digits [of base k 9] by auto
  have "length (zero_pad w t) \<le> max 39 (length t)" for t
    by (induction w t rule: zero_pad.induct) (subst zero_pad.simps, auto)
  from this [of "itoa_digits base k"] have "length (zero_pad w (itoa_digits base k)) \<le> 40"
    using l by linarith
  then show ?thesis
    using s l by (simp add: itoa_text_def Let_def)
qed

lemma str_chars_nul: "0 \<notin> set s \<Longrightarrow> str_chars None (s @ 0 # r) = Inr s"
  by (induction s) auto

lemma str_chars_buf: "n \<le> length s \<or> 0 \<in> set s \<Longrightarrow> str_chars (Some n) s = Inr (takeWhile (\<lambda>c. c \<noteq> 0) (take n s))"
proof (induction s arbitrary: n)
  case (Cons c s)
  then show ?case
    by (cases n) auto
qed auto

lemma str_text:
  "0 \<notin> set s \<Longrightarrow> conv_text \<lparr>sp_flags = f, sp_width = 0, sp_precision = 0, sp_len_mod = m\<rparr> (C_str (Some (s @ 0 # r))) = Inr s"
  by (simp add: conv_text_def str_pad_def str_body_def c_strnlen_def int_of_size_def str_chars_nul)

lemma buf_text:
  assumes "0 < sint n" "nat (sint n) \<le> length s \<or> 0 \<in> set s"
  shows "conv_text \<lparr>sp_flags = f, sp_width = 0, sp_precision = sint (n :: u32), sp_len_mod = m\<rparr> (C_str (Some s)) = Inr (takeWhile (\<lambda>c. c \<noteq> 0) (take (nat (sint n)) s))"
proof -
  let ?t = "takeWhile (\<lambda>c. c \<noteq> 0) (take (nat (sint n)) s)"
  have "length ?t \<le> nat (sint n)"
    using length_takeWhile_le [of "\<lambda>c. c \<noteq> 0" "take (nat (sint n)) s"] by simp
  moreover have "sint n \<le> INT_MAX"
    using sint_less [of n] by (simp add: INT_MAX_def)
  ultimately have "int_of_size (- of_nat (length ?t)) = - int (length ?t)"
    using assms(1) int_of_size_sub [of 0 0 "length ?t"] by simp
  then show ?thesis
    using assms by (simp add: conv_text_def str_pad_def str_body_def c_strnlen_def str_chars_buf)
qed

lemma num_texts:
  "sint n \<noteq> - (2 ^ 63) \<Longrightarrow> conv_text \<lparr>sp_flags = 0, sp_width = 0, sp_precision = 0, sp_len_mod = m\<rparr> (C_num n 10) = Inr (signed_text (sint n))"
  "conv_text \<lparr>sp_flags = 0, sp_width = 0, sp_precision = 0, sp_len_mod = m\<rparr> (C_num (scast i) 10) = Inr (signed_text (sint (i :: u32)))"
  "conv_text \<lparr>sp_flags = 0, sp_width = 0, sp_precision = 0, sp_len_mod = m\<rparr> (C_num (ucast u) 10) = Inr (num_text 10 (unat (u :: u32)))"
proof -
  show "sint n \<noteq> - (2 ^ 63) \<Longrightarrow> conv_text \<lparr>sp_flags = 0, sp_width = 0, sp_precision = 0, sp_len_mod = m\<rparr> (C_num n 10) = Inr (signed_text (sint n))"
    by (simp add: conv_text_def itoa_signed)
  have r: "- (2 ^ 31) \<le> sint i" "sint i < 2 ^ 31"
    using sint_less [of i] sint_greater_eq [of i] by simp_all
  then have "signed_take_bit 63 (sint i) = sint i"
    by (intro signed_take_bit_int_eq_self) auto
  then have "sint (scast i :: u64) = sint i"
    by (simp add: signed_scast_eq)
  then show "conv_text \<lparr>sp_flags = 0, sp_width = 0, sp_precision = 0, sp_len_mod = m\<rparr> (C_num (scast i) 10) = Inr (signed_text (sint i))"
    using r itoa_signed [of "scast i" 0] by (simp add: conv_text_def)
  show "conv_text \<lparr>sp_flags = 0, sp_width = 0, sp_precision = 0, sp_len_mod = m\<rparr> (C_num (ucast u) 10) = Inr (num_text 10 (unat u))"
    using itoa_unsigned [of u _ 10 0 0] by (simp add: conv_text_def rev_itoa_digits)
qed

lemma fmt_text_piece:
  assumes "piece_ok p"
  shows "fmt_text (piece_fmt p @ s) (piece_args p @ ap) = fbind (fmt_text s ap) (\<lambda>u. Inr (piece_text p @ u))"
proof (cases p)
  case (P_text t)
  have "0 \<notin> set t \<Longrightarrow> ascii CHR ''%'' \<notin> set t \<Longrightarrow> fmt_text (t @ s) ap = fbind (fmt_text s ap) (\<lambda>u. Inr (t @ u))"
    by (induction t) (auto simp: fmt_text.simps [of "_ # _"] fbind_def split: sum.split)
  then show ?thesis
    using assms P_text by simp
next
  case (P_hex k n)
  have "k \<in> {1, 2, 3, 4, 5, 6, 7, 8, 9}"
    using assms P_hex by auto
  then have d: "fmt_digits 0 (ascii CHR ''0'' # digit k # ascii CHR ''x'' # s) = Inr (int k, ascii CHR ''x'' # s)"
    by (auto simp: digit_def INT_MAX_def)
  have "zero_pad (int k) (itoa_digits 16 (unat n)) = itoa_digits 16 (unat n) @ replicate (k - length (num_text 16 (unat n))) (ascii CHR ''0'')"
    using zero_pad_eq [of k "itoa_digits 16 (unat n)"] assms P_hex arg_cong [OF rev_itoa_digits [of 16 "unat n"], of length] by simp
  then have "itoa_text (ucast n) 16 1 (int k) = Inr (piece_text p)"
    using itoa_unsigned [of n "unat n" 16 1 "int k"] P_hex by (simp add: rev_itoa_digits)
  then show ?thesis
    using P_hex d by (simp add: fmt_text.simps [of "37 # _"] fmt_spec_def fmt_width_def fmt_precision_def fmt_len_mod_def fmt_fetch_def conv_text_def)
qed (use assms in \<open>simp_all add: fmt_text.simps [of "37 # _"] fmt_spec_def fmt_width_def fmt_precision_def fmt_len_mod_def fmt_fetch_def
   str_text buf_text num_texts\<close>)

lemma fmt_text_pieces: "list_all piece_ok ps \<Longrightarrow> fmt_text (concat (map piece_fmt ps)) (concat (map piece_args ps)) = Inr (concat (map piece_text ps))"
  by (induction ps) (simp_all add: fmt_text_piece fmt_text.simps [of "[]"])

text \<open>The digits denote the number.\<close>

lemma num_text_value:
  assumes "1 < base" "base \<le> 16"
  shows "foldl (\<lambda>a c. a * base + (if c < 58 then unat c - 48 else unat c - 87)) 0 (num_text base n) = n"
proof (induction n rule: less_induct)
  case (less n)
  have "\<forall>d \<in> set [0..<16]. (if digit d < 58 then unat (digit d) - 48 else unat (digit d) - 87) = d"
    by code_simp
  then have d: "d < 16 \<Longrightarrow> (if digit d < 58 then unat (digit d) - 48 else unat (digit d) - 87) = d" for d
    by simp
  show ?case
  proof (cases "n < base")
    case True
    then show ?thesis
      using d [of n] assms by (simp add: num_text.simps [of base n])
  next
    case False
    moreover have "n mod base < 16"
      using assms mod_less_divisor [of base n] by linarith
    ultimately show ?thesis
      using d [of "n mod base"] less [of "n div base"] assms by (simp add: num_text.simps [of base n] div_less_dividend)
  qed
qed



section \<open>Searching\<close>

text \<open>
  \<open>needle\<close> (\<open>find\<close> in the source) has no NUL, so \<open>strncmp\<close> of its length is zero exactly for equal bytes. The result is the offset of the pointer.
\<close>

function c_strnstr_from :: "byte list \<Rightarrow> byte list \<Rightarrow> nat \<Rightarrow> nat \<Rightarrow> nat option" where
  "c_strnstr_from s needle slen i =
     (if slen \<le> i then None
      else if slen < i + length needle then None
      else if take (length needle) (drop i s) = needle then Some i
      else c_strnstr_from s needle slen (i + 1))"
  by auto
termination
  by (relation "measure (\<lambda>(s, needle, slen, i). slen - i)") auto

declare c_strnstr_from.simps [simp del]

definition c_strnstr :: "byte list \<Rightarrow> byte list \<Rightarrow> nat \<Rightarrow> nat option" where
  "c_strnstr s needle slen = c_strnstr_from s needle slen 0"

lemma c_strnstr_from_Some:
  "c_strnstr_from s needle slen i = Some k \<Longrightarrow> i \<le> k \<and> k < slen \<and> k + length needle \<le> slen \<and> take (length needle) (drop k s) = needle
    \<and> (\<forall>j. i \<le> j \<and> j < k \<longrightarrow> take (length needle) (drop j s) \<noteq> needle)"
  by (induction s needle slen i rule: c_strnstr_from.induct)
    (subst (asm) (2) c_strnstr_from.simps, auto split: if_splits, metis Suc_leI le_neq_implies_less)

lemma c_strnstr_from_None:
  "c_strnstr_from s needle slen i = None \<Longrightarrow> i \<le> j \<Longrightarrow> j < slen \<Longrightarrow> j + length needle \<le> slen \<Longrightarrow> take (length needle) (drop j s) \<noteq> needle"
  by (induction s needle slen i rule: c_strnstr_from.induct)
    (subst (asm) (2) c_strnstr_from.simps, auto split: if_splits, metis Suc_leI le_neq_implies_less)

text \<open>The first occurrence that lies within \<open>slen\<close> bytes is found.\<close>

lemma c_strnstr_first:
  "c_strnstr s needle slen = Some k \<longleftrightarrow> (k < slen \<and> k + length needle \<le> slen \<and> take (length needle) (drop k s) = needle
     \<and> (\<forall>j < k. take (length needle) (drop j s) \<noteq> needle))"
proof
  assume "c_strnstr s needle slen = Some k"
  then show "k < slen \<and> k + length needle \<le> slen \<and> take (length needle) (drop k s) = needle \<and> (\<forall>j < k. take (length needle) (drop j s) \<noteq> needle)"
    using c_strnstr_from_Some [of s needle slen 0 k] by (simp add: c_strnstr_def)
next
  assume k: "k < slen \<and> k + length needle \<le> slen \<and> take (length needle) (drop k s) = needle \<and> (\<forall>j < k. take (length needle) (drop j s) \<noteq> needle)"
  then obtain i where i: "c_strnstr_from s needle slen 0 = Some i"
    using c_strnstr_from_None [of s needle slen 0 k] by (cases "c_strnstr_from s needle slen 0") auto
  then have "i = k"
    using c_strnstr_from_Some [OF i] k by (metis le0 linorder_neqE_nat)
  then show "c_strnstr s needle slen = Some k"
    using i by (simp add: c_strnstr_def)
qed

end
