(* ===== verification/Scan.thy ===== *)
theory Scan
  imports Format Http
begin

text \<open>
  Numbers and addresses in texts: \<open>sscanf\<close> of the C library as far as Mongoose uses it, access lists (\<open>parse_net\<close>, \<open>mg_check_ip_acl\<close>), addresses
  (\<open>mg_parse_address\<close>) of \<open>src/net.c\<close>, and the \<open>Range\<close> header and dates of \<open>src/http.c\<close>.
\<close>

section \<open>sscanf\<close>

text \<open>
  The directives of a format: a byte that has to match, white space, \<open>%d\<close>, \<open>%u\<close>, \<open>%lld\<close> (\<open>D_int 64\<close>), \<open>%s\<close> and \<open>%Ns\<close>, \<open>%*Ns\<close>, \<open>%[^...]\<close> and \<open>%n\<close>. The result has the
  assigned values in their order. A number that its type cannot represent is undefined, which is \<open>None\<close>.
\<close>

datatype directive = D_lit byte | D_space | D_int nat | D_uint | D_str "nat option" | D_skip nat | D_until "nat option" "byte list" | D_pos

datatype scanned = V_int int | V_str "byte list" | V_pos nat

definition digits_value :: "byte list \<Rightarrow> int" where
  "digits_value ds = foldl (\<lambda>a c. a * 10 + (uint c - 48)) 0 ds"

text \<open>An optional sign and digits behind white space: the value and the number of bytes.\<close>

definition scan_int :: "byte list \<Rightarrow> (int \<times> nat) option" where
  "scan_int s =
     (let t = dropWhile isspace s; k = length s - length t;
          sign = (if t \<noteq> [] \<and> (hd t = ascii CHR ''-'' \<or> hd t = ascii CHR ''+'') then 1 else 0);
          ds = takeWhile isdigit_byte (drop sign t)
      in if ds = [] then None
         else Some (if sign = 1 \<and> hd t = ascii CHR ''-'' then - digits_value ds else digits_value ds, k + sign + length ds))"

definition clip :: "nat option \<Rightarrow> byte list \<Rightarrow> byte list" where
  "clip w s = (case w of None \<Rightarrow> s | Some n \<Rightarrow> take n s)"

fun sscanf :: "nat \<Rightarrow> byte list \<Rightarrow> directive list \<Rightarrow> scanned list option" where
  "sscanf pos s [] = Some []"
| "sscanf pos s (D_lit c # ds) = (if s \<noteq> [] \<and> hd s = c then sscanf (pos + 1) (tl s) ds else Some [])"
| "sscanf pos s (D_space # ds) = (let t = dropWhile isspace s in sscanf (pos + (length s - length t)) t ds)"
| "sscanf pos s (D_int w # ds) = (case scan_int s of
     None \<Rightarrow> Some []
   | Some (v, n) \<Rightarrow> if - (2 ^ (w - 1)) \<le> v \<and> v < 2 ^ (w - 1) then map_option (\<lambda>vs. V_int v # vs) (sscanf (pos + n) (drop n s) ds) else None)"
| "sscanf pos s (D_uint # ds) = (case scan_int s of
     None \<Rightarrow> Some []
   | Some (v, n) \<Rightarrow> if - (2 ^ 32) < v \<and> v < 2 ^ 32 then map_option (\<lambda>vs. V_int (v mod 2 ^ 32) # vs) (sscanf (pos + n) (drop n s) ds) else None)"
| "sscanf pos s (D_str w # ds) =
     (let t = dropWhile isspace s; u = clip w (takeWhile (\<lambda>c. \<not> isspace c) t)
      in if u = [] then Some []
         else map_option (\<lambda>vs. V_str u # vs) (sscanf (pos + (length s - length t) + length u) (drop (length u) t) ds))"
| "sscanf pos s (D_skip w # ds) =
     (let t = dropWhile isspace s; u = take w (takeWhile (\<lambda>c. \<not> isspace c) t)
      in if u = [] then Some [] else sscanf (pos + (length s - length t) + length u) (drop (length u) t) ds)"
| "sscanf pos s (D_until w cs # ds) =
     (let u = clip w (takeWhile (\<lambda>c. c \<notin> set cs) s)
      in if u = [] then Some [] else map_option (\<lambda>vs. V_str u # vs) (sscanf (pos + length u) (drop (length u) s) ds))"
| "sscanf pos s (D_pos # ds) = map_option (\<lambda>vs. V_pos pos # vs) (sscanf pos s ds)"

text \<open>Four conversions with dots between them.\<close>

definition dots4 :: "directive \<Rightarrow> directive list" where
  "dots4 d = [d, D_lit 46, d, D_lit 46, d, D_lit 46, d]"

section \<open>Access lists\<close>

definition isbyte :: "int \<Rightarrow> bool" where
  "isbyte n \<longleftrightarrow> 0 \<le> n \<and> n \<le> 255"

definition quad :: "int \<Rightarrow> int \<Rightarrow> int \<Rightarrow> int \<Rightarrow> u32" where
  "quad a b c d = push_bit 24 (of_int a) OR push_bit 16 (of_int b) OR push_bit 8 (of_int c) OR of_int d"

text \<open>\<open>None\<close> is undefined; otherwise the length, 0 for a text that is not a net, with the net and the mask.\<close>

definition parse_net :: "byte list \<Rightarrow> (nat \<times> u32 \<times> u32) option" where
  "parse_net spec =
     (let net = (\<lambda>a b c d slash n. if isbyte a \<and> isbyte b \<and> isbyte c \<and> isbyte d \<and> 0 \<le> slash \<and> slash < 33
            then (n, quad a b c d, if slash = 0 then 0 else push_bit (32 - nat slash) 0xFFFFFFFF) else (0, 0, 0))
      in case sscanf 0 spec (dots4 (D_int 32) @ [D_lit 47, D_int 32, D_pos]) of
           None \<Rightarrow> None
         | Some [V_int a, V_int b, V_int c, V_int d, V_int slash, V_pos n] \<Rightarrow> Some (net a b c d slash n)
         | _ \<Rightarrow> (case sscanf 0 spec (dots4 (D_int 32) @ [D_pos]) of
             None \<Rightarrow> None
           | Some [V_int a, V_int b, V_int c, V_int d, V_pos n] \<Rightarrow> Some (net a b c d 32 n)
           | _ \<Rightarrow> Some (0, 0, 0)))"

text \<open>
  The loop of \<open>mg_check_ip_acl\<close>. The text that \<open>parse_net\<close> reads starts behind the flag of the entry and ends with the list, not with the entry.
  The result is -1, 0 or 1.
\<close>

function acl_loop :: "byte list \<Rightarrow> u32 \<Rightarrow> byte \<Rightarrow> int option" where
  "acl_loop acl remote_ip allowed = (case mg_next_comma_list_entry acl False of
     None \<Rightarrow> Some (if allowed = ascii CHR ''+'' then 1 else 0)
   | Some (rest, vec, eq) \<Rightarrow>
       let flag = fst (chop acl) in
       if flag \<noteq> ascii CHR ''+'' \<and> flag \<noteq> ascii CHR ''-'' then Some (- 1)
       else case parse_net (tl acl) of
         None \<Rightarrow> None
       | Some (len, net, netmask) \<Rightarrow>
           if len = 0 then Some (- 1)
           else acl_loop rest remote_ip (if net = remote_ip AND netmask then flag else allowed))"
  by pat_completeness auto
termination
  by (relation "measure (\<lambda>(acl, ip, allowed). length acl)")
    (auto simp: mg_next_comma_list_entry_def Let_def split: if_splits option.splits dest!: memchr_Some)

declare acl_loop.simps [simp del]

definition mg_check_ip_acl :: "byte list option \<Rightarrow> u32 \<Rightarrow> int option" where
  "mg_check_ip_acl acl remote_ip = (case acl of
     None \<Rightarrow> Some 1
   | Some acl \<Rightarrow> acl_loop acl remote_ip (if acl = [] then ascii CHR ''+'' else ascii CHR ''-''))"

section \<open>Reading printed numbers\<close>

lemma scan_dec: "\<not> isdigit_byte (hd (t @ [0])) \<Longrightarrow> scan_int (dec n @ t) = Some (int n, length (dec n))"
proof -
  assume t: "\<not> isdigit_byte (hd (t @ [0]))"
  obtain d ds where d: "dec n = d # ds" "isdigit_byte d"
    using dec_not_Nil [of n] dec_digits [of n] by (cases "dec n") auto
  have "takeWhile isdigit_byte (dec n @ t) = dec n"
    using dec_digits [of n] t by (cases t) (auto simp: list_all_iff takeWhile_append)
  moreover have "dropWhile isspace (dec n @ t) = dec n @ t" "d \<noteq> 45" "d \<noteq> 43"
    using d isdigit_not by auto
  ultimately show ?thesis
    using d(1) dec_value [of n] by (simp add: scan_int_def digits_value_def Let_def)
qed

lemma sscanf_dec:
  assumes "\<not> isdigit_byte (hd (t @ [0]))"
  shows "n < 2 ^ (w - 1) \<Longrightarrow> sscanf pos (dec n @ t) (D_int w # ds) = map_option (\<lambda>vs. V_int (int n) # vs) (sscanf (pos + length (dec n)) t ds)"
    and "n < 2 ^ 32 \<Longrightarrow> sscanf pos (dec n @ t) (D_uint # ds) = map_option (\<lambda>vs. V_int (int n) # vs) (sscanf (pos + length (dec n)) t ds)"
proof -
  have "int n < 2 ^ k" if "n < 2 ^ k" for k
    using that by (metis of_nat_less_iff of_nat_numeral of_nat_power)
  then show "n < 2 ^ (w - 1) \<Longrightarrow> sscanf pos (dec n @ t) (D_int w # ds) = map_option (\<lambda>vs. V_int (int n) # vs) (sscanf (pos + length (dec n)) t ds)"
    by (auto simp: scan_dec [OF assms] intro: order_trans [of _ 0])
  show "n < 2 ^ 32 \<Longrightarrow> sscanf pos (dec n @ t) (D_uint # ds) = map_option (\<lambda>vs. V_int (int n) # vs) (sscanf (pos + length (dec n)) t ds)"
    by (simp add: scan_dec [OF assms])
qed

lemma not_digit [simp]: "\<not> isdigit_byte 46" "\<not> isdigit_byte 47" "\<not> isdigit_byte 44" "\<not> isdigit_byte 58" "\<not> isdigit_byte 32" "\<not> isdigit_byte 0"
  by (simp_all add: isdigit_byte_def)

text \<open>An address in dots.\<close>

type_synonym quad_nat = "nat \<times> nat \<times> nat \<times> nat"

fun quad_text :: "quad_nat \<Rightarrow> byte list" where
  "quad_text (a, b, c, d) = dec a @ [46] @ dec b @ [46] @ dec c @ [46] @ dec d"

fun quad_ok :: "quad_nat \<Rightarrow> bool" where
  "quad_ok (a, b, c, d) \<longleftrightarrow> a < 256 \<and> b < 256 \<and> c < 256 \<and> d < 256"

lemma sscanf_quad:
  assumes "\<not> isdigit_byte (hd (t @ [0]))" "quad_ok (a, b, c, d)" "D = D_int 32 \<or> D = D_uint"
  shows "sscanf pos (quad_text (a, b, c, d) @ t) (dots4 D @ ds)
    = map_option (\<lambda>vs. [V_int (int a), V_int (int b), V_int (int c), V_int (int d)] @ vs) (sscanf (pos + length (quad_text (a, b, c, d))) t ds)"
proof -
  have "sscanf pos (dec n @ u) (D # ds) = map_option (\<lambda>vs. V_int (int n) # vs) (sscanf (pos + length (dec n)) u ds)"
    if "n < 256" "\<not> isdigit_byte (hd (u @ [0]))" for pos n u ds
    using that assms(3) sscanf_dec [of u n] by auto
  then show ?thesis
    using assms by (simp add: dots4_def option.map_comp comp_def add.assoc)
qed

lemma or_shift:
  assumes "n < 2 ^ k"
  shows "push_bit k (of_nat m) OR of_nat n = (of_nat (m * 2 ^ k + n) :: u32)"
proof -
  have "take_bit k n = n"
    using assms by (simp add: take_bit_nat_eq_self)
  then have "take_bit k (of_nat n :: u32) = of_nat n"
    by (metis take_bit_of_nat)
  then have "bit (of_nat n :: u32) i \<Longrightarrow> i < k" for i
    by (metis bit_take_bit_iff)
  then have "push_bit k (of_nat m) AND (of_nat n :: u32) = 0"
    by (fastforce simp: bit_eq_iff bit_simps)
  then have "push_bit k (of_nat m) OR of_nat n = push_bit k (of_nat m) + (of_nat n :: u32)"
    by (simp add: disjunctive_add_eq_or)
  then show ?thesis
    by (simp add: push_bit_eq_mult)
qed

lemma quad_word:
  assumes "quad_ok (a, b, c, d)"
  shows "quad (int a) (int b) (int c) (int d) = of_nat (a * 2 ^ 24 + b * 2 ^ 16 + c * 2 ^ 8 + d)"
proof -
  have "quad (int a) (int b) (int c) (int d) = of_nat (a * 2 ^ 24 + (b * 2 ^ 16 + (c * 2 ^ 8 + d)))"
    using assms by (simp add: quad_def or_shift del: of_nat_add of_nat_mult)
  then show ?thesis
    by (simp only: add.assoc)
qed

lemma quad_value:
  assumes "quad_ok (a, b, c, d)"
  shows "unat (quad (int a) (int b) (int c) (int d)) = a * 2 ^ 24 + b * 2 ^ 16 + c * 2 ^ 8 + d"
proof -
  have "a * 2 ^ 24 + b * 2 ^ 16 + c * 2 ^ 8 + d < 2 ^ 32"
    using assms by simp
  then show ?thesis
    by (simp add: quad_word [OF assms] unat_of_nat take_bit_nat_eq_self del: of_nat_add of_nat_mult)
qed

text \<open>The addresses with the first \<open>s\<close> bits of \<open>ip\<close>.\<close>

lemma and_prefix:
  assumes "k \<le> 32"
  shows "unat ((ip :: u32) AND (if k = 32 then 0 else push_bit k 0xFFFFFFFF)) = unat ip div 2 ^ k * 2 ^ k"
proof -
  have m: "(0xFFFFFFFF :: u32) = - 1"
    by simp
  have "ip AND push_bit k (- 1) = push_bit k (drop_bit k ip)"
    by (auto intro!: bit_word_eqI simp: bit_simps)
  then have "ip AND push_bit k 0xFFFFFFFF = push_bit k (drop_bit k ip)"
    unfolding m .
  moreover have "unat (push_bit k (drop_bit k ip)) = unat ip div 2 ^ k * 2 ^ k"
  proof -
    have "unat ip div 2 ^ k * 2 ^ k < 2 ^ 32"
      using unat_u32_less [of ip] by (meson div_times_less_eq_dividend le_less_trans)
    then have t: "take_bit 32 (push_bit k (drop_bit k (unat ip))) = unat ip div 2 ^ k * 2 ^ k"
      by (simp add: push_bit_eq_mult drop_bit_eq_div take_bit_nat_eq_self)
    have "unat (push_bit k (drop_bit k ip)) = take_bit 32 (push_bit k (unat (drop_bit k ip)))"
      by (simp only: unsigned_push_bit_eq) simp
    moreover have "unat (drop_bit k ip) = drop_bit k (unat ip)"
      using unat_u32_less [of ip] by (simp only: unsigned_drop_bit_eq) (simp add: take_bit_nat_eq_self)
    ultimately show ?thesis
      using t by simp
  qed
  moreover have "unat ip div 2 ^ 32 = 0"
    using unat_u32_less [of ip] by simp
  ultimately show ?thesis
    by simp
qed

section \<open>Access lists by their entries\<close>

text \<open>An entry: whether it allows, an address, and the length of the prefix, if there is one.\<close>

type_synonym acl_entry = "bool \<times> quad_nat \<times> nat option"

fun net_text :: "acl_entry \<Rightarrow> byte list" where
  "net_text (allow, q, s) = quad_text q @ (case s of None \<Rightarrow> [] | Some s \<Rightarrow> 47 # dec s)"

definition entry_text :: "acl_entry \<Rightarrow> byte list" where
  "entry_text e = (if fst e then ascii CHR ''+'' else ascii CHR ''-'') # net_text e"

fun acl_entry_ok :: "acl_entry \<Rightarrow> bool" where
  "acl_entry_ok (allow, q, s) \<longleftrightarrow> quad_ok q \<and> (case s of None \<Rightarrow> True | Some s \<Rightarrow> s \<le> 32)"

text \<open>
  The addresses that an entry is about: those that share the prefix with its address, whose other bits have to be zero.
\<close>

fun in_net :: "acl_entry \<Rightarrow> u32 \<Rightarrow> bool" where
  "in_net (allow, (a, b, c, d), s) ip \<longleftrightarrow>
     (let host = 32 - (case s of None \<Rightarrow> 32 | Some s \<Rightarrow> s); net = a * 2 ^ 24 + b * 2 ^ 16 + c * 2 ^ 8 + d
      in net mod 2 ^ host = 0 \<and> unat ip div 2 ^ host = net div 2 ^ host)"

lemma parse_net_text:
  assumes "acl_entry_ok (allow, (a, b, c, d), s)" "rest = [] \<or> hd rest = 44"
  shows "parse_net (net_text (allow, (a, b, c, d), s) @ rest) = Some (length (net_text (allow, (a, b, c, d), s)), quad (int a) (int b) (int c) (int d),
    let host = 32 - (case s of None \<Rightarrow> 32 | Some s \<Rightarrow> s) in if host = 32 then 0 else push_bit host 0xFFFFFFFF)"
proof -
  have q: "quad_ok (a, b, c, d)" "isbyte (int a)" "isbyte (int b)" "isbyte (int c)" "isbyte (int d)"
    using assms(1) by (auto simp: isbyte_def)
  have n: "\<not> isdigit_byte (hd (rest @ [0]))"
    using assms(2) by (cases rest) auto
  show ?thesis
  proof (cases s)
    case None
    have "sscanf pos rest (D_lit 47 # ds) = Some []" for pos ds
      using assms(2) by (cases rest) auto
    then show ?thesis
      using sscanf_quad [OF n q(1), of "D_int 32" 0] q None by (simp add: parse_net_def)
  next
    case (Some k)
    then have k: "k \<le> 32"
      using assms(1) by simp
    have "sscanf pos (47 # dec k @ rest) (D_lit 47 # D_int 32 # [D_pos]) = Some [V_int (int k), V_pos (pos + 1 + length (dec k))]" for pos
      using sscanf_dec(1) [OF n, of k 32 "pos + 1" "[D_pos]"] k by simp
    then show ?thesis
      using sscanf_quad [OF _ q(1), of "47 # dec k @ rest" "D_int 32" 0 "[D_lit 47, D_int 32, D_pos]"] q k Some
      by (auto simp: parse_net_def Let_def)
  qed
qed

lemma prefix_mult: "n = m * 2 ^ h \<longleftrightarrow> n mod 2 ^ h = 0 \<and> m = n div 2 ^ h" for n m h :: nat
  by auto

lemma net_match:
  assumes "acl_entry_ok (allow, (a, b, c, d), s)"
  shows "quad (int a) (int b) (int c) (int d) = ip AND (let host = 32 - (case s of None \<Rightarrow> 32 | Some s \<Rightarrow> s) in if host = 32 then 0 else push_bit host 0xFFFFFFFF)
    \<longleftrightarrow> in_net (allow, (a, b, c, d), s) ip"
proof -
  let ?h = "32 - (case s of None \<Rightarrow> 32 | Some s \<Rightarrow> s)" and ?n = "a * 2 ^ 24 + b * 2 ^ 16 + c * 2 ^ 8 + d"
  have "quad_ok (a, b, c, d)"
    using assms by simp
  then have "quad (int a) (int b) (int c) (int d) = ip AND (if ?h = 32 then 0 else push_bit ?h 0xFFFFFFFF) \<longleftrightarrow> ?n = unat ip div 2 ^ ?h * 2 ^ ?h"
    by (simp only: word_unat_eq_iff and_prefix [OF diff_le_self] quad_value)
  also have "\<dots> \<longleftrightarrow> ?n mod 2 ^ ?h = 0 \<and> unat ip div 2 ^ ?h = ?n div 2 ^ ?h"
    by (rule prefix_mult)
  finally show ?thesis
    by (simp add: Let_def)
qed

lemma entry_no_comma: "44 \<notin> set (entry_text e)"
proof -
  have "44 \<notin> set (dec n)" for n
    using dec_digits [of n] by (auto simp: list_all_iff)
  then show ?thesis
    by (cases e rule: net_text.cases) (auto simp: entry_text_def split: option.split)
qed

text \<open>The flag of the last entry that is about the address.\<close>

definition verdict :: "acl_entry list \<Rightarrow> u32 \<Rightarrow> bool \<Rightarrow> bool" where
  "verdict es ip allowed = foldl (\<lambda>al e. if in_net e ip then fst e else al) allowed es"

lemma acl_loop_run:
  assumes "list_all acl_entry_ok es"
  shows "acl_loop (join 44 (map entry_text es)) ip (if al then ascii CHR ''+'' else ascii CHR ''-'') = Some (if verdict es ip al then 1 else 0)"
  using assms
proof (induction es arbitrary: al)
  case Nil
  then show ?case
    by (simp add: acl_loop.simps [of "[]"] mg_next_comma_list_entry_def verdict_def)
next
  case (Cons e es)
  obtain allow a b c d s where e: "e = (allow, (a, b, c, d), s)"
    by (cases e) auto
  define rest where "rest = (if es = [] then [] else 44 # join 44 (map entry_text es))"
  have j: "join 44 (map entry_text (e # es)) = entry_text e @ rest"
    by (cases es) (simp_all add: rest_def)
  have next_: "mg_next_comma_list_entry (entry_text e @ rest) False = Some (join 44 (map entry_text es), entry_text e, None)"
    using memchr_append [OF entry_no_comma, of e] iffD2 [OF memchr_None entry_no_comma [of e]]
    by (cases es) (auto simp: mg_next_comma_list_entry_def rest_def entry_text_def)
  have p: "parse_net (net_text e @ rest) = Some (length (net_text e), quad (int a) (int b) (int c) (int d),
      let host = 32 - (case s of None \<Rightarrow> 32 | Some s \<Rightarrow> s) in if host = 32 then 0 else push_bit host 0xFFFFFFFF)"
    using Cons.prems parse_net_text [of allow a b c d s rest] unfolding e by (simp add: rest_def del: acl_entry_ok.simps net_text.simps)
  have "length (net_text e) \<noteq> 0"
    using dec_not_Nil by (simp add: e)
  then have "acl_loop (entry_text e @ rest) ip (if al then ascii CHR ''+'' else ascii CHR ''-'')
      = acl_loop (join 44 (map entry_text es)) ip (if (if in_net e ip then fst e else al) then ascii CHR ''+'' else ascii CHR ''-'')"
    using next_ p Cons.prems net_match [of allow a b c d s ip]
    by (subst acl_loop.simps; cases allow) (simp_all add: entry_text_def e del: acl_entry_ok.simps net_text.simps in_net.simps)
  then show ?case
    using Cons.IH [of "if in_net e ip then fst e else al"] Cons.prems unfolding j by (simp add: verdict_def)
qed

text \<open>
  C19. Access lists decide by their last matching entry: for a list of entries \<open>+a.b.c.d/s\<close> and \<open>-a.b.c.d/s\<close>, with or without a prefix length, the
  decision on every address is the flag of the last entry whose net has it, and denial if there is none; the empty list and the missing list allow every
  address. An address is in a net if they agree on the prefix and the bits of the net behind the prefix are zero.
\<close>

theorem acl_correct:
  assumes "list_all acl_entry_ok es"
  shows "mg_check_ip_acl (Some (join 44 (map entry_text es))) ip = Some (if verdict es ip (es = []) then 1 else 0)
    \<and> mg_check_ip_acl None ip = Some 1"
proof -
  have "join 44 (map entry_text es) = [] \<longleftrightarrow> es = []"
    by (cases es; cases "tl es") (auto simp: entry_text_def)
  then show ?thesis
    using acl_loop_run [OF assms, of ip "es = []"] by (simp add: mg_check_ip_acl_def)
qed

theorem acl_correct_witness:
  "mg_check_ip_acl (Some (bs ''+10.0.0.0/8,-10.1.2.0/24,+10.1.2.3'')) 0x0A010204 = Some 0 \<and>
   mg_check_ip_acl (Some (bs ''+10.0.0.0/8,-10.1.2.0/24,+10.1.2.3'')) 0x0A010203 = Some 1"
proof -
  let ?es = "[(True, (10, 0, 0, 0), Some 8), (False, (10, 1, 2, 0), Some 24), (True, (10, 1, 2, 3), None)]"
  have "join 44 (map entry_text ?es) = bs ''+10.0.0.0/8,-10.1.2.0/24,+10.1.2.3''"
    by (simp add: entry_text_def dec.simps bs_def)
  then show ?thesis
    using acl_correct [of ?es "0x0A010204"] acl_correct [of ?es "0x0A010203"] by (simp add: verdict_def)
qed

text \<open>
  A net with a bit behind its prefix matches no address, and what stands behind the numbers of an entry is ignored, up to the comma.
\<close>

lemma acl_net_unmasked: "k < 32 \<Longrightarrow> odd d \<Longrightarrow> \<not> in_net (allow, (a, b, c, d), Some k) ip"
proof
  assume "k < 32" "odd d" and "in_net (allow, (a, b, c, d), Some k) ip"
  then have "2 ^ (32 - k) dvd a * 2 ^ 24 + b * 2 ^ 16 + c * 2 ^ 8 + d"
    by (simp only: in_net.simps Let_def option.case mod_0_imp_dvd)
  moreover have "(2 :: nat) dvd 2 ^ (32 - k)"
    using \<open>k < 32\<close> by simp
  ultimately have "2 dvd a * 2 ^ 24 + b * 2 ^ 16 + c * 2 ^ 8 + d"
    by (rule dvd_trans [rotated])
  then show False
    using \<open>odd d\<close> by simp
qed

lemma acl_trailing: "mg_check_ip_acl (Some (bs ''+10.0.0.1 or 10.0.0.2'')) 0x0A000001 = Some 1"
  by code_simp

end
