(* ===== verification/Address.thy ===== *)
theory Address
  imports Scan Http_Auth
begin

text \<open>
  Addresses as texts: \<open>mg_parse_address\<close> of \<open>src/net.c\<close> with the hosts file that it asks, and the choice of a name server, of \<open>src/resolv.c\<close>.
  The contents of \<open>/etc/hosts\<close> and \<open>/etc/resolv.conf\<close> are arguments, \<open>None\<close> for a file that cannot be opened.
\<close>

section \<open>Lines of a file\<close>

text \<open>The line that \<open>fgets\<close> stores in a buffer of \<open>n\<close> bytes.\<close>

definition fgets :: "nat \<Rightarrow> byte list \<Rightarrow> byte list" where
  "fgets n fp = take (min (n - 1) (Suc (length (takeWhile (\<lambda>c. c \<noteq> LF) fp)))) fp"

definition lits :: "string \<Rightarrow> directive list" where
  "lits t = map D_lit (bs t)"

lemma fgets_short: "fp \<noteq> [] \<Longrightarrow> 1 < n \<Longrightarrow> length (drop (length (fgets n fp)) fp) < length fp"
  by (cases fp) (auto simp: fgets_def)

lemma fgets_line: "LF \<notin> set l \<Longrightarrow> length l + 2 \<le> n \<Longrightarrow> fgets n (l @ LF # t) = l @ [LF]"
  by (auto simp: fgets_def takeWhile_append)

section \<open>The name server\<close>

function nameserver_loop :: "byte list \<Rightarrow> byte list option" where
  "nameserver_loop fp =
     (if fp = [] then None
      else case sscanf 0 (c_str (fgets 512 fp)) (lits ''nameserver'' @ [D_space, D_until (Some 255) [10, 9, 32, 35]]) of
        Some [V_str buf] \<Rightarrow> Some buf
      | _ \<Rightarrow> nameserver_loop (drop (length (fgets 512 fp)) fp))"
  by pat_completeness auto
termination
  by (relation "measure length") (use fgets_short [of _ 512] in auto)

declare nameserver_loop.simps [simp del]

text \<open>The result 0 with the text stored in \<open>name\<close>, or -1.\<close>

definition mg_get_ip_address_of_nameserver :: "byte list option \<Rightarrow> nat \<Rightarrow> int \<times> byte list option" where
  "mg_get_ip_address_of_nameserver conf name_len = (case conf of
     None \<Rightarrow> (- 1, None)
   | Some fp \<Rightarrow> (case nameserver_loop fp of
       None \<Rightarrow> (- 1, None)
     | Some buf \<Rightarrow> (0, Some (take (name_len - 1) (bs ''udp://'' @ buf @ bs '':53'')))))"

section \<open>The hosts file\<close>

text \<open>
  The variables of \<open>mg_resolve_from_hosts_file\<close> keep their values from line to line: the buffer, the numbers and \<open>len\<close>. Reading behind the last NUL of
  the buffer and an alias of more than 255 bytes are undefined, which is \<open>None\<close>.
\<close>

record hosts_vars =
  line :: "byte list"
  num_a :: int
  num_b :: int
  num_c :: int
  num_d :: int
  len :: nat

definition set_line :: "byte list \<Rightarrow> byte list \<Rightarrow> byte list" where
  "set_line l buf = l @ [0] @ drop (length l + 1) buf"

lemma sscanf_word:
  "sscanf 0 s [D_str None, D_pos] =
     (let t = dropWhile isspace s; u = takeWhile (\<lambda>c. \<not> isspace c) t
      in if u = [] then Some [] else Some [V_str u, V_pos (length s - length t + length u)])"
  by (simp add: clip_def Let_def)

lemma sscanf_word_pos: "sscanf 0 s [D_str None, D_pos] = Some [V_str u, V_pos k] \<Longrightarrow> 0 < k"
  unfolding sscanf_word by (auto simp: Let_def split: if_splits)

text \<open>The loop over the aliases: whether \<open>name\<close> is one, and \<open>len\<close> at its end.\<close>

function alias_loop :: "byte list \<Rightarrow> byte list \<Rightarrow> nat \<Rightarrow> nat \<Rightarrow> (bool \<times> nat) option" where
  "alias_loop name buf p n =
     (if 0 \<notin> set (drop p buf) then None
      else case sscanf 0 (c_str (drop p buf)) [D_str None, D_pos] of
        Some [V_str al, V_pos k] \<Rightarrow>
          if 255 < length al then None
          else if al = name then Some (True, k)
          else alias_loop name buf (p + k) k
      | _ \<Rightarrow> Some (False, n))"
  by pat_completeness auto
termination
proof (relation "measure (\<lambda>(name, buf, p, n). length buf - p)", simp)
  fix name buf :: "byte list" and p n :: nat and x2 a list x21 al lista x22 k
  assume "\<not> 0 \<notin> set (drop p buf)" "sscanf 0 (c_str (drop p buf)) [D_str None, D_pos] = Some x2" "x2 = a # list" "a = V_str al"
    "list = x22 # lista" "x22 = V_pos k" "lista = []"
  then have "0 < k" "p < length buf"
    using sscanf_word_pos [of "c_str (drop p buf)" al k] by (auto simp: set_drop_subset not_less intro: ccontr)
  then show "((name, buf, p + k, k), name, buf, p, n) \<in> measure (\<lambda>(name, buf, p, n). length buf - p)"
    by simp
qed

declare alias_loop.simps [simp del]

text \<open>The values of a scan in their order; a variable that the scan does not reach keeps its value.\<close>

definition scan_nums :: "scanned list \<Rightarrow> hosts_vars \<Rightarrow> hosts_vars" where
  "scan_nums vs v =
     (let val = (\<lambda>i old. if i < length vs then (case vs ! i of V_int n \<Rightarrow> n | _ \<Rightarrow> old) else old)
      in v\<lparr>num_a := val 0 (num_a v), num_b := val 1 (num_b v), num_c := val 2 (num_c v), num_d := val 3 (num_d v),
           len := (if 4 < length vs then (case vs ! 4 of V_pos n \<Rightarrow> n | _ \<Rightarrow> len v) else len v)\<rparr>)"

text \<open>\<open>sscanf\<close> returns 0 if the first conversion does not match, but EOF if there is nothing to convert.\<close>

function hosts_loop :: "byte list \<Rightarrow> byte list \<Rightarrow> hosts_vars \<Rightarrow> u32 option option" where
  "hosts_loop name fp v =
     (if fp = [] then Some None
      else let l = fgets 1024 fp; v = v\<lparr>line := set_line l (line v)\<rparr>; rest = drop (length l) fp
           in if hd l = ascii CHR ''#'' then hosts_loop name rest v
              else case sscanf 0 (c_str (line v)) (dots4 D_uint @ [D_pos]) of
                None \<Rightarrow> None
              | Some vs \<Rightarrow>
                  if vs = [] \<and> dropWhile isspace (c_str (line v)) \<noteq> [] then hosts_loop name rest v
                  else let v = scan_nums vs v
                       in case alias_loop name (line v) (len v) (len v) of
                            None \<Rightarrow> None
                          | Some (True, n) \<Rightarrow> Some (Some (quad (num_a v) (num_b v) (num_c v) (num_d v)))
                          | Some (False, n) \<Rightarrow> hosts_loop name rest (v\<lparr>len := n\<rparr>))"
  by pat_completeness auto
termination
  by (relation "measure (\<lambda>(name, fp, v). length fp)") (use fgets_short [of _ 1024] in auto)

declare hosts_loop.simps [simp del]

text \<open>The address in host order, or \<open>Some None\<close> for the result -1. The buffer and the numbers have any value at first.\<close>

definition mg_resolve_from_hosts_file :: "hosts_vars \<Rightarrow> byte list option \<Rightarrow> byte list \<Rightarrow> u32 option option" where
  "mg_resolve_from_hosts_file junk hosts name = (case hosts of
     None \<Rightarrow> Some None
   | Some fp \<Rightarrow> hosts_loop name fp (junk\<lparr>len := 0\<rparr>))"

section \<open>Addresses\<close>

text \<open>
  The result of \<open>mg_parse_address\<close>: the returned value, whether the protocol is UDP, the host, the address and the port in host order. IPv6 is not
  compiled in.
\<close>

record address =
  rc :: int
  udp :: bool
  host :: "byte list option"
  sin_addr :: u32
  sin_port :: u16

definition MG_MAX_HOST_LEN :: nat where
  "MG_MAX_HOST_LEN = 200"

definition finish_address :: "byte list \<Rightarrow> int \<Rightarrow> nat \<Rightarrow> address \<Rightarrow> address" where
  "finish_address str port n sa =
     (let ch = (str @ [0]) ! n
      in sa\<lparr>sin_port := of_int port, rc := (if port < 0xffff \<and> (ch = 0 \<or> ch = 44 \<or> isspace ch) then int n else - 1)\<rparr>)"

definition parse_port :: "byte list \<Rightarrow> address \<Rightarrow> address option" where
  "parse_port str sa = (case sscanf 0 str [D_lit 58, D_uint, D_pos] of
     None \<Rightarrow> None
   | Some [V_int port, V_pos n] \<Rightarrow> Some (finish_address str port n sa)
   | _ \<Rightarrow> (case sscanf 0 str [D_uint, D_pos] of
       None \<Rightarrow> None
     | Some [V_int port, V_pos n] \<Rightarrow> Some (finish_address str port n sa)
     | _ \<Rightarrow> Some sa))"

definition parse_host :: "hosts_vars \<Rightarrow> byte list option \<Rightarrow> byte list \<Rightarrow> nat \<Rightarrow> address \<Rightarrow> address option" where
  "parse_host junk hosts str host_len sa =
     (if length str < host_len
      then (case sscanf 0 str [D_until None [32, 58], D_lit 58, D_uint, D_pos] of
          None \<Rightarrow> None
        | Some [V_str h, V_int port, V_pos n] \<Rightarrow>
            (case mg_resolve_from_hosts_file junk hosts h of
               None \<Rightarrow> None
             | Some None \<Rightarrow> Some (sa\<lparr>host := Some h, sin_port := of_int port, rc := 0\<rparr>)
             | Some (Some ip) \<Rightarrow> Some (finish_address str port n (sa\<lparr>host := Some h, sin_addr := ip\<rparr>)))
        | _ \<Rightarrow> parse_port str sa)
      else parse_port str sa)"

definition parse_endpoint :: "hosts_vars \<Rightarrow> byte list option \<Rightarrow> byte list \<Rightarrow> nat \<Rightarrow> address \<Rightarrow> address option" where
  "parse_endpoint junk hosts str host_len sa = (case sscanf 0 str (dots4 D_uint @ [D_lit 58, D_uint, D_pos]) of
     None \<Rightarrow> None
   | Some [V_int a, V_int b, V_int c, V_int d, V_int port, V_pos n] \<Rightarrow> Some (finish_address str port n (sa\<lparr>sin_addr := quad a b c d\<rparr>))
   | _ \<Rightarrow> parse_host junk hosts str host_len sa)"

definition mg_parse_address :: "hosts_vars \<Rightarrow> byte list option \<Rightarrow> byte list \<Rightarrow> nat \<Rightarrow> address option" where
  "mg_parse_address junk hosts str host_len =
     (let is_udp = (take 6 str = bs ''udp://'')
      in parse_endpoint junk hosts (if is_udp \<or> take 6 str = bs ''tcp://'' then drop 6 str else str) host_len
           \<lparr>rc = - 1, udp = is_udp, host = None, sin_addr = 0, sin_port = 0\<rparr>)"

section \<open>Looking up a host\<close>

text \<open>Lines of a hosts file: an address with its names, a comment, and a line that does not start with a number.\<close>

datatype hosts_line = Host_entry quad_nat "byte list list" | Comment "byte list" | Other "byte list"

definition names_text :: "byte list list \<Rightarrow> byte list" where
  "names_text ns = concat (map (\<lambda>n. 32 # n) ns)"

fun line_text :: "hosts_line \<Rightarrow> byte list" where
  "line_text (Host_entry q ns) = quad_text q @ names_text ns"
| "line_text (Comment t) = ascii CHR ''#'' # t"
| "line_text (Other t) = t"

definition hosts_text :: "hosts_line list \<Rightarrow> byte list" where
  "hosts_text ls = concat (map (\<lambda>l. line_text l @ [LF]) ls)"

definition no_number :: "byte list \<Rightarrow> bool" where
  "no_number t \<longleftrightarrow> t \<noteq> [] \<and> \<not> isspace (hd t) \<and> \<not> isdigit_byte (hd t) \<and> hd t \<noteq> ascii CHR ''+'' \<and> hd t \<noteq> ascii CHR ''-''"

fun line_kind_ok :: "hosts_line \<Rightarrow> bool" where
  "line_kind_ok (Host_entry q ns) \<longleftrightarrow> quad_ok q \<and> list_all (\<lambda>n. n \<noteq> [] \<and> length n \<le> 255 \<and> list_all (\<lambda>c. \<not> isspace c) n) ns"
| "line_kind_ok (Comment t) \<longleftrightarrow> True"
| "line_kind_ok (Other t) \<longleftrightarrow> no_number t"

definition line_ok :: "hosts_line \<Rightarrow> bool" where
  "line_ok l \<longleftrightarrow> line_kind_ok l \<and> LF \<notin> set (line_text l) \<and> 0 \<notin> set (line_text l) \<and> length (line_text l) \<le> 1022"

fun quad_addr :: "quad_nat \<Rightarrow> u32" where
  "quad_addr (a, b, c, d) = of_nat (a * 2 ^ 24 + b * 2 ^ 16 + c * 2 ^ 8 + d)"

text \<open>The address of the first entry with the name.\<close>

fun host_address :: "byte list \<Rightarrow> hosts_line list \<Rightarrow> u32 option" where
  "host_address name [] = None"
| "host_address name (Host_entry q ns # ls) = (if name \<in> set ns then Some (quad_addr q) else host_address name ls)"
| "host_address name (l # ls) = host_address name ls"

lemma quad_quad_addr: "quad_ok (a, b, c, d) \<Longrightarrow> quad (int a) (int b) (int c) (int d) = quad_addr (a, b, c, d)"
  by (simp only: quad_word quad_addr.simps)

lemma c_str_cut: "0 \<notin> set t \<Longrightarrow> c_str (t @ 0 # u) = t"
  by (auto simp: c_str_def takeWhile_append)

lemma isspace_ws [simp]: "isspace 32" "isspace LF" "\<not> isspace 0"
  by (simp_all add: isspace_def)

lemma scan_int_none: "no_number t \<Longrightarrow> scan_int t = None"
  by (cases t) (auto simp: no_number_def scan_int_def Let_def)

lemma sscanf_name:
  assumes "n \<noteq> []" "list_all (\<lambda>c. \<not> isspace c) n" "t = [] \<or> isspace (hd t)"
  shows "sscanf 0 (32 # n @ t) [D_str None, D_pos] = Some [V_str n, V_pos (Suc (length n))]"
proof -
  have "dropWhile isspace (n @ t) = n @ t" "takeWhile (\<lambda>c. \<not> isspace c) (n @ t) = n"
    using assms by (cases n; cases t; auto simp: list_all_iff takeWhile_append)+
  then show ?thesis
    using assms(1) by (simp add: clip_def Let_def)
qed

lemma alias_loop_names:
  assumes "list_all (\<lambda>n. n \<noteq> [] \<and> length n \<le> 255 \<and> list_all (\<lambda>c. \<not> isspace c) n) ns" "0 \<notin> set (names_text ns)"
  shows "\<exists>k. alias_loop name (pre @ names_text ns @ [LF, 0] @ junk) (length pre) n0 = Some (name \<in> set ns, k)"
  using assms
proof (induction ns arbitrary: pre n0)
  case Nil
  have "c_str ([LF, 0] @ junk) = [LF]"
    by (simp add: c_str_def)
  then show ?case
    by (subst alias_loop.simps) (simp add: names_text_def sscanf_word clip_def)
next
  case (Cons n ns)
  let ?t = "names_text ns @ [LF]"
  have s: "drop (length pre) (pre @ names_text (n # ns) @ [LF, 0] @ junk) = (32 # n @ ?t) @ 0 # junk"
    by (simp add: names_text_def)
  have "c_str ((32 # n @ ?t) @ 0 # junk) = 32 # n @ ?t"
    using Cons.prems(2) by (intro trans [OF c_str_cut]) (auto simp: names_text_def)
  moreover have "sscanf 0 (32 # n @ ?t) [D_str None, D_pos] = Some [V_str n, V_pos (Suc (length n))]"
    using Cons.prems(1) by (intro sscanf_name) (cases ns; auto simp: names_text_def)+
  moreover have "\<exists>k. alias_loop name ((pre @ 32 # n) @ names_text ns @ [LF, 0] @ junk) (length (pre @ 32 # n)) (Suc (length n)) = Some (name \<in> set ns, k)"
    using Cons.prems by (intro Cons.IH) (auto simp: names_text_def)
  ultimately show ?case
    using Cons.prems(1) s by (subst alias_loop.simps) (auto simp: names_text_def)
qed

lemma hosts_step:
  assumes "LF \<notin> set t" "0 \<notin> set t" "length t \<le> 1022"
  shows "hosts_loop name (t @ LF # rest) v =
     (let v = v\<lparr>line := t @ [LF, 0] @ drop (length t + 2) (line v)\<rparr>
      in if hd (t @ [LF]) = ascii CHR ''#'' then hosts_loop name rest v
         else case sscanf 0 (t @ [LF]) (dots4 D_uint @ [D_pos]) of
           None \<Rightarrow> None
         | Some vs \<Rightarrow>
             if vs = [] \<and> dropWhile isspace (t @ [LF]) \<noteq> [] then hosts_loop name rest v
             else let v = scan_nums vs v
                  in case alias_loop name (line v) (len v) (len v) of
                       None \<Rightarrow> None
                     | Some (True, n) \<Rightarrow> Some (Some (quad (num_a v) (num_b v) (num_c v) (num_d v)))
                     | Some (False, n) \<Rightarrow> hosts_loop name rest (v\<lparr>len := n\<rparr>))"
proof -
  have "fgets 1024 (t @ LF # rest) = t @ [LF]"
    using fgets_line assms by simp
  moreover have "set_line (t @ [LF]) buf = (t @ [LF]) @ 0 # drop (length t + 2) buf" "c_str ((t @ [LF]) @ 0 # u) = t @ [LF]" for buf u
    using c_str_cut [of "t @ [LF]"] assms(2) by (simp_all add: set_line_def)
  ultimately show ?thesis
    by (subst hosts_loop.simps) (simp add: Let_def del: sscanf.simps cong: option.case_cong if_cong prod.case_cong bool.case_cong)
qed

lemma hosts_loop_run: "list_all line_ok ls \<Longrightarrow> hosts_loop name (hosts_text ls) v = Some (host_address name ls)"
proof (induction ls arbitrary: v)
  case Nil
  then show ?case
    by (subst hosts_loop.simps) (simp add: hosts_text_def)
next
  case (Cons l ls)
  let ?t = "line_text l" and ?v = "v\<lparr>line := line_text l @ [LF, 0] @ drop (length (line_text l) + 2) (line v)\<rparr>"
  have ok: "line_kind_ok l" "LF \<notin> set ?t" "0 \<notin> set ?t" "length ?t \<le> 1022" and IH: "hosts_loop name (hosts_text ls) v' = Some (host_address name ls)" for v'
    using Cons by (simp_all add: line_ok_def)
  note step = hosts_step [OF ok(2-4), of name "hosts_text ls" v]
  have "hosts_loop name (?t @ LF # hosts_text ls) v = Some (host_address name (l # ls))"
  proof (cases l)
    case (Comment t)
    then show ?thesis
      unfolding step by (simp add: IH)
  next
    case (Other t)
    then have "sscanf 0 (t @ [LF]) (dots4 D_uint @ [D_pos]) = Some []" "dropWhile isspace (t @ [LF]) \<noteq> []"
      using ok(1) scan_int_none [of "t @ [LF]"] by (auto simp: dots4_def no_number_def)
    then show ?thesis
      unfolding step Let_def by (simp add: IH Other)
  next
    case (Host_entry q ns)
    obtain a b c d where q: "q = (a, b, c, d)"
      by (cases q) auto
    let ?p = "length (quad_text q)"
    have "\<not> isdigit_byte (hd ((names_text ns @ [LF]) @ [0]))"
      by (cases ns) (simp_all add: names_text_def isdigit_byte_def)
    then have scan: "sscanf 0 (?t @ [LF]) (dots4 D_uint @ [D_pos]) = Some [V_int (int a), V_int (int b), V_int (int c), V_int (int d), V_pos ?p]"
      using sscanf_quad [of "names_text ns @ [LF]" a b c d D_uint 0 "[D_pos]"] ok(1) by (simp add: Host_entry q)
    obtain k where al: "alias_loop name (?t @ [LF, 0] @ drop (length ?t + 2) (line v)) ?p ?p = Some (name \<in> set ns, k)"
      using alias_loop_names [of ns name "quad_text q" "drop (length ?t + 2) (line v)" ?p] ok by (auto simp: Host_entry)
    have "hd (?t @ [LF]) \<noteq> ascii CHR ''#''"
      using dec_digits [of a] dec_not_Nil [of a] by (cases "dec a") (auto simp: Host_entry q isdigit_byte_def)
    then show ?thesis
      using al ok(1) quad_quad_addr [of a b c d] unfolding step scan
      by (simp add: scan_nums_def Let_def IH Host_entry q del: quad_text.simps quad_addr.simps split: bool.split)
  qed
  then show ?case
    by (simp add: hosts_text_def)
qed

text \<open>
  An address of a line of a file whose number only starts as an IPv4 address takes the other numbers from the line before.
\<close>

lemma hosts_stale_numbers:
  "mg_resolve_from_hosts_file \<lparr>line = replicate 1024 0, num_a = 0, num_b = 0, num_c = 0, num_d = 0, len = 0\<rparr>
     (Some (bs ''1.2.3.4 a'' @ [LF] @ bs ''9:: b'' @ [LF])) (bs ''b'') = Some (Some 0x09020304)"
  by code_simp

section \<open>Reading addresses\<close>

datatype endpoint = Ip quad_nat nat | Host "byte list" nat | Any_host nat | Any_port nat

fun endpoint_text :: "endpoint \<Rightarrow> byte list" where
  "endpoint_text (Ip q port) = quad_text q @ 58 # dec port"
| "endpoint_text (Host h port) = h @ 58 # dec port"
| "endpoint_text (Any_host port) = 58 # dec port"
| "endpoint_text (Any_port port) = dec port"

fun endpoint_ok :: "endpoint \<Rightarrow> bool" where
  "endpoint_ok (Ip q port) \<longleftrightarrow> quad_ok q \<and> port < 65535"
| "endpoint_ok (Host h port) \<longleftrightarrow> no_number h \<and> 32 \<notin> set h \<and> 58 \<notin> set h \<and> length h < MG_MAX_HOST_LEN - 6 \<and> port < 65535"
| "endpoint_ok (Any_host port) \<longleftrightarrow> port < 65535"
| "endpoint_ok (Any_port port) \<longleftrightarrow> port < 65535"

fun scheme_text :: "bool option \<Rightarrow> byte list" where
  "scheme_text None = []"
| "scheme_text (Some True) = bs ''udp://''"
| "scheme_text (Some False) = bs ''tcp://''"

text \<open>The address that a text stands for. A host that the hosts file does not have is left to the resolver: the result is 0.\<close>

fun endpoint_address :: "hosts_line list \<Rightarrow> bool \<Rightarrow> endpoint \<Rightarrow> address" where
  "endpoint_address ls u (Ip q port) =
     \<lparr>rc = int (length (endpoint_text (Ip q port))), udp = u, host = None, sin_addr = quad_addr q, sin_port = of_nat port\<rparr>"
| "endpoint_address ls u (Host h port) = (case host_address h ls of
     None \<Rightarrow> \<lparr>rc = 0, udp = u, host = Some h, sin_addr = 0, sin_port = of_nat port\<rparr>
   | Some ip \<Rightarrow> \<lparr>rc = int (length (endpoint_text (Host h port))), udp = u, host = Some h, sin_addr = ip, sin_port = of_nat port\<rparr>)"
| "endpoint_address ls u e = \<lparr>rc = int (length (endpoint_text e)), udp = u, host = None, sin_addr = 0,
     sin_port = of_nat (case e of Any_host port \<Rightarrow> port | Any_port port \<Rightarrow> port | _ \<Rightarrow> 0)\<rparr>"

lemma sscanf_dec_end: "n < 2 ^ 32 \<Longrightarrow> sscanf pos (dec n) [D_uint, D_pos] = Some [V_int (int n), V_pos (pos + length (dec n))]"
  using sscanf_dec(2) [of "[]" n pos "[D_pos]"] by simp

lemma sscanf_until:
  assumes "h \<noteq> []" "32 \<notin> set h" "58 \<notin> set h"
  shows "sscanf pos (h @ 58 # t) (D_until None [32, 58] # ds) = map_option (\<lambda>vs. V_str h # vs) (sscanf (pos + length h) (58 # t) ds)"
proof -
  have "takeWhile (\<lambda>c. c \<notin> set [32, 58]) (h @ 58 # t) = h"
    using assms by (auto simp: takeWhile_append)
  then show ?thesis
    using assms(1) by (simp add: clip_def Let_def)
qed

lemma length_dec: "n < 10 ^ k \<Longrightarrow> 0 < k \<Longrightarrow> length (dec n) \<le> k"
proof (induction k arbitrary: n)
  case (Suc k)
  then show ?case
    by (cases "n < 10"; cases k) (auto simp: dec.simps [of n] less_mult_imp_div_less)
qed simp

lemma finish_whole: "port < 65535 \<Longrightarrow> finish_address str (int port) (length str) sa = sa\<lparr>sin_port := of_nat port, rc := int (length str)\<rparr>"
  by (simp add: finish_address_def Let_def)

lemma sscanf_port: "n < 65535 \<Longrightarrow> sscanf pos (58 # dec n) [D_lit 58, D_uint, D_pos] = Some [V_int (int n), V_pos (pos + 1 + length (dec n))]"
  using sscanf_dec_end [of n "pos + 1"] by simp

lemma parse_port_text:
  assumes "port < 65535" "str = dec port \<or> str = 58 # dec port"
  shows "parse_port str sa = Some (sa\<lparr>sin_port := of_nat port, rc := int (length str)\<rparr>)"
proof (cases "str = dec port")
  case True
  have "sscanf 0 (dec port) [D_lit 58, D_uint, D_pos] = Some []"
    using dec_digits [of port] dec_not_Nil [of port] by (cases "dec port") auto
  moreover have "sscanf 0 (dec port) [D_uint, D_pos] = Some [V_int (int port), V_pos (length (dec port))]"
    using sscanf_dec_end [of port 0] assms(1) by simp
  ultimately show ?thesis
    using finish_whole [OF assms(1)] by (simp add: parse_port_def True del: sscanf.simps)
next
  case False
  then show ?thesis
    using assms(2) finish_whole [OF assms(1), of "58 # dec port"] sscanf_port [OF assms(1), of 0] by (simp add: parse_port_def del: sscanf.simps)
qed

lemma parse_host_port:
  assumes "port < 65535" "str = dec port \<or> str = 58 # dec port"
  shows "parse_host junk hosts str host_len sa = parse_port str sa"
proof -
  have "takeWhile (\<lambda>c. c \<notin> set [32, 58]) (dec port) = dec port"
    using dec_digits [of port] by (auto simp: list_all_iff takeWhile_eq_all_conv)
  then have "sscanf 0 (dec port) [D_until None [32, 58], D_lit 58, D_uint, D_pos] = Some [V_str (dec port)]"
    using dec_not_Nil [of port] by (simp add: clip_def Let_def del: takeWhile_eq_all_conv)
  moreover have "sscanf 0 (58 # dec port) [D_until None [32, 58], D_lit 58, D_uint, D_pos] = Some []"
    by (simp add: clip_def)
  ultimately show ?thesis
    using assms(2) by (auto simp add: parse_host_def simp del: sscanf.simps)
qed

lemma parse_host_text:
  assumes "endpoint_ok (Host h port)" "list_all line_ok ls"
  shows "parse_host junk (Some (hosts_text ls)) (endpoint_text (Host h port)) MG_MAX_HOST_LEN \<lparr>rc = - 1, udp = u, host = None, sin_addr = 0, sin_port = 0\<rparr>
    = Some (endpoint_address ls u (Host h port))"
proof -
  have "length (dec port) \<le> 5"
    using assms(1) by (intro length_dec) auto
  then have len: "length (h @ 58 # dec port) < MG_MAX_HOST_LEN"
    using assms(1) by (simp add: MG_MAX_HOST_LEN_def)
  have "sscanf 0 (h @ 58 # dec port) [D_until None [32, 58], D_lit 58, D_uint, D_pos] = Some [V_str h, V_int (int port), V_pos (length (h @ 58 # dec port))]"
    using assms(1) sscanf_until [of h 0 "dec port"] sscanf_port [of port "length h"] by (simp add: no_number_def del: sscanf.simps)
  moreover have "mg_resolve_from_hosts_file junk (Some (hosts_text ls)) h = Some (host_address h ls)"
    using hosts_loop_run [OF assms(2)] by (simp add: mg_resolve_from_hosts_file_def)
  ultimately show ?thesis
    using len assms(1) finish_whole [of port "h @ 58 # dec port"] by (simp add: parse_host_def del: sscanf.simps split: option.split)
qed

lemma scheme_free:
  assumes "endpoint_ok e"
  shows "take 6 (endpoint_text e) \<notin> {bs ''udp://'', bs ''tcp://''}"
proof
  assume "take 6 (endpoint_text e) \<in> {bs ''udp://'', bs ''tcp://''}"
  then obtain x y z t where p: "endpoint_text e = [x, y, z] @ 58 # 47 # t" and x: "\<not> isdigit_byte x" "x \<noteq> 58" "58 \<notin> set [x, y, z]"
  proof -
    assume h: "\<And>x y z t. endpoint_text e = [x, y, z] @ 58 # 47 # t \<Longrightarrow> \<not> isdigit_byte x \<Longrightarrow> x \<noteq> 58 \<Longrightarrow> 58 \<notin> set [x, y, z] \<Longrightarrow> thesis"
    assume "take 6 (endpoint_text e) \<in> {bs ''udp://'', bs ''tcp://''}"
    then have "endpoint_text e = bs ''udp://'' @ drop 6 (endpoint_text e) \<or> endpoint_text e = bs ''tcp://'' @ drop 6 (endpoint_text e)"
      by (metis append_take_drop_id empty_iff insert_iff)
    then show thesis
      using h by (auto simp: bs_def isdigit_byte_def)
  qed
  have d: "isdigit_byte (hd (dec n @ u))" "hd (dec n @ u) \<noteq> 47" for n u
    using dec_digits [of n] dec_not_Nil [of n] by (cases "dec n"; force)+
  show False
  proof (cases e)
    case (Ip q port)
    then show ?thesis
      using p x(1) d(1) by (cases q) (metis append_Cons append_assoc endpoint_text.simps(1) list.sel(1) quad_text.simps)
  next
    case (Host h port)
    then have "takeWhile (\<lambda>c. c \<noteq> 58) (endpoint_text e) = h" "dropWhile (\<lambda>c. c \<noteq> 58) (endpoint_text e) = 58 # dec port"
      using assms by (auto simp: takeWhile_append dropWhile_append)
    moreover have "dropWhile (\<lambda>c. c \<noteq> 58) (endpoint_text e) = 58 # 47 # t"
      using x(3) unfolding p by simp
    ultimately show ?thesis
      using d(2) [of port "[]"] by (metis append_Nil2 list.inject list.sel(1))
  next
    case (Any_host port)
    then show ?thesis
      using p x(2) by simp
  next
    case (Any_port port)
    then show ?thesis
      using p x(1) d(1) [of port "[]"] by simp
  qed
qed

lemma scan_quad_none:
  assumes "endpoint_ok e" "\<And>q port. e \<noteq> Ip q port"
  shows "\<exists>vs. sscanf 0 (endpoint_text e) (dots4 D_uint @ [D_lit 58, D_uint, D_pos]) = Some vs \<and> length vs < 2"
proof (cases e)
  case (Any_port port)
  then show ?thesis
    using assms(1) sscanf_dec(2) [of "[]" port 0] by (simp add: dots4_def)
next
  case (Any_host port)
  then show ?thesis
    using scan_int_none [of "58 # dec port"] by (simp add: dots4_def no_number_def isspace_def)
next
  case (Host h port)
  then show ?thesis
    using assms(1) scan_int_none [of "h @ 58 # dec port"] by (cases h) (simp_all add: dots4_def no_number_def)
qed (use assms(2) in auto)

lemma endpoint_parsed:
  assumes "endpoint_ok e" "list_all line_ok ls"
  shows "parse_endpoint junk (Some (hosts_text ls)) (endpoint_text e) MG_MAX_HOST_LEN \<lparr>rc = - 1, udp = u, host = None, sin_addr = 0, sin_port = 0\<rparr>
    = Some (endpoint_address ls u e)" (is "parse_endpoint _ _ _ _ ?sa = _")
proof (cases "\<exists>q port. e = Ip q port")
  case True
  then obtain a b c d port where e: "e = Ip (a, b, c, d) port"
    by auto
  have "sscanf 0 (endpoint_text e) (dots4 D_uint @ [D_lit 58, D_uint, D_pos])
      = Some [V_int (int a), V_int (int b), V_int (int c), V_int (int d), V_int (int port), V_pos (length (endpoint_text e))]"
    using sscanf_quad [of "58 # dec port" a b c d D_uint 0 "[D_lit 58, D_uint, D_pos]"] sscanf_port [of port] assms(1) by (simp add: e del: sscanf.simps)
  then show ?thesis
    using assms(1) finish_whole [of port "endpoint_text e"] quad_quad_addr [of a b c d] by (simp add: e parse_endpoint_def del: sscanf.simps quad_addr.simps quad_text.simps)
next
  case False
  then obtain vs where "sscanf 0 (endpoint_text e) (dots4 D_uint @ [D_lit 58, D_uint, D_pos]) = Some vs" "length vs < 2"
    using scan_quad_none [OF assms(1)] by blast
  moreover have "parse_host junk (Some (hosts_text ls)) (endpoint_text e) MG_MAX_HOST_LEN ?sa = Some (endpoint_address ls u e)"
    using False assms(1) parse_host_text [OF _ assms(2)] by (cases e) (auto simp: parse_host_port parse_port_text)
  ultimately show ?thesis
    by (cases vs; cases "tl vs") (auto simp: parse_endpoint_def split: scanned.split)
qed

text \<open>
  C20. Addresses with a port below 65535 are read back: for every text \<open>a.b.c.d:port\<close>, \<open>host:port\<close>, \<open>:port\<close> or \<open>port\<close>, with or without \<open>udp://\<close> or \<open>tcp://\<close>, the address, the
  port and the protocol are those of the text and the result is its length. A host is looked up in the hosts file, whose first entry with the name decides,
  whatever comments and other lines it has; a host that is not there gives the result 0, which leaves it to the resolver. The numbers of an address are
  below 256. A host name has less than 194 bytes, no space or colon, and does not start with a digit, a sign or a white space, which \<open>sscanf\<close> would read as the start of an
  address; the port 65535 is refused by the code (a finding). Every line of the hosts file has at most 1022 bytes and no NUL and is an entry (an address of four numbers below 256
  with names of at most 255 bytes), a comment, or does not start with a number, a sign or a white space: another line that starts with a number is taken
  for an address (\<open>hosts_stale_numbers\<close>).
\<close>

theorem parse_address_correct:
  assumes "endpoint_ok e" "list_all line_ok ls"
  shows "mg_parse_address junk (Some (hosts_text ls)) (scheme_text scheme @ endpoint_text e) MG_MAX_HOST_LEN
    = Some (endpoint_address ls (scheme = Some True) e)"
proof -
  have "length (bs ''udp://'') = 6" "length (bs ''tcp://'') = 6" "bs ''tcp://'' \<noteq> bs ''udp://''"
    by (simp_all add: bs_def)
  then show ?thesis
    using endpoint_parsed [OF assms] scheme_free [OF assms(1)]
    by (cases scheme rule: scheme_text.cases) (simp_all add: mg_parse_address_def)
qed

theorem parse_address_correct_witness:
  "mg_parse_address \<lparr>line = [], num_a = 0, num_b = 0, num_c = 0, num_d = 0, len = 0\<rparr>
     (Some (bs ''# names'' @ [LF] @ bs ''::1 box'' @ [LF] @ bs ''127.0.0.1 localhost box'' @ [LF])) (bs ''udp://box:53'') MG_MAX_HOST_LEN
   = Some \<lparr>rc = 6, udp = True, host = Some (bs ''box''), sin_addr = 0x7F000001, sin_port = 53\<rparr>"
proof -
  let ?ls = "[Comment (bs '' names''), Other (bs ''::1 box''), Host_entry (127, 0, 0, 1) [bs ''localhost'', bs ''box'']]" and ?e = "Host (bs ''box'') 53"
  have "list_all line_ok ?ls" "endpoint_ok ?e"
    by (simp_all add: line_ok_def no_number_def names_text_def isspace_def isdigit_byte_def dec.simps bs_def MG_MAX_HOST_LEN_def)
  then have "mg_parse_address \<lparr>line = [], num_a = 0, num_b = 0, num_c = 0, num_d = 0, len = 0\<rparr> (Some (hosts_text ?ls)) (scheme_text (Some True) @ endpoint_text ?e)
      MG_MAX_HOST_LEN = Some (endpoint_address ?ls True ?e)"
    using parse_address_correct [of ?e ?ls _ "Some True"] by simp
  then show ?thesis
    by (simp add: hosts_text_def names_text_def dec.simps bs_def)
qed

section \<open>The address of the name server\<close>

lemma sscanf_lits: "sscanf pos (map ascii t @ s) (map D_lit (map ascii t) @ ds) = sscanf (pos + length t) s ds"
  by (induction t arbitrary: pos) simp_all

text \<open>
  The first line \<open>nameserver a.b.c.d\<close> of the configuration, with lines before it that start with another letter, gives an address that
  \<open>mg_parse_address\<close> reads as port 53 of \<open>a.b.c.d\<close> over UDP.
\<close>

lemma quad_text_short: "quad_ok q \<Longrightarrow> length (quad_text q) \<le> 15"
  using length_dec [of "fst q" 3] length_dec [of "fst (snd q)" 3] length_dec [of "fst (snd (snd q))" 3] length_dec [of "snd (snd (snd q))" 3]
  by (cases q) simp

lemma nameserver_line:
  assumes "quad_ok q"
  shows "nameserver_loop (bs ''nameserver '' @ quad_text q @ LF # t) = Some (quad_text q)"
proof -
  obtain a b c d where q: "q = (a, b, c, d)"
    by (cases q) auto
  have len: "length (quad_text q) \<le> 15"
    using assms by (rule quad_text_short)
  have dots: "x \<in> set (quad_text q) \<Longrightarrow> isdigit_byte x \<or> x = 46" for x
    using dec_digits by (auto simp: q list_all_iff)
  then have n: "LF \<notin> set (quad_text q)" "0 \<notin> set (quad_text q)" "takeWhile (\<lambda>c. c \<notin> set [10, 9, 32, 35]) (quad_text q @ [LF]) = quad_text q"
    by (fastforce simp: isdigit_byte_def takeWhile_append)+
  let ?l = "bs ''nameserver '' @ quad_text q"
  have "fgets 512 (?l @ LF # t) = ?l @ [LF]"
    using n(1) len by (intro fgets_line) (auto simp: bs_def)
  moreover have "c_str (?l @ [LF]) = bs ''nameserver'' @ 32 # quad_text q @ [LF]"
    using n(2) by (simp add: c_str_def bs_def takeWhile_append)
  moreover obtain x r where x: "quad_text q = x # r"
    using dec_not_Nil [of a] by (cases "dec a") (auto simp: q)
  then have "\<not> isspace x"
    using dots [of x] isdigit_not [of x] by (auto simp: isspace_def word_le_nat_alt isdigit_byte_def)
  then have "sscanf pos (32 # quad_text q @ [LF]) [D_space, D_until (Some 255) [10, 9, 32, 35]] = Some [V_str (quad_text q)]" for pos
    using n(3) len x by (simp add: clip_def Let_def del: quad_text.simps)
  then have "sscanf 0 (bs ''nameserver'' @ 32 # quad_text q @ [LF]) (lits ''nameserver'' @ [D_space, D_until (Some 255) [10, 9, 32, 35]]) = Some [V_str (quad_text q)]"
    unfolding lits_def bs_def sscanf_lits .
  ultimately show ?thesis
    by (subst nameserver_loop.simps) (simp del: sscanf.simps quad_text.simps)
qed

lemma nameserver_other:
  assumes "LF \<notin> set l" "length l \<le> 510" "hd (l @ [LF]) \<noteq> ascii CHR ''n''"
  shows "nameserver_loop (l @ LF # t) = nameserver_loop t"
proof -
  have "\<exists>x r. c_str (l @ [LF]) = x # r \<and> x \<noteq> ascii CHR ''n'' \<or> c_str (l @ [LF]) = []"
    using assms(3) by (cases l) (auto simp: c_str_def)
  then have "sscanf 0 (c_str (l @ [LF])) (lits ''nameserver'' @ [D_space, D_until (Some 255) [10, 9, 32, 35]]) = Some []"
    by (auto simp: lits_def bs_def)
  moreover have "fgets 512 (l @ LF # t) = l @ [LF]"
    using assms fgets_line by simp
  ultimately show ?thesis
    by (subst nameserver_loop.simps) (simp del: sscanf.simps)
qed

lemma nameserver_address:
  assumes "list_all (\<lambda>l. LF \<notin> set l \<and> length l \<le> 510 \<and> hd (l @ [LF]) \<noteq> ascii CHR ''n'') pre" "quad_ok q" "list_all line_ok ls" "256 \<le> name_len"
  shows "\<exists>name. mg_get_ip_address_of_nameserver (Some (concat (map (\<lambda>l. l @ [LF]) pre) @ bs ''nameserver '' @ quad_text q @ LF # t)) name_len = (0, Some name)
    \<and> mg_parse_address junk (Some (hosts_text ls)) name MG_MAX_HOST_LEN = Some (endpoint_address ls True (Ip q 53))"
proof -
  have "nameserver_loop (concat (map (\<lambda>l. l @ [LF]) pre) @ bs ''nameserver '' @ quad_text q @ LF # t) = Some (quad_text q)"
    using assms(1) nameserver_line [OF assms(2)] by (induction pre) (simp_all add: nameserver_other del: hd_append)
  moreover have "length (bs ''udp://'' @ quad_text q @ bs '':53'') \<le> name_len - 1"
    using assms(2,4) quad_text_short [OF assms(2)] by (simp add: bs_def)
  moreover have "bs ''udp://'' @ quad_text q @ bs '':53'' = scheme_text (Some True) @ endpoint_text (Ip q 53)"
    by (simp add: bs_def dec.simps)
  moreover have "mg_parse_address junk (Some (hosts_text ls)) (scheme_text (Some True) @ endpoint_text (Ip q 53)) MG_MAX_HOST_LEN = Some (endpoint_address ls True (Ip q 53))"
    using endpoint_parsed [OF _ assms(3), of "Ip q 53"] assms(2) by (simp add: mg_parse_address_def bs_def)
  ultimately show ?thesis
    by (simp add: mg_get_ip_address_of_nameserver_def)
qed

end
