(* ===== verification/Local_Path.thy ===== *)
theory Local_Path
  imports Uri Http_Auth
begin

text \<open>
  From the URI of a request to the path of a file (\<open>src/http.c\<close>): \<open>mg_is_dav_request\<close>, \<open>mg_is_file_hidden\<close>, \<open>mg_find_index_file\<close>
  and \<open>mg_uri_to_local_path\<close>. The file system is an argument: what \<open>stat\<close> says of a path.
\<close>

section \<open>Files and options\<close>

datatype file_kind = S_REG | S_DIR | S_OTHER

record file_stat =
  st_kind :: file_kind
  st_mtime :: nat
  st_size :: nat

type_synonym file_system = "byte list \<Rightarrow> file_stat option"

abbreviation DIRSEP :: byte where "DIRSEP \<equiv> 47"

record serve_opts =
  document_root :: "byte list"
  index_files :: "byte list"
  auth_domain :: "byte list option"
  per_directory_auth_file :: "byte list option"
  global_auth_file :: "byte list option"
  enable_directory_listing :: "byte list"
  ssi_pattern :: "byte list"
  ip_acl :: "byte list option"
  url_rewrites :: "byte list"
  dav_document_root :: "byte list option"
  dav_auth_file :: "byte list option"
  hidden_file_pattern :: "byte list option"
  cgi_file_pattern :: "byte list"
  extra_headers :: "byte list"
  custom_mime_types :: "byte list"

definition mg_is_dav_request :: "byte list \<Rightarrow> bool" where
  "mg_is_dav_request s \<longleftrightarrow> list_ex (\<lambda>m. mg_vcmp s (bs m) = 0) [''PUT'', ''DELETE'', ''MKCOL'', ''PROPFIND'', ''MOVE'']"

text \<open>The part behind the last slash.\<close>

definition base_name :: "byte list \<Rightarrow> byte list" where
  "base_name path = rev (takeWhile (\<lambda>c. c \<noteq> DIRSEP) (rev path))"

definition mg_is_file_hidden :: "serve_opts \<Rightarrow> byte list \<Rightarrow> bool \<Rightarrow> bool" where
  "mg_is_file_hidden opts path0 exclude_specials \<longleftrightarrow>
     (let path = base_name path0 in
      exclude_specials \<and> (path = bs ''.'' \<or> path = bs ''..'')
      \<or> (case per_directory_auth_file opts of None \<Rightarrow> False | Some p1 \<Rightarrow> mg_match_prefix p1 path = int (length p1))
      \<or> (case hidden_file_pattern opts of None \<Rightarrow> False | Some p2 \<Rightarrow> mg_match_prefix p2 path > 0))"

function mg_find_index_file :: "file_system \<Rightarrow> byte list \<Rightarrow> byte list \<Rightarrow> (byte list \<times> file_stat) option" where
  "mg_find_index_file fs path list = (case mg_next_comma_list_entry list False of
     None \<Rightarrow> None
   | Some (rest, vec, eq) \<Rightarrow>
       let index_file = path @ DIRSEP # vec
       in case fs index_file of
            Some st \<Rightarrow> if st_kind st = S_REG then Some (index_file, st) else mg_find_index_file fs path rest
          | None \<Rightarrow> mg_find_index_file fs path rest)"
  by pat_completeness auto
termination
  by (relation "measure (\<lambda>(fs, path, list). length list)")
    (auto simp: mg_next_comma_list_entry_def Let_def split: if_splits option.splits dest!: memchr_Some)

declare mg_find_index_file.simps [simp del]

section \<open>Local paths\<close>

text \<open>
  The rules: the root and the index in the URI where the file part starts. A rule without an equals sign ends the search with no root.
  The URI is taken to be followed by a byte that the pattern does not have.
\<close>

function find_rewrite :: "byte list \<Rightarrow> byte list option \<Rightarrow> byte list \<Rightarrow> (byte list option \<times> nat)" where
  "find_rewrite uri hh rules = (case mg_next_comma_list_entry rules True of
     None \<Rightarrow> (None, 0)
   | Some (rest, a, b) \<Rightarrow>
       if 1 < length a \<and> hd a = 64 then
         (case hh of
            Some h \<Rightarrow> if length h = length a - 1 \<and> mg_ncasecmp (tl a) h (length a - 1) = 0 then (b, 0) else find_rewrite uri hh rest
          | None \<Rightarrow> find_rewrite uri hh rest)
       else let match_len = mg_match_prefix_n rules (length a) uri; n = nat match_len
            in if match_len > 0
               then if rd uri n = DIRSEP \<or> n = length uri then (b, n)
                    else if rd uri (n - 1) = DIRSEP then (b, n - 1)
                    else find_rewrite uri hh rest
               else find_rewrite uri hh rest)"
  by pat_completeness auto
termination
  by (relation "measure (\<lambda>(uri, hh, rules). length rules)")
    (auto simp: mg_next_comma_list_entry_def Let_def split: if_splits option.splits dest!: memchr_Some)

declare find_rewrite.simps [simp del]

definition choose_root :: "serve_opts \<Rightarrow> http_msg \<Rightarrow> byte list \<times> nat" where
  "choose_root opts hm =
     (let (root, start) = find_rewrite (hq_uri hm) (http_header hm (bs ''Host'')) (url_rewrites opts)
      in (case root of
            Some r \<Rightarrow> r
          | None \<Rightarrow> (case dav_document_root opts of
              Some r \<Rightarrow> if mg_is_dav_request (hq_method hm) then r else document_root opts
            | None \<Rightarrow> document_root opts), start))"

text \<open>\<open>while (p > ps && *p != DIRSEP) p--\<close> on what stands behind the root.\<close>

definition pop_component :: "byte list \<Rightarrow> byte list" where
  "pop_component path = rev (tl (dropWhile (\<lambda>c. c \<noteq> DIRSEP) (rev path)))"

text \<open>
  The loop over the components, from the index \<open>i\<close> of the URI on, with the path behind the root and the size of the buffer. A component with a NUL or a
  slash makes the whole call fail; the loop of the source runs on, to no effect. The result has the index where the rest of the URI starts.
\<close>

function local_loop :: "file_system \<Rightarrow> byte list \<Rightarrow> nat \<Rightarrow> byte list \<Rightarrow> byte list \<Rightarrow> nat \<Rightarrow> bool \<Rightarrow> (byte list \<times> nat) option" where
  "local_loop fs uri cap root path i ex =
     (if length uri < i then Some (path, i)
      else let st = (if ex then fs (root @ path) else None) in
        if st \<noteq> None \<and> st_kind (the st) = S_REG then Some (path, if rd uri (i - 1) = DIRSEP then i - 1 else i)
        else if length uri \<le> i then Some (path, i)
        else let (component, rest) = parse_uri_component DIRSEP (drop i uri); nx = length uri - length rest; ex = (st \<noteq> None) in
          if component = [] then local_loop fs uri cap root path nx ex
          else let (len, out) = mg_url_decode component (cap - (length root + length path) - 1) False; c = take (nat len) out in
            if len \<le> 0 then None
            else if mg_vcmp c (bs ''.'') = 0 then local_loop fs uri cap root path nx ex
            else if mg_vcmp c (bs ''..'') = 0 then local_loop fs uri cap root (pop_component path) nx ex
            else if 0 \<in> set c \<or> DIRSEP \<in> set c then None
            else local_loop fs uri cap root (path @ DIRSEP # c) nx ex)"
  by pat_completeness auto
termination
proof -
  have *: "length uri - length (snd (parse_uri_component DIRSEP (drop i uri))) > i" if "i < length uri" for uri i
    using length_component [of "drop i uri" DIRSEP] that by simp
  show ?thesis
    by (relation "measure (\<lambda>(fs, uri, cap, root, path, i, ex). length uri - i)")
      (auto dest!: * simp: prod_eq_iff not_le intro!: diff_less_mono2)
qed

declare local_loop.simps [simp del]

text \<open>
  \<open>None\<close> is the failing assertion on an empty root, \<open>Some None\<close> the result 0. The path loses the last slash of the root.
\<close>

definition strip_root :: "byte list \<Rightarrow> byte list" where
  "strip_root root = (if List.last root = DIRSEP then butlast root else root)"

definition mg_uri_to_local_path :: "file_system \<Rightarrow> serve_opts \<Rightarrow> http_msg \<Rightarrow> (byte list \<times> byte list) option option" where
  "mg_uri_to_local_path fs opts hm =
     (let (root, start) = choose_root opts hm; uri = hq_uri hm
      in if root = [] then None
         else Some (map_option (\<lambda>(path, i). (strip_root root @ path, drop i uri))
                (local_loop fs uri (length root + length uri + 1) (strip_root root) [] (start + 1) True)))"

section \<open>Paths stay below the root\<close>

definition path_of :: "byte list list \<Rightarrow> byte list" where
  "path_of cs = concat (map (\<lambda>c. DIRSEP # c) cs)"

definition file_name_ok :: "byte list \<Rightarrow> bool" where
  "file_name_ok c \<longleftrightarrow> c \<noteq> [] \<and> c \<noteq> bs ''.'' \<and> c \<noteq> bs ''..'' \<and> 0 \<notin> set c \<and> DIRSEP \<notin> set c"

lemma path_of_simps [simp]: "path_of [] = []" "path_of (c # cs) = DIRSEP # c @ path_of cs" "path_of (cs @ ds) = path_of cs @ path_of ds"
  by (simp_all add: path_of_def)

lemma pop_path_of: "DIRSEP \<notin> set c \<Longrightarrow> pop_component (path_of cs @ DIRSEP # c) = path_of cs"
  by (auto simp: pop_component_def dropWhile_append)

lemma vcmp_refl: "mg_vcmp s s = 0"
proof -
  have "memcmp s s n = 0" for n
  proof (induction s arbitrary: n)
    case (Cons a s)
    then show ?case
      by (cases n) simp_all
  qed simp
  then show ?thesis
    by (simp add: mg_vcmp_def size_diff_def)
qed

lemma vcmp_neq: "mg_vcmp s t \<noteq> 0 \<Longrightarrow> s \<noteq> t"
  using vcmp_refl by blast

text \<open>The loop ends with the path it has, or goes on with the same path, without the last component, or with one component more.\<close>

lemma local_loop_step:
  assumes "local_loop fs uri cap root path i ex = Some r"
  shows "fst r = path \<or> (\<exists>path' nx ex'. i < nx \<and> i < length uri \<and> local_loop fs uri cap root path' nx ex' = Some r \<and>
    (path' = path \<or> path' = pop_component path \<or> (\<exists>c. file_name_ok c \<and> path' = path @ DIRSEP # c)))"
proof (cases "i < length uri")
  case True
  obtain component rest where p: "parse_uri_component DIRSEP (drop i uri) = (component, rest)"
    by fastforce
  obtain len out where d: "mg_url_decode component (cap - (length root + length path) - 1) False = (len, out)"
    by fastforce
  have nx: "i < length uri - length rest"
    using length_component [of "drop i uri" DIRSEP] True p by simp
  have name: "file_name_ok (take (nat len) out)"
    if "\<not> len \<le> 0" "mg_vcmp (take (nat len) out) (bs ''.'') \<noteq> 0" "mg_vcmp (take (nat len) out) (bs ''..'') \<noteq> 0"
      "0 \<notin> set (take (nat len) out)" "DIRSEP \<notin> set (take (nat len) out)"
    using that d by (auto simp: file_name_ok_def dest!: vcmp_neq simp: mg_url_decode_def Let_def split: prod.splits if_splits)
  define st where "st = (if ex then fs (root @ path) else None)"
  have "fst r = path \<or> (\<exists>path' ex'. local_loop fs uri cap root path' (length uri - length rest) ex' = Some r \<and>
      (path' = path \<or> path' = pop_component path \<or> (\<exists>c. file_name_ok c \<and> path' = path @ DIRSEP # c)))"
    using assms True name unfolding local_loop.simps [of fs uri cap root path i ex] p d st_def [symmetric] Let_def prod.case
    by (simp split: if_splits) (fastforce | blast)+
  then show ?thesis
    using nx True by blast
next
  case False
  then show ?thesis
    using assms by (subst (asm) local_loop.simps) (auto split: if_splits simp: Let_def)
qed

lemma local_loop_below:
  "local_loop fs uri cap root (path_of cs) i ex = Some r \<Longrightarrow> list_all file_name_ok cs \<Longrightarrow> \<exists>ds. fst r = path_of ds \<and> list_all file_name_ok ds"
proof (induction "length uri - i" arbitrary: cs i ex rule: less_induct)
  case less
  have popped: "\<exists>ds. pop_component (path_of cs) = path_of ds \<and> list_all file_name_ok ds"
  proof (cases cs rule: rev_cases)
    case Nil
    then show ?thesis
      by (intro exI [of _ "[]"]) (simp add: pop_component_def)
  next
    case (snoc ds c)
    then show ?thesis
      using less.prems(2) pop_path_of [of c ds] by (intro exI [of _ ds]) (simp add: file_name_ok_def)
  qed
  consider "fst r = path_of cs"
    | ds nx ex' where "i < nx" "i < length uri" "local_loop fs uri cap root (path_of ds) nx ex' = Some r" "list_all file_name_ok ds"
  proof -
    assume t: "fst r = path_of cs \<Longrightarrow> thesis"
      and h: "\<And>nx ds ex'. i < nx \<Longrightarrow> i < length uri \<Longrightarrow> local_loop fs uri cap root (path_of ds) nx ex' = Some r \<Longrightarrow> list_all file_name_ok ds \<Longrightarrow> thesis"
    have push: "path_of cs @ DIRSEP # c = path_of (cs @ [c])" for c
      by simp
    show thesis
      using local_loop_step [OF less.prems(1)] t h popped less.prems(2) unfolding push
      by (elim disjE exE conjE) (auto simp del: path_of_simps)
  qed
  then show ?case
  proof cases
    case 1
    then show ?thesis
      using less.prems(2) by blast
  next
    case 2
    then show ?thesis
      using less.hyps [OF diff_less_mono2] by blast
  qed
qed

lemma find_rewrite_root: "find_rewrite uri hh rules = (Some b, n) \<Longrightarrow> \<exists>a. (a, Some b) \<in> set (comma_entries rules)"
proof (induction rules rule: comma_entries.induct)
  case (1 rules)
  show ?case
  proof (cases "mg_next_comma_list_entry rules True")
    case None
    then show ?thesis
      using "1.prems" by (subst (asm) find_rewrite.simps) simp
  next
    case (Some e)
    obtain rest a b' where e: "e = (rest, a, b')"
      by (cases e) auto
    have "find_rewrite uri hh rules = find_rewrite uri hh rest \<or> fst (find_rewrite uri hh rules) = b'"
      unfolding find_rewrite.simps [of uri hh rules] Some e by (simp add: Let_def split: option.split)
    then show ?thesis
      using "1.IH" [OF Some e [symmetric] refl] "1.prems" Some by (auto simp: e comma_entries.simps [of rules])
  qed
qed

text \<open>
  C4. No request leaves the root: whatever the URI, its escapes, the rewrites and the file system, the path that \<open>mg_uri_to_local_path\<close> gives is a root of
  the options (the target of a rewrite, the WebDAV root or the document root) followed by names, none of which is empty, a dot or a double dot, or has a
  slash or a NUL.
\<close>

theorem local_path_below:
  assumes "mg_uri_to_local_path fs opts hm = Some (Some (path, rest))"
  shows "\<exists>root cs. (root = document_root opts \<or> dav_document_root opts = Some root \<or> (\<exists>a. (a, Some root) \<in> set (comma_entries (url_rewrites opts))))
    \<and> path = strip_root root @ path_of cs \<and> list_all file_name_ok cs"
proof -
  obtain root start where r: "choose_root opts hm = (root, start)"
    by fastforce
  then have "root = document_root opts \<or> dav_document_root opts = Some root \<or> (\<exists>a. (a, Some root) \<in> set (comma_entries (url_rewrites opts)))"
    using find_rewrite_root by (fastforce simp: choose_root_def split: prod.splits option.splits if_splits)
  moreover obtain p where p: "local_loop fs (hq_uri hm) (length root + length (hq_uri hm) + 1) (strip_root root) (path_of []) (start + 1) True = Some p"
      "path = strip_root root @ fst p"
    using assms by (auto simp: mg_uri_to_local_path_def r Let_def split: if_splits)
  moreover obtain cs where "fst p = path_of cs" "list_all file_name_ok cs"
    using local_loop_below [OF p(1)] by auto
  ultimately show ?thesis
    by metis
qed

theorem local_path_below_witness:
  "\<exists>root cs. bs ''/srv/etc/passwd'' = strip_root root @ path_of cs \<and> list_all file_name_ok cs"
proof -
  let ?opts = "\<lparr>document_root = bs ''/srv/'', index_files = [], auth_domain = None, per_directory_auth_file = None, global_auth_file = None,
    enable_directory_listing = [], ssi_pattern = [], ip_acl = None, url_rewrites = [], dav_document_root = None, dav_auth_file = None,
    hidden_file_pattern = None, cgi_file_pattern = [], extra_headers = [], custom_mime_types = []\<rparr>"
  let ?hm = "http_msg0\<lparr>hq_uri := bs ''/../%2e%2E/./a/../etc/passwd''\<rparr>"
  have "mg_uri_to_local_path (\<lambda>_. None) ?opts ?hm = Some (Some (bs ''/srv/etc/passwd'', []))"
    by code_simp
  then show ?thesis
    using local_path_below [of "\<lambda>_. None" ?opts ?hm] by blast
qed

section \<open>Encoded names are found\<close>

definition enc :: "byte list \<Rightarrow> byte list" where
  "enc c = concat (map url_byte c)"

lemma enc_no_slash: "DIRSEP \<notin> set c \<Longrightarrow> DIRSEP \<notin> set (enc c)"
proof -
  have all: "\<forall>d \<in> set [0..<16]. hex_lower (of_nat d) \<noteq> DIRSEP"
    by code_simp
  then have h: "hex_lower d \<noteq> DIRSEP" if "unat d < 16" for d
    using bspec [OF all, of "unat d"] that by simp
  then have "DIRSEP \<notin> set (url_byte b)" if "b \<noteq> DIRSEP" for b
    using low_nibble [of b] high_nibble [of b] that by (auto simp: url_byte_def)
  then show "DIRSEP \<notin> set c \<Longrightarrow> DIRSEP \<notin> set (enc c)"
    by (induction c) (auto simp: enc_def)
qed

lemma enc_length: "length c \<le> length (enc c)"
  by (induction c) (auto simp: enc_def url_byte_def)

lemma decode_enc: "c \<noteq> [] \<Longrightarrow> length (enc c) < room \<Longrightarrow> mg_url_decode (enc c) room False = (int (length c), c @ [0])"
  using url_decode_encoded [of c "room - 1" False] enc_length [of c] by (simp add: mg_url_decode_def enc_def)

text \<open>The loop over names that are escaped, none of which but the last names a regular file.\<close>

lemma local_loop_names:
  assumes "list_all (\<lambda>c. file_name_ok c \<and> length c < 2 ^ 31) cs" "drop i uri = join DIRSEP (map enc cs)" "0 < i" "i \<le> length uri"
    "length root + length path + length (drop i uri) + 2 \<le> cap"
    "\<And>k st. k < length cs \<Longrightarrow> fs (root @ path @ path_of (take k cs)) = Some st \<Longrightarrow> st_kind st \<noteq> S_REG" "cs = [] \<Longrightarrow> rd uri (i - 1) \<noteq> DIRSEP"
  shows "local_loop fs uri cap root path i ex = Some (path @ path_of cs, length uri)"
  using assms
proof (induction cs arbitrary: path i ex)
  case Nil
  then have "i = length uri"
    by simp
  then show ?case
    using Nil.prems(7) by (subst local_loop.simps) (simp add: Let_def)
next
  case (Cons c cs)
  have c: "c \<noteq> []" "length c < 2 ^ 31" "c \<noteq> bs ''.''" "c \<noteq> bs ''..''" "0 \<notin> set c" "DIRSEP \<notin> set c"
    using Cons.prems(1) by (simp_all add: file_name_ok_def)
  have ne: "enc c \<noteq> []"
    using c(1) enc_length [of c] by auto
  define rest where "rest = join DIRSEP (map enc cs)"
  have d: "drop i uri = enc c @ (if cs = [] then [] else DIRSEP # rest)"
    using Cons.prems(2) by (cases cs) (simp_all add: rest_def)
  then have i: "i < length uri" "length rest < length (drop i uri)"
    using ne by (auto simp: rest_def split: if_splits intro: ccontr)
  have comp: "parse_uri_component DIRSEP (drop i uri) = (enc c, rest)"
    using enc_no_slash [OF c(6)] unfolding d by (auto simp: parse_uri_component_def rest_def takeWhile_append dropWhile_append takeWhile_eq_all_conv)
  have dec: "mg_url_decode (enc c) (cap - (length root + length path) - 1) False = (int (length c), c @ [0])"
    using Cons.prems(5) c(1) unfolding d by (intro decode_enc) (auto split: if_splits)
  have vc: "mg_vcmp c (bs ''.'') \<noteq> 0" "mg_vcmp c (bs ''..'') \<noteq> 0"
    using c by (simp_all add: mg_vcmp_eq_0 length_bs)
  have st: "\<not> (\<exists>st. fs (root @ path) = Some st \<and> st_kind st = S_REG)"
    using Cons.prems(6) [of 0] by auto
  have uri: "uri = (take i uri @ enc c @ (if cs = [] then [] else [DIRSEP])) @ rest"
    using append_take_drop_id [of i uri] unfolding d by (simp add: rest_def split: if_splits)
  have suffix: "drop (length (p @ r) - length r) (p @ r) = r" for p r :: "byte list"
    by simp
  have drop: "drop (length uri - length rest) uri = rest"
    using suffix [of "take i uri @ enc c @ (if cs = [] then [] else [DIRSEP])" rest] unfolding uri [symmetric] .
  have end_: "rd uri (length uri - 1) \<noteq> DIRSEP" if "cs = []"
  proof -
    have "List.last uri = List.last (enc c)"
      using last_drop [OF i(1)] that by (simp add: d)
    moreover have "uri ! (length uri - 1) = List.last uri"
      using i(1) by (intro last_conv_nth [symmetric]) auto
    ultimately have "uri ! (length uri - 1) = List.last (enc c)"
      by simp
    then show ?thesis
      using enc_no_slash [OF c(6)] last_in_set [OF ne] i(1) by (auto simp: rd_def)
  qed
  have bound: "length root + length (path @ DIRSEP # c) + length rest + 2 \<le> cap" if "cs \<noteq> []"
    using Cons.prems(5) that enc_length [of c] unfolding d by simp
  have "local_loop fs uri cap root (path @ DIRSEP # c) (length uri - length rest) ex' = Some ((path @ DIRSEP # c) @ path_of cs, length uri)" for ex'
  proof (cases "cs = []")
    case True
    then show ?thesis
      using end_ i by (subst local_loop.simps) (simp add: Let_def rest_def)
  next
    case False
    show ?thesis
    proof (rule Cons.IH)
      show "length root + length (path @ DIRSEP # c) + length (drop (length uri - length rest) uri) + 2 \<le> cap"
        using bound [OF False] by (simp only: drop)
      show "fs (root @ (path @ DIRSEP # c) @ path_of (take k cs)) = Some st \<Longrightarrow> st_kind st \<noteq> S_REG" if "k < length cs" for k st
        using Cons.prems(6) [of "Suc k" st] that by simp
    qed (use Cons.prems(1) i drop False in \<open>auto simp: rest_def\<close>)
  qed
  then show ?case
    using i c ne vc st unfolding local_loop.simps [of fs uri cap root path i ex] Let_def comp dec prod.case by auto
qed

text \<open>
  A URI of escaped names leads to the file of these names below the document root, if no directory on the way is a regular file.
\<close>

lemma local_path_found:
  assumes "list_all (\<lambda>c. file_name_ok c \<and> length c < 2 ^ 31) cs" "cs \<noteq> []" "hq_uri hm = DIRSEP # join DIRSEP (map enc cs)"
    "url_rewrites opts = []" "dav_document_root opts = None" "document_root opts \<noteq> []"
    "\<And>k st. k < length cs \<Longrightarrow> fs (strip_root (document_root opts) @ path_of (take k cs)) = Some st \<Longrightarrow> st_kind st \<noteq> S_REG"
  shows "mg_uri_to_local_path fs opts hm = Some (Some (strip_root (document_root opts) @ path_of cs, []))"
proof -
  have "choose_root opts hm = (document_root opts, 0)"
    using assms(4,5) by (simp add: choose_root_def find_rewrite.simps [of _ _ "[]"] mg_next_comma_list_entry_def)
  moreover have "length (strip_root (document_root opts)) \<le> length (document_root opts)"
    by (simp add: strip_root_def)
  then have "local_loop fs (hq_uri hm) (length (document_root opts) + length (hq_uri hm) + 1) (strip_root (document_root opts)) [] 1 True
      = Some ([] @ path_of cs, length (hq_uri hm))"
    using assms(1-3,7) by (intro local_loop_names) auto
  ultimately show ?thesis
    using assms(6) by (simp add: mg_uri_to_local_path_def)
qed

end
