(* ===== verification/Printf.thy ===== *)
theory Printf
  imports Format Http_Body Mbuf
begin

text \<open>
  Printing to a connection: \<open>mg_avprintf\<close> (\<open>src/util.c\<close>), \<open>mg_vprintf\<close>, \<open>mg_printf\<close> (\<open>src/net.c\<close>), \<open>mg_printf_http_chunk\<close> and
  \<open>mg_printf_html_escape\<close> (\<open>src/http.c\<close>). They call \<open>vsnprintf\<close> of the C library, which is an argument; the locale \<open>vsnprintf_contract\<close> states what the
  C standard says of it, and \<open>c_vsnprintf\<close> of \<open>Format\<close>, made into such a function, is an interpretation. A connection is its send buffer, an \<open>mbuf\<close>, with the allocator
  as an argument.
\<close>

section \<open>Formatting into a buffer of sufficient size\<close>

text \<open>\<open>vsnprintf\<close> takes the buffer, its size, the format and the arguments; a negative result is allowed. \<open>malloc\<close> gives a block or fails.\<close>

type_synonym vsnprintf_fun = "byte list \<Rightarrow> u64 \<Rightarrow> byte list \<Rightarrow> va_arg list \<Rightarrow> (int \<times> byte list) fmt"
type_synonym malloc_fun = "u64 \<Rightarrow> byte list option"

text \<open>The loop for libraries that give a negative result when the buffer is too small. The size is a \<open>size_t\<close> that may wrap.\<close>

partial_function (option) avprintf_grow :: "vsnprintf_fun \<Rightarrow> malloc_fun \<Rightarrow> int \<Rightarrow> u64 \<Rightarrow> byte list \<Rightarrow> va_arg list \<Rightarrow> (int \<times> byte list option) fmt option" where
  "avprintf_grow vsnprintf malloc len sz s ap =
     (let sz = sz * 2 in
      case malloc sz of
        None \<Rightarrow> Some (Inr (len, None))
      | Some buf \<Rightarrow> (case vsnprintf buf sz s ap of
          Inl e \<Rightarrow> Some (Inl e)
        | Inr (len, buf) \<Rightarrow> if len < 0 then avprintf_grow vsnprintf malloc len sz s ap else Some (Inr (len, Some buf))))"

definition mg_avprintf :: "vsnprintf_fun \<Rightarrow> malloc_fun \<Rightarrow> byte list \<Rightarrow> byte list \<Rightarrow> va_arg list \<Rightarrow> (int \<times> byte list option) fmt option" where
  "mg_avprintf vsnprintf malloc buf s ap =
     (case vsnprintf buf (of_nat (length buf)) s ap of
        Inl e \<Rightarrow> Some (Inl e)
      | Inr (len, buf') \<Rightarrow>
          if len < 0 then avprintf_grow vsnprintf malloc len (of_nat (length buf)) s ap
          else if int (length buf) \<le> len then
            if len = INT_MAX then Some (Inl Undefined)
            else case malloc (of_int (len + 1)) of
              None \<Rightarrow> Some (Inr (-1, None))
            | Some big \<Rightarrow> Some (fbind (vsnprintf big (of_int (len + 1)) s ap) (\<lambda>(len, big). Inr (len, Some big)))
          else Some (Inr (len, Some buf')))"

section \<open>Printing to a connection\<close>

definition MG_VPRINTF_BUFFER_SIZE :: nat where "MG_VPRINTF_BUFFER_SIZE = 100"

text \<open>
  \<open>mg_send\<close> appends to the send buffer, for TCP and UDP alike, and what \<open>mbuf_append\<close> returns is not looked at. An assertion that fails in
  \<open>mbuf_append\<close> is the outcome \<open>Aborted\<close>. The time of the last use and the hexadecimal dump are not modelled.
\<close>

definition mg_if_tcp_send :: "allocator \<Rightarrow> mbuf \<Rightarrow> byte list \<Rightarrow> mbuf fmt" where
  "mg_if_tcp_send realloc a t = (case mbuf_append realloc a (Some t) (length t) of None \<Rightarrow> Inl Aborted | Some (n, a) \<Rightarrow> Inr a)"

definition mg_send :: "allocator \<Rightarrow> mbuf \<Rightarrow> byte list \<Rightarrow> mbuf fmt" where
  "mg_send realloc a t = mg_if_tcp_send realloc a t"

fun mg_sends :: "allocator \<Rightarrow> mbuf \<Rightarrow> byte list list \<Rightarrow> mbuf fmt" where
  "mg_sends realloc a [] = Inr a"
| "mg_sends realloc a (t # ts) = fbind (mg_send realloc a t) (\<lambda>a. mg_sends realloc a ts)"

text \<open>
  The end of the three functions: what is sent are the first \<open>len\<close> bytes of the buffer. \<open>mem\<close> is the local buffer, whose contents are
  arbitrary.
\<close>

definition printed :: "(int \<times> byte list option) fmt option \<Rightarrow> (int \<Rightarrow> byte list \<Rightarrow> 'a fmt) \<Rightarrow> 'a fmt option" where
  "printed r send = map_option (\<lambda>r. fbind r (\<lambda>(len, buf). case buf of
     None \<Rightarrow> send len []
   | Some buf \<Rightarrow> if len \<le> int (length buf) then send len (take (nat len) buf) else Inl Undefined)) r"

definition mg_vprintf :: "vsnprintf_fun \<Rightarrow> malloc_fun \<Rightarrow> allocator \<Rightarrow> byte list \<Rightarrow> mbuf \<Rightarrow> byte list \<Rightarrow> va_arg list \<Rightarrow> (int \<times> mbuf) fmt option" where
  "mg_vprintf vsnprintf malloc realloc mem a s ap =
     printed (mg_avprintf vsnprintf malloc mem s ap) (\<lambda>len t. fbind (if 0 < len then mg_send realloc a t else Inr a) (\<lambda>a. Inr (len, a)))"

definition mg_send_http_chunk_to :: "allocator \<Rightarrow> mbuf \<Rightarrow> byte list \<Rightarrow> mbuf fmt" where
  "mg_send_http_chunk_to realloc a t = mg_sends realloc a [hexX (length t) @ [CR, LF], t, [CR, LF]]"

definition mg_printf_http_chunk :: "vsnprintf_fun \<Rightarrow> malloc_fun \<Rightarrow> allocator \<Rightarrow> byte list \<Rightarrow> mbuf \<Rightarrow> byte list \<Rightarrow> va_arg list \<Rightarrow> mbuf fmt option" where
  "mg_printf_http_chunk vsnprintf malloc realloc mem a s ap =
     printed (mg_avprintf vsnprintf malloc mem s ap) (\<lambda>len t. if 0 \<le> len then mg_send_http_chunk_to realloc a t else Inr a)"

text \<open>The loop sends the bytes since the last bracket, \<open>since\<close>, when it meets the next.\<close>

fun html_escape_loop :: "allocator \<Rightarrow> mbuf \<Rightarrow> byte list \<Rightarrow> byte list \<Rightarrow> mbuf fmt" where
  "html_escape_loop realloc a since [] = mg_send realloc a since"
| "html_escape_loop realloc a since (c # t) =
     (if c = ascii CHR ''<'' \<or> c = ascii CHR ''>''
      then fbind (mg_send realloc a since) (\<lambda>a.
           fbind (mg_send realloc a (if c = ascii CHR ''<'' then bs ''&lt;'' else bs ''&gt;'')) (\<lambda>a. html_escape_loop realloc a [] t))
      else html_escape_loop realloc a (since @ [c]) t)"

definition mg_printf_html_escape :: "vsnprintf_fun \<Rightarrow> malloc_fun \<Rightarrow> allocator \<Rightarrow> byte list \<Rightarrow> mbuf \<Rightarrow> byte list \<Rightarrow> va_arg list \<Rightarrow> mbuf fmt option" where
  "mg_printf_html_escape vsnprintf malloc realloc mem a s ap =
     printed (mg_avprintf vsnprintf malloc mem s ap) (\<lambda>len t. if 0 \<le> len then html_escape_loop realloc a [] t else Inr a)"

section \<open>The send buffer with memory\<close>

text \<open>The allocator has memory for blocks of up to \<open>n\<close> bytes, in the lower half of the address space.\<close>

definition memory_for :: "allocator \<Rightarrow> nat \<Rightarrow> bool" where
  "memory_for realloc n \<longleftrightarrow> realloc_spec realloc \<and> (\<forall>old k. k \<le> n \<longrightarrow> (\<exists>b p. realloc old k = Some (b, p) \<and> unat p < 2 ^ 63))"

definition send_ok :: "mbuf \<Rightarrow> bool" where
  "send_ok a \<longleftrightarrow> mbuf_inv a \<and> unat (mbuf_addr a) < 2 ^ 63"

definition holds_text :: "mbuf fmt \<Rightarrow> byte list \<Rightarrow> bool" where
  "holds_text r d \<longleftrightarrow> (\<exists>a. r = Inr a \<and> send_ok a \<and> mbuf_data a = d)"

lemma mg_send_ok:
  assumes m: "memory_for realloc n" and a: "send_ok a" and l: "2 * (mbuf_len a + length t) \<le> n" "length t < 2 ^ 62"
  shows "holds_text (mg_send realloc a t) (mbuf_data a @ t)"
proof -
  have R: "realloc_spec realloc" and inv: "mbuf_inv a" and addr: "unat (mbuf_addr a) < 2 ^ 63"
    using m a by (simp_all add: memory_for_def send_ok_def)
  have "(mbuf_len a + length t) * 3 div 2 \<le> n"
    using l(1) by linarith
  then obtain b p where b: "realloc (mbuf_buf a) ((mbuf_len a + length t) * 3 div 2) = Some (b, p)" "unat p < 2 ^ 63"
    using m unfolding memory_for_def by blast
  have room: "\<not> 2 ^ 64 - 1 - unat (mbuf_addr a) < length t"
    using addr l(2) by simp
  obtain r a' where r: "mbuf_append realloc a (Some t) (length t) = Some (r, a')"
    using mbuf_insert_total [OF inv le_refl] unfolding mbuf_append_def by fastforce
  then have "r = length t \<and> unat (mbuf_addr a') < 2 ^ 63"
    using room b addr by (auto simp: mbuf_append_def mbuf_insert_def Let_def split: if_splits)
  moreover have "mbuf_inv a' \<and> (a' = a \<and> r = 0 \<or> mbuf_data a' = mbuf_data a @ t \<and> r = length t)"
    using mbuf_insert_result [OF R inv le_refl r [unfolded mbuf_append_def]] length_mbuf_data [OF inv] by auto
  ultimately show ?thesis
    using r by (auto simp: holds_text_def mg_send_def mg_if_tcp_send_def send_ok_def)
qed

lemma send_len: "send_ok a \<Longrightarrow> mbuf_len a = length (mbuf_data a)"
  by (simp add: send_ok_def length_mbuf_data)

lemma mg_sends_ok:
  assumes "memory_for realloc n" "send_ok a" "2 * (mbuf_len a + length (concat ts)) \<le> n" "length (concat ts) < 2 ^ 62"
  shows "holds_text (mg_sends realloc a ts) (mbuf_data a @ concat ts)"
  using assms(2-4)
proof (induction ts arbitrary: a)
  case (Cons t ts)
  obtain b where b: "mg_send realloc a t = Inr b" "send_ok b" "mbuf_data b = mbuf_data a @ t"
    using mg_send_ok [OF assms(1), of a t] Cons.prems unfolding holds_text_def by force
  then show ?case
    using Cons.IH [of b] Cons.prems by (simp add: send_len)
qed (simp add: holds_text_def)

text \<open>Without memory the text is lost, and nobody learns of it: the result is that of a text that was sent.\<close>

lemma send_lost:
  assumes "mbuf_inv a" "mbuf_size a < mbuf_len a + length t" "realloc (mbuf_buf a) ((mbuf_len a + length t) * 3 div 2) = None"
  shows "mg_send realloc a t = Inr a"
  using assms by (simp add: mg_send_def mg_if_tcp_send_def mbuf_append_def mbuf_insert_def mbuf_inv_def Let_def)

text \<open>Angle brackets become entities.\<close>

definition escaped :: "byte list \<Rightarrow> byte list" where
  "escaped t = concat (map (\<lambda>c. if c = ascii CHR ''<'' then bs ''&lt;'' else if c = ascii CHR ''>'' then bs ''&gt;'' else [c]) t)"

lemma entity_length: "length (bs ''&lt;'') = 4" "length (bs ''&gt;'') = 4"
  by code_simp+

lemma length_escaped: "length (escaped t) \<le> 4 * length t"
  by (induction t) (auto simp: escaped_def entity_length)

text \<open>The texts that the escaping loop sends.\<close>

fun escape_pieces :: "byte list \<Rightarrow> byte list \<Rightarrow> byte list list" where
  "escape_pieces since [] = [since]"
| "escape_pieces since (c # t) =
     (if c = ascii CHR ''<'' \<or> c = ascii CHR ''>''
      then since # (if c = ascii CHR ''<'' then bs ''&lt;'' else bs ''&gt;'') # escape_pieces [] t
      else escape_pieces (since @ [c]) t)"

lemma fbind_return: "fbind r Inr = r"
  by (cases r) simp_all

lemma html_escape_loop_pieces: "html_escape_loop realloc a since t = mg_sends realloc a (escape_pieces since t)"
  by (induction t arbitrary: a since) (simp_all add: fbind_return)

lemma concat_escape_pieces: "concat (escape_pieces since t) = since @ escaped t"
  by (induction since t rule: escape_pieces.induct) (auto simp: escaped_def)

section \<open>The contract of vsnprintf\<close>

text \<open>
  \<open>prints s ap t\<close> says that the format prints the text. The buffer takes as much of it as fits with a NUL, and the result is the
  length of the whole text.
\<close>

definition has_room :: "malloc_fun \<Rightarrow> nat \<Rightarrow> bool" where
  "has_room malloc n \<longleftrightarrow> (\<exists>b. malloc (of_nat n) = Some b \<and> length b = n)"

locale vsnprintf_contract =
  fixes vsnprintf :: vsnprintf_fun and prints :: "byte list \<Rightarrow> va_arg list \<Rightarrow> byte list \<Rightarrow> bool"
  assumes vsnprintf_result: "prints s ap t \<Longrightarrow> int (length t) \<le> INT_MAX \<Longrightarrow> unat sz = length buf \<Longrightarrow> int (length buf) \<le> INT_MAX
    \<Longrightarrow> \<exists>buf'. vsnprintf buf sz s ap = Inr (int (length t), buf') \<and> length buf' = length buf \<and> take (length buf - 1) t = take (min (length t) (length buf - 1)) buf'"
begin

text \<open>\<open>mg_avprintf\<close> has the whole text in its buffer, in the given one or in a block from \<open>malloc\<close>.\<close>

lemma avprintf_text:
  assumes "prints s ap t" "int (length t) < INT_MAX" "0 < length buf" "int (length buf) \<le> INT_MAX"
    and "length buf \<le> length t \<longrightarrow> has_room malloc (length t + 1)"
  shows "\<exists>b. mg_avprintf vsnprintf malloc buf s ap = Some (Inr (int (length t), Some b)) \<and> take (length t) b = t \<and> length t \<le> length b"
proof -
  have u: "unat (of_nat n :: u64) = n" if "int n \<le> INT_MAX" for n
    using that by (simp add: INT_MAX_def unat_of_nat)
  obtain b1 where b1: "vsnprintf buf (of_nat (length buf)) s ap = Inr (int (length t), b1)" "length b1 = length buf"
    "take (length buf - 1) t = take (min (length t) (length buf - 1)) b1"
    using vsnprintf_result [OF assms(1), of "of_nat (length buf)" buf] assms(2,4) u by auto
  show ?thesis
  proof (cases "length buf \<le> length t")
    case True
    then obtain b where b: "malloc (of_nat (length t + 1)) = Some b" "length b = length t + 1"
      using assms(5) by (auto simp: has_room_def)
    obtain b2 where "vsnprintf b (of_nat (length t + 1)) s ap = Inr (int (length t), b2)" "length b2 = length b"
      "take (length b - 1) t = take (min (length t) (length b - 1)) b2"
      using vsnprintf_result [OF assms(1), of "of_nat (length t + 1)" b] assms(2) b u [of "length t + 1"] by auto
    moreover have "of_int (int (length t) + 1) = (of_nat (length t + 1) :: u64)"
      by simp
    ultimately show ?thesis
      using True b b1(1) assms(2) by (simp add: mg_avprintf_def del: of_nat_add of_nat_Suc)
  next
    case False
    then have "take (length t) b1 = t" "length t \<le> length b1"
      using b1(2,3) by (simp_all add: min_def split: if_splits)
    then show ?thesis
      using False b1(1) by (simp add: mg_avprintf_def)
  qed
qed

lemma printed_text:
  assumes "prints s ap t" "int (length t) < INT_MAX" "0 < length mem" "int (length mem) \<le> INT_MAX"
    and "length mem \<le> length t \<longrightarrow> has_room malloc (length t + 1)"
  shows "printed (mg_avprintf vsnprintf malloc mem s ap) send = Some (send (int (length t)) t)"
  using avprintf_text [OF assms] by (auto simp: printed_def)

end

section \<open>Printing with c_vsnprintf\<close>

definition own_vsnprintf :: vsnprintf_fun where
  "own_vsnprintf buf sz s ap = fbind (c_vsnprintf buf sz s ap) (\<lambda>(len, buf). Inr (int len, buf))"

interpretation own: vsnprintf_contract own_vsnprintf "\<lambda>s ap t. fmt_text s ap = Inr t"
proof
  fix s ap t and sz :: u64 and buf :: "byte list"
  assume a: "fmt_text s ap = Inr t" "int (length t) \<le> INT_MAX" "unat sz = length buf" "int (length buf) \<le> INT_MAX"
  then have "c_vsnprintf buf sz s ap = Inr (length t, if sz = 0 then buf else take (length buf - 1) t @ 0 # drop (Suc (min (length t) (length buf - 1))) buf)"
    by (intro c_vsnprintf_text) (simp_all add: INT_MAX_def)
  moreover have "sz \<noteq> 0 \<Longrightarrow> 0 < length buf" "sz = 0 \<Longrightarrow> buf = []"
    using a(3) by (auto simp: unat_eq_zero)
  ultimately show "\<exists>buf'. own_vsnprintf buf sz s ap = Inr (int (length t), buf') \<and> length buf' = length buf
      \<and> take (length buf - 1) t = take (min (length t) (length buf - 1)) buf'"
    by (cases "buf = []") (auto simp: own_vsnprintf_def min_def neq_Nil_conv)
qed

lemma length_hexX: "n < 16 ^ k \<Longrightarrow> 0 < k \<Longrightarrow> length (hexX n) \<le> k"
proof (induction n arbitrary: k rule: hexX.induct)
  case (1 n)
  show ?case
  proof (cases "n < 16")
    case True
    then show ?thesis
      using 1(3) by (subst hexX.simps) simp
  next
    case False
    then obtain j where j: "k = Suc j" "0 < j"
      using 1(2,3) by (cases k; cases "k - 1") auto
    have "n div 16 < 16 ^ j"
      using 1(2) j(1) by (simp add: less_mult_imp_div_less mult.commute)
    then show ?thesis
      using 1(1) [OF False] j False by (subst hexX.simps) simp
  qed
qed

text \<open>
  C26. Nothing is lost in the way of a printed text to the connection, with any \<open>vsnprintf\<close> that keeps the contract of the C standard: for a format and arguments that print the text \<open>t\<close>,
  \<open>mg_vprintf\<close> appends the whole text to the send buffer and returns its length, \<open>mg_printf_http_chunk\<close> appends one chunk with it, and \<open>mg_printf_html_escape\<close> the text with its
  angle brackets escaped, whatever its length below \<open>INT_MAX\<close>, as long as \<open>malloc\<close> gives a block for a text that does not fit in the local buffer and \<open>realloc\<close> gives the memory
  that the send buffer needs. (Where it does not, \<open>mg_send\<close> loses the text silently: \<open>send_lost\<close>.)
\<close>

theorem printf_sends_all:
  assumes "vsnprintf_contract vsnprintf prints" and "prints s ap t" and "length t < 2147483647"
    and "length mem = MG_VPRINTF_BUFFER_SIZE" and "length mem \<le> length t \<longrightarrow> has_room malloc (length t + 1)"
    and "send_ok a" and "memory_for realloc (2 * (mbuf_len a + 4 * length t + 20))"
  shows "(\<exists>b. mg_vprintf vsnprintf malloc realloc mem a s ap = Some (Inr (int (length t), b)) \<and> holds_text (Inr b) (mbuf_data a @ t))
    \<and> (\<exists>r. mg_printf_http_chunk vsnprintf malloc realloc mem a s ap = Some r \<and> holds_text r (mbuf_data a @ http_chunk t))
    \<and> (\<exists>r. mg_printf_html_escape vsnprintf malloc realloc mem a s ap = Some r \<and> holds_text r (mbuf_data a @ escaped t))"
proof -
  have l: "int (length t) < INT_MAX" "0 < length mem" "int (length mem) \<le> INT_MAX"
    using assms(3,4) by (simp_all add: INT_MAX_def MG_VPRINTF_BUFFER_SIZE_def)
  note run = vsnprintf_contract.printed_text [OF assms(1,2) l assms(5)]
  note sends = mg_sends_ok [OF assms(7,6)]
  have "length (hexX (length t)) \<le> 8"
    using assms(3) by (intro length_hexX) simp_all
  then have c: "length (concat [hexX (length t) @ [CR, LF], t, [CR, LF]]) \<le> length t + 12"
    "concat [hexX (length t) @ [CR, LF], t, [CR, LF]] = http_chunk t"
    by (simp_all add: http_chunk_def mg_send_http_chunk_def)
  have "holds_text (mg_sends realloc a [t]) (mbuf_data a @ t)"
    using sends [of "[t]"] assms(3) by simp
  moreover have "holds_text (mg_send_http_chunk_to realloc a t) (mbuf_data a @ http_chunk t)"
    using sends [of "[hexX (length t) @ [CR, LF], t, [CR, LF]]"] c assms(3) unfolding mg_send_http_chunk_to_def by simp
  moreover have "holds_text (html_escape_loop realloc a [] t) (mbuf_data a @ escaped t)"
    using sends [of "escape_pieces [] t"] length_escaped [of t] assms(3) unfolding html_escape_loop_pieces concat_escape_pieces by simp
  ultimately show ?thesis
    using assms(6) unfolding mg_vprintf_def mg_printf_http_chunk_def mg_printf_html_escape_def run
    by (cases "t = []") (auto simp: holds_text_def fbind_return)
qed

text \<open>The code's own \<open>c_vsnprintf\<close> is such a function.\<close>

theorem printf_sends_all_witness:
  "\<exists>r. mg_printf_html_escape own_vsnprintf (\<lambda>n. None) heap_realloc (replicate 100 0) (mbuf_init heap_realloc 0) (bs ''%s'') [A_str (Some (bs ''<b>'' @ [0]))] = Some r
    \<and> holds_text r (bs ''&lt;b&gt;'')"
proof -
  have s: "list_all piece_ok [P_str (bs ''<b>'') []]" "escaped (bs ''<b>'') = bs ''&lt;b&gt;''" "bs ''%s'' = concat (map piece_fmt [P_str (bs ''<b>'') []])"
      "concat (map piece_args [P_str (bs ''<b>'') []]) = [A_str (Some (bs ''<b>'' @ [0]))]" "concat (map piece_text [P_str (bs ''<b>'') []]) = bs ''<b>''" "length (bs ''<b>'') = 3"
    by code_simp+
  have f: "fmt_text (bs ''%s'') [A_str (Some (bs ''<b>'' @ [0]))] = Inr (bs ''<b>'')"
    using fmt_text_pieces [OF s(1)] unfolding s(4,5) s(3) [symmetric] .
  have m: "send_ok (mbuf_init heap_realloc 0)" "mbuf_data (mbuf_init heap_realloc 0) = []" "memory_for heap_realloc k" for k
    using heap_realloc_spec by (simp_all add: send_ok_def mbuf_init_def mbuf_resize_def mbuf_inv_def mbuf_data_def memory_for_def heap_realloc_def)
  show ?thesis
    using printf_sends_all [OF own.vsnprintf_contract_axioms f _ _ _ m(1,3), of "replicate 100 0" "\<lambda>n. None"] s(2,6) m(2)
    by (simp add: MG_VPRINTF_BUFFER_SIZE_def)
qed

end
