(* ===== verification/Sorted_Map.thy ===== *)
theory Sorted_Map
  imports Prelude "HOL-Library.Char_ord" "HOL-Library.List_Lexorder"
begin

text \<open>
  Ordered maps from byte strings, as sorted association lists. Both the objects of jsoncpp (a
  \<open>std::map\<close> whose keys compare with \<open>memcmp\<close>) and the databases of LevelDB (whose default
  comparator is bytewise) keep their entries in this order, and the server depends on it: it
  scans ranges of keys and prints objects member by member. Strings compare
  lexicographically, characters by their unsigned code.
\<close>

type_synonym 'v smap = "(string \<times> 'v) list"

definition smap_inv :: "'v smap \<Rightarrow> bool" where
  "smap_inv m \<longleftrightarrow> sorted_wrt (<) (map fst m)"

fun smap_put :: "string \<Rightarrow> 'v \<Rightarrow> 'v smap \<Rightarrow> 'v smap" where
  "smap_put k v [] = [(k, v)]"
| "smap_put k v ((k', v') # m) =
     (if k = k' then (k, v) # m else if k < k' then (k, v) # (k', v') # m else (k', v') # smap_put k v m)"

definition smap_get :: "'v smap \<Rightarrow> string \<Rightarrow> 'v option" where
  "smap_get m k = map_of m k"

definition smap_del :: "string \<Rightarrow> 'v smap \<Rightarrow> 'v smap" where
  "smap_del k m = filter (\<lambda>(k', v). k' \<noteq> k) m"

lemma smap_inv_Nil [simp]: "smap_inv []"
  by (simp add: smap_inv_def)

lemma smap_inv_Cons [simp]: "smap_inv ((k, v) # m) \<longleftrightarrow> (\<forall>k' \<in> fst ` set m. k < k') \<and> smap_inv m"
  by (auto simp: smap_inv_def)

lemma smap_inv_distinct: "smap_inv m \<Longrightarrow> distinct (map fst m)"
  unfolding smap_inv_def by (rule strict_sorted_iff [THEN iffD1, THEN conjunct2])

lemma keys_smap_put [simp]: "fst ` set (smap_put k v m) = insert k (fst ` set m)"
  by (induction k v m rule: smap_put.induct) auto

lemma smap_inv_put [simp, intro]: "smap_inv m \<Longrightarrow> smap_inv (smap_put k v m)"
proof (induction k v m rule: smap_put.induct)
  case (2 k v k' v' m)
  then show ?case
    using keys_smap_put [of k v m] by (auto dest: less_trans simp: not_less_iff_gr_or_eq)
qed simp

lemma smap_get_put [simp]: "smap_get (smap_put k v m) = (smap_get m)(k \<mapsto> v)"
  unfolding smap_get_def by (induction k v m rule: smap_put.induct) auto

lemma smap_inv_del [simp, intro]: "smap_inv m \<Longrightarrow> smap_inv (smap_del k m)"
  unfolding smap_inv_def smap_del_def
  by (induction m) auto

lemma smap_get_del [simp]: "smap_get (smap_del k m) = (smap_get m)(k := None)"
  unfolding smap_get_def smap_del_def by (induction m) auto

lemma smap_get_Nil [simp]: "smap_get [] k = None"
  by (simp add: smap_get_def)

lemma smap_get_Cons [simp]: "smap_get ((k, v) # m) k' = (if k' = k then Some v else smap_get m k')"
  by (simp add: smap_get_def)

lemma smap_get_in: "smap_inv m \<Longrightarrow> smap_get m k = Some v \<longleftrightarrow> (k, v) \<in> set m"
  unfolding smap_get_def by (simp add: smap_inv_distinct)

text \<open>Entries put in increasing order are appended.\<close>

lemma smap_put_last: "\<forall>k' \<in> fst ` set m. k' < k \<Longrightarrow> smap_put k v m = m @ [(k, v)]"
  by (induction k v m rule: smap_put.induct) auto

lemma smap_put_put [simp]: "smap_put k v (smap_put k w m) = smap_put k v m"
  by (induction k w m rule: smap_put.induct) auto


end
