(* ===== verification/Outcome.thy ===== *)
theory Outcome
  imports Prelude
begin

text \<open>
  Outcomes of the server's C++ code: the exceptions it throws, results that are either an
  exception or a value, and the parts of the C library that the code relies on and that are
  left as parameters (floating-point printing, reading and arithmetic, the clock and its
  textual form, the regular expressions, the random numbers).
\<close>

text \<open>
  The exception classes of \<open>Exceptions/\<close>, those jsoncpp throws, \<open>std::exception\<close> itself, what
  \<open>std::stol\<close>, \<open>std::stod\<close> and \<open>std::regex\<close> throw, and an access through a null or dangling pointer.
\<close>

datatype exn =
    Json_LogicError
  | Json_RuntimeError
  | Std_exception
  | Std_invalid_argument
  | Std_out_of_range
  | Std_regex_error
  | Std_runtime_error string
  | Bad_pointer
  | UserNotFound_id int
  | UserNotFound_mail string
  | UserAlreadyExists
  | InvalidPassword
  | InvalidToken
  | TokenExpired
  | NotAuthorized
  | Key_not_found
  | BadImplementation
  | InvalidRequest string
  | NonexistentNotificationToken int
  | SpecialRequest
  | MissingConfiguration string
  | PictureNotFound string
  | ErrorDeletingFile string
  | ErrorLoginWithFacebook string
  | Thrown_text string   \<comment> \<open>a \<open>const char*\<close>\<close>

type_synonym 'a res = "exn + 'a"

definition res_bind :: "'a res \<Rightarrow> ('a \<Rightarrow> 'b res) \<Rightarrow> 'b res" where
  "res_bind r f = (case r of Inl e \<Rightarrow> Inl e | Inr x \<Rightarrow> f x)"

lemma res_bind_simps [simp]: "res_bind (Inl e) f = Inl e" "res_bind (Inr x) f = f x"
  by (simp_all add: res_bind_def)

lemma res_bind_Inr_iff: "res_bind r f = Inr y \<longleftrightarrow> (\<exists>x. r = Inr x \<and> f x = Inr y)"
  by (cases r) simp_all

text \<open>Applying a fallible function to the elements of a list in order.\<close>

fun res_map :: "('a \<Rightarrow> 'b res) \<Rightarrow> 'a list \<Rightarrow> 'b list res" where
  "res_map f [] = Inr []"
| "res_map f (x # xs) = res_bind (f x) (\<lambda>y. res_bind (res_map f xs) (\<lambda>ys. Inr (y # ys)))"

lemma res_map_Inr: "(\<And>x. x \<in> set xs \<Longrightarrow> f x = Inr (g x)) \<Longrightarrow> res_map f xs = Inr (map g xs)"
  by (induction xs) simp_all

lemma res_map_cong: "(\<And>x. x \<in> set xs \<Longrightarrow> f x = g x) \<Longrightarrow> res_map f xs = res_map g xs"
  by (induction xs) simp_all

lemma res_map_map: "res_map f (map g xs) = res_map (\<lambda>x. f (g x)) xs"
  by (induction xs) simp_all

text \<open>A \<open>double\<close> is kept as its IEEE 754 bit pattern.\<close>

type_synonym double = u64

definition dbl_exponent :: "double \<Rightarrow> double" where
  "dbl_exponent d = d AND 0x7FF0000000000000"

definition dbl_isfinite :: "double \<Rightarrow> bool" where
  "dbl_isfinite d \<longleftrightarrow> dbl_exponent d \<noteq> 0x7FF0000000000000"

definition dbl_isnan :: "double \<Rightarrow> bool" where
  "dbl_isnan d \<longleftrightarrow> \<not> dbl_isfinite d \<and> d AND 0x000FFFFFFFFFFFFF \<noteq> 0"

definition dbl_negative :: "double \<Rightarrow> bool" where
  "dbl_negative d \<longleftrightarrow> d AND 0x8000000000000000 \<noteq> 0"

text \<open>Positive zero, and the comparison \<open>d == 0.0\<close>, which also holds of negative zero.\<close>

definition dbl_zero :: double where
  "dbl_zero = 0"

definition dbl_eq_zero :: "double \<Rightarrow> bool" where
  "dbl_eq_zero d \<longleftrightarrow> d = 0 \<or> d = 0x8000000000000000"

record libc =
  snprintf_g :: "nat \<Rightarrow> double \<Rightarrow> string"   \<comment> \<open>\<open>snprintf (buf, n, "%.<precision>g", d)\<close>, d finite\<close>
  stream_double :: "string \<Rightarrow> double option"   \<comment> \<open>\<open>istringstream (s) >> d\<close>, None when it fails\<close>
  double_of_int :: "int \<Rightarrow> double"   \<comment> \<open>\<open>static_cast<double>\<close>\<close>
  double_in_range :: "double \<Rightarrow> int \<Rightarrow> int \<Rightarrow> bool"   \<comment> \<open>\<open>d >= min && d <= max\<close>\<close>
  double_trunc :: "double \<Rightarrow> int"   \<comment> \<open>the cast to an integer type, d in its range\<close>
  double_sub :: "double \<Rightarrow> double \<Rightarrow> double"
  double_add :: "double \<Rightarrow> double \<Rightarrow> double"
  double_sq :: "double \<Rightarrow> double"   \<comment> \<open>\<open>std::pow (d, 2)\<close>\<close>
  double_le :: "double \<Rightarrow> double \<Rightarrow> bool"
  double_gt :: "double \<Rightarrow> double \<Rightarrow> bool"
  stod :: "string \<Rightarrow> double res"
  time_now :: int   \<comment> \<open>\<open>time (NULL)\<close>\<close>
  strftime_local :: "int \<Rightarrow> string"   \<comment> \<open>\<open>strftime ("%Y-%m-%d %H:%M:%S", localtime (t))\<close>\<close>
  mktime_strptime :: "int \<Rightarrow> string \<Rightarrow> int"   \<comment> \<open>\<open>mktime\<close> of what \<open>strptime\<close> reads with that format, \<open>tm_isdst\<close> having the given value\<close>
  uninit_isdst :: "int \<Rightarrow> int"   \<comment> \<open>what an uninitialised \<open>tm_isdst\<close> holds at a time\<close>
  regex_valid :: "string \<Rightarrow> bool"   \<comment> \<open>the pattern compiles; otherwise \<open>std::regex_error\<close>\<close>
  regex_match :: "string \<Rightarrow> string \<Rightarrow> bool"   \<comment> \<open>pattern, subject\<close>
  str_slack :: "string \<Rightarrow> string"   \<comment> \<open>what a copy of a string has between its size and its capacity\<close>
  std_what :: "exn \<Rightarrow> string"   \<comment> \<open>\<open>what ()\<close> of the exceptions that do not define it\<close>
  uninit_long :: int   \<comment> \<open>what an uninitialised member of type \<open>long\<close> reads as\<close>
  rand_seq :: "nat \<Rightarrow> nat"   \<comment> \<open>the i-th result of \<open>rand ()\<close> in a call\<close>

end
