(* ===== verification/Json_Value.thy ===== *)
theory Json_Value
  imports Sorted_Map Outcome
begin

text \<open>
  The values of jsoncpp (\<open>class Json::Value\<close> of \<open>jsoncpp/jsoncpp.cpp\<close>) as the server uses them:
  construction, member and element access, conversion to C++ types with the failures that
  jsoncpp reports by throwing \<open>Json::LogicError\<close>, and the printing of numbers. The members of
  an object are kept in the order of \<open>CZString::operator<\<close>, as in its \<open>std::map\<close>. Comments and
  source offsets of a value are not modelled: nothing of the server reads them.
\<close>

datatype json =
    NullV
  | IntV int
  | UIntV int
  | RealV double
  | StrV string
  | BoolV bool
  | ArrV "json list"
  | ObjV "(string \<times> json) list"

section \<open>Printing numbers\<close>

text \<open>\<open>uintToString\<close> fills a buffer from its end.\<close>

fun uintToString :: "nat \<Rightarrow> string \<Rightarrow> string" where
  "uintToString value current =
     (let current = char_of (value mod 10 + of_char CHR ''0'') # current; value = value div 10
      in if value = 0 then current else uintToString value current)"

declare uintToString.simps [simp del]

definition valueToString_int :: "int \<Rightarrow> string" where
  "valueToString_int value =
     (if value = - (2 ^ 63) then CHR ''-'' # uintToString (2 ^ 63) []
      else if value < 0 then CHR ''-'' # uintToString (nat (- value)) []
      else uintToString (nat value) [])"

definition valueToString_uint :: "int \<Rightarrow> string" where
  "valueToString_uint value = uintToString (nat value) []"

definition fixNumericLocale :: "string \<Rightarrow> string" where
  "fixNumericLocale s = map (\<lambda>c. if c = CHR '','' then CHR ''.'' else c) s"

definition valueToString_double :: "libc \<Rightarrow> double \<Rightarrow> string" where
  "valueToString_double L value = fixNumericLocale
     (if dbl_isfinite value then take 31 (snprintf_g L 17 value)
      else if dbl_isnan value then ''null''
      else if dbl_negative value then ''-1e+9999'' else ''1e+9999'')"

definition valueToString_bool :: "bool \<Rightarrow> string" where
  "valueToString_bool value = (if value then ''true'' else ''false'')"

section \<open>Conversions\<close>

definition maxInt :: int where "maxInt = 2 ^ 31 - 1"
definition minInt :: int where "minInt = - (2 ^ 31)"
definition maxInt64 :: int where "maxInt64 = 2 ^ 63 - 1"
definition minInt64 :: int where "minInt64 = - (2 ^ 63)"
definition maxUInt64 :: int where "maxUInt64 = 2 ^ 64 - 1"

fun asString :: "libc \<Rightarrow> json \<Rightarrow> string res" where
  "asString L NullV = Inr ''''"
| "asString L (StrV s) = Inr s"
| "asString L (BoolV b) = Inr (if b then ''true'' else ''false'')"
| "asString L (IntV i) = Inr (valueToString_int i)"
| "asString L (UIntV u) = Inr (valueToString_uint u)"
| "asString L (RealV d) = Inr (valueToString_double L d)"
| "asString L _ = Inl Json_LogicError"

fun asInt :: "libc \<Rightarrow> json \<Rightarrow> int res" where
  "asInt L (IntV i) = (if minInt \<le> i \<and> i \<le> maxInt then Inr i else Inl Json_LogicError)"
| "asInt L (UIntV u) = (if u \<le> maxInt then Inr u else Inl Json_LogicError)"
| "asInt L (RealV d) = (if double_in_range L d minInt maxInt then Inr (double_trunc L d) else Inl Json_LogicError)"
| "asInt L NullV = Inr 0"
| "asInt L (BoolV b) = Inr (if b then 1 else 0)"
| "asInt L _ = Inl Json_LogicError"

fun asInt64 :: "libc \<Rightarrow> json \<Rightarrow> int res" where
  "asInt64 L (IntV i) = Inr i"
| "asInt64 L (UIntV u) = (if u \<le> maxInt64 then Inr u else Inl Json_LogicError)"
| "asInt64 L (RealV d) = (if double_in_range L d minInt64 maxInt64 then Inr (double_trunc L d) else Inl Json_LogicError)"
| "asInt64 L NullV = Inr 0"
| "asInt64 L (BoolV b) = Inr (if b then 1 else 0)"
| "asInt64 L _ = Inl Json_LogicError"

definition asLargestInt :: "libc \<Rightarrow> json \<Rightarrow> int res" where
  "asLargestInt L v = asInt64 L v"

fun asDouble :: "libc \<Rightarrow> json \<Rightarrow> double res" where
  "asDouble L (IntV i) = Inr (double_of_int L i)"
| "asDouble L (UIntV u) = Inr (double_of_int L u)"
| "asDouble L (RealV d) = Inr d"
| "asDouble L NullV = Inr dbl_zero"
| "asDouble L (BoolV b) = Inr (double_of_int L (if b then 1 else 0))"
| "asDouble L _ = Inl Json_LogicError"

section \<open>Members and elements\<close>

fun json_size :: "json \<Rightarrow> nat" where
  "json_size (ArrV xs) = length xs"
| "json_size (ObjV kvs) = length kvs"
| "json_size _ = 0"

text \<open>
  \<open>find\<close>, \<open>isMember\<close> and the reading side of \<open>operator[]\<close>: a missing member reads as null. The
  variant on a non-constant value also adds the null member, to a local copy in every use of
  the server.
\<close>

fun json_find :: "json \<Rightarrow> string \<Rightarrow> json option res" where
  "json_find NullV key = Inr None"
| "json_find (ObjV kvs) key = Inr (smap_get kvs key)"
| "json_find _ key = Inl Json_LogicError"

definition isMember :: "json \<Rightarrow> string \<Rightarrow> bool res" where
  "isMember v key = res_bind (json_find v key) (\<lambda>found. Inr (found \<noteq> None))"

definition json_get :: "json \<Rightarrow> string \<Rightarrow> json res" where
  "json_get v key = res_bind (json_find v key)
     (\<lambda>found. Inr (case found of None \<Rightarrow> NullV | Some x \<Rightarrow> x))"

fun json_index :: "json \<Rightarrow> nat \<Rightarrow> json res" where
  "json_index NullV index = Inr NullV"
| "json_index (ArrV xs) index = Inr (if index < length xs then xs ! index else NullV)"
| "json_index _ index = Inl Json_LogicError"

text \<open>\<open>resolveReference\<close>: the reference behind \<open>v[key]\<close>, which an assignment then overwrites.\<close>

fun json_set :: "json \<Rightarrow> string \<Rightarrow> json \<Rightarrow> json res" where
  "json_set NullV key x = Inr (ObjV [(key, x)])"
| "json_set (ObjV kvs) key x = Inr (ObjV (smap_put key x kvs))"
| "json_set _ key x = Inl Json_LogicError"

fun json_append :: "json \<Rightarrow> json \<Rightarrow> json res" where
  "json_append NullV x = Inr (ArrV [x])"
| "json_append (ArrV xs) x = Inr (ArrV (xs @ [x]))"
| "json_append _ x = Inl Json_LogicError"

text \<open>The loops \<open>for (i = 0; i < v.size (); i++) use (v[i])\<close>, and the loops that append.\<close>

definition json_each :: "json \<Rightarrow> (json \<Rightarrow> 'a res) \<Rightarrow> 'a list res" where
  "json_each v f = res_map (\<lambda>i. res_bind (json_index v i) f) [0..<json_size v]"

fun json_append_all :: "json \<Rightarrow> json list \<Rightarrow> json res" where
  "json_append_all v [] = Inr v"
| "json_append_all v (x # xs) = res_bind (json_append v x) (\<lambda>v'. json_append_all v' xs)"

text \<open>An object built by a sequence of assignments to the members of a fresh value.\<close>

fun json_fields :: "json \<Rightarrow> (string \<times> json) list \<Rightarrow> json res" where
  "json_fields v [] = Inr v"
| "json_fields v ((k, x) # kxs) = res_bind (json_set v k x) (\<lambda>v'. json_fields v' kxs)"

section \<open>Facts\<close>

lemma json_get_Obj [simp]: "json_get (ObjV kvs) key = Inr (case smap_get kvs key of None \<Rightarrow> NullV | Some x \<Rightarrow> x)"
  and json_get_Null [simp]: "json_get NullV key = Inr NullV"
  by (simp_all add: json_get_def)

lemma json_append_all_Arr: "json_append_all (ArrV xs) ys = Inr (ArrV (xs @ ys))"
  by (induction ys arbitrary: xs) simp_all

lemma json_append_all_Null: "json_append_all NullV ys = Inr (if ys = [] then NullV else ArrV ys)"
  by (cases ys) (simp_all add: json_append_all_Arr)

lemma json_each_Arr [simp]: "json_each (ArrV xs) f = res_map f xs"
proof -
  have "json_each (ArrV xs) f = res_map (\<lambda>i. f (xs ! i)) [0..<length xs]"
    unfolding json_each_def json_size.simps by (rule res_map_cong) simp
  also have "\<dots> = res_map f (map ((!) xs) [0..<length xs])"
    by (simp only: res_map_map)
  finally show ?thesis
    by (simp add: map_nth)
qed

lemma json_each_Null [simp]: "json_each NullV f = Inr []"
  by (simp add: json_each_def)

lemma json_fields_Obj:
  "json_fields (ObjV kvs) kxs = Inr (ObjV (foldl (\<lambda>m (k, x). smap_put k x m) kvs kxs))"
  by (induction kxs arbitrary: kvs) auto

text \<open>Decimal digits.\<close>

definition is_digit :: "char \<Rightarrow> bool" where
  "is_digit c \<longleftrightarrow> of_char CHR ''0'' \<le> (of_char c :: nat) \<and> of_char c \<le> (of_char CHR ''9'' :: nat)"

definition digit_val :: "char \<Rightarrow> nat" where
  "digit_val c = of_char c - of_char CHR ''0''"

definition digits_val :: "string \<Rightarrow> nat \<Rightarrow> nat" where
  "digits_val s v = foldl (\<lambda>v c. v * 10 + digit_val c) v s"

lemma of_char_char_of_digit: "n < 10 \<Longrightarrow> (of_char (char_of (n + 48 :: nat)) :: nat) = n + 48"
  by simp

lemma digit_char [simp]:
  "n < 10 \<Longrightarrow> is_digit (char_of (n + 48 :: nat))" "n < 10 \<Longrightarrow> digit_val (char_of (n + 48 :: nat)) = n"
  by (simp_all add: is_digit_def digit_val_def)

lemma digits_val_Nil [simp]: "digits_val [] v = v"
  and digits_val_Cons [simp]: "digits_val (c # s) v = digits_val s (v * 10 + digit_val c)"
  by (simp_all add: digits_val_def)

text \<open>What \<open>uintToString\<close> prints: decimal digits, at least one, whose value is the number.\<close>

lemma uintToString_spec:
  "\<exists>ds. uintToString n acc = ds @ acc \<and> ds \<noteq> [] \<and> list_all is_digit ds
     \<and> (\<forall>v. digits_val ds v = v * 10 ^ length ds + n) \<and> (n = 0 \<or> 10 ^ (length ds - 1) \<le> n)"
proof (induction n acc rule: uintToString.induct)
  case (1 n acc)
  define c where "c = char_of (n mod 10 + 48)"
  have c: "is_digit c" "digit_val c = n mod 10"
    by (simp_all add: c_def)
  show ?case
  proof (cases "n div 10 = 0")
    case True
    then have "n mod 10 = n"
      by (metis mod_less div_eq_0_iff zero_neq_numeral)
    then show ?thesis
      using True c by (subst uintToString.simps) (auto simp: Let_def c_def [symmetric] intro!: exI [of _ "[c]"])
  next
    case False
    obtain ds where ds: "uintToString (n div 10) (c # acc) = ds @ c # acc" "ds \<noteq> []" "list_all is_digit ds"
      "\<forall>v. digits_val ds v = v * 10 ^ length ds + n div 10" "10 ^ (length ds - 1) \<le> n div 10"
      using "1.IH" [of "c # acc" "n div 10"] False by (auto simp: c_def)
    have "digits_val (ds @ [c]) v = v * 10 ^ length (ds @ [c]) + n" for v
      using ds(4) c(2) by (simp add: digits_val_def algebra_simps)
    moreover have "10 ^ (length (ds @ [c]) - 1) \<le> n"
    proof -
      have "length ds = Suc (length ds - 1)"
        using ds(2) by (cases ds) auto
      then have "10 ^ (length (ds @ [c]) - 1) = 10 * 10 ^ (length ds - 1)"
        by (metis add_diff_cancel_right' length_append_singleton plus_1_eq_Suc add.commute power_Suc)
      also have "\<dots> \<le> 10 * (n div 10)"
        using ds(5) by simp
      also have "\<dots> \<le> n"
        by simp
      finally show ?thesis .
    qed
    ultimately show ?thesis
      using False ds c
      by (subst uintToString.simps) (auto simp: Let_def c_def [symmetric] intro!: exI [of _ "ds @ [c]"])
  qed
qed

end
