(* ===== verification/Json_Text.thy ===== *)
theory Json_Text
  imports Json_Value
begin

text \<open>
  The textual form of JSON values in jsoncpp: \<open>FastWriter\<close>, which prints every value the server
  stores, and \<open>Reader\<close>, which reads them back and parses the bodies of requests. The reader
  works on the characters between \<open>current_\<close> and \<open>end_\<close>; functions take that rest of the
  document and return what is left of it.
\<close>

abbreviation dquote :: char where "dquote \<equiv> CHR 0x22"
abbreviation bslash :: char where "bslash \<equiv> CHR 0x5C"

section \<open>FastWriter\<close>

definition isControlCharacter :: "char \<Rightarrow> bool" where
  "isControlCharacter ch \<longleftrightarrow> 0 < (of_char ch :: nat) \<and> (of_char ch :: nat) \<le> 0x1F"

definition containsControlCharacter0 :: "string \<Rightarrow> bool" where
  "containsControlCharacter0 str = list_ex (\<lambda>ch. isControlCharacter ch \<or> ch = CHR 0x00) str"

definition hex_upper :: "nat \<Rightarrow> char" where
  "hex_upper n = (if n < 10 then char_of (n + of_char CHR ''0'') else char_of (n - 10 + of_char CHR ''A''))"

text \<open>\<open>std::hex\<close>, \<open>std::uppercase\<close>, filled with zeros to width 4; the number is below \<open>2 ^ 16\<close>.\<close>

definition hex4 :: "nat \<Rightarrow> string" where
  "hex4 n = map (\<lambda>k. hex_upper (n div 16 ^ k mod 16)) [3, 2, 1, 0]"

definition quote_char :: "char \<Rightarrow> string" where
  "quote_char c =
     (if c = dquote then [bslash, dquote]
      else if c = bslash then [bslash, bslash]
      else if c = CHR 0x08 then [bslash, CHR ''b'']
      else if c = CHR 0x0C then [bslash, CHR ''f'']
      else if c = CHR 0x0A then [bslash, CHR ''n'']
      else if c = CHR 0x0D then [bslash, CHR ''r'']
      else if c = CHR 0x09 then [bslash, CHR ''t'']
      else if isControlCharacter c \<or> c = CHR 0x00 then bslash # CHR ''u'' # hex4 (of_char c)
      else [c])"

definition strnpbrk :: "string \<Rightarrow> string \<Rightarrow> bool" where
  "strnpbrk s accept = list_ex (\<lambda>c. list_ex (\<lambda>a. a = c) accept) s"

definition valueToQuotedStringN :: "string \<Rightarrow> string" where
  "valueToQuotedStringN value =
     (if \<not> strnpbrk value [dquote, bslash, CHR 0x08, CHR 0x0C, CHR 0x0A, CHR 0x0D, CHR 0x09]
         \<and> \<not> containsControlCharacter0 value
      then [dquote] @ value @ [dquote]
      else [dquote] @ concat (map quote_char value) @ [dquote])"

text \<open>
  \<open>FastWriter::writeValue\<close> with the settings of a fresh writer. The loops over the elements and
  over the members carry whether a comma is due.
\<close>

fun writeValue :: "libc \<Rightarrow> json \<Rightarrow> string"
  and writeElements :: "libc \<Rightarrow> bool \<Rightarrow> json list \<Rightarrow> string"
  and writeMembers :: "libc \<Rightarrow> bool \<Rightarrow> (string \<times> json) list \<Rightarrow> string" where
  "writeValue L NullV = ''null''"
| "writeValue L (IntV i) = valueToString_int i"
| "writeValue L (UIntV u) = valueToString_uint u"
| "writeValue L (RealV d) = valueToString_double L d"
| "writeValue L (StrV s) = valueToQuotedStringN s"
| "writeValue L (BoolV b) = valueToString_bool b"
| "writeValue L (ArrV xs) = ''['' @ writeElements L False xs @ '']''"
| "writeValue L (ObjV kvs) = ''{'' @ writeMembers L False kvs @ ''}''"
| "writeElements L comma [] = ''''"
| "writeElements L comma (x # xs) =
     (if comma then '','' else '''') @ writeValue L x @ writeElements L True xs"
| "writeMembers L comma [] = ''''"
| "writeMembers L comma ((name, x) # kvs) =
     (if comma then '','' else '''') @ valueToQuotedStringN name @ '':'' @ writeValue L x @ writeMembers L True kvs"

definition fastWrite :: "libc \<Rightarrow> json \<Rightarrow> string" where
  "fastWrite L root = writeValue L root @ [CHR 0x0A]"

section \<open>Tokens\<close>

datatype tokenType =
    tokenEndOfStream | tokenObjectBegin | tokenObjectEnd | tokenArrayBegin | tokenArrayEnd
  | tokenString | tokenNumber | tokenTrue | tokenFalse | tokenNull | tokenArraySeparator
  | tokenMemberSeparator | tokenComment | tokenError

text \<open>\<open>*current_\<close>: behind the last character the document has its terminating NUL.\<close>

definition peek :: "string \<Rightarrow> char" where
  "peek s = (case s of [] \<Rightarrow> CHR 0x00 | c # _ \<Rightarrow> c)"

definition getNextChar :: "string \<Rightarrow> char \<times> string" where
  "getNextChar s = (case s of [] \<Rightarrow> (CHR 0x00, []) | c # s' \<Rightarrow> (c, s'))"

definition is_space :: "char \<Rightarrow> bool" where
  "is_space c \<longleftrightarrow> c = CHR '' '' \<or> c = CHR 0x09 \<or> c = CHR 0x0D \<or> c = CHR 0x0A"

definition skipSpaces :: "string \<Rightarrow> string" where
  "skipSpaces s = dropWhile is_space s"

definition match_lit :: "string \<Rightarrow> string \<Rightarrow> bool \<times> string" where
  "match_lit pattern s =
     (if length s < length pattern then (False, s)
      else if take (length pattern) s = pattern then (True, drop (length pattern) s) else (False, s))"

text \<open>The loop stops in front of the slash that closes the comment.\<close>

fun readCStyleComment :: "string \<Rightarrow> bool \<times> string" where
  "readCStyleComment [] = (fst (getNextChar []) = CHR ''/'', [])"
| "readCStyleComment (c # s) =
     (if c = CHR ''*'' \<and> peek s = CHR ''/'' then (fst (getNextChar s) = CHR ''/'', snd (getNextChar s))
      else readCStyleComment s)"

fun readCppStyleComment :: "string \<Rightarrow> string" where
  "readCppStyleComment [] = []"
| "readCppStyleComment (c # s) =
     (if c = CHR 0x0A then s
      else if c = CHR 0x0D then (if s \<noteq> [] \<and> peek s = CHR 0x0A then tl s else s)
      else readCppStyleComment s)"

definition readComment :: "string \<Rightarrow> bool \<times> string" where
  "readComment s = (case getNextChar s of (c, s') \<Rightarrow>
     if c = CHR ''*'' then readCStyleComment s'
     else if c = CHR ''/'' then (True, readCppStyleComment s') else (False, s'))"

definition readNumber :: "string \<Rightarrow> string" where
  "readNumber s =
     (let s1 = dropWhile is_digit s;
          s2 = (if peek s1 = CHR ''.'' then dropWhile is_digit (tl s1) else s1)
      in if peek s2 = CHR ''e'' \<or> peek s2 = CHR ''E''
         then let s3 = tl s2 in
              dropWhile is_digit (if peek s3 = CHR ''+'' \<or> peek s3 = CHR ''-'' then tl s3 else s3)
         else s2)"

fun readString :: "char \<Rightarrow> string \<Rightarrow> bool \<times> string" where
  "readString c [] = (c = dquote, [])"
| "readString c (c' # s) =
     (if c' = bslash then readString c' (drop 1 s)
      else if c' = dquote then (True, s) else readString c' s)"

text \<open>The token type, the characters of the token, and the rest.\<close>

type_synonym token = "tokenType \<times> string \<times> string"

definition readToken_from :: "char \<Rightarrow> string \<Rightarrow> tokenType \<times> string" where
  "readToken_from c s =
     (if c = CHR ''{'' then (tokenObjectBegin, s)
      else if c = CHR ''}'' then (tokenObjectEnd, s)
      else if c = CHR ''['' then (tokenArrayBegin, s)
      else if c = CHR '']'' then (tokenArrayEnd, s)
      else if c = dquote then (case readString (CHR 0x00) s of (ok, r) \<Rightarrow> (if ok then tokenString else tokenError, r))
      else if c = CHR ''/'' then (case readComment s of (ok, r) \<Rightarrow> (if ok then tokenComment else tokenError, r))
      else if is_digit c \<or> c = CHR ''-'' then (tokenNumber, readNumber s)
      else if c = CHR ''t'' then (case match_lit ''rue'' s of (ok, r) \<Rightarrow> (if ok then tokenTrue else tokenError, r))
      else if c = CHR ''f'' then (case match_lit ''alse'' s of (ok, r) \<Rightarrow> (if ok then tokenFalse else tokenError, r))
      else if c = CHR ''n'' then (case match_lit ''ull'' s of (ok, r) \<Rightarrow> (if ok then tokenNull else tokenError, r))
      else if c = CHR '','' then (tokenArraySeparator, s)
      else if c = CHR '':'' then (tokenMemberSeparator, s)
      else if c = CHR 0x00 then (tokenEndOfStream, s)
      else (tokenError, s))"

definition readToken :: "string \<Rightarrow> token" where
  "readToken s0 = (let s = skipSpaces s0; (c, s1) = getNextChar s; (ty, r) = readToken_from c s1
     in (ty, take (length s - length r) s, r))"

text \<open>Every token but the end of the stream takes at least one character.\<close>

lemma length_getNextChar: "length (snd (getNextChar s)) \<le> length s"
  by (cases s) (simp_all add: getNextChar_def)

lemma length_readCStyleComment: "length (snd (readCStyleComment s)) \<le> length s"
proof (induction s)
  case (Cons c s)
  then show ?case
    using length_getNextChar [of s] by (simp add: le_SucI)
qed simp

lemma length_readCppStyleComment: "length (readCppStyleComment s) \<le> length s"
  by (induction s rule: readCppStyleComment.induct) auto

lemma length_readString: "length (snd (readString c s)) \<le> length s"
proof (induction c s rule: readString.induct)
  case (2 c c' s)
  show ?case
    using 2 by (auto intro: le_SucI order.trans [OF _ diff_le_self])
qed simp

lemma length_dropWhile_tl: "length (dropWhile P (tl s)) \<le> length s"
  using length_dropWhile_le [of P "tl s"] by simp

lemma length_readNumber: "length (readNumber s) \<le> length s"
proof -
  define s1 where "s1 = dropWhile is_digit s"
  define s2 where "s2 = (if peek s1 = CHR ''.'' then dropWhile is_digit (tl s1) else s1)"
  have "length s1 \<le> length s"
    by (simp add: s1_def length_dropWhile_le)
  moreover have "length s2 \<le> length s1"
    by (simp add: s2_def length_dropWhile_tl)
  moreover have "length (dropWhile is_digit (tl s2)) \<le> length s2"
    "length (dropWhile is_digit (tl (tl s2))) \<le> length s2"
    using length_dropWhile_tl [of is_digit "tl s2"] by (simp_all add: length_dropWhile_tl)
  ultimately show ?thesis
    unfolding readNumber_def Let_def s1_def [symmetric] s2_def [symmetric] by auto
qed

lemma length_readComment: "length (snd (readComment s)) \<le> length s"
  using order.trans [OF length_readCStyleComment length_getNextChar, of s]
    order.trans [OF length_readCppStyleComment length_getNextChar, of s] length_getNextChar [of s]
  by (simp add: readComment_def case_prod_beta)

lemma length_match_lit: "length (snd (match_lit p s)) \<le> length s"
  by (simp add: match_lit_def)

lemma length_readToken_from: "length (snd (readToken_from c s)) \<le> length s"
  unfolding readToken_from_def case_prod_beta
  by (simp add: length_readString length_readNumber length_readComment length_match_lit)

lemma length_skipSpaces: "length (skipSpaces s) \<le> length s"
  by (simp add: skipSpaces_def length_dropWhile_le)

lemma readToken_length: "readToken s = (ty, txt, r) \<Longrightarrow> length r \<le> length s"
  using length_skipSpaces [of s] length_readToken_from [of "fst (getNextChar (skipSpaces s))" "snd (getNextChar (skipSpaces s))"]
    length_getNextChar [of "skipSpaces s"]
  by (auto simp: readToken_def Let_def case_prod_beta)

lemma readToken_less:
  assumes "readToken s = (ty, txt, r)" and "ty \<noteq> tokenEndOfStream"
  shows "length r < length s"
proof (cases "skipSpaces s")
  case Nil
  then show ?thesis
    using assms by (simp add: readToken_def getNextChar_def readToken_from_def is_digit_def)
next
  case (Cons c s')
  then show ?thesis
    using assms length_skipSpaces [of s] length_readToken_from [of c s']
    by (auto simp: readToken_def getNextChar_def Let_def split: prod.splits)
qed

function skipCommentTokens :: "string \<Rightarrow> token" where
  "skipCommentTokens s = (case readToken s of (ty, txt, r) \<Rightarrow>
     if ty = tokenComment then skipCommentTokens r else (ty, txt, r))"
  by pat_completeness auto
termination
  by (relation "measure length") (auto dest: readToken_less [OF sym])

function recoverFromError :: "tokenType \<Rightarrow> string \<Rightarrow> string" where
  "recoverFromError skipUntil s = (case readToken s of (ty, txt, r) \<Rightarrow>
     if ty = skipUntil \<or> ty = tokenEndOfStream then r else recoverFromError skipUntil r)"
  by pat_completeness auto
termination
  by (relation "measure (length \<circ> snd)") (auto dest: readToken_less [OF sym])

declare skipCommentTokens.simps [simp del] recoverFromError.simps [simp del]

lemma skipCommentTokens_length:
  "skipCommentTokens s = (ty, txt, r) \<Longrightarrow> length r \<le> length s \<and> (ty \<noteq> tokenEndOfStream \<longrightarrow> length r < length s)"
proof (induction s rule: skipCommentTokens.induct)
  case (1 s)
  obtain ty' txt' r' where r: "readToken s = (ty', txt', r')"
    by (cases "readToken s")
  then show ?case
    using "1.IH" [OF r [symmetric]] "1.prems" readToken_length [OF r] readToken_less [OF r]
    by (subst (asm) (2) skipCommentTokens.simps) (auto split: if_splits)
qed

lemma recoverFromError_length: "length (recoverFromError ty s) \<le> length s"
proof (induction ty s rule: recoverFromError.induct)
  case (1 ty s)
  obtain ty' txt' r' where r: "readToken s = (ty', txt', r')"
    by (cases "readToken s")
  then show ?case
    using "1.IH" [OF r [symmetric]] readToken_length [OF r]
    by (subst recoverFromError.simps) auto
qed

section \<open>Decoding\<close>

text \<open>\<open>decodeUnicodeEscapeSequence\<close> reads four hexadecimal digits.\<close>

definition hex_digit :: "char \<Rightarrow> nat option" where
  "hex_digit c = (let n = of_char c :: nat in
     if is_digit c then Some (n - of_char CHR ''0'')
     else if of_char CHR ''a'' \<le> n \<and> n \<le> of_char CHR ''f'' then Some (n - of_char CHR ''a'' + 10)
     else if of_char CHR ''A'' \<le> n \<and> n \<le> of_char CHR ''F'' then Some (n - of_char CHR ''A'' + 10)
     else None)"

fun hex_digits :: "nat \<Rightarrow> nat \<Rightarrow> string \<Rightarrow> (nat \<times> string) option" where
  "hex_digits 0 unicode s = Some (unicode, s)"
| "hex_digits (Suc k) unicode [] = None"
| "hex_digits (Suc k) unicode (c # s) =
     (case hex_digit c of None \<Rightarrow> None | Some d \<Rightarrow> hex_digits k (unicode * 16 + d) s)"

definition decodeUnicodeEscapeSequence :: "string \<Rightarrow> (nat \<times> string) option" where
  "decodeUnicodeEscapeSequence s = (if length s < 4 then None else hex_digits 4 0 s)"

definition decodeUnicodeCodePoint :: "string \<Rightarrow> (nat \<times> string) option" where
  "decodeUnicodeCodePoint s = (case decodeUnicodeEscapeSequence s of
       None \<Rightarrow> None
     | Some (unicode, r) \<Rightarrow>
         if 0xD800 \<le> unicode \<and> unicode \<le> 0xDBFF
         then if length r < 6 then None
              else if take 2 r = [bslash, CHR ''u'']
              then (case decodeUnicodeEscapeSequence (drop 2 r) of
                  None \<Rightarrow> None
                | Some (surrogatePair, r') \<Rightarrow>
                    Some (0x10000 + (unicode mod 0x400) * 0x400 + surrogatePair mod 0x400, r'))
              else None
         else Some (unicode, r))"

definition codePointToUTF8 :: "nat \<Rightarrow> string" where
  "codePointToUTF8 cp =
     (if cp \<le> 0x7F then [char_of cp]
      else if cp \<le> 0x7FF then [char_of (0xC0 + cp div 2 ^ 6 mod 0x20), char_of (0x80 + cp mod 0x40)]
      else if cp \<le> 0xFFFF then
        [char_of (0xE0 + cp div 2 ^ 12 mod 0x10), char_of (0x80 + cp div 2 ^ 6 mod 0x40), char_of (0x80 + cp mod 0x40)]
      else if cp \<le> 0x10FFFF then
        [char_of (0xF0 + cp div 2 ^ 18 mod 8), char_of (0x80 + cp div 2 ^ 12 mod 0x40),
         char_of (0x80 + cp div 2 ^ 6 mod 0x40), char_of (0x80 + cp mod 0x40)]
      else [])"

lemma hex_digits_length: "hex_digits k u s = Some (u', r) \<Longrightarrow> length r + k = length s"
  by (induction k u s rule: hex_digits.induct) (auto split: option.splits)

lemma decodeUnicodeCodePoint_length: "decodeUnicodeCodePoint s = Some (u, r) \<Longrightarrow> length r < length s"
  by (auto simp: decodeUnicodeCodePoint_def decodeUnicodeEscapeSequence_def split: option.splits if_splits
      dest!: hex_digits_length)

text \<open>The escapes with one character.\<close>

definition simple_escape :: "char \<Rightarrow> char option" where
  "simple_escape e =
     (if e = dquote then Some dquote else if e = CHR ''/'' then Some (CHR ''/'')
      else if e = bslash then Some bslash else if e = CHR ''b'' then Some (CHR 0x08)
      else if e = CHR ''f'' then Some (CHR 0x0C) else if e = CHR ''n'' then Some (CHR 0x0A)
      else if e = CHR ''r'' then Some (CHR 0x0D) else if e = CHR ''t'' then Some (CHR 0x09) else None)"

function decodeChars :: "string \<Rightarrow> string option" where
  "decodeChars s = (case s of
       [] \<Rightarrow> Some []
     | c # s1 \<Rightarrow>
         if c = dquote then Some []
         else if c = bslash then
           (case s1 of
              [] \<Rightarrow> None
            | e # s2 \<Rightarrow>
                if e = CHR ''u'' then
                  (case decodeUnicodeCodePoint s2 of
                     None \<Rightarrow> None
                   | Some (unicode, r) \<Rightarrow> map_option ((@) (codePointToUTF8 unicode)) (decodeChars r))
                else (case simple_escape e of
                     None \<Rightarrow> None
                   | Some d \<Rightarrow> map_option ((#) d) (decodeChars s2)))
         else map_option ((#) c) (decodeChars s1))"
  by pat_completeness auto
termination
  by (relation "measure length") (auto dest: decodeUnicodeCodePoint_length)

declare decodeChars.simps [simp del]

definition decodeString :: "string \<Rightarrow> string option" where
  "decodeString txt = decodeChars (butlast (tl txt))"

fun decodeDigits :: "nat \<Rightarrow> nat \<Rightarrow> nat \<Rightarrow> string \<Rightarrow> nat option" where
  "decodeDigits maxIntegerValue threshold value [] = Some value"
| "decodeDigits maxIntegerValue threshold value (c # s) =
     (if \<not> is_digit c then None
      else if value \<ge> threshold \<and> (value > threshold \<or> s \<noteq> [] \<or> digit_val c > maxIntegerValue mod 10) then None
      else decodeDigits maxIntegerValue threshold (value * 10 + digit_val c) s)"

definition decodeDouble :: "libc \<Rightarrow> string \<Rightarrow> json option" where
  "decodeDouble L txt = map_option RealV (stream_double L txt)"

definition decodeNumber :: "libc \<Rightarrow> string \<Rightarrow> json option" where
  "decodeNumber L txt =
     (let isNegative = (peek txt = CHR ''-'');
          current = (if isNegative then tl txt else txt);
          maxIntegerValue = (if isNegative then nat maxInt64 + 1 else nat maxUInt64);
          threshold = maxIntegerValue div 10
      in case decodeDigits maxIntegerValue threshold 0 current of
           None \<Rightarrow> decodeDouble L txt
         | Some value \<Rightarrow> Some
             (if isNegative \<and> value = maxIntegerValue then IntV minInt64
              else if isNegative then IntV (- int value)
              else if int value \<le> maxInt then IntV (int value)
              else UIntV (int value)))"

section \<open>Reader\<close>

text \<open>
  \<open>readValue\<close> fills the value on top of the stack of nodes, \<open>cur\<close> here, and returns whether it
  succeeded, that value and the rest of the document; a failure leaves what was built so far.
  The recursion takes fuel: \<open>None\<close> is a run that ran out of it. The depth of the recursion is
  the counter \<open>stackDepth_g\<close>, which only a failure does not restore.
\<close>

definition stackLimit_g :: nat where
  "stackLimit_g = 1000"

type_synonym read_result = "(bool \<times> json \<times> string) res option"

abbreviation read_ok :: "bool \<Rightarrow> json \<Rightarrow> string \<Rightarrow> read_result" where
  "read_ok ok v r \<equiv> Some (Inr (ok, v, r))"

definition json_or :: "json \<Rightarrow> json option \<Rightarrow> string \<Rightarrow> read_result" where
  "json_or cur v r = (case v of None \<Rightarrow> read_ok False cur r | Some x \<Rightarrow> read_ok True x r)"

text \<open>
  One definition per function, with the calls it makes to the others as the argument \<open>call\<close>;
  \<open>read\<close> ties them, one unit of fuel per call.
\<close>

datatype read_call =
    ReadValue json string
  | ReadObject "(string \<times> json) list" string string
  | ReadArray string
  | ReadElements "json list" string

definition readValue :: "libc \<Rightarrow> (nat \<Rightarrow> read_call \<Rightarrow> read_result) \<Rightarrow> nat \<Rightarrow> json \<Rightarrow> string \<Rightarrow> read_result" where
  "readValue L call depth cur s =
     (if stackLimit_g \<le> depth then Some (Inl Json_RuntimeError)
      else case skipCommentTokens s of (ty, txt, r) \<Rightarrow>
        if ty = tokenObjectBegin then call (Suc depth) (ReadObject [] [] r)
        else if ty = tokenArrayBegin then call (Suc depth) (ReadArray r)
        else if ty = tokenNumber then json_or cur (decodeNumber L txt) r
        else if ty = tokenString then json_or cur (map_option StrV (decodeString txt)) r
        else if ty = tokenTrue then read_ok True (BoolV True) r
        else if ty = tokenFalse then read_ok True (BoolV False) r
        else if ty = tokenNull then read_ok True NullV r
        else read_ok False cur r)"

text \<open>The end of a member: a closing brace, a comma, or comments and any other token.\<close>

definition readComma :: "string \<Rightarrow> tokenType \<times> string" where
  "readComma s = (case readToken s of (comma, _, r) \<Rightarrow>
     if comma \<noteq> tokenObjectEnd \<and> comma \<noteq> tokenArraySeparator \<and> comma \<noteq> tokenComment then (tokenError, r)
     else if comma = tokenComment
     then (case skipCommentTokens r of (ty, _, r') \<Rightarrow> (if ty = tokenObjectEnd then ty else tokenArraySeparator, r'))
     else (comma, r))"

definition readObject :: "(nat \<Rightarrow> read_call \<Rightarrow> read_result) \<Rightarrow> nat \<Rightarrow> (string \<times> json) list \<Rightarrow> string \<Rightarrow> string \<Rightarrow> read_result" where
  "readObject call depth kvs name s =
     (case skipCommentTokens s of (ty, txt, r) \<Rightarrow>
        if ty = tokenObjectEnd \<and> name = [] then read_ok True (ObjV kvs) r
        else if ty \<noteq> tokenString then read_ok False (ObjV kvs) (recoverFromError tokenObjectEnd r)
        else case decodeString txt of
          None \<Rightarrow> read_ok False (ObjV kvs) (recoverFromError tokenObjectEnd r)
        | Some name' \<Rightarrow>
            (case readToken r of (colon, _, r2) \<Rightarrow>
               if colon \<noteq> tokenMemberSeparator
               then read_ok False (ObjV kvs) (recoverFromError tokenObjectEnd r2)
               else case call depth (ReadValue (case smap_get kvs name' of None \<Rightarrow> NullV | Some x \<Rightarrow> x) r2) of
                 None \<Rightarrow> None
               | Some (Inl e) \<Rightarrow> Some (Inl e)
               | Some (Inr (ok, v, r3)) \<Rightarrow>
                   let kvs' = smap_put name' v kvs in
                   if \<not> ok then read_ok False (ObjV kvs') (recoverFromError tokenObjectEnd r3)
                   else case readComma r3 of (comma, r4) \<Rightarrow>
                     if comma = tokenError then read_ok False (ObjV kvs') (recoverFromError tokenObjectEnd r4)
                     else if comma = tokenObjectEnd then read_ok True (ObjV kvs') r4
                     else call depth (ReadObject kvs' name' r4)))"

definition readArray :: "(nat \<Rightarrow> read_call \<Rightarrow> read_result) \<Rightarrow> nat \<Rightarrow> string \<Rightarrow> read_result" where
  "readArray call depth s0 =
     (let s = skipSpaces s0 in
      if peek s = CHR '']'' then (case readToken s of (_, _, r) \<Rightarrow> read_ok True (ArrV []) r)
      else call depth (ReadElements [] s))"

definition readElements :: "(nat \<Rightarrow> read_call \<Rightarrow> read_result) \<Rightarrow> nat \<Rightarrow> json list \<Rightarrow> string \<Rightarrow> read_result" where
  "readElements call depth xs s =
     (case call depth (ReadValue NullV s) of
        None \<Rightarrow> None
      | Some (Inl e) \<Rightarrow> Some (Inl e)
      | Some (Inr (ok, v, r)) \<Rightarrow>
          if \<not> ok then read_ok False (ArrV (xs @ [v])) (recoverFromError tokenArrayEnd r)
          else case skipCommentTokens r of (ty, _, r2) \<Rightarrow>
            if ty = tokenArrayEnd then read_ok True (ArrV (xs @ [v])) r2
            else if ty = tokenArraySeparator then call depth (ReadElements (xs @ [v]) r2)
            else read_ok False (ArrV (xs @ [v])) (recoverFromError tokenArrayEnd r2))"

fun read_step :: "libc \<Rightarrow> (nat \<Rightarrow> read_call \<Rightarrow> read_result) \<Rightarrow> nat \<Rightarrow> read_call \<Rightarrow> read_result" where
  "read_step L call depth (ReadValue cur s) = readValue L call depth cur s"
| "read_step L call depth (ReadObject kvs name s) = readObject call depth kvs name s"
| "read_step L call depth (ReadArray s) = readArray call depth s"
| "read_step L call depth (ReadElements xs s) = readElements call depth xs s"

primrec read :: "libc \<Rightarrow> nat \<Rightarrow> nat \<Rightarrow> read_call \<Rightarrow> read_result" where
  "read L 0 = (\<lambda>depth c. None)"
| "read L (Suc n) = (\<lambda>depth c. read_step L (read L n) depth c)"

text \<open>
  \<open>Reader::parse (const std::string \<^bold>& document, ...)\<close> copies \<open>document.capacity ()\<close> characters, so
  the text that is parsed is the document followed by the bytes between its size and its
  capacity, \<open>slack\<close>, the first of which, if there is one, is the terminating NUL. The value is
  a fresh one at every call in the server.
\<close>

definition parse_fuel :: "string \<Rightarrow> nat" where
  "parse_fuel s = 3 * length s + 1"

definition parse_range :: "libc \<Rightarrow> string \<Rightarrow> (bool \<times> json) res option" where
  "parse_range L s = (case read L (parse_fuel s) 0 (ReadValue NullV s) of
       None \<Rightarrow> None
     | Some (Inl e) \<Rightarrow> Some (Inl e)
     | Some (Inr (ok, root, r)) \<Rightarrow> Some (Inr (ok, root)))"

definition parse_string :: "libc \<Rightarrow> string \<Rightarrow> string \<Rightarrow> (bool \<times> json) res option" where
  "parse_string L slack document = parse_range L (document @ slack)"

section \<open>The reader terminates\<close>

text \<open>Three units of fuel per character are enough.\<close>

definition returns :: "nat \<Rightarrow> read_result \<Rightarrow> bool" where
  "returns len res \<longleftrightarrow> res = Some (Inl Json_RuntimeError) \<or> (\<exists>ok v r. res = read_ok ok v r \<and> length r \<le> len)"

lemma returns_read_ok [simp]: "returns len (read_ok ok v r) \<longleftrightarrow> length r \<le> len"
  and returns_Inl [simp]: "returns len (Some (Inl Json_RuntimeError))"
  by (simp_all add: returns_def)

lemma returns_json_or [simp]: "returns len (json_or cur v r) \<longleftrightarrow> length r \<le> len"
  by (cases v) (simp_all add: json_or_def)

fun call_text :: "read_call \<Rightarrow> string" where
  "call_text (ReadValue cur s) = s"
| "call_text (ReadObject kvs name s) = s"
| "call_text (ReadArray s) = s"
| "call_text (ReadElements xs s) = s"

fun call_fuel :: "read_call \<Rightarrow> nat" where
  "call_fuel (ReadValue cur s) = 3 * length s + 1"
| "call_fuel (ReadObject kvs name s) = 3 * length s + 2"
| "call_fuel (ReadArray s) = 3 * length s + 3"
| "call_fuel (ReadElements xs s) = 3 * length s + 2"

lemma returns_mono: "returns len res \<Longrightarrow> len \<le> len' \<Longrightarrow> returns len' res"
  by (auto simp: returns_def)

lemma returns_cases:
  assumes "returns len res"
  obtains "res = Some (Inl Json_RuntimeError)" | ok v r where "res = read_ok ok v r" "length r \<le> len"
  using assms by (auto simp: returns_def)

lemma readComma_length:
  assumes "readComma s = (ty, r)"
  shows "length r \<le> length s \<and> (ty = tokenArraySeparator \<longrightarrow> length r < length s)"
proof -
  obtain comma tx r1 where t: "readToken s = (comma, tx, r1)"
    by (cases "readToken s")
  obtain ty2 tx2 r2 where t2: "skipCommentTokens r1 = (ty2, tx2, r2)"
    by (cases "skipCommentTokens r1")
  show ?thesis
    using assms t t2 readToken_length [OF t] readToken_less [OF t] skipCommentTokens_length [OF t2]
    by (auto simp: readComma_def split: if_splits)
qed

lemma read_returns: "call_fuel c \<le> n \<Longrightarrow> returns (length (call_text c)) (read L n depth c)"
proof (induction n arbitrary: depth c)
  case 0
  then show ?case
    by (cases c) auto
next
  case (Suc n)
  have IH: "returns len (read L n d c')" if "call_fuel c' \<le> n" "length (call_text c') \<le> len" for d c' len
    using Suc.IH that returns_mono by blast
  have rec: "length (recoverFromError ty r) \<le> len" if "length r \<le> len" for ty r len
    using recoverFromError_length order.trans that by blast
  show ?case
  proof (cases c)
    case (ReadValue cur s)
    then show ?thesis
      using Suc.prems skipCommentTokens_length [of s]
      by (auto simp: readValue_def split: prod.split intro!: IH)
  next
    case (ReadArray s)
    then show ?thesis
      using Suc.prems length_skipSpaces [of s] readToken_length [of "skipSpaces s"]
      by (fastforce simp: readArray_def Let_def split: prod.split intro!: IH)
  next
    case (ReadElements xs s)
    have "returns (length s) (read L n depth (ReadValue NullV s))"
      using Suc.prems by (intro IH) (simp_all add: ReadElements)
    then show ?thesis
    proof (cases rule: returns_cases)
      case (2 ok v r)
      then show ?thesis
        using Suc.prems skipCommentTokens_length [of r]
        by (fastforce simp: ReadElements readElements_def split: prod.split intro!: IH rec)
    qed (simp add: ReadElements readElements_def)
  next
    case (ReadObject kvs name s)
    obtain ty tx r where t: "skipCommentTokens s = (ty, tx, r)"
      by (cases "skipCommentTokens s")
    obtain colon ctx r2 where t2: "readToken r = (colon, ctx, r2)"
      by (cases "readToken r")
    note len = skipCommentTokens_length [OF t] readToken_length [OF t2]
    show ?thesis
    proof (cases "ty = tokenString \<and> colon = tokenMemberSeparator \<and> decodeString tx \<noteq> None")
      case True
      then obtain name' where name': "decodeString tx = Some name'"
        by auto
      define cur where "cur = (case smap_get kvs name' of None \<Rightarrow> NullV | Some x \<Rightarrow> x)"
      have "returns (length r2) (read L n depth (ReadValue cur r2))"
        using Suc.prems len True by (intro IH) (auto simp: ReadObject)
      then show ?thesis
      proof (cases rule: returns_cases)
        case (2 ok v r3)
        obtain ty4 r4 where t4: "readComma r3 = (ty4, r4)"
          by (cases "readComma r3")
        then show ?thesis
          using 2 True t t2 len name' Suc.prems readComma_length [OF t4] readComma_def
          by (auto simp: ReadObject readObject_def Let_def cur_def [symmetric] intro!: IH rec
              split: if_splits prod.splits)
      qed (use True t t2 name' in \<open>simp add: ReadObject readObject_def cur_def [symmetric]\<close>)
    qed (use t t2 len in \<open>auto simp: ReadObject readObject_def intro!: rec split: option.split\<close>)
  qed
qed

end
