(* ===== verification/Json_Roundtrip.thy ===== *)
theory Json_Roundtrip
  imports Json_Text
begin

text \<open>
  What \<open>FastWriter\<close> prints, \<open>Reader\<close> reads. \<open>json_norm\<close> computes what comes back, and \<open>json_same\<close> is the
  specification: the same value, an integer in the representation the reader chooses, a double as itself or as an
  integer of the same value. The theory ends with the interface that the
  managers of the server use for the values they keep in the database.
\<close>

section \<open>Values that survive\<close>

text \<open>A number token: the characters the scanner takes from its first one on.\<close>

definition number_text :: "string \<Rightarrow> bool" where
  "number_text t \<longleftrightarrow> t \<noteq> [] \<and> (is_digit (hd t) \<or> hd t = CHR ''-'') \<and> readNumber (tl t) = []"

text \<open>A \<open>double\<close> whose printed form is read as a number.\<close>

definition double_ok :: "libc \<Rightarrow> double \<Rightarrow> bool" where
  "double_ok L d \<longleftrightarrow> number_text (valueToString_double L d) \<and> decodeNumber L (valueToString_double L d) \<noteq> None"

fun json_ok :: "libc \<Rightarrow> json \<Rightarrow> bool" where
  "json_ok L (IntV i) \<longleftrightarrow> minInt64 \<le> i \<and> i \<le> maxInt64"
| "json_ok L (UIntV u) \<longleftrightarrow> 0 \<le> u \<and> u \<le> maxUInt64"
| "json_ok L (RealV d) \<longleftrightarrow> double_ok L d"
| "json_ok L (ArrV xs) \<longleftrightarrow> list_all (json_ok L) xs"
| "json_ok L (ObjV kvs) \<longleftrightarrow> smap_inv kvs \<and> list_all (\<lambda>(k, v). json_ok L v) kvs"
| "json_ok L _ \<longleftrightarrow> True"

fun json_depth :: "json \<Rightarrow> nat" where
  "json_depth (ArrV xs) = Suc (foldr max (map json_depth xs) 0)"
| "json_depth (ObjV kvs) = Suc (foldr max (map (\<lambda>(k, x). json_depth x) kvs) 0)"
| "json_depth _ = 1"

fun json_norm :: "libc \<Rightarrow> json \<Rightarrow> json" where
  "json_norm L (IntV i) = (if i \<le> maxInt then IntV i else UIntV i)"
| "json_norm L (UIntV u) = (if u \<le> maxInt then IntV u else UIntV u)"
| "json_norm L (RealV d) = (case decodeNumber L (valueToString_double L d) of None \<Rightarrow> RealV d | Some v \<Rightarrow> v)"
| "json_norm L (ArrV xs) = ArrV (map (json_norm L) xs)"
| "json_norm L (ObjV kvs) = ObjV (map (\<lambda>(k, v). (k, json_norm L v)) kvs)"
| "json_norm L v = v"

section \<open>Tokens of the printed text\<close>

definition delimiter :: "string \<Rightarrow> bool" where
  "delimiter r \<longleftrightarrow> r = [] \<or> hd r \<in> {CHR '','', CHR '']'', CHR ''}''} \<or> is_space (hd r)"

lemma peek_simps [simp]: "peek [] = CHR 0x00" "peek (c # s) = c"
  by (simp_all add: peek_def)

lemma peek_append: "peek (s @ r) = (if s = [] then peek r else peek s)"
  by (cases s) (simp_all add: peek_def)

lemma delimiter_peek:
  "delimiter r \<Longrightarrow> peek r \<noteq> CHR ''.'' \<and> peek r \<noteq> CHR ''e'' \<and> peek r \<noteq> CHR ''E'' \<and> peek r \<noteq> CHR ''+''
    \<and> peek r \<noteq> CHR ''-'' \<and> dropWhile is_digit r = r"
  by (cases r) (auto simp: delimiter_def peek_def is_digit_def is_space_def)

lemma dropWhile_append_Nil: "dropWhile P (s @ r) = (if dropWhile P s = [] then dropWhile P r else dropWhile P s @ r)"
  by (induction s) simp_all

lemma readNumber_append: 
  assumes "readNumber s = []" and "delimiter r"
  shows "readNumber (s @ r) = r"
proof -
  note d = delimiter_peek [OF assms(2)]
  define s1 where "s1 = dropWhile is_digit s"
  define s2 where "s2 = (if peek s1 = CHR ''.'' then dropWhile is_digit (tl s1) else s1)"
  have 1: "dropWhile is_digit (s @ r) = s1 @ r"
    using d by (auto simp: s1_def dropWhile_append_Nil)
  have 2: "(if peek (s1 @ r) = CHR ''.'' then dropWhile is_digit (tl (s1 @ r)) else s1 @ r) = s2 @ r"
    using d by (cases s1) (auto simp: s2_def peek_def dropWhile_append_Nil split: list.split)
  have 3: "dropWhile is_digit (if peek s3 = CHR ''+'' \<or> peek s3 = CHR ''-'' then tl s3 else s3) = [] \<Longrightarrow>
    dropWhile is_digit (if peek (s3 @ r) = CHR ''+'' \<or> peek (s3 @ r) = CHR ''-'' then tl (s3 @ r) else s3 @ r) = r" for s3
    using d by (cases s3) (auto simp: peek_def dropWhile_append_Nil split: list.splits)
  have rn: "(if peek s2 = CHR ''e'' \<or> peek s2 = CHR ''E''
      then dropWhile is_digit (if peek (tl s2) = CHR ''+'' \<or> peek (tl s2) = CHR ''-'' then tl (tl s2) else tl s2)
      else s2) = []"
    using assms(1) unfolding readNumber_def Let_def s1_def [symmetric] s2_def [symmetric] .
  show ?thesis
    unfolding readNumber_def Let_def 1 2
    using rn d 3 [of "tl s2"] by (cases s2) (auto simp: peek_append split: if_splits)
qed

lemma readToken_Cons:
  "\<not> is_space c \<Longrightarrow> readToken (c # s) = (case readToken_from c s of (ty, r) \<Rightarrow> (ty, take (Suc (length s) - length r) (c # s), r))"
  by (simp add: readToken_def skipSpaces_def getNextChar_def)

lemma skipComment_Cons:
  "\<not> is_space c \<Longrightarrow> fst (readToken_from c s) \<noteq> tokenComment \<Longrightarrow> skipCommentTokens (c # s) = readToken (c # s)"
  by (subst skipCommentTokens.simps) (auto simp: readToken_Cons split: prod.splits)

lemma token_number:
  assumes "number_text t" and "delimiter r"
  shows "skipCommentTokens (t @ r) = (tokenNumber, t, r)"
proof -
  obtain c s where t: "t = c # s" and c: "is_digit c \<or> c = CHR ''-''" and s: "readNumber s = []"
    using assms(1) by (cases t) (auto simp: number_text_def)
  have "\<not> is_space c" and f: "readToken_from c (s @ r) = (tokenNumber, r)"
    using c readNumber_append [OF s assms(2)]
    by (auto simp: is_space_def readToken_from_def is_digit_def)
  then show ?thesis
    by (simp add: t skipComment_Cons readToken_Cons)
qed

lemma digits_text:
  assumes "list_all is_digit ds" and "ds \<noteq> []"
  shows "number_text ds" "number_text (CHR ''-'' # ds)"
proof -
  have d: "dropWhile is_digit s = []" if "list_all is_digit s" for s
    using that by (simp add: list_all_iff)
  have "readNumber s = []" if "list_all is_digit s" for s
    unfolding readNumber_def d [OF that] by (simp add: peek_def)
  then show "number_text ds" "number_text (CHR ''-'' # ds)"
    using assms by (cases ds; simp add: number_text_def)+
qed

section \<open>Strings\<close>

lemma quoted_eq: "valueToQuotedStringN s = [dquote] @ concat (map quote_char s) @ [dquote]"
proof -
  have "concat (map quote_char s) = s"
    if "\<not> strnpbrk s [dquote, bslash, CHR 0x08, CHR 0x0C, CHR 0x0A, CHR 0x0D, CHR 0x09]" "\<not> containsControlCharacter0 s"
    using that by (induction s) (auto simp: strnpbrk_def containsControlCharacter0_def quote_char_def)
  then show ?thesis
    by (simp add: valueToQuotedStringN_def)
qed

lemma hex_upper_facts:
  assumes "n < 16"
  shows "hex_digit (hex_upper n) = Some n" "hex_upper n \<noteq> dquote" "hex_upper n \<noteq> bslash"
proof -
  have "\<forall>n \<in> set [0..<16]. hex_digit (hex_upper n) = Some n \<and> hex_upper n \<noteq> dquote \<and> hex_upper n \<noteq> bslash"
    by (simp add: upt_rec hex_upper_def hex_digit_def is_digit_def char_of_def bit_0)
  then show "hex_digit (hex_upper n) = Some n" "hex_upper n \<noteq> dquote" "hex_upper n \<noteq> bslash"
    using assms by auto
qed

lemma readString_hex: "list_all (\<lambda>n. n < 16) ns \<Longrightarrow> \<exists>c'. readString c (map hex_upper ns @ s) = readString c' s"
  by (induction ns arbitrary: c) (auto simp: hex_upper_facts)

lemma readString_quote_char: "\<exists>c'. readString c (quote_char x @ s) = readString c' s"
proof (cases "quote_char x = bslash # CHR ''u'' # hex4 (of_char x)")
  case True
  have "list_all (\<lambda>n. n < 16) (map (\<lambda>k. (of_char x :: nat) div 16 ^ k mod 16) [3, 2, 1, 0])"
    by simp
  from readString_hex [OF this, of bslash s] show ?thesis
    unfolding True by (simp add: hex4_def)
next
  case False
  then show ?thesis
    by (auto simp: quote_char_def split: if_splits)
qed

lemma readString_quoted: "readString c (concat (map quote_char s) @ dquote # r) = (True, r)"
proof (induction s arbitrary: c)
  case (Cons x s)
  obtain c' where "readString c (quote_char x @ concat (map quote_char s) @ dquote # r) = readString c' (concat (map quote_char s) @ dquote # r)"
    using readString_quote_char by blast
  then show ?case
    using Cons by simp
qed simp

lemma hex_digits_hex4:
  assumes "n < 32"
  shows "decodeUnicodeCodePoint (hex4 n @ s) = Some (n, s)"
proof -
  have "n div 16 ^ 3 = 0" "n div 16 ^ 2 = 0" "n div 16 mod 16 * 16 + n mod 16 = n"
    using assms by simp_all
  moreover have "hex_digits 4 0 (map hex_upper [a, b, c, d] @ s) = Some (((a * 16 + b) * 16 + c) * 16 + d, s)"
    if "a < 16" "b < 16" "c < 16" "d < 16" for a b c d
  proof -
    have "(4 :: nat) = Suc (Suc (Suc (Suc 0)))"
      by simp
    then show ?thesis
      using that by (simp only: hex_digits.simps list.map append.simps hex_upper_facts option.case mult_zero_left add_0)
  qed
  ultimately have "decodeUnicodeEscapeSequence (hex4 n @ s) = Some (n, s)"
    by (simp add: decodeUnicodeEscapeSequence_def hex4_def)
  then show ?thesis
    using assms by (simp add: decodeUnicodeCodePoint_def)
qed

lemma append_eq_Cons_fun: "(@) [x] = (#) x"
  by (simp add: fun_eq_iff)

lemma decodeChars_quote_char: "decodeChars (quote_char x @ s) = map_option ((#) x) (decodeChars s)"
proof (cases "quote_char x = bslash # CHR ''u'' # hex4 (of_char x)")
  case True
  then have "isControlCharacter x \<or> x = CHR 0x00"
    by (auto simp: quote_char_def split: if_splits)
  then have "(of_char x :: nat) < 32"
    by (auto simp: isControlCharacter_def)
  moreover have "codePointToUTF8 (of_char x) = [x]" if "(of_char x :: nat) < 32"
    using that by (simp add: codePointToUTF8_def)
  ultimately show ?thesis
    unfolding True by (subst decodeChars.simps) (simp add: hex_digits_hex4 append_eq_Cons_fun)
next
  case False
  then show ?thesis
    by (subst decodeChars.simps) (auto simp: quote_char_def simple_escape_def split: if_splits)
qed

lemma decodeChars_quoted: "decodeChars (concat (map quote_char s)) = Some s"
proof (induction s)
  case Nil
  show ?case
    by (subst decodeChars.simps) simp
qed (simp add: decodeChars_quote_char)

lemma token_string:
  "skipCommentTokens (valueToQuotedStringN s @ r) = (tokenString, valueToQuotedStringN s, r)"
  "decodeString (valueToQuotedStringN s) = Some s"
proof -
  have "readToken_from dquote (concat (map quote_char s) @ dquote # r) = (tokenString, r)"
    by (simp add: readToken_from_def readString_quoted)
  then show "skipCommentTokens (valueToQuotedStringN s @ r) = (tokenString, valueToQuotedStringN s, r)"
    by (simp add: quoted_eq skipComment_Cons readToken_Cons is_space_def)
  show "decodeString (valueToQuotedStringN s) = Some s"
    by (simp add: decodeString_def quoted_eq butlast_append decodeChars_quoted)
qed

section \<open>Numbers\<close>

lemma digits_val_mono: "v \<le> digits_val ds v"
proof (induction ds arbitrary: v)
  case (Cons d ds)
  have "v \<le> v * 10 + digit_val d"
    by simp
  then show ?case
    using Cons [of "v * 10 + digit_val d"] by simp
qed simp

lemma decodeDigits_eq:
  assumes "list_all is_digit ds" and "digits_val ds v \<le> m" and "10 \<le> m"
  shows "decodeDigits m (m div 10) v ds = Some (digits_val ds v)"
  using assms(1,2)
proof (induction ds arbitrary: v)
  case (Cons c ds)
  define w where "w = v * 10 + digit_val c"
  have w: "w \<le> digits_val ds w" "digits_val ds w \<le> m"
    using Cons.prems digits_val_mono by (simp_all add: w_def)
  have "\<not> (v > m div 10 \<or> ds \<noteq> [] \<or> digit_val c > m mod 10)" if v: "m div 10 \<le> v"
  proof -
    have mm: "m = m div 10 * 10 + m mod 10" "m mod 10 < 10"
      by simp_all
    have "v * 10 \<le> m"
      using w by (simp add: w_def)
    then have veq: "v = m div 10"
      using v by (metis div_le_mono le_antisym nonzero_mult_div_cancel_right zero_neq_numeral)
    have "ds = []"
    proof (rule ccontr)
      assume "ds \<noteq> []"
      then obtain d ds' where "ds = d # ds'"
        by (cases ds) auto
      then have "w * 10 \<le> digits_val ds w"
        using digits_val_mono [of "w * 10 + digit_val d" ds'] by simp
      moreover have "m div 10 \<ge> 1"
        using assms(3) by simp
      ultimately show False
        using w mm veq by (simp add: w_def)
    qed
    moreover have "digit_val c \<le> m mod 10"
      using order.trans [OF w] mm(1) veq unfolding w_def by linarith
    ultimately show ?thesis
      using veq by simp
  qed
  then show ?case
    using Cons.IH [of w] Cons.prems by (auto simp: w_def)
qed simp

lemma uint_text:
  obtains ds where "uintToString n [] = ds" "ds \<noteq> []" "list_all is_digit ds" "digits_val ds 0 = n" "peek ds \<noteq> CHR ''-''"
proof -
  obtain ds where ds: "uintToString n [] = ds" "ds \<noteq> []" "list_all is_digit ds" "\<forall>v. digits_val ds v = v * 10 ^ length ds + n"
    using uintToString_spec [of n "[]"] by auto
  then have "is_digit (peek ds)"
    by (cases ds) auto
  then have "peek ds \<noteq> CHR ''-''"
    by (auto simp: is_digit_def)
  then show thesis
    using ds by (intro that) simp_all
qed

lemma limits: "nat maxInt64 = 2 ^ 63 - 1" "nat maxUInt64 = 2 ^ 64 - 1"
  by (simp_all add: maxInt64_def maxUInt64_def)

lemma decode_uint:
  assumes "n \<le> 2 ^ 64 - 1"
  shows "decodeNumber L (uintToString n []) = Some (if int n \<le> maxInt then IntV (int n) else UIntV (int n))"
    "number_text (uintToString n [])"
proof -
  obtain ds where ds: "uintToString n [] = ds" "ds \<noteq> []" "list_all is_digit ds" "digits_val ds 0 = n" "peek ds \<noteq> CHR ''-''"
    by (rule uint_text)
  then show "decodeNumber L (uintToString n []) = Some (if int n \<le> maxInt then IntV (int n) else UIntV (int n))"
    using decodeDigits_eq [of ds 0 "2 ^ 64 - 1"] assms by (simp add: decodeNumber_def limits)
  show "number_text (uintToString n [])"
    using ds digits_text by simp
qed

lemma decode_neg:
  assumes "n \<le> 2 ^ 63"
  shows "decodeNumber L (CHR ''-'' # uintToString n []) = Some (IntV (- int n))"
    "number_text (CHR ''-'' # uintToString n [])"
proof -
  obtain ds where ds: "uintToString n [] = ds" "ds \<noteq> []" "list_all is_digit ds" "digits_val ds 0 = n" "peek ds \<noteq> CHR ''-''"
    by (rule uint_text)
  then show "decodeNumber L (CHR ''-'' # uintToString n []) = Some (IntV (- int n))"
    using decodeDigits_eq [of ds 0 "2 ^ 63"] assms by (simp add: decodeNumber_def limits minInt64_def)
  show "number_text (CHR ''-'' # uintToString n [])"
    using ds digits_text by simp
qed

text \<open>The printed form of a scalar number is a number token that decodes to its normal form.\<close>

lemma int_text:
  assumes "minInt64 \<le> i" and "i \<le> maxInt64"
  shows "number_text (valueToString_int i) \<and> decodeNumber L (valueToString_int i) = Some (json_norm L (IntV i))"
proof -
  have "- i \<le> 2 ^ 63" "i \<le> 2 ^ 64 - 1"
    using assms by (simp_all add: minInt64_def maxInt64_def)
  then have "nat (- i) \<le> 2 ^ 63" "nat i \<le> 2 ^ 64 - 1"
    by (simp_all add: nat_le_iff)
  then show ?thesis
    using decode_neg [of "nat (- i)"] decode_neg [of "2 ^ 63"] decode_uint [of "nat i"]
    by (auto simp: valueToString_int_def maxInt_def)
qed

lemma uint_value_text:
  assumes "0 \<le> u" and "u \<le> maxUInt64"
  shows "number_text (valueToString_uint u) \<and> decodeNumber L (valueToString_uint u) = Some (json_norm L (UIntV u))"
proof -
  have "nat u \<le> 2 ^ 64 - 1"
    using assms by (simp add: nat_le_iff maxUInt64_def)
  then show ?thesis
    using decode_uint [of "nat u"] assms(1) by (simp add: valueToString_uint_def)
qed

section \<open>The values that come back\<close>

text \<open>
  What the reader must give back, stated without its functions: an integer in the representation
  that the reader has for its size, a \<open>double\<close> as itself or as an integer of the same value, and
  everything else as it is, element by element and member by member.
\<close>

fun json_same :: "libc \<Rightarrow> json \<Rightarrow> json \<Rightarrow> bool"
  and elements_same :: "libc \<Rightarrow> json list \<Rightarrow> json list \<Rightarrow> bool"
  and members_same :: "libc \<Rightarrow> (string \<times> json) list \<Rightarrow> (string \<times> json) list \<Rightarrow> bool" where
  "json_same L NullV w \<longleftrightarrow> w = NullV"
| "json_same L (IntV i) w \<longleftrightarrow> w = (if i \<le> maxInt then IntV i else UIntV i)"
| "json_same L (UIntV u) w \<longleftrightarrow> w = (if u \<le> maxInt then IntV u else UIntV u)"
| "json_same L (RealV d) w \<longleftrightarrow> w = RealV d \<or> (case w of IntV i \<Rightarrow> double_of_int L i = d | UIntV u \<Rightarrow> double_of_int L u = d | _ \<Rightarrow> False)"
| "json_same L (StrV s) w \<longleftrightarrow> w = StrV s"
| "json_same L (BoolV b) w \<longleftrightarrow> w = BoolV b"
| "json_same L (ArrV xs) w \<longleftrightarrow> (case w of ArrV ys \<Rightarrow> elements_same L xs ys | _ \<Rightarrow> False)"
| "json_same L (ObjV kvs) w \<longleftrightarrow> (case w of ObjV kws \<Rightarrow> members_same L kvs kws | _ \<Rightarrow> False)"
| "elements_same L [] ys \<longleftrightarrow> ys = []"
| "elements_same L (x # xs) ys \<longleftrightarrow> (case ys of [] \<Rightarrow> False | y # ys' \<Rightarrow> json_same L x y \<and> elements_same L xs ys')"
| "members_same L [] kws \<longleftrightarrow> kws = []"
| "members_same L ((k, x) # kvs) kws \<longleftrightarrow> (case kws of [] \<Rightarrow> False | (k', y) # kws' \<Rightarrow> k' = k \<and> json_same L x y \<and> members_same L kvs kws')"

text \<open>
  \<open>snprintf ("%.17g")\<close> as the C library documents it. A finite number prints as an optional sign, at most seventeen
  digits, and possibly a point (or the comma of the locale) with digits and an exponent; seventeen
  digits determine the number, so that reading the text with a point gives it back, and a text
  of digits alone is the number as an integer. (Negative zero, which prints as \<open>-0\<close>, is none of these.)
\<close>

definition c_fraction :: "char \<Rightarrow> string \<Rightarrow> string" where
  "c_fraction point fs = (if fs = [] then [] else point # fs)"

definition c_exponent :: "bool \<Rightarrow> string \<Rightarrow> string" where
  "c_exponent neg es = (if es = [] then [] else CHR ''e'' # (if neg then CHR ''-'' else CHR ''+'') # es)"

definition c_real :: "char \<Rightarrow> bool \<Rightarrow> string \<Rightarrow> string \<Rightarrow> bool \<Rightarrow> string \<Rightarrow> string" where
  "c_real point neg ds fs nexp es = (if neg then ''-'' else []) @ ds @ c_fraction point fs @ c_exponent nexp es"

definition printed_17 :: "libc \<Rightarrow> double \<Rightarrow> bool" where
  "printed_17 L d \<longleftrightarrow> dbl_isfinite d \<and> (\<exists>point neg ds fs nexp es. snprintf_g L 17 d = c_real point neg ds fs nexp es
     \<and> point \<in> {CHR ''.'', CHR '',''} \<and> list_all is_digit (ds @ fs @ es) \<and> ds \<noteq> [] \<and> length ds \<le> 17
     \<and> length (c_real point neg ds fs nexp es) \<le> 31
     \<and> (if fs = [] \<and> es = [] then double_of_int L (if neg then - int (digits_val ds 0) else int (digits_val ds 0)) = d
        else stream_double L (c_real (CHR ''.'') neg ds fs nexp es) = Some d))"

fun json_printable :: "libc \<Rightarrow> json \<Rightarrow> bool" where
  "json_printable L (IntV i) \<longleftrightarrow> minInt64 \<le> i \<and> i \<le> maxInt64"
| "json_printable L (UIntV u) \<longleftrightarrow> 0 \<le> u \<and> u \<le> maxUInt64"
| "json_printable L (RealV d) \<longleftrightarrow> printed_17 L d"
| "json_printable L (ArrV xs) \<longleftrightarrow> list_all (json_printable L) xs"
| "json_printable L (ObjV kvs) \<longleftrightarrow> smap_inv kvs \<and> list_all (\<lambda>(k, v). json_printable L v) kvs"
| "json_printable L _ \<longleftrightarrow> True"

lemma no_comma_digits: "list_all is_digit ds \<Longrightarrow> map (\<lambda>c. if c = CHR '','' then CHR ''.'' else c) ds = ds"
  by (induction ds) (auto simp: is_digit_def)

lemma fix_real:
  assumes "list_all is_digit (ds @ fs @ es)" and "point \<in> {CHR ''.'', CHR '',''}"
  shows "fixNumericLocale (c_real point neg ds fs nexp es) = c_real (CHR ''.'') neg ds fs nexp es"
  using assms no_comma_digits [of ds] no_comma_digits [of fs] no_comma_digits [of es]
  by (auto simp: fixNumericLocale_def c_real_def c_fraction_def c_exponent_def)

lemma digits_scanned: "list_all is_digit ds \<Longrightarrow> dropWhile is_digit (ds @ r) = dropWhile is_digit r"
  by (induction ds) auto

lemma real_text:
  assumes "list_all is_digit (ds @ fs @ es)" and "ds \<noteq> []"
  shows "number_text (c_real (CHR ''.'') neg ds fs nexp es)"
proof -
  obtain c ds' where ds: "ds = c # ds'"
    using assms(2) by (cases ds) auto
  have d: "\<not> is_digit (CHR ''.'')" "\<not> is_digit (CHR ''e'')"
    by (simp_all add: is_digit_def)
  have e: "dropWhile is_digit es = []" "dropWhile is_digit fs = []"
    using assms(1) by (simp_all add: list_all_iff)
  have "readNumber (xs @ c_fraction (CHR ''.'') fs @ c_exponent nexp es) = []" if "list_all is_digit xs" for xs
  proof -
    have "dropWhile is_digit xs = []"
      using that by (simp add: list_all_iff)
    then show ?thesis
      using assms(1) that d e by (simp add: readNumber_def digits_scanned c_fraction_def c_exponent_def Let_def del: dropWhile_eq_Nil_conv)
  qed
  from this [of ds'] this [of ds] show ?thesis
    using assms(1) by (auto simp: number_text_def c_real_def ds)
qed

lemma decodeDigits_stop: "list_all is_digit a \<Longrightarrow> \<not> is_digit c \<Longrightarrow> decodeDigits M T v (a @ c # b) = None"
  by (induction a arbitrary: v) (auto simp: Let_def)

lemma real_decoded:
  assumes "list_all is_digit (ds @ fs @ es)" and "ds \<noteq> []" and "fs \<noteq> [] \<or> es \<noteq> []"
  shows "decodeNumber L (c_real (CHR ''.'') neg ds fs nexp es) = decodeDouble L (c_real (CHR ''.'') neg ds fs nexp es)"
proof -
  have "\<exists>c r. c_fraction (CHR ''.'') fs @ c_exponent nexp es = c # r \<and> \<not> is_digit c"
    using assms(3) by (auto simp: c_fraction_def c_exponent_def is_digit_def)
  then obtain c r where c: "c_fraction (CHR ''.'') fs @ c_exponent nexp es = c # r" "\<not> is_digit c"
    by blast
  have "decodeDigits M T 0 (ds @ c # r) = None" for M T
    using assms(1) c(2) by (intro decodeDigits_stop) simp_all
  moreover have "peek (ds @ c # r) \<noteq> CHR ''-''"
    using assms(1,2) by (cases ds) (auto simp: is_digit_def)
  ultimately show ?thesis
    by (simp add: decodeNumber_def c_real_def c)
qed

lemma digits_val_bound: "list_all is_digit ds \<Longrightarrow> digits_val ds v < (v + 1) * 10 ^ length ds"
proof (induction ds arbitrary: v)
  case (Cons c ds)
  have "digit_val c \<le> 9"
    using Cons.prems by (auto simp: is_digit_def digit_val_def)
  then have "(v * 10 + digit_val c + 1) * 10 ^ length ds \<le> ((v + 1) * 10) * 10 ^ length ds"
    by (intro mult_right_mono) simp_all
  moreover have "digits_val ds (v * 10 + digit_val c) < (v * 10 + digit_val c + 1) * 10 ^ length ds"
    using Cons by simp
  ultimately have "digits_val ds (v * 10 + digit_val c) < ((v + 1) * 10) * 10 ^ length ds"
    by (rule order.strict_trans2 [rotated])
  then show ?case
    by (simp add: algebra_simps)
qed simp

lemma integer_decoded:
  assumes "list_all is_digit ds" and "ds \<noteq> []" and "length ds \<le> 17"
  shows "decodeNumber L (c_real point neg ds [] nexp []) =
    Some (if neg then IntV (- int (digits_val ds 0))
      else if int (digits_val ds 0) \<le> maxInt then IntV (int (digits_val ds 0)) else UIntV (int (digits_val ds 0)))"
proof -
  have "digits_val ds 0 < 10 ^ length ds"
    using digits_val_bound [OF assms(1), of 0] by simp
  also have "(10 :: nat) ^ length ds \<le> 10 ^ 17"
    using assms(3) by (intro power_increasing) simp_all
  finally have small: "digits_val ds 0 < 10 ^ 17" .
  have "peek ds \<noteq> CHR ''-''"
    using assms(1,2) by (cases ds) (auto simp: is_digit_def)
  moreover have "decodeDigits (2 ^ 64 - 1) ((2 ^ 64 - 1) div 10) 0 ds = Some (digits_val ds 0)"
    "decodeDigits (2 ^ 63) (2 ^ 63 div 10) 0 ds = Some (digits_val ds 0)"
    using small by (intro decodeDigits_eq [OF assms(1)]; simp)+
  ultimately show ?thesis
    using small by (simp add: decodeNumber_def limits c_real_def c_fraction_def c_exponent_def)
qed

lemma printed_double:
  assumes "printed_17 L d"
  shows "double_ok L d \<and> json_same L (RealV d) (json_norm L (RealV d))"
proof -
  obtain point neg ds fs nexp es where t: "snprintf_g L 17 d = c_real point neg ds fs nexp es" "dbl_isfinite d"
      "point \<in> {CHR ''.'', CHR '',''}" "list_all is_digit (ds @ fs @ es)" "ds \<noteq> []" "length ds \<le> 17"
      "length (c_real point neg ds fs nexp es) \<le> 31"
      "if fs = [] \<and> es = [] then double_of_int L (if neg then - int (digits_val ds 0) else int (digits_val ds 0)) = d
        else stream_double L (c_real (CHR ''.'') neg ds fs nexp es) = Some d"
    using assms unfolding printed_17_def by blast
  have v: "valueToString_double L d = c_real (CHR ''.'') neg ds fs nexp es"
    using t(1,2,7) fix_real [OF t(4,3)] by (simp add: valueToString_double_def)
  have n: "number_text (valueToString_double L d)"
    using real_text [OF t(4,5)] v by simp
  show ?thesis
  proof (cases "fs = [] \<and> es = []")
    case True
    then show ?thesis
      using n t(4,8) integer_decoded [OF _ t(5,6)] by (auto simp: double_ok_def v)
  next
    case False
    then have "decodeNumber L (valueToString_double L d) = Some (RealV d)"
      using real_decoded [OF t(4,5)] t(8) by (auto simp: v decodeDouble_def)
    then show ?thesis
      using n by (simp add: double_ok_def)
  qed
qed

lemma json_printable_ok: "json_printable L v \<Longrightarrow> json_ok L v"
  by (induction v rule: json_ok.induct) (auto simp: list_all_iff printed_double)

lemma same_lists:
  "(\<And>x. x \<in> set xs \<Longrightarrow> json_same L x (f x)) \<Longrightarrow> elements_same L xs (map f xs)"
  "(\<And>k x. (k, x) \<in> set kvs \<Longrightarrow> json_same L x (f x)) \<Longrightarrow> members_same L kvs (map (\<lambda>(k, x). (k, f x)) kvs)"
proof -
  show "(\<And>x. x \<in> set xs \<Longrightarrow> json_same L x (f x)) \<Longrightarrow> elements_same L xs (map f xs)"
    by (induction xs) simp_all
  show "(\<And>k x. (k, x) \<in> set kvs \<Longrightarrow> json_same L x (f x)) \<Longrightarrow> members_same L kvs (map (\<lambda>(k, x). (k, f x)) kvs)"
  proof (induction kvs)
    case (Cons kx kvs)
    obtain k x where kx: "kx = (k, x)"
      by (cases kx)
    have "members_same L kvs (map (\<lambda>(k, x). (k, f x)) kvs)"
      using Cons by (meson list.set_intros(2))
    then show ?case
      using Cons.prems [of k x] by (simp add: kx)
  qed simp
qed

lemma json_printable_same: "json_printable L v \<Longrightarrow> json_same L v (json_norm L v)"
proof (induction v rule: json_ok.induct)
  case (3 L d)
  then show ?case
    using printed_double by simp
next
  case (4 L xs)
  then show ?case
    using same_lists(1) [of xs L "json_norm L"] by (simp add: list_all_iff)
next
  case (5 L kvs)
  then show ?case
    using same_lists(2) [of kvs L "json_norm L"] by (force simp: list_all_iff)
qed simp_all

text \<open>The sign of a negative zero is lost: \<open>-0\<close> is read as an integer.\<close>

lemma minus_zero_read: "dbl_isfinite d \<Longrightarrow> snprintf_g L 17 d = ''-0'' \<Longrightarrow> json_norm L (RealV d) = IntV 0"
  using integer_decoded [of "''0''" L undefined True undefined]
  by (simp add: valueToString_double_def fixNumericLocale_def c_real_def c_fraction_def c_exponent_def is_digit_def digit_val_def)

section \<open>Round trip\<close>

definition reads :: "libc \<Rightarrow> json \<Rightarrow> bool" where
  "reads L v \<longleftrightarrow> (\<forall>n depth cur r. depth + json_depth v \<le> stackLimit_g \<and> delimiter r \<and> 3 * length (writeValue L v @ r) < n \<longrightarrow>
     read L n depth (ReadValue cur (writeValue L v @ r)) = read_ok True (json_norm L v) r)"

lemma readsI:
  assumes "\<And>n depth cur r. Suc depth \<le> stackLimit_g \<Longrightarrow> depth + json_depth v \<le> stackLimit_g \<Longrightarrow> delimiter r \<Longrightarrow>
    3 * length (writeValue L v @ r) \<le> n \<Longrightarrow> readValue L (read L n) depth cur (writeValue L v @ r) = read_ok True (json_norm L v) r"
  shows "reads L v"
proof -
  have "1 \<le> json_depth v"
    by (cases v) simp_all
  then have "read L n depth (ReadValue cur (writeValue L v @ r)) = read_ok True (json_norm L v) r"
    if "depth + json_depth v \<le> stackLimit_g" "delimiter r" "3 * length (writeValue L v @ r) < n" for n depth cur r
    using assms [of depth r "n - 1" cur] that by (cases n) simp_all
  then show ?thesis
    by (simp add: reads_def)
qed

lemma reads_number:
  assumes "number_text (writeValue L v)" and "decodeNumber L (writeValue L v) = Some (json_norm L v)"
  shows "reads L v"
  by (rule readsI) (simp add: readValue_def token_number [OF assms(1)] assms(2) json_or_def)

lemma reads_scalar: "reads L NullV" "reads L (BoolV b)" "reads L (StrV s)"
  by (rule readsI, simp add: readValue_def skipComment_Cons readToken_Cons is_space_def readToken_from_def is_digit_def
      match_lit_def valueToString_bool_def token_string json_or_def; fail)+

lemma elements_comma: "writeElements L True (x # xs) = CHR '','' # writeElements L False (x # xs)"
  by simp

lemma members_comma: "writeMembers L True (x # xs) = CHR '','' # writeMembers L False (x # xs)"
  by (cases x) simp

lemma structural_tokens:
  "skipCommentTokens (CHR '']'' # s) = (tokenArrayEnd, '']'', s)" "skipCommentTokens (CHR '','' # s) = (tokenArraySeparator, '','', s)"
  "skipCommentTokens (CHR ''}'' # s) = (tokenObjectEnd, ''}'', s)" "readToken (CHR '']'' # s) = (tokenArrayEnd, '']'', s)"
  "skipCommentTokens (CHR ''['' # s) = (tokenArrayBegin, ''['', s)" "skipCommentTokens (CHR ''{'' # s) = (tokenObjectBegin, ''{'', s)"
  "readToken (CHR '':'' # s) = (tokenMemberSeparator, '':'', s)"
  "readComma (CHR ''}'' # s) = (tokenObjectEnd, s)" "readComma (CHR '','' # s) = (tokenArraySeparator, s)"
  by (simp_all add: skipComment_Cons readToken_Cons is_space_def readToken_from_def is_digit_def readComma_def)

lemma delimiter_Cons: "c \<in> {CHR '','', CHR '']'', CHR ''}''} \<or> is_space c \<Longrightarrow> delimiter (c # r)"
  by (simp add: delimiter_def)

lemma depth_elem: "x \<in> set xs \<Longrightarrow> x \<le> foldr max xs (0 :: nat)"
  by (induction xs) auto

lemma reads_elements:
  assumes "\<And>x. x \<in> set xs \<Longrightarrow> reads L x \<and> depth + json_depth x \<le> stackLimit_g" and "xs \<noteq> []"
    and "3 * length (writeElements L False xs @ CHR '']'' # r) + 1 < n"
  shows "read L n depth (ReadElements acc (writeElements L False xs @ CHR '']'' # r)) =
    read_ok True (ArrV (acc @ map (json_norm L) xs)) r"
  using assms
proof (induction xs arbitrary: acc n)
  case (Cons x xs)
  obtain m where n: "n = Suc m"
    using Cons.prems(3) by (cases n) auto
  define t where "t = writeElements L True xs @ CHR '']'' # r"
  have "delimiter t"
    by (cases xs) (simp_all add: t_def delimiter_def)
  then have v: "read L m depth (ReadValue NullV (writeValue L x @ t)) = read_ok True (json_norm L x) t"
    using Cons.prems unfolding reads_def by (simp add: n t_def)
  show ?case
  proof (cases xs)
    case Nil
    then show ?thesis
      using v by (simp add: n readElements_def t_def structural_tokens)
  next
    case (Cons y ys)
    then have t: "t = CHR '','' # writeElements L False xs @ CHR '']'' # r"
      by (simp add: t_def)
    have "3 * length (writeElements L False xs @ CHR '']'' # r) + 1 < m"
      using Cons.prems(3) unfolding n Cons elements_comma [of L y ys] by simp
    then show ?thesis
      using v Cons.IH [of m "acc @ [json_norm L x]"] Cons.prems(1)
      by (simp add: n readElements_def t structural_tokens Cons flip: t_def)
  qed
qed simp

lemma reads_members:
  assumes "\<And>k x. (k, x) \<in> set kvs \<Longrightarrow> reads L x \<and> depth + json_depth x \<le> stackLimit_g" and "kvs \<noteq> []"
    and "smap_inv kvs" and "\<And>k k'. k \<in> fst ` set acc \<Longrightarrow> k' \<in> fst ` set kvs \<Longrightarrow> k < k'"
    and "3 * length (writeMembers L False kvs @ CHR ''}'' # r) + 1 < n"
  shows "read L n depth (ReadObject acc name (writeMembers L False kvs @ CHR ''}'' # r)) =
    read_ok True (ObjV (acc @ map (\<lambda>(k, v). (k, json_norm L v)) kvs)) r"
  using assms
proof (induction kvs arbitrary: acc name n)
  case (Cons kx kvs)
  obtain k x where kx: "kx = (k, x)"
    by (cases kx)
  obtain m where n: "n = Suc m"
    using Cons.prems(5) by (cases n) auto
  define t where "t = writeMembers L True kvs @ CHR ''}'' # r"
  have "delimiter t"
    by (cases kvs) (auto simp: t_def delimiter_def)
  then have v: "read L m depth (ReadValue cur (writeValue L x @ t)) = read_ok True (json_norm L x) t" for cur
    using Cons.prems(1) [of k x] Cons.prems(5) unfolding reads_def by (simp add: n t_def kx)
  have put: "smap_put k w acc = acc @ [(k, w)]" for w
    using Cons.prems(4) by (intro smap_put_last) (auto simp: kx)
  have tok: "skipCommentTokens (writeMembers L False (kx # kvs) @ CHR ''}'' # r) =
      (tokenString, valueToQuotedStringN k, CHR '':'' # writeValue L x @ t)"
    using token_string(1) [of k "CHR '':'' # writeValue L x @ t"] by (simp add: kx t_def)
  show ?case
  proof (cases kvs)
    case Nil
    then show ?thesis
      using v tok by (simp add: n readObject_def t_def structural_tokens token_string put kx)
  next
    case (Cons ly kvs')
    then have t: "t = CHR '','' # writeMembers L False kvs @ CHR ''}'' # r"
      by (simp add: t_def members_comma del: writeMembers.simps)
    have "3 * length (writeMembers L False kvs @ CHR ''}'' # r) + 1 < m"
      using Cons.prems(5) t unfolding n kx writeMembers.simps(2) t_def by simp
    moreover have "i < j" if "i \<in> fst ` set (acc @ [(k, json_norm L x)])" "j \<in> fst ` set kvs" for i j
      using that Cons.prems(3) Cons.prems(4) by (auto simp: kx)
    ultimately have "read L m depth (ReadObject (acc @ [(k, json_norm L x)]) k (writeMembers L False kvs @ CHR ''}'' # r)) =
        read_ok True (ObjV ((acc @ [(k, json_norm L x)]) @ map (\<lambda>(k, v). (k, json_norm L v)) kvs)) r"
      using Cons.prems Cons by (intro Cons.IH) (auto simp: kx)
    then show ?thesis
      using v tok by (simp add: n readObject_def structural_tokens token_string put kx t)
  qed
qed simp

lemma writeElements_head:
  assumes "\<forall>x \<in> set xs. json_ok L x" and "xs \<noteq> []"
  shows "\<not> is_space (peek (writeElements L False xs @ r)) \<and> peek (writeElements L False xs @ r) \<noteq> CHR '']''"
proof -
  obtain x ys where xs: "xs = x # ys"
    using assms(2) by (cases xs) auto
  have num: "\<not> is_space (peek (t @ r')) \<and> peek (t @ r') \<noteq> CHR '']''" if "number_text t" for t r'
    using that by (cases t) (auto simp: number_text_def is_space_def is_digit_def)
  have "\<not> is_space (peek (writeValue L x @ r')) \<and> peek (writeValue L x @ r') \<noteq> CHR '']''" for r'
    using assms(1) num int_text uint_value_text
    by (cases x) (auto simp: xs double_ok_def quoted_eq valueToString_bool_def is_space_def)
  then show ?thesis
    by (simp add: xs)
qed

lemma skipSpaces_id: "\<not> is_space (peek s) \<Longrightarrow> skipSpaces s = s"
  by (cases s) (simp_all add: skipSpaces_def)

lemma json_reads: "json_ok L v \<Longrightarrow> reads L v"
proof (induction v)
  case (ArrV xs)
  show ?case
  proof (rule readsI)
    fix n depth cur r
    assume d: "depth + json_depth (ArrV xs) \<le> stackLimit_g" and f: "3 * length (writeValue L (ArrV xs) @ r) \<le> n"
      and "Suc depth \<le> stackLimit_g"
    have x: "reads L x \<and> Suc depth + json_depth x \<le> stackLimit_g" if "x \<in> set xs" for x
      using that ArrV d depth_elem [of "json_depth x" "map json_depth xs"] by (auto simp: list_all_iff)
    obtain k where n: "n = Suc (Suc k)"
      using f by (cases n; cases "n - 1") auto
    show "readValue L (read L n) depth cur (writeValue L (ArrV xs) @ r) = read_ok True (json_norm L (ArrV xs)) r"
    proof (cases "xs = []")
      case True
      then show ?thesis
        using d by (simp add: readValue_def structural_tokens n readArray_def skipSpaces_id is_space_def)
    next
      case False
      have "read L (Suc k) (Suc depth) (ReadElements [] (writeElements L False xs @ CHR '']'' # r)) =
          read_ok True (ArrV ([] @ map (json_norm L) xs)) r"
        using f False x by (intro reads_elements) (auto simp: n)
      then show ?thesis
        using d ArrV.prems writeElements_head [of xs L "CHR '']'' # r"] False
        by (simp add: readValue_def structural_tokens n readArray_def skipSpaces_id list_all_iff del: read.simps(2))
           (simp add: readArray_def skipSpaces_id list_all_iff)
    qed
  qed
next
  case (ObjV kvs)
  show ?case
  proof (rule readsI)
    fix n depth cur r
    assume d: "depth + json_depth (ObjV kvs) \<le> stackLimit_g" and f: "3 * length (writeValue L (ObjV kvs) @ r) \<le> n"
      and "Suc depth \<le> stackLimit_g"
    have x: "reads L x \<and> Suc depth + json_depth x \<le> stackLimit_g" if "(k, x) \<in> set kvs" for k x
      using that ObjV d depth_elem [of "json_depth x" "map (\<lambda>(k, x). json_depth x) kvs"]
      by (force simp: list_all_iff)
    show "readValue L (read L n) depth cur (writeValue L (ObjV kvs) @ r) = read_ok True (json_norm L (ObjV kvs)) r"
    proof (cases "kvs = []")
      case True
      then show ?thesis
        using d f by (cases n) (simp_all add: readValue_def structural_tokens readObject_def)
    next
      case False
      have "read L n (Suc depth) (ReadObject [] [] (writeMembers L False kvs @ CHR ''}'' # r)) =
          read_ok True (ObjV ([] @ map (\<lambda>(k, v). (k, json_norm L v)) kvs)) r"
        using f False x ObjV.prems by (intro reads_members) auto
      then show ?thesis
        using d by (simp add: readValue_def structural_tokens)
    qed
  qed
qed (auto simp: reads_scalar reads_number int_text uint_value_text double_ok_def)

text \<open>
  C13. What \<open>FastWriter::write\<close> prints, \<open>Reader::parse\<close> reads back: for every value whose integers
  fit their 64-bit types, whose doubles the C library prints as it documents, whose objects are ordered and whose
  nesting stays within the stack limit, the parse succeeds, whatever bytes lie between the size and the
  capacity of the document, and gives the value back: its integers in the representation that the
  reader has for their size, and its doubles as themselves or, where the printed form has digits
  only, as an integer of the same value.
\<close>

theorem json_roundtrip:
  assumes "json_printable L v" and "json_depth v \<le> stackLimit_g"
  shows "\<exists>w. parse_string L slack (fastWrite L v) = Some (Inr (True, w)) \<and> json_same L v w"
proof -
  have "delimiter (CHR 0x0A # slack)"
    by (simp add: delimiter_def is_space_def)
  then have "read L (parse_fuel (fastWrite L v @ slack)) 0 (ReadValue NullV (writeValue L v @ CHR 0x0A # slack)) =
      read_ok True (json_norm L v) (CHR 0x0A # slack)"
    using json_reads [OF json_printable_ok [OF assms(1)]] assms(2) unfolding reads_def by (simp add: parse_fuel_def fastWrite_def)
  then show ?thesis
    using json_printable_same [OF assms(1)] by (simp add: parse_string_def parse_range_def fastWrite_def)
qed

definition libc_plain :: libc where
  "libc_plain = \<lparr>snprintf_g = (\<lambda>p d. ''0.5''), stream_double = (\<lambda>s. Some 0x3FE0000000000000),
     double_of_int = (\<lambda>i. of_int i), double_in_range = (\<lambda>d a b. False), double_trunc = (\<lambda>d. 0),
     double_sub = (\<lambda>a b. a), double_add = (\<lambda>a b. a), double_sq = (\<lambda>a. a), double_le = (\<lambda>a b. True), double_gt = (\<lambda>a b. False),
     stod = (\<lambda>s. Inr 0), time_now = 1000, strftime_local = (\<lambda>t. ''2016-11-03 10:00:00''),
     mktime_strptime = (\<lambda>isdst s. 1000), uninit_isdst = (\<lambda>t. 0), regex_valid = (\<lambda>p. True), regex_match = (\<lambda>p s. True), str_slack = (\<lambda>s. []), std_what = (\<lambda>e. ''std::exception''), uninit_long = 0, rand_seq = (\<lambda>i. i)\<rparr>"

lemma printed_plain: "printed_17 libc_plain 0x3FE0000000000000"
  unfolding printed_17_def
  by (rule conjI, simp add: dbl_isfinite_def dbl_exponent_def, rule exI [of _ "CHR ''.''"], rule exI [of _ False], rule exI [of _ "''0''"], rule exI [of _ "''5''"],
      rule exI [of _ False], rule exI [of _ "[]"]) (simp add: libc_plain_def c_real_def c_fraction_def c_exponent_def is_digit_def)

theorem json_roundtrip_witness:
  "\<exists>w. parse_string libc_plain [CHR 0x00, CHR ''x'']
     (fastWrite libc_plain (ObjV [(''a'', ArrV [IntV (-5), UIntV 3000000000, BoolV True]), (''b'', StrV [CHR 0x07, dquote]), (''c'', RealV 0x3FE0000000000000)]))
   = Some (Inr (True, w)) \<and> json_same libc_plain (ObjV [(''a'', ArrV [IntV (-5), UIntV 3000000000, BoolV True]), (''b'', StrV [CHR 0x07, dquote]), (''c'', RealV 0x3FE0000000000000)]) w"
  by (rule json_roundtrip) (simp_all add: printed_plain minInt64_def maxInt64_def maxUInt64_def stackLimit_g_def)

text \<open>
  C29. The reader returns on every document: \<open>Reader::parse\<close> ends with a result or with the
  exception of the stack limit, never running out of the fuel of the model.
\<close>

theorem parse_total:
  "(\<exists>ok v. parse_string L slack document = Some (Inr (ok, v))) \<or> parse_string L slack document = Some (Inl Json_RuntimeError)"
  using read_returns [of "ReadValue NullV (document @ slack)" "parse_fuel (document @ slack)" L 0]
  by (auto simp: returns_def parse_string_def parse_range_def parse_fuel_def)

section \<open>The interface of the managers\<close>

text \<open>
  \<open>reader.parse (s.c_str (), v)\<close>: the characters up to the first NUL, in a new string. Printed
  values have no NUL.
\<close>

definition c_str :: "string \<Rightarrow> string" where
  "c_str s = takeWhile (\<lambda>c. c \<noteq> CHR 0x00) s"

definition parse_json :: "libc \<Rightarrow> string \<Rightarrow> (bool \<times> json) res" where
  "parse_json L document = (case parse_string L (str_slack L document) document of
     Some r \<Rightarrow> r | None \<Rightarrow> Inl Json_RuntimeError)"

definition parse_cstr :: "libc \<Rightarrow> string \<Rightarrow> (bool \<times> json) res" where
  "parse_cstr L s = parse_json L (c_str s)"

lemma parse_json_write:
  "json_ok L v \<Longrightarrow> json_depth v \<le> stackLimit_g \<Longrightarrow> parse_json L (fastWrite L v) = Inr (True, json_norm L v)"
proof -
  assume v: "json_ok L v" "json_depth v \<le> stackLimit_g"
  have "delimiter (CHR 0x0A # slack)" for slack
    by (simp add: delimiter_def is_space_def)
  then have "read L (parse_fuel (fastWrite L v @ slack)) 0 (ReadValue NullV (writeValue L v @ CHR 0x0A # slack)) =
      read_ok True (json_norm L v) (CHR 0x0A # slack)" for slack
    using json_reads [OF v(1)] v(2) unfolding reads_def by (simp add: parse_fuel_def fastWrite_def)
  then show ?thesis
    by (simp add: parse_json_def parse_string_def parse_range_def fastWrite_def)
qed

definition no_nul :: "string \<Rightarrow> bool" where
  "no_nul s \<longleftrightarrow> CHR 0x00 \<notin> set s"

lemma no_nul_simps [simp]:
  "no_nul []" "no_nul (c # s) \<longleftrightarrow> c \<noteq> CHR 0x00 \<and> no_nul s" "no_nul (s @ t) \<longleftrightarrow> no_nul s \<and> no_nul t"
  by (auto simp: no_nul_def)

lemma no_nul_digits: "list_all is_digit ds \<Longrightarrow> no_nul ds"
  by (auto simp: no_nul_def list_all_iff is_digit_def)

lemma no_nul_dropWhile: "no_nul (dropWhile is_digit s) \<longleftrightarrow> no_nul s"
proof -
  have "no_nul (takeWhile is_digit s)"
    by (rule no_nul_digits) (auto simp: list_all_iff dest: set_takeWhileD)
  then show ?thesis
    using no_nul_simps(3) [of "takeWhile is_digit s" "dropWhile is_digit s"] by simp
qed

lemma no_nul_tl: "peek s \<noteq> CHR 0x00 \<Longrightarrow> no_nul (tl s) \<longleftrightarrow> no_nul s"
  by (cases s) simp_all

lemma no_nul_readNumber: "no_nul (readNumber s) \<Longrightarrow> no_nul s"
  unfolding readNumber_def Let_def
  by (auto simp: no_nul_dropWhile no_nul_tl split: if_splits)

lemma no_nul_number: "number_text t \<Longrightarrow> no_nul t"
  using no_nul_readNumber [of "tl t"]
  by (cases t) (auto simp: number_text_def is_digit_def)

lemma no_nul_quote_char: "no_nul (quote_char c)"
proof -
  have "\<forall>n \<in> set [0..<16]. hex_upper n \<noteq> CHR 0x00"
    by (simp add: upt_rec hex_upper_def char_of_def bit_0)
  then have "no_nul (hex4 n)" for n
    by (auto simp: hex4_def)
  then show ?thesis
    by (auto simp: quote_char_def)
qed

lemma no_nul_quoted: "no_nul (valueToQuotedStringN s)"
  using no_nul_quote_char by (induction s) (auto simp: quoted_eq)

lemma no_nul_write: "json_ok L v \<Longrightarrow> no_nul (writeValue L v)"
proof (induction v)
  case (ArrV xs)
  then have "no_nul (writeElements L b xs)" for b
    by (induction xs arbitrary: b) simp_all
  then show ?case
    by simp
next
  case (ObjV kvs)
  then have "\<forall>(k, x) \<in> set kvs. no_nul (writeValue L x)"
    by (force simp: list_all_iff)
  then have "no_nul (writeMembers L b kvs)" for b
    by (induction kvs arbitrary: b) (auto simp: no_nul_quoted)
  then show ?case
    by simp
qed (auto simp: no_nul_quoted no_nul_number int_text uint_value_text double_ok_def valueToString_bool_def)

lemma parse_cstr_write [simp]:
  assumes "json_ok L v" and "json_depth v \<le> stackLimit_g"
  shows "parse_cstr L (fastWrite L v) = Inr (True, json_norm L v)"
proof -
  have "c_str (fastWrite L v) = fastWrite L v"
    using no_nul_write [OF assms(1)] unfolding c_str_def fastWrite_def
    by (subst takeWhile_eq_all_conv) (auto simp: no_nul_def)
  then show ?thesis
    using parse_json_write [OF assms] by (simp add: parse_cstr_def)
qed

text \<open>Members of a value that was read back.\<close>

lemma smap_get_map: "smap_get (map (\<lambda>(k, v). (k, f v)) kvs) key = map_option f (smap_get kvs key)"
  unfolding smap_get_def by (induction kvs) auto

lemma asLargestInt_norm [simp]:
  "i \<le> maxInt64 \<Longrightarrow> asLargestInt L (json_norm L (IntV i)) = Inr i"
  by (simp add: asLargestInt_def)

lemma asInt_norm [simp]: "minInt \<le> i \<Longrightarrow> i \<le> maxInt \<Longrightarrow> asInt L (json_norm L (IntV i)) = Inr i"
  by simp

lemma asString_norm [simp]: "asString L (json_norm L (StrV s)) = Inr s"
  by simp

section \<open>The clock does not matter\<close>

text \<open>Printing and reading values use neither the clock nor the random numbers.\<close>

abbreviation at :: "libc \<Rightarrow> int \<Rightarrow> libc" where
  "at L t \<equiv> L\<lparr>time_now := t\<rparr>"

lemma valueToString_double_at [simp]: "valueToString_double (at L t) d = valueToString_double L d"
  by (simp add: valueToString_double_def)

lemma write_at:
  "writeValue (at L t) v = writeValue L v" "writeElements (at L t) b xs = writeElements L b xs"
  "writeMembers (at L t) b kvs = writeMembers L b kvs"
  by (induction L v and L b xs and L b kvs rule: writeValue_writeElements_writeMembers.induct) simp_all

lemma decodeDouble_at [simp]: "decodeDouble (at L t) = decodeDouble L"
  by (simp add: decodeDouble_def fun_eq_iff)

lemma decodeNumber_at [simp]: "decodeNumber (at L t) = decodeNumber L"
  unfolding decodeNumber_def decodeDouble_at ..

lemma read_at [simp]: "read (at L t) n = read L n"
proof (induction n)
  case (Suc n)
  have "read_step (at L t) call depth c = read_step L call depth c" for call depth c
    by (cases c) (simp_all only: read_step.simps readValue_def [abs_def] decodeNumber_at)
  then show ?case
    by (simp add: Suc fun_eq_iff)
qed (simp add: fun_eq_iff)

lemma json_at [simp]:
  "fastWrite (at L t) = fastWrite L" "parse_json (at L t) = parse_json L" "parse_cstr (at L t) = parse_cstr L"
proof -
  show "fastWrite (at L t) = fastWrite L"
    by (simp add: fastWrite_def write_at fun_eq_iff)
  have "parse_string (at L t) = parse_string L"
    unfolding parse_string_def [abs_def] parse_range_def [abs_def] read_at ..
  then show p: "parse_json (at L t) = parse_json L"
    by (simp add: parse_json_def fun_eq_iff)
  show "parse_cstr (at L t) = parse_cstr L"
    unfolding parse_cstr_def [abs_def] p ..
qed

lemma conversions_at [simp]:
  "asString (at L t) = asString L" "asLargestInt (at L t) = asLargestInt L"
  "asInt (at L t) = asInt L" "asDouble (at L t) = asDouble L"
proof -
  have "asString (at L t) v = asString L v" "asLargestInt (at L t) v = asLargestInt L v"
    "asInt (at L t) v = asInt L v" "asDouble (at L t) v = asDouble L v" for v
    by (cases v; simp add: asLargestInt_def)+
  then show "asString (at L t) = asString L" "asLargestInt (at L t) = asLargestInt L"
    "asInt (at L t) = asInt L" "asDouble (at L t) = asDouble L"
    by (simp_all add: fun_eq_iff)
qed

text \<open>
  A list kept as a JSON array: the provider encodes and decodes one element, and the list
  that is written is the list that is read. An empty list is written as null.
\<close>

definition json_list :: "('a \<Rightarrow> json) \<Rightarrow> 'a list \<Rightarrow> json" where
  "json_list enc xs = (if xs = [] then NullV else ArrV (map enc xs))"

lemma json_list_append_all: "json_append_all NullV (map enc xs) = Inr (json_list enc xs)"
  by (simp add: json_append_all_Null json_list_def)

locale json_codec =
  fixes L :: libc and enc :: "'a \<Rightarrow> json" and dec :: "json \<Rightarrow> 'a res" and good :: "'a \<Rightarrow> bool"
  assumes enc_ok: "good x \<Longrightarrow> json_ok L (enc x)"
    and enc_depth: "good x \<Longrightarrow> json_depth (enc x) \<le> 900"
    and dec_enc: "good x \<Longrightarrow> dec (json_norm L (enc x)) = Inr x"
begin

lemma list_ok: "list_all good xs \<Longrightarrow> json_ok L (json_list enc xs)"
  using enc_ok by (auto simp: json_list_def list_all_iff)

lemma list_depth: "list_all good xs \<Longrightarrow> json_depth (json_list enc xs) \<le> 901"
proof -
  assume g: "list_all good xs"
  have "foldr max (map (\<lambda>x. json_depth (enc x)) xs) 0 \<le> 900"
    using g enc_depth by (induction xs) simp_all
  then show ?thesis
    by (simp add: json_list_def comp_def)
qed

lemma list_each: "list_all good xs \<Longrightarrow> json_each (json_norm L (json_list enc xs)) dec = Inr xs"
  using dec_enc by (auto simp: json_list_def list_all_iff res_map_map intro!: res_map_Inr [where g = id, simplified])

lemma list_stored:
  assumes "list_all good xs"
  shows "parse_cstr L (fastWrite L (json_list enc xs)) = Inr (True, json_norm L (json_list enc xs))"
  using list_ok [OF assms] list_depth [OF assms] by (simp add: stackLimit_g_def)

lemma one_stored:
  "good x \<Longrightarrow> parse_cstr L (fastWrite L (enc x)) = Inr (True, json_norm L (enc x)) \<and> dec (json_norm L (enc x)) = Inr x"
  using enc_ok enc_depth [of x] dec_enc by (simp add: stackLimit_g_def)

end

end
