(* ===== verification/Server_Db.thy ===== *)
theory Server_Db
  imports Json_Roundtrip
begin

text \<open>
  The database of the server: \<open>DBWrapper\<close> (\<open>DB/DBWrapper.cpp\<close>) over LevelDB, which is modelled by
  the contract of its interface \<open>leveldb/include/leveldb/db.h\<close>, an ordered map whose
  operations may fail, and the little imperative language in which the managers are written:
  a program takes the state of the database and gives an exception or a value with the new
  state.
\<close>

section \<open>LevelDB\<close>

datatype status = S_ok | S_notfound | S_ioerror

text \<open>The keys in \<open>io_fault\<close> are those whose blocks can be neither read nor written.\<close>

record leveldb =
  entries :: "string smap"
  io_fault :: "string \<Rightarrow> bool"

definition ldb_get :: "leveldb \<Rightarrow> string \<Rightarrow> string \<Rightarrow> status \<times> string" where
  "ldb_get l key output =
     (if io_fault l key then (S_ioerror, output)
      else case smap_get (entries l) key of None \<Rightarrow> (S_notfound, output) | Some v \<Rightarrow> (S_ok, v))"

definition ldb_put :: "leveldb \<Rightarrow> string \<Rightarrow> string \<Rightarrow> status \<times> leveldb" where
  "ldb_put l key v =
     (if io_fault l key then (S_ioerror, l) else (S_ok, l\<lparr>entries := smap_put key v (entries l)\<rparr>))"

definition ldb_delete :: "leveldb \<Rightarrow> string \<Rightarrow> status \<times> leveldb" where
  "ldb_delete l key =
     (if io_fault l key then (S_ioerror, l) else (S_ok, l\<lparr>entries := smap_del key (entries l)\<rparr>))"

text \<open>The entries an iterator visits after \<open>Seek (start)\<close>.\<close>

definition ldb_seek :: "leveldb \<Rightarrow> string \<Rightarrow> (string \<times> string) list" where
  "ldb_seek l start = dropWhile (\<lambda>(k, v). k < start) (entries l)"

text \<open>
  The files of the host, and the paths that cannot be read or that cannot be created,
  written or removed.
\<close>

record filesys =
  fs_files :: "string smap"
  fs_unreadable :: "string \<Rightarrow> bool"
  fs_locked :: "string \<Rightarrow> bool"

definition no_files :: filesys where
  "no_files = \<lparr>fs_files = [], fs_unreadable = (\<lambda>_. False), fs_locked = (\<lambda>_. False)\<rparr>"

section \<open>Programs\<close>

text \<open>The state of the server: the pointer \<open>DBWrapper::db\<close> and the files beside the database.\<close>

record dbw =
  dbw_db :: "leveldb option"
  dbw_files :: filesys

type_synonym 'a prog = "dbw \<Rightarrow> 'a res \<times> dbw"

definition ret :: "'a \<Rightarrow> 'a prog" where
  "ret x = (\<lambda>w. (Inr x, w))"

definition raise :: "exn \<Rightarrow> 'a prog" where
  "raise e = (\<lambda>w. (Inl e, w))"

definition lift :: "'a res \<Rightarrow> 'a prog" where
  "lift r = (\<lambda>w. (r, w))"

definition bnd :: "'a prog \<Rightarrow> ('a \<Rightarrow> 'b prog) \<Rightarrow> 'b prog" where
  "bnd p f = (\<lambda>w. case p w of (Inl e, w') \<Rightarrow> (Inl e, w') | (Inr x, w') \<Rightarrow> f x w')"

definition seq :: "'a prog \<Rightarrow> 'b prog \<Rightarrow> 'b prog" where
  "seq p q = bnd p (\<lambda>_. q)"

definition handle :: "'a prog \<Rightarrow> (exn \<Rightarrow> 'a prog) \<Rightarrow> 'a prog" where
  "handle p h = (\<lambda>w. case p w of (Inl e, w') \<Rightarrow> h e w' | (Inr x, w') \<Rightarrow> (Inr x, w'))"

definition if_do :: "bool \<Rightarrow> unit prog \<Rightarrow> unit prog" where
  "if_do b p = (if b then p else ret ())"

fun for_each :: "'a list \<Rightarrow> ('a \<Rightarrow> unit prog) \<Rightarrow> unit prog" where
  "for_each [] f = ret ()"
| "for_each (x # xs) f = seq (f x) (for_each xs f)"

fun map_prog :: "('a \<Rightarrow> 'b prog) \<Rightarrow> 'a list \<Rightarrow> 'b list prog" where
  "map_prog f [] = ret []"
| "map_prog f (x # xs) = bnd (f x) (\<lambda>y. bnd (map_prog f xs) (\<lambda>ys. ret (y # ys)))"

named_theorems prog_simps

lemma prog_basic [simp]:
  "ret x w = (Inr x, w)" "raise e w = (Inl e, w)" "lift r w = (r, w)"
  by (simp_all add: ret_def raise_def lift_def)

lemma bnd_Inr [simp]: "p w = (Inr x, w') \<Longrightarrow> bnd p f w = f x w'"
  and bnd_Inl [simp]: "p w = (Inl e, w') \<Longrightarrow> bnd p f w = (Inl e, w')"
  by (simp_all add: bnd_def)

lemma seq_Inr [simp]: "p w = (Inr x, w') \<Longrightarrow> seq p q w = q w'"
  and seq_Inl [simp]: "p w = (Inl e, w') \<Longrightarrow> seq p q w = (Inl e, w')"
  by (simp_all add: seq_def)

lemma handle_Inr [simp]: "p w = (Inr x, w') \<Longrightarrow> handle p h w = (Inr x, w')"
  and handle_Inl [simp]: "p w = (Inl e, w') \<Longrightarrow> handle p h w = h e w'"
  by (simp_all add: handle_def)

lemma if_do_simps [simp]: "if_do True p = p" "if_do False p = ret ()"
  by (simp_all add: if_do_def)

section \<open>DBWrapper\<close>

datatype ResponseCode = OK | ERROR

definition getKey :: "string \<Rightarrow> string \<Rightarrow> (ResponseCode \<times> string) prog" where
  "getKey key output = (\<lambda>w. case dbw_db w of
       None \<Rightarrow> (Inl Std_exception, w)
     | Some l \<Rightarrow> (case ldb_get l key output of (s, output') \<Rightarrow>
         (Inr (if s \<noteq> S_ok then ERROR else OK, output'), w)))"

definition putKey :: "string \<Rightarrow> string \<Rightarrow> ResponseCode prog" where
  "putKey key v = (\<lambda>w. case dbw_db w of
       None \<Rightarrow> (Inl Std_exception, w)
     | Some l \<Rightarrow> (case ldb_put l key v of (s, l') \<Rightarrow>
         (Inr (if s \<noteq> S_ok then ERROR else OK), w\<lparr>dbw_db := Some l'\<rparr>)))"

definition deleteKey :: "string \<Rightarrow> ResponseCode prog" where
  "deleteKey key = (\<lambda>w. case dbw_db w of
       None \<Rightarrow> (Inl Std_exception, w)
     | Some l \<Rightarrow> (case ldb_delete l key of (s, l') \<Rightarrow>
         (Inr (if s \<noteq> S_ok then ERROR else OK), w\<lparr>dbw_db := Some l'\<rparr>)))"

text \<open>There is no test of the pointer here, and only \<open>IsNotFound\<close> gives \<open>OK\<close>.\<close>

definition existsKey :: "string \<Rightarrow> string \<Rightarrow> (ResponseCode \<times> string) prog" where
  "existsKey key output = (\<lambda>w. case dbw_db w of
       None \<Rightarrow> (Inl Bad_pointer, w)
     | Some l \<Rightarrow> (case ldb_get l key output of (s, output') \<Rightarrow>
         (Inr (if s \<noteq> S_notfound then ERROR else OK, output'), w)))"

definition newIterator_from :: "string \<Rightarrow> (string \<times> string) list prog" where
  "newIterator_from start = (\<lambda>w. case dbw_db w of
       None \<Rightarrow> (Inl Bad_pointer, w) | Some l \<Rightarrow> (Inr (ldb_seek l start), w))"

text \<open>
  \<open>openDb\<close> and \<open>ResetInstance\<close> on the singleton \<open>db1\<close>; \<open>opened\<close> is what \<open>leveldb::DB::Open\<close> gives
  for the name.
\<close>

definition openDb :: "(string \<Rightarrow> leveldb option) \<Rightarrow> string \<Rightarrow> leveldb option option \<Rightarrow> leveldb option" where
  "openDb opened nameDB db1 = (case db1 of Some db \<Rightarrow> db | None \<Rightarrow> opened nameDB)"

definition ResetInstance :: "leveldb option option \<Rightarrow> leveldb option option" where
  "ResetInstance db1 = None"

text \<open>
  The managers use \<open>existsKey\<close> as a condition, with an empty string for the output: the
  response code converts to true when it is \<open>ERROR\<close>.
\<close>

definition lookupKey :: "string \<Rightarrow> string option prog" where
  "lookupKey key = bnd (existsKey key '''') (\<lambda>(code, output). ret (if code = ERROR then Some output else None))"

section \<open>The contract of the store\<close>

definition dbw_ok :: "dbw \<Rightarrow> bool" where
  "dbw_ok w \<longleftrightarrow> (\<exists>l. dbw_db w = Some l \<and> smap_inv (entries l) \<and> (\<forall>k. \<not> io_fault l k))"

definition kv :: "dbw \<Rightarrow> string \<Rightarrow> string option" where
  "kv w = (case dbw_db w of None \<Rightarrow> Map.empty | Some l \<Rightarrow> smap_get (entries l))"

text \<open>The states after a put and after a delete.\<close>

definition kv_put :: "string \<Rightarrow> string \<Rightarrow> dbw \<Rightarrow> dbw" where
  "kv_put key v w = snd (putKey key v w)"

definition kv_del :: "string \<Rightarrow> dbw \<Rightarrow> dbw" where
  "kv_del key w = snd (deleteKey key w)"

lemma lookupKey_run [simp]: "dbw_ok w \<Longrightarrow> lookupKey key w = (Inr (kv w key), w)"
  by (auto simp: dbw_ok_def lookupKey_def existsKey_def ldb_get_def kv_def bnd_def split: option.splits)

lemma getKey_run [simp]:
  "dbw_ok w \<Longrightarrow> getKey key output w = (Inr (case kv w key of None \<Rightarrow> (ERROR, output) | Some v \<Rightarrow> (OK, v)), w)"
  by (auto simp: dbw_ok_def getKey_def ldb_get_def kv_def split: option.splits)

lemma putKey_run [simp]: "dbw_ok w \<Longrightarrow> putKey key v w = (Inr OK, kv_put key v w)"
  by (auto simp: dbw_ok_def putKey_def ldb_put_def kv_put_def)

lemma deleteKey_run [simp]: "dbw_ok w \<Longrightarrow> deleteKey key w = (Inr OK, kv_del key w)"
  by (auto simp: dbw_ok_def deleteKey_def ldb_delete_def kv_del_def)

lemma kv_put_ok [simp]: "dbw_ok w \<Longrightarrow> dbw_ok (kv_put key v w)"
  and kv_kv_put [simp]: "dbw_ok w \<Longrightarrow> kv (kv_put key v w) = (kv w)(key \<mapsto> v)"
  by (auto simp: dbw_ok_def kv_put_def putKey_def ldb_put_def kv_def)

lemma kv_del_ok [simp]: "dbw_ok w \<Longrightarrow> dbw_ok (kv_del key w)"
  and kv_kv_del [simp]: "dbw_ok w \<Longrightarrow> kv (kv_del key w) = (kv w)(key := None)"
  by (auto simp: dbw_ok_def kv_del_def deleteKey_def ldb_delete_def kv_def)

text \<open>
  The store as the managers see it: an abstract map with lookups, updates and removals under
  an invariant.
\<close>

locale kv_store =
  fixes invar :: "'s \<Rightarrow> bool" and contents :: "'s \<Rightarrow> string \<Rightarrow> string option"
    and find :: "string \<Rightarrow> 's \<Rightarrow> string option res \<times> 's"
    and put :: "string \<Rightarrow> string \<Rightarrow> 's \<Rightarrow> ResponseCode res \<times> 's"
    and del :: "string \<Rightarrow> 's \<Rightarrow> ResponseCode res \<times> 's"
  assumes find_run: "invar w \<Longrightarrow> find key w = (Inr (contents w key), w)"
    and put_run: "invar w \<Longrightarrow> \<exists>w'. put key v w = (Inr OK, w') \<and> invar w' \<and> contents w' = (contents w)(key \<mapsto> v)"
    and del_run: "invar w \<Longrightarrow> \<exists>w'. del key w = (Inr OK, w') \<and> invar w' \<and> contents w' = (contents w)(key := None)"
begin

lemma find_after_put: "invar w \<Longrightarrow> fst (find key' (snd (put key v w))) = Inr (if key' = key then Some v else contents w key')"
  using put_run [of w key v] find_run by fastforce

lemma find_after_del: "invar w \<Longrightarrow> fst (find key' (snd (del key w))) = Inr (if key' = key then None else contents w key')"
  using del_run [of w key] find_run by fastforce

lemma put_commute:
  assumes "invar w" and "k1 \<noteq> k2"
  shows "contents (snd (put k1 v1 (snd (put k2 v2 w)))) = contents (snd (put k2 v2 (snd (put k1 v1 w))))"
proof -
  obtain a b where a: "put k2 v2 w = (Inr OK, a)" "invar a" "contents a = (contents w)(k2 \<mapsto> v2)"
    and b: "put k1 v1 w = (Inr OK, b)" "invar b" "contents b = (contents w)(k1 \<mapsto> v1)"
    using put_run [OF assms(1)] by meson
  show ?thesis
    using put_run [OF a(2), of k1 v1] put_run [OF b(2), of k2 v2] a b assms(2) by (auto simp: fun_upd_twist)
qed

end

interpretation dbstore: kv_store dbw_ok kv lookupKey putKey deleteKey
  by unfold_locales simp_all

text \<open>
  \<open>DBWrapper\<close> is a map: on an open database without I/O errors a key reads as its last
  value put, as absent when it was deleted since, and as before otherwise; every response is
  \<open>OK\<close> but that of \<open>existsKey\<close>, which answers \<open>ERROR\<close> exactly for the keys that exist.
\<close>

lemma DBWrapper_map:
  assumes "dbw_ok w"
  shows "fst (lookupKey key' (snd (putKey key v w))) = Inr (if key' = key then Some v else kv w key')
    \<and> fst (lookupKey key' (snd (deleteKey key w))) = Inr (if key' = key then None else kv w key')
    \<and> fst (existsKey key '''' w) = Inr (case kv w key of None \<Rightarrow> (OK, '''') | Some v \<Rightarrow> (ERROR, v))
    \<and> dbw_ok (snd (putKey key v w)) \<and> dbw_ok (snd (deleteKey key w))"
proof (intro conjI)
  show "fst (lookupKey key' (snd (putKey key v w))) = Inr (if key' = key then Some v else kv w key')"
    by (rule dbstore.find_after_put [OF assms])
  show "fst (lookupKey key' (snd (deleteKey key w))) = Inr (if key' = key then None else kv w key')"
    by (rule dbstore.find_after_del [OF assms])
  show "fst (existsKey key '''' w) = Inr (case kv w key of None \<Rightarrow> (OK, '''') | Some v \<Rightarrow> (ERROR, v))"
    using assms by (auto simp: dbw_ok_def existsKey_def ldb_get_def kv_def split: option.splits)
qed (use assms in simp_all)

definition dbw_of :: "string smap \<Rightarrow> dbw" where
  "dbw_of m = \<lparr>dbw_db = Some \<lparr>entries = m, io_fault = (\<lambda>_. False)\<rparr>, dbw_files = no_files\<rparr>"

lemma dbw_of_ok: "smap_inv m \<Longrightarrow> dbw_ok (dbw_of m)" and kv_dbw_of [simp]: "kv (dbw_of m) = smap_get m"
  by (simp_all add: dbw_ok_def dbw_of_def kv_def)

lemma DBWrapper_map_witness:
  "fst (lookupKey ''b'' (snd (putKey ''a'' ''1'' (dbw_of [(''b'', ''2'')])))) = Inr (Some ''2'')"
  using DBWrapper_map [of "dbw_of [(''b'', ''2'')]" "''b''" "''a''" "''1''"]
  by (simp add: dbw_of_ok smap_get_def)

text \<open>
  A read error counts as existence: when LevelDB fails on a key, \<open>existsKey\<close> answers as for
  a stored key with an empty value, whether or not the key is in the database, and a write
  that fails is reported only by a code.
\<close>

lemma existsKey_io_error:
  assumes "dbw_db w = Some l" and "io_fault l key"
  shows "lookupKey key w = (Inr (Some ''''), w) \<and> putKey key v w = (Inr ERROR, w)"
  using assms by (simp_all add: lookupKey_def existsKey_def ldb_get_def bnd_def putKey_def ldb_put_def)

lemma existsKey_io_error_witness:
  "lookupKey ''a'' \<lparr>dbw_db = Some \<lparr>entries = [], io_fault = (\<lambda>k. k = ''a'')\<rparr>, dbw_files = no_files\<rparr>
     = (Inr (Some ''''), \<lparr>dbw_db = Some \<lparr>entries = [], io_fault = (\<lambda>k. k = ''a'')\<rparr>, dbw_files = no_files\<rparr>)"
  using existsKey_io_error [of "\<lparr>dbw_db = Some \<lparr>entries = [], io_fault = (\<lambda>k. k = ''a'')\<rparr>, dbw_files = no_files\<rparr>"] by simp

section \<open>Numbers in keys\<close>

text \<open>\<open>std::to_string (long)\<close> and \<open>std::stol\<close>.\<close>

definition to_string :: "int \<Rightarrow> string" where
  "to_string i = (if i < 0 then CHR ''-'' # uintToString (nat (- i)) [] else uintToString (nat i) [])"

definition stol :: "string \<Rightarrow> int res" where
  "stol s0 =
     (let s = dropWhile (\<lambda>c. is_space c \<or> c = CHR 0x0B \<or> c = CHR 0x0C) s0;
          neg = (peek s = CHR ''-'');
          ds = takeWhile is_digit (if neg \<or> peek s = CHR ''+'' then tl s else s);
          i = (if neg then - int (digits_val ds 0) else int (digits_val ds 0))
      in if ds = [] then Inl Std_invalid_argument
         else if minInt64 \<le> i \<and> i \<le> maxInt64 then Inr i else Inl Std_out_of_range)"

lemma stol_digits:
  assumes "ds \<noteq> []" and "list_all is_digit ds" and "m = int (digits_val ds 0)"
  shows "m \<le> maxInt64 \<Longrightarrow> stol ds = Inr m" and "minInt64 \<le> - m \<Longrightarrow> stol (CHR ''-'' # ds) = Inr (- m)"
proof -
  have t: "takeWhile is_digit ds = ds" and "is_digit (peek ds)"
    using assms(1,2) by (simp add: takeWhile_eq_all_conv list_all_iff) (use assms in \<open>cases ds; simp\<close>)
  then have p: "peek ds \<noteq> CHR ''-''" "peek ds \<noteq> CHR ''+''"
    and d: "dropWhile (\<lambda>c. is_space c \<or> c = CHR 0x0B \<or> c = CHR 0x0C) ds = ds"
    by (auto simp: is_digit_def) (cases ds; auto simp: is_space_def is_digit_def)
  have sp: "\<not> is_space (CHR ''-'')"
    by (simp add: is_space_def)
  have "minInt64 \<le> m" "- m \<le> maxInt64"
    using assms(3) by (simp_all add: minInt64_def maxInt64_def)
  then show "m \<le> maxInt64 \<Longrightarrow> stol ds = Inr m" and "minInt64 \<le> - m \<Longrightarrow> stol (CHR ''-'' # ds) = Inr (- m)"
    using assms(1,3) p unfolding stol_def Let_def
    by (simp_all add: d t sp del: takeWhile_eq_all_conv dropWhile_eq_self_iff)
qed

lemma stol_to_string: "minInt64 \<le> i \<Longrightarrow> i \<le> maxInt64 \<Longrightarrow> stol (to_string i) = Inr i"
proof -
  obtain ds where "uintToString (nat \<bar>i\<bar>) [] = ds" "ds \<noteq> []" "list_all is_digit ds" "digits_val ds 0 = nat \<bar>i\<bar>"
    by (rule uint_text)
  then show "minInt64 \<le> i \<Longrightarrow> i \<le> maxInt64 \<Longrightarrow> stol (to_string i) = Inr i"
    using stol_digits [of ds "\<bar>i\<bar>"] by (simp add: to_string_def abs_if split: if_splits)
qed

lemma to_string_inj [simp]: "to_string i = to_string j \<longleftrightarrow> i = j"
proof
  assume eq: "to_string i = to_string j"
  have s: "(peek (to_string k) = CHR ''-'') = (k < 0) \<and>
    digits_val (if k < 0 then tl (to_string k) else to_string k) 0 = nat \<bar>k\<bar>" for k
  proof -
    obtain ds where "uintToString (nat \<bar>k\<bar>) [] = ds" "digits_val ds 0 = nat \<bar>k\<bar>" "peek ds \<noteq> CHR ''-''"
      by (rule uint_text)
    then show ?thesis
      by (cases "k < 0") (simp_all add: to_string_def)
  qed
  have "(i < 0) = (j < 0)"
    using s [of i] s [of j] eq by simp
  moreover have "nat \<bar>i\<bar> = nat \<bar>j\<bar>"
    using s [of i] s [of j] eq calculation by metis
  ultimately show "i = j"
    by (simp add: abs_if split: if_splits)
qed simp

section \<open>Arrays in the database\<close>

text \<open>
  The managers keep lists as printed JSON arrays and go through the same two loops: read the
  key, parse, decode the elements; encode the elements, append them to a fresh value, print and
  put.
\<close>

definition load_array :: "libc \<Rightarrow> (json \<Rightarrow> 'a res) \<Rightarrow> string \<Rightarrow> 'a list prog" where
  "load_array L dec key = bnd (lookupKey key) (\<lambda>result. case result of
       None \<Rightarrow> ret []
     | Some s \<Rightarrow> bnd (lift (parse_cstr L s)) (\<lambda>(ok, v). lift (json_each v dec)))"

definition save_array :: "libc \<Rightarrow> ('a \<Rightarrow> json res) \<Rightarrow> string \<Rightarrow> 'a list \<Rightarrow> unit prog" where
  "save_array L enc key xs =
     bnd (lift (res_map enc xs)) (\<lambda>vs. bnd (lift (json_append_all NullV vs)) (\<lambda>v.
       seq (putKey key (fastWrite L v)) (ret ())))"

lemma array_at [simp]: "load_array (at L t) dec key = load_array L dec key" "save_array (at L t) enc key xs = save_array L enc key xs"
  unfolding load_array_def save_array_def json_at by (rule refl)+

text \<open>The list that a key holds; a missing key holds the empty list.\<close>

definition holds_list :: "libc \<Rightarrow> ('a \<Rightarrow> json) \<Rightarrow> ('a \<Rightarrow> bool) \<Rightarrow> dbw \<Rightarrow> string \<Rightarrow> 'a list \<Rightarrow> bool" where
  "holds_list L enc good w key xs \<longleftrightarrow> list_all good xs \<and>
     (kv w key = Some (fastWrite L (json_list enc xs)) \<or> kv w key = None \<and> xs = [])"

context json_codec
begin

lemma load_run:
  assumes "dbw_ok w" and "holds_list L enc good w key xs"
  shows "load_array L dec key w = (Inr xs, w)"
  using assms list_stored list_each unfolding holds_list_def
  by (auto simp: load_array_def)

lemma save_run:
  assumes "dbw_ok w" and "list_all good xs" and "\<And>x. x \<in> set xs \<Longrightarrow> enc' x = Inr (enc x)"
  shows "save_array L enc' key xs w = (Inr (), kv_put key (fastWrite L (json_list enc xs)) w)"
proof -
  have "res_map enc' xs = Inr (map enc xs)"
    using assms(3) by (rule res_map_Inr)
  then show ?thesis
    using assms(1) by (simp add: save_array_def json_list_append_all)
qed

lemma holds_put:
  "dbw_ok w \<Longrightarrow> list_all good xs \<Longrightarrow> holds_list L enc good (kv_put key (fastWrite L (json_list enc xs)) w) key xs"
  by (simp add: holds_list_def)

lemma holds_put_other:
  "dbw_ok w \<Longrightarrow> key' \<noteq> key \<Longrightarrow> holds_list L enc good (kv_put key v w) key' xs \<longleftrightarrow> holds_list L enc good w key' xs"
  by (simp add: holds_list_def)

lemma holds_unique:
  assumes "holds_list L enc good w key xs" and "holds_list L enc good w key ys" and "dbw_ok w"
  shows "xs = ys"
  using load_run [OF assms(3,1)] load_run [OF assms(3,2)] by simp

end

end
