(* ===== verification/Contacts.thy ===== *)
theory Contacts
  imports Server_Db
begin

text \<open>
  Contacts of the users: \<open>Contact\<close> and \<open>RelationsManager\<close> (\<open>person/relation/\<close>). Every user has a
  list of contacts with a status; a request, an acceptance and a removal change the lists of
  both users.
\<close>

record contact =
  c_status :: string
  c_userId :: int

definition contact_of_json :: "libc \<Rightarrow> json \<Rightarrow> contact res" where
  "contact_of_json L contactAsJson =
     res_bind (res_bind (json_get contactAsJson ''status'') (asString L)) (\<lambda>status.
     res_bind (res_bind (json_get contactAsJson ''user_id'') (asLargestInt L)) (\<lambda>userId.
     Inr \<lparr>c_status = status, c_userId = userId\<rparr>))"

definition contact_as_json :: "contact \<Rightarrow> json res" where
  "contact_as_json contact =
     json_fields NullV [(''user_id'', IntV (c_userId contact)), (''status'', StrV (c_status contact))]"

definition CONTACT_KEY :: string where "CONTACT_KEY = ''contact_''"
definition ACTIVE :: string where "ACTIVE = ''active''"
definition RECEIVED :: string where "RECEIVED = ''received''"
definition REQUESTED :: string where "REQUESTED = ''requested''"
definition ADD_CONTACT_ACTION :: string where "ADD_CONTACT_ACTION = ''add_contact''"
definition ACCEPT_CONTACT_ACTION :: string where "ACCEPT_CONTACT_ACTION = ''accept_contact''"
definition REMOVE_CONTACT_ACTION :: string where "REMOVE_CONTACT_ACTION = ''remove_contact''"

lemmas contact_consts = ACTIVE_def RECEIVED_def REQUESTED_def
lemmas action_consts = ADD_CONTACT_ACTION_def ACCEPT_CONTACT_ACTION_def REMOVE_CONTACT_ACTION_def

definition contact_key :: "int \<Rightarrow> string" where
  "contact_key userId = CONTACT_KEY @ to_string userId"

definition getContactsByUserId :: "libc \<Rightarrow> int \<Rightarrow> contact list prog" where
  "getContactsByUserId L userId = load_array L (contact_of_json L) (contact_key userId)"

text \<open>The loop that sets the status where the contact occurs and appends it where it does not.\<close>

definition update_contacts :: "contact list \<Rightarrow> int \<Rightarrow> string \<Rightarrow> contact list" where
  "update_contacts current contactId status =
     (let new = map (\<lambda>c. if c_userId c = contactId then c\<lparr>c_status := status\<rparr> else c) current
      in if \<exists>c \<in> set current. c_userId c = contactId then new
         else new @ [\<lparr>c_status = status, c_userId = contactId\<rparr>])"

definition addOrUpdateRelation :: "libc \<Rightarrow> int \<Rightarrow> int \<Rightarrow> string \<Rightarrow> unit prog" where
  "addOrUpdateRelation L keyUserId contactId status =
     bnd (getContactsByUserId L keyUserId) (\<lambda>currentRelationships.
       save_array L contact_as_json (contact_key keyUserId) (update_contacts currentRelationships contactId status))"

definition removeRelation :: "libc \<Rightarrow> int \<Rightarrow> int \<Rightarrow> unit prog" where
  "removeRelation L keyUserId contactId =
     bnd (getContactsByUserId L keyUserId) (\<lambda>currentRelationships.
       save_array L contact_as_json (contact_key keyUserId)
         (filter (\<lambda>c. c_userId c \<noteq> contactId) currentRelationships))"

definition saveRelation :: "libc \<Rightarrow> int \<Rightarrow> int \<Rightarrow> string \<Rightarrow> unit prog" where
  "saveRelation L authorId contactId action =
     (if action = ADD_CONTACT_ACTION then
        seq (addOrUpdateRelation L authorId contactId REQUESTED) (addOrUpdateRelation L contactId authorId RECEIVED)
      else if action = ACCEPT_CONTACT_ACTION then
        seq (addOrUpdateRelation L authorId contactId ACTIVE) (addOrUpdateRelation L contactId authorId ACTIVE)
      else if action = REMOVE_CONTACT_ACTION then
        seq (removeRelation L authorId contactId) (removeRelation L contactId authorId)
      else raise (InvalidRequest (action @ '' is not a valid action'')))"

section \<open>The lists in the database\<close>

definition contact_enc :: "contact \<Rightarrow> json" where
  "contact_enc c = ObjV [(''status'', StrV (c_status c)), (''user_id'', IntV (c_userId c))]"

definition long_ok :: "int \<Rightarrow> bool" where
  "long_ok i \<longleftrightarrow> minInt64 \<le> i \<and> i \<le> maxInt64"

abbreviation contact_ok :: "contact \<Rightarrow> bool" where
  "contact_ok c \<equiv> long_ok (c_userId c)"

lemma contact_as_json_eq: "contact_as_json c = Inr (contact_enc c)"
  by (simp add: contact_as_json_def contact_enc_def)

interpretation contact_codec: json_codec L contact_enc "contact_of_json L" contact_ok for L
proof (unfold_locales, goal_cases)
  case (3 c)
  then show ?case
    by (simp add: contact_of_json_def contact_enc_def long_ok_def asLargestInt_def)
qed (simp_all add: contact_enc_def long_ok_def)

abbreviation holds_contacts :: "libc \<Rightarrow> dbw \<Rightarrow> int \<Rightarrow> contact list \<Rightarrow> bool" where
  "holds_contacts L w a xs \<equiv> holds_list L contact_enc contact_ok w (contact_key a) xs"

lemma contact_key_inj [simp]: "contact_key a = contact_key b \<longleftrightarrow> a = b"
  by (simp add: contact_key_def)

lemma getContacts_run:
  "dbw_ok w \<Longrightarrow> holds_contacts L w a xs \<Longrightarrow> getContactsByUserId L a w = (Inr xs, w)"
  unfolding getContactsByUserId_def by (rule contact_codec.load_run)

lemma update_contacts_ok:
  "list_all contact_ok xs \<Longrightarrow> long_ok b \<Longrightarrow> list_all contact_ok (update_contacts xs b status)"
  by (auto simp: update_contacts_def Let_def list_all_iff)

text \<open>What the two primitive changes do to a state.\<close>

definition put_contacts :: "libc \<Rightarrow> int \<Rightarrow> contact list \<Rightarrow> dbw \<Rightarrow> dbw" where
  "put_contacts L a xs w = kv_put (contact_key a) (fastWrite L (json_list contact_enc xs)) w"

lemma addOrUpdate_run:
  assumes "dbw_ok w" and "holds_contacts L w a xs" and "long_ok b"
  shows "addOrUpdateRelation L a b status w = (Inr (), put_contacts L a (update_contacts xs b status) w)"
proof -
  have "list_all contact_ok xs"
    using assms(2) by (simp add: holds_list_def)
  then show ?thesis
    unfolding addOrUpdateRelation_def put_contacts_def bnd_Inr [where p = "getContactsByUserId L a", OF getContacts_run [OF assms(1,2)]]
    using assms update_contacts_ok by (intro contact_codec.save_run) (auto simp: contact_as_json_eq)
qed

lemma removeRelation_run:
  assumes "dbw_ok w" and "holds_contacts L w a xs"
  shows "removeRelation L a b w = (Inr (), put_contacts L a (filter (\<lambda>c. c_userId c \<noteq> b) xs) w)"
proof -
  have "list_all contact_ok xs"
    using assms(2) by (simp add: holds_list_def)
  then show ?thesis
    unfolding removeRelation_def put_contacts_def bnd_Inr [where p = "getContactsByUserId L a", OF getContacts_run [OF assms(1,2)]]
    using assms(1) by (intro contact_codec.save_run) (auto simp: contact_as_json_eq list_all_iff)
qed

lemma put_contacts_holds:
  assumes "dbw_ok w" and "list_all contact_ok xs"
  shows "dbw_ok (put_contacts L a xs w)" "holds_contacts L (put_contacts L a xs w) a xs"
    "b \<noteq> a \<Longrightarrow> holds_contacts L (put_contacts L a xs w) b ys \<longleftrightarrow> holds_contacts L w b ys"
  using assms contact_codec.holds_put contact_codec.holds_put_other
  by (auto simp: put_contacts_def)

section \<open>The relation between users\<close>

text \<open>
  The abstract view: the status that one user has for another, if any. The invariant of the
  database is that every list can be read and names each contact once.
\<close>

definition contacts_inv :: "libc \<Rightarrow> dbw \<Rightarrow> bool" where
  "contacts_inv L w \<longleftrightarrow> dbw_ok w \<and> (\<forall>a. \<exists>xs. holds_contacts L w a xs \<and> distinct (map c_userId xs))"

definition status_in :: "contact list \<Rightarrow> int \<Rightarrow> string option" where
  "status_in xs b = map_of (map (\<lambda>c. (c_userId c, c_status c)) xs) b"

definition relation :: "libc \<Rightarrow> dbw \<Rightarrow> int \<Rightarrow> int \<Rightarrow> string option" where
  "relation L w a b = (case getContactsByUserId L a w of (Inr xs, _) \<Rightarrow> status_in xs b | _ \<Rightarrow> None)"

text \<open>What an action does to the relation.\<close>

definition action_spec :: "string \<Rightarrow> (string option \<times> string option) option" where
  "action_spec action =
     (if action = ADD_CONTACT_ACTION then Some (Some REQUESTED, Some RECEIVED)
      else if action = ACCEPT_CONTACT_ACTION then Some (Some ACTIVE, Some ACTIVE)
      else if action = REMOVE_CONTACT_ACTION then Some (None, None) else None)"

lemma relation_holds: "dbw_ok w \<Longrightarrow> holds_contacts L w a xs \<Longrightarrow> relation L w a = status_in xs"
  by (simp add: relation_def getContacts_run fun_eq_iff)

lemma status_in_Nil [simp]: "status_in [] = Map.empty"
  and status_in_Cons: "status_in (c # xs) = (status_in xs)(c_userId c \<mapsto> c_status c)"
  by (simp_all add: status_in_def fun_eq_iff)

lemma status_in_None: "status_in xs b = None \<longleftrightarrow> (\<forall>c \<in> set xs. c_userId c \<noteq> b)"
  by (induction xs) (auto simp: status_in_Cons)

lemma status_in_append: "status_in (xs @ ys) = status_in ys ++ status_in xs"
  by (induction xs) (auto simp: status_in_Cons fun_eq_iff map_add_def split: option.split)

lemma status_in_map:
  "status_in (map (\<lambda>c. if c_userId c = b then c\<lparr>c_status := st\<rparr> else c) xs) =
     (if \<exists>c \<in> set xs. c_userId c = b then (status_in xs)(b \<mapsto> st) else status_in xs)"
  by (induction xs) (auto simp: status_in_Cons fun_eq_iff)

lemma status_update: "status_in (update_contacts xs b st) = (status_in xs)(b \<mapsto> st)"
proof (cases "\<exists>c \<in> set xs. c_userId c = b")
  case True
  then show ?thesis
    by (simp add: update_contacts_def Let_def status_in_map)
next
  case False
  then have "status_in xs b = None"
    by (simp add: status_in_None)
  then show ?thesis
    using False by (auto simp: update_contacts_def Let_def status_in_map status_in_append status_in_Cons
        fun_eq_iff map_add_def split: option.split)
qed

lemma status_filter: "status_in (filter (\<lambda>c. c_userId c \<noteq> b) xs) = (status_in xs)(b := None)"
  by (induction xs) (auto simp: status_in_Cons fun_eq_iff)

lemma distinct_update: "distinct (map c_userId xs) \<Longrightarrow> distinct (map c_userId (update_contacts xs b st))"
proof -
  have "map c_userId (map (\<lambda>c. if c_userId c = b then c\<lparr>c_status := st\<rparr> else c) xs) = map c_userId xs"
    by simp
  then show "distinct (map c_userId xs) \<Longrightarrow> distinct (map c_userId (update_contacts xs b st))"
    by (auto simp: update_contacts_def Let_def simp del: map_map)
qed

text \<open>A primitive change keeps the invariant and changes one row of the relation.\<close>

lemma put_contacts_inv:
  assumes "contacts_inv L w" and "list_all contact_ok xs" and "distinct (map c_userId xs)"
  shows "contacts_inv L (put_contacts L a xs w)" "relation L (put_contacts L a xs w) = (relation L w)(a := status_in xs)"
proof -
  have ok: "dbw_ok w"
    using assms(1) by (simp add: contacts_inv_def)
  note P = put_contacts_holds [OF ok assms(2)]
  show "contacts_inv L (put_contacts L a xs w)"
    using assms P unfolding contacts_inv_def by metis
  have "relation L (put_contacts L a xs w) b = (if b = a then status_in xs else relation L w b)" for b
    using assms(1) P relation_holds [OF P(1)] relation_holds [OF ok] unfolding contacts_inv_def by metis
  then show "relation L (put_contacts L a xs w) = (relation L w)(a := status_in xs)"
    by auto
qed

lemma addOrUpdate_spec:
  assumes "contacts_inv L w" and "long_ok b"
  obtains w' where "addOrUpdateRelation L a b st w = (Inr (), w')" "contacts_inv L w'"
    "relation L w' = (relation L w)(a := (relation L w a)(b \<mapsto> st))"
proof -
  obtain xs where xs: "holds_contacts L w a xs" "distinct (map c_userId xs)" and ok: "dbw_ok w"
    using assms(1) by (auto simp: contacts_inv_def)
  have "list_all contact_ok (update_contacts xs b st)"
    using xs(1) assms(2) by (intro update_contacts_ok) (simp_all add: holds_list_def)
  then show thesis
    using addOrUpdate_run [OF ok xs(1) assms(2)] put_contacts_inv [OF assms(1) _ distinct_update [OF xs(2)]]
      relation_holds [OF ok xs(1)] by (intro that) (auto simp: status_update)
qed

lemma removeRelation_spec:
  assumes "contacts_inv L w"
  obtains w' where "removeRelation L a b w = (Inr (), w')" "contacts_inv L w'"
    "relation L w' = (relation L w)(a := (relation L w a)(b := None))"
proof -
  obtain xs where xs: "holds_contacts L w a xs" "distinct (map c_userId xs)" and ok: "dbw_ok w"
    using assms(1) by (auto simp: contacts_inv_def)
  have "list_all contact_ok (filter (\<lambda>c. c_userId c \<noteq> b) xs)" "distinct (map c_userId (filter (\<lambda>c. c_userId c \<noteq> b) xs))"
    using xs by (auto simp: holds_list_def list_all_iff distinct_map_filter)
  then show thesis
    using removeRelation_run [OF ok xs(1)] put_contacts_inv [OF assms(1)] relation_holds [OF ok xs(1)]
    by (intro that) (auto simp: status_filter)
qed

section \<open>Properties\<close>

lemma saveRelation_run:
  assumes "contacts_inv L w" and "long_ok a" and "long_ok b" and "a \<noteq> b" and "action_spec action = Some (x, y)"
  obtains w' where "saveRelation L a b action w = (Inr (), w')" "contacts_inv L w'"
    "relation L w' = (relation L w)(a := (relation L w a)(b := x), b := (relation L w b)(a := y))"
proof -
  consider (upd) st st' where "x = Some st" "y = Some st'"
      "saveRelation L a b action = seq (addOrUpdateRelation L a b st) (addOrUpdateRelation L b a st')"
    | (rem) "x = None" "y = None" "saveRelation L a b action = seq (removeRelation L a b) (removeRelation L b a)"
    using assms(5) unfolding action_spec_def saveRelation_def by (auto simp: action_consts split: if_splits)
  then show thesis
  proof cases
    case upd
    obtain w1 where w1: "addOrUpdateRelation L a b st w = (Inr (), w1)" "contacts_inv L w1"
      "relation L w1 = (relation L w)(a := (relation L w a)(b \<mapsto> st))"
      using addOrUpdate_spec [OF assms(1,3)] .
    obtain w2 where "addOrUpdateRelation L b a st' w1 = (Inr (), w2)" "contacts_inv L w2"
      "relation L w2 = (relation L w1)(b := (relation L w1 b)(a \<mapsto> st'))"
      using addOrUpdate_spec [OF w1(2) assms(2)] .
    then show thesis
      using w1 upd assms(4) by (intro that [of w2]) auto
  next
    case rem
    obtain w1 where w1: "removeRelation L a b w = (Inr (), w1)" "contacts_inv L w1"
      "relation L w1 = (relation L w)(a := (relation L w a)(b := None))"
      using removeRelation_spec [OF assms(1)] .
    obtain w2 where "removeRelation L b a w1 = (Inr (), w2)" "contacts_inv L w2"
      "relation L w2 = (relation L w1)(b := (relation L w1 b)(a := None))"
      using removeRelation_spec [OF w1(2)] .
    then show thesis
      using w1 rem assms(4) by (intro that [of w2]) auto
  qed
qed

lemma saveRelation_invalid:
  "action_spec action = None \<Longrightarrow> saveRelation L a b action w = (Inl (InvalidRequest (action @ '' is not a valid action'')), w)"
  by (auto simp: action_spec_def saveRelation_def split: if_splits)

text \<open>
  C28. \<open>saveRelation\<close> implements its specification on the relation between users: a valid action
  between two different users succeeds and changes exactly the two entries of the pair, to the
  statuses of the action; any other action is refused and leaves the database as it was.
\<close>

theorem saveRelation_refines:
  assumes "contacts_inv L w" and "long_ok a" and "long_ok b" and "a \<noteq> b"
  shows "case action_spec action of
      None \<Rightarrow> saveRelation L a b action w = (Inl (InvalidRequest (action @ '' is not a valid action'')), w)
    | Some (x, y) \<Rightarrow> \<exists>w'. saveRelation L a b action w = (Inr (), w') \<and> contacts_inv L w' \<and>
        relation L w' = (relation L w)(a := (relation L w a)(b := x), b := (relation L w b)(a := y))"
proof (cases "action_spec action")
  case (Some xy)
  obtain x y where xy: "xy = (x, y)"
    by (cases xy)
  obtain w' where "saveRelation L a b action w = (Inr (), w')" "contacts_inv L w'"
    "relation L w' = (relation L w)(a := (relation L w a)(b := x), b := (relation L w b)(a := y))"
    using saveRelation_run [OF assms] Some xy by blast
  then show ?thesis
    by (simp add: Some xy)
qed (simp add: saveRelation_invalid)

lemma contacts_inv_empty: "contacts_inv L (dbw_of [])"
  by (auto simp: contacts_inv_def dbw_of_ok holds_list_def intro!: exI [of _ "[]"])

theorem saveRelation_refines_witness:
  "\<exists>w'. saveRelation libc_plain 1 2 ''add_contact'' (dbw_of []) = (Inr (), w') \<and>
     relation libc_plain w' 1 2 = Some ''requested'' \<and> relation libc_plain w' 2 1 = Some ''received''"
  using saveRelation_refines [OF contacts_inv_empty, of 1 2 libc_plain "''add_contact''"]
  by (auto simp: long_ok_def minInt64_def maxInt64_def action_spec_def action_consts contact_consts)

text \<open>The states that requests about contacts lead to, starting with no contacts.\<close>

inductive reachable_contacts :: "libc \<Rightarrow> dbw \<Rightarrow> bool" for L where
  start: "dbw_ok w \<Longrightarrow> (\<And>a. kv w (contact_key a) = None) \<Longrightarrow> reachable_contacts L w"
| step: "reachable_contacts L w \<Longrightarrow> long_ok a \<Longrightarrow> long_ok b \<Longrightarrow> a \<noteq> b \<Longrightarrow>
    saveRelation L a b action w = (r, w') \<Longrightarrow> reachable_contacts L w'"

inductive_cases reachable_contactsE: "reachable_contacts L w"

text \<open>The status of a pair seen from both sides.\<close>

definition paired :: "string option \<Rightarrow> string option \<Rightarrow> bool" where
  "paired x y \<longleftrightarrow> (x, y) \<in> {(None, None), (Some REQUESTED, Some RECEIVED), (Some RECEIVED, Some REQUESTED), (Some ACTIVE, Some ACTIVE)}"

lemma paired_None: "paired None None"
  by (simp add: paired_def)

lemma action_paired: "action_spec action = Some (x, y) \<Longrightarrow> paired x y \<and> paired y x"
  by (auto simp: action_spec_def paired_def split: if_splits)

text \<open>
  C10. In every state that a sequence of contact requests leads to, each list of contacts can be
  read and names every contact once, nobody is a contact of himself, and the two sides of a
  pair agree: neither has the other, one has requested and the other received, or both are
  active.
\<close>

theorem contacts_invariant:
  assumes "reachable_contacts L w"
  shows "contacts_inv L w \<and> (\<forall>a b. paired (relation L w a b) (relation L w b a)) \<and> (\<forall>a. relation L w a a = None)"
  using assms
proof (induction rule: reachable_contacts.induct)
  case (start w)
  then have h: "holds_contacts L w a []" for a
    by (simp add: holds_list_def)
  then show ?case
    using start(1) relation_holds [OF start(1) h] by (auto simp: contacts_inv_def paired_def intro!: exI [of _ "[]"])
next
  case (step w a b action r w')
  show ?case
  proof (cases "action_spec action")
    case None
    then show ?thesis
      using step saveRelation_invalid by auto
  next
    case (Some xy)
    obtain x y where xy: "xy = (x, y)"
      by (cases xy)
    obtain w2 where "saveRelation L a b action w = (Inr (), w2)" "contacts_inv L w2"
      "relation L w2 = (relation L w)(a := (relation L w a)(b := x), b := (relation L w b)(a := y))"
      using saveRelation_run [of L w a b action x y] Some xy step by blast
    then show ?thesis
      using step action_paired [OF Some [unfolded xy]] by (auto simp: paired_None)
  qed
qed

theorem contacts_invariant_witness:
  "paired (relation libc_plain (snd (saveRelation libc_plain 1 2 ''accept_contact'' (dbw_of []))) 1 2)
     (relation libc_plain (snd (saveRelation libc_plain 1 2 ''accept_contact'' (dbw_of []))) 2 1)"
proof -
  have "reachable_contacts libc_plain (snd (saveRelation libc_plain 1 2 ''accept_contact'' (dbw_of [])))"
    using reachable_contacts.step [OF reachable_contacts.start [of "dbw_of []" libc_plain], of 1 2 "''accept_contact''"]
    by (simp add: dbw_of_ok long_ok_def minInt64_def maxInt64_def prod_eq_iff)
  then show ?thesis
    using contacts_invariant by blast
qed

text \<open>An acceptance needs no request: it makes two strangers active contacts.\<close>

lemma accept_without_request:
  "\<exists>w'. saveRelation libc_plain 1 2 ACCEPT_CONTACT_ACTION (dbw_of []) = (Inr (), w') \<and> relation libc_plain w' 1 2 = Some ACTIVE"
proof -
  have "action_spec ACCEPT_CONTACT_ACTION = Some (Some ACTIVE, Some ACTIVE)"
    by (simp add: action_spec_def action_consts)
  moreover have "long_ok 1" "long_ok 2"
    by (simp_all add: long_ok_def minInt64_def maxInt64_def)
  ultimately obtain w' where "saveRelation libc_plain 1 2 ACCEPT_CONTACT_ACTION (dbw_of []) = (Inr (), w')"
    "relation libc_plain w' = (relation libc_plain (dbw_of []))(1 := (relation libc_plain (dbw_of []) 1)(2 := Some ACTIVE),
       2 := (relation libc_plain (dbw_of []) 2)(1 := Some ACTIVE))"
    using saveRelation_run [OF contacts_inv_empty] by (metis one_eq_numeral_iff semiring_norm(85))
  then show ?thesis
    by auto
qed

end
