(* ===== verification/Person_Data.thy ===== *)
theory Person_Data
  imports Server_Db Contacts
begin

text \<open>
  The profile of a user: \<open>Skill\<close>, \<open>WorkHistory\<close>, \<open>Location\<close> and \<open>Person\<close> (\<open>person/\<close>), with their
  JSON forms. The accessors of the classes are the fields of the records.
\<close>

text \<open>\<open>::tolower\<close> in the C locale, applied to every character.\<close>

definition tolower :: "char \<Rightarrow> char" where
  "tolower c = (if of_char CHR ''A'' \<le> (of_char c :: nat) \<and> (of_char c :: nat) \<le> of_char CHR ''Z''
     then char_of ((of_char c :: nat) + 32) else c)"

definition lower :: "string \<Rightarrow> string" where
  "lower s = map tolower s"

lemma tolower_idem [simp]: "tolower (tolower c) = tolower c"
  by (simp add: tolower_def)

lemma lower_idem [simp]: "lower (lower s) = lower s"
  by (simp add: lower_def)

text \<open>Reading a member as a string, a number.\<close>

definition str_member :: "libc \<Rightarrow> json \<Rightarrow> string \<Rightarrow> string res" where
  "str_member L v key = res_bind (json_get v key) (asString L)"

definition long_member :: "libc \<Rightarrow> json \<Rightarrow> string \<Rightarrow> int res" where
  "long_member L v key = res_bind (json_get v key) (asLargestInt L)"

definition double_member :: "libc \<Rightarrow> json \<Rightarrow> string \<Rightarrow> double res" where
  "double_member L v key = res_bind (json_get v key) (asDouble L)"

section \<open>Skill\<close>

record skill =
  sk_name :: string
  sk_description :: string
  sk_category :: string

definition skill_deserialize :: "libc \<Rightarrow> json \<Rightarrow> skill res" where
  "skill_deserialize L jvalue =
     res_bind (str_member L jvalue ''name'') (\<lambda>skill_name.
     res_bind (str_member L jvalue ''description'') (\<lambda>description.
     res_bind (str_member L jvalue ''category'') (\<lambda>category.
     Inr \<lparr>sk_name = lower skill_name, sk_description = description, sk_category = category\<rparr>)))"

definition skill_serialize :: "skill \<Rightarrow> json res" where
  "skill_serialize s = json_fields NullV
     [(''name'', StrV (sk_name s)), (''description'', StrV (sk_description s)), (''category'', StrV (sk_category s))]"

section \<open>WorkHistory\<close>

record workHistory =
  wh_positionTitle :: string
  wh_company :: string
  wh_fromDate :: string
  wh_toDate :: string

definition workHistory_deserialize :: "libc \<Rightarrow> json \<Rightarrow> workHistory res" where
  "workHistory_deserialize L jvalue =
     res_bind (str_member L jvalue ''position_title'') (\<lambda>positionTitle.
     res_bind (str_member L jvalue ''company'') (\<lambda>company.
     res_bind (str_member L jvalue ''from_date'') (\<lambda>fromDate.
     res_bind (str_member L jvalue ''to_date'') (\<lambda>toDate.
     Inr \<lparr>wh_positionTitle = positionTitle, wh_company = company, wh_fromDate = fromDate, wh_toDate = toDate\<rparr>))))"

definition workHistory_serialize :: "workHistory \<Rightarrow> json res" where
  "workHistory_serialize h = json_fields NullV
     [(''position_title'', StrV (wh_positionTitle h)), (''company'', StrV (wh_company h)),
      (''from_date'', StrV (wh_fromDate h)), (''to_date'', StrV (wh_toDate h))]"

section \<open>Location\<close>

record location =
  latitude :: double
  longitude :: double

definition location_empty :: location where
  "location_empty = \<lparr>latitude = dbl_zero, longitude = dbl_zero\<rparr>"

definition location_isEmpty :: "location \<Rightarrow> bool" where
  "location_isEmpty l \<longleftrightarrow> dbl_eq_zero (latitude l) \<and> dbl_eq_zero (longitude l)"

definition getDistanceFrom :: "libc \<Rightarrow> location \<Rightarrow> location \<Rightarrow> double" where
  "getDistanceFrom L l l' = double_add L (double_sq L (double_sub L (latitude l) (latitude l')))
     (double_sq L (double_sub L (longitude l) (longitude l')))"

section \<open>Person\<close>

record person =
  p_id :: int
  p_totRecommendations :: int
  p_firstName :: string
  p_lastName :: string
  p_email :: string
  p_password :: string
  p_dateOfBirth :: string
  p_city :: string
  p_summary :: string
  p_location :: location
  p_workHistory :: "workHistory list"
  p_skills :: "skill list"

definition getFullName :: "person \<Rightarrow> string" where
  "getFullName p = p_firstName p @ ''-'' @ p_lastName p"

definition getCurrentJob :: "person \<Rightarrow> workHistory option" where
  "getCurrentJob p = find (\<lambda>h. wh_toDate h = '''') (p_workHistory p)"

definition person_deserialize :: "libc \<Rightarrow> json \<Rightarrow> person res" where
  "person_deserialize L personAsJson =
     res_bind (long_member L personAsJson ''id'') (\<lambda>id.
     res_bind (str_member L personAsJson ''first_name'') (\<lambda>firstName.
     res_bind (str_member L personAsJson ''last_name'') (\<lambda>lastName.
     res_bind (str_member L personAsJson ''email'') (\<lambda>email.
     res_bind (str_member L personAsJson ''password'') (\<lambda>password.
     res_bind (str_member L personAsJson ''date_of_birth'') (\<lambda>dateOfBirth.
     res_bind (str_member L personAsJson ''city'') (\<lambda>city.
     res_bind (str_member L personAsJson ''summary'') (\<lambda>summary.
     res_bind (res_bind (json_get personAsJson ''tot_recommendations'') (asInt L)) (\<lambda>tot.
     res_bind (json_get personAsJson ''location'') (\<lambda>loc.
     res_bind (double_member L loc ''latitude'') (\<lambda>lat.
     res_bind (double_member L loc ''longitude'') (\<lambda>lon.
     res_bind (json_get personAsJson ''work_history'') (\<lambda>jWorkHistoryVector.
     res_bind (json_each jWorkHistoryVector (workHistory_deserialize L)) (\<lambda>workHistory.
     res_bind (json_get personAsJson ''skills'') (\<lambda>jSkillVector.
     res_bind (json_each jSkillVector (skill_deserialize L)) (\<lambda>skills.
     Inr \<lparr>p_id = id, p_totRecommendations = tot, p_firstName = lower firstName, p_lastName = lower lastName,
       p_email = lower email, p_password = password, p_dateOfBirth = dateOfBirth, p_city = lower city,
       p_summary = summary, p_location = \<lparr>latitude = lat, longitude = lon\<rparr>,
       p_workHistory = workHistory, p_skills = skills\<rparr>))))))))))))))))"

text \<open>\<open>v[key]\<close> used as a reference that is changed in place.\<close>

definition json_update :: "json \<Rightarrow> string \<Rightarrow> (json \<Rightarrow> json res) \<Rightarrow> json res" where
  "json_update v key f = res_bind (json_get v key) (\<lambda>x. res_bind (f x) (\<lambda>y. json_set v key y))"

fun append_member :: "json \<Rightarrow> string \<Rightarrow> ('a \<Rightarrow> json res) \<Rightarrow> 'a list \<Rightarrow> json res" where
  "append_member v key enc [] = Inr v"
| "append_member v key enc (x # xs) =
     res_bind (enc x) (\<lambda>item. res_bind (json_update v key (\<lambda>a. json_append a item)) (\<lambda>v'. append_member v' key enc xs))"

definition person_serialize :: "person \<Rightarrow> json res" where
  "person_serialize p =
     res_bind (json_fields NullV
       [(''id'', IntV (p_id p)), (''first_name'', StrV (p_firstName p)), (''last_name'', StrV (p_lastName p)),
        (''email'', StrV (p_email p)), (''password'', StrV (p_password p)),
        (''date_of_birth'', StrV (p_dateOfBirth p)), (''city'', StrV (p_city p)), (''summary'', StrV (p_summary p))]) (\<lambda>v.
     res_bind (json_update v ''location'' (\<lambda>l. json_set l ''latitude'' (RealV (latitude (p_location p))))) (\<lambda>v.
     res_bind (json_update v ''location'' (\<lambda>l. json_set l ''longitude'' (RealV (longitude (p_location p))))) (\<lambda>v.
     res_bind (json_set v ''tot_recommendations'' (IntV (p_totRecommendations p))) (\<lambda>v.
     res_bind (append_member v ''work_history'' workHistory_serialize (p_workHistory p)) (\<lambda>v.
     append_member v ''skills'' skill_serialize (p_skills p))))))"

fun hasSkill :: "person \<Rightarrow> string \<Rightarrow> bool" where
  "hasSkill p skill = list_ex (\<lambda>s. sk_name s = skill) (p_skills p)"

definition has_every_skill :: "person \<Rightarrow> string list \<Rightarrow> bool" where
  "has_every_skill p skills = list_all (\<lambda>s. hasSkill p (lower s)) skills"

definition hasPosition :: "person \<Rightarrow> string \<Rightarrow> bool" where
  "hasPosition p position = list_ex (\<lambda>h. lower (wh_positionTitle h) = lower position) (p_workHistory p)"

definition has_every_position :: "person \<Rightarrow> string list \<Rightarrow> bool" where
  "has_every_position p positions = list_all (hasPosition p) positions"

section \<open>The stored form\<close>

definition skill_enc :: "skill \<Rightarrow> json" where
  "skill_enc s = ObjV [(''category'', StrV (sk_category s)), (''description'', StrV (sk_description s)), (''name'', StrV (sk_name s))]"

definition workHistory_enc :: "workHistory \<Rightarrow> json" where
  "workHistory_enc h = ObjV [(''company'', StrV (wh_company h)), (''from_date'', StrV (wh_fromDate h)),
     (''position_title'', StrV (wh_positionTitle h)), (''to_date'', StrV (wh_toDate h))]"

definition member_list :: "string \<Rightarrow> ('a \<Rightarrow> json) \<Rightarrow> 'a list \<Rightarrow> (string \<times> json) list" where
  "member_list key enc xs = (if xs = [] then [] else [(key, ArrV (map enc xs))])"

definition person_enc :: "person \<Rightarrow> json" where
  "person_enc p = ObjV
     ([(''city'', StrV (p_city p)), (''date_of_birth'', StrV (p_dateOfBirth p)), (''email'', StrV (p_email p)),
       (''first_name'', StrV (p_firstName p)), (''id'', IntV (p_id p)), (''last_name'', StrV (p_lastName p)),
       (''location'', ObjV [(''latitude'', RealV (latitude (p_location p))), (''longitude'', RealV (longitude (p_location p)))]),
       (''password'', StrV (p_password p))] @ member_list ''skills'' skill_enc (p_skills p)
      @ [(''summary'', StrV (p_summary p)), (''tot_recommendations'', IntV (p_totRecommendations p))]
      @ member_list ''work_history'' workHistory_enc (p_workHistory p))"

lemma skill_serialize_eq: "skill_serialize s = Inr (skill_enc s)"
  by (simp add: skill_serialize_def skill_enc_def)

lemma workHistory_serialize_eq: "workHistory_serialize h = Inr (workHistory_enc h)"
  by (simp add: workHistory_serialize_def workHistory_enc_def)

lemma append_member_eq:
  assumes "\<And>x. enc' x = Inr (enc x)" and "smap_get kvs key = (if ys = [] then None else Some (ArrV ys))"
  shows "append_member (ObjV kvs) key enc' xs =
    Inr (ObjV (if xs = [] then kvs else smap_put key (ArrV (ys @ map enc xs)) kvs))"
  using assms(2)
proof (induction xs arbitrary: kvs ys)
  case (Cons x xs)
  have "json_update (ObjV kvs) key (\<lambda>a. json_append a (enc x)) = Inr (ObjV (smap_put key (ArrV (ys @ [enc x])) kvs))"
    using Cons.prems by (simp add: json_update_def)
  then show ?case
    using Cons.IH [of "smap_put key (ArrV (ys @ [enc x])) kvs" "ys @ [enc x]"] by (simp add: assms(1))
qed simp

lemma append_member_new:
  assumes "\<And>x. enc' x = Inr (enc x)" and "smap_get kvs key = None"
  shows "append_member (ObjV kvs) key enc' xs = Inr (ObjV (if xs = [] then kvs else smap_put key (ArrV (map enc xs)) kvs))"
  using append_member_eq [where enc = enc and enc' = enc' and ys = "[]", OF assms(1), of kvs key xs] assms(2) by simp

lemma person_serialize_eq: "person_serialize p = Inr (person_enc p)"
  unfolding person_serialize_def
  by (simp add: json_update_def append_member_new [OF workHistory_serialize_eq] append_member_new [OF skill_serialize_eq]
      person_enc_def member_list_def)

text \<open>
  The profiles that are read back as they were stored: texts that the reader would turn to
  lower case are already so, numbers fit their types, and the coordinates survive printing.
\<close>

definition double_safe :: "libc \<Rightarrow> double \<Rightarrow> bool" where
  "double_safe L d \<longleftrightarrow> double_ok L d \<and> asDouble L (json_norm L (RealV d)) = Inr d"

abbreviation is_lower :: "string \<Rightarrow> bool" where
  "is_lower s \<equiv> lower s = s"

definition person_ok :: "libc \<Rightarrow> person \<Rightarrow> bool" where
  "person_ok L p \<longleftrightarrow> long_ok (p_id p) \<and> minInt \<le> p_totRecommendations p \<and> p_totRecommendations p \<le> maxInt
     \<and> is_lower (p_firstName p) \<and> is_lower (p_lastName p) \<and> is_lower (p_email p) \<and> is_lower (p_city p)
     \<and> double_safe L (latitude (p_location p)) \<and> double_safe L (longitude (p_location p))
     \<and> list_all (\<lambda>s. is_lower (sk_name s)) (p_skills p)"

interpretation skill_codec: json_codec L skill_enc "skill_deserialize L" "\<lambda>s. is_lower (sk_name s)" for L
  by unfold_locales (simp_all add: skill_enc_def skill_deserialize_def str_member_def)

interpretation workHistory_codec: json_codec L workHistory_enc "workHistory_deserialize L" "\<lambda>_. True" for L
  by unfold_locales (simp_all add: workHistory_enc_def workHistory_deserialize_def str_member_def)

lemma json_list_members:
  "res_bind (json_get (json_norm L (ObjV kvs)) key) f = f (case smap_get kvs key of None \<Rightarrow> NullV | Some x \<Rightarrow> json_norm L x)"
  by (simp add: smap_get_map split: option.split)

lemma foldr_max_const: "(\<forall>x \<in> set xs. f x \<le> n) \<Longrightarrow> foldr max (map f xs) 0 \<le> (n :: nat)"
  by (induction xs) simp_all

lemma list_all_True: "list_all (\<lambda>_. True) xs"
  by (simp add: list_all_iff)

lemma smap_get_member:
  "smap_get (member_list k enc xs @ m) key = (if key = k then if xs = [] then smap_get m key else Some (ArrV (map enc xs)) else smap_get m key)"
  "smap_get (member_list k enc xs) key = (if key = k then if xs = [] then None else Some (ArrV (map enc xs)) else None)"
  by (simp_all add: member_list_def)

lemma member_norm:
  "(case if xs = [] then None else Some (ArrV (map enc xs)) of None \<Rightarrow> NullV | Some x \<Rightarrow> json_norm L x) = json_norm L (json_list enc xs)"
  by (simp add: json_list_def)

interpretation person_codec: json_codec L person_enc "person_deserialize L" "person_ok L" for L
proof (unfold_locales, goal_cases)
  case (1 p)
  then show ?case
    using skill_codec.list_ok [of "p_skills p" L] workHistory_codec.list_ok [OF list_all_True, of L "p_workHistory p"]
    by (auto simp: person_enc_def person_ok_def member_list_def long_ok_def double_safe_def json_list_def
        minInt_def maxInt_def minInt64_def maxInt64_def)
next
  case (2 p)
  have "foldr max (map (json_depth \<circ> workHistory_enc) (p_workHistory p)) 0 \<le> 2" "foldr max (map (json_depth \<circ> skill_enc) (p_skills p)) 0 \<le> 2"
    by (rule foldr_max_const; simp add: workHistory_enc_def skill_enc_def)+
  then show ?case
    by (simp add: person_enc_def member_list_def)
next
  case (3 p)
  have num: "asLargestInt L (json_norm L (IntV (p_id p))) = Inr (p_id p)"
    "asInt L (json_norm L (IntV (p_totRecommendations p))) = Inr (p_totRecommendations p)"
    "asDouble L (json_norm L (RealV (latitude (p_location p)))) = Inr (latitude (p_location p))"
    "asDouble L (json_norm L (RealV (longitude (p_location p)))) = Inr (longitude (p_location p))"
    using 3 by (simp_all add: person_ok_def long_ok_def double_safe_def del: json_norm.simps)
  have lists: "json_each (json_norm L (json_list skill_enc (p_skills p))) (skill_deserialize L) = Inr (p_skills p)"
    "json_each (json_norm L (json_list workHistory_enc (p_workHistory p))) (workHistory_deserialize L) = Inr (p_workHistory p)"
    using 3 skill_codec.list_each [of "p_skills p" L] workHistory_codec.list_each [OF list_all_True, of L "p_workHistory p"]
    by (simp_all add: person_ok_def)
  have skills: "p_skills p \<noteq> [] \<Longrightarrow> json_each (json_norm L (ArrV (map skill_enc (p_skills p)))) (skill_deserialize L) = Inr (p_skills p)"
    using lists(1) by (simp add: json_list_def del: json_norm.simps)
  have low: "is_lower (p_firstName p)" "is_lower (p_lastName p)" "is_lower (p_email p)" "is_lower (p_city p)"
    using 3 by (simp_all add: person_ok_def)
  show ?case
    unfolding person_deserialize_def str_member_def long_member_def double_member_def person_enc_def
    by (simp add: json_list_members smap_get_member member_norm num lists skills low del: json_norm.simps(1,3,4,5))
qed

section \<open>Properties\<close>


definition person_ada :: person where
  "person_ada = \<lparr>p_id = 7, p_totRecommendations = 0, p_firstName = ''ada'', p_lastName = ''l'', p_email = ''ada@x'',
     p_password = ''Pw'', p_dateOfBirth = ''1815'', p_city = ''london'', p_summary = ''S'',
     p_location = \<lparr>latitude = 0x3FE0000000000000, longitude = 0x3FE0000000000000\<rparr>,
     p_workHistory = [\<lparr>wh_positionTitle = ''Analyst'', wh_company = ''C'', wh_fromDate = ''1840'', wh_toDate = ''''\<rparr>],
     p_skills = [\<lparr>sk_name = ''math'', sk_description = ''d'', sk_category = ''c''\<rparr>]\<rparr>"

lemma half_safe: "double_safe libc_plain 0x3FE0000000000000"
  by (simp add: double_safe_def double_ok_def number_text_def valueToString_double_def dbl_isfinite_def dbl_exponent_def
      libc_plain_def fixNumericLocale_def readNumber_def is_digit_def decodeNumber_def decodeDouble_def maxUInt64_def)

lemma person_ada_ok: "person_ok libc_plain person_ada"
  by (simp add: person_ok_def person_ada_def long_ok_def minInt64_def maxInt64_def minInt_def maxInt_def half_safe
      lower_def tolower_def)


lemma res_map_set: "res_map f xs = Inr ys \<Longrightarrow> y \<in> set ys \<Longrightarrow> \<exists>x. f x = Inr y"
  by (induction xs arbitrary: ys) (auto simp: res_bind_Inr_iff)

lemma deserialize_lower:
  assumes "person_deserialize L v = Inr p"
  shows "is_lower (p_firstName p) \<and> is_lower (p_lastName p) \<and> is_lower (p_email p) \<and> is_lower (p_city p)
    \<and> list_all (\<lambda>s. is_lower (sk_name s)) (p_skills p)"
proof -
  have "is_lower (sk_name s)" if "skill_deserialize L x = Inr s" for x s
    using that by (auto simp: skill_deserialize_def res_bind_Inr_iff)
  then have "list_all (\<lambda>s. is_lower (sk_name s)) ss" if "json_each x (skill_deserialize L) = Inr ss" for x ss
    using that res_map_set unfolding json_each_def list_all_iff by (fastforce simp: res_bind_Inr_iff)
  then show ?thesis
    using assms by (auto simp: person_deserialize_def res_bind_Inr_iff)
qed

text \<open>
  C38. Whatever JSON a client sends, a profile built from it has its names, mail, city and the
  names of its skills in lower case.
\<close>

theorem person_deserialize_lower:
  assumes "person_deserialize L v = Inr p"
  shows "is_lower (p_firstName p) \<and> is_lower (p_lastName p) \<and> is_lower (p_email p) \<and> is_lower (p_city p)
    \<and> list_all (\<lambda>s. is_lower (sk_name s)) (p_skills p)"
  using deserialize_lower [OF assms] .

theorem person_deserialize_lower_witness:
  "\<exists>p. person_deserialize libc_plain (ObjV [(''email'', StrV ''AB'')]) = Inr p \<and> is_lower (p_email p)"
proof -
  obtain p where "person_deserialize libc_plain (ObjV [(''email'', StrV ''AB'')]) = Inr p"
    by (simp add: person_deserialize_def str_member_def long_member_def double_member_def asLargestInt_def)
  then show ?thesis
    using person_deserialize_lower by blast
qed

end
