(* ===== verification/Sessions.thy ===== *)
theory Sessions
  imports Person_Data
begin

text \<open>
  The users in the database (\<open>person/Manager.cpp\<close>) and their sessions (\<open>session/\<close>): the keys under
  which a user is stored, login, the tokens and their expiry, which reads the clock with a \<open>tm_isdst\<close> that nobody sets.
\<close>

section \<open>Manager\<close>

definition USER_MAIL_ID :: string where "USER_MAIL_ID = ''user:mail_''"
definition USER_UUID_ID :: string where "USER_UUID_ID = ''user:uuid_''"
definition USER_PASSWORD :: string where "USER_PASSWORD = ''user:password_''"
definition USER_NAME_ID :: string where "USER_NAME_ID = ''user:name_''"
definition USER_SKILL :: string where "USER_SKILL = ''user:skill_''"
definition USER_JOBPOSITION :: string where "USER_JOBPOSITION = ''user:jobPosition_''"
definition USER_TOKEN :: string where "USER_TOKEN = ''user:token_''"

lemmas key_defs = USER_MAIL_ID_def USER_UUID_ID_def USER_PASSWORD_def USER_NAME_ID_def USER_SKILL_def
  USER_JOBPOSITION_def USER_TOKEN_def

definition put :: "string \<Rightarrow> string \<Rightarrow> unit prog" where
  "put key v = seq (putKey key v) (ret ())"

definition delete :: "string \<Rightarrow> unit prog" where
  "delete key = seq (deleteKey key) (ret ())"

definition saveUser :: "libc \<Rightarrow> person \<Rightarrow> unit prog" where
  "saveUser L user = bnd (lift (person_serialize user)) (\<lambda>v. put (USER_MAIL_ID @ p_email user) (fastWrite L v))"

definition userExistsMail :: "string \<Rightarrow> bool prog" where
  "userExistsMail user_mail = bnd (lookupKey (USER_MAIL_ID @ user_mail)) (\<lambda>r. ret (r \<noteq> None))"

definition userExists :: "int \<Rightarrow> bool prog" where
  "userExists user_id = bnd (lookupKey (USER_UUID_ID @ to_string user_id)) (\<lambda>r. ret (r \<noteq> None))"

definition saveUserNameKey :: "person \<Rightarrow> unit prog" where
  "saveUserNameKey user = put (USER_NAME_ID @ getFullName user @ ''_'' @ p_email user) (p_email user)"

definition saveUserIdKey :: "person \<Rightarrow> unit prog" where
  "saveUserIdKey user = put (USER_UUID_ID @ to_string (p_id user)) (p_email user)"

definition saveUserPasswordKey :: "person \<Rightarrow> unit prog" where
  "saveUserPasswordKey user = put (USER_PASSWORD @ p_email user) (p_password user)"

definition saveUserSkillKey :: "string \<Rightarrow> string \<Rightarrow> unit prog" where
  "saveUserSkillKey skill_name v = put (USER_SKILL @ skill_name) v"

definition saveUserJobPositionKey :: "string \<Rightarrow> string \<Rightarrow> unit prog" where
  "saveUserJobPositionKey job_position v = put (USER_JOBPOSITION @ job_position) v"

definition deleteUserSkillKey :: "string \<Rightarrow> unit prog" where
  "deleteUserSkillKey skill_name = delete (USER_SKILL @ skill_name)"

definition deleteUserIdKey :: "person \<Rightarrow> unit prog" where
  "deleteUserIdKey user = delete (USER_UUID_ID @ to_string (p_id user))"

definition deleteUser :: "person \<Rightarrow> unit prog" where
  "deleteUser user = delete (USER_MAIL_ID @ p_email user)"

definition deleteUserNameKey :: "person \<Rightarrow> unit prog" where
  "deleteUserNameKey user = delete (USER_NAME_ID @ getFullName user @ ''_'' @ p_email user)"

definition deleteUserPasswordKey :: "person \<Rightarrow> unit prog" where
  "deleteUserPasswordKey user = delete (USER_PASSWORD @ p_email user)"

definition getJsonFromString :: "libc \<Rightarrow> string \<Rightarrow> json res" where
  "getJsonFromString L svalue = res_bind (parse_cstr L svalue) (\<lambda>(ok, jvalue). Inr jvalue)"

definition getUserByMail :: "libc \<Rightarrow> string \<Rightarrow> person prog" where
  "getUserByMail L user_mail = bnd (lookupKey (USER_MAIL_ID @ user_mail)) (\<lambda>suser. case suser of
       None \<Rightarrow> raise (UserNotFound_mail user_mail)
     | Some s \<Rightarrow> bnd (lift (getJsonFromString L s)) (\<lambda>juser. lift (person_deserialize L juser)))"

definition getUserById :: "libc \<Rightarrow> int \<Rightarrow> person prog" where
  "getUserById L user_id = bnd (lookupKey (USER_UUID_ID @ to_string user_id)) (\<lambda>user_mail. case user_mail of
       Some mail \<Rightarrow> getUserByMail L mail
     | None \<Rightarrow> raise (UserNotFound_id user_id))"

definition getUserSkillKey :: "string \<Rightarrow> string prog" where
  "getUserSkillKey skill = bnd (lookupKey (USER_SKILL @ skill)) (\<lambda>r. case r of
     None \<Rightarrow> raise Key_not_found | Some users \<Rightarrow> ret users)"

definition getUserJobPositionKey :: "string \<Rightarrow> string prog" where
  "getUserJobPositionKey job_position = bnd (lookupKey (USER_JOBPOSITION @ job_position)) (\<lambda>r. case r of
     None \<Rightarrow> raise Key_not_found | Some users \<Rightarrow> ret users)"

definition getUserIdKey :: "int \<Rightarrow> string prog" where
  "getUserIdKey user_id = bnd (lookupKey (USER_UUID_ID @ to_string user_id)) (\<lambda>r. case r of
     None \<Rightarrow> raise (UserNotFound_id user_id) | Some user_mail \<Rightarrow> ret user_mail)"

lemma put_run [simp]: "dbw_ok w \<Longrightarrow> put key v w = (Inr (), kv_put key v w)"
  by (simp add: put_def)

lemma delete_run [simp]: "dbw_ok w \<Longrightarrow> delete key w = (Inr (), kv_del key w)"
  by (simp add: delete_def)

lemma saveUser_run:
  "dbw_ok w \<Longrightarrow> saveUser L p w = (Inr (), kv_put (USER_MAIL_ID @ p_email p) (fastWrite L (person_enc p)) w)"
  by (simp add: saveUser_def person_serialize_eq)

text \<open>A user whose profile is stored under his mail.\<close>

definition stored_user :: "libc \<Rightarrow> dbw \<Rightarrow> person \<Rightarrow> bool" where
  "stored_user L w p \<longleftrightarrow> person_ok L p \<and> kv w (USER_MAIL_ID @ p_email p) = Some (fastWrite L (person_enc p))"

lemma getUserByMail_run:
  assumes "dbw_ok w" and "stored_user L w p" and "p_email p = mail"
  shows "getUserByMail L mail w = (Inr p, w)"
  using assms person_codec.one_stored [of L p]
  by (auto simp: stored_user_def getUserByMail_def getJsonFromString_def)

lemma getUserByMail_absent:
  "dbw_ok w \<Longrightarrow> kv w (USER_MAIL_ID @ mail) = None \<Longrightarrow> getUserByMail L mail w = (Inl (UserNotFound_mail mail), w)"
  by (simp add: getUserByMail_def)

section \<open>SessionManager\<close>

record session =
  se_token :: string
  se_user_mail :: string
  se_last_time :: int
  se_user_id :: int

definition alphanum :: string where
  "alphanum = ''0123456789ABCDEFGHIJKLMNOPQRSTUVWXYZabcdefghijklmnopqrstuvwxyz''"

text \<open>
  \<open>getNewToken\<close> draws eight characters; the terminating NUL it then writes is one past the end of
  its array of eight.
\<close>

definition getNewToken :: "libc \<Rightarrow> string" where
  "getNewToken L = map (\<lambda>i. alphanum ! (rand_seq L i mod 62)) [0..<8]"

text \<open>The current time in a buffer of 20 bytes.\<close>

definition now_text :: "libc \<Rightarrow> string" where
  "now_text L = take 19 (strftime_local L (time_now L))"

definition token_by_mail :: "libc \<Rightarrow> string \<Rightarrow> json res" where
  "token_by_mail L token = json_fields NullV [(''user_token'', StrV token), (''last_used'', StrV (now_text L))]"

definition token_by_token :: "libc \<Rightarrow> string \<Rightarrow> int \<Rightarrow> json res" where
  "token_by_token L user_mail user_id = json_fields NullV
     [(''user_mail'', StrV user_mail), (''user_id'', IntV user_id), (''last_used'', StrV (now_text L))]"

definition saveToken :: "libc \<Rightarrow> string \<Rightarrow> string \<Rightarrow> unit prog" where
  "saveToken L token user_mail =
     bnd (lift (token_by_mail L token)) (\<lambda>jtoken.
     bnd (getUserByMail L user_mail) (\<lambda>user.
     bnd (lift (token_by_token L user_mail (p_id user))) (\<lambda>jtoken2.
     seq (put (USER_TOKEN @ user_mail) (fastWrite L jtoken))
         (put (USER_TOKEN @ token) (fastWrite L jtoken2)))))"

definition login :: "libc \<Rightarrow> string \<Rightarrow> string \<Rightarrow> string prog" where
  "login L user_mail user_password = bnd (lookupKey (USER_PASSWORD @ user_mail)) (\<lambda>user_bdd_password.
     case user_bdd_password of
       None \<Rightarrow> raise (UserNotFound_mail user_mail)
     | Some stored \<Rightarrow>
         if stored \<noteq> user_password then raise InvalidPassword
         else let new_token = getNewToken L in seq (saveToken L new_token user_mail) (ret new_token))"

definition facebookLogin :: "libc \<Rightarrow> string \<Rightarrow> string prog" where
  "facebookLogin L user_mail = bnd (lookupKey (USER_PASSWORD @ user_mail)) (\<lambda>user_bdd.
     case user_bdd of
       None \<Rightarrow> raise (UserNotFound_mail user_mail)
     | Some _ \<Rightarrow> let new_token = getNewToken L in seq (saveToken L new_token user_mail) (ret new_token))"

definition getUserId :: "libc \<Rightarrow> string \<Rightarrow> int prog" where
  "getUserId L token = bnd (getKey (USER_TOKEN @ token) '''') (\<lambda>(code, token_information).
     bnd (lift (getJsonFromString L token_information)) (\<lambda>j. lift (long_member L j ''user_id'')))"

text \<open>
  \<open>tokenExpired\<close> reads the text into a \<open>struct tm\<close> that nobody has initialised: \<open>strptime\<close> with this
  format does not set \<open>tm_isdst\<close>, so \<open>mktime\<close> takes it from the stack.
\<close>

definition tokenExpired :: "libc \<Rightarrow> string \<Rightarrow> bool" where
  "tokenExpired L last_time_used \<longleftrightarrow> time_now L - mktime_strptime L (uninit_isdst L (time_now L)) last_time_used > 14400"

definition updateToken :: "libc \<Rightarrow> string \<Rightarrow> string \<Rightarrow> unit prog" where
  "updateToken L token user_mail = bnd (lookupKey (USER_TOKEN @ token)) (\<lambda>token_information.
     case token_information of
       None \<Rightarrow> raise InvalidToken
     | Some info \<Rightarrow>
         bnd (lift (getJsonFromString L info)) (\<lambda>j.
         bnd (lift (long_member L j ''user_id'')) (\<lambda>user_id.
         bnd (lift (token_by_mail L token)) (\<lambda>jtoken.
         bnd (lift (token_by_token L user_mail user_id)) (\<lambda>jtoken2.
         seq (put (USER_TOKEN @ user_mail) (fastWrite L jtoken))
             (put (USER_TOKEN @ token) (fastWrite L jtoken2)))))))"

definition getSession :: "libc \<Rightarrow> string \<Rightarrow> session prog" where
  "getSession L token = bnd (lookupKey (USER_TOKEN @ token)) (\<lambda>token_information.
     case token_information of
       None \<Rightarrow> raise InvalidToken
     | Some info \<Rightarrow>
         bnd (lift (getJsonFromString L info)) (\<lambda>j.
         bnd (lift (str_member L j ''last_used'')) (\<lambda>last_time_used.
         if tokenExpired L last_time_used then raise TokenExpired
         else bnd (lift (str_member L j ''user_mail'')) (\<lambda>user_mail.
              seq (updateToken L token user_mail)
              (bnd (getUserId L token) (\<lambda>user_id.
               ret \<lparr>se_token = token, se_user_mail = user_mail, se_last_time = time_now L, se_user_id = user_id\<rparr>))))))"

section \<open>Permissions\<close>

text \<open>The predicates of \<open>Security\<close> all compare the user of the session with the user of the data.\<close>

definition hasPermissionToEdit :: "int \<Rightarrow> int \<Rightarrow> bool" where
  "hasPermissionToEdit userIdSession userIdToEdit \<longleftrightarrow> userIdSession = userIdToEdit"
definition hasPermissionToDeleteUser :: "int \<Rightarrow> int \<Rightarrow> bool" where
  "hasPermissionToDeleteUser userIdSession userIdToDelete \<longleftrightarrow> userIdSession = userIdToDelete"
definition hasPermissionToContactUser :: "int \<Rightarrow> int \<Rightarrow> bool" where
  "hasPermissionToContactUser userIdSession userIdAuthor \<longleftrightarrow> userIdAuthor = userIdSession"
definition hasPermissionToSendMessage :: "int \<Rightarrow> int \<Rightarrow> bool" where
  "hasPermissionToSendMessage userIdSession userIdAuthor \<longleftrightarrow> userIdSession = userIdAuthor"
definition hasPermissionToReadMessage :: "int \<Rightarrow> int \<Rightarrow> bool" where
  "hasPermissionToReadMessage userIdSession userIdFrom \<longleftrightarrow> userIdFrom = userIdSession"
definition hasPermissionToDeleteProfilePicture :: "int \<Rightarrow> int \<Rightarrow> bool" where
  "hasPermissionToDeleteProfilePicture ident userId \<longleftrightarrow> ident = userId"
definition hasPermissionToEditProfilePicture :: "int \<Rightarrow> int \<Rightarrow> bool" where
  "hasPermissionToEditProfilePicture ident userId \<longleftrightarrow> ident = userId"
definition hasPermissionToSendRecommendations :: "int \<Rightarrow> int \<Rightarrow> bool" where
  "hasPermissionToSendRecommendations ident userId \<longleftrightarrow> ident = userId"
definition hasPermissionToDeleteRecommendations :: "int \<Rightarrow> int \<Rightarrow> bool" where
  "hasPermissionToDeleteRecommendations ident userId \<longleftrightarrow> ident = userId"
definition hasPermissionToUpdateNotificationToken :: "int \<Rightarrow> int \<Rightarrow> bool" where
  "hasPermissionToUpdateNotificationToken ident userId \<longleftrightarrow> ident = userId"
definition hasPermissionToGetMessages :: "int \<Rightarrow> int \<Rightarrow> bool" where
  "hasPermissionToGetMessages ident userId \<longleftrightarrow> ident = userId"

lemmas permission_defs = hasPermissionToEdit_def hasPermissionToDeleteUser_def hasPermissionToContactUser_def
  hasPermissionToSendMessage_def hasPermissionToReadMessage_def hasPermissionToDeleteProfilePicture_def
  hasPermissionToEditProfilePicture_def hasPermissionToSendRecommendations_def
  hasPermissionToDeleteRecommendations_def hasPermissionToUpdateNotificationToken_def hasPermissionToGetMessages_def

section \<open>Sessions in the database\<close>

definition mail_entry :: "libc \<Rightarrow> string \<Rightarrow> json" where
  "mail_entry L token = ObjV [(''last_used'', StrV (now_text L)), (''user_token'', StrV token)]"

definition token_entry :: "libc \<Rightarrow> string \<Rightarrow> int \<Rightarrow> json" where
  "token_entry L user_mail user_id =
     ObjV [(''last_used'', StrV (now_text L)), (''user_id'', IntV user_id), (''user_mail'', StrV user_mail)]"

lemma token_json: "token_by_mail L token = Inr (mail_entry L token)" "token_by_token L m i = Inr (token_entry L m i)"
  by (simp_all add: token_by_mail_def token_by_token_def mail_entry_def token_entry_def)

lemma parse_entry:
  "getJsonFromString L (fastWrite L (mail_entry L' token)) = Inr (json_norm L (mail_entry L' token))"
  "long_ok i \<Longrightarrow> getJsonFromString L (fastWrite L (token_entry L' m i)) = Inr (json_norm L (token_entry L' m i))"
  by (simp_all add: getJsonFromString_def mail_entry_def token_entry_def stackLimit_g_def long_ok_def)

lemma entry_members:
  "str_member L (json_norm L (mail_entry L' token)) ''last_used'' = Inr (now_text L')"
  "str_member L (json_norm L (mail_entry L' token)) ''user_mail'' = Inr ''''"
  "long_member L (json_norm L (mail_entry L' token)) ''user_id'' = Inr 0"
  "str_member L (json_norm L (token_entry L' m i)) ''last_used'' = Inr (now_text L')"
  "str_member L (json_norm L (token_entry L' m i)) ''user_mail'' = Inr m"
  "long_ok i \<Longrightarrow> long_member L (json_norm L (token_entry L' m i)) ''user_id'' = Inr i"
  by (simp_all add: mail_entry_def token_entry_def str_member_def long_member_def asLargestInt_def long_ok_def)

text \<open>
  A time whose text the server reads back as that time up to \<open>d\<close> seconds, whatever \<open>tm_isdst\<close>
  holds: the daylight saving that \<open>mktime\<close> may assume moves the time by an hour at the most, and by
  nothing where the local time has no daylight saving.
\<close>

definition clock_near :: "libc \<Rightarrow> int \<Rightarrow> int \<Rightarrow> bool" where
  "clock_near L d t \<longleftrightarrow> (\<forall>isdst. \<bar>mktime_strptime L isdst (now_text (at L t)) - t\<bar> \<le> d)"

lemma tokenExpired_near:
  assumes "clock_near L d t"
  shows "now - t \<le> 14400 - d \<Longrightarrow> \<not> tokenExpired (at L now) (now_text (at L t))"
    and "now - t > 14400 + d \<Longrightarrow> tokenExpired (at L now) (now_text (at L t))"
proof -
  have "\<bar>mktime_strptime L (uninit_isdst L now) (now_text (at L t)) - t\<bar> \<le> d"
    using assms by (simp add: clock_near_def)
  then show "now - t \<le> 14400 - d \<Longrightarrow> \<not> tokenExpired (at L now) (now_text (at L t))"
    and "now - t > 14400 + d \<Longrightarrow> tokenExpired (at L now) (now_text (at L t))"
    by (simp_all add: tokenExpired_def)
qed

text \<open>An open session: the entry of the token, last used at a time.\<close>

definition session_at :: "libc \<Rightarrow> dbw \<Rightarrow> string \<Rightarrow> string \<Rightarrow> int \<Rightarrow> int \<Rightarrow> bool" where
  "session_at L w token mail uid t \<longleftrightarrow> dbw_ok w \<and> long_ok uid
     \<and> kv w (USER_TOKEN @ token) = Some (fastWrite L (token_entry (at L t) mail uid))"

lemma json_at_members [simp]:
  "getJsonFromString (at L t) = getJsonFromString L" "str_member (at L t) = str_member L" "long_member (at L t) = long_member L"
  unfolding getJsonFromString_def [abs_def] str_member_def [abs_def] long_member_def [abs_def] json_at conversions_at by (rule refl)+

lemma updateToken_run:
  assumes "session_at L w token mail uid t"
  shows "updateToken (at L now) token mail' w =
    (Inr (), kv_put (USER_TOKEN @ token) (fastWrite L (token_entry (at L now) mail' uid))
       (kv_put (USER_TOKEN @ mail') (fastWrite L (mail_entry (at L now) token)) w))"
  using assms by (simp add: session_at_def updateToken_def token_json parse_entry entry_members)

lemma getUserId_run: "session_at L w token mail uid t \<Longrightarrow> getUserId L' token w = (r, w') \<Longrightarrow> L' = at L now \<Longrightarrow> r = Inr uid \<and> w' = w"
  by (auto simp: session_at_def getUserId_def parse_entry entry_members)

lemma getSession_open:
  assumes "session_at L w token mail uid t" and "clock_near L d t" and "now - t \<le> 14400 - d"
  shows "\<exists>w'. getSession (at L now) token w =
      (Inr \<lparr>se_token = token, se_user_mail = mail, se_last_time = now, se_user_id = uid\<rparr>, w')
    \<and> session_at L w' token mail uid now"
proof -
  define w' where "w' = kv_put (USER_TOKEN @ token) (fastWrite L (token_entry (at L now) mail uid))
       (kv_put (USER_TOKEN @ mail) (fastWrite L (mail_entry (at L now) token)) w)"
  have s: "session_at L w' token mail uid now"
    using assms(1) by (simp add: session_at_def w'_def)
  have "getUserId (at L now) token w' = (Inr uid, w')"
    using getUserId_run [OF s] by (metis surj_pair)
  moreover have "\<not> tokenExpired (at L now) (now_text (at L t))"
    using tokenExpired_near(1) [OF assms(2,3)] .
  ultimately show ?thesis
    using assms(1) updateToken_run [OF assms(1), of now mail] s
    by (simp add: getSession_def session_at_def parse_entry entry_members w'_def)
qed

lemma getSession_expired:
  assumes "session_at L w token mail uid t" and "clock_near L d t" and "now - t > 14400 + d"
  shows "getSession (at L now) token w = (Inl TokenExpired, w)"
  using assms(1) tokenExpired_near(2) [OF assms(2,3)] by (simp add: session_at_def getSession_def parse_entry entry_members)

lemma getUserByMail_at [simp]: "getUserByMail (at L t) = getUserByMail L"
proof -
  have "person_deserialize (at L t) = person_deserialize L"
    unfolding person_deserialize_def [abs_def] str_member_def [abs_def] long_member_def [abs_def] double_member_def [abs_def]
      skill_deserialize_def [abs_def] workHistory_deserialize_def [abs_def] conversions_at ..
  then show ?thesis
    unfolding getUserByMail_def [abs_def] json_at_members by simp
qed

lemma login_run:
  assumes "dbw_ok w" and "stored_user L w p" and "p_email p = mail" and "kv w (USER_PASSWORD @ mail) = Some password"
  shows "login (at L t) mail password w = (Inr (getNewToken L),
    kv_put (USER_TOKEN @ getNewToken L) (fastWrite L (token_entry (at L t) mail (p_id p)))
      (kv_put (USER_TOKEN @ mail) (fastWrite L (mail_entry (at L t) (getNewToken L))) w))"
  using assms getUserByMail_run [OF assms(1,2,3)]
  by (simp add: login_def saveToken_def token_json Let_def getNewToken_def)

section \<open>Properties\<close>



text \<open>The requests that use a token at given times.\<close>

fun use_token :: "libc \<Rightarrow> string \<Rightarrow> int list \<Rightarrow> dbw \<Rightarrow> session res list \<times> dbw" where
  "use_token L token [] w = ([], w)"
| "use_token L token (t # ts) w = (case getSession (at L t) token w of (r, w') \<Rightarrow>
     case use_token L token ts w' of (rs, w'') \<Rightarrow> (r # rs, w''))"

text \<open>Each use at most so many seconds after the one before it.\<close>

fun within :: "int \<Rightarrow> int \<Rightarrow> int list \<Rightarrow> bool" where
  "within limit t [] \<longleftrightarrow> True"
| "within limit t (u # us) \<longleftrightarrow> u - t \<le> limit \<and> within limit u us"

lemma use_token_open:
  assumes "session_at L w token mail uid t" and "clock_near L d t" and "within (14400 - d) t ts" and "list_all (clock_near L d) ts"
  shows "\<exists>w'. use_token L token ts w =
      (map (\<lambda>u. Inr \<lparr>se_token = token, se_user_mail = mail, se_last_time = u, se_user_id = uid\<rparr>) ts, w')
    \<and> session_at L w' token mail uid (last (t # ts))"
  using assms
proof (induction ts arbitrary: t w)
  case (Cons u ts)
  obtain w1 where "getSession (at L u) token w =
      (Inr \<lparr>se_token = token, se_user_mail = mail, se_last_time = u, se_user_id = uid\<rparr>, w1)" "session_at L w1 token mail uid u"
    using getSession_open [of L w token mail uid t d u] Cons.prems by auto
  then show ?case
    using Cons.IH [of w1 u] Cons.prems by auto
qed auto

text \<open>
  C5. The life of a session: the right password opens one, every use of the token within 14400
  seconds of the previous one (or of the login) gives the session of that user and keeps it open,
  and a use later than that raises \<open>TokenExpiredException\<close> without a change. The limit is the code's:
  the comment of the class in \<open>SessionManager.h\<close> (lines 28 to 31) says \<open>4 m\<close>, sixty times less. It is
  exact up to the number \<open>d\<close> of seconds by which \<open>mktime\<close> may be wrong with the \<open>tm_isdst\<close> that
  nobody has set: an hour where the local time has daylight saving, zero where it has none. The
  user is stored with a password entry and a profile whose values print and read back.
\<close>

theorem session_lifetime:
  assumes "dbw_ok w" and "stored_user L w p" and "kv w (USER_PASSWORD @ p_email p) = Some password"
    and "list_all (clock_near L d) (t0 # ts)" and "within (14400 - d) t0 ts" and "late - last (t0 # ts) > 14400 + d"
  shows "\<exists>token w1 w2. login (at L t0) (p_email p) password w = (Inr token, w1)
    \<and> use_token L token ts w1 =
        (map (\<lambda>u. Inr \<lparr>se_token = token, se_user_mail = p_email p, se_last_time = u, se_user_id = p_id p\<rparr>) ts, w2)
    \<and> getSession (at L late) token w2 = (Inl TokenExpired, w2)"
proof -
  define token where "token = getNewToken L"
  define w1 where "w1 = kv_put (USER_TOKEN @ token) (fastWrite L (token_entry (at L t0) (p_email p) (p_id p)))
      (kv_put (USER_TOKEN @ p_email p) (fastWrite L (mail_entry (at L t0) token)) w)"
  have l: "login (at L t0) (p_email p) password w = (Inr token, w1)"
    using login_run [OF assms(1,2) refl assms(3)] by (simp add: w1_def token_def)
  have "session_at L w1 token (p_email p) (p_id p) t0"
    using assms(1,2) by (simp add: session_at_def w1_def stored_user_def person_ok_def)
  then obtain w2 where u: "use_token L token ts w1 =
      (map (\<lambda>u. Inr \<lparr>se_token = token, se_user_mail = p_email p, se_last_time = u, se_user_id = p_id p\<rparr>) ts, w2)"
    and s: "session_at L w2 token (p_email p) (p_id p) (last (t0 # ts))"
    using use_token_open [of L w1 token "p_email p" "p_id p" t0 d ts] assms(4,5) by auto
  have "clock_near L d (last (t0 # ts))"
    using assms(4) last_in_set [of "t0 # ts"] unfolding list_all_iff by blast
  then have "getSession (at L late) token w2 = (Inl TokenExpired, w2)"
    using getSession_expired [OF s] assms(6) by simp
  then show ?thesis
    using l u by blast
qed

text \<open>A C library whose times print as themselves, for the witnesses.\<close>

definition libc_clock :: libc where
  "libc_clock = libc_plain\<lparr>strftime_local := to_string, mktime_strptime := (\<lambda>isdst s. case stol s of Inr t \<Rightarrow> t | Inl _ \<Rightarrow> 0)\<rparr>"

lemma clock_near_short: "0 \<le> t \<Longrightarrow> t \<le> maxInt64 \<Longrightarrow> length (to_string t) \<le> 19 \<Longrightarrow> clock_near libc_clock 0 t"
  by (simp add: clock_near_def libc_clock_def now_text_def stol_to_string minInt64_def)

lemma clock_small: "clock_near libc_clock 0 1000" "clock_near libc_clock 0 9000"
proof -
  have "length (to_string 1000) \<le> 19" "length (to_string 9000) \<le> 19"
    by (simp_all add: to_string_def uintToString.simps Let_def)
  then show "clock_near libc_clock 0 1000" "clock_near libc_clock 0 9000"
    by (simp_all add: clock_near_short maxInt64_def)
qed

definition ada_db :: dbw where
  "ada_db = dbw_of [(''user:mail_ada@x'', fastWrite libc_clock (person_enc person_ada)), (''user:password_ada@x'', ''Pw'')]"

lemma person_ada_clock: "person_ok libc_clock person_ada"
proof -
  have "double_safe libc_clock 0x3FE0000000000000"
    by (simp add: libc_clock_def double_safe_def double_ok_def number_text_def valueToString_double_def dbl_isfinite_def
        dbl_exponent_def libc_plain_def fixNumericLocale_def readNumber_def is_digit_def decodeNumber_def decodeDouble_def maxUInt64_def)
  then show ?thesis
    using person_ada_ok by (simp add: person_ok_def person_ada_def)
qed

lemma ada_db_facts: "dbw_ok ada_db" "stored_user libc_clock ada_db person_ada" "kv ada_db (USER_PASSWORD @ p_email person_ada) = Some ''Pw''"
  using person_ada_clock by (simp_all add: ada_db_def dbw_of_ok stored_user_def key_defs person_ada_def)

theorem session_lifetime_witness:
  "\<exists>token w1 w2. login (at libc_clock 1000) ''ada@x'' ''Pw'' ada_db = (Inr token, w1)
    \<and> use_token libc_clock token [9000] w1 =
        ([Inr \<lparr>se_token = token, se_user_mail = ''ada@x'', se_last_time = 9000, se_user_id = 7\<rparr>], w2)
    \<and> getSession (at libc_clock 40000) token w2 = (Inl TokenExpired, w2)"
  using session_lifetime [OF ada_db_facts, of 0 1000 "[9000]" 40000] clock_small
  by (simp add: person_ada_def del: use_token.simps)

text \<open>
  C40. A mail address is accepted as a token: after a login, presenting the mail of the user in
  place of the token within 14400 seconds (less the error \<open>d\<close> of the clock) gives a session, of no user (identifier 0, empty mail),
  because tokens and mails share the prefix of their keys.
\<close>

theorem mail_is_a_token:
  assumes "dbw_ok w" and "stored_user L w p" and "kv w (USER_PASSWORD @ p_email p) = Some password"
    and "p_email p \<noteq> getNewToken L" and "clock_near L d t0" and "now - t0 \<le> 14400 - d"
  shows "\<exists>w1 w2. login (at L t0) (p_email p) password w = (Inr (getNewToken L), w1)
    \<and> getSession (at L now) (p_email p) w1 =
        (Inr \<lparr>se_token = p_email p, se_user_mail = '''', se_last_time = now, se_user_id = 0\<rparr>, w2)"
proof -
  define mail where "mail = p_email p"
  define w1 where "w1 = kv_put (USER_TOKEN @ getNewToken L) (fastWrite L (token_entry (at L t0) mail (p_id p)))
      (kv_put (USER_TOKEN @ mail) (fastWrite L (mail_entry (at L t0) (getNewToken L))) w)"
  have l: "login (at L t0) mail password w = (Inr (getNewToken L), w1)"
    using login_run [OF assms(1,2) refl assms(3)] by (simp add: w1_def mail_def)
  have ok: "dbw_ok w1" and m: "kv w1 (USER_TOKEN @ mail) = Some (fastWrite L (mail_entry (at L t0) (getNewToken L)))"
    using assms(1,4) by (simp_all add: w1_def mail_def)
  define w2 where "w2 = kv_put (USER_TOKEN @ mail) (fastWrite L (token_entry (at L now) '''' 0))
       (kv_put (USER_TOKEN @ '''') (fastWrite L (mail_entry (at L now) mail)) w1)"
  have u: "updateToken (at L now) mail '''' w1 = (Inr (), w2)"
    using ok m by (simp add: updateToken_def parse_entry entry_members token_json w2_def)
  have "session_at L w2 mail '''' 0 now"
    using ok by (simp add: session_at_def w2_def long_ok_def minInt64_def maxInt64_def)
  then have "getUserId (at L now) mail w2 = (Inr 0, w2)"
    using getUserId_run by (metis surj_pair)
  then have "getSession (at L now) mail w1 =
      (Inr \<lparr>se_token = mail, se_user_mail = '''', se_last_time = now, se_user_id = 0\<rparr>, w2)"
    using ok m u tokenExpired_near(1) [OF assms(5,6)] by (simp add: getSession_def parse_entry entry_members)
  then show ?thesis
    using l by (auto simp: mail_def)
qed

theorem mail_is_a_token_witness:
  "\<exists>w1 w2. login (at libc_clock 1000) ''ada@x'' ''Pw'' ada_db = (Inr (getNewToken libc_clock), w1)
    \<and> getSession (at libc_clock 9000) ''ada@x'' w1 =
        (Inr \<lparr>se_token = ''ada@x'', se_user_mail = '''', se_last_time = 9000, se_user_id = 0\<rparr>, w2)"
proof -
  have "length (getNewToken libc_clock) = 8"
    by (simp add: getNewToken_def)
  then have "p_email person_ada \<noteq> getNewToken libc_clock"
    by (auto simp: person_ada_def dest: arg_cong [of _ _ length])
  then show ?thesis
    using mail_is_a_token [OF ada_db_facts _ clock_small(1), of 9000] by (simp add: person_ada_def)
qed

text \<open>
  The tokens: eight characters, all letters or digits, whatever the random numbers are.
\<close>

lemma getNewToken_alphanumeric:
  "length (getNewToken L) = 8 \<and> set (getNewToken L) \<subseteq> set alphanum"
proof -
  have "length alphanum = 62"
    by (simp add: alphanum_def)
  then have "alphanum ! (n mod 62) \<in> set alphanum" for n
    by (intro nth_mem) simp
  then show ?thesis
    by (auto simp: getNewToken_def simp del: upt_rec_numeral)
qed

end
