(* ===== verification/Recommendations.thy ===== *)
theory Recommendations
  imports Sessions
begin

text \<open>
  Recommendations (\<open>person/recommendation/RecommendationsManager.cpp\<close>): for every user the list of
  those who recommend him, and their number in his profile.
\<close>

section \<open>RecommendationsManager\<close>

definition RECOMMENDATION_KEY :: string where "RECOMMENDATION_KEY = ''recommendation_''"
definition ARRAY_KEY :: string where "ARRAY_KEY = ''recommendations''"

definition recommendationAlreadyExists :: "int list \<Rightarrow> int \<Rightarrow> bool" where
  "recommendationAlreadyExists currentRecommendations fromId = list_ex (\<lambda>x. x = fromId) currentRecommendations"

text \<open>The loop of \<open>buildJsonToSave\<close> from the index \<open>i\<close> on: every item is an object with its index as its only key.\<close>

fun build_items :: "json \<Rightarrow> nat \<Rightarrow> int list \<Rightarrow> json res" where
  "build_items v i [] = Inr v"
| "build_items v i (x # xs) =
     res_bind (json_set NullV (to_string (int i)) (IntV x)) (\<lambda>item.
     res_bind (json_update v ARRAY_KEY (\<lambda>a. json_append a item)) (\<lambda>v'. build_items v' (Suc i) xs))"

definition buildJsonToSave :: "int list \<Rightarrow> json res" where
  "buildJsonToSave currentRecommendations = build_items NullV 0 currentRecommendations"

definition items_of_json :: "libc \<Rightarrow> json \<Rightarrow> int list res" where
  "items_of_json L root = res_bind (json_get root ARRAY_KEY) (\<lambda>a.
     res_map (\<lambda>i. res_bind (json_index a i) (\<lambda>item. long_member L item (to_string (int i)))) [0..<json_size a])"

definition parseRecommendationsString :: "libc \<Rightarrow> string \<Rightarrow> int list res" where
  "parseRecommendationsString L s = res_bind (parse_json L s) (\<lambda>(ok, root).
     if \<not> ok then Inl Std_exception else items_of_json L root)"

definition getRecommendationsByUserId :: "libc \<Rightarrow> int \<Rightarrow> int list prog" where
  "getRecommendationsByUserId L userId = bnd (lookupKey (RECOMMENDATION_KEY @ to_string userId)) (\<lambda>result.
     case result of None \<Rightarrow> ret [] | Some s \<Rightarrow> lift (parseRecommendationsString L s))"

definition getRecommendationsAsJson :: "libc \<Rightarrow> int \<Rightarrow> json prog" where
  "getRecommendationsAsJson L userId = bnd (getRecommendationsByUserId L userId) (\<lambda>recommendations.
     lift (json_append_all (ArrV []) (map IntV recommendations)))"

text \<open>The sum is an \<open>int\<close> of 32 bits.\<close>

definition updateTotalRecommendation :: "libc \<Rightarrow> int \<Rightarrow> int \<Rightarrow> unit prog" where
  "updateTotalRecommendation L delta ident =
     bnd (getKey (USER_UUID_ID @ to_string ident) '''') (\<lambda>(_, output).
     bnd (getKey (USER_MAIL_ID @ output) '''') (\<lambda>(_, user_information).
     bnd (lift (parse_cstr L user_information)) (\<lambda>(_, juser_info).
     bnd (lift (person_deserialize L juser_info)) (\<lambda>person.
     bnd (lift (person_serialize (person\<lparr>p_totRecommendations := signed_take_bit 31 (p_totRecommendations person + delta)\<rparr>))) (\<lambda>v.
     put (USER_MAIL_ID @ output) (fastWrite L v))))))"

definition saveRecommendations :: "libc \<Rightarrow> int list \<Rightarrow> int \<Rightarrow> int \<Rightarrow> unit prog" where
  "saveRecommendations L recommendations toId delta =
     bnd (lift (buildJsonToSave recommendations)) (\<lambda>recommendationsAsJson.
     seq (put (RECOMMENDATION_KEY @ to_string toId) (fastWrite L recommendationsAsJson))
         (updateTotalRecommendation L delta toId))"

definition addRecommendation :: "libc \<Rightarrow> int \<Rightarrow> int \<Rightarrow> unit prog" where
  "addRecommendation L fromId toId = bnd (getRecommendationsByUserId L toId) (\<lambda>currentRecommendations.
     if_do (\<not> recommendationAlreadyExists currentRecommendations fromId)
       (saveRecommendations L (currentRecommendations @ [fromId]) toId 1))"

definition removeRecommendation :: "libc \<Rightarrow> int \<Rightarrow> int \<Rightarrow> unit prog" where
  "removeRecommendation L fromId toId = bnd (getRecommendationsByUserId L toId) (\<lambda>currentRecommendations.
     if_do (recommendationAlreadyExists currentRecommendations fromId)
       (saveRecommendations L (filter (\<lambda>x. x \<noteq> fromId) currentRecommendations) toId (- 1)))"

section \<open>The stored list\<close>

definition rec_items :: "nat \<Rightarrow> int list \<Rightarrow> json list" where
  "rec_items n xs = map (\<lambda>(i, x). ObjV [(to_string (int i), IntV x)]) (enumerate n xs)"

definition rec_enc :: "int list \<Rightarrow> json" where
  "rec_enc xs = (if xs = [] then NullV else ObjV [(ARRAY_KEY, ArrV (rec_items 0 xs))])"

lemma rec_items_Cons [simp]: "rec_items n [] = []" "rec_items n (x # xs) = ObjV [(to_string (int n), IntV x)] # rec_items (Suc n) xs"
  by (simp_all add: rec_items_def)

lemma build_items_eq:
  "build_items (ObjV [(ARRAY_KEY, ArrV ys)]) i xs = Inr (ObjV [(ARRAY_KEY, ArrV (ys @ rec_items i xs))])"
  by (induction xs arbitrary: i ys) (simp_all add: json_update_def)

lemma buildJsonToSave_eq: "buildJsonToSave xs = Inr (rec_enc xs)"
  by (cases xs) (simp_all add: buildJsonToSave_def rec_enc_def json_update_def build_items_eq)

lemma rec_items_ok: "list_all long_ok xs \<Longrightarrow> list_all (json_ok L) (rec_items n xs)"
  and rec_items_depth: "foldr max (map json_depth (rec_items n xs)) 0 \<le> 2"
  by (induction xs arbitrary: n) (simp_all add: long_ok_def)

lemma rec_items_length [simp]: "length (rec_items n xs) = length xs"
  by (simp add: rec_items_def)

lemma rec_items_nth: "i < length xs \<Longrightarrow> rec_items n xs ! i = ObjV [(to_string (int (n + i)), IntV (xs ! i))]"
  by (simp add: rec_items_def nth_enumerate_eq)

lemma items_read:
  assumes "list_all long_ok xs"
  shows "items_of_json L (json_norm L (rec_enc xs)) = Inr xs"
proof -
  have "res_map (\<lambda>i. res_bind (json_index (ArrV (map (json_norm L) (rec_items 0 xs))) i)
      (\<lambda>item. long_member L item (to_string (int i)))) [0..<length xs] = Inr (map ((!) xs) [0..<length xs])"
    using assms by (intro res_map_Inr) (auto simp: rec_items_nth long_member_def asLargestInt_def long_ok_def list_all_length)
  then show ?thesis
    by (simp add: items_of_json_def rec_enc_def map_nth)
qed

interpretation rec_codec: json_codec L rec_enc "items_of_json L" "list_all long_ok" for L
proof
  fix xs :: "int list"
  assume xs: "list_all long_ok xs"
  show "json_ok L (rec_enc xs)"
    using rec_items_ok [OF xs] by (simp add: rec_enc_def)
  show "json_depth (rec_enc xs) \<le> 900"
    using rec_items_depth [of 0 xs] by (simp add: rec_enc_def comp_def)
  show "items_of_json L (json_norm L (rec_enc xs)) = Inr xs"
    using xs by (rule items_read)
qed

lemma parse_recommendations: "list_all long_ok xs \<Longrightarrow> parseRecommendationsString L (fastWrite L (rec_enc xs)) = Inr xs"
  using rec_codec.enc_ok [of xs L] rec_codec.enc_depth [of xs] rec_codec.dec_enc [of xs L]
  by (simp add: parseRecommendationsString_def parse_json_write stackLimit_g_def)

section \<open>One operation\<close>

text \<open>A user reached through his identifier, and the list that his recommendations key holds.\<close>

definition user_at :: "libc \<Rightarrow> dbw \<Rightarrow> int \<Rightarrow> person \<Rightarrow> bool" where
  "user_at L w uid p \<longleftrightarrow> stored_user L w p \<and> p_id p = uid \<and> kv w (USER_UUID_ID @ to_string uid) = Some (p_email p)"

definition recs_of :: "libc \<Rightarrow> dbw \<Rightarrow> int \<Rightarrow> int list \<Rightarrow> bool" where
  "recs_of L w uid xs \<longleftrightarrow> list_all long_ok xs \<and>
     (kv w (RECOMMENDATION_KEY @ to_string uid) = Some (fastWrite L (rec_enc xs))
      \<or> kv w (RECOMMENDATION_KEY @ to_string uid) = None \<and> xs = [])"

lemma getRecommendations_run:
  "dbw_ok w \<Longrightarrow> recs_of L w uid xs \<Longrightarrow> getRecommendationsByUserId L uid w = (Inr xs, w)"
  by (auto simp: getRecommendationsByUserId_def recs_of_def parse_recommendations)

lemma signed_int: "minInt \<le> i \<Longrightarrow> i \<le> maxInt \<Longrightarrow> signed_take_bit 31 i = i"
  by (rule signed_take_bit_int_eq_self) (simp_all add: minInt_def maxInt_def)

lemma updateTotal_run:
  assumes "dbw_ok w" and "user_at L w uid p" and "p' = p\<lparr>p_totRecommendations := p_totRecommendations p + delta\<rparr>"
    and "minInt \<le> p_totRecommendations p'" and "p_totRecommendations p' \<le> maxInt"
  shows "updateTotalRecommendation L delta uid w =
    (Inr (), kv_put (USER_MAIL_ID @ p_email p) (fastWrite L (person_enc p')) w)"
proof -
  have p: "person_ok L p" "kv w (USER_UUID_ID @ to_string uid) = Some (p_email p)"
    "kv w (USER_MAIL_ID @ p_email p) = Some (fastWrite L (person_enc p))"
    using assms(2) by (simp_all add: user_at_def stored_user_def)
  moreover have "parse_cstr L (fastWrite L (person_enc p)) = Inr (True, json_norm L (person_enc p))"
    "person_deserialize L (json_norm L (person_enc p)) = Inr p"
    using person_codec.one_stored [OF p(1)] by simp_all
  ultimately show ?thesis
    using assms(1,3,4,5) by (simp add: updateTotalRecommendation_def person_serialize_eq signed_int)
qed

text \<open>The state after the list of a user and his total were written.\<close>

definition put_recs :: "libc \<Rightarrow> int \<Rightarrow> person \<Rightarrow> int list \<Rightarrow> dbw \<Rightarrow> dbw" where
  "put_recs L uid p xs w = kv_put (USER_MAIL_ID @ p_email p) (fastWrite L (person_enc (p\<lparr>p_totRecommendations := int (length xs)\<rparr>)))
     (kv_put (RECOMMENDATION_KEY @ to_string uid) (fastWrite L (rec_enc xs)) w)"

lemma keys_apart [simp]:
  "RECOMMENDATION_KEY @ x \<noteq> USER_MAIL_ID @ y" "USER_MAIL_ID @ y \<noteq> RECOMMENDATION_KEY @ x"
  "RECOMMENDATION_KEY @ x \<noteq> USER_UUID_ID @ y" "USER_UUID_ID @ y \<noteq> RECOMMENDATION_KEY @ x"
  "USER_UUID_ID @ x \<noteq> USER_MAIL_ID @ y" "USER_MAIL_ID @ y \<noteq> USER_UUID_ID @ x"
  "USER_UUID_ID \<noteq> RECOMMENDATION_KEY" "RECOMMENDATION_KEY \<noteq> USER_UUID_ID"
  by (simp_all add: RECOMMENDATION_KEY_def key_defs)

lemma save_recs_run:
  assumes "dbw_ok w" and "user_at L w uid p" and "list_all long_ok xs"
    and "int (length xs) = p_totRecommendations p + delta" and "int (length xs) \<le> maxInt"
  shows "saveRecommendations L xs uid delta w = (Inr (), put_recs L uid p xs w)"
proof -
  define w1 where "w1 = kv_put (RECOMMENDATION_KEY @ to_string uid) (fastWrite L (rec_enc xs)) w"
  have "user_at L w1 uid p" and "dbw_ok w1"
    using assms(1,2) by (simp_all add: user_at_def stored_user_def w1_def)
  then have "updateTotalRecommendation L delta uid w1 = (Inr (), put_recs L uid p xs w)"
    using updateTotal_run [of w1 L uid p "p\<lparr>p_totRecommendations := int (length xs)\<rparr>" delta] assms(4,5)
    by (simp add: put_recs_def w1_def minInt_def)
  then show ?thesis
    using assms(1) by (simp add: saveRecommendations_def buildJsonToSave_eq w1_def)
qed

lemma put_recs_ok: "dbw_ok w \<Longrightarrow> dbw_ok (put_recs L uid p xs w)"
  by (simp add: put_recs_def)

lemma put_recs_user:
  assumes "dbw_ok w" and "user_at L w uid p" and "int (length xs) \<le> maxInt"
  shows "user_at L (put_recs L uid p xs w) uid (p\<lparr>p_totRecommendations := int (length xs)\<rparr>)"
  using assms by (auto simp: user_at_def put_recs_def stored_user_def person_ok_def minInt_def)

lemma put_recs_list: "dbw_ok w \<Longrightarrow> list_all long_ok xs \<Longrightarrow> recs_of L (put_recs L uid p xs w) uid xs"
  by (simp add: recs_of_def put_recs_def)

text \<open>The request as a change of the list of recommenders.\<close>

datatype rec_request = Add (rec_from: int) (rec_to: int) | Remove (rec_from: int) (rec_to: int)

fun apply_request :: "rec_request \<Rightarrow> int list \<Rightarrow> int list" where
  "apply_request (Add f t) xs = (if f \<in> set xs then xs else xs @ [f])"
| "apply_request (Remove f t) xs = filter (\<lambda>x. x \<noteq> f) xs"

fun exec_request :: "libc \<Rightarrow> rec_request \<Rightarrow> unit prog" where
  "exec_request L (Add f t) = addRecommendation L f t"
| "exec_request L (Remove f t) = removeRecommendation L f t"

lemma exists_iff [simp]: "recommendationAlreadyExists xs f \<longleftrightarrow> f \<in> set xs"
  by (auto simp: recommendationAlreadyExists_def list_ex_iff)

lemma length_filter_neq:
  assumes "distinct xs" and "f \<in> set xs"
  shows "int (length (filter (\<lambda>x. x \<noteq> f) xs)) = int (length xs) - 1"
proof -
  have "filter (\<lambda>x. x \<noteq> f) xs = remove1 f xs"
    using assms(1) by (simp add: distinct_remove1_removeAll removeAll_filter_not_eq eq_commute)
  then show ?thesis
    using length_remove1 [of f xs] assms(2) by (cases xs) auto
qed

lemma apply_request_length: "length (apply_request r xs) \<le> Suc (length xs)"
  by (cases r) (auto intro: le_SucI)

lemma apply_request_ok: "list_all long_ok xs \<Longrightarrow> long_ok (rec_from r) \<Longrightarrow> list_all long_ok (apply_request r xs)"
  by (cases r) (auto simp: list_all_iff)

lemma apply_request_distinct: "distinct xs \<Longrightarrow> distinct (apply_request r xs)"
  by (cases r) auto

lemma exec_request_run:
  assumes "dbw_ok w" and "user_at L w uid p" and "recs_of L w uid xs" and "distinct xs"
    and "p_totRecommendations p = int (length xs)" and "int (length xs) < maxInt" and "rec_to r = uid" and "long_ok (rec_from r)"
  shows "exec_request L r w = (Inr (), if apply_request r xs = xs then w else put_recs L uid p (apply_request r xs) w)"
proof (cases r)
  case (Add f t)
  then show ?thesis
    using assms getRecommendations_run [OF assms(1,3)] save_recs_run [OF assms(1,2), of "xs @ [f]" 1]
    by (auto simp: addRecommendation_def recs_of_def)
next
  case (Remove f t)
  have "f \<notin> set xs \<Longrightarrow> filter (\<lambda>x. x \<noteq> f) xs = xs"
    by (auto simp: filter_id_conv)
  moreover have "f \<in> set xs \<Longrightarrow> filter (\<lambda>x. x \<noteq> f) xs \<noteq> xs"
    by (auto simp: filter_id_conv)
  ultimately show ?thesis
    using Remove assms getRecommendations_run [OF assms(1,3)] length_filter_neq [OF assms(4), of f]
      save_recs_run [OF assms(1,2), of "filter (\<lambda>x. x \<noteq> f) xs" "- 1"]
    by (cases "f \<in> set xs") (auto simp: removeRecommendation_def recs_of_def list_all_iff)
qed

section \<open>The totals\<close>

text \<open>
  Every user in the database has a list of recommenders without repetitions, and his profile
  has its length; \<open>n\<close> bounds the lengths.
\<close>

definition recs_inv :: "libc \<Rightarrow> nat \<Rightarrow> dbw \<Rightarrow> bool" where
  "recs_inv L n w \<longleftrightarrow> dbw_ok w \<and> (\<forall>uid p. user_at L w uid p \<longrightarrow>
     (\<exists>xs. recs_of L w uid xs \<and> distinct xs \<and> p_totRecommendations p = int (length xs) \<and> length xs \<le> n))"

lemma stored_user_unique:
  assumes "stored_user L w p" and "stored_user L w q" and "p_email p = p_email q"
  shows "p = q"
proof -
  have ok: "person_ok L p" "person_ok L q" and e: "fastWrite L (person_enc p) = fastWrite L (person_enc q)"
    using assms by (simp_all add: stored_user_def)
  have "Inr (True, json_norm L (person_enc p)) = (Inr (True, json_norm L (person_enc q)) :: (bool \<times> json) res)"
    using person_codec.one_stored [OF ok(1)] person_codec.one_stored [OF ok(2)] e by metis
  then have "(Inr p :: person res) = Inr q"
    using person_codec.dec_enc [OF ok(1)] person_codec.dec_enc [OF ok(2)] by (metis Inr_inject Pair_inject)
  then show ?thesis
    by simp
qed

lemma user_at_unique: "user_at L w uid p \<Longrightarrow> user_at L w uid q \<Longrightarrow> p = q"
  using stored_user_unique unfolding user_at_def by (metis option.inject)

lemma put_recs_others:
  assumes "dbw_ok w" and "user_at L w uid p" and "int (length xs) \<le> maxInt" and "v \<noteq> uid"
  shows "user_at L (put_recs L uid p xs w) v q \<longleftrightarrow> user_at L w v q"
    and "recs_of L (put_recs L uid p xs w) v ys \<longleftrightarrow> recs_of L w v ys"
proof -
  have u: "user_at L (put_recs L uid p xs w) uid (p\<lparr>p_totRecommendations := int (length xs)\<rparr>)"
    using put_recs_user [OF assms(1-3)] .
  have "p_email q \<noteq> p_email p" if "user_at L (put_recs L uid p xs w) v q \<or> user_at L w v q"
    using that stored_user_unique [of L w q p] assms(2,4) u
      stored_user_unique [of L "put_recs L uid p xs w" q "p\<lparr>p_totRecommendations := int (length xs)\<rparr>"]
    unfolding user_at_def by auto
  moreover have "p_email q \<noteq> p_email p \<Longrightarrow> user_at L (put_recs L uid p xs w) v q \<longleftrightarrow> user_at L w v q"
    using assms(1) by (simp add: user_at_def stored_user_def put_recs_def)
  ultimately show "user_at L (put_recs L uid p xs w) v q \<longleftrightarrow> user_at L w v q"
    by blast
  show "recs_of L (put_recs L uid p xs w) v ys \<longleftrightarrow> recs_of L w v ys"
    using assms(1,4) by (simp add: recs_of_def put_recs_def)
qed

lemma recs_inv_step:
  assumes "recs_inv L n w" and "user_at L w (rec_to r) p" and "long_ok (rec_from r)" and "int n < maxInt"
  shows "\<exists>w'. exec_request L r w = (Inr (), w') \<and> recs_inv L (Suc n) w'
    \<and> (\<forall>v. (\<exists>q. user_at L w v q) \<longrightarrow> (\<exists>q. user_at L w' v q))"
proof -
  obtain xs where ok: "dbw_ok w" and xs: "recs_of L w (rec_to r) xs" "distinct xs" "p_totRecommendations p = int (length xs)" "length xs \<le> n"
    using assms(1,2) unfolding recs_inv_def by blast
  define ys where "ys = apply_request r xs"
  define w' where "w' = (if ys = xs then w else put_recs L (rec_to r) p ys w)"
  have e: "exec_request L r w = (Inr (), w')"
    using exec_request_run [OF ok assms(2) xs(1-3) _ refl assms(3)] xs(4) assms(4) by (simp add: w'_def ys_def)
  have weak: "recs_inv L (Suc n) w"
    using assms(1) unfolding recs_inv_def by (meson le_SucI)
  show ?thesis
  proof (cases "ys = xs")
    case True
    then show ?thesis
      using e weak by (auto simp: w'_def)
  next
    case False
    then have w': "w' = put_recs L (rec_to r) p ys w"
      by (simp add: w'_def)
    have ys: "list_all long_ok ys" "distinct ys" "length ys \<le> Suc n" "int (length ys) \<le> maxInt"
      using apply_request_ok [OF _ assms(3)] apply_request_distinct [OF xs(2)] apply_request_length [of r xs] xs(1,4) assms(4)
      by (auto simp: ys_def recs_of_def)
    note other = put_recs_others [OF ok assms(2) ys(4), folded w']
    have user: "user_at L w' (rec_to r) (p\<lparr>p_totRecommendations := int (length ys)\<rparr>)"
      using put_recs_user [OF ok assms(2) ys(4)] by (simp add: w')
    have "\<exists>zs. recs_of L w' v zs \<and> distinct zs \<and> p_totRecommendations q = int (length zs) \<and> length zs \<le> Suc n"
      if q: "user_at L w' v q" for v q
    proof (cases "v = rec_to r")
      case True
      then show ?thesis
        using put_recs_list [OF ok ys(1)] ys user_at_unique [OF q [unfolded True] user] by (auto simp: w')
    next
      case False
      then show ?thesis
        using weak q unfolding recs_inv_def other [OF False] by blast
    qed
    moreover have "\<exists>q. user_at L w' v q" if "user_at L w v q" for v q
      using that user other(1) [of v q] by (cases "v = rec_to r") auto
    ultimately show ?thesis
      using e put_recs_ok [OF ok] unfolding recs_inv_def by (auto simp: w')
  qed
qed

fun exec_requests :: "libc \<Rightarrow> rec_request list \<Rightarrow> unit prog" where
  "exec_requests L [] = ret ()"
| "exec_requests L (r # rs) = seq (exec_request L r) (exec_requests L rs)"

text \<open>
  C12. The number of recommendations: starting from a database in which every user has as many
  recommendations in his profile as distinct recommenders in his list, any sequence of
  \<open>addRecommendation\<close> and \<open>removeRecommendation\<close> for users of the database succeeds and leaves it
  so, whatever is repeated.
\<close>

theorem recommendations_counted:
  assumes "recs_inv L n w" and "list_all (\<lambda>r. long_ok (rec_from r) \<and> (\<exists>p. user_at L w (rec_to r) p)) rs"
    and "int (n + length rs) \<le> maxInt"
  shows "\<exists>w'. exec_requests L rs w = (Inr (), w') \<and> recs_inv L (n + length rs) w'"
  using assms
proof (induction rs arbitrary: n w)
  case (Cons r rs)
  obtain p where "user_at L w (rec_to r) p" "long_ok (rec_from r)"
    using Cons.prems(2) by auto
  then obtain w1 where w1: "exec_request L r w = (Inr (), w1)" "recs_inv L (Suc n) w1"
    "\<forall>v. (\<exists>q. user_at L w v q) \<longrightarrow> (\<exists>q. user_at L w1 v q)"
    using recs_inv_step [OF Cons.prems(1), of r p] Cons.prems(3) by (auto simp del: exec_request.simps)
  have "list_all (\<lambda>r. long_ok (rec_from r) \<and> (\<exists>p. user_at L w1 (rec_to r) p)) rs"
    using Cons.prems(2) w1(3) by (simp add: list_all_iff)
  then show ?case
    using Cons.IH [OF w1(2)] Cons.prems(3) w1(1) by auto
qed simp

definition rec_db :: dbw where
  "rec_db = dbw_of [(''user:mail_ada@x'', fastWrite libc_clock (person_enc person_ada)), (USER_UUID_ID @ to_string 7, ''ada@x'')]"

lemma rec_db_ok: "dbw_ok rec_db" "user_at libc_clock rec_db 7 person_ada"
  using person_ada_clock
  by (simp_all add: rec_db_def dbw_of_ok key_defs user_at_def stored_user_def person_ada_def)

lemma rec_db_inv: "recs_inv libc_clock 0 rec_db"
proof -
  have none: "kv rec_db (RECOMMENDATION_KEY @ x) = None" for x
    by (simp add: rec_db_def key_defs RECOMMENDATION_KEY_def)
  have "uid = 7" if "user_at libc_clock rec_db uid p" for uid p
    using that by (simp add: user_at_def rec_db_def key_defs split: if_splits)
  then have "p = person_ada" if "user_at libc_clock rec_db uid p" for uid p
    using that rec_db_ok(2) user_at_unique by metis
  then show ?thesis
    using rec_db_ok(1) none unfolding recs_inv_def by (fastforce simp: recs_of_def person_ada_def)
qed

theorem recommendations_counted_witness:
  "\<exists>w'. exec_requests libc_clock [Add 1 7, Add 2 7, Add 1 7, Remove 2 7] rec_db = (Inr (), w') \<and> recs_inv libc_clock 4 w'"
proof -
  have "\<exists>p. user_at libc_clock rec_db 7 p"
    using rec_db_ok(2) by blast
  moreover have "0 + length [Add 1 7, Add 2 7, Add 1 7, Remove 2 7] = 4"
    by simp
  ultimately show ?thesis
    using recommendations_counted [OF rec_db_inv, of "[Add 1 7, Add 2 7, Add 1 7, Remove 2 7]"]
    by (simp add: long_ok_def minInt64_def maxInt64_def maxInt_def eval_nat_numeral del: exec_requests.simps)
qed

end
