(* ===== verification/Json_Styled.thy ===== *)
theory Json_Styled
  imports Json_Roundtrip
begin

text \<open>
  \<open>StyledWriter\<close>, which prints the bodies of the responses: the text of a value with indentation,
  one member or element per line, short arrays of scalars on one line. The functions take
  \<open>document_\<close> and return it extended, since the indentation depends on its last character.
  Comments of values are not modelled.
\<close>

definition rightMargin :: nat where "rightMargin = 74"

definition writeIndent :: "string \<Rightarrow> string \<Rightarrow> string" where
  "writeIndent indentString document =
     (if document = [] then document @ indentString
      else if last document = CHR '' '' then document
      else if last document \<noteq> CHR 0x0A then document @ [CHR 0x0A] @ indentString
      else document @ indentString)"

definition writeWithIndent :: "string \<Rightarrow> string \<Rightarrow> string \<Rightarrow> string" where
  "writeWithIndent indentString document v = writeIndent indentString document @ v"

definition indent :: "string \<Rightarrow> string" where
  "indent indentString = indentString @ replicate 3 (CHR '' '')"

text \<open>The texts collected in \<open>childValues_\<close>: those of scalars and of empty arrays and objects.\<close>

fun childText :: "libc \<Rightarrow> json \<Rightarrow> string" where
  "childText L (ArrV xs) = ''[]''"
| "childText L (ObjV kvs) = ''{}''"
| "childText L v = writeValue L v"

fun nonEmptyContainer :: "json \<Rightarrow> bool" where
  "nonEmptyContainer (ArrV xs) \<longleftrightarrow> xs \<noteq> []"
| "nonEmptyContainer (ObjV kvs) \<longleftrightarrow> kvs \<noteq> []"
| "nonEmptyContainer v \<longleftrightarrow> False"

text \<open>\<open>isMultineArray\<close>: whether \<open>childValues_\<close> stays empty, and whether several lines are used.\<close>

definition noChildValues :: "json list \<Rightarrow> bool" where
  "noChildValues xs \<longleftrightarrow> rightMargin \<le> length xs * 3 \<or> list_ex nonEmptyContainer xs"

definition isMultineArray :: "libc \<Rightarrow> json list \<Rightarrow> bool" where
  "isMultineArray L xs \<longleftrightarrow> noChildValues xs \<or>
     rightMargin \<le> 4 + (length xs - 1) * 2 + sum_list (map (\<lambda>x. length (childText L x)) xs)"

fun oneLine :: "libc \<Rightarrow> json list \<Rightarrow> string" where
  "oneLine L [] = []"
| "oneLine L [x] = childText L x"
| "oneLine L (x # y # xs) = childText L x @ '', '' @ oneLine L (y # xs)"

text \<open>Names are printed by \<open>valueToQuotedString\<close> from a C string.\<close>

definition valueToQuotedString :: "string \<Rightarrow> string" where
  "valueToQuotedString name =
     (let value = c_str name in
      if \<not> strnpbrk value [dquote, bslash, CHR 0x08, CHR 0x0C, CHR 0x0A, CHR 0x0D, CHR 0x09]
         \<and> \<not> list_ex isControlCharacter value
      then [dquote] @ value @ [dquote]
      else [dquote] @ concat (map quote_char value) @ [dquote])"

fun styledValue :: "libc \<Rightarrow> string \<Rightarrow> string \<Rightarrow> json \<Rightarrow> string"
  and styledElements :: "libc \<Rightarrow> string \<Rightarrow> bool \<Rightarrow> string \<Rightarrow> json list \<Rightarrow> string"
  and styledMembers :: "libc \<Rightarrow> string \<Rightarrow> string \<Rightarrow> (string \<times> json) list \<Rightarrow> string" where
  "styledValue L ind document (ArrV xs) =
     (if xs = [] then document @ ''[]''
      else if isMultineArray L xs then
        writeWithIndent ind (styledElements L (indent ind) (\<not> noChildValues xs) (writeWithIndent ind document ''['') xs) '']''
      else document @ ''[ '' @ oneLine L xs @ '' ]'')"
| "styledValue L ind document (ObjV kvs) =
     (if kvs = [] then document @ ''{}''
      else writeWithIndent ind (styledMembers L (indent ind) (writeWithIndent ind document ''{'') kvs) ''}'')"
| "styledValue L ind document v = document @ writeValue L v"
| "styledElements L ind hasChildValue document [] = document"
| "styledElements L ind hasChildValue document (x # xs) =
     (let document1 = (if hasChildValue then writeWithIndent ind document (childText L x)
                       else styledValue L ind (writeIndent ind document) x)
      in if xs = [] then document1 else styledElements L ind hasChildValue (document1 @ '','') xs)"
| "styledMembers L ind document [] = document"
| "styledMembers L ind document ((name, x) # kvs) =
     (let document1 = styledValue L ind (writeWithIndent ind document (valueToQuotedString name) @ '' : '') x
      in if kvs = [] then document1 else styledMembers L ind (document1 @ '','') kvs)"

definition toStyledString :: "libc \<Rightarrow> json \<Rightarrow> string" where
  "toStyledString L root = styledValue L [] [] root @ [CHR 0x0A]"

end
