(* ===== verification/Messages.thy ===== *)
theory Messages
  imports Server_Db Json_Styled Contacts
begin

text \<open>
  Messages between users: \<open>Message\<close>, \<open>Conversation\<close>, \<open>MessagesManager\<close> and
  \<open>NotificationTokenManager\<close> (\<open>person/messages/\<close>). The messages of a pair of users are one list
  under a key made of the two identifiers.
\<close>

record message =
  m_timestamp :: string
  m_message :: string
  m_from :: int
  m_to :: int
  m_state :: string

definition STATE_SENT :: string where "STATE_SENT = ''sent''"
definition STATE_RECEIVED :: string where "STATE_RECEIVED = ''received''"

definition message_of_json :: "libc \<Rightarrow> json \<Rightarrow> message res" where
  "message_of_json L messageAsJson =
     res_bind (res_bind (json_get messageAsJson ''message'') (asString L)) (\<lambda>msg.
     res_bind (res_bind (json_get messageAsJson ''timestamp'') (asString L)) (\<lambda>timestamp.
     res_bind (res_bind (json_get messageAsJson ''from'') (asLargestInt L)) (\<lambda>from.
     res_bind (res_bind (json_get messageAsJson ''to'') (asLargestInt L)) (\<lambda>to.
     res_bind (res_bind (json_get messageAsJson ''state'') (asString L)) (\<lambda>state.
     Inr \<lparr>m_timestamp = timestamp, m_message = msg, m_from = from, m_to = to, m_state = state\<rparr>)))))"

definition message_serialize :: "message \<Rightarrow> json res" where
  "message_serialize m = json_fields NullV
     [(''from'', IntV (m_from m)), (''to'', IntV (m_to m)), (''message'', StrV (m_message m)),
      (''timestamp'', StrV (m_timestamp m)), (''state'', StrV (m_state m))]"

record conversation =
  cv_with :: int
  cv_firstName :: string
  cv_lastName :: string
  cv_unreadCount :: int

definition conversation_serialize :: "conversation \<Rightarrow> json res" where
  "conversation_serialize c = json_fields NullV
     [(''with'', IntV (cv_with c)), (''first_name'', StrV (cv_firstName c)),
      (''last_name'', StrV (cv_lastName c)), (''unread_count'', IntV (cv_unreadCount c))]"

definition message_key :: "int \<Rightarrow> int \<Rightarrow> string" where
  "message_key fromUserId toUserId =
     (if fromUserId < toUserId then to_string fromUserId @ ''_'' @ to_string toUserId
      else to_string toUserId @ ''_'' @ to_string fromUserId)"

definition getTimestamp :: "libc \<Rightarrow> string" where
  "getTimestamp L = take 29 (strftime_local L (time_now L))"

definition getMessages :: "libc \<Rightarrow> int \<Rightarrow> int \<Rightarrow> message list prog" where
  "getMessages L fromUserId toUserId = load_array L (message_of_json L) (message_key fromUserId toUserId)"

definition saveMessage :: "libc \<Rightarrow> int \<Rightarrow> int \<Rightarrow> string \<Rightarrow> string prog" where
  "saveMessage L fromUserId toUserId msg =
     (let messageToSave = \<lparr>m_timestamp = getTimestamp L, m_message = msg, m_from = fromUserId,
            m_to = toUserId, m_state = STATE_SENT\<rparr>
      in bnd (lift (message_serialize messageToSave)) (\<lambda>v.
         bnd (getMessages L fromUserId toUserId) (\<lambda>currentMessages.
         seq (save_array L message_serialize (message_key fromUserId toUserId) (currentMessages @ [messageToSave]))
         (ret (toStyledString L v)))))"

text \<open>
  \<open>setMessagesAsReceived\<close>: the inner loop over the delivered messages compares the current
  message with itself, so each round that runs sets the state.
\<close>

fun mark_received :: "int \<Rightarrow> 'a list \<Rightarrow> message \<Rightarrow> message" where
  "mark_received fromUserId [] currentMessage = currentMessage"
| "mark_received fromUserId (d # deliveredMessages) currentMessage =
     (let deliveredMessage = currentMessage in
      mark_received fromUserId deliveredMessages
        (if m_timestamp deliveredMessage = m_timestamp currentMessage \<and> fromUserId = m_to currentMessage
         then currentMessage\<lparr>m_state := STATE_RECEIVED\<rparr> else currentMessage))"

definition setMessagesAsReceived :: "libc \<Rightarrow> int \<Rightarrow> int \<Rightarrow> message list \<Rightarrow> unit prog" where
  "setMessagesAsReceived L fromUserId toUserId deliveredMessages =
     bnd (getMessages L fromUserId toUserId) (\<lambda>currentMessages.
       save_array L message_serialize (message_key fromUserId toUserId)
         (map (mark_received fromUserId deliveredMessages) currentMessages))"

definition unread :: "int \<Rightarrow> message \<Rightarrow> bool" where
  "unread requesterUserId m \<longleftrightarrow> m_state m = STATE_SENT \<and> requesterUserId = m_to m"

definition getUnreadCount :: "libc \<Rightarrow> int \<Rightarrow> int \<Rightarrow> int prog" where
  "getUnreadCount L requesterUserId withUserId =
     bnd (getMessages L requesterUserId withUserId) (\<lambda>currentMessages.
       ret (foldl (\<lambda>n m. if unread requesterUserId m then n + 1 else n) 0 currentMessages))"

section \<open>Notification tokens\<close>

definition notification_key :: "int \<Rightarrow> string" where
  "notification_key userId = ''notifications_token_'' @ to_string userId"

definition getTokenByUserId :: "int \<Rightarrow> string prog" where
  "getTokenByUserId userId = bnd (lookupKey (notification_key userId)) (\<lambda>result. case result of
     Some token \<Rightarrow> ret token | None \<Rightarrow> raise (NonexistentNotificationToken userId))"

definition setOrUpdateToken :: "int \<Rightarrow> string \<Rightarrow> unit prog" where
  "setOrUpdateToken userId token = seq (putKey (notification_key userId) token) (ret ())"

section \<open>The lists in the database\<close>

definition message_enc :: "message \<Rightarrow> json" where
  "message_enc m = ObjV [(''from'', IntV (m_from m)), (''message'', StrV (m_message m)), (''state'', StrV (m_state m)),
     (''timestamp'', StrV (m_timestamp m)), (''to'', IntV (m_to m))]"

definition message_ok :: "message \<Rightarrow> bool" where
  "message_ok m \<longleftrightarrow> long_ok (m_from m) \<and> long_ok (m_to m)"

lemma message_serialize_eq: "message_serialize m = Inr (message_enc m)"
  by (simp add: message_serialize_def message_enc_def)

interpretation message_codec: json_codec L message_enc "message_of_json L" message_ok for L
proof (unfold_locales, goal_cases)
  case (3 m)
  then show ?case
    by (simp add: message_of_json_def message_enc_def message_ok_def long_ok_def asLargestInt_def)
qed (simp_all add: message_enc_def message_ok_def long_ok_def)

abbreviation holds_messages :: "libc \<Rightarrow> dbw \<Rightarrow> int \<Rightarrow> int \<Rightarrow> message list \<Rightarrow> bool" where
  "holds_messages L w a b xs \<equiv> holds_list L message_enc message_ok w (message_key a b) xs"

text \<open>The key names the unordered pair.\<close>

lemma to_string_chars: "c \<in> set (to_string i) \<Longrightarrow> is_digit c \<or> c = CHR ''-''"
proof -
  obtain ds where "uintToString (nat \<bar>i\<bar>) [] = ds" "list_all is_digit ds"
    by (rule uint_text)
  then show "c \<in> set (to_string i) \<Longrightarrow> is_digit c \<or> c = CHR ''-''"
    by (cases "i < 0") (auto simp: to_string_def list_all_iff)
qed

lemma to_string_delimited:
  "to_string a @ CHR ''_'' # s = to_string b @ CHR ''_'' # t \<longleftrightarrow> a = b \<and> s = t"
proof
  assume eq: "to_string a @ CHR ''_'' # s = to_string b @ CHR ''_'' # t"
  have n: "CHR ''_'' \<notin> set (to_string i)" for i
    using to_string_chars [of "CHR ''_''" i] by (auto simp: is_digit_def)
  have "takeWhile (\<lambda>c. c \<noteq> CHR ''_'') (to_string i @ CHR ''_'' # r) = to_string i" for i r
    using n [of i] by (subst takeWhile_append2) auto
  from this [of a s] this [of b t] eq show "a = b \<and> s = t"
    by simp
qed simp

lemma message_key_eq: "message_key a b = message_key c d \<longleftrightarrow> (a = c \<and> b = d \<or> a = d \<and> b = c)"
  by (auto simp: message_key_def to_string_delimited)

lemma message_key_swap: "message_key a b = message_key b a"
  by (simp add: message_key_eq)

lemma getMessages_run: "dbw_ok w \<Longrightarrow> holds_messages L w a b xs \<Longrightarrow> getMessages L a b w = (Inr xs, w)"
  unfolding getMessages_def by (rule message_codec.load_run)

section \<open>Properties\<close>

lemma messages_at [simp]:
  "message_of_json (at L t) = message_of_json L" "getMessages (at L t) a b = getMessages L a b"
proof -
  show "message_of_json (at L t) = message_of_json L"
    unfolding message_of_json_def [abs_def] conversions_at ..
  then show "getMessages (at L t) a b = getMessages L a b"
    by (simp add: getMessages_def)
qed

definition put_messages :: "libc \<Rightarrow> int \<Rightarrow> int \<Rightarrow> message list \<Rightarrow> dbw \<Rightarrow> dbw" where
  "put_messages L a b xs w = kv_put (message_key a b) (fastWrite L (json_list message_enc xs)) w"

definition sent_message :: "libc \<Rightarrow> int \<Rightarrow> int \<Rightarrow> string \<Rightarrow> message" where
  "sent_message L a b msg = \<lparr>m_timestamp = getTimestamp L, m_message = msg, m_from = a, m_to = b, m_state = STATE_SENT\<rparr>"

lemma lift_serialize: "lift (message_serialize m) = ret (message_enc m)"
  by (simp add: message_serialize_eq fun_eq_iff)

lemma save_messages_run:
  "dbw_ok w \<Longrightarrow> list_all message_ok xs \<Longrightarrow>
     save_array L message_serialize (message_key a b) xs w = (Inr (), put_messages L a b xs w)"
  unfolding put_messages_def by (rule message_codec.save_run) (simp_all add: message_serialize_eq)

lemma saveMessage_run:
  assumes "dbw_ok w" and "holds_messages L w a b xs" and "long_ok a" and "long_ok b"
  shows "saveMessage L a b msg w =
    (Inr (toStyledString L (message_enc (sent_message L a b msg))), put_messages L a b (xs @ [sent_message L a b msg]) w)"
proof -
  have "list_all message_ok (xs @ [sent_message L a b msg])"
    using assms by (simp add: holds_list_def message_ok_def sent_message_def)
  note S = save_messages_run [OF assms(1) this, of L a b]
  show ?thesis
    using S getMessages_run [OF assms(1,2)]
    by (simp add: saveMessage_def Let_def lift_serialize sent_message_def)
qed

lemma put_messages_holds:
  assumes "dbw_ok w" and "list_all message_ok xs"
  shows "dbw_ok (put_messages L a b xs w)"
    and "message_key c d = message_key a b \<Longrightarrow> holds_messages L (put_messages L a b xs w) c d xs"
    and "message_key c d \<noteq> message_key a b \<Longrightarrow> holds_messages L (put_messages L a b xs w) c d ys \<longleftrightarrow> holds_messages L w c d ys"
  using assms message_codec.holds_put [OF assms, of L "message_key a b"]
    message_codec.holds_put_other [OF assms(1), of "message_key c d" "message_key a b"]
  by (simp_all add: put_messages_def)

text \<open>The invariant: the messages of every pair can be read.\<close>

definition messages_inv :: "libc \<Rightarrow> dbw \<Rightarrow> bool" where
  "messages_inv L w \<longleftrightarrow> dbw_ok w \<and> (\<forall>a b. \<exists>xs. holds_messages L w a b xs)"

definition messages_of :: "libc \<Rightarrow> dbw \<Rightarrow> int \<Rightarrow> int \<Rightarrow> message list" where
  "messages_of L w a b = (case getMessages L a b w of (Inr xs, _) \<Rightarrow> xs | _ \<Rightarrow> [])"

lemma messages_of_holds: "dbw_ok w \<Longrightarrow> holds_messages L w a b xs \<Longrightarrow> messages_of L w a b = xs"
  by (simp add: messages_of_def getMessages_run)

lemma put_messages_inv:
  assumes "messages_inv L w" and "list_all message_ok xs"
  shows "messages_inv L (put_messages L a b xs w)"
    and "messages_of L (put_messages L a b xs w) c d =
      (if c = a \<and> d = b \<or> c = b \<and> d = a then xs else messages_of L w c d)"
proof -
  have ok: "dbw_ok w"
    using assms(1) by (simp add: messages_inv_def)
  note P = put_messages_holds [OF ok assms(2)]
  have ex: "\<exists>ys. holds_messages L w c d ys" for c d
    using assms(1) unfolding messages_inv_def by blast
  then show "messages_inv L (put_messages L a b xs w)"
    unfolding messages_inv_def using P by metis
  show "messages_of L (put_messages L a b xs w) c d =
      (if c = a \<and> d = b \<or> c = b \<and> d = a then xs else messages_of L w c d)"
  proof (cases "message_key c d = message_key a b")
    case True
    then show ?thesis
      using messages_of_holds [OF P(1) P(2) [OF True]] by (simp add: message_key_eq)
  next
    case False
    obtain ys where ys: "holds_messages L w c d ys"
      using ex by blast
    then show ?thesis
      using False messages_of_holds [OF P(1) P(3) [OF False, THEN iffD2, OF ys]] messages_of_holds [OF ok ys]
      by (auto simp: message_key_eq)
  qed
qed

lemma messages_of_swap: "messages_of L w a b = messages_of L w b a"
  by (simp add: messages_of_def getMessages_def message_key_swap)

text \<open>A message sent at a time, and a history of them.\<close>

record send =
  s_time :: int
  s_from :: int
  s_to :: int
  s_text :: string

definition run_send :: "libc \<Rightarrow> dbw \<Rightarrow> send \<Rightarrow> dbw" where
  "run_send L w s = snd (saveMessage (at L (s_time s)) (s_from s) (s_to s) (s_text s) w)"

definition send_message :: "libc \<Rightarrow> send \<Rightarrow> message" where
  "send_message L s = sent_message (at L (s_time s)) (s_from s) (s_to s) (s_text s)"

definition between :: "int \<Rightarrow> int \<Rightarrow> send \<Rightarrow> bool" where
  "between a b s \<longleftrightarrow> s_from s = a \<and> s_to s = b \<or> s_from s = b \<and> s_to s = a"

lemma run_send_spec:
  assumes "messages_inv L w" and "long_ok (s_from s)" and "long_ok (s_to s)"
  shows "messages_inv L (run_send L w s) \<and>
    messages_of L (run_send L w s) a b = messages_of L w a b @ (if between a b s then [send_message L s] else [])"
proof -
  obtain xs where xs: "holds_messages L w (s_from s) (s_to s) xs" and ok: "dbw_ok w"
    using assms(1) unfolding messages_inv_def by blast
  have r: "run_send L w s = put_messages L (s_from s) (s_to s) (xs @ [send_message L s]) w"
  proof -
    have "holds_messages (at L (s_time s)) w (s_from s) (s_to s) xs"
      using xs by (simp add: holds_list_def)
    then show ?thesis
      using saveMessage_run [OF ok _ assms(2,3)] by (simp add: run_send_def send_message_def put_messages_def)
  qed
  have "list_all message_ok (xs @ [send_message L s])"
    using xs assms(2,3) by (simp add: holds_list_def message_ok_def send_message_def sent_message_def)
  note P = put_messages_inv [OF assms(1) this, of "s_from s" "s_to s"]
  have m: "messages_of L w (s_from s) (s_to s) = xs" "messages_of L w (s_to s) (s_from s) = xs"
    using messages_of_holds [OF ok xs] messages_of_swap [of L w] by auto
  show ?thesis
    unfolding r using P m by (auto simp: between_def)
qed

text \<open>
  C11. The history of a conversation: after any sequence of messages sent by and to any users,
  \<open>getMessages\<close> for a pair gives what it gave before followed by exactly the messages of that
  pair, in the order they were sent, whichever of the two asks.
\<close>

theorem messages_history:
  assumes "messages_inv L w" and "\<forall>s \<in> set sends. long_ok (s_from s) \<and> long_ok (s_to s)"
  shows "fst (getMessages L a b (foldl (run_send L) w sends)) =
      Inr (messages_of L w a b @ map (send_message L) (filter (between a b) sends))
    \<and> fst (getMessages L b a (foldl (run_send L) w sends)) = fst (getMessages L a b (foldl (run_send L) w sends))"
proof -
  have "messages_inv L (foldl (run_send L) w sends) \<and>
      messages_of L (foldl (run_send L) w sends) a b = messages_of L w a b @ map (send_message L) (filter (between a b) sends)"
    using assms
  proof (induction sends arbitrary: w)
    case (Cons s sends)
    then show ?case
      using run_send_spec [of L w s a b] by auto
  qed simp
  moreover have "getMessages L a b w' = (Inr (messages_of L w' a b), w')" if inv: "messages_inv L w'" for w'
  proof -
    obtain xs where "holds_messages L w' a b xs" "dbw_ok w'"
      using inv unfolding messages_inv_def by blast
    then show ?thesis
      using messages_of_holds getMessages_run by simp
  qed
  ultimately show ?thesis
    by (simp add: getMessages_def message_key_swap)
qed

lemma messages_inv_empty: "messages_inv L (dbw_of [])"
  by (auto simp: messages_inv_def dbw_of_ok holds_list_def)

theorem messages_history_witness:
  "\<exists>w. fst (getMessages libc_plain 2 1 w) = Inr
     [send_message libc_plain \<lparr>s_time = 5, s_from = 1, s_to = 2, s_text = ''hi''\<rparr>,
      send_message libc_plain \<lparr>s_time = 9, s_from = 2, s_to = 1, s_text = ''yo''\<rparr>]"
proof -
  define sends where "sends = [\<lparr>s_time = 5, s_from = 1, s_to = 2, s_text = ''hi''\<rparr>,
    \<lparr>s_time = 7, s_from = 1, s_to = 3, s_text = ''x''\<rparr>, \<lparr>s_time = 9, s_from = 2, s_to = 1, s_text = ''yo''\<rparr>]"
  have "messages_of libc_plain (dbw_of []) 2 1 = []"
    by (rule messages_of_holds) (simp_all add: dbw_of_ok holds_list_def)
  then have "fst (getMessages libc_plain 2 1 (foldl (run_send libc_plain) (dbw_of []) sends)) =
      Inr (map (send_message libc_plain) (filter (between 2 1) sends))"
    using messages_history [OF messages_inv_empty, of sends libc_plain 2 1]
    by (simp add: sends_def long_ok_def minInt64_def maxInt64_def)
  then show ?thesis
    by (auto simp: sends_def between_def)
qed

lemma mark_received_eq:
  "mark_received a ds m = (if ds \<noteq> [] \<and> m_to m = a then m\<lparr>m_state := STATE_RECEIVED\<rparr> else m)"
  by (induction a ds m rule: mark_received.induct) (auto simp: Let_def)

lemma unread_count: "foldl (\<lambda>n m. if unread a m then n + 1 else n) (k :: int) xs = k + int (length (filter (unread a) xs))"
  by (induction xs arbitrary: k) simp_all

lemma getUnreadCount_run:
  "dbw_ok w \<Longrightarrow> holds_messages L w a b xs \<Longrightarrow> getUnreadCount L a b w = (Inr (int (length (filter (unread a) xs))), w)"
  by (simp add: getUnreadCount_def getMessages_run unread_count)

text \<open>
  \<open>setMessagesAsReceived\<close> with at least one delivered message marks every message of the pair
  that is addressed to the requester as received, whatever was delivered, and changes nothing
  else, so the count of unread messages drops to zero; with none delivered it changes nothing.
\<close>

lemma setMessagesAsReceived_marks_all:
  assumes "dbw_ok w" and "holds_messages L w a b xs"
  shows "\<exists>w'. setMessagesAsReceived L a b delivered w = (Inr (), w') \<and>
    getMessages L a b w' = (Inr (map (\<lambda>m. if delivered \<noteq> [] \<and> m_to m = a then m\<lparr>m_state := STATE_RECEIVED\<rparr> else m) xs), w') \<and>
    getUnreadCount L a b w' = (Inr (if delivered \<noteq> [] then 0 else int (length (filter (unread a) xs))), w')"
proof -
  define ys where "ys = map (mark_received a delivered) xs"
  have ok: "list_all message_ok ys"
    using assms(2) by (auto simp: ys_def holds_list_def list_all_iff mark_received_eq message_ok_def)
  have r: "setMessagesAsReceived L a b delivered w = (Inr (), put_messages L a b ys w)"
    using save_messages_run [OF assms(1) ok, of L a b] getMessages_run [OF assms]
    by (simp add: setMessagesAsReceived_def ys_def)
  note P = put_messages_holds [OF assms(1) ok]
  have H: "holds_messages L (put_messages L a b ys w) a b ys"
    using P(2) by simp
  have "filter (unread a) ys = (if delivered \<noteq> [] then [] else filter (unread a) xs)"
  proof (cases "delivered = []")
    case True
    then show ?thesis
      by (simp add: ys_def map_idI)
  next
    case False
    then have "\<not> unread a (mark_received a delivered m)" for m
      by (simp add: mark_received_eq unread_def STATE_SENT_def STATE_RECEIVED_def)
    then show ?thesis
      using False by (simp add: ys_def filter_empty_conv)
  qed
  moreover have "ys = map (\<lambda>m. if delivered \<noteq> [] \<and> m_to m = a then m\<lparr>m_state := STATE_RECEIVED\<rparr> else m) xs"
    by (simp add: ys_def mark_received_eq)
  ultimately show ?thesis
    using r getMessages_run [OF P(1) H] getUnreadCount_run [OF P(1) H]
    by (intro exI [of _ "put_messages L a b ys w"]) simp
qed

lemma setMessagesAsReceived_marks_all_witness:
  "\<exists>w w'. setMessagesAsReceived libc_plain 2 1 [] w = (Inr (), w') \<and> getUnreadCount libc_plain 2 1 w' = (Inr 0, w')"
  using setMessagesAsReceived_marks_all [OF dbw_of_ok [of "[]"], of libc_plain 2 1 "[]" "[]"]
  by (auto simp: holds_list_def)

text \<open>
  The notification token of a user: the last one set, and the exception
  \<open>NonexistentNotificationToken\<close> before any was.
\<close>

lemma notification_token:
  assumes "dbw_ok w"
  shows "fst (getTokenByUserId b (snd (setOrUpdateToken a token w))) =
      (if b = a then Inr token else fst (getTokenByUserId b w))
    \<and> (kv w (notification_key a) = None \<longrightarrow> getTokenByUserId a w = (Inl (NonexistentNotificationToken a), w))"
  using assms by (simp add: getTokenByUserId_def setOrUpdateToken_def notification_key_def split: option.split)

lemma notification_token_witness:
  "getTokenByUserId 3 (dbw_of []) = (Inl (NonexistentNotificationToken 3), dbw_of [])"
  using notification_token [OF dbw_of_ok [of "[]"]] by simp

end
