(* ===== verification/Person_Manager.thy ===== *)
theory Person_Manager
  imports Recommendations Messages
begin

text \<open>
  \<open>PersonManager\<close> (\<open>person/PersonManager.cpp\<close>): registering, changing and removing users with
  their indexes by identifier, name, skill and job position, the searches, and the operations
  that check the users of a request before they call the other managers.
\<close>

section \<open>Identifiers and lists of mails\<close>

text \<open>\<open>std::getline\<close> in a loop: a delimiter at the very end does not start another item.\<close>

function split2 :: "string \<Rightarrow> char \<Rightarrow> string list \<Rightarrow> string list" where
  "split2 [] delim elems = elems"
| "split2 (c # s) delim elems =
     split2 (tl (dropWhile (\<lambda>x. x \<noteq> delim) (c # s))) delim (elems @ [takeWhile (\<lambda>x. x \<noteq> delim) (c # s)])"
  by pat_completeness auto
termination
proof (relation "measure (\<lambda>(s, _, _). length s)")
  fix c delim :: char and s :: string and elems :: "string list"
  have "length (dropWhile (\<lambda>x. x \<noteq> delim) s) \<le> length s"
    by (rule length_dropWhile_le)
  then show "((tl (dropWhile (\<lambda>x. x \<noteq> delim) (c # s)), delim, elems @ [takeWhile (\<lambda>x. x \<noteq> delim) (c # s)]), c # s, delim, elems)
      \<in> measure (\<lambda>(s, _, _). length s)"
    by auto
qed simp

definition split :: "string \<Rightarrow> char \<Rightarrow> string list" where
  "split s delim = split2 s delim []"

text \<open>A \<open>long\<close> has 64 bits.\<close>

definition generateID :: "int prog" where
  "generateID = bnd (lookupKey ''lastID'') (\<lambda>last_id. case last_id of
       None \<Rightarrow> seq (put ''lastID'' (to_string 1)) (ret 1)
     | Some s \<Rightarrow> bnd (lift (stol s)) (\<lambda>n.
         let new_last_id = signed_take_bit 63 (n + 1) in seq (put ''lastID'' (to_string new_last_id)) (ret new_last_id)))"

section \<open>The indexes by skill and by position\<close>

definition add_mail :: "string prog \<Rightarrow> string \<Rightarrow> string prog" where
  "add_mail current user_mail = handle (bnd current (\<lambda>users_mail. ret (users_mail @ '','' @ user_mail)))
     (\<lambda>e. if e = Key_not_found then ret user_mail else raise e)"

definition saveSkill :: "skill \<Rightarrow> string \<Rightarrow> unit prog" where
  "saveSkill skill user_mail = (let skill_name = lower (sk_name skill) in
     bnd (add_mail (getUserSkillKey skill_name) user_mail) (\<lambda>users_mail. saveUserSkillKey skill_name users_mail))"

definition saveSkills :: "skill list \<Rightarrow> string \<Rightarrow> unit prog" where
  "saveSkills user_newSkills user_mail = for_each user_newSkills (\<lambda>s. saveSkill s user_mail)"

definition savePosition :: "string \<Rightarrow> string \<Rightarrow> unit prog" where
  "savePosition position_title user_mail =
     bnd (add_mail (getUserJobPositionKey position_title) user_mail) (\<lambda>users_mail. saveUserJobPositionKey position_title users_mail)"

definition savePositions :: "workHistory list \<Rightarrow> string \<Rightarrow> unit prog" where
  "savePositions positions user_mail = for_each positions (\<lambda>h. savePosition (lower (wh_positionTitle h)) user_mail)"

text \<open>The loops that write a list of mails again without one of them.\<close>

definition without_mail :: "string \<Rightarrow> string list \<Rightarrow> string" where
  "without_mail user_mail mails = foldl (\<lambda>new_users m. if user_mail = m then new_users
     else if new_users = '''' then new_users @ m else new_users @ '','' @ m) '''' mails"

definition deleteUserFromSkill :: "string \<Rightarrow> string \<Rightarrow> unit prog" where
  "deleteUserFromSkill skill_name user_mail = handle
     (bnd (getUserSkillKey skill_name) (\<lambda>output.
      let new_users = without_mail user_mail (split output (CHR '','')) in
      if new_users = '''' then deleteUserSkillKey skill_name else saveUserSkillKey skill_name new_users))
     (\<lambda>e. if e = Key_not_found then raise BadImplementation else raise e)"

text \<open>The key that is read is in lower case, those that are written are not, and the key that is deleted is of a skill.\<close>

definition deleteUserFromJobPosition :: "string \<Rightarrow> string \<Rightarrow> unit prog" where
  "deleteUserFromJobPosition job_position user_mail = handle
     (bnd (getUserJobPositionKey (lower job_position)) (\<lambda>output.
      let new_users = without_mail user_mail (split output (CHR '','')) in
      if new_users = '''' then deleteUserSkillKey job_position else saveUserJobPositionKey job_position new_users))
     (\<lambda>e. if e = Key_not_found then raise BadImplementation else raise e)"

section \<open>Saving, updating and deleting\<close>

definition savePerson :: "libc \<Rightarrow> json \<Rightarrow> int \<Rightarrow> int prog" where
  "savePerson L juser_new_information forceID =
     bnd (lift (person_deserialize L juser_new_information)) (\<lambda>user0.
     bnd (userExistsMail (p_email user0)) (\<lambda>exists.
     if exists then raise UserAlreadyExists
     else bnd (if forceID \<noteq> -1 then ret forceID else generateID) (\<lambda>uniqueId.
       let user = user0\<lparr>p_id := uniqueId, p_totRecommendations := 0\<rparr>; user_mail = p_email user in
       seq (saveUser L user) (seq (saveUserNameKey user) (seq (saveUserIdKey user) (seq (saveUserPasswordKey user)
       (seq (saveSkills (p_skills user) user_mail) (seq (savePositions (p_workHistory user) user_mail)
       (seq (case getCurrentJob user of None \<Rightarrow> ret () | Some job \<Rightarrow> savePosition (wh_positionTitle job) user_mail)
       (ret uniqueId))))))))))"

definition updateName :: "person \<Rightarrow> person \<Rightarrow> unit prog" where
  "updateName new_user old_user = if_do (getFullName old_user \<noteq> getFullName new_user)
     (seq (deleteUserNameKey old_user) (saveUserNameKey new_user))"

definition updateSkills :: "person \<Rightarrow> person \<Rightarrow> unit prog" where
  "updateSkills new_user old_user =
     seq (for_each (p_skills new_user) (\<lambda>s.
            if_do (\<not> list_ex (\<lambda>s'. sk_name s' = lower (sk_name s)) (p_skills old_user)) (saveSkill s (p_email new_user))))
         (for_each (p_skills old_user) (\<lambda>s.
            if_do (\<not> list_ex (\<lambda>s'. sk_name s = sk_name s') (p_skills new_user)) (deleteUserFromSkill (sk_name s) (p_email new_user))))"

definition updateWorkHistory :: "person \<Rightarrow> person \<Rightarrow> unit prog" where
  "updateWorkHistory new_user old_user =
     seq (for_each (p_workHistory new_user) (\<lambda>h.
            if_do (\<not> list_ex (\<lambda>h'. wh_positionTitle h' = lower (wh_positionTitle h)) (p_workHistory old_user))
              (savePosition (lower (wh_positionTitle h)) (p_email new_user))))
         (for_each (p_workHistory old_user) (\<lambda>h.
            if_do (\<not> list_ex (\<lambda>h'. wh_positionTitle h = wh_positionTitle h') (p_workHistory new_user))
              (deleteUserFromJobPosition (wh_positionTitle h) (p_email new_user))))"

definition updatePassword :: "person \<Rightarrow> person \<Rightarrow> unit prog" where
  "updatePassword new_user old_user = if_do (p_password old_user \<noteq> p_password new_user)
     (seq (deleteUserPasswordKey old_user) (saveUserPasswordKey new_user))"

fun is_UserNotFound :: "exn \<Rightarrow> bool" where
  "is_UserNotFound (UserNotFound_id _) = True"
| "is_UserNotFound (UserNotFound_mail _) = True"
| "is_UserNotFound _ = False"

text \<open>For an unknown identifier the profile is read after it was freed.\<close>

definition updateUser :: "libc \<Rightarrow> json \<Rightarrow> int prog" where
  "updateUser L juser_new_information =
     bnd (lift (person_deserialize L juser_new_information)) (\<lambda>user0.
     bnd (handle (getUserById L (p_id user0)) (\<lambda>e. if is_UserNotFound e then raise Bad_pointer else raise e)) (\<lambda>old_user.
     let user1 = user0\<lparr>p_email := p_email old_user\<rparr> in
     seq (updateName user1 old_user) (seq (updateSkills user1 old_user) (seq (updateWorkHistory user1 old_user)
     (let user2 = user1\<lparr>p_totRecommendations := p_totRecommendations old_user\<rparr> in
      bnd (if p_password user2 = '''' then ret (user2\<lparr>p_password := p_password old_user\<rparr>)
           else seq (updatePassword user2 old_user) (ret user2)) (\<lambda>user3.
      let user4 = (if location_isEmpty (p_location user3) then user3\<lparr>p_location := p_location old_user\<rparr> else user3) in
      seq (saveUser L user4) (ret (p_id user4))))))))"

fun is_std_exception :: "exn \<Rightarrow> bool" where
  "is_std_exception (InvalidRequest _) = False"
| "is_std_exception Bad_pointer = False"
| "is_std_exception (Thrown_text _) = False"
| "is_std_exception _ = True"

definition deletePerson :: "libc \<Rightarrow> int \<Rightarrow> unit prog" where
  "deletePerson L ident = bnd (getUserById L ident) (\<lambda>user. handle
     (seq (deleteUserIdKey user) (seq (deleteUserNameKey user) (seq (deleteUserPasswordKey user)
     (seq (for_each (p_skills user) (\<lambda>s. deleteUserFromSkill (sk_name s) (p_email user)))
     (seq (for_each (p_workHistory user) (\<lambda>h. deleteUserFromJobPosition (wh_positionTitle h) (p_email user)))
     (deleteUser user))))))
     (\<lambda>e. if is_std_exception e then raise (UserNotFound_id ident) else raise e))"

section \<open>Searches\<close>

text \<open>The entries with a value from one key up to another.\<close>

definition scan :: "string \<Rightarrow> string \<Rightarrow> (string \<times> string) list prog" where
  "scan startSlice endSlice = bnd (newIterator_from startSlice) (\<lambda>es.
     ret (filter (\<lambda>(k, v). v \<noteq> '''') (takeWhile (\<lambda>(k, v). k < endSlice) es)))"

definition user_of_text :: "libc \<Rightarrow> string \<Rightarrow> person res" where
  "user_of_text L s = res_bind (getJsonFromString L s) (person_deserialize L)"

definition getAllUsers :: "libc \<Rightarrow> person list prog" where
  "getAllUsers L = bnd (scan USER_MAIL_ID USER_NAME_ID) (\<lambda>es. lift (res_map (\<lambda>(k, v). user_of_text L v) es))"

text \<open>The loop ends at the end of the database: the comparison with the end key lacks its \<open>< 0\<close>.\<close>

definition getAllUsersIds :: "int list prog" where
  "getAllUsersIds = bnd (newIterator_from USER_UUID_ID) (\<lambda>es.
     lift (res_map (\<lambda>(k, v). stol (drop (length USER_UUID_ID) k))
       (filter (\<lambda>(k, v). v \<noteq> '''') (takeWhile (\<lambda>(k, v). k \<noteq> USER_MAIL_ID) es))))"

text \<open>\<open>v[i]\<close> on a vector, where an index out of range is undefined.\<close>

definition elem_at :: "'a list \<Rightarrow> nat \<Rightarrow> 'a res" where
  "elem_at xs i = (if i < length xs then Inr (xs ! i) else Inl Bad_pointer)"

definition regex_around :: "libc \<Rightarrow> string \<Rightarrow> string res" where
  "regex_around L s = (let e = ''(.*)('' @ s @ '')(.*)'' in if regex_valid L e then Inr e else Inl Std_regex_error)"

definition users_of_index :: "libc \<Rightarrow> string prog \<Rightarrow> (person \<Rightarrow> bool) \<Rightarrow> person list prog" where
  "users_of_index L index keep = bnd (handle (bnd index (\<lambda>s. ret (Some (split s (CHR '','')))))
       (\<lambda>e. if e = Key_not_found then ret None else raise e)) (\<lambda>mails. case mails of
       None \<Rightarrow> ret []
     | Some mails \<Rightarrow> bnd (map_prog (getUserByMail L) mails) (\<lambda>users. ret (filter keep users)))"

definition searchBySkill :: "libc \<Rightarrow> string list \<Rightarrow> person list prog" where
  "searchBySkill L skills_search = bnd (lift (elem_at skills_search 0)) (\<lambda>first.
     users_of_index L (getUserSkillKey (lower first)) (\<lambda>p. has_every_skill p skills_search))"

definition searchByJobPosition :: "libc \<Rightarrow> string list \<Rightarrow> person list prog" where
  "searchByJobPosition L job_positions0 = (let job_positions = map lower job_positions0 in
     bnd (lift (elem_at job_positions 0)) (\<lambda>first.
     users_of_index L (getUserJobPositionKey first) (\<lambda>p. has_every_position p job_positions)))"

definition searchByMail :: "libc \<Rightarrow> string list \<Rightarrow> person list prog" where
  "searchByMail L user_mail = bnd (lift (elem_at user_mail 0)) (\<lambda>user_search.
     bnd (lift (regex_around L (lower user_search))) (\<lambda>e.
     bnd (scan USER_MAIL_ID USER_NAME_ID) (\<lambda>es.
     lift (res_map (\<lambda>(k, v). user_of_text L v) (filter (\<lambda>(k, v). regex_match L e k) es)))))"

definition search_location :: "libc \<Rightarrow> string list \<Rightarrow> (location \<times> double) res" where
  "search_location L distance_search =
     res_bind (res_bind (elem_at distance_search 0) (stod L)) (\<lambda>latitud.
     res_bind (res_bind (elem_at distance_search 1) (stod L)) (\<lambda>longitud.
     res_bind (res_bind (elem_at distance_search 2) (stod L)) (\<lambda>max_distance.
     Inr (\<lparr>latitude = latitud, longitude = longitud\<rparr>, max_distance))))"

definition searchByDistance :: "libc \<Rightarrow> string list \<Rightarrow> person list prog" where
  "searchByDistance L distance_search = bnd (lift (search_location L distance_search)) (\<lambda>(loc, max_distance).
     bnd (scan USER_MAIL_ID USER_NAME_ID) (\<lambda>es.
     bnd (lift (res_map (\<lambda>(k, v). user_of_text L v) es)) (\<lambda>users.
     ret (filter (\<lambda>p. double_le L (getDistanceFrom L loc (p_location p)) (double_sq L max_distance)) users))))"

definition getCleanName_FromKey :: "string \<Rightarrow> string res" where
  "getCleanName_FromKey key = res_bind (elem_at (split key (CHR ''_'')) 1) (\<lambda>full_name.
     Inr (butlast (concat (map (\<lambda>part. part @ '' '') (split full_name (CHR ''-''))))))"

definition searchByName :: "libc \<Rightarrow> string list \<Rightarrow> person list prog" where
  "searchByName L user_searchName = bnd (lift (elem_at user_searchName 0)) (\<lambda>user_search.
     bnd (lift (regex_around L (lower user_search))) (\<lambda>e.
     bnd (scan USER_NAME_ID USER_PASSWORD) (\<lambda>es.
     bnd (map_prog (\<lambda>(k, v). bnd (lift (getCleanName_FromKey k)) (\<lambda>clean_full_name.
       if regex_match L e clean_full_name then bnd (getUserByMail L v) (\<lambda>p. ret [p]) else ret [])) es) (\<lambda>found.
     ret (concat found)))))"

text \<open>
  The criteria of a search; the first one that is present searches, the others drop
  users, with other comparisons than when they search.
\<close>

record search_values =
  sv_skill :: "string list option"
  sv_position :: "string list option"
  sv_mail :: "string list option"
  sv_name :: "string list option"
  sv_distance :: "string list option"

definition search_or_filter ::
  "string list option \<Rightarrow> (string list \<Rightarrow> person list prog) \<Rightarrow> (string list \<Rightarrow> (person \<Rightarrow> bool) res) \<Rightarrow>
   person list option \<Rightarrow> person list option prog" where
  "search_or_filter criterion search keep partial_result = (case criterion of
       None \<Rightarrow> ret partial_result
     | Some values \<Rightarrow> (case partial_result of
         None \<Rightarrow> bnd (search values) (\<lambda>users. ret (Some users))
       | Some users \<Rightarrow> bnd (lift (keep values)) (\<lambda>P. ret (Some (filter P users)))))"

definition keep_by_mail :: "libc \<Rightarrow> string list \<Rightarrow> (person \<Rightarrow> bool) res" where
  "keep_by_mail L mails = res_bind (elem_at mails 0) (\<lambda>search_mail. res_bind (regex_around L search_mail) (\<lambda>e.
     Inr (\<lambda>p. regex_match L e (p_email p))))"

definition keep_by_name :: "libc \<Rightarrow> string list \<Rightarrow> (person \<Rightarrow> bool) res" where
  "keep_by_name L names = res_bind (elem_at names 0) (\<lambda>search_name. res_bind (regex_around L (lower search_name)) (\<lambda>e.
     Inr (\<lambda>p. regex_match L e (p_firstName p) \<or> regex_match L e (p_lastName p))))"

definition keep_by_distance :: "libc \<Rightarrow> string list \<Rightarrow> (person \<Rightarrow> bool) res" where
  "keep_by_distance L distance_search = res_bind (search_location L distance_search) (\<lambda>(loc, max_distance).
     Inr (\<lambda>p. \<not> double_gt L (getDistanceFrom L loc (p_location p)) max_distance))"

definition search_users_by :: "libc \<Rightarrow> search_values \<Rightarrow> person list prog" where
  "search_users_by L values =
     bnd (search_or_filter (sv_skill values) (searchBySkill L) (\<lambda>_. Inr (\<lambda>_. True)) None) (\<lambda>by_skill.
     bnd (search_or_filter (sv_position values) (searchByJobPosition L) (\<lambda>ps. Inr (\<lambda>p. has_every_position p ps)) by_skill) (\<lambda>by_position.
     bnd (search_or_filter (sv_mail values) (searchByMail L) (keep_by_mail L) by_position) (\<lambda>by_mail.
     bnd (search_or_filter (sv_name values) (searchByName L) (keep_by_name L) by_mail) (\<lambda>by_name.
     bnd (search_or_filter (sv_distance values) (searchByDistance L) (keep_by_distance L) by_name) (\<lambda>by_distance.
     ret (case by_distance of None \<Rightarrow> [] | Some users \<Rightarrow> users))))))"

section \<open>Requests between users\<close>

definition ensure :: "bool \<Rightarrow> exn \<Rightarrow> unit prog" where
  "ensure b e = if_do (\<not> b) (raise e)"

definition need_user :: "int \<Rightarrow> unit prog" where
  "need_user uid = bnd (userExists uid) (\<lambda>b. ensure b (UserNotFound_id uid))"

definition validateUsersOfRequest :: "int \<Rightarrow> int \<Rightarrow> unit prog" where
  "validateUsersOfRequest fromUserId toUserId = seq (need_user fromUserId) (seq (need_user toUserId)
     (ensure (fromUserId \<noteq> toUserId) (InvalidRequest ''From user and to user cannot be equals'')))"

definition pm_getContactsByUserId :: "libc \<Rightarrow> int \<Rightarrow> contact list prog" where
  "pm_getContactsByUserId L ident = seq (need_user ident) (getContactsByUserId L ident)"

definition saveOrUpdateRelation :: "libc \<Rightarrow> json \<Rightarrow> unit prog" where
  "saveOrUpdateRelation L jrelation =
     bnd (lift (long_member L jrelation ''author_id'')) (\<lambda>authorId.
     bnd (lift (long_member L jrelation ''contact_id'')) (\<lambda>contactId.
     seq (need_user authorId) (seq (need_user contactId)
     (seq (ensure (authorId \<noteq> contactId) (InvalidRequest ''Author user and contact user cannot be equals''))
     (bnd (lift (str_member L jrelation ''action'')) (\<lambda>action. saveRelation L authorId contactId action))))))"

definition saveRecommendation :: "libc \<Rightarrow> json \<Rightarrow> unit prog" where
  "saveRecommendation L recommendation =
     bnd (lift (long_member L recommendation ''from'')) (\<lambda>fromUserId.
     bnd (lift (long_member L recommendation ''to'')) (\<lambda>toUserId.
     seq (validateUsersOfRequest fromUserId toUserId) (addRecommendation L fromUserId toUserId)))"

definition pm_getRecommendationsByUserId :: "libc \<Rightarrow> int \<Rightarrow> json prog" where
  "pm_getRecommendationsByUserId L userId = getRecommendationsAsJson L userId"

definition pm_removeRecommendation :: "libc \<Rightarrow> int \<Rightarrow> int \<Rightarrow> unit prog" where
  "pm_removeRecommendation L fromUserId toUserId =
     seq (validateUsersOfRequest fromUserId toUserId) (removeRecommendation L fromUserId toUserId)"

definition pm_saveMessage :: "libc \<Rightarrow> json \<Rightarrow> string prog" where
  "pm_saveMessage L request =
     bnd (lift (long_member L request ''from'')) (\<lambda>fromUserId.
     bnd (lift (long_member L request ''to'')) (\<lambda>toUserId.
     bnd (lift (str_member L request ''message'')) (\<lambda>messageToSave.
     seq (validateUsersOfRequest fromUserId toUserId) (saveMessage L fromUserId toUserId messageToSave))))"

definition pm_getMessages :: "libc \<Rightarrow> int \<Rightarrow> int \<Rightarrow> message list prog" where
  "pm_getMessages L fromUserId toUserId = seq (validateUsersOfRequest fromUserId toUserId) (getMessages L fromUserId toUserId)"

definition pm_setMessagesAsReceived :: "libc \<Rightarrow> int \<Rightarrow> int \<Rightarrow> message list \<Rightarrow> unit prog" where
  "pm_setMessagesAsReceived L fromUserId toUserId deliveredMessages = setMessagesAsReceived L fromUserId toUserId deliveredMessages"

definition getNotificationTokenByUserId :: "int \<Rightarrow> string prog" where
  "getNotificationTokenByUserId userId = seq (need_user userId) (getTokenByUserId userId)"

definition setOrUpdateNotificationToken :: "libc \<Rightarrow> json \<Rightarrow> int \<Rightarrow> unit prog" where
  "setOrUpdateNotificationToken L request userId =
     bnd (lift (isMember request ''token'')) (\<lambda>present.
     seq (ensure present (InvalidRequest ''Missing token'')) (seq (need_user userId)
     (bnd (lift (str_member L request ''token'')) (\<lambda>token. setOrUpdateToken userId token))))"

definition getAllConversations :: "libc \<Rightarrow> int \<Rightarrow> conversation list prog" where
  "getAllConversations L userId = bnd getAllUsersIds (\<lambda>ids.
     bnd (map_prog (\<lambda>uid.
       if userId = uid then ret []
       else bnd (getMessages L userId uid) (\<lambda>messages.
         if messages = [] then ret []
         else bnd (getUserById L uid) (\<lambda>person.
              bnd (getUnreadCount L userId uid) (\<lambda>n.
              ret [\<lparr>cv_with = uid, cv_firstName = p_firstName person, cv_lastName = p_lastName person, cv_unreadCount = n\<rparr>])))) ids) (\<lambda>cs.
     ret (concat cs)))"

section \<open>Lists of mails\<close>

definition mail_ok :: "string \<Rightarrow> bool" where
  "mail_ok m \<longleftrightarrow> m \<noteq> '''' \<and> CHR '','' \<notin> set m"

definition mails_text :: "string list \<Rightarrow> string" where
  "mails_text ms = join (CHR '','') ms"

lemma split2_acc: "split2 s d (pre @ elems) = pre @ split2 s d elems"
proof (induction s d elems rule: split2.induct)
  case (2 c s d elems)
  then show ?case
    unfolding split2.simps by (simp only: append.assoc)
qed simp

lemma split_Cons:
  "m \<noteq> '''' \<Longrightarrow> d \<notin> set m \<Longrightarrow> split (m @ d # s) d = m # split s d" "m \<noteq> '''' \<Longrightarrow> d \<notin> set m \<Longrightarrow> split m d = [m]"
proof -
  assume m: "m \<noteq> ''''" "d \<notin> set m"
  then obtain c m' where c: "m = c # m'"
    by (cases m) auto
  have "takeWhile (\<lambda>x. x \<noteq> d) (m @ d # s) = m" "dropWhile (\<lambda>x. x \<noteq> d) (m @ d # s) = d # s"
    using m(2) by (subst takeWhile_append2 dropWhile_append2; auto)+
  then show "split (m @ d # s) d = m # split s d"
    unfolding split_def c append_Cons split2.simps using split2_acc [of s d "[m]" "[]"] by (simp add: c)
  have "takeWhile (\<lambda>x. x \<noteq> d) m = m" "dropWhile (\<lambda>x. x \<noteq> d) m = []"
    using m(2) by (auto simp: takeWhile_eq_all_conv dropWhile_eq_Nil_conv)
  then show "split m d = [m]"
    unfolding split_def c split2.simps by simp
qed

lemma split_mails: "list_all mail_ok ms \<Longrightarrow> split (mails_text ms) (CHR '','') = ms"
  unfolding mails_text_def
proof (induction "CHR '',''" ms rule: join.induct)
  case 1
  then show ?case
    by (simp add: split_def)
next
  case (2 f)
  then show ?case
    by (simp add: mail_ok_def split_Cons)
next
  case (3 f g fs)
  then show ?case
    by (simp add: mail_ok_def split_Cons del: split2.simps)
qed

lemma mails_text_Nil [simp]: "list_all mail_ok ms \<Longrightarrow> mails_text ms = '''' \<longleftrightarrow> ms = []"
  unfolding mails_text_def by (induction "CHR '',''" ms rule: join.induct) (auto simp: mail_ok_def)

lemma mails_text_snoc: "ms \<noteq> [] \<Longrightarrow> mails_text (ms @ [m]) = mails_text ms @ '','' @ m"
  unfolding mails_text_def by (induction "CHR '',''" ms rule: join.induct) (auto simp: neq_Nil_conv)

lemma without_mail_eq: "list_all mail_ok ms \<Longrightarrow> without_mail m ms = mails_text (filter (\<lambda>x. x \<noteq> m) ms)"
proof (induction ms rule: rev_induct)
  case (snoc x ms)
  then have "list_all mail_ok (filter (\<lambda>x. x \<noteq> m) ms)"
    by (auto simp: list_all_iff)
  then show ?case
    using snoc by (auto simp: without_mail_def mails_text_snoc) (simp add: mails_text_def)
qed (simp add: without_mail_def mails_text_def)

section \<open>The index by skill\<close>

text \<open>The mails in the index of a skill, and the sequence of changes that requests make.\<close>

definition skill_index :: "dbw \<Rightarrow> string \<Rightarrow> string list \<Rightarrow> bool" where
  "skill_index w name ms \<longleftrightarrow> list_all mail_ok ms \<and>
     kv w (USER_SKILL @ name) = (if ms = [] then None else Some (mails_text ms))"

lemma index_unfold [simp]:
  "saveUserSkillKey name v = put (USER_SKILL @ name) v" "deleteUserSkillKey name = delete (USER_SKILL @ name)"
  "saveUserJobPositionKey name v = put (USER_JOBPOSITION @ name) v"
  by (simp_all add: saveUserSkillKey_def deleteUserSkillKey_def saveUserJobPositionKey_def)

lemma add_mail_run:
  "current w = (Inr s, w) \<Longrightarrow> add_mail current m w = (Inr (s @ '','' @ m), w)"
  "current w = (Inl Key_not_found, w) \<Longrightarrow> add_mail current m w = (Inr m, w)"
  by (simp_all add: add_mail_def)

lemma getUserSkillKey_run:
  "dbw_ok w \<Longrightarrow> getUserSkillKey name w = (case kv w (USER_SKILL @ name) of None \<Rightarrow> Inl Key_not_found | Some s \<Rightarrow> Inr s, w)"
  by (simp add: getUserSkillKey_def split: option.split)

lemma getUserJobPositionKey_run:
  "dbw_ok w \<Longrightarrow> getUserJobPositionKey name w = (case kv w (USER_JOBPOSITION @ name) of None \<Rightarrow> Inl Key_not_found | Some s \<Rightarrow> Inr s, w)"
  by (simp add: getUserJobPositionKey_def split: option.split)

lemma saveSkill_run:
  assumes "dbw_ok w" "skill_index w name ms" "mail_ok m" "lower (sk_name s) = name"
  shows "saveSkill s m w = (Inr (), kv_put (USER_SKILL @ name) (mails_text (ms @ [m])) w)"
  using assms by (cases "ms = []")
    (simp_all add: saveSkill_def add_mail_run getUserSkillKey_run skill_index_def mails_text_snoc, simp add: mails_text_def)

lemma deleteUserFromSkill_run:
  assumes "dbw_ok w" "skill_index w name ms"
  shows "deleteUserFromSkill name m w = (if ms = [] then (Inl BadImplementation, w) else
     (Inr (), if filter (\<lambda>x. x \<noteq> m) ms = [] then kv_del (USER_SKILL @ name) w
      else kv_put (USER_SKILL @ name) (mails_text (filter (\<lambda>x. x \<noteq> m) ms)) w))"
proof -
  have "list_all mail_ok ms" "list_all mail_ok (filter (\<lambda>x. x \<noteq> m) ms)"
    using assms(2) by (auto simp: skill_index_def list_all_iff)
  then show ?thesis
    using assms by (auto simp: deleteUserFromSkill_def getUserSkillKey_run skill_index_def split_mails without_mail_eq handle_def Let_def)
qed

text \<open>
  C27. The index of a skill is a list of mails: \<open>saveSkill\<close> puts the mail at its end, and
  \<open>deleteUserFromSkill\<close> removes every occurrence of the mail and the entry with the last one; on a skill
  without an entry it raises \<open>BadImplementationException\<close>. Nothing else changes.
\<close>

theorem skill_index_refines:
  assumes "dbw_ok w" and "skill_index w name ms" and "mail_ok m" and "lower (sk_name s) = name"
  shows "(\<exists>w'. saveSkill s m w = (Inr (), w') \<and> skill_index w' name (ms @ [m]) \<and> dbw_ok w'
       \<and> (\<forall>k. k \<noteq> USER_SKILL @ name \<longrightarrow> kv w' k = kv w k))
    \<and> (if ms = [] then deleteUserFromSkill name m w = (Inl BadImplementation, w)
       else (\<exists>w'. deleteUserFromSkill name m w = (Inr (), w') \<and> skill_index w' name (filter (\<lambda>x. x \<noteq> m) ms) \<and> dbw_ok w'
         \<and> (\<forall>k. k \<noteq> USER_SKILL @ name \<longrightarrow> kv w' k = kv w k)))"
proof -
  have "list_all mail_ok ms" "list_all mail_ok (filter (\<lambda>x. x \<noteq> m) ms)"
    using assms(2) by (auto simp: skill_index_def list_all_iff)
  then show ?thesis
    using assms saveSkill_run [OF assms] deleteUserFromSkill_run [OF assms(1,2), of m] by (auto simp: skill_index_def)
qed

theorem skill_index_refines_witness:
  "\<exists>w'. deleteUserFromSkill ''c'' ''a@x'' (dbw_of [(''user:skill_c'', ''a@x,b@x'')]) = (Inr (), w') \<and> skill_index w' ''c'' [''b@x'']"
proof -
  have "skill_index (dbw_of [(''user:skill_c'', ''a@x,b@x'')]) ''c'' [''a@x'', ''b@x'']" "mail_ok ''a@x''"
    by (simp_all add: skill_index_def mail_ok_def mails_text_def key_defs)
  moreover have "lower (sk_name \<lparr>sk_name = ''c'', sk_description = '''', sk_category = ''''\<rparr>) = ''c''"
    by code_simp
  ultimately show ?thesis
    using skill_index_refines [of "dbw_of [(''user:skill_c'', ''a@x,b@x'')]" "''c''" "[''a@x'', ''b@x'']" "''a@x''"
        "\<lparr>sk_name = ''c'', sk_description = '''', sk_category = ''''\<rparr>"]
    by (auto simp: dbw_of_ok)
qed

section \<open>Registering\<close>

text \<open>A program that succeeds and changes only some keys.\<close>

definition only_changes :: "(string \<Rightarrow> bool) \<Rightarrow> unit prog \<Rightarrow> bool" where
  "only_changes K p \<longleftrightarrow> (\<forall>w. dbw_ok w \<longrightarrow> (\<exists>w'. p w = (Inr (), w') \<and> dbw_ok w' \<and> (\<forall>k. \<not> K k \<longrightarrow> kv w' k = kv w k)))"

named_theorems frames

lemma only_changes_ret [frames]: "only_changes K (ret ())"
  by (simp add: only_changes_def)

lemma only_changes_put [frames]: "K key \<Longrightarrow> only_changes K (put key v)"
  by (auto simp: only_changes_def)

lemma only_changes_seq [frames]: "only_changes K p \<Longrightarrow> only_changes K q \<Longrightarrow> only_changes K (seq p q)"
  unfolding only_changes_def by (metis seq_Inr)

lemma only_changes_for_each [frames]: "(\<And>x. x \<in> set xs \<Longrightarrow> only_changes K (f x)) \<Longrightarrow> only_changes K (for_each xs f)"
  by (induction xs) (auto intro: frames)

definition index_key :: "string \<Rightarrow> bool" where
  "index_key k \<longleftrightarrow> (\<exists>x. k = USER_SKILL @ x \<or> k = USER_JOBPOSITION @ x)"

lemma only_changes_saveSkill [frames]: "only_changes index_key (saveSkill s m)"
proof -
  have "saveSkill s m w = put (USER_SKILL @ lower (sk_name s)) (case kv w (USER_SKILL @ lower (sk_name s)) of
      None \<Rightarrow> m | Some v \<Rightarrow> v @ '','' @ m) w" if "dbw_ok w" for w
    using that by (simp add: saveSkill_def Let_def add_mail_run getUserSkillKey_run split: option.split)
  then show ?thesis
    by (auto simp: only_changes_def index_key_def)
qed

lemma only_changes_savePosition [frames]: "only_changes index_key (savePosition t m)"
proof -
  have "savePosition t m w = put (USER_JOBPOSITION @ t) (case kv w (USER_JOBPOSITION @ t) of
      None \<Rightarrow> m | Some v \<Rightarrow> v @ '','' @ m) w" if "dbw_ok w" for w
    using that by (simp add: savePosition_def add_mail_run getUserJobPositionKey_run split: option.split)
  then show ?thesis
    by (auto simp: only_changes_def index_key_def)
qed

lemma index_key_apart:
  "\<not> index_key (USER_MAIL_ID @ x)" "\<not> index_key (USER_NAME_ID @ x)" "\<not> index_key (USER_UUID_ID @ x)"
  "\<not> index_key (USER_PASSWORD @ x)" "\<not> index_key ''lastID''"
  by (simp_all add: index_key_def key_defs)

text \<open>The last identifier that was issued.\<close>

definition last_id :: "dbw \<Rightarrow> int \<Rightarrow> bool" where
  "last_id w n \<longleftrightarrow> 0 \<le> n \<and> (kv w ''lastID'' = Some (to_string n) \<or> kv w ''lastID'' = None \<and> n = 0)"

lemma generateID_run:
  assumes "dbw_ok w" and "last_id w n" and "n < maxInt64"
  shows "generateID w = (Inr (n + 1), kv_put ''lastID'' (to_string (n + 1)) w)"
proof -
  have "stol (to_string n) = Inr n" and "signed_take_bit 63 (n + 1) = n + 1"
    using assms(2,3) stol_to_string [of n]
    by (auto simp: last_id_def minInt64_def maxInt64_def intro!: signed_take_bit_int_eq_self)
  then show ?thesis
    using assms by (auto simp: generateID_def last_id_def Let_def)
qed

text \<open>The entries of a new user, before the indexes.\<close>

definition put_user :: "libc \<Rightarrow> person \<Rightarrow> dbw \<Rightarrow> dbw" where
  "put_user L p w = kv_put (USER_PASSWORD @ p_email p) (p_password p) (kv_put (USER_UUID_ID @ to_string (p_id p)) (p_email p)
     (kv_put (USER_NAME_ID @ getFullName p @ ''_'' @ p_email p) (p_email p)
     (kv_put (USER_MAIL_ID @ p_email p) (fastWrite L (person_enc p)) w)))"

lemma save_indexes: "only_changes index_key (seq (saveSkills ss m) (seq (savePositions hs m)
    (case job of None \<Rightarrow> ret () | Some h \<Rightarrow> savePosition (wh_positionTitle h) m)))"
  unfolding saveSkills_def savePositions_def by (auto intro!: frames split: option.split)

lemma userExistsMail_run: "dbw_ok w \<Longrightarrow> userExistsMail m w = (Inr (kv w (USER_MAIL_ID @ m) \<noteq> None), w)"
  by (simp add: userExistsMail_def)

definition save_user_indexes :: "person \<Rightarrow> unit prog" where
  "save_user_indexes p = seq (saveSkills (p_skills p) (p_email p)) (seq (savePositions (p_workHistory p) (p_email p))
     (case getCurrentJob p of None \<Rightarrow> ret () | Some h \<Rightarrow> savePosition (wh_positionTitle h) (p_email p)))"

lemma savePerson_steps:
  assumes "dbw_ok w" and "person_deserialize L j = Inr u" and "kv w (USER_MAIL_ID @ p_email u) = None"
    and "last_id w n" and "n < maxInt64"
  defines "p \<equiv> u\<lparr>p_id := n + 1, p_totRecommendations := 0\<rparr>"
  assumes "save_user_indexes p (put_user L p (kv_put ''lastID'' (to_string (n + 1)) w)) = (Inr (), w')"
  shows "savePerson L j (-1) w = (Inr (n + 1), w')"
proof -
  define w1 where "w1 = put_user L p (kv_put ''lastID'' (to_string (n + 1)) w)"
  have assoc: "seq a (seq b (seq c d)) = seq (seq a (seq b c)) d" for a b c and d :: "int prog"
    by (auto simp: seq_def bnd_def fun_eq_iff split: prod.split sum.split)
  have rest: "seq (saveSkills (p_skills p) (p_email p)) (seq (savePositions (p_workHistory p) (p_email p))
      (seq (case getCurrentJob p of None \<Rightarrow> ret () | Some h \<Rightarrow> savePosition (wh_positionTitle h) (p_email p)) (ret (n + 1)))) w1
      = (Inr (n + 1), w')"
    unfolding assoc using assms(7) by (simp add: save_user_indexes_def w1_def)
  have free: "bnd (userExistsMail (p_email u)) f w = f False w" for f :: "bool \<Rightarrow> int prog"
    using userExistsMail_run [OF assms(1)] assms(3) by (simp add: bnd_Inr [where x = False])
  show ?thesis
    using assms(1-3) generateID_run [OF assms(1,4,5)] rest [unfolded w1_def put_user_def p_def]
    by (simp add: savePerson_def free Let_def saveUser_run saveUserNameKey_def saveUserIdKey_def saveUserPasswordKey_def)
qed

lemma savePerson_run:
  assumes "dbw_ok w" and "person_deserialize L j = Inr u" and "kv w (USER_MAIL_ID @ p_email u) = None"
    and "last_id w n" and "n < maxInt64"
  shows "\<exists>w'. savePerson L j (-1) w = (Inr (n + 1), w') \<and> dbw_ok w'
    \<and> (\<forall>k. \<not> index_key k \<longrightarrow> kv w' k =
         kv (put_user L (u\<lparr>p_id := n + 1, p_totRecommendations := 0\<rparr>) (kv_put ''lastID'' (to_string (n + 1)) w)) k)"
proof -
  define p where "p = u\<lparr>p_id := n + 1, p_totRecommendations := 0\<rparr>"
  have "dbw_ok (put_user L p (kv_put ''lastID'' (to_string (n + 1)) w))"
    using assms(1) by (simp add: put_user_def)
  then obtain w' where "save_user_indexes p (put_user L p (kv_put ''lastID'' (to_string (n + 1)) w)) = (Inr (), w')"
    "dbw_ok w'" "\<forall>k. \<not> index_key k \<longrightarrow> kv w' k = kv (put_user L p (kv_put ''lastID'' (to_string (n + 1)) w)) k"
    using save_indexes [of "p_skills p" "p_email p" "p_workHistory p" "getCurrentJob p"]
    unfolding only_changes_def save_user_indexes_def by blast
  then show ?thesis
    using savePerson_steps [OF assms, of w'] unfolding p_def by blast
qed

text \<open>
  C8. A registered user can log in: for a profile whose mail is not in use, \<open>savePerson\<close> gives the next
  identifier, under which the profile is then found with no recommendations; login with
  the mail and password of the profile succeeds; and to register the mail again raises
  \<open>UserAlreadyExistsException\<close> without a change.
\<close>

theorem savePerson_login:
  assumes "dbw_ok w" and "person_deserialize L j = Inr u" and "kv w (USER_MAIL_ID @ p_email u) = None"
    and "last_id w n" and "n < maxInt64"
    and "double_safe L (latitude (p_location u))" and "double_safe L (longitude (p_location u))"
  shows "\<exists>w'. savePerson L j (-1) w = (Inr (n + 1), w') \<and> last_id w' (n + 1)
    \<and> getUserById L (n + 1) w' = (Inr (u\<lparr>p_id := n + 1, p_totRecommendations := 0\<rparr>), w')
    \<and> (\<exists>token w''. login (at L t) (p_email u) (p_password u) w' = (Inr token, w''))
    \<and> savePerson L j forceID w' = (Inl UserAlreadyExists, w')"
proof -
  define p where "p = u\<lparr>p_id := n + 1, p_totRecommendations := 0\<rparr>"
  obtain w' where w': "savePerson L j (-1) w = (Inr (n + 1), w')" "dbw_ok w'"
    "\<And>k. \<not> index_key k \<Longrightarrow> kv w' k = kv (put_user L p (kv_put ''lastID'' (to_string (n + 1)) w)) k"
    using savePerson_run [OF assms(1-5)] unfolding p_def by blast
  have keys: "kv w' (USER_MAIL_ID @ p_email p) = Some (fastWrite L (person_enc p))"
    "kv w' (USER_UUID_ID @ to_string (n + 1)) = Some (p_email p)" "kv w' (USER_PASSWORD @ p_email p) = Some (p_password p)"
    "kv w' ''lastID'' = Some (to_string (n + 1))"
    unfolding w'(3) [OF index_key_apart(1)] w'(3) [OF index_key_apart(3)] w'(3) [OF index_key_apart(4)] w'(3) [OF index_key_apart(5)]
    using assms(1) by (simp_all add: put_user_def p_def key_defs)
  have "person_ok L p"
    using deserialize_lower [OF assms(2)] assms(4-7)
    by (simp add: person_ok_def p_def long_ok_def last_id_def minInt_def maxInt_def minInt64_def maxInt64_def)
  then have st: "stored_user L w' p"
    using keys(1) by (simp add: stored_user_def)
  have "getUserById L (n + 1) w' = (Inr p, w')"
    using w'(2) keys(2) getUserByMail_run [OF w'(2) st] by (simp add: getUserById_def)
  moreover have "\<exists>token w''. login (at L t) (p_email u) (p_password u) w' = (Inr token, w'')"
    using login_run [OF w'(2) st refl keys(3)] by (simp add: p_def)
  moreover have "savePerson L j forceID w' = (Inl UserAlreadyExists, w')"
    using userExistsMail_run [OF w'(2), of "p_email u"] keys(1) assms(2)
    by (simp add: savePerson_def p_def bnd_Inr [where x = True])
  moreover have "last_id w' (n + 1)"
    using keys(4) assms(4) by (simp add: last_id_def)
  ultimately show ?thesis
    using w'(1) by (auto simp: p_def)
qed

theorem savePerson_login_witness:
  "\<exists>w' token w''. savePerson libc_plain (person_enc person_ada) (-1) (dbw_of []) = (Inr 1, w')
    \<and> login (at libc_plain 5) ''ada@x'' ''Pw'' w' = (Inr token, w'')"
proof -
  have "person_deserialize libc_plain (person_enc person_ada) = Inr person_ada"
    by (simp add: person_deserialize_def person_enc_def person_ada_def member_list_def str_member_def long_member_def double_member_def
        asLargestInt_def minInt_def maxInt_def skill_enc_def workHistory_enc_def skill_deserialize_def workHistory_deserialize_def
        lower_def tolower_def)
  then obtain w' token w'' where "savePerson libc_plain (person_enc person_ada) (-1) (dbw_of []) = (Inr (0 + 1), w')"
    "login (at libc_plain 5) (p_email person_ada) (p_password person_ada) w' = (Inr token, w'')"
    using savePerson_login [of "dbw_of []" libc_plain "person_enc person_ada" person_ada 0 5] half_safe
    by (force simp: dbw_of_ok last_id_def maxInt64_def person_ada_def)
  then show ?thesis
    by (auto simp: person_ada_def)
qed

section \<open>The index by position\<close>

lemma deleteUserFromJobPosition_run:
  assumes "dbw_ok w" and "kv w (USER_JOBPOSITION @ lower title) = Some s"
  shows "\<exists>w'. deleteUserFromJobPosition title m w = (Inr (), w') \<and> dbw_ok w'
    \<and> (title \<noteq> lower title \<or> without_mail m (split s (CHR '','')) = '''' \<longrightarrow> kv w' (USER_JOBPOSITION @ lower title) = Some s)
    \<and> (\<forall>x. kv w' (USER_MAIL_ID @ x) = kv w (USER_MAIL_ID @ x))"
proof -
  have apart: "USER_SKILL @ x \<noteq> USER_JOBPOSITION @ y" "USER_SKILL @ x \<noteq> USER_MAIL_ID @ y" "USER_JOBPOSITION @ x \<noteq> USER_MAIL_ID @ y"
    "USER_SKILL \<noteq> USER_JOBPOSITION" "USER_SKILL \<noteq> USER_MAIL_ID" "USER_JOBPOSITION \<noteq> USER_MAIL_ID" for x y
    by (simp_all add: key_defs)
  show ?thesis
    using assms apart
    by (cases "without_mail m (split s (CHR '','')) = ''''")
      (auto simp: deleteUserFromJobPosition_def getUserJobPositionKey_run Let_def handle_def apart [symmetric])
qed

text \<open>
  Removing the last user of a position does not remove him from its index: after
  \<open>deleteUserFromJobPosition\<close> and the removal of his profile the index still has his mail,
  and every search by that position raises \<open>UserNotFoundException\<close>.
\<close>

lemma position_index_dangles:
  assumes "dbw_ok w" and "kv w (USER_JOBPOSITION @ lower title) = Some m" and "mail_ok m" and "p_email p = m"
  shows "\<exists>w'. seq (deleteUserFromJobPosition title m) (deleteUser p) w = (Inr (), w')
    \<and> searchByJobPosition L (title # titles) w' = (Inl (UserNotFound_mail m), w')"
proof -
  have "without_mail m (split m (CHR '','')) = ''''"
    using split_Cons(2) [of m "CHR '',''"] assms(3) by (simp add: mail_ok_def without_mail_def)
  then obtain w1 where w1: "deleteUserFromJobPosition title m w = (Inr (), w1)" "dbw_ok w1"
    "kv w1 (USER_JOBPOSITION @ lower title) = Some m"
    using deleteUserFromJobPosition_run [OF assms(1,2), of m] by blast
  define w' where "w' = kv_del (USER_MAIL_ID @ m) w1"
  have w': "seq (deleteUserFromJobPosition title m) (deleteUser p) w = (Inr (), w')" "dbw_ok w'"
    "kv w' (USER_JOBPOSITION @ lower title) = Some m" "kv w' (USER_MAIL_ID @ m) = None"
    using w1 assms(4) by (simp_all add: w'_def deleteUser_def key_defs)
  have "handle (bnd (getUserJobPositionKey (lower title)) (\<lambda>s. ret (Some (split s (CHR '','')))))
      (\<lambda>e. if e = Key_not_found then ret None else raise e) w' = (Inr (Some [m]), w')"
    using w'(2,3) split_Cons(2) [of m "CHR '',''"] assms(3)
    by (simp add: getUserJobPositionKey_run mail_ok_def)
  then have "searchByJobPosition L (title # titles) w' = (Inl (UserNotFound_mail m), w')"
    using getUserByMail_absent [OF w'(2,4), of L]
    by (simp add: searchByJobPosition_def elem_at_def users_of_index_def)
  then show ?thesis
    using w'(1) by blast
qed

lemma position_index_dangles_witness:
  "\<exists>w'. seq (deleteUserFromJobPosition ''Analyst'' ''ada@x'') (deleteUser person_ada) (dbw_of [(USER_JOBPOSITION @ ''analyst'', ''ada@x'')]) = (Inr (), w')
    \<and> searchByJobPosition libc_plain [''Analyst''] w' = (Inl (UserNotFound_mail ''ada@x''), w')"
proof (rule position_index_dangles)
  have "lower ''Analyst'' = ''analyst''"
    by code_simp
  then show "kv (dbw_of [(USER_JOBPOSITION @ ''analyst'', ''ada@x'')]) (USER_JOBPOSITION @ lower ''Analyst'') = Some ''ada@x''"
    by simp
qed (simp_all add: dbw_of_ok mail_ok_def person_ada_def)

section \<open>Requests between users\<close>

lemma need_user_run:
  "dbw_ok w \<Longrightarrow> need_user uid w = (if kv w (USER_UUID_ID @ to_string uid) = None then Inl (UserNotFound_id uid) else Inr (), w)"
  by (auto simp: need_user_def userExists_def ensure_def bnd_def if_do_def)

lemma validate_run:
  assumes "dbw_ok w"
  shows "validateUsersOfRequest a b w =
    (if kv w (USER_UUID_ID @ to_string a) = None then Inl (UserNotFound_id a)
     else if kv w (USER_UUID_ID @ to_string b) = None then Inl (UserNotFound_id b)
     else if a = b then Inl (InvalidRequest ''From user and to user cannot be equals'') else Inr (), w)"
  using assms by (simp add: validateUsersOfRequest_def need_user_run ensure_def seq_def bnd_def)

end
