(* ===== verification/Accounts.thy ===== *)
theory Accounts
  imports Person_Manager
begin

text \<open>
  The life of an account, over \<open>PersonManager::savePerson\<close>, \<open>deletePerson\<close>, \<open>updateUser\<close> and \<open>SessionManager::login\<close> on
  whole databases: what registering writes is exactly what deleting removes, except where the source
  handles the indexes wrongly.
\<close>

section \<open>Well-formed indexes\<close>

definition index_inv :: "dbw \<Rightarrow> bool" where
  "index_inv w \<longleftrightarrow> (\<forall>name. \<exists>ms. skill_index w name ms)"

lemma mails_text_inj: "list_all mail_ok a \<Longrightarrow> list_all mail_ok b \<Longrightarrow> mails_text a = mails_text b \<Longrightarrow> a = b"
  by (metis split_mails)

lemma skill_index_unique: "skill_index w n a \<Longrightarrow> skill_index w n b \<Longrightarrow> a = b"
  by (auto simp: skill_index_def split: if_splits dest: mails_text_inj)

lemma skill_index_cong: "kv w (USER_SKILL @ n) = kv w' (USER_SKILL @ n) \<Longrightarrow> skill_index w n ms = skill_index w' n ms"
  by (simp add: skill_index_def)

lemma skill_index_Nil: "skill_index w n [] \<longleftrightarrow> kv w (USER_SKILL @ n) = None"
  by (simp add: skill_index_def)

text \<open>A change of one skill, and changes of other keys.\<close>

lemma index_inv_update:
  assumes "index_inv w" "skill_index w' n ms" "\<And>x. x \<noteq> n \<Longrightarrow> kv w' (USER_SKILL @ x) = kv w (USER_SKILL @ x) \<or> kv w' (USER_SKILL @ x) = None"
  shows "index_inv w'"
  unfolding index_inv_def
proof
  fix x
  show "\<exists>ms. skill_index w' x ms"
  proof (cases "x = n")
    case False
    then show ?thesis
      using assms(1,3) skill_index_cong [of w' x w] by (metis index_inv_def skill_index_Nil)
  qed (use assms(2) in blast)
qed

lemma index_inv_frame:
  "index_inv w \<Longrightarrow> (\<And>x. kv w' (USER_SKILL @ x) = kv w (USER_SKILL @ x) \<or> kv w' (USER_SKILL @ x) = None) \<Longrightarrow> index_inv w'"
  unfolding index_inv_def by (metis skill_index_cong skill_index_Nil)

lemma skill_job_apart: "USER_SKILL @ x \<noteq> USER_JOBPOSITION @ y" "USER_JOBPOSITION @ x \<noteq> USER_SKILL @ y" "USER_SKILL \<noteq> USER_JOBPOSITION"
  by (simp_all add: key_defs)

text \<open>A mail in the index of a skill.\<close>

definition mail_in :: "dbw \<Rightarrow> string \<Rightarrow> string \<Rightarrow> bool" where
  "mail_in w n m \<longleftrightarrow> (\<exists>ms. skill_index w n ms \<and> m \<in> set ms)"

lemma mail_in_entry: "mail_in w n m \<Longrightarrow> kv w (USER_SKILL @ n) \<noteq> None"
  by (auto simp: mail_in_def skill_index_def)

lemma mail_in_cong: "kv w (USER_SKILL @ n) = kv w' (USER_SKILL @ n) \<Longrightarrow> mail_in w n m = mail_in w' n m"
  unfolding mail_in_def using skill_index_cong by metis

section \<open>Registering\<close>

text \<open>
  A program that succeeds, keeps the indexes well-formed, changes exactly the entries under some keys, removes none,
  and puts a mail at the end of the skills among them, once or more.
\<close>

definition grown :: "string \<Rightarrow> string set \<Rightarrow> dbw \<Rightarrow> dbw \<Rightarrow> bool" where
  "grown m K w w' \<longleftrightarrow> dbw_ok w' \<and> index_inv w' \<and> (\<forall>k. kv w k \<noteq> None \<longrightarrow> kv w' k \<noteq> None)
     \<and> (\<forall>k. k \<notin> K \<longrightarrow> kv w' k = kv w k) \<and> (\<forall>k \<in> K. kv w' k \<noteq> None)
     \<and> (\<forall>n ms. skill_index w n ms \<longrightarrow> (\<exists>ms'. set ms' \<subseteq> {m} \<and> (ms' = [] \<longleftrightarrow> USER_SKILL @ n \<notin> K) \<and> skill_index w' n (ms @ ms')))"

definition grows :: "string \<Rightarrow> string set \<Rightarrow> unit prog \<Rightarrow> bool" where
  "grows m K p \<longleftrightarrow> (\<forall>w. dbw_ok w \<and> index_inv w \<longrightarrow> (\<exists>w'. p w = (Inr (), w') \<and> grown m K w w'))"

named_theorems growth

lemma grownD:
  assumes "grown m K w w'"
  shows "dbw_ok w'" "index_inv w'" "kv w k \<noteq> None \<Longrightarrow> kv w' k \<noteq> None" "k \<notin> K \<Longrightarrow> kv w' k = kv w k" "k \<in> K \<Longrightarrow> kv w' k \<noteq> None"
    "skill_index w n ms \<Longrightarrow> \<exists>ms'. set ms' \<subseteq> {m} \<and> (ms' = [] \<longleftrightarrow> USER_SKILL @ n \<notin> K) \<and> skill_index w' n (ms @ ms')"
  using assms by (simp_all add: grown_def)

lemma growsE:
  assumes "grows m K p" "dbw_ok w" "index_inv w"
  obtains w' where "p w = (Inr (), w')" "grown m K w w'"
  using assms unfolding grows_def by blast

lemma grown_refl: "dbw_ok w \<Longrightarrow> index_inv w \<Longrightarrow> grown m {} w w"
  by (simp add: grown_def)

lemma grown_trans:
  assumes g: "grown m K w w1" "grown m K' w1 w2"
  shows "grown m (K \<union> K') w w2"
  unfolding grown_def
proof (intro conjI allI impI ballI)
  fix n ms
  assume n: "skill_index w n ms"
  obtain as where as: "set as \<subseteq> {m}" "as = [] \<longleftrightarrow> USER_SKILL @ n \<notin> K" "skill_index w1 n (ms @ as)"
    using grownD(6) [OF g(1) n] by blast
  obtain cs where "set cs \<subseteq> {m}" "cs = [] \<longleftrightarrow> USER_SKILL @ n \<notin> K'" "skill_index w2 n ((ms @ as) @ cs)"
    using grownD(6) [OF g(2) as(3)] by blast
  with as show "\<exists>ms'. set ms' \<subseteq> {m} \<and> (ms' = [] \<longleftrightarrow> USER_SKILL @ n \<notin> K \<union> K') \<and> skill_index w2 n (ms @ ms')"
    by (intro exI [of _ "as @ cs"]) auto
next
  show "kv w2 k \<noteq> None" if "kv w k \<noteq> None" for k
    using grownD(3) [OF g(2) grownD(3) [OF g(1) that]] .
  show "kv w2 k = kv w k" if "k \<notin> K \<union> K'" for k
    using grownD(4) [OF g(1), of k] grownD(4) [OF g(2), of k] that by simp
  show "kv w2 k \<noteq> None" if "k \<in> K \<union> K'" for k
    using grownD(3) [OF g(2) grownD(5) [OF g(1)], of k] grownD(5) [OF g(2), of k] that by blast
qed (rule grownD [OF g(2)])+

lemma grows_ret [growth]: "grows m {} (ret ())"
  by (simp add: grows_def grown_refl)

lemma grows_seq [growth]: "grows m K p \<Longrightarrow> grows m K' q \<Longrightarrow> grows m (K \<union> K') (seq p q)"
proof -
  assume pq: "grows m K p" "grows m K' q"
  have "\<exists>w'. seq p q w = (Inr (), w') \<and> grown m (K \<union> K') w w'" if w: "dbw_ok w" "index_inv w" for w
  proof -
    obtain w1 where w1: "p w = (Inr (), w1)" "grown m K w w1"
      using growsE [OF pq(1) w] .
    obtain w2 where "q w1 = (Inr (), w2)" "grown m K' w1 w2"
      using growsE [OF pq(2) grownD(1,2) [OF w1(2)]] .
    then show ?thesis
      using w1 grown_trans by simp
  qed
  then show ?thesis
    by (simp add: grows_def)
qed

lemma grows_for_each [growth]: "(\<And>x. x \<in> set xs \<Longrightarrow> grows m (K x) (f x)) \<Longrightarrow> grows m (\<Union>x \<in> set xs. K x) (for_each xs f)"
proof (induction xs)
  case (Cons x xs)
  then show ?case
    using grows_seq [of m "K x" "f x" "\<Union>x \<in> set xs. K x" "for_each xs f"] by simp
qed (simp add: grows_ret)

lemma grown_mail_in:
  assumes "grown m K w w'"
  shows "mail_in w n x \<Longrightarrow> mail_in w' n x" and "index_inv w \<Longrightarrow> USER_SKILL @ n \<in> K \<Longrightarrow> mail_in w' n m"
proof -
  show "mail_in w' n x" if x: "mail_in w n x"
  proof -
    obtain ms where ms: "skill_index w n ms" "x \<in> set ms"
      using x unfolding mail_in_def by blast
    obtain ms' where "skill_index w' n (ms @ ms')"
      using grownD(6) [OF assms ms(1)] by blast
    then show ?thesis
      using ms(2) unfolding mail_in_def by (intro exI [of _ "ms @ ms'"]) simp
  qed
  assume "index_inv w" and k: "USER_SKILL @ n \<in> K"
  then obtain ms where "skill_index w n ms"
    unfolding index_inv_def by blast
  then obtain ms' where ms: "set ms' \<subseteq> {m}" "ms' \<noteq> []" "skill_index w' n (ms @ ms')"
    using grownD(6) [OF assms] k by blast
  then have "m \<in> set (ms @ ms')"
    by (cases ms') auto
  then show "mail_in w' n m"
    using ms(3) unfolding mail_in_def by blast
qed

lemma grows_saveSkill [growth]:
  assumes "mail_ok m"
  shows "grows m {USER_SKILL @ lower (sk_name s)} (saveSkill s m)"
proof -
  let ?n = "lower (sk_name s)"
  have "\<exists>w'. saveSkill s m w = (Inr (), w') \<and> grown m {USER_SKILL @ ?n} w w'" if w: "dbw_ok w" "index_inv w" for w
  proof -
    obtain ms where ms: "skill_index w ?n ms"
      using w(2) by (auto simp: index_inv_def)
    let ?w = "kv_put (USER_SKILL @ ?n) (mails_text (ms @ [m])) w"
    have i: "skill_index ?w ?n (ms @ [m])"
      using ms assms w(1) by (simp add: skill_index_def)
    then have "index_inv ?w"
      using index_inv_update [OF w(2)] w(1) by simp
    moreover have "\<exists>ms'. set ms' \<subseteq> {m} \<and> (ms' = [] \<longleftrightarrow> n \<noteq> ?n) \<and> skill_index ?w n (as @ ms')" if as: "skill_index w n as" for n as
    proof (cases "n = ?n")
      case True
      then show ?thesis
        using i skill_index_unique [OF ms] as by (intro exI [of _ "[m]"]) auto
    next
      case False
      then show ?thesis
        using as skill_index_cong [of w n ?w as] w(1) by (intro exI [of _ "[]"]) simp
    qed
    ultimately have "grown m {USER_SKILL @ ?n} w ?w"
      using w(1) by (simp add: grown_def)
    then show ?thesis
      using saveSkill_run [OF w(1) ms assms refl] by blast
  qed
  then show ?thesis
    by (simp add: grows_def)
qed

lemma grows_savePosition [growth]: "grows m {USER_JOBPOSITION @ t} (savePosition t m)"
proof -
  have "\<exists>w'. savePosition t m w = (Inr (), w') \<and> grown m {USER_JOBPOSITION @ t} w w'" if w: "dbw_ok w" "index_inv w" for w
  proof -
    let ?w = "kv_put (USER_JOBPOSITION @ t) (case kv w (USER_JOBPOSITION @ t) of None \<Rightarrow> m | Some v \<Rightarrow> v @ '','' @ m) w"
    have "savePosition t m w = (Inr (), ?w)"
      using w(1) by (simp add: savePosition_def add_mail_run getUserJobPositionKey_run split: option.split)
    moreover have "index_inv ?w"
      using w skill_job_apart by (intro index_inv_frame [OF w(2)]) simp
    moreover have "skill_index ?w n ms = skill_index w n ms" for n ms
      using w(1) skill_job_apart by (intro skill_index_cong) simp
    ultimately have "grown m {USER_JOBPOSITION @ t} w ?w"
      using w(1) skill_job_apart by (simp add: grown_def exI [of _ "[]"])
    then show ?thesis
      using \<open>savePosition t m w = (Inr (), ?w)\<close> by blast
  qed
  then show ?thesis
    by (simp add: grows_def)
qed

text \<open>
  A user with all his entries: the profile, the identifier, the password and the name, his mail in the index of every
  skill, and an entry in the index of every position (which may lack his mail).
\<close>

definition registered :: "libc \<Rightarrow> dbw \<Rightarrow> person \<Rightarrow> bool" where
  "registered L w p \<longleftrightarrow> dbw_ok w \<and> index_inv w \<and> stored_user L w p \<and> mail_ok (p_email p)
     \<and> kv w (USER_UUID_ID @ to_string (p_id p)) = Some (p_email p) \<and> kv w (USER_PASSWORD @ p_email p) = Some (p_password p)
     \<and> kv w (USER_NAME_ID @ getFullName p @ ''_'' @ p_email p) \<noteq> None
     \<and> (\<forall>s \<in> set (p_skills p). is_lower (sk_name s) \<and> mail_in w (sk_name s) (p_email p))
     \<and> (\<forall>h \<in> set (p_workHistory p). kv w (USER_JOBPOSITION @ lower (wh_positionTitle h)) \<noteq> None)"

text \<open>The keys of the indexes that registering a profile writes.\<close>

definition saved_keys :: "person \<Rightarrow> string set" where
  "saved_keys p = (\<Union>s \<in> set (p_skills p). {USER_SKILL @ lower (sk_name s)})
     \<union> ((\<Union>h \<in> set (p_workHistory p). {USER_JOBPOSITION @ lower (wh_positionTitle h)})
     \<union> (case getCurrentJob p of None \<Rightarrow> {} | Some h \<Rightarrow> {USER_JOBPOSITION @ wh_positionTitle h}))"

lemma save_indexes_grow:
  assumes "mail_ok (p_email p)"
  shows "grows (p_email p) (saved_keys p) (save_user_indexes p)"
proof -
  have "grows m (case job of None \<Rightarrow> {} | Some h \<Rightarrow> {USER_JOBPOSITION @ wh_positionTitle h})
      (case job of None \<Rightarrow> ret () | Some h \<Rightarrow> savePosition (wh_positionTitle h) m)" for m job
    by (cases job) (simp_all add: grows_ret grows_savePosition)
  then show ?thesis
    unfolding save_user_indexes_def saved_keys_def saveSkills_def savePositions_def by (intro growth assms)
qed

lemma saved_keys_index: "k \<in> saved_keys p \<Longrightarrow> index_key k"
  by (auto simp: saved_keys_def index_key_def split: option.splits)

lemma kv_put_index_inv:
  "index_inv w \<Longrightarrow> dbw_ok w \<Longrightarrow> (\<And>x. k \<noteq> USER_SKILL @ x) \<Longrightarrow> index_inv (kv_put k v w)"
  by (rule index_inv_frame [of w]) auto

lemma kv_del_index_inv: "index_inv w \<Longrightarrow> dbw_ok w \<Longrightarrow> index_inv (kv_del k w)"
  by (rule index_inv_frame [of w]) auto

lemma key_apart_skill:
  "USER_MAIL_ID @ y \<noteq> USER_SKILL @ x" "USER_NAME_ID @ y \<noteq> USER_SKILL @ x" "USER_UUID_ID @ y \<noteq> USER_SKILL @ x"
  "USER_PASSWORD @ y \<noteq> USER_SKILL @ x" "''lastID'' \<noteq> USER_SKILL @ x"
  by (simp_all add: key_defs)

lemma person_ok_registered:
  assumes "person_deserialize L j = Inr u" "last_id w n" "n < maxInt64"
    and "double_safe L (latitude (p_location u))" and "double_safe L (longitude (p_location u))"
  shows "person_ok L (u\<lparr>p_id := n + 1, p_totRecommendations := 0\<rparr>)"
  using deserialize_lower [OF assms(1)] assms(2-5)
  by (simp add: person_ok_def long_ok_def last_id_def minInt_def maxInt_def minInt64_def maxInt64_def)

lemma savePerson_indexes:
  assumes "dbw_ok w" "index_inv w" and "person_deserialize L j = Inr u" "mail_ok (p_email u)" and "kv w (USER_MAIL_ID @ p_email u) = None"
    and "last_id w n" and "n < maxInt64"
    and "double_safe L (latitude (p_location u))" and "double_safe L (longitude (p_location u))"
  defines "p \<equiv> u\<lparr>p_id := n + 1, p_totRecommendations := 0\<rparr>"
  defines "w1 \<equiv> put_user L p (kv_put ''lastID'' (to_string (n + 1)) w)"
  obtains w' where "savePerson L j (-1) w = (Inr (n + 1), w')" "registered L w' p" "last_id w' (n + 1)" "grown (p_email p) (saved_keys p) w1 w'"
    "\<And>x ms. skill_index w1 x ms = skill_index w x ms"
proof -
  have w1: "dbw_ok w1" "index_inv w1"
    using assms(1,2) by (simp_all add: w1_def put_user_def kv_put_index_inv key_apart_skill)
  have mail: "mail_ok (p_email p)"
    using assms(4) by (simp add: p_def)
  obtain w' where w': "save_user_indexes p w1 = (Inr (), w')" and g: "grown (p_email p) (saved_keys p) w1 w'"
    using growsE [OF save_indexes_grow [OF mail] w1] .
  have fr: "kv w' k = kv w1 k" if "\<not> index_key k" for k
    using grownD(4) [OF g] that saved_keys_index by blast
  have keys: "kv w' (USER_MAIL_ID @ p_email p) = Some (fastWrite L (person_enc p))"
    "kv w' (USER_UUID_ID @ to_string (n + 1)) = Some (p_email p)" "kv w' (USER_PASSWORD @ p_email p) = Some (p_password p)"
    "kv w' (USER_NAME_ID @ getFullName p @ ''_'' @ p_email p) \<noteq> None" "kv w' ''lastID'' = Some (to_string (n + 1))"
    using assms(1) fr index_key_apart by (simp_all add: w1_def put_user_def p_def key_defs)
  have low: "list_all (\<lambda>s. is_lower (sk_name s)) (p_skills p)"
    using deserialize_lower [OF assms(3)] by (simp add: p_def)
  have "mail_in w' (sk_name s) (p_email p)" if "s \<in> set (p_skills p)" for s
    using grown_mail_in(2) [OF g w1(2), of "sk_name s"] low that by (auto simp: saved_keys_def list_all_iff)
  moreover have "kv w' (USER_JOBPOSITION @ lower (wh_positionTitle h)) \<noteq> None" if "h \<in> set (p_workHistory p)" for h
    using grownD(5) [OF g] that by (auto simp: saved_keys_def)
  ultimately have "registered L w' p"
    using grownD(1,2) [OF g] low keys mail person_ok_registered [OF assms(3,6-9)]
    by (auto simp: registered_def stored_user_def list_all_iff p_def)
  moreover have "skill_index w1 x ms = skill_index w x ms" for x ms
    using assms(1) by (intro skill_index_cong) (simp add: w1_def put_user_def key_defs)
  moreover have "savePerson L j (-1) w = (Inr (n + 1), w')"
    using savePerson_steps [OF assms(1,3,5-7), of w'] w' by (simp add: w1_def p_def)
  moreover have "last_id w' (n + 1)"
    using keys(5) assms(6) by (simp add: last_id_def)
  ultimately show thesis
    using that g by simp
qed

lemma savePerson_registers:
  assumes "dbw_ok w" "index_inv w" and "person_deserialize L j = Inr u" "mail_ok (p_email u)" and "kv w (USER_MAIL_ID @ p_email u) = None"
    and "last_id w n" and "n < maxInt64"
    and "double_safe L (latitude (p_location u))" and "double_safe L (longitude (p_location u))"
  defines "p \<equiv> u\<lparr>p_id := n + 1, p_totRecommendations := 0\<rparr>"
  shows "\<exists>w'. savePerson L j (-1) w = (Inr (n + 1), w') \<and> registered L w' p \<and> last_id w' (n + 1)
    \<and> (\<forall>k. \<not> index_key k \<longrightarrow> kv w' k = kv (put_user L p (kv_put ''lastID'' (to_string (n + 1)) w)) k)
    \<and> (\<forall>k. kv w k \<noteq> None \<longrightarrow> kv w' k \<noteq> None) \<and> (\<forall>x m. mail_in w x m \<longrightarrow> mail_in w' x m)"
proof -
  let ?w1 = "put_user L p (kv_put ''lastID'' (to_string (n + 1)) w)"
  obtain w' where w': "savePerson L j (-1) w = (Inr (n + 1), w')" "registered L w' p" "last_id w' (n + 1)"
    and g: "grown (p_email p) (saved_keys p) ?w1 w'" and same: "\<And>x ms. skill_index ?w1 x ms = skill_index w x ms"
    using savePerson_indexes [OF assms(1-9)] unfolding p_def by blast
  have "kv w' k = kv ?w1 k" if "\<not> index_key k" for k
    using grownD(4) [OF g] that saved_keys_index by blast
  moreover have "kv w' k \<noteq> None" if "kv w k \<noteq> None" for k
    using grownD(3) [OF g, of k] that assms(1) by (simp add: put_user_def)
  moreover have "mail_in w' x m" if "mail_in w x m" for x m
    using grown_mail_in(1) [OF g] that by (simp add: mail_in_def same)
  ultimately show ?thesis
    using w' by (intro exI [of _ w'] conjI) simp_all
qed

section \<open>Deleting\<close>

lemma delete_skills:
  assumes "dbw_ok w" "index_inv w" "mail_ok m" "distinct (map sk_name ss)" "\<And>s. s \<in> set ss \<Longrightarrow> kv w (USER_SKILL @ sk_name s) \<noteq> None"
  shows "\<exists>w'. for_each ss (\<lambda>s. deleteUserFromSkill (sk_name s) m) w = (Inr (), w') \<and> dbw_ok w' \<and> index_inv w'
     \<and> (\<forall>s \<in> set ss. \<forall>ms. skill_index w (sk_name s) ms \<longrightarrow> skill_index w' (sk_name s) (filter (\<lambda>x. x \<noteq> m) ms))
     \<and> (\<forall>k. k \<notin> (\<lambda>s. USER_SKILL @ sk_name s) ` set ss \<longrightarrow> kv w' k = kv w k)"
  using assms
proof (induction ss arbitrary: w)
  case (Cons s ss)
  let ?k = "USER_SKILL @ sk_name s"
  obtain ms where ms: "skill_index w (sk_name s) ms"
    using Cons.prems(2) by (auto simp: index_inv_def)
  have "ms \<noteq> []"
    using ms Cons.prems(5) [of s] skill_index_Nil by auto
  define w1 where "w1 = (if filter (\<lambda>x. x \<noteq> m) ms = [] then kv_del ?k w else kv_put ?k (mails_text (filter (\<lambda>x. x \<noteq> m) ms)) w)"
  have w1: "deleteUserFromSkill (sk_name s) m w = (Inr (), w1)" "dbw_ok w1" "\<And>k. k \<noteq> ?k \<Longrightarrow> kv w1 k = kv w k"
    using deleteUserFromSkill_run [OF Cons.prems(1) ms, of m] \<open>ms \<noteq> []\<close> Cons.prems(1) by (auto simp: w1_def)
  have i1: "skill_index w1 (sk_name s) (filter (\<lambda>x. x \<noteq> m) ms)"
    using ms Cons.prems(1) by (auto simp: skill_index_def w1_def list_all_iff)
  have "index_inv w1"
    using index_inv_update [OF Cons.prems(2) i1] w1(3) by simp
  moreover have "kv w1 (USER_SKILL @ sk_name x) \<noteq> None" if "x \<in> set ss" for x
  proof -
    have "sk_name x \<noteq> sk_name s"
      using Cons.prems(4) that by (auto simp: image_iff)
    then show ?thesis
      using w1(3) [of "USER_SKILL @ sk_name x"] Cons.prems(5) [of x] that by simp
  qed
  ultimately obtain w2 where w2: "for_each ss (\<lambda>s. deleteUserFromSkill (sk_name s) m) w1 = (Inr (), w2)" "dbw_ok w2" "index_inv w2"
    "\<forall>s \<in> set ss. \<forall>ms. skill_index w1 (sk_name s) ms \<longrightarrow> skill_index w2 (sk_name s) (filter (\<lambda>x. x \<noteq> m) ms)"
    "\<forall>k. k \<notin> (\<lambda>s. USER_SKILL @ sk_name s) ` set ss \<longrightarrow> kv w2 k = kv w1 k"
    using Cons.IH [of w1] Cons.prems(3,4) w1(2) by auto
  have "kv w2 ?k = kv w1 ?k"
    using w2(5) Cons.prems(4) by auto
  then have "skill_index w2 (sk_name s) (filter (\<lambda>x. x \<noteq> m) ms)"
    using i1 skill_index_cong by metis
  moreover have "skill_index w (sk_name t) as = skill_index w1 (sk_name t) as" if "t \<in> set ss" for t as
  proof (rule skill_index_cong)
    have "sk_name t \<noteq> sk_name s"
      using Cons.prems(4) that by (auto simp: image_iff)
    then show "kv w (USER_SKILL @ sk_name t) = kv w1 (USER_SKILL @ sk_name t)"
      using w1(3) by simp
  qed
  ultimately have "\<forall>t \<in> set (s # ss). \<forall>as. skill_index w (sk_name t) as \<longrightarrow> skill_index w2 (sk_name t) (filter (\<lambda>x. x \<noteq> m) as)"
    using w2(4) skill_index_unique [OF ms] by auto
  then show ?case
    using w1 w2(1-3,5) by (intro exI [of _ w2]) auto
qed simp

text \<open>The keys that removing a user from positions may write: \<open>deleteUserFromJobPosition\<close> also removes skills.\<close>

definition position_keys :: "workHistory list \<Rightarrow> string set" where
  "position_keys hs = (\<Union>h \<in> set hs. {USER_SKILL @ wh_positionTitle h, USER_JOBPOSITION @ wh_positionTitle h})"

lemma position_keys_index: "k \<in> position_keys hs \<Longrightarrow> index_key k"
  by (auto simp: position_keys_def index_key_def)

lemma delete_positions:
  assumes "dbw_ok w" "index_inv w" "\<And>h. h \<in> set hs \<Longrightarrow> kv w (USER_JOBPOSITION @ lower (wh_positionTitle h)) \<noteq> None"
  shows "\<exists>w'. for_each hs (\<lambda>h. deleteUserFromJobPosition (wh_positionTitle h) m) w = (Inr (), w') \<and> dbw_ok w' \<and> index_inv w'
     \<and> (\<forall>x. kv w' (USER_SKILL @ x) = kv w (USER_SKILL @ x) \<or> kv w' (USER_SKILL @ x) = None \<and> x \<in> wh_positionTitle ` set hs)
     \<and> (\<forall>x. kv w (USER_JOBPOSITION @ x) \<noteq> None \<longrightarrow> kv w' (USER_JOBPOSITION @ x) \<noteq> None)
     \<and> (\<forall>k. k \<notin> position_keys hs \<longrightarrow> kv w' k = kv w k)"
  using assms
proof (induction hs arbitrary: w)
  case (Cons h hs)
  let ?t = "wh_positionTitle h"
  obtain v where v: "kv w (USER_JOBPOSITION @ lower ?t) = Some v"
    using Cons.prems(3) [of h] by auto
  define w1 where "w1 = (if without_mail m (split v (CHR '','')) = '''' then kv_del (USER_SKILL @ ?t) w
     else kv_put (USER_JOBPOSITION @ ?t) (without_mail m (split v (CHR '',''))) w)"
  have w1: "deleteUserFromJobPosition ?t m w = (Inr (), w1)" "dbw_ok w1" "\<And>k. k \<notin> position_keys [h] \<Longrightarrow> kv w1 k = kv w k"
    "\<And>x. kv w1 (USER_SKILL @ x) = kv w (USER_SKILL @ x) \<or> kv w1 (USER_SKILL @ x) = None \<and> x = ?t"
    "\<And>x. kv w (USER_JOBPOSITION @ x) \<noteq> None \<Longrightarrow> kv w1 (USER_JOBPOSITION @ x) \<noteq> None"
    using v Cons.prems(1) skill_job_apart
    by (auto simp: deleteUserFromJobPosition_def getUserJobPositionKey_run Let_def w1_def position_keys_def)
  have inv1: "index_inv w1"
  proof (rule index_inv_frame [OF Cons.prems(2)])
    show "kv w1 (USER_SKILL @ x) = kv w (USER_SKILL @ x) \<or> kv w1 (USER_SKILL @ x) = None" for x
      using w1(4) [of x] by auto
  qed
  have job1: "kv w1 (USER_JOBPOSITION @ lower (wh_positionTitle x)) \<noteq> None" if "x \<in> set hs" for x
    using w1(5) Cons.prems(3) [of x] that by simp
  obtain w2 where w2: "for_each hs (\<lambda>h. deleteUserFromJobPosition (wh_positionTitle h) m) w1 = (Inr (), w2)" "dbw_ok w2" "index_inv w2"
    "\<forall>x. kv w2 (USER_SKILL @ x) = kv w1 (USER_SKILL @ x) \<or> kv w2 (USER_SKILL @ x) = None \<and> x \<in> wh_positionTitle ` set hs"
    "\<forall>x. kv w1 (USER_JOBPOSITION @ x) \<noteq> None \<longrightarrow> kv w2 (USER_JOBPOSITION @ x) \<noteq> None" "\<forall>k. k \<notin> position_keys hs \<longrightarrow> kv w2 k = kv w1 k"
    using Cons.IH [OF w1(2) inv1 job1] by blast
  have "kv w2 (USER_SKILL @ x) = kv w (USER_SKILL @ x) \<or> kv w2 (USER_SKILL @ x) = None \<and> x \<in> wh_positionTitle ` set (h # hs)" for x
    using w1(4) [of x] spec [OF w2(4), of x] by auto
  moreover have "kv w2 k = kv w k" if "k \<notin> position_keys (h # hs)" for k
    using that w1(3) [of k] w2(6) by (simp add: position_keys_def)
  ultimately show ?case
    using w1(1,5) w2(1-3,5) by (intro exI [of _ w2]) simp
qed simp

definition user_keys :: "person \<Rightarrow> string set" where
  "user_keys p = {USER_UUID_ID @ to_string (p_id p), USER_NAME_ID @ getFullName p @ ''_'' @ p_email p, USER_PASSWORD @ p_email p, USER_MAIL_ID @ p_email p}"

text \<open>The entries of the user but the profile.\<close>

definition without_keys :: "person \<Rightarrow> dbw \<Rightarrow> dbw" where
  "without_keys p w = kv_del (USER_PASSWORD @ p_email p) (kv_del (USER_NAME_ID @ getFullName p @ ''_'' @ p_email p)
     (kv_del (USER_UUID_ID @ to_string (p_id p)) w))"

lemma without_keys_kv:
  assumes "dbw_ok w"
  shows "dbw_ok (without_keys p w)" "index_inv w \<Longrightarrow> index_inv (without_keys p w)"
    "k \<notin> user_keys p \<Longrightarrow> kv (without_keys p w) k = kv w k" "kv (without_keys p w) (USER_MAIL_ID @ x) = kv w (USER_MAIL_ID @ x)"
    "kv (without_keys p w) (USER_UUID_ID @ to_string (p_id p)) = None" "kv (without_keys p w) (USER_PASSWORD @ p_email p) = None"
    "kv (without_keys p w) (USER_NAME_ID @ getFullName p @ ''_'' @ p_email p) = None"
    "kv (without_keys p w) (USER_SKILL @ x) = kv w (USER_SKILL @ x)" "kv (without_keys p w) (USER_JOBPOSITION @ x) = kv w (USER_JOBPOSITION @ x)"
  using assms by (simp_all add: without_keys_def user_keys_def kv_del_index_inv key_defs)

lemma deletePerson_start:
  assumes "registered L w p"
  shows "deletePerson L (p_id p) w = handle (seq (for_each (p_skills p) (\<lambda>s. deleteUserFromSkill (sk_name s) (p_email p)))
     (seq (for_each (p_workHistory p) (\<lambda>h. deleteUserFromJobPosition (wh_positionTitle h) (p_email p))) (deleteUser p)))
     (\<lambda>e. if is_std_exception e then raise (UserNotFound_id (p_id p)) else raise e) (without_keys p w)"
proof -
  have "getUserById L (p_id p) w = (Inr p, w)"
    using assms getUserByMail_run [of w L p "p_email p"] by (simp add: registered_def getUserById_def)
  then show ?thesis
    using assms by (simp add: registered_def deletePerson_def handle_def deleteUserIdKey_def deleteUserNameKey_def deleteUserPasswordKey_def without_keys_def)
qed

definition deleted_keys :: "person \<Rightarrow> string set" where
  "deleted_keys p = (\<lambda>s. USER_SKILL @ sk_name s) ` set (p_skills p) \<union> position_keys (p_workHistory p)"

lemma deletePerson_run:
  assumes "registered L w p" "distinct (map sk_name (p_skills p))"
  shows "\<exists>w'. deletePerson L (p_id p) w = (Inr (), w') \<and> dbw_ok w' \<and> index_inv w'
     \<and> kv w' (USER_MAIL_ID @ p_email p) = None \<and> kv w' (USER_UUID_ID @ to_string (p_id p)) = None \<and> kv w' (USER_PASSWORD @ p_email p) = None
     \<and> kv w' (USER_NAME_ID @ getFullName p @ ''_'' @ p_email p) = None
     \<and> (\<forall>s \<in> set (p_skills p). \<forall>ms. skill_index w' (sk_name s) ms \<longrightarrow> p_email p \<notin> set ms)
     \<and> (\<forall>n ms. n \<in> sk_name ` set (p_skills p) \<longrightarrow> n \<notin> wh_positionTitle ` set (p_workHistory p) \<longrightarrow> skill_index w n ms
          \<longrightarrow> skill_index w' n (filter (\<lambda>x. x \<noteq> p_email p) ms))
     \<and> (\<forall>k. k \<notin> deleted_keys p \<longrightarrow> k \<notin> user_keys p \<longrightarrow> kv w' k = kv w k)"
proof -
  let ?m = "p_email p"
  have w: "dbw_ok w" "index_inv w" "mail_ok ?m" "\<And>s. s \<in> set (p_skills p) \<Longrightarrow> kv w (USER_SKILL @ sk_name s) \<noteq> None"
    "\<And>h. h \<in> set (p_workHistory p) \<Longrightarrow> kv w (USER_JOBPOSITION @ lower (wh_positionTitle h)) \<noteq> None"
    using assms(1) mail_in_entry unfolding registered_def by blast+
  note w0 = without_keys_kv [where p = p, OF w(1)]
  obtain w1 where w1: "for_each (p_skills p) (\<lambda>s. deleteUserFromSkill (sk_name s) ?m) (without_keys p w) = (Inr (), w1)" "dbw_ok w1" "index_inv w1"
    "\<forall>s \<in> set (p_skills p). \<forall>ms. skill_index (without_keys p w) (sk_name s) ms \<longrightarrow> skill_index w1 (sk_name s) (filter (\<lambda>x. x \<noteq> ?m) ms)"
    "\<forall>k. k \<notin> (\<lambda>s. USER_SKILL @ sk_name s) ` set (p_skills p) \<longrightarrow> kv w1 k = kv (without_keys p w) k"
    using delete_skills [of "without_keys p w" ?m "p_skills p"] w0 w assms(2) by auto
  have i0: "skill_index (without_keys p w) n ms = skill_index w n ms" for n ms
    using w0(8) by (rule skill_index_cong)
  have j1: "kv w1 (USER_JOBPOSITION @ lower (wh_positionTitle h)) \<noteq> None" if "h \<in> set (p_workHistory p)" for h
  proof -
    have "USER_JOBPOSITION @ lower (wh_positionTitle h) \<notin> (\<lambda>s. USER_SKILL @ sk_name s) ` set (p_skills p)"
      using skill_job_apart(2) by blast
    then show ?thesis
      using w1(5) w0(9) w(5) [OF that] by simp
  qed
  obtain w2 where w2: "for_each (p_workHistory p) (\<lambda>h. deleteUserFromJobPosition (wh_positionTitle h) ?m) w1 = (Inr (), w2)" "dbw_ok w2" "index_inv w2"
    "\<forall>x. kv w2 (USER_SKILL @ x) = kv w1 (USER_SKILL @ x) \<or> kv w2 (USER_SKILL @ x) = None \<and> x \<in> wh_positionTitle ` set (p_workHistory p)"
    "\<forall>k. k \<notin> position_keys (p_workHistory p) \<longrightarrow> kv w2 k = kv w1 k"
    using delete_positions [OF w1(2,3) j1, of "p_workHistory p" ?m] by blast
  have sk1: "?m \<notin> set ms" if s: "s \<in> set (p_skills p)" "skill_index w1 (sk_name s) ms" for s ms
  proof -
    obtain as where "skill_index w (sk_name s) as"
      using w(2) by (auto simp: index_inv_def)
    then have "ms = filter (\<lambda>x. x \<noteq> ?m) as"
      using w1(4) s i0 skill_index_unique by blast
    then show ?thesis
      by simp
  qed
  have sk2: "?m \<notin> set ms" if "s \<in> set (p_skills p)" "skill_index w2 (sk_name s) ms" for s ms
    using w2(4) sk1 that skill_index_cong [of w2 "sk_name s" w1] skill_index_unique skill_index_Nil by (metis empty_iff empty_set)
  have left2: "skill_index w2 n (filter (\<lambda>x. x \<noteq> ?m) ms)"
    if "n \<in> sk_name ` set (p_skills p)" "n \<notin> wh_positionTitle ` set (p_workHistory p)" "skill_index w n ms" for n ms
  proof -
    have "kv w2 (USER_SKILL @ n) = kv w1 (USER_SKILL @ n)"
      using w2(4) that(2) by blast
    moreover have "skill_index w1 n (filter (\<lambda>x. x \<noteq> ?m) ms)"
      using w1(4) that(1,3) i0 by auto
    ultimately show ?thesis
      using skill_index_cong by blast
  qed
  have fr2: "kv w2 k = kv w k" if "k \<notin> deleted_keys p" "k \<notin> user_keys p" for k
    using that w1(5) w2(5) w0(3) [of k] by (simp add: deleted_keys_def)
  have fr3: "kv w2 k = kv (without_keys p w) k" if "\<not> index_key k" for k
  proof -
    have "k \<notin> position_keys (p_workHistory p)" "k \<notin> (\<lambda>s. USER_SKILL @ sk_name s) ` set (p_skills p)"
      using that position_keys_index by (auto simp: index_key_def)
    then show ?thesis
      using w1(5) w2(5) by simp
  qed
  let ?w = "kv_del (USER_MAIL_ID @ ?m) w2"
  have "deletePerson L (p_id p) w = (Inr (), ?w)"
    using deletePerson_start [OF assms(1)] w1(1) w2(1,2) by (simp add: handle_def deleteUser_def)
  moreover have "kv ?w k = kv w2 k" if "k \<noteq> USER_MAIL_ID @ ?m" for k
    using that w2(2) by simp
  moreover have "skill_index ?w n ms = skill_index w2 n ms" for n ms
    using w2(2) by (intro skill_index_cong) (simp add: key_defs)
  moreover have "kv ?w (USER_UUID_ID @ to_string (p_id p)) = None" "kv ?w (USER_PASSWORD @ ?m) = None"
    "kv ?w (USER_NAME_ID @ getFullName p @ ''_'' @ ?m) = None"
    using w2(2) w0(5,6,7) fr3 index_key_apart by (simp_all add: key_defs)
  moreover have "kv ?w (USER_MAIL_ID @ ?m) = None" "dbw_ok ?w"
    using w2(2) by simp_all
  moreover have "kv ?w k = kv w k" if "k \<notin> deleted_keys p" "k \<notin> user_keys p" for k
    using fr2 [OF that] that(2) w2(2) by (simp add: user_keys_def)
  ultimately show ?thesis
    using sk2 left2 kv_del_index_inv [OF w2(3,2)] by (intro exI [of _ ?w] conjI) simp_all
qed


definition profile_keys :: "person \<Rightarrow> string set" where
  "profile_keys p = saved_keys p \<union> deleted_keys p"


section \<open>A skill that is listed twice\<close>

text \<open>The loop over the skills in general: it succeeds or meets a skill without an entry.\<close>

lemma delete_skills_any:
  assumes "dbw_ok w" "index_inv w"
  shows "\<exists>r w'. for_each ss (\<lambda>s. deleteUserFromSkill (sk_name s) m) w = (r, w') \<and> (r = Inr () \<or> r = Inl BadImplementation) \<and> dbw_ok w' \<and> index_inv w'
     \<and> (\<forall>k. \<not> index_key k \<longrightarrow> kv w' k = kv w k)
     \<and> (\<forall>n ms. skill_index w n ms \<longrightarrow> set ms \<subseteq> {m} \<longrightarrow> (\<exists>ms'. skill_index w' n ms' \<and> set ms' \<subseteq> {m}
          \<and> (ms = [] \<or> r = Inr () \<and> n \<in> sk_name ` set ss \<longrightarrow> ms' = [])))"
  using assms
proof (induction ss arbitrary: w)
  case (Cons s ss)
  let ?k = "USER_SKILL @ sk_name s"
  obtain ms where ms: "skill_index w (sk_name s) ms"
    using Cons.prems(2) by (auto simp: index_inv_def)
  note run = deleteUserFromSkill_run [OF Cons.prems(1) ms, of m]
  show ?case
  proof (cases "ms = []")
    case True
    then show ?thesis
      using run Cons.prems by (intro exI [of _ "Inl BadImplementation"] exI [of _ w]) (auto intro: exI)
  next
    case False
    define fs where "fs = filter (\<lambda>x. x \<noteq> m) ms"
    define w1 where "w1 = (if fs = [] then kv_del ?k w else kv_put ?k (mails_text fs) w)"
    have w1: "deleteUserFromSkill (sk_name s) m w = (Inr (), w1)" "dbw_ok w1" "\<And>k. k \<noteq> ?k \<Longrightarrow> kv w1 k = kv w k"
      using run False Cons.prems(1) by (auto simp: w1_def fs_def)
    have i1: "skill_index w1 (sk_name s) fs"
      using ms Cons.prems(1) by (auto simp: skill_index_def w1_def fs_def list_all_iff)
    have other: "skill_index w1 n = skill_index w n" if "n \<noteq> sk_name s" for n
      using w1(3) [of "USER_SKILL @ n"] that by (auto simp: skill_index_def fun_eq_iff)
    have "index_inv w1"
      using index_inv_update [OF Cons.prems(2) i1] w1(3) by simp
    then obtain r w2 where w2: "for_each ss (\<lambda>s. deleteUserFromSkill (sk_name s) m) w1 = (r, w2)" "r = Inr () \<or> r = Inl BadImplementation"
      "dbw_ok w2" "index_inv w2" "\<forall>k. \<not> index_key k \<longrightarrow> kv w2 k = kv w1 k"
      "\<forall>n ms. skill_index w1 n ms \<longrightarrow> set ms \<subseteq> {m} \<longrightarrow> (\<exists>ms'. skill_index w2 n ms' \<and> set ms' \<subseteq> {m}
          \<and> (ms = [] \<or> r = Inr () \<and> n \<in> sk_name ` set ss \<longrightarrow> ms' = []))"
      using Cons.IH [OF w1(2)] by blast
    have "\<exists>ms'. skill_index w2 n ms' \<and> set ms' \<subseteq> {m} \<and> (as = [] \<or> r = Inr () \<and> n \<in> sk_name ` set (s # ss) \<longrightarrow> ms' = [])"
      if "skill_index w n as" "set as \<subseteq> {m}" for n as
    proof (cases "n = sk_name s")
      case True
      then have "fs = []"
        using skill_index_unique [OF ms, of as] that by (auto simp: fs_def filter_empty_conv)
      then show ?thesis
        using w2(6) i1 True by fastforce
    next
      case False
      then show ?thesis
        using w2(6) that other by auto
    qed
    moreover have "kv w2 k = kv w k" if "\<not> index_key k" for k
      using w2(5) w1(3) [of k] that by (auto simp: index_key_def)
    ultimately show ?thesis
      using w1(1) w2(1-4) by (intro exI [of _ r] exI [of _ w2]) auto
  qed
qed (auto intro: exI)

lemma for_each_append: "for_each (xs @ ys) f = seq (for_each xs f) (for_each ys f)"
proof (induction xs)
  case Nil
  then show ?case
    by (simp add: seq_def bnd_def ret_def fun_eq_iff)
next
  case (Cons x xs)
  then show ?case
    by (auto simp: seq_def bnd_def fun_eq_iff split: prod.split sum.split)
qed

text \<open>
  When a skill occurs twice in a profile and no other user has it, \<open>deletePerson\<close> fails in the middle: it raises
  \<open>UserNotFoundException\<close> after it removed the identifier and the password, while the profile stays. From then on nobody can log in
  with the mail, the identifier is unknown, and the mail cannot be registered again.
\<close>

lemma twice_listed_skill_traps_account:
  assumes "registered L w p" and "p_skills p = xs @ s # ys @ s' # zs" and "sk_name s' = sk_name s"
    and "skill_index w (sk_name s) ms" and "set ms \<subseteq> {p_email p}"
    and "person_deserialize L j = Inr u" "p_email u = p_email p"
  shows "\<exists>w'. deletePerson L (p_id p) w = (Inl (UserNotFound_id (p_id p)), w')
    \<and> getUserById L (p_id p) w' = (Inl (UserNotFound_id (p_id p)), w')
    \<and> login L (p_email p) pw w' = (Inl (UserNotFound_mail (p_email p)), w')
    \<and> savePerson L j i w' = (Inl UserAlreadyExists, w')"
proof -
  let ?m = "p_email p" and ?del = "\<lambda>s. deleteUserFromSkill (sk_name s) (p_email p)"
  have w: "dbw_ok w" "index_inv w"
    using assms(1) by (auto simp: registered_def)
  note w0 = without_keys_kv [where p = p, OF w(1)]
  have i0: "skill_index (without_keys p w) (sk_name s) ms"
    using assms(4) w0(8) by (simp add: skill_index_def)
  obtain r w1 where w1: "for_each (xs @ s # ys) ?del (without_keys p w) = (r, w1)" "r = Inr () \<or> r = Inl BadImplementation" "dbw_ok w1" "index_inv w1"
    "\<forall>k. \<not> index_key k \<longrightarrow> kv w1 k = kv (without_keys p w) k" "r = Inr () \<longrightarrow> skill_index w1 (sk_name s) []"
    using delete_skills_any [OF w0(1) w0(2) [OF w(2)], of "xs @ s # ys" ?m] i0 assms(5) by (auto; blast)
  have "for_each (p_skills p) ?del (without_keys p w) = (Inl BadImplementation, w1)"
  proof (cases "r = Inr ()")
    case True
    then have "?del s' w1 = (Inl BadImplementation, w1)"
      using w1(6) deleteUserFromSkill_run [OF w1(3), of "sk_name s" "[]" ?m] assms(3) by simp
    then show ?thesis
      using w1(1) True unfolding assms(2) append_Cons [symmetric] append_assoc [symmetric] for_each_append by simp
  next
    case False
    then show ?thesis
      using w1(1,2) unfolding assms(2) append_Cons [symmetric] append_assoc [symmetric] for_each_append by simp
  qed
  then have del: "deletePerson L (p_id p) w = (Inl (UserNotFound_id (p_id p)), w1)"
    using deletePerson_start [OF assms(1)] by (simp add: handle_def raise_def)
  have k: "kv w1 (USER_UUID_ID @ to_string (p_id p)) = None" "kv w1 (USER_PASSWORD @ ?m) = None" "kv w1 (USER_MAIL_ID @ ?m) \<noteq> None"
    using w1(5) index_key_apart w0(4-6) assms(1) by (simp_all add: registered_def stored_user_def)
  have "savePerson L j i w1 = (Inl UserAlreadyExists, w1)"
    using userExistsMail_run [OF w1(3), of "p_email u"] k(3) assms(6,7) by (simp add: savePerson_def bnd_Inr [where x = True])
  then show ?thesis
    using del k(1,2) w1(3) by (intro exI [of _ w1]) (simp add: getUserById_def login_def)
qed

section \<open>Updating\<close>

lemma for_each_if: "for_each xs (\<lambda>x. if_do (P x) (f x)) = for_each (filter P xs) f"
  by (induction xs) (auto simp: if_do_def seq_def bnd_def ret_def fun_eq_iff split: prod.split sum.split)

text \<open>The profile after an update: the mail and the recommendations are kept, and so are the password and the place when the new ones are empty.\<close>

definition merged :: "person \<Rightarrow> person \<Rightarrow> person" where
  "merged u p = u\<lparr>p_email := p_email p, p_totRecommendations := p_totRecommendations p,
     p_password := (if p_password u = '''' then p_password p else p_password u),
     p_location := (if location_isEmpty (p_location u) then p_location p else p_location u)\<rparr>"

definition new_skills :: "person \<Rightarrow> person \<Rightarrow> skill list" where
  "new_skills u p = filter (\<lambda>s. \<not> list_ex (\<lambda>s'. sk_name s' = lower (sk_name s)) (p_skills p)) (p_skills u)"

definition gone_skills :: "person \<Rightarrow> person \<Rightarrow> skill list" where
  "gone_skills u p = filter (\<lambda>s. \<not> list_ex (\<lambda>s'. sk_name s = sk_name s') (p_skills u)) (p_skills p)"

definition new_positions :: "person \<Rightarrow> person \<Rightarrow> workHistory list" where
  "new_positions u p = filter (\<lambda>h. \<not> list_ex (\<lambda>h'. wh_positionTitle h' = lower (wh_positionTitle h)) (p_workHistory p)) (p_workHistory u)"

definition gone_positions :: "person \<Rightarrow> person \<Rightarrow> workHistory list" where
  "gone_positions u p = filter (\<lambda>h. \<not> list_ex (\<lambda>h'. wh_positionTitle h = wh_positionTitle h') (p_workHistory u)) (p_workHistory p)"

lemma update_loops:
  "updateSkills u p = seq (for_each (new_skills u p) (\<lambda>s. saveSkill s (p_email u))) (for_each (gone_skills u p) (\<lambda>s. deleteUserFromSkill (sk_name s) (p_email u)))"
  "updateWorkHistory u p = seq (for_each (new_positions u p) (\<lambda>h. savePosition (lower (wh_positionTitle h)) (p_email u)))
     (for_each (gone_positions u p) (\<lambda>h. deleteUserFromJobPosition (wh_positionTitle h) (p_email u)))"
  by (simp_all add: updateSkills_def updateWorkHistory_def new_skills_def gone_skills_def new_positions_def gone_positions_def for_each_if)

lemma update_indexes:
  assumes "dbw_ok w" "index_inv w" "mail_ok (p_email u)" "distinct (map sk_name (p_skills p))"
    and "\<And>s. s \<in> set (p_skills p) \<Longrightarrow> mail_in w (sk_name s) (p_email u)"
    and "\<And>h. h \<in> set (p_workHistory p) \<Longrightarrow> kv w (USER_JOBPOSITION @ lower (wh_positionTitle h)) \<noteq> None"
    and "\<And>s. s \<in> set (p_skills u) \<Longrightarrow> lower (sk_name s) = sk_name s"
    and "wh_positionTitle ` set (gone_positions u p) \<inter> sk_name ` set (p_skills u) = {}"
  shows "\<exists>w'. seq (updateSkills u p) (updateWorkHistory u p) w = (Inr (), w') \<and> dbw_ok w' \<and> index_inv w' \<and> (\<forall>k. \<not> index_key k \<longrightarrow> kv w' k = kv w k)
     \<and> (\<forall>s \<in> set (p_skills u). mail_in w' (sk_name s) (p_email u)) \<and> (\<forall>s \<in> set (gone_skills u p). \<not> mail_in w' (sk_name s) (p_email u))
     \<and> (\<forall>h \<in> set (p_workHistory u). kv w' (USER_JOBPOSITION @ lower (wh_positionTitle h)) \<noteq> None)"
proof -
  let ?m = "p_email u"
  let ?K1 = "\<Union>s \<in> set (new_skills u p). {USER_SKILL @ lower (sk_name s)}" and ?K3 = "\<Union>h \<in> set (new_positions u p). {USER_JOBPOSITION @ lower (wh_positionTitle h)}"
  have gr: "grows ?m ?K1 (for_each (new_skills u p) (\<lambda>s. saveSkill s ?m))"
    "grows ?m ?K3 (for_each (new_positions u p) (\<lambda>h. savePosition (lower (wh_positionTitle h)) ?m))"
    by (intro growth assms(3))+
  obtain w1 where w1: "for_each (new_skills u p) (\<lambda>s. saveSkill s ?m) w = (Inr (), w1)" and g1: "grown ?m ?K1 w w1"
    using growsE [OF gr(1) assms(1,2)] .
  have sk1: "mail_in w1 (sk_name s) ?m" if mem: "s \<in> set (p_skills u)" for s
  proof (cases "s \<in> set (new_skills u p)")
    case True
    then have "USER_SKILL @ lower (sk_name s) \<in> ?K1"
      by blast
    then have "USER_SKILL @ sk_name s \<in> ?K1"
      unfolding assms(7) [OF mem] .
    then show ?thesis
      by (rule grown_mail_in(2) [OF g1 assms(2)])
  next
    case False
    then obtain s' where "s' \<in> set (p_skills p)" "sk_name s' = sk_name s"
      using mem assms(7) [OF mem] by (auto simp: new_skills_def list_ex_iff)
    then show ?thesis
      using grown_mail_in(1) [OF g1 assms(5) [of s']] by simp
  qed
  have "distinct (map sk_name (gone_skills u p))"
    using assms(4) by (simp add: gone_skills_def distinct_map_filter)
  moreover have "kv w1 (USER_SKILL @ sk_name s) \<noteq> None" if "s \<in> set (gone_skills u p)" for s
    using that mail_in_entry [OF grown_mail_in(1) [OF g1 assms(5) [of s]]] by (simp add: gone_skills_def)
  ultimately obtain w2 where w2: "for_each (gone_skills u p) (\<lambda>s. deleteUserFromSkill (sk_name s) ?m) w1 = (Inr (), w2)" "dbw_ok w2" "index_inv w2"
    "\<forall>s \<in> set (gone_skills u p). \<forall>ms. skill_index w1 (sk_name s) ms \<longrightarrow> skill_index w2 (sk_name s) (filter (\<lambda>x. x \<noteq> ?m) ms)"
    "\<forall>k. k \<notin> (\<lambda>s. USER_SKILL @ sk_name s) ` set (gone_skills u p) \<longrightarrow> kv w2 k = kv w1 k"
    using delete_skills [OF grownD(1,2) [OF g1] assms(3), of "gone_skills u p"] by auto
  have fr2: "kv w2 k = kv w1 k" if "\<not> index_key k \<or> (\<exists>x. k = USER_JOBPOSITION @ x)" for k
  proof -
    have "k \<notin> (\<lambda>s. USER_SKILL @ sk_name s) ` set (gone_skills u p)"
      using that skill_job_apart(2) by (metis imageE index_key_def)
    then show ?thesis
      using w2(5) by simp
  qed
  have sk2: "mail_in w2 (sk_name s) ?m" if "s \<in> set (p_skills u)" for s
  proof -
    have "USER_SKILL @ sk_name s \<notin> (\<lambda>s. USER_SKILL @ sk_name s) ` set (gone_skills u p)"
      using that by (auto simp: gone_skills_def list_ex_iff)
    then have "kv w2 (USER_SKILL @ sk_name s) = kv w1 (USER_SKILL @ sk_name s)"
      using w2(5) by blast
    then show ?thesis
      using sk1 [OF that] mail_in_cong by blast
  qed
  have gone2: "\<not> mail_in w2 (sk_name s) ?m" if s: "s \<in> set (gone_skills u p)" for s
  proof -
    obtain ms where "skill_index w1 (sk_name s) ms"
      using grownD(2) [OF g1] by (auto simp: index_inv_def)
    then have "skill_index w2 (sk_name s) (filter (\<lambda>x. x \<noteq> ?m) ms)"
      using w2(4) s by blast
    then show ?thesis
      unfolding mail_in_def using skill_index_unique by fastforce
  qed
  obtain w3 where w3: "for_each (new_positions u p) (\<lambda>h. savePosition (lower (wh_positionTitle h)) ?m) w2 = (Inr (), w3)" and g3: "grown ?m ?K3 w2 w3"
    using growsE [OF gr(2) w2(2,3)] .
  have sk3: "kv w3 (USER_SKILL @ x) = kv w2 (USER_SKILL @ x)" for x
    using skill_job_apart by (intro grownD(4) [OF g3]) auto
  have old3: "kv w3 (USER_JOBPOSITION @ lower (wh_positionTitle h)) \<noteq> None" if "h \<in> set (p_workHistory p)" for h
  proof -
    have "kv w2 (USER_JOBPOSITION @ lower (wh_positionTitle h)) \<noteq> None"
      using grownD(3) [OF g1 assms(6) [OF that]] fr2 by simp
    then show ?thesis
      by (rule grownD(3) [OF g3])
  qed
  have new3: "kv w3 (USER_JOBPOSITION @ lower (wh_positionTitle h)) \<noteq> None" if mem: "h \<in> set (p_workHistory u)" for h
  proof (cases "h \<in> set (new_positions u p)")
    case True
    then show ?thesis
      by (intro grownD(5) [OF g3]) auto
  next
    case False
    then obtain h' where "h' \<in> set (p_workHistory p)" "wh_positionTitle h' = lower (wh_positionTitle h)"
      using mem by (auto simp: new_positions_def list_ex_iff)
    then show ?thesis
      using old3 [of h'] by simp
  qed
  have "kv w3 (USER_JOBPOSITION @ lower (wh_positionTitle h)) \<noteq> None" if "h \<in> set (gone_positions u p)" for h
    using old3 that by (simp add: gone_positions_def)
  then obtain w4 where w4: "for_each (gone_positions u p) (\<lambda>h. deleteUserFromJobPosition (wh_positionTitle h) ?m) w3 = (Inr (), w4)" "dbw_ok w4" "index_inv w4"
    "\<forall>x. kv w4 (USER_SKILL @ x) = kv w3 (USER_SKILL @ x) \<or> kv w4 (USER_SKILL @ x) = None \<and> x \<in> wh_positionTitle ` set (gone_positions u p)"
    "\<forall>x. kv w3 (USER_JOBPOSITION @ x) \<noteq> None \<longrightarrow> kv w4 (USER_JOBPOSITION @ x) \<noteq> None" "\<forall>k. k \<notin> position_keys (gone_positions u p) \<longrightarrow> kv w4 k = kv w3 k"
    using delete_positions [OF grownD(1,2) [OF g3], of "gone_positions u p" ?m] by blast
  have "mail_in w4 (sk_name s) ?m" if "s \<in> set (p_skills u)" for s
  proof -
    have "kv w4 (USER_SKILL @ sk_name s) = kv w2 (USER_SKILL @ sk_name s)"
      using w4(4) sk3 assms(8) that by (metis IntI empty_iff imageI)
    then show ?thesis
      using sk2 [OF that] mail_in_cong by blast
  qed
  moreover have "\<not> mail_in w4 (sk_name s) ?m" if s: "s \<in> set (gone_skills u p)" for s
    using w4(4) gone2 [OF s] sk3 mail_in_cong [of w4 "sk_name s" w2 ?m] mail_in_entry [of w4 "sk_name s" ?m] by metis
  moreover have "kv w4 k = kv w k" if "\<not> index_key k" for k
  proof -
    have "k \<notin> position_keys (gone_positions u p)" "k \<notin> ?K3" "k \<notin> ?K1"
      using that position_keys_index unfolding index_key_def by blast+
    then show ?thesis
      using w4(6) grownD(4) [OF g3] grownD(4) [OF g1] fr2 that by simp
  qed
  ultimately show ?thesis
    using w1 w2(1) w3 w4(1-3,5) new3 by (intro exI [of _ w4]) (simp add: update_loops)
qed

lemma updateName_run:
  assumes "dbw_ok w" "index_inv w" "kv w (USER_NAME_ID @ getFullName p @ ''_'' @ m) \<noteq> None" "p_email p = m" "p_email u = m"
  shows "\<exists>w'. updateName u p w = (Inr (), w') \<and> dbw_ok w' \<and> index_inv w' \<and> kv w' (USER_NAME_ID @ getFullName u @ ''_'' @ m) \<noteq> None
     \<and> (\<forall>k. (\<forall>x. k \<noteq> USER_NAME_ID @ x) \<longrightarrow> kv w' k = kv w k)"
proof (cases "getFullName p = getFullName u")
  case True
  then show ?thesis
    using assms by (simp add: updateName_def if_do_def ret_def)
next
  case False
  let ?w = "kv_put (USER_NAME_ID @ getFullName u @ ''_'' @ m) m (kv_del (USER_NAME_ID @ getFullName p @ ''_'' @ m) w)"
  have "updateName u p w = (Inr (), ?w)"
    using False assms by (simp add: updateName_def if_do_def deleteUserNameKey_def saveUserNameKey_def)
  moreover have "index_inv ?w"
    using assms(1,2) by (simp add: kv_put_index_inv kv_del_index_inv key_apart_skill)
  ultimately show ?thesis
    using assms(1) by (intro exI [of _ ?w]) simp
qed

lemma updatePassword_run:
  assumes "dbw_ok w" "index_inv w" "kv w (USER_PASSWORD @ m) = Some (p_password p)" "p_email p = m" "p_email u = m"
  shows "\<exists>w'. updatePassword u p w = (Inr (), w') \<and> dbw_ok w' \<and> index_inv w' \<and> kv w' (USER_PASSWORD @ m) = Some (p_password u)
     \<and> (\<forall>k. k \<noteq> USER_PASSWORD @ m \<longrightarrow> kv w' k = kv w k)"
proof (cases "p_password p = p_password u")
  case True
  then show ?thesis
    using assms by (simp add: updatePassword_def if_do_def ret_def)
next
  case False
  let ?w = "kv_put (USER_PASSWORD @ m) (p_password u) (kv_del (USER_PASSWORD @ m) w)"
  have "updatePassword u p w = (Inr (), ?w)"
    using False assms by (simp add: updatePassword_def if_do_def deleteUserPasswordKey_def saveUserPasswordKey_def)
  moreover have "index_inv ?w"
    using assms(1,2) by (simp add: kv_put_index_inv kv_del_index_inv key_apart_skill)
  ultimately show ?thesis
    using assms(1) by (intro exI [of _ ?w]) simp
qed

text \<open>The password step, and the steps after it.\<close>

lemma seq_assoc: "seq (seq a b) c = seq a (seq b c)"
  by (auto simp: seq_def bnd_def fun_eq_iff split: prod.split sum.split)

lemma updateUser_run:
  assumes "registered L w p" and "person_deserialize L j = Inr u" and "p_id u = p_id p"
    and "distinct (map sk_name (p_skills p))"
    and "wh_positionTitle ` set (gone_positions u p) \<inter> sk_name ` set (p_skills u) = {}"
    and "double_safe L (latitude (p_location u))" and "double_safe L (longitude (p_location u))"
  shows "\<exists>w'. updateUser L j w = (Inr (p_id p), w') \<and> registered L w' (merged u p)
    \<and> (\<forall>s \<in> set (gone_skills u p). \<not> mail_in w' (sk_name s) (p_email p))"
proof -
  let ?m = "p_email p" and ?u = "u\<lparr>p_email := p_email p\<rparr>" and ?q = "merged u p"
  have w: "dbw_ok w" "index_inv w" "mail_ok ?m" "stored_user L w p" "kv w (USER_UUID_ID @ to_string (p_id p)) = Some ?m"
    "kv w (USER_PASSWORD @ ?m) = Some (p_password p)" "kv w (USER_NAME_ID @ getFullName p @ ''_'' @ ?m) \<noteq> None"
    "\<And>s. s \<in> set (p_skills p) \<Longrightarrow> mail_in w (sk_name s) ?m"
    "\<And>h. h \<in> set (p_workHistory p) \<Longrightarrow> kv w (USER_JOBPOSITION @ lower (wh_positionTitle h)) \<noteq> None"
    using assms(1) by (auto simp: registered_def)
  have old: "getUserById L (p_id p) w = (Inr p, w)"
    using w(1,5) getUserByMail_run [OF w(1,4) refl] by (simp add: getUserById_def)
  obtain w1 where w1: "updateName ?u p w = (Inr (), w1)" "dbw_ok w1" "index_inv w1" "kv w1 (USER_NAME_ID @ getFullName ?u @ ''_'' @ ?m) \<noteq> None"
    "\<forall>k. (\<forall>x. k \<noteq> USER_NAME_ID @ x) \<longrightarrow> kv w1 k = kv w k"
    using updateName_run [OF w(1,2,7) refl, of ?u] by auto
  have k1: "kv w1 (USER_SKILL @ x) = kv w (USER_SKILL @ x)" "kv w1 (USER_JOBPOSITION @ x) = kv w (USER_JOBPOSITION @ x)"
    "kv w1 (USER_PASSWORD @ x) = kv w (USER_PASSWORD @ x)" "kv w1 (USER_UUID_ID @ x) = kv w (USER_UUID_ID @ x)" for x
    using w1(5) by (simp_all add: key_defs)
  have low: "lower (sk_name s) = sk_name s" if "s \<in> set (p_skills u)" for s
    using deserialize_lower [OF assms(2)] that by (auto simp: list_all_iff)
  have gone: "gone_positions ?u p = gone_positions u p" "gone_skills ?u p = gone_skills u p"
    by (simp_all add: gone_positions_def gone_skills_def)
  obtain w2 where w2: "seq (updateSkills ?u p) (updateWorkHistory ?u p) w1 = (Inr (), w2)" "dbw_ok w2" "index_inv w2"
    "\<forall>k. \<not> index_key k \<longrightarrow> kv w2 k = kv w1 k" "\<forall>s \<in> set (p_skills u). mail_in w2 (sk_name s) ?m"
    "\<forall>s \<in> set (gone_skills u p). \<not> mail_in w2 (sk_name s) ?m"
    "\<forall>h \<in> set (p_workHistory u). kv w2 (USER_JOBPOSITION @ lower (wh_positionTitle h)) \<noteq> None"
    using update_indexes [OF w1(2,3), of ?u p] w(3,8,9) k1 mail_in_cong [OF k1(1)] assms(4,5) low gone by auto
  let ?u2 = "?u\<lparr>p_totRecommendations := p_totRecommendations p\<rparr>"
  let ?u3 = "?u2\<lparr>p_password := p_password ?q\<rparr>"
  let ?pw = "(if p_password u = '''' then ret (?u2\<lparr>p_password := p_password p\<rparr>) else seq (updatePassword ?u2 p) (ret ?u2))"
  obtain w3 where w3: "?pw w2 = (Inr ?u3, w3)"
    "dbw_ok w3" "index_inv w3" "kv w3 (USER_PASSWORD @ ?m) = Some (p_password ?q)" "\<forall>k. k \<noteq> USER_PASSWORD @ ?m \<longrightarrow> kv w3 k = kv w2 k"
  proof (cases "p_password u = ''''")
    case True
    then show ?thesis
      using that [of w2] w2(2-4) k1(3) w(6) index_key_apart(4) by (simp add: ret_def merged_def)
  next
    case False
    have "kv w2 (USER_PASSWORD @ ?m) = Some (p_password p)"
      using w2(4) k1(3) w(6) index_key_apart(4) by simp
    then show ?thesis
      using that updatePassword_run [OF w2(2,3) _ refl, where p = p and u = ?u2] False by (fastforce simp: ret_def merged_def)
  qed
  have q: "(if location_isEmpty (p_location ?u3) then ?u3\<lparr>p_location := p_location p\<rparr> else ?u3) = ?q"
    by (simp add: merged_def)
  let ?w = "kv_put (USER_MAIL_ID @ ?m) (fastWrite L (person_enc ?q)) w3"
  have "seq (updateSkills ?u p) (seq (updateWorkHistory ?u p) q) w1 = q w2" for q :: "int prog"
    using w2(1) seq_assoc [of "updateSkills ?u p" "updateWorkHistory ?u p" q, symmetric] by simp
  then have "updateUser L j w = bnd ?pw (\<lambda>u3. let u4 = (if location_isEmpty (p_location u3) then u3\<lparr>p_location := p_location p\<rparr> else u3) in
      seq (saveUser L u4) (ret (p_id u4))) w2"
    using assms(2,3) old w1(1) by (simp add: updateUser_def handle_def Let_def)
  moreover have "saveUser L ?q w3 = (Inr (), ?w)"
    using saveUser_run [OF w3(2), of L ?q] by (simp add: merged_def)
  ultimately have run: "updateUser L j w = (Inr (p_id p), ?w)"
    unfolding bnd_Inr [of ?pw, OF w3(1)] q Let_def using assms(3) by (simp add: ret_def merged_def)
  have ok: "person_ok L ?q"
    using deserialize_lower [OF assms(2)] w(4) assms(3,6,7) by (auto simp: person_ok_def stored_user_def merged_def)
  have fr: "kv ?w k = kv w1 k" if "\<not> index_key k" "k \<noteq> USER_MAIL_ID @ ?m" "k \<noteq> USER_PASSWORD @ ?m" for k
    using that w3(2,5) w2(4) by simp
  have keys: "kv ?w (USER_UUID_ID @ to_string (p_id p)) = Some ?m" "kv ?w (USER_PASSWORD @ ?m) = Some (p_password ?q)"
    "kv ?w (USER_NAME_ID @ getFullName ?u @ ''_'' @ ?m) \<noteq> None"
    using fr [of "USER_UUID_ID @ to_string (p_id p)"] fr [of "USER_NAME_ID @ getFullName ?u @ ''_'' @ ?m"] w3(2,4) w(5) w1(4) k1(4) index_key_apart
    by (simp_all add: key_defs)
  have idx: "kv ?w (USER_SKILL @ x) = kv w2 (USER_SKILL @ x)" "kv ?w (USER_JOBPOSITION @ x) = kv w2 (USER_JOBPOSITION @ x)" for x
    using w3(2,5) by (simp_all add: key_defs)
  have ms: "mail_in ?w x ?m = mail_in w2 x ?m" for x
    using idx(1) by (rule mail_in_cong)
  have m: "p_email ?q = ?m" "p_id ?q = p_id p" "p_skills ?q = p_skills u" "p_workHistory ?q = p_workHistory u" "getFullName ?q = getFullName ?u"
    using assms(3) by (simp_all add: merged_def getFullName_def)
  have "dbw_ok ?w" "index_inv ?w" "stored_user L ?w ?q"
    using w3(2,3) ok by (simp_all add: kv_put_index_inv key_apart_skill stored_user_def m(1))
  then have "registered L ?w ?q"
    using keys w(3) w2(5,7) low unfolding registered_def m idx ms by simp
  then show ?thesis
    using run w2(6) ms by blast
qed

text \<open>
  C7. An update of a registered user keeps him registered with the new profile, when the names of his old
  skills differ, no position that is removed has the name of a new skill (\<open>deleteUserFromJobPosition\<close> may remove that skill), and
  the new coordinates print and read as themselves: the mail and the
  number of recommendations stay, an empty password or an empty place keeps the old one, his mail is in the index of every new skill and
  no longer in the index of a skill that he gave up, the index of every new position has an entry (which may lack his mail), the
  user is found under his identifier, and exactly the new password opens a session.
\<close>

theorem updateUser_keeps_registered:
  assumes "registered L w p" and "person_deserialize L j = Inr u" and "p_id u = p_id p"
    and "distinct (map sk_name (p_skills p))"
    and "wh_positionTitle ` set (gone_positions u p) \<inter> sk_name ` set (p_skills u) = {}"
    and "double_safe L (latitude (p_location u))" and "double_safe L (longitude (p_location u))"
  shows "\<exists>w'. updateUser L j w = (Inr (p_id p), w') \<and> registered L w' (merged u p)
    \<and> (\<forall>s \<in> set (gone_skills u p). \<not> mail_in w' (sk_name s) (p_email p))
    \<and> getUserById L (p_id p) w' = (Inr (merged u p), w')
    \<and> (\<exists>token w''. login (at L t) (p_email p) (p_password (merged u p)) w' = (Inr token, w''))
    \<and> (\<forall>pw. pw \<noteq> p_password (merged u p) \<longrightarrow> login (at L t) (p_email p) pw w' = (Inl InvalidPassword, w'))"
proof -
  obtain w' where w': "updateUser L j w = (Inr (p_id p), w')" "registered L w' (merged u p)"
    and gone: "\<forall>s \<in> set (gone_skills u p). \<not> mail_in w' (sk_name s) (p_email p)"
    using updateUser_run [OF assms] by blast
  have r: "dbw_ok w'" "stored_user L w' (merged u p)" "kv w' (USER_UUID_ID @ to_string (p_id p)) = Some (p_email p)"
    "kv w' (USER_PASSWORD @ p_email p) = Some (p_password (merged u p))" "p_email (merged u p) = p_email p"
    using w'(2) assms(3) by (simp_all add: registered_def merged_def)
  have "getUserById L (p_id p) w' = (Inr (merged u p), w')"
    using r(1,3) getUserByMail_run [OF r(1,2,5)] by (simp add: getUserById_def)
  moreover have "\<forall>pw. pw \<noteq> p_password (merged u p) \<longrightarrow> login (at L t) (p_email p) pw w' = (Inl InvalidPassword, w')"
    using r(1,4) by (simp add: login_def)
  ultimately show ?thesis
    using w' gone login_run [OF r(1,2,5,4)] by blast
qed

section \<open>Examples\<close>

definition ada_twice :: person where
  "ada_twice = person_ada\<lparr>p_skills := p_skills person_ada @ p_skills person_ada, p_workHistory := []\<rparr>"

definition ada_twice_db :: dbw where
  "ada_twice_db = kv_put (USER_SKILL @ ''math'') (mails_text [''ada@x'', ''ada@x'']) (put_user libc_plain ada_twice (dbw_of []))"

lemma ada_deserialized: "person_deserialize libc_plain (person_enc person_ada) = Inr person_ada"
  by (simp add: person_deserialize_def person_enc_def person_ada_def member_list_def str_member_def long_member_def double_member_def
      asLargestInt_def minInt_def maxInt_def skill_enc_def workHistory_enc_def skill_deserialize_def workHistory_deserialize_def
      lower_def tolower_def)

lemma index_inv_empty: "index_inv (dbw_of [])"
  by (auto simp: index_inv_def skill_index_def smap_get_def intro: exI [of _ "[]"])

lemma ada_twice_registered: "registered libc_plain ada_twice_db ada_twice"
proof -
  have ok: "dbw_ok (put_user libc_plain ada_twice (dbw_of []))" "index_inv (put_user libc_plain ada_twice (dbw_of []))"
    using index_inv_empty by (simp_all add: dbw_of_ok put_user_def kv_put_index_inv key_apart_skill)
  have i: "skill_index ada_twice_db ''math'' [''ada@x'', ''ada@x'']"
    using ok(1) by (simp add: skill_index_def ada_twice_db_def mail_ok_def)
  then have "index_inv ada_twice_db"
    using index_inv_update [OF ok(2)] ok(1) by (simp add: ada_twice_db_def)
  moreover have "lower ''math'' = ''math''"
    by code_simp
  moreover have "person_ok libc_plain ada_twice"
    using person_ada_ok by (simp add: person_ok_def ada_twice_def person_ada_def)
  moreover have "mail_in ada_twice_db ''math'' ''ada@x''"
    unfolding mail_in_def using i by (intro exI [of _ "[''ada@x'', ''ada@x'']"]) simp
  ultimately show ?thesis
    using ok(1) by (simp add: registered_def stored_user_def ada_twice_db_def put_user_def dbw_of_ok key_defs)
      (simp add: ada_twice_def person_ada_def mail_ok_def)
qed


lemma twice_listed_skill_traps_account_witness:
  "\<exists>w'. deletePerson libc_plain 7 ada_twice_db = (Inl (UserNotFound_id 7), w')
    \<and> savePerson libc_plain (person_enc person_ada) (-1) w' = (Inl UserAlreadyExists, w')"
proof -
  let ?s = "\<lparr>sk_name = ''math'', sk_description = ''d'', sk_category = ''c''\<rparr>"
  have p: "p_skills ada_twice = [] @ ?s # [] @ ?s # []" "p_id ada_twice = 7" "p_email ada_twice = ''ada@x''" "p_email person_ada = ''ada@x''"
    by (simp_all add: ada_twice_def person_ada_def)
  have i: "skill_index ada_twice_db (sk_name ?s) [''ada@x'', ''ada@x'']"
    using ada_twice_registered by (simp add: registered_def skill_index_def ada_twice_db_def put_user_def dbw_of_ok mail_ok_def)
  show ?thesis
    using twice_listed_skill_traps_account [OF ada_twice_registered p(1) refl i _ ada_deserialized] p by auto
qed

text \<open>An update that leaves the password empty and replaces the skill and the position.\<close>

definition ada_new :: person where
  "ada_new = person_ada\<lparr>p_id := 1, p_password := '''', p_skills := [\<lparr>sk_name = ''art'', sk_description = ''d'', sk_category = ''c''\<rparr>], p_workHistory := []\<rparr>"

lemma ada_new_deserialized: "person_deserialize libc_plain (person_enc ada_new) = Inr ada_new"
  by (simp add: person_deserialize_def person_enc_def ada_new_def person_ada_def member_list_def str_member_def long_member_def double_member_def
      asLargestInt_def minInt_def maxInt_def skill_enc_def skill_deserialize_def lower_def tolower_def)

theorem updateUser_keeps_registered_witness:
  "\<exists>w w' token w''. registered libc_plain w (person_ada\<lparr>p_id := 1\<rparr>) \<and> updateUser libc_plain (person_enc ada_new) w = (Inr 1, w')
    \<and> getUserById libc_plain 1 w' = (Inr (ada_new\<lparr>p_password := ''Pw''\<rparr>), w')
    \<and> login (at libc_plain 5) ''ada@x'' ''Pw'' w' = (Inr token, w'')
    \<and> login (at libc_plain 5) ''ada@x'' '''' w' = (Inl InvalidPassword, w')"
proof -
  let ?p = "person_ada\<lparr>p_id := 1\<rparr>"
  have "\<exists>w. savePerson libc_plain (person_enc person_ada) (-1) (dbw_of []) = (Inr (0 + 1), w)
      \<and> registered libc_plain w (person_ada\<lparr>p_id := 0 + 1, p_totRecommendations := 0\<rparr>) \<and> last_id w (0 + 1)
      \<and> (\<forall>k. \<not> index_key k \<longrightarrow> kv w k = kv (put_user libc_plain (person_ada\<lparr>p_id := 0 + 1, p_totRecommendations := 0\<rparr>) (kv_put ''lastID'' (to_string (0 + 1)) (dbw_of []))) k)
      \<and> (\<forall>k. kv (dbw_of []) k \<noteq> None \<longrightarrow> kv w k \<noteq> None) \<and> (\<forall>x m. mail_in (dbw_of []) x m \<longrightarrow> mail_in w x m)"
    by (rule savePerson_registers [OF _ index_inv_empty ada_deserialized])
      (simp_all add: dbw_of_ok last_id_def maxInt64_def person_ada_def mail_ok_def smap_get_def half_safe)
  then obtain w where w: "registered libc_plain w ?p"
    by (auto simp: person_ada_def)
  have m: "merged ada_new ?p = ada_new\<lparr>p_password := ''Pw''\<rparr>"
    by (simp add: merged_def ada_new_def person_ada_def location_isEmpty_def)
  have "\<exists>w'. updateUser libc_plain (person_enc ada_new) w = (Inr (p_id ?p), w') \<and> registered libc_plain w' (merged ada_new ?p)
    \<and> (\<forall>s \<in> set (gone_skills ada_new ?p). \<not> mail_in w' (sk_name s) (p_email ?p))
    \<and> getUserById libc_plain (p_id ?p) w' = (Inr (merged ada_new ?p), w')
    \<and> (\<exists>token w''. login (at libc_plain 5) (p_email ?p) (p_password (merged ada_new ?p)) w' = (Inr token, w''))
    \<and> (\<forall>pw. pw \<noteq> p_password (merged ada_new ?p) \<longrightarrow> login (at libc_plain 5) (p_email ?p) pw w' = (Inl InvalidPassword, w'))"
    by (rule updateUser_keeps_registered [OF w ada_new_deserialized])
      (simp_all add: ada_new_def person_ada_def gone_positions_def half_safe)
  then obtain w' token w'' where "updateUser libc_plain (person_enc ada_new) w = (Inr 1, w')"
    "getUserById libc_plain 1 w' = (Inr (ada_new\<lparr>p_password := ''Pw''\<rparr>), w')"
    "login (at libc_plain 5) ''ada@x'' ''Pw'' w' = (Inr token, w'')" "login (at libc_plain 5) ''ada@x'' '''' w' = (Inl InvalidPassword, w')"
    unfolding m by (auto simp: person_ada_def)
  then show ?thesis
    using w by blast
qed

end
