(* ===== verification/Api.thy ===== *)
theory Api
  imports Person_Manager Json_Styled
begin

text \<open>
  The interface of the server to its clients: \<open>Response\<close> (\<open>api/Response.cpp\<close>), the base class
  \<open>Handler\<close> (\<open>api/handler/Handler.cpp\<close>) that authenticates requests and turns exceptions into
  responses, and the routes of \<open>WebHandler\<close> (\<open>api/WebHandler.cpp\<close>).
\<close>

section \<open>Response\<close>

text \<open>The memory that \<open>binaryBody\<close> points to; None is \<open>hasBinaryContent = false\<close>.\<close>

datatype buffer = Alive string | Freed string

record response =
  rs_header :: string
  rs_body :: string
  rs_contentType :: string
  rs_bodyLength :: nat
  rs_binaryBody :: "buffer option"

definition Response0 :: response where
  "Response0 = \<lparr>rs_header = '''', rs_body = '''', rs_contentType = ''text/json'', rs_bodyLength = 0, rs_binaryBody = None\<rparr>"

definition CRLF :: string where
  "CRLF = [CHR 0x0D, CHR 0x0A]"

text \<open>The text that \<open>getHeader\<close> builds; the pointer it returns is to a string that it has deleted.\<close>

definition fullHeader :: "response \<Rightarrow> string" where
  "fullHeader r = ''HTTP/1.1 '' @ rs_header r @ CRLF @ ''Transfer-Encoding: chunked'' @ CRLF
     @ (if rs_bodyLength r \<noteq> 0 then ''Content-Type: '' @ rs_contentType r @ CRLF else '''')
     @ ''Content-Length: '' @ to_string (int (rs_bodyLength r)) @ CRLF @ CRLF"

definition setBody :: "string \<Rightarrow> response \<Rightarrow> response" where
  "setBody body r = r\<lparr>rs_body := body, rs_bodyLength := length (c_str body)\<rparr>"

definition setBinaryBody :: "string \<Rightarrow> string \<Rightarrow> response \<Rightarrow> response" where
  "setBinaryBody body contentType r = r\<lparr>rs_binaryBody := Some (Alive body), rs_bodyLength := length body, rs_contentType := contentType\<rparr>"

text \<open>\<open>getBody\<close> with the bytes that its caller reads.\<close>

definition getBody :: "response \<Rightarrow> string res" where
  "getBody r = (case rs_binaryBody r of None \<Rightarrow> Inr (c_str (rs_body r)) | Some (Alive b) \<Rightarrow> Inr b | Some (Freed b) \<Rightarrow> Inl Bad_pointer)"

definition setErrorBody :: "libc \<Rightarrow> string \<Rightarrow> response \<Rightarrow> response res" where
  "setErrorBody L errorDetails r = res_bind
     (json_fields NullV [(''successful'', StrV ''false''), (''error'', StrV errorDetails)])
     (\<lambda>root. Inr (setBody (toStyledString L root) r))"

definition setSuccessfulHeader :: "response \<Rightarrow> response" where
  "setSuccessfulHeader r = r\<lparr>rs_header := ''200 OK''\<rparr>"
definition setBadRequestHeader :: "response \<Rightarrow> response" where
  "setBadRequestHeader r = r\<lparr>rs_header := ''400 Bad Request''\<rparr>"
definition setUnauthorizedHeader :: "response \<Rightarrow> response" where
  "setUnauthorizedHeader r = r\<lparr>rs_header := ''401 Unauthorized''\<rparr>"
definition setForbiddenRequestHeader :: "response \<Rightarrow> response" where
  "setForbiddenRequestHeader r = r\<lparr>rs_header := ''403 Forbidden''\<rparr>"
definition setNotFoundHeader :: "response \<Rightarrow> response" where
  "setNotFoundHeader r = r\<lparr>rs_header := ''404 Not Found''\<rparr>"
definition setConflictHeader :: "response \<Rightarrow> response" where
  "setConflictHeader r = r\<lparr>rs_header := ''409 Conflict''\<rparr>"
definition setInternalServerErrorHeader :: "response \<Rightarrow> response" where
  "setInternalServerErrorHeader r = r\<lparr>rs_header := ''500 Internal Server Error''\<rparr>"
definition setNotImplementedHeader :: "response \<Rightarrow> response" where
  "setNotImplementedHeader r = r\<lparr>rs_header := ''501 Not Implemented''\<rparr>"

lemmas header_defs = setSuccessfulHeader_def setBadRequestHeader_def setUnauthorizedHeader_def setForbiddenRequestHeader_def
  setNotFoundHeader_def setConflictHeader_def setInternalServerErrorHeader_def setNotImplementedHeader_def

section \<open>The messages of the exceptions\<close>

text \<open>The accented letters are the two bytes of their UTF-8 form.\<close>

abbreviation o_acute :: string where "o_acute \<equiv> [CHR 0xC3, CHR 0xB3]"

fun what :: "libc \<Rightarrow> exn \<Rightarrow> string" where
  "what L BadImplementation = ''Implementaci'' @ o_acute @ ''n mal hecha. Debugear.''"
| "what L InvalidPassword = ''Combinaci'' @ o_acute @ ''n mail de usuario y contrase'' @ [CHR 0xC3, CHR 0xB1] @ ''a inv'' @ [CHR 0xC3, CHR 0xA1] @ ''lida.''"
| "what L InvalidToken = ''El login no corresponde con una sesi'' @ o_acute @ ''n abierta valida   ''"
| "what L NotAuthorized = ''El usuario no tiene permisos para realizar la acci'' @ o_acute @ ''n''"
| "what L SpecialRequest = ''Se busca algo especial...''"
| "what L TokenExpired = ''La sesi'' @ o_acute @ ''n expir'' @ o_acute @ ''.''"
| "what L UserAlreadyExists = ''El usuario ya existe en el sistema''"
| "what L (Std_runtime_error m) = m"
| "what L e = std_what L e"

text \<open>\<open>UserNotFoundException::getMessage\<close>: the member that the constructor did not set is uninitialised or empty.\<close>

definition not_found_message_id :: "libc \<Rightarrow> exn \<Rightarrow> string" where
  "not_found_message_id L e = ''Usuario con el id '' @ to_string (case e of UserNotFound_id i \<Rightarrow> i | _ \<Rightarrow> uninit_long L)
     @ '' no existe en el sistema''"

definition not_found_message_mail :: "exn \<Rightarrow> string" where
  "not_found_message_mail e = ''Usuario con el mail '' @ (case e of UserNotFound_mail m \<Rightarrow> m | _ \<Rightarrow> '''')
     @ '' no existe en el sistema''"

section \<open>Requests\<close>

text \<open>
  What the handlers read of \<open>struct http_message\<close>. The handlers read the body as a C string from
  its first byte, past its length: \<open>hm_after\<close> is the memory behind it.
\<close>

record http_message =
  hm_method :: string
  hm_uri :: string
  hm_query_string :: string
  hm_headers :: "(string \<times> string) list"
  hm_body :: string
  hm_after :: string

definition requestBody :: "http_message \<Rightarrow> string" where
  "requestBody hm = c_str (hm_body hm @ hm_after hm)"

text \<open>\<open>mg_get_http_header\<close>: the first header with the name, whatever the case; an empty name ends the table.\<close>

definition mg_get_http_header :: "http_message \<Rightarrow> string \<Rightarrow> string option" where
  "mg_get_http_header hm name = map_option snd
     (List.find (\<lambda>(h, v). length h = length name \<and> lower h = lower name) (takeWhile (\<lambda>(h, v). h \<noteq> '''') (hm_headers hm)))"

definition getHttpHeader :: "http_message \<Rightarrow> string \<Rightarrow> string" where
  "getHttpHeader hm name = (case mg_get_http_header hm name of None \<Rightarrow> '''' | Some v \<Rightarrow> c_str v)"

definition parseBody :: "libc \<Rightarrow> string \<Rightarrow> json res" where
  "parseBody L body = res_bind (parse_json L body) (\<lambda>(ok, root). if \<not> ok then Inl (InvalidRequest ''Invalid Json.'') else Inr root)"

definition getSubUrl :: "string \<Rightarrow> string" where
  "getSubUrl url = (let sp = 1 + length (takeWhile (\<lambda>c. c \<noteq> CHR ''/'') (drop 1 url)) in
     if length url \<le> sp + 1 then '''' else drop (sp + 1) url)"

definition parseUrl :: "string \<Rightarrow> string list" where
  "parseUrl url = (if getSubUrl url \<noteq> '''' then [getSubUrl url] else [])"

definition number_or :: "string \<Rightarrow> 'a res \<Rightarrow> 'a res" where
  "number_or msg r = (case r of Inl Std_invalid_argument \<Rightarrow> Inl (InvalidRequest msg) | _ \<Rightarrow> r)"

definition getUserIdFromUrl :: "string \<Rightarrow> int res" where
  "getUserIdFromUrl url = (let parsedUrl = parseUrl url in
     if length parsedUrl \<noteq> 1 then Inl (InvalidRequest ''Cannot get user id from url.'')
     else number_or ''Not a numeric id'' (stol (parsedUrl ! 0)))"

text \<open>\<open>std::string::find\<close>.\<close>

fun find_sub :: "string \<Rightarrow> string \<Rightarrow> nat option" where
  "find_sub pat [] = (if pat = [] then Some 0 else None)"
| "find_sub pat (c # s) = (if take (length pat) (c # s) = pat then Some 0 else map_option Suc (find_sub pat s))"

text \<open>The second argument of \<open>substr\<close> is a length, and the code gives it an end position.\<close>

definition getParameterFromQueryParams :: "string \<Rightarrow> string \<Rightarrow> string res" where
  "getParameterFromQueryParams queryParams parameter = (case find_sub parameter queryParams of
       None \<Rightarrow> Inl (InvalidRequest (''Missing '' @ parameter @ '' parameter''))
     | Some found \<Rightarrow>
         if found + length parameter + 2 > length queryParams then Inl (InvalidRequest ''Invalid query params'')
         else Inr (take (found + length parameter + 2) (drop (found + length parameter + 1) queryParams)))"

section \<open>Handler\<close>

text \<open>A subclass of \<open>Handler\<close>: which methods need no session, and the methods. The session is a pointer that may be null.\<close>

type_synonym request_fun = "session option \<Rightarrow> http_message \<Rightarrow> string \<Rightarrow> response prog"

record handler =
  h_getPublic :: bool
  h_putPublic :: bool
  h_deletePublic :: bool
  h_postPublic :: bool
  h_get :: request_fun
  h_put :: request_fun
  h_delete :: request_fun
  h_post :: request_fun

definition session_user :: "session option \<Rightarrow> int res" where
  "session_user s = (case s of None \<Rightarrow> Inl Bad_pointer | Some s \<Rightarrow> Inr (se_user_id s))"

definition getNotImplementedResponse :: response where
  "getNotImplementedResponse = setNotImplementedHeader Response0"

definition controlAccess :: "libc \<Rightarrow> http_message \<Rightarrow> session prog" where
  "controlAccess L hm = (let token = getHttpHeader hm ''Authorization'' in
     if token = '''' then raise (InvalidRequest (''Falta el token de autenticaci'' @ o_acute @ ''n en el header''))
     else getSession L token)"

definition with_session :: "libc \<Rightarrow> bool \<Rightarrow> request_fun \<Rightarrow> http_message \<Rightarrow> string \<Rightarrow> response prog" where
  "with_session L public f hm url =
     (if public then f None hm url else bnd (controlAccess L hm) (\<lambda>s. f (Some s) hm url))"

fun handler_error :: "libc \<Rightarrow> exn \<Rightarrow> response res" where
  "handler_error L (InvalidRequest m) = setErrorBody L m (setBadRequestHeader Response0)"
| "handler_error L NotAuthorized = setErrorBody L (what L NotAuthorized) (setForbiddenRequestHeader Response0)"
| "handler_error L InvalidToken = Inr (setBody (what L InvalidToken) (setUnauthorizedHeader Response0))"
| "handler_error L TokenExpired = Inr (setBody (what L TokenExpired) (setUnauthorizedHeader Response0))"
| "handler_error L e = Inl e"

definition handleRequest :: "libc \<Rightarrow> handler \<Rightarrow> http_message \<Rightarrow> string \<Rightarrow> response prog" where
  "handleRequest L h hm url = handle
     (if hm_method hm = ''GET'' then with_session L (h_getPublic h) (h_get h) hm url
      else if hm_method hm = ''PUT'' then with_session L (h_putPublic h) (h_put h) hm url
      else if hm_method hm = ''DELETE'' then with_session L (h_deletePublic h) (h_delete h) hm url
      else if hm_method hm = ''POST'' then with_session L (h_postPublic h) (h_post h) hm url
      else ret getNotImplementedResponse)
     (\<lambda>e. lift (handler_error L e))"

section \<open>Routes\<close>

text \<open>\<open>pre.*\<close> as a regular expression: the dot matches every character but the line terminators.\<close>

definition route_prefix :: "string \<Rightarrow> string \<Rightarrow> bool" where
  "route_prefix pre url \<longleftrightarrow> take (length pre) url = pre
     \<and> list_all (\<lambda>c. c \<noteq> CHR 0x0A \<and> c \<noteq> CHR 0x0D) (drop (length pre) url)"

datatype route = R_users | R_picture | R_contacts | R_login | R_facebook | R_recommendations | R_messages
  | R_conversations | R_notification | R_search | R_special | R_none

definition route_of :: "string \<Rightarrow> route" where
  "route_of url =
     (if route_prefix ''/users/'' url \<or> url = ''/users'' then R_users
      else if route_prefix ''/profilepicture/'' url then R_picture
      else if route_prefix ''/contacts/'' url \<or> url = ''/contacts'' then R_contacts
      else if url = ''/login'' then R_login
      else if url = ''/facebooklogin'' then R_facebook
      else if route_prefix ''/recommendations'' url then R_recommendations
      else if route_prefix ''/messages/'' url \<or> url = ''/messages'' then R_messages
      else if route_prefix ''/conversations/'' url then R_conversations
      else if route_prefix ''/notificationtokens/'' url then R_notification
      else if route_prefix ''/search'' url then R_search
      else if route_prefix ''/profile'' url then R_special
      else R_none)"

text \<open>The end of \<open>WebHandler::handleRequest\<close>, with the handler that the route selects.\<close>

definition web_error :: "libc \<Rightarrow> exn \<Rightarrow> response res" where
  "web_error L e = (if e \<noteq> SpecialRequest \<and> is_std_exception e
     then setErrorBody L (what L e) (setInternalServerErrorHeader Response0) else Inl e)"

definition web_handleRequest :: "libc \<Rightarrow> (route \<Rightarrow> handler) \<Rightarrow> http_message \<Rightarrow> response prog" where
  "web_handleRequest L handler_of hm = handle
     (case route_of (hm_uri hm) of
        R_special \<Rightarrow> raise SpecialRequest
      | R_none \<Rightarrow> ret (setNotFoundHeader Response0)
      | r \<Rightarrow> handleRequest L (handler_of r) hm (hm_uri hm))
     (\<lambda>e. lift (web_error L e))"

section \<open>Access\<close>

lemma setErrorBody_eq: "\<exists>b. setErrorBody L m r = Inr (setBody b r)"
  by (auto simp: setErrorBody_def)

lemma setBody_header [simp]: "rs_header (setBody b r) = rs_header r"
  by (simp add: setBody_def)

text \<open>Which methods of a handler need no session.\<close>

definition is_public :: "handler \<Rightarrow> string \<Rightarrow> bool" where
  "is_public h m \<longleftrightarrow> m = ''GET'' \<and> h_getPublic h \<or> m = ''PUT'' \<and> h_putPublic h \<or> m = ''DELETE'' \<and> h_deletePublic h
     \<or> m = ''POST'' \<and> h_postPublic h \<or> m \<notin> {''GET'', ''PUT'', ''DELETE'', ''POST''}"

definition method_fun :: "handler \<Rightarrow> string \<Rightarrow> request_fun" where
  "method_fun h m = (if m = ''GET'' then h_get h else if m = ''PUT'' then h_put h else if m = ''DELETE'' then h_delete h else h_post h)"

lemma handleRequest_private:
  assumes "\<not> is_public h (hm_method hm)"
  shows "handleRequest L h hm url = handle (bnd (controlAccess L hm) (\<lambda>s. method_fun h (hm_method hm) (Some s) hm url))
    (\<lambda>e. lift (handler_error L e))"
  using assms by (auto simp: is_public_def handleRequest_def with_session_def method_fun_def)



end
