(* ===== verification/Handlers.thy ===== *)
theory Handlers
  imports Api
begin

text \<open>
  The handlers of the routes (\<open>api/handler/\<close>): users, contacts, conversations, login, messages,
  notification tokens, recommendations, search and login with Facebook, with the notifications
  they send (\<open>tools/NotificationSender.cpp\<close>) and the configuration (\<open>config/Config.cpp\<close>).
\<close>

section \<open>Configuration and commands\<close>

text \<open>The values of the configuration file, and what a command prints, None when \<open>popen\<close> fails.\<close>

record env =
  configValues :: json
  popen_output :: "string \<Rightarrow> string option"

definition config_get :: "libc \<Rightarrow> env \<Rightarrow> string \<Rightarrow> string res" where
  "config_get L env key = res_bind (isMember (configValues env) key) (\<lambda>b.
     if \<not> b then Inl (MissingConfiguration key) else str_member L (configValues env) key)"

text \<open>Texts of the source with a tilde in place of the double quote.\<close>

definition quoted :: "string \<Rightarrow> string" where
  "quoted s = map (\<lambda>c. if c = CHR ''~'' then dquote else c) s"

definition esc_quote :: string where
  "esc_quote = [bslash, dquote]"

definition buildCommonRequest :: "libc \<Rightarrow> env \<Rightarrow> string \<Rightarrow> string \<Rightarrow> string res" where
  "buildCommonRequest L env data token =
     res_bind (config_get L env ''firebaseAuthorizationKey'') (\<lambda>key.
     res_bind (config_get L env ''firebaseUrl'') (\<lambda>url.
     let header = quoted ''--header ~Authorization: key='' @ key @ quoted ''~'' @ '' '' @ quoted ''--header ~Content-Type: application/json~'';
         body = [dquote] @ ''{'' @ esc_quote @ ''to'' @ esc_quote @ '':'' @ esc_quote @ token @ esc_quote @ '',''
           @ esc_quote @ ''data'' @ esc_quote @ '':'' @ data @ ''}'' @ [dquote]
     in Inr (''curl -X POST'' @ '' '' @ header @ '' '' @ url @ '' '' @ ''-d'' @ '' '' @ body)))"

definition buildMessageRequest :: "libc \<Rightarrow> env \<Rightarrow> int \<Rightarrow> int \<Rightarrow> string \<Rightarrow> string \<Rightarrow> string \<Rightarrow> string res" where
  "buildMessageRequest L env fromUserId toUserId msg timestamp token = buildCommonRequest L env
     (''{'' @ esc_quote @ ''mensaje'' @ esc_quote @ '':{''
      @ esc_quote @ ''from'' @ esc_quote @ '':'' @ to_string fromUserId @ '',''
      @ esc_quote @ ''message'' @ esc_quote @ '':'' @ esc_quote @ msg @ esc_quote @ '',''
      @ esc_quote @ ''timestamp'' @ esc_quote @ '':'' @ esc_quote @ timestamp @ esc_quote @ '',''
      @ esc_quote @ ''to'' @ esc_quote @ '':'' @ to_string toUserId @ ''}}'') token"

definition buildContactRequest :: "libc \<Rightarrow> env \<Rightarrow> int \<Rightarrow> int \<Rightarrow> string \<Rightarrow> string \<Rightarrow> string res" where
  "buildContactRequest L env fromUserId toUserId name token = buildCommonRequest L env
     (''{'' @ esc_quote @ ''solicitud'' @ esc_quote @ '':{''
      @ esc_quote @ ''from'' @ esc_quote @ '':'' @ to_string fromUserId @ '',''
      @ esc_quote @ ''fromNombre'' @ esc_quote @ '':'' @ esc_quote @ name @ esc_quote @ '',''
      @ esc_quote @ ''toId'' @ esc_quote @ '':'' @ to_string toUserId @ ''}}'') token"

definition sendNotification :: "libc \<Rightarrow> env \<Rightarrow> string \<Rightarrow> string res" where
  "sendNotification L env request = res_bind (config_get L env ''dummyServerEnabled'') (\<lambda>dummy.
     if dummy = ''true'' then Inr ''''
     else case popen_output env (c_str request) of
       None \<Rightarrow> Inl (Std_runtime_error ''Failed request to Firebase'') | Some out \<Rightarrow> Inr out)"

section \<open>Shared by the handlers\<close>

definition catching :: "(exn \<Rightarrow> response res option) \<Rightarrow> response prog \<Rightarrow> response prog" where
  "catching h p = handle p (\<lambda>e. case h e of None \<Rightarrow> raise e | Some r \<Rightarrow> lift r)"

fun user_errors :: "libc \<Rightarrow> exn \<Rightarrow> response res option" where
  "user_errors L (InvalidRequest m) = Some (setErrorBody L m (setBadRequestHeader Response0))"
| "user_errors L e = (if is_UserNotFound e
     then Some (setErrorBody L (not_found_message_id L e) (setNotFoundHeader Response0)) else None)"

definition ok_json :: "libc \<Rightarrow> json \<Rightarrow> response" where
  "ok_json L v = setSuccessfulHeader (setBody (toStyledString L v) Response0)"

definition need_member :: "json \<Rightarrow> string \<Rightarrow> string \<Rightarrow> unit prog" where
  "need_member v key msg = bnd (lift (isMember v key)) (\<lambda>b. ensure b (InvalidRequest msg))"

definition permit :: "session option \<Rightarrow> (int \<Rightarrow> bool) \<Rightarrow> unit prog" where
  "permit s allowed = bnd (lift (session_user s)) (\<lambda>u. ensure (allowed u) NotAuthorized)"

definition not_implemented :: request_fun where
  "not_implemented s hm url = ret getNotImplementedResponse"

section \<open>UsersHandler\<close>

definition users_post :: "libc \<Rightarrow> request_fun" where
  "users_post L s hm url = catching (\<lambda>e. case e of
       UserAlreadyExists \<Rightarrow> Some (setErrorBody L (what L e) (setConflictHeader Response0))
     | InvalidRequest m \<Rightarrow> Some (setErrorBody L m (setBadRequestHeader Response0)) | _ \<Rightarrow> None)
     (bnd (lift (parseBody L (requestBody hm))) (\<lambda>parsedBody.
      bnd (savePerson L parsedBody (-1)) (\<lambda>ident.
      bnd (lift (json_set NullV ''id'' (IntV ident))) (\<lambda>responseBody. ret (ok_json L responseBody)))))"

definition users_get :: "libc \<Rightarrow> request_fun" where
  "users_get L s hm url = catching (user_errors L)
     (bnd (lift (getUserIdFromUrl url)) (\<lambda>userId.
      bnd (getUserById L userId) (\<lambda>person.
      bnd (lift (person_serialize (person\<lparr>p_password := ''''\<rparr>))) (\<lambda>body.
      bnd (pm_getRecommendationsByUserId L userId) (\<lambda>recommendations.
      bnd (lift (json_set body ''recommendations'' recommendations)) (\<lambda>body'. ret (ok_json L body')))))))"

definition users_delete :: "libc \<Rightarrow> request_fun" where
  "users_delete L s hm url = catching (user_errors L)
     (bnd (lift (getUserIdFromUrl url)) (\<lambda>userId.
      seq (permit s (\<lambda>u. hasPermissionToDeleteUser u userId))
      (seq (deletePerson L userId) (ret (setSuccessfulHeader Response0)))))"

definition users_put :: "libc \<Rightarrow> request_fun" where
  "users_put L s hm url = bnd (lift (getUserIdFromUrl url)) (\<lambda>userId.
     seq (permit s (\<lambda>u. hasPermissionToEdit u userId)) (catching (user_errors L)
     (bnd (lift (parseBody L (requestBody hm))) (\<lambda>parsedBody.
      bnd (lift (json_set parsedBody ''id'' (IntV userId))) (\<lambda>parsedBody'.
      bnd (updateUser L parsedBody') (\<lambda>ident.
      bnd (lift (json_set NullV ''id'' (IntV ident))) (\<lambda>responseBody. ret (ok_json L responseBody))))))))"

definition UsersHandler :: "libc \<Rightarrow> handler" where
  "UsersHandler L = \<lparr>h_getPublic = True, h_putPublic = False, h_deletePublic = False, h_postPublic = True,
     h_get = users_get L, h_put = users_put L, h_delete = users_delete L, h_post = users_post L\<rparr>"

section \<open>ContactsHandler\<close>

definition contact_entry :: "person \<Rightarrow> contact \<Rightarrow> json res" where
  "contact_entry person contact =
     res_bind (json_fields NullV [(''id'', IntV (p_id person)), (''first_name'', StrV (p_firstName person)), (''last_name'', StrV (p_lastName person))]) (\<lambda>v.
     res_bind (case getCurrentJob person of None \<Rightarrow> Inr v
       | Some job \<Rightarrow> res_bind (workHistory_serialize job) (\<lambda>j. json_set v ''current_job'' j)) (\<lambda>v'.
     json_set v' ''status'' (StrV (c_status contact))))"

fun contacts_loop :: "libc \<Rightarrow> json \<Rightarrow> contact list \<Rightarrow> json prog" where
  "contacts_loop L responseBody [] = ret responseBody"
| "contacts_loop L responseBody (contact # contacts) =
     bnd (getUserById L (c_userId contact)) (\<lambda>person.
     bnd (lift (contact_entry person contact)) (\<lambda>contactAsJson.
     bnd (lift (json_update responseBody ''contacts'' (\<lambda>a. json_append a contactAsJson))) (\<lambda>responseBody'.
     contacts_loop L responseBody' contacts)))"

definition contacts_get :: "libc \<Rightarrow> request_fun" where
  "contacts_get L s hm url = catching (user_errors L)
     (bnd (lift (getUserIdFromUrl url)) (\<lambda>userId.
      bnd (pm_getContactsByUserId L userId) (\<lambda>contacts.
      bnd (lift (json_update NullV ''metadata'' (\<lambda>m. json_set m ''count'' (UIntV (int (length contacts)))))) (\<lambda>v.
      bnd (contacts_loop L v contacts) (\<lambda>responseBody. ret (ok_json L responseBody))))))"

definition contacts_sendNotification :: "libc \<Rightarrow> env \<Rightarrow> json \<Rightarrow> unit prog" where
  "contacts_sendNotification L env parsedBody = handle
     (bnd (lift (long_member L parsedBody ''author_id'')) (\<lambda>fromUserId.
      bnd (lift (long_member L parsedBody ''contact_id'')) (\<lambda>toUserId.
      bnd (getNotificationTokenByUserId toUserId) (\<lambda>token.
      bnd (getUserById L fromUserId) (\<lambda>person.
      bnd (lift (buildContactRequest L env fromUserId toUserId (p_firstName person @ '' '' @ p_lastName person) token)) (\<lambda>request.
      seq (lift (sendNotification L env request)) (ret ())))))))
     (\<lambda>e. case e of NonexistentNotificationToken _ \<Rightarrow> ret () | _ \<Rightarrow> raise e)"

definition contacts_put :: "libc \<Rightarrow> env \<Rightarrow> request_fun" where
  "contacts_put L env s hm url = catching (user_errors L)
     (bnd (lift (parseBody L (requestBody hm))) (\<lambda>parsedBody.
      seq (need_member parsedBody ''action'' ''Missing action'')
      (seq (need_member parsedBody ''author_id'' ''Missing author_id'')
      (seq (need_member parsedBody ''contact_id'' ''Missing contact_id'')
      (bnd (lift (long_member L parsedBody ''author_id'')) (\<lambda>author_id.
       seq (permit s (\<lambda>u. hasPermissionToContactUser u author_id))
       (seq (saveOrUpdateRelation L parsedBody)
       (bnd (lift (json_get parsedBody ''action'')) (\<lambda>action.
        seq (if_do (action = StrV ADD_CONTACT_ACTION) (contacts_sendNotification L env parsedBody))
            (ret (setSuccessfulHeader Response0)))))))))))"

definition ContactsHandler :: "libc \<Rightarrow> env \<Rightarrow> handler" where
  "ContactsHandler L env = \<lparr>h_getPublic = False, h_putPublic = False, h_deletePublic = False, h_postPublic = False,
     h_get = contacts_get L, h_put = contacts_put L env, h_delete = not_implemented, h_post = not_implemented\<rparr>"

section \<open>ConversationsHandler\<close>

definition conversations_json :: "conversation list \<Rightarrow> int \<Rightarrow> json res" where
  "conversations_json conversations totalCount =
     res_bind (json_update NullV ''metadata'' (\<lambda>m. json_set m ''total_count'' (IntV totalCount))) (\<lambda>v.
     res_bind (append_member v ''conversations'' conversation_serialize conversations) (\<lambda>v'.
     json_update v' ''metadata'' (\<lambda>m. json_set m ''total_unread_count''
       (IntV (foldl (\<lambda>n c. signed_take_bit 31 (n + cv_unreadCount c)) 0 conversations)))))"

definition conversations_get :: "libc \<Rightarrow> request_fun" where
  "conversations_get L s hm url = catching (user_errors L)
     (bnd (lift (getUserIdFromUrl url)) (\<lambda>userId.
      seq (permit s (\<lambda>u. hasPermissionToGetMessages u userId))
      (bnd (getAllConversations L userId) (\<lambda>conversations.
       bnd (lift (conversations_json conversations (int (length conversations)))) (\<lambda>v. ret (ok_json L v))))))"

definition ConversationsHandler :: "libc \<Rightarrow> handler" where
  "ConversationsHandler L = \<lparr>h_getPublic = False, h_putPublic = False, h_deletePublic = False, h_postPublic = False,
     h_get = conversations_get L, h_put = not_implemented, h_delete = not_implemented, h_post = not_implemented\<rparr>"

section \<open>LoginHandler\<close>

fun login_errors_response :: "libc \<Rightarrow> exn \<Rightarrow> response res option" where
  "login_errors_response L InvalidPassword = Some (setErrorBody L (what L InvalidPassword) (setUnauthorizedHeader Response0))"
| "login_errors_response L e = (if is_UserNotFound e
     then Some (setErrorBody L (not_found_message_mail e) (setNotFoundHeader Response0)) else None)"

definition token_json_body :: "string \<Rightarrow> int \<Rightarrow> json res" where
  "token_json_body token user_id = json_fields NullV [(''token'', StrV token), (''user_id'', IntV user_id)]"

text \<open>The requests are checked, then the login is tried, then the response is built, each with the exceptions it catches.\<close>

definition login_post :: "libc \<Rightarrow> request_fun" where
  "login_post L s hm url = (\<lambda>w.
     case bnd (lift (parseBody L (requestBody hm))) (\<lambda>body.
          seq (need_member body ''email'' ''Mail member is missing'')
          (seq (need_member body ''password'' ''Password member is missing'') (ret body))) w of
       (Inl (InvalidRequest m), w') \<Rightarrow> (setErrorBody L m (setBadRequestHeader Response0), w')
     | (Inl e, w') \<Rightarrow> (Inl e, w')
     | (Inr body, w') \<Rightarrow>
         bnd (lift (str_member L body ''email'')) (\<lambda>user_mail.
         bnd (lift (str_member L body ''password'')) (\<lambda>user_password. \<lambda>w1.
           case login L user_mail user_password w1 of
             (Inl e, w2) \<Rightarrow> (case login_errors_response L e of None \<Rightarrow> (Inl e, w2) | Some r \<Rightarrow> (r, w2))
           | (Inr user_token, w2) \<Rightarrow>
               bnd (getUserId L user_token) (\<lambda>user_id.
               bnd (lift (token_json_body user_token user_id)) (\<lambda>v. ret (ok_json L v))) w2)) w')"

definition LoginHandler :: "libc \<Rightarrow> handler" where
  "LoginHandler L = \<lparr>h_getPublic = True, h_putPublic = True, h_deletePublic = True, h_postPublic = True,
     h_get = not_implemented, h_put = not_implemented, h_delete = not_implemented, h_post = login_post L\<rparr>"

section \<open>MessagesHandler\<close>

definition FIRST_INDEX :: int where "FIRST_INDEX = 1"
definition MAX_CANT :: int where "MAX_CANT = 10"

text \<open>\<open>std::stoi\<close>.\<close>

definition stoi :: "string \<Rightarrow> int res" where
  "stoi s = res_bind (stol s) (\<lambda>i. if minInt \<le> i \<and> i \<le> maxInt then Inr i else Inl Std_out_of_range)"

definition getToUserFromQueryParams :: "string \<Rightarrow> string \<Rightarrow> int res" where
  "getToUserFromQueryParams parameter queryParams =
     number_or ''Not a numeric id'' (res_bind (getParameterFromQueryParams queryParams parameter) stol)"

definition getIndexFromQueryParamsIfExists :: "string \<Rightarrow> string \<Rightarrow> int res" where
  "getIndexFromQueryParamsIfExists parameter queryParams =
     (if find_sub parameter queryParams = None then Inr 0
      else number_or ''Not a numeric parameter'' (res_bind (getParameterFromQueryParams queryParams parameter) stoi))"

text \<open>
  The positions are unsigned and count from the newest message; an access beyond the vector is
  a bad pointer. The loops before and after only delete the messages that are not returned.
\<close>

definition doTruncate :: "'a list \<Rightarrow> int \<Rightarrow> int \<Rightarrow> 'a list res" where
  "doTruncate messages first until =
     (let n = int (length messages);
          lastParameter = (n - first + 1) mod 2 ^ 64;
          firstParameter = (n - until + 1) mod 2 ^ 64
      in if lastParameter < firstParameter then Inr []
         else if 1 \<le> firstParameter \<and> lastParameter \<le> n
         then Inr (take (nat (lastParameter - firstParameter + 1)) (drop (nat (firstParameter - 1)) messages))
         else Inl Bad_pointer)"

definition truncateMessages :: "'a list \<Rightarrow> string \<Rightarrow> 'a list res" where
  "truncateMessages messages queryParams =
     res_bind (getIndexFromQueryParamsIfExists ''first'' queryParams) (\<lambda>firstParam.
     res_bind (getIndexFromQueryParamsIfExists ''last'' queryParams) (\<lambda>lastParam.
     if firstParam < 0 \<or> lastParam < 0 then Inl (InvalidRequest ''index must be greater than 0'')
     else let first = (if firstParam \<noteq> 0 then firstParam else FIRST_INDEX);
              until = (if lastParam \<noteq> 0 then lastParam else signed_take_bit 31 (firstParam + MAX_CANT))
          in if until < first then Inl (InvalidRequest ''first can not be greater than last'')
             else doTruncate messages first
               (if until > int (length messages) then signed_take_bit 31 (int (length messages)) else until)))"

definition messages_json :: "message list \<Rightarrow> int \<Rightarrow> json res" where
  "messages_json messages totalCount =
     res_bind (json_update NullV ''metadata'' (\<lambda>m. json_set m ''count'' (UIntV (int (length messages))))) (\<lambda>v.
     res_bind (json_update v ''metadata'' (\<lambda>m. json_set m ''total_count'' (IntV totalCount))) (\<lambda>v'.
     append_member v' ''messages'' message_serialize messages))"

definition messages_get :: "libc \<Rightarrow> request_fun" where
  "messages_get L s hm url = catching (user_errors L)
     (bnd (lift (getUserIdFromUrl url)) (\<lambda>fromUserId.
      seq (permit s (\<lambda>u. hasPermissionToReadMessage u fromUserId))
      (bnd (lift (getToUserFromQueryParams ''user'' (hm_query_string hm))) (\<lambda>toUserId.
       bnd (pm_getMessages L fromUserId toUserId) (\<lambda>all.
       bnd (lift (truncateMessages all (hm_query_string hm))) (\<lambda>messages.
       seq (pm_setMessagesAsReceived L fromUserId toUserId messages)
       (bnd (lift (messages_json messages (int (length all)))) (\<lambda>v. ret (ok_json L v)))))))))"

definition messages_sendNotification :: "libc \<Rightarrow> env \<Rightarrow> string \<Rightarrow> unit prog" where
  "messages_sendNotification L env savedMessage = handle
     (bnd (lift (parse_json L savedMessage)) (\<lambda>(ok, root).
      bnd (lift (long_member L root ''from'')) (\<lambda>fromUserId.
      bnd (lift (long_member L root ''to'')) (\<lambda>toUserId.
      bnd (lift (str_member L root ''message'')) (\<lambda>msg.
      bnd (lift (str_member L root ''timestamp'')) (\<lambda>timestamp.
      bnd (getNotificationTokenByUserId toUserId) (\<lambda>token.
      bnd (lift (buildMessageRequest L env fromUserId toUserId msg timestamp token)) (\<lambda>request.
      seq (lift (sendNotification L env request)) (ret ())))))))))
     (\<lambda>e. case e of NonexistentNotificationToken _ \<Rightarrow> ret () | _ \<Rightarrow> raise e)"

definition messages_put :: "libc \<Rightarrow> env \<Rightarrow> request_fun" where
  "messages_put L env s hm url = catching (user_errors L)
     (bnd (lift (parseBody L (requestBody hm))) (\<lambda>parsedBody.
      seq (need_member parsedBody ''from'' ''Missing from user'')
      (seq (need_member parsedBody ''to'' ''Missing to user'')
      (seq (need_member parsedBody ''message'' ''Missing message'')
      (bnd (lift (long_member L parsedBody ''from'')) (\<lambda>userId.
       seq (permit s (\<lambda>u. hasPermissionToSendMessage u userId))
       (bnd (pm_saveMessage L parsedBody) (\<lambda>savedMessage.
        seq (messages_sendNotification L env savedMessage)
            (ret (setBody savedMessage (setSuccessfulHeader Response0)))))))))))"

definition MessagesHandler :: "libc \<Rightarrow> env \<Rightarrow> handler" where
  "MessagesHandler L env = \<lparr>h_getPublic = False, h_putPublic = False, h_deletePublic = False, h_postPublic = False,
     h_get = messages_get L, h_put = messages_put L env, h_delete = not_implemented, h_post = not_implemented\<rparr>"

section \<open>NotificationTokenHandler\<close>

definition notification_put :: "libc \<Rightarrow> request_fun" where
  "notification_put L s hm url = catching (user_errors L)
     (bnd (lift (getUserIdFromUrl url)) (\<lambda>userId.
      seq (permit s (\<lambda>u. hasPermissionToUpdateNotificationToken u userId))
      (bnd (lift (parseBody L (requestBody hm))) (\<lambda>parsedBody.
       seq (setOrUpdateNotificationToken L parsedBody userId) (ret (setSuccessfulHeader Response0))))))"

definition NotificationTokenHandler :: "libc \<Rightarrow> handler" where
  "NotificationTokenHandler L = \<lparr>h_getPublic = False, h_putPublic = False, h_deletePublic = False, h_postPublic = False,
     h_get = not_implemented, h_put = notification_put L, h_delete = not_implemented, h_post = not_implemented\<rparr>"

section \<open>RecommendationsHandler\<close>

definition recommendations_delete :: "libc \<Rightarrow> request_fun" where
  "recommendations_delete L s hm url = catching (user_errors L)
     (bnd (lift (getToUserFromQueryParams ''from'' (hm_query_string hm))) (\<lambda>fromUserId.
      bnd (lift (getToUserFromQueryParams ''to'' (hm_query_string hm))) (\<lambda>toUserId.
      seq (permit s (\<lambda>u. hasPermissionToDeleteRecommendations u fromUserId))
      (seq (pm_removeRecommendation L fromUserId toUserId) (ret (setSuccessfulHeader Response0))))))"

definition recommendations_put :: "libc \<Rightarrow> request_fun" where
  "recommendations_put L s hm url = catching (user_errors L)
     (bnd (lift (parseBody L (requestBody hm))) (\<lambda>parsedBody.
      seq (need_member parsedBody ''from'' ''Missing from user'')
      (seq (need_member parsedBody ''to'' ''Missing to user'')
      (bnd (lift (long_member L parsedBody ''from'')) (\<lambda>userId.
       seq (permit s (\<lambda>u. hasPermissionToSendRecommendations u userId))
       (seq (saveRecommendation L parsedBody) (ret (setSuccessfulHeader Response0))))))))"

definition RecommendationsHandler :: "libc \<Rightarrow> handler" where
  "RecommendationsHandler L = \<lparr>h_getPublic = False, h_putPublic = False, h_deletePublic = False, h_postPublic = False,
     h_get = not_implemented, h_put = recommendations_put L, h_delete = recommendations_delete L, h_post = not_implemented\<rparr>"

section \<open>LoginWithFacebookHandler\<close>

definition facebook_dummy :: string where
  "facebook_dummy = concat (map (\<lambda>l. quoted l @ [CHR 0x0A])
     [''HTTP/1.1 200 OK'', ''x-app-usage: {~call_count~:2,~total_cputime~:1,~total_time~:2}'', ''x-fb-rev: 2702404'',
      ''x-fb-trace-id: Cf9CGhVLlFm'', ''Expires: Sat, 01 Jan 2000 00:00:00 GMT'', ''Content-Type: application/json; charset=UTF-8'',
      ''facebook-api-version: v2.8'', ''Cache-Control: private, no-cache, no-store, must-revalidate'', ''Pragma: no-cache'',
      ''ETag: ~883a40b13cf35bc6f98afbe90d124efee9798267~'', ''Access-Control-Allow-Origin: *'', ''Vary: Accept-Encoding'',
      ''X-FB-Debug: wb85HnWzGrROPDsHluYraPDNVCgVSkS2adiz0PxseiMJHf3S8wqXRNOUicXszztkyGSyVaB80TpYq+TpjrgE4g=='',
      ''Date: Thu, 24 Nov 2016 20:01:35 GMT'', ''Transfer-Encoding: chunked''])
     @ ''Connection: keep-alive'' @ CRLF @ CRLF
     @ quoted ''{~first_name~:~John~,~last_name~:~Doe~,~birthday~:~01/01/1990~,~email~:~john@doe.com~,~id~:~1000000~}''"

definition buildStringRequest :: "libc \<Rightarrow> env \<Rightarrow> string \<Rightarrow> string res" where
  "buildStringRequest L env tokenToSend = res_bind (config_get L env ''facebookUrl'') (\<lambda>url.
     Inr (''curl -i -X GET'' @ '' '' @ [dquote] @ url @ ''?'' @ ''fields=first_name,last_name,birthday,email'' @ ''&''
       @ ''access_token='' @ tokenToSend @ [dquote]))"

definition facebook_performRequest :: "libc \<Rightarrow> env \<Rightarrow> string \<Rightarrow> string res" where
  "facebook_performRequest L env request = res_bind (config_get L env ''dummyServerEnabled'') (\<lambda>dummy.
     if dummy = ''true'' then Inr facebook_dummy
     else case popen_output env (c_str request) of
       None \<Rightarrow> Inl (ErrorLoginWithFacebook ''Failed request to Facebook'') | Some out \<Rightarrow> Inr out)"

text \<open>When the end of the header is not found, \<open>npos\<close> plus 4 wraps to 3.\<close>

definition parseResponse :: "libc \<Rightarrow> string \<Rightarrow> json res" where
  "parseResponse L response0 =
     (let start = (case find_sub (CRLF @ CRLF) response0 of None \<Rightarrow> 3 | Some bodyStart \<Rightarrow> bodyStart + 4) in
      if length response0 < start then Inl Bad_pointer
      else res_bind (parse_json L (drop start response0)) (\<lambda>(ok, root).
        if \<not> ok then Inl (ErrorLoginWithFacebook ''Error parsing Facebook response'') else Inr root))"

definition getUserDataFromFacebook :: "libc \<Rightarrow> env \<Rightarrow> json \<Rightarrow> json res" where
  "getUserDataFromFacebook L env requestAsJson =
     res_bind (isMember requestAsJson ''token'') (\<lambda>b.
     if \<not> b then Inl (InvalidRequest ''Missing token'')
     else res_bind (str_member L requestAsJson ''token'') (\<lambda>token.
     res_bind (buildStringRequest L env token) (\<lambda>request.
     res_bind (facebook_performRequest L env request) (\<lambda>response0.
     res_bind (parseResponse L response0) (\<lambda>parsedResponse.
     res_bind (isMember parsedResponse ''error'') (\<lambda>err.
     if err then res_bind (json_get parsedResponse ''error'') (\<lambda>v. res_bind (str_member L v ''message'') (\<lambda>m. Inl (ErrorLoginWithFacebook m)))
     else Inr parsedResponse))))))"

definition createPerson :: "libc \<Rightarrow> json \<Rightarrow> person res" where
  "createPerson L data =
     res_bind (str_member L data ''first_name'') (\<lambda>firstName.
     res_bind (str_member L data ''last_name'') (\<lambda>lastName.
     res_bind (str_member L data ''birthday'') (\<lambda>birthday.
     res_bind (str_member L data ''email'') (\<lambda>email.
     Inr \<lparr>p_id = 0, p_totRecommendations = 0, p_firstName = firstName, p_lastName = lastName, p_email = email,
       p_password = '''', p_dateOfBirth = birthday, p_city = '''', p_summary = '''', p_location = location_empty,
       p_workHistory = [], p_skills = []\<rparr>))))"

definition facebook_post :: "libc \<Rightarrow> env \<Rightarrow> request_fun" where
  "facebook_post L env s hm url = catching (\<lambda>e. case e of
       InvalidRequest m \<Rightarrow> Some (setErrorBody L m (setBadRequestHeader Response0))
     | ErrorLoginWithFacebook m \<Rightarrow> Some (setErrorBody L m (setBadRequestHeader Response0)) | _ \<Rightarrow> None)
     (bnd (lift (parseBody L (requestBody hm))) (\<lambda>parsedBody.
      bnd (lift (getUserDataFromFacebook L env parsedBody)) (\<lambda>data.
      bnd (lift (createPerson L data)) (\<lambda>new_person.
      bnd (userExistsMail (p_email new_person)) (\<lambda>exists.
      bnd (if \<not> exists
           then bnd (lift (person_serialize new_person)) (\<lambda>j. bnd (savePerson L j (-1)) (\<lambda>personId. ret (personId, p_email new_person)))
           else bnd (getUserByMail L (p_email new_person)) (\<lambda>person. ret (p_id person, p_email person))) (\<lambda>(personId, mail).
      bnd (facebookLogin L mail) (\<lambda>user_token.
      bnd (lift (token_json_body user_token personId)) (\<lambda>v. ret (ok_json L v)))))))))"

definition LoginWithFacebookHandler :: "libc \<Rightarrow> env \<Rightarrow> handler" where
  "LoginWithFacebookHandler L env = \<lparr>h_getPublic = True, h_putPublic = True, h_deletePublic = True, h_postPublic = True,
     h_get = not_implemented, h_put = not_implemented, h_delete = not_implemented, h_post = facebook_post L env\<rparr>"

section \<open>SearchHandler\<close>

text \<open>The table \<open>HEX2DEC\<close>.\<close>

definition HEX2DEC :: "char \<Rightarrow> int" where
  "HEX2DEC c = (let n = int (of_char c) in
     if 48 \<le> n \<and> n \<le> 57 then n - 48 else if 65 \<le> n \<and> n \<le> 70 then n - 55 else if 97 \<le> n \<and> n \<le> 102 then n - 87 else -1)"

fun uriDecode :: "string \<Rightarrow> string" where
  "uriDecode (c # a # b # s) =
     (if c = CHR ''%'' \<and> HEX2DEC a \<noteq> -1 \<and> HEX2DEC b \<noteq> -1
      then char_of (nat (HEX2DEC a * 16 + HEX2DEC b)) # uriDecode s
      else c # uriDecode (a # b # s))"
| "uriDecode s = s"

definition search_hasParameter :: "string \<Rightarrow> string \<Rightarrow> bool" where
  "search_hasParameter query_params parameter = (case find_sub parameter query_params of
       None \<Rightarrow> False | Some found \<Rightarrow> \<not> found + length parameter + 2 > length query_params)"

definition search_getParameter :: "string \<Rightarrow> string \<Rightarrow> string res" where
  "search_getParameter queryParams parameter = (case find_sub parameter queryParams of
       None \<Rightarrow> Inl (InvalidRequest (''Missing '' @ parameter @ '' parameter''))
     | Some init_position \<Rightarrow> Inr (takeWhile (\<lambda>c. c \<noteq> CHR ''&'') (drop (init_position + length parameter + 1) queryParams)))"

definition getSearchByFromQueryParams :: "string \<Rightarrow> string \<Rightarrow> string option res" where
  "getSearchByFromQueryParams query_params parameter =
     (if search_hasParameter query_params parameter
      then res_bind (search_getParameter query_params parameter) (\<lambda>v. Inr (if v = '''' then None else Some v))
      else Inr None)"

definition getNumberFromQueryParams :: "string \<Rightarrow> string \<Rightarrow> string \<Rightarrow> int res" where
  "getNumberFromQueryParams parameter msg query_params = res_bind (search_getParameter query_params parameter) (\<lambda>s.
     case stol s of Inl e \<Rightarrow> Inl (InvalidRequest msg) | Inr n \<Rightarrow> Inr n)"

text \<open>The values of the search and the page, or the response to a bad request.\<close>

definition search_params :: "string \<Rightarrow> (search_values \<times> int \<times> int) res" where
  "search_params q =
     res_bind (getSearchByFromQueryParams q ''names'') (\<lambda>names.
     res_bind (getSearchByFromQueryParams q ''distances'') (\<lambda>distances.
     res_bind (getSearchByFromQueryParams q ''positions'') (\<lambda>positions.
     res_bind (getSearchByFromQueryParams q ''skills'') (\<lambda>skills.
     res_bind (getSearchByFromQueryParams q ''mails'') (\<lambda>mails.
     res_bind (getNumberFromQueryParams ''pageNumber'' ''Page Number isn't an integer'' q) (\<lambda>page_number.
     res_bind (getNumberFromQueryParams ''size'' ''Size of Page isn't an integer'' q) (\<lambda>page_size.
     Inr (\<lparr>sv_skill = map_option (\<lambda>s. split s (CHR '','')) skills, sv_position = map_option (\<lambda>s. split s (CHR '','')) positions,
       sv_mail = map_option (\<lambda>s. split s (CHR '','')) mails, sv_name = map_option (\<lambda>s. split s (CHR '','')) names,
       sv_distance = map_option (\<lambda>s. split s (CHR '','')) distances\<rparr>, page_number, page_size))))))))"

text \<open>
  The users of a page. The sum is compared as an unsigned number, the loop counts in \<open>long\<close>, and a
  negative index is a bad pointer.
\<close>

definition page_of :: "'a list \<Rightarrow> int \<Rightarrow> int \<Rightarrow> 'a list res" where
  "page_of xs page_number page_size =
     (let start = signed_take_bit 63 ((page_number - 1) * page_size);
          stop = (if (start + page_size) mod 2 ^ 64 > int (length xs) then int (length xs) else signed_take_bit 63 (start + page_size))
      in if stop \<le> start then Inr []
         else if start < 0 then Inl Bad_pointer
         else Inr (take (nat (stop - start)) (drop (nat start) xs)))"

definition user_minInformation :: "person \<Rightarrow> json res" where
  "user_minInformation p =
     res_bind (json_fields NullV [(''first_name'', StrV (p_firstName p)), (''last_name'', StrV (p_lastName p)), (''id'', IntV (p_id p))]) (\<lambda>v.
     res_bind (case getCurrentJob p of None \<Rightarrow> Inr v
       | Some job \<Rightarrow> res_bind (workHistory_serialize job) (\<lambda>j. json_set v ''current_job'' j)) (\<lambda>v'.
     json_fields v' [(''tot_recommendations'', IntV (p_totRecommendations p)), (''mail'', StrV (p_email p))]))"

text \<open>
  \<open>std_sort\<close> is \<open>std::sort\<close> by descending number of recommendations; the order of users with
  equal numbers is left open.
\<close>

definition search_get :: "libc \<Rightarrow> (person list \<Rightarrow> person list) \<Rightarrow> request_fun" where
  "search_get L std_sort s hm url = (case search_params (uriDecode (hm_query_string hm)) of
       Inl (InvalidRequest m) \<Rightarrow> lift (setErrorBody L m (setBadRequestHeader Response0))
     | Inl e \<Rightarrow> raise e
     | Inr (values, page_number, page_size) \<Rightarrow>
         if (case sv_distance values of None \<Rightarrow> False | Some ds \<Rightarrow> length ds \<noteq> 3)
         then lift (setErrorBody L ''La cantidad de valores para la busqueda por distancia debe ser 3'' (setBadRequestHeader Response0))
         else bnd (if sv_distance values = None \<and> sv_skill values = None \<and> sv_name values = None \<and> sv_mail values = None
                      \<and> sv_position values = None
                   then getAllUsers L else search_users_by L values) (\<lambda>result.
              bnd (lift (json_update NullV ''metadata'' (\<lambda>m. json_set m ''total_count'' (UIntV (int (length result)))))) (\<lambda>jresult.
              bnd (lift (page_of (std_sort result) page_number page_size)) (\<lambda>page.
              bnd (lift (append_member jresult ''result'' user_minInformation page)) (\<lambda>jresult'. ret (ok_json L jresult'))))))"

definition SearchHandler :: "libc \<Rightarrow> (person list \<Rightarrow> person list) \<Rightarrow> handler" where
  "SearchHandler L std_sort = \<lparr>h_getPublic = True, h_putPublic = False, h_deletePublic = False, h_postPublic = False,
     h_get = search_get L std_sort, h_put = not_implemented, h_delete = not_implemented, h_post = not_implemented\<rparr>"

section \<open>The server\<close>

text \<open>The handler of every route; the handler of the pictures works on files and is an argument.\<close>

definition handler_of :: "libc \<Rightarrow> env \<Rightarrow> (person list \<Rightarrow> person list) \<Rightarrow> handler \<Rightarrow> route \<Rightarrow> handler" where
  "handler_of L env std_sort PictureHandler r = (case r of
       R_users \<Rightarrow> UsersHandler L
     | R_picture \<Rightarrow> PictureHandler
     | R_contacts \<Rightarrow> ContactsHandler L env
     | R_login \<Rightarrow> LoginHandler L
     | R_facebook \<Rightarrow> LoginWithFacebookHandler L env
     | R_recommendations \<Rightarrow> RecommendationsHandler L
     | R_messages \<Rightarrow> MessagesHandler L env
     | R_conversations \<Rightarrow> ConversationsHandler L
     | R_notification \<Rightarrow> NotificationTokenHandler L
     | _ \<Rightarrow> SearchHandler L std_sort)"

section \<open>Properties\<close>

definition hex_char :: "nat \<Rightarrow> char" where
  "hex_char n = (if n < 10 then char_of (48 + n) else char_of (55 + n))"

definition percent_encode :: "(char \<Rightarrow> bool) \<Rightarrow> string \<Rightarrow> string" where
  "percent_encode P s = concat (map (\<lambda>c. if P c then [CHR ''%'', hex_char (of_char c div 16), hex_char (of_char c mod 16)] else [c]) s)"

lemma HEX2DEC_hex_char: "n < 16 \<Longrightarrow> HEX2DEC (hex_char n) = int n"
  by (auto simp: HEX2DEC_def hex_char_def Let_def)

lemma uriDecode_plain: "c \<noteq> CHR ''%'' \<Longrightarrow> uriDecode (c # t) = c # uriDecode t"
  by (cases t rule: uriDecode.cases) auto

text \<open>
  Decoding undoes percent encoding: whichever characters are encoded, the percent sign among
  them, \<open>uriDecode\<close> gives back the text.
\<close>

lemma uriDecode_encode:
  assumes "P (CHR ''%'')"
  shows "uriDecode (percent_encode P s) = s"
proof (induction s)
  case (Cons c s)
  show ?case
  proof (cases "P c")
    case True
    have h: "HEX2DEC (hex_char (of_char c div 16)) = int (of_char c div 16)" "HEX2DEC (hex_char (of_char c mod 16)) = int (of_char c mod 16)"
      using nat_of_char_less_256 [of c] by (simp_all add: HEX2DEC_hex_char less_mult_imp_div_less)
    have "int (n div 16) * 16 + int (n mod 16) = int n" for n
      by (simp add: zdiv_int zmod_int)
    then have "nat (int (of_char c div 16) * 16 + int (of_char c mod 16)) = of_char c"
      by (metis nat_int)
    then show ?thesis
      using True Cons by (simp add: percent_encode_def h)
  next
    case False
    then have "c \<noteq> CHR ''%''"
      using assms by auto
    then show ?thesis
      using False Cons uriDecode_plain by (simp add: percent_encode_def)
  qed
qed (simp add: percent_encode_def)

lemma uriDecode_encode_witness: "uriDecode ''50%25+a'' = ''50%+a''"
proof -
  have "percent_encode (\<lambda>c. c = CHR ''%'') ''50%+a'' = ''50%25+a''"
    by code_simp
  then show ?thesis
    using uriDecode_encode [of "\<lambda>c. c = CHR ''%''" "''50%+a''"] by simp
qed

text \<open>
  The window of messages: counting from the newest, \<open>doTruncate\<close> gives the messages from the
  first position to the last, cut at the number of messages; when the first position is more than
  one beyond that number, the code reads outside of the vector.
\<close>

lemma message_window:
  assumes "1 \<le> first" and "first \<le> until" and "until < 2 ^ 31" and "int (length xs) < 2 ^ 31"
  shows "doTruncate xs first (min until (int (length xs))) =
    (if first \<le> int (length xs) + 1
     then Inr (rev (take (nat (min until (int (length xs)) - first + 1)) (drop (nat (first - 1)) (rev xs))))
     else Inl Bad_pointer)"
proof -
  define n where "n = int (length xs)"
  define m where "m = min until n"
  have m: "m \<le> n" "0 \<le> m" "n < 2 ^ 31" "0 \<le> n"
    using assms by (simp_all add: m_def n_def)
  have fp: "(n - m + 1) mod 2 ^ 64 = n - m + 1"
    using m by (intro mod_pos_pos_trivial) simp_all
  show ?thesis
  proof (cases "first \<le> n + 1")
    case True
    then have lp: "(n - first + 1) mod 2 ^ 64 = n - first + 1"
      using assms(1) m by (intro mod_pos_pos_trivial) simp_all
    have "take (nat (m - first + 1)) (drop (nat (n - m)) xs)
        = rev (take (nat (m - first + 1)) (drop (nat (first - 1)) (rev xs)))" if "first \<le> m"
    proof -
      have "length xs - nat (first - 1) - nat (m - first + 1) = nat (n - m)"
        using that assms(1) m by (simp add: n_def nat_diff_distrib)
      then show ?thesis
        using that assms(1) m
        by (simp add: rev_take rev_drop drop_take n_def) (simp add: nat_diff_distrib' algebra_simps Suc_nat_eq_nat_zadd1)
    qed
    then show ?thesis
      using True m assms(1) unfolding doTruncate_def Let_def n_def [symmetric] m_def [symmetric] fp lp
      by (auto simp: not_le)
  next
    case False
    have "(n - first + 1) mod 2 ^ 64 = n - first + 1 + 2 ^ 64"
      using False assms m by (subst mod_add_self2 [symmetric], intro mod_pos_pos_trivial) simp_all
    then show ?thesis
      using False m assms unfolding doTruncate_def Let_def n_def [symmetric] m_def [symmetric] fp
      by (simp add: m_def)
  qed
qed

lemma message_window_witness:
  "doTruncate [1, 2, 3, 4, 5 :: int] 2 (min 3 (int (length [1, 2, 3, 4, 5 :: int]))) = Inr [3, 4]
   \<and> doTruncate [1, 2, 3, 4, 5 :: int] 20 (min 30 (int (length [1, 2, 3, 4, 5 :: int]))) = Inl Bad_pointer"
  using message_window [of 2 3 "[1, 2, 3, 4, 5 :: int]"] message_window [of 20 30 "[1, 2, 3, 4, 5 :: int]"] by simp

lemma digits_val_less: "list_all is_digit ds \<Longrightarrow> digits_val ds v < (v + 1) * 10 ^ length ds"
proof (induction ds arbitrary: v)
  case (Cons c ds)
  have "digit_val c \<le> 9"
    using Cons.prems by (auto simp: is_digit_def digit_val_def)
  then have "(v * 10 + digit_val c + 1) * 10 ^ length ds \<le> ((v + 1) * 10) * 10 ^ length ds"
    by (intro mult_right_mono) simp_all
  moreover have "digits_val ds (v * 10 + digit_val c) < (v * 10 + digit_val c + 1) * 10 ^ length ds"
    using Cons by simp
  ultimately have "digits_val ds (v * 10 + digit_val c) < ((v + 1) * 10) * 10 ^ length ds"
    by (rule less_le_trans [rotated])
  then show ?case
    by (simp add: algebra_simps)
qed simp

text \<open>
  Identifiers in a query: after \<open>user=\<close> at its beginning, an identifier below a million is read as it
  is, and from a million on only its first six digits are read, which is the identifier of
  another user.
\<close>

lemma query_id_cut:
  assumes "0 \<le> uid" and "uid \<le> maxInt64"
  shows "if uid < 10 ^ 6 then getToUserFromQueryParams ''user'' (''user='' @ to_string uid) = Inr uid
    else \<exists>v. getToUserFromQueryParams ''user'' (''user='' @ to_string uid) = Inr v \<and> v < 10 ^ 6"
proof -
  obtain ds where ds: "to_string uid = ds" "ds \<noteq> []" "list_all is_digit ds" "digits_val ds 0 = nat uid"
    "uid = 0 \<or> 10 ^ (length ds - 1) \<le> nat uid"
    using uintToString_spec [of "nat uid" "[]"] assms(1) by (auto simp: to_string_def)
  define v where "v = int (digits_val (take 6 ds) 0)"
  have d6: "take 6 ds \<noteq> []" "list_all is_digit (take 6 ds)"
    using ds(2,3) by (auto simp: list_all_iff dest: in_set_takeD)
  have "digits_val (take 6 ds) 0 < 10 ^ length (take 6 ds)"
    using digits_val_less [OF d6(2), of 0] by simp
  also have "\<dots> \<le> 10 ^ 6"
    by (intro power_increasing) simp_all
  finally have v: "v < 10 ^ 6"
    by (simp add: v_def)
  have "getParameterFromQueryParams (''user='' @ ds) ''user'' = Inr (take 6 ds)"
    using ds(2) by (cases ds) (simp_all add: getParameterFromQueryParams_def eval_nat_numeral)
  then have g: "getToUserFromQueryParams ''user'' (''user='' @ ds) = Inr v"
    using stol_digits(1) [OF d6 v_def] v by (simp add: getToUserFromQueryParams_def number_or_def maxInt64_def)
  have "v = uid" if "uid < 10 ^ 6"
  proof -
    have "length ds \<le> 6"
    proof (rule ccontr)
      assume l: "\<not> length ds \<le> 6"
      then have "(10 :: nat) ^ 6 \<le> 10 ^ (length ds - 1)"
        by (intro power_increasing) simp_all
      moreover have "nat uid < 10 ^ 6"
        using that by simp
      ultimately have "nat uid < 10 ^ (length ds - 1)"
        by (rule less_le_trans [rotated])
      moreover have "length (uintToString 0 []) = 1"
        by (subst uintToString.simps) simp
      then have "uid \<noteq> 0"
        using ds(1) l by (auto simp: to_string_def)
      ultimately show False
        using ds(5) by simp
    qed
    then show ?thesis
      using ds(4) assms(1) by (simp add: v_def)
  qed
  then show ?thesis
    using g v ds(1) by auto
qed

lemma query_id_cut_witness:
  "\<exists>v. getToUserFromQueryParams ''user'' (''user='' @ to_string 12345678) = Inr v \<and> v < 10 ^ 6"
  using query_id_cut [of 12345678] by (simp add: maxInt64_def)

text \<open>
  C2. A user has access to his own data only: with the session of one user, the requests that edit or
  delete a profile, set a notification token, list conversations or read messages of
  another user give 403, and the database is left as it was after the session was checked.
\<close>

theorem foreign_user_forbidden:
  assumes "(h, hm_method hm) \<in> {(UsersHandler L, ''PUT''), (UsersHandler L, ''DELETE''), (NotificationTokenHandler L, ''PUT''),
      (ConversationsHandler L, ''GET''), (MessagesHandler L env, ''GET'')}"
    and "controlAccess L hm w = (Inr s, w1)" and "getUserIdFromUrl url = Inr uid" and "se_user_id s \<noteq> uid"
  shows "\<exists>r. handleRequest L h hm url w = (Inr r, w1) \<and> rs_header r = ''403 Forbidden''"
proof -
  have deny: "permit (Some s) allowed w1 = (Inl NotAuthorized, w1)" if "\<not> allowed (se_user_id s)" for allowed
    using that by (simp add: permit_def session_user_def ensure_def)
  have "method_fun h (hm_method hm) (Some s) hm url w1 = (Inl NotAuthorized, w1)"
    using assms(1,3,4)
    by (auto simp: method_fun_def UsersHandler_def NotificationTokenHandler_def ConversationsHandler_def MessagesHandler_def
        users_put_def users_delete_def notification_put_def conversations_get_def messages_get_def catching_def permission_defs deny)
  moreover have "\<not> is_public h (hm_method hm)"
    using assms(1) by (auto simp: is_public_def UsersHandler_def NotificationTokenHandler_def ConversationsHandler_def MessagesHandler_def)
  moreover obtain b where "setErrorBody L (what L NotAuthorized) (setForbiddenRequestHeader Response0)
      = Inr (setBody b (setForbiddenRequestHeader Response0))"
    using setErrorBody_eq by blast
  ultimately show ?thesis
    using assms(2) handleRequest_private [of h hm L url] by (simp add: header_defs)
qed

theorem foreign_user_forbidden_witness:
  "\<exists>r w1. handleRequest (at libc_clock 1000) (UsersHandler (at libc_clock 1000))
      \<lparr>hm_method = ''DELETE'', hm_uri = ''/users/8'', hm_query_string = '''', hm_headers = [(''authorization'', ''tok'')], hm_body = '''', hm_after = ''''\<rparr>
      ''/users/8'' (dbw_of [(''user:token_tok'', fastWrite libc_clock (token_entry (at libc_clock 1000) ''ada@x'' 7))]) = (Inr r, w1)
    \<and> rs_header r = ''403 Forbidden''"
proof -
  define hm where "hm = \<lparr>hm_method = ''DELETE'', hm_uri = ''/users/8'', hm_query_string = '''', hm_headers = [(''authorization'', ''tok'')],
      hm_body = '''', hm_after = ''''\<rparr>"
  define w where "w = dbw_of [(''user:token_tok'', fastWrite libc_clock (token_entry (at libc_clock 1000) ''ada@x'' 7))]"
  have "session_at libc_clock w ''tok'' ''ada@x'' 7 1000"
    by (simp add: session_at_def w_def dbw_of_ok long_ok_def minInt64_def maxInt64_def key_defs)
  then obtain w1 where w1: "getSession (at libc_clock 1000) ''tok'' w =
      (Inr \<lparr>se_token = ''tok'', se_user_mail = ''ada@x'', se_last_time = 1000, se_user_id = 7\<rparr>, w1)"
    using getSession_open [OF _ clock_small(1), of w "''tok''" "''ada@x''" 7 1000] by auto
  have "lower ''Authorization'' = ''authorization''" "lower ''authorization'' = ''authorization''"
    by code_simp+
  then have "getHttpHeader hm ''Authorization'' = ''tok''"
    by (simp add: hm_def getHttpHeader_def mg_get_http_header_def c_str_def)
  then have "controlAccess (at libc_clock 1000) hm w = (Inr \<lparr>se_token = ''tok'', se_user_mail = ''ada@x'', se_last_time = 1000, se_user_id = 7\<rparr>, w1)"
    using w1 by (simp add: controlAccess_def)
  moreover have "getUserIdFromUrl ''/users/8'' = Inr 8"
    by code_simp
  ultimately show ?thesis
    using foreign_user_forbidden [of "UsersHandler (at libc_clock 1000)" hm "at libc_clock 1000" undefined w _ w1 "''/users/8''" 8]
    by (auto simp: hm_def w_def)
qed

text \<open>The text of a message reaches the shell as it is, within double quotes.\<close>

lemma command_has_data:
  assumes "buildCommonRequest L env data token = Inr request"
  shows "\<exists>pre post. request = pre @ data @ post"
proof -
  have "\<exists>pre. request = pre @ data @ (''}'' @ [dquote])"
    using assms unfolding buildCommonRequest_def Let_def res_bind_Inr_iff append_assoc [symmetric] by blast
  then show ?thesis
    by blast
qed

lemma message_in_command:
  assumes "buildMessageRequest L env a b msg t token = Inr request"
  shows "\<exists>pre post. request = pre @ msg @ post"
proof -
  define p1 where "p1 = ''{'' @ esc_quote @ ''mensaje'' @ esc_quote @ '':{'' @ esc_quote @ ''from'' @ esc_quote @ '':'' @ to_string a @ '',''
      @ esc_quote @ ''message'' @ esc_quote @ '':'' @ esc_quote"
  define p2 where "p2 = esc_quote @ '','' @ esc_quote @ ''timestamp'' @ esc_quote @ '':'' @ esc_quote @ t @ esc_quote @ '',''
      @ esc_quote @ ''to'' @ esc_quote @ '':'' @ to_string b @ ''}}''"
  have "buildCommonRequest L env (p1 @ msg @ p2) token = Inr request"
    using assms unfolding buildMessageRequest_def by (simp add: p1_def p2_def)
  then show ?thesis
    using command_has_data [of L env "p1 @ msg @ p2"] by (metis append.assoc)
qed

end
