(* ===== verification/Json_Layout.thy ===== *)
theory Json_Layout
  imports Json_Styled
begin

text \<open>
  Texts of JSON values with any white space between their tokens, which \<open>Reader\<close> reads like the compact
  text of \<open>FastWriter\<close>. What \<open>StyledWriter\<close> prints is one of them, so the bodies of the responses are read back.
\<close>

section \<open>Layouts\<close>

definition spaces :: "string \<Rightarrow> bool" where
  "spaces s \<longleftrightarrow> list_all is_space s"

lemma spaces_simps [simp]: "spaces []" "spaces (c # s) \<longleftrightarrow> is_space c \<and> spaces s" "spaces (s @ t) \<longleftrightarrow> spaces s \<and> spaces t"
  by (simp_all add: spaces_def)

fun scalar :: "json \<Rightarrow> bool" where
  "scalar (ArrV xs) \<longleftrightarrow> False"
| "scalar (ObjV kvs) \<longleftrightarrow> False"
| "scalar v \<longleftrightarrow> True"

text \<open>The members of an object may come in any order.\<close>

definition smap_of :: "(string \<times> 'v) list \<Rightarrow> 'v smap" where
  "smap_of kvs = fold (\<lambda>(k, v). smap_put k v) kvs []"

inductive layout :: "libc \<Rightarrow> json \<Rightarrow> string \<Rightarrow> bool"
  and elements :: "libc \<Rightarrow> json list \<Rightarrow> string \<Rightarrow> bool"
  and members :: "libc \<Rightarrow> (string \<times> json) list \<Rightarrow> string \<Rightarrow> bool" for L where
  layout_scalar: "scalar v \<Longrightarrow> layout L v (writeValue L v)"
| layout_no_elements: "spaces a \<Longrightarrow> layout L (ArrV []) (''['' @ a @ '']'')"
| layout_array: "elements L xs t \<Longrightarrow> layout L (ArrV xs) (''['' @ t @ '']'')"
| layout_no_members: "spaces a \<Longrightarrow> layout L (ObjV []) (''{'' @ a @ ''}'')"
| layout_object: "members L kvs t \<Longrightarrow> distinct (map fst kvs) \<Longrightarrow> layout L (ObjV (smap_of kvs)) (''{'' @ t @ ''}'')"
| elements_one: "spaces a \<Longrightarrow> layout L x s \<Longrightarrow> spaces b \<Longrightarrow> elements L [x] (a @ s @ b)"
| elements_more: "spaces a \<Longrightarrow> layout L x s \<Longrightarrow> spaces b \<Longrightarrow> elements L xs t \<Longrightarrow> elements L (x # xs) (a @ s @ b @ '','' @ t)"
| members_one: "spaces a \<Longrightarrow> spaces b \<Longrightarrow> spaces c \<Longrightarrow> layout L x s \<Longrightarrow> spaces d
    \<Longrightarrow> members L [(k, x)] (a @ valueToQuotedStringN k @ b @ '':'' @ c @ s @ d)"
| members_more: "spaces a \<Longrightarrow> spaces b \<Longrightarrow> spaces c \<Longrightarrow> layout L x s \<Longrightarrow> spaces d \<Longrightarrow> members L kvs t
    \<Longrightarrow> members L ((k, x) # kvs) (a @ valueToQuotedStringN k @ b @ '':'' @ c @ s @ d @ '','' @ t)"

lemmas layout_intros = layout_scalar layout_no_elements layout_array layout_no_members layout_object elements_one elements_more members_one members_more

section \<open>White space in front of a token\<close>

lemma skipSpaces_append: "spaces a \<Longrightarrow> skipSpaces (a @ s) = skipSpaces s"
  by (induction a) (simp_all add: skipSpaces_def)

lemma readToken_spaces: "spaces a \<Longrightarrow> readToken (a @ s) = readToken s"
  by (simp add: readToken_def skipSpaces_append)

lemma skipCommentTokens_spaces: "spaces a \<Longrightarrow> skipCommentTokens (a @ s) = skipCommentTokens s"
  by (subst (1 2) skipCommentTokens.simps) (simp add: readToken_spaces)

lemma readValue_spaces: "spaces a \<Longrightarrow> readValue L call depth cur (a @ s) = readValue L call depth cur s"
  by (simp add: readValue_def skipCommentTokens_spaces)

lemma readComma_spaces: "spaces a \<Longrightarrow> readComma (a @ s) = readComma s"
  by (simp add: readComma_def readToken_spaces)

lemma delimiter_spaces: "spaces a \<Longrightarrow> delimiter r \<Longrightarrow> delimiter (a @ r)"
  by (cases a) (simp_all add: delimiter_def)

section \<open>Reading a layout\<close>

lemma read_value_skip: "read L n depth (ReadValue cur (skipSpaces s)) = read L n depth (ReadValue cur s)"
proof -
  have "s = takeWhile is_space s @ skipSpaces s" "spaces (takeWhile is_space s)"
    by (simp_all add: skipSpaces_def spaces_def list_all_iff) (metis set_takeWhileD)
  then show ?thesis
    using readValue_spaces [of "takeWhile is_space s" L _ depth cur "skipSpaces s"] by (cases n) simp_all
qed

lemma read_elements_skip: "read L n depth (ReadElements acc (skipSpaces s)) = read L n depth (ReadElements acc s)"
  by (cases n) (simp_all add: readElements_def read_value_skip)

text \<open>A text is read as the value, whatever white space stands before it; a scalar needs a delimiter behind it.\<close>

definition reads_text :: "libc \<Rightarrow> json \<Rightarrow> string \<Rightarrow> bool" where
  "reads_text L v s \<longleftrightarrow> (\<forall>n depth cur a r. spaces a \<and> depth + json_depth v \<le> stackLimit_g \<and> (scalar v \<longrightarrow> delimiter r) \<and> 3 * length (s @ r) < n \<longrightarrow>
     read L n depth (ReadValue cur (a @ s @ r)) = read_ok True (json_norm L v) r)"

lemma reads_textI:
  assumes "\<And>n depth cur r. Suc depth \<le> stackLimit_g \<Longrightarrow> depth + json_depth v \<le> stackLimit_g \<Longrightarrow> (scalar v \<Longrightarrow> delimiter r) \<Longrightarrow>
    3 * length (s @ r) \<le> n \<Longrightarrow> readValue L (read L n) depth cur (s @ r) = read_ok True (json_norm L v) r"
  shows "reads_text L v s"
  unfolding reads_text_def
proof (intro allI impI)
  fix n depth cur a r
  assume h: "spaces a \<and> depth + json_depth v \<le> stackLimit_g \<and> (scalar v \<longrightarrow> delimiter r) \<and> 3 * length (s @ r) < n"
  have "1 \<le> json_depth v"
    by (cases v) simp_all
  then show "read L n depth (ReadValue cur (a @ s @ r)) = read_ok True (json_norm L v) r"
    using h assms [of depth r "n - 1" cur] by (cases n) (simp_all add: readValue_spaces)
qed

lemma reads_textD:
  "reads_text L v s \<Longrightarrow> spaces a \<Longrightarrow> depth + json_depth v \<le> stackLimit_g \<Longrightarrow> (scalar v \<Longrightarrow> delimiter r) \<Longrightarrow> 3 * length (s @ r) < n \<Longrightarrow>
     read L n depth (ReadValue cur (a @ s @ r)) = read_ok True (json_norm L v) r"
  by (auto simp: reads_text_def)

lemma reads_scalar_text:
  assumes "json_ok L v" "scalar v"
  shows "reads_text L v (writeValue L v)"
proof (rule reads_textI)
  fix n depth cur r
  assume h: "Suc depth \<le> stackLimit_g" "depth + json_depth v \<le> stackLimit_g" "scalar v \<Longrightarrow> delimiter r" "3 * length (writeValue L v @ r) \<le> n"
  then have "read L (Suc n) depth (ReadValue cur (writeValue L v @ r)) = read_ok True (json_norm L v) r"
    using json_reads [OF assms(1)] assms(2) unfolding reads_def by (simp del: read.simps(2))
  then show "readValue L (read L n) depth cur (writeValue L v @ r) = read_ok True (json_norm L v) r"
    by simp
qed

text \<open>The same for the elements of an array up to its bracket, and for the members of an object up to its brace.\<close>

definition reads_elems :: "libc \<Rightarrow> json list \<Rightarrow> string \<Rightarrow> bool" where
  "reads_elems L xs t \<longleftrightarrow> (\<forall>n depth acc r. (\<forall>x \<in> set xs. depth + json_depth x \<le> stackLimit_g) \<and> 3 * length (t @ CHR '']'' # r) + 1 < n \<longrightarrow>
     read L n depth (ReadElements acc (t @ CHR '']'' # r)) = read_ok True (ArrV (acc @ map (json_norm L) xs)) r)"

definition reads_membs :: "libc \<Rightarrow> (string \<times> json) list \<Rightarrow> string \<Rightarrow> bool" where
  "reads_membs L kvs t \<longleftrightarrow> (\<forall>n depth acc name r. (\<forall>(k, x) \<in> set kvs. depth + json_depth x \<le> stackLimit_g) \<and> 3 * length (t @ CHR ''}'' # r) + 1 < n \<longrightarrow>
     read L n depth (ReadObject acc name (t @ CHR ''}'' # r)) = read_ok True (ObjV (fold (\<lambda>(k, v). smap_put k (json_norm L v)) kvs acc)) r)"

lemma reads_elemsD:
  "reads_elems L xs t \<Longrightarrow> (\<And>x. x \<in> set xs \<Longrightarrow> depth + json_depth x \<le> stackLimit_g) \<Longrightarrow> 3 * length (t @ CHR '']'' # r) + 1 < n \<Longrightarrow>
     read L n depth (ReadElements acc (t @ CHR '']'' # r)) = read_ok True (ArrV (acc @ map (json_norm L) xs)) r"
  unfolding reads_elems_def by blast

lemma reads_membsD:
  "reads_membs L kvs t \<Longrightarrow> (\<And>k x. (k, x) \<in> set kvs \<Longrightarrow> depth + json_depth x \<le> stackLimit_g) \<Longrightarrow> 3 * length (t @ CHR ''}'' # r) + 1 < n \<Longrightarrow>
     read L n depth (ReadObject acc name (t @ CHR ''}'' # r)) = read_ok True (ObjV (fold (\<lambda>(k, v). smap_put k (json_norm L v)) kvs acc)) r"
  unfolding reads_membs_def by blast

lemma token_spaces:
  assumes "spaces b"
  shows "skipCommentTokens (b @ CHR '']'' # s) = (tokenArrayEnd, '']'', s)" "skipCommentTokens (b @ CHR '','' # s) = (tokenArraySeparator, '','', s)"
    "readComma (b @ CHR ''}'' # s) = (tokenObjectEnd, s)" "readComma (b @ CHR '','' # s) = (tokenArraySeparator, s)"
    "readToken (b @ CHR '':'' # s) = (tokenMemberSeparator, '':'', s)"
  using assms by (simp_all add: skipCommentTokens_spaces readComma_spaces readToken_spaces structural_tokens)

lemma delimiter_after: "spaces b \<Longrightarrow> c \<in> {CHR '','', CHR '']'', CHR ''}''} \<Longrightarrow> delimiter (b @ c # r)"
  by (intro delimiter_spaces) (auto simp: delimiter_def)

lemma reads_elems_one:
  assumes "spaces a" "reads_text L x s" "spaces b"
  shows "reads_elems L [x] (a @ s @ b)"
  unfolding reads_elems_def
proof (intro allI impI)
  fix n depth acc r
  assume h: "(\<forall>y \<in> set [x]. depth + json_depth y \<le> stackLimit_g) \<and> 3 * length ((a @ s @ b) @ CHR '']'' # r) + 1 < n"
  obtain m where n: "n = Suc m"
    using h by (cases n) auto
  have "read L m depth (ReadValue NullV (a @ s @ b @ CHR '']'' # r)) = read_ok True (json_norm L x) (b @ CHR '']'' # r)"
    using h n by (intro reads_textD assms delimiter_after) auto
  then show "read L n depth (ReadElements acc ((a @ s @ b) @ CHR '']'' # r)) = read_ok True (ArrV (acc @ map (json_norm L) [x])) r"
    using assms(3) by (simp add: n readElements_def token_spaces)
qed

lemma reads_elems_more:
  assumes "spaces a" "reads_text L x s" "spaces b" "reads_elems L xs t"
  shows "reads_elems L (x # xs) (a @ s @ b @ '','' @ t)"
  unfolding reads_elems_def
proof (intro allI impI)
  fix n depth acc r
  assume h: "(\<forall>y \<in> set (x # xs). depth + json_depth y \<le> stackLimit_g) \<and> 3 * length ((a @ s @ b @ '','' @ t) @ CHR '']'' # r) + 1 < n"
  obtain m where n: "n = Suc m"
    using h by (cases n) auto
  have "read L m depth (ReadValue NullV (a @ s @ b @ CHR '','' # t @ CHR '']'' # r)) = read_ok True (json_norm L x) (b @ CHR '','' # t @ CHR '']'' # r)"
    using h n by (intro reads_textD assms delimiter_after) auto
  moreover have "read L m depth (ReadElements (acc @ [json_norm L x]) (t @ CHR '']'' # r)) = read_ok True (ArrV ((acc @ [json_norm L x]) @ map (json_norm L) xs)) r"
    using h n by (intro reads_elemsD [OF assms(4)]) auto
  ultimately show "read L n depth (ReadElements acc ((a @ s @ b @ '','' @ t) @ CHR '']'' # r)) = read_ok True (ArrV (acc @ map (json_norm L) (x # xs))) r"
    using assms(3) by (simp add: n readElements_def token_spaces)
qed

text \<open>One member, with what follows it.\<close>

lemma read_member:
  assumes "spaces a" "spaces b" "spaces c" "reads_text L x s" "spaces d" "depth + json_depth x \<le> stackLimit_g" "delimiter (d @ z)"
    and "3 * length (s @ d @ z) < m"
  shows "read L (Suc m) depth (ReadObject acc name (a @ valueToQuotedStringN k @ b @ '':'' @ c @ s @ d @ z)) =
    (case readComma (d @ z) of (comma, r) \<Rightarrow> let kvs = smap_put k (json_norm L x) acc in
       if comma = tokenError then read_ok False (ObjV kvs) (recoverFromError tokenObjectEnd r)
       else if comma = tokenObjectEnd then read_ok True (ObjV kvs) r else read L m depth (ReadObject kvs k r))"
proof -
  have v: "read L m depth (ReadValue cur (c @ s @ d @ z)) = read_ok True (json_norm L x) (d @ z)" for cur
    by (intro reads_textD assms)
  have tok: "skipCommentTokens (a @ valueToQuotedStringN k @ b @ '':'' @ c @ s @ d @ z) = (tokenString, valueToQuotedStringN k, b @ CHR '':'' # c @ s @ d @ z)"
    using token_string(1) [of k "b @ CHR '':'' # c @ s @ d @ z"] by (simp add: skipCommentTokens_spaces [OF assms(1)])
  show ?thesis
    unfolding read.simps read_step.simps readObject_def tok prod.case
    by (simp add: token_string(2) token_spaces(5) [OF assms(2)] v Let_def)
qed

lemma reads_membs_one:
  assumes "spaces a" "spaces b" "spaces c" "reads_text L x s" "spaces d"
  shows "reads_membs L [(k, x)] (a @ valueToQuotedStringN k @ b @ '':'' @ c @ s @ d)"
  unfolding reads_membs_def
proof (intro allI impI)
  fix n depth name r and acc :: "(string \<times> json) list"
  assume h: "(\<forall>(k, x) \<in> set [(k, x)]. depth + json_depth x \<le> stackLimit_g)
      \<and> 3 * length ((a @ valueToQuotedStringN k @ b @ '':'' @ c @ s @ d) @ CHR ''}'' # r) + 1 < n"
  obtain m where n: "n = Suc m"
    using h by (cases n) auto
  have "3 * length (s @ d @ CHR ''}'' # r) < m" "depth + json_depth x \<le> stackLimit_g"
    using h n by auto
  from read_member [OF assms this(2) delimiter_after [OF assms(5)] this(1), of acc name k] h
  show "read L n depth (ReadObject acc name ((a @ valueToQuotedStringN k @ b @ '':'' @ c @ s @ d) @ CHR ''}'' # r))
      = read_ok True (ObjV (fold (\<lambda>(k, v). smap_put k (json_norm L v)) [(k, x)] acc)) r"
    unfolding n token_spaces(3) [OF assms(5)] by simp
qed

lemma reads_membs_more:
  assumes "spaces a" "spaces b" "spaces c" "reads_text L x s" "spaces d" "reads_membs L kvs t"
  shows "reads_membs L ((k, x) # kvs) (a @ valueToQuotedStringN k @ b @ '':'' @ c @ s @ d @ '','' @ t)"
  unfolding reads_membs_def
proof (intro allI impI)
  fix n depth name r and acc :: "(string \<times> json) list"
  assume h: "(\<forall>(k, x) \<in> set ((k, x) # kvs). depth + json_depth x \<le> stackLimit_g)
      \<and> 3 * length ((a @ valueToQuotedStringN k @ b @ '':'' @ c @ s @ d @ '','' @ t) @ CHR ''}'' # r) + 1 < n"
  obtain m where n: "n = Suc m"
    using h by (cases n) auto
  have l: "3 * length (s @ d @ CHR '','' # t @ CHR ''}'' # r) < m" "depth + json_depth x \<le> stackLimit_g" "3 * length (t @ CHR ''}'' # r) + 1 < m"
    using h n by auto
  have "read L m depth (ReadObject (smap_put k (json_norm L x) acc) k (t @ CHR ''}'' # r))
      = read_ok True (ObjV (fold (\<lambda>(k, v). smap_put k (json_norm L v)) kvs (smap_put k (json_norm L x) acc))) r"
    using h l(3) by (intro reads_membsD [OF assms(6)]) auto
  with read_member [OF assms(1-5) l(2) delimiter_after [OF assms(5)] l(1), of acc name k] h
  show "read L n depth (ReadObject acc name ((a @ valueToQuotedStringN k @ b @ '':'' @ c @ s @ d @ '','' @ t) @ CHR ''}'' # r))
      = read_ok True (ObjV (fold (\<lambda>(k, v). smap_put k (json_norm L v)) ((k, x) # kvs) acc)) r"
    unfolding n token_spaces(4) [OF assms(5)] by simp
qed

text \<open>The first character of a layout.\<close>

lemma number_head: "number_text t \<Longrightarrow> t \<noteq> [] \<and> \<not> is_space (hd t) \<and> hd t \<noteq> CHR '']''"
  by (cases t) (auto simp: number_text_def is_space_def is_digit_def)

lemma scalar_head: "json_ok L v \<Longrightarrow> scalar v \<Longrightarrow> writeValue L v \<noteq> [] \<and> \<not> is_space (hd (writeValue L v)) \<and> hd (writeValue L v) \<noteq> CHR '']''"
  using number_head int_text uint_value_text by (cases v) (auto simp: double_ok_def quoted_eq valueToString_bool_def is_space_def)

lemma layout_head: "layout L v s \<Longrightarrow> json_ok L v \<Longrightarrow> s \<noteq> [] \<and> \<not> is_space (hd s) \<and> hd s \<noteq> CHR '']''"
  by (erule layout.cases) (use scalar_head in \<open>auto simp: is_space_def\<close>)

lemma elements_head:
  assumes "elements L xs t" "list_all (json_ok L) xs"
  shows "peek (skipSpaces (t @ r)) \<noteq> CHR '']'' \<and> xs \<noteq> []"
proof -
  have "peek (skipSpaces (a @ s @ z)) \<noteq> CHR '']''" if "spaces a" "layout L x s" "json_ok L x" for a x s z
    unfolding skipSpaces_append [OF that(1)] using layout_head [OF that(2,3)] by (cases s) (auto simp: skipSpaces_def)
  then show ?thesis
    using assms(2) by (auto intro: elements.cases [OF assms(1)])
qed

lemma members_nonempty: "members L kvs t \<Longrightarrow> kvs \<noteq> []"
  by (erule members.cases) auto

lemma reads_text_array:
  assumes "reads_elems L xs t" "\<And>r. peek (skipSpaces (t @ r)) \<noteq> CHR '']''"
  shows "reads_text L (ArrV xs) (''['' @ t @ '']'')"
proof (rule reads_textI)
  fix n depth cur r
  assume d: "depth + json_depth (ArrV xs) \<le> stackLimit_g" and f: "3 * length ((''['' @ t @ '']'') @ r) \<le> n" and "Suc depth \<le> stackLimit_g"
  obtain k where n: "n = Suc (Suc k)"
    using f by (cases n; cases "n - 1") auto
  have x: "Suc depth + json_depth x \<le> stackLimit_g" if "x \<in> set xs" for x
    using that d depth_elem [of "json_depth x" "map json_depth xs"] by auto
  have "read L (Suc k) (Suc depth) (ReadElements [] (t @ CHR '']'' # r)) = read_ok True (ArrV ([] @ map (json_norm L) xs)) r"
    using f n x by (intro reads_elemsD [OF assms(1)]) auto
  then have "read L n (Suc depth) (ReadArray (t @ CHR '']'' # r)) = read_ok True (ArrV (map (json_norm L) xs)) r"
    using assms(2) [of "CHR '']'' # r"] unfolding n read.simps(2) [of L "Suc k"] read_step.simps readArray_def Let_def
    by (simp add: read_elements_skip del: read.simps(2))
  then show "readValue L (read L n) depth cur ((''['' @ t @ '']'') @ r) = read_ok True (json_norm L (ArrV xs)) r"
    using d by (simp add: readValue_def structural_tokens)
qed

lemma smap_put_set: "k \<notin> fst ` set m \<Longrightarrow> set (smap_put k v m) = insert (k, v) (set m)"
  by (induction k v m rule: smap_put.induct) auto

lemma smap_of_acc:
  assumes "distinct (map fst kvs)" "fst ` set kvs \<inter> fst ` set m = {}"
  shows "set (fold (\<lambda>(k, v). smap_put k v) kvs m) = set kvs \<union> set m"
  using assms
proof (induction kvs arbitrary: m)
  case (Cons kv kvs)
  then show ?case
    by (cases kv) (auto simp: smap_put_set image_iff)
qed simp

lemma set_smap_of: "distinct (map fst kvs) \<Longrightarrow> set (smap_of kvs) = set kvs"
  by (simp add: smap_of_def smap_of_acc)

lemma smap_put_map: "map (\<lambda>(k, v). (k, g v)) (smap_put k v m) = smap_put k (g v) (map (\<lambda>(k, v). (k, g v)) m)"
  by (induction k v m rule: smap_put.induct) auto

lemma smap_of_norm: "map (\<lambda>(k, v). (k, g v)) (fold (\<lambda>(k, v). smap_put k v) kvs m) = fold (\<lambda>(k, v). smap_put k (g v)) kvs (map (\<lambda>(k, v). (k, g v)) m)"
  by (induction kvs arbitrary: m) (auto simp: smap_put_map)

lemma smap_of_sorted: "smap_inv kvs \<Longrightarrow> smap_of kvs = kvs"
proof -
  have "fold (\<lambda>(k, v). smap_put k v) kvs m = m @ kvs" if "smap_inv kvs" "\<And>k k'. k \<in> fst ` set m \<Longrightarrow> k' \<in> fst ` set kvs \<Longrightarrow> k < k'" for m
    using that
  proof (induction kvs arbitrary: m)
    case (Cons kv kvs)
    obtain k v where kv: "kv = (k, v)"
      by (cases kv)
    have "smap_put k v m = m @ [(k, v)]"
      using Cons.prems(2) by (intro smap_put_last) (auto simp: kv)
    then show ?case
      using Cons.IH [of "m @ [(k, v)]"] Cons.prems by (auto simp: kv)
  qed simp
  from this [of "[]"] show "smap_inv kvs \<Longrightarrow> smap_of kvs = kvs"
    by (simp add: smap_of_def)
qed

lemma reads_text_object:
  assumes "reads_membs L kvs t" "distinct (map fst kvs)"
  shows "reads_text L (ObjV (smap_of kvs)) (''{'' @ t @ ''}'')"
proof (rule reads_textI)
  fix n depth cur r
  assume d: "depth + json_depth (ObjV (smap_of kvs)) \<le> stackLimit_g" and f: "3 * length ((''{'' @ t @ ''}'') @ r) \<le> n" and "Suc depth \<le> stackLimit_g"
  have x: "Suc depth + json_depth x \<le> stackLimit_g" if "(k, x) \<in> set kvs" for k x
    using that d depth_elem [of "json_depth x" "map (\<lambda>(k, x). json_depth x) (smap_of kvs)"] by (force simp: set_smap_of [OF assms(2)])
  have "read L n (Suc depth) (ReadObject [] [] (t @ CHR ''}'' # r)) = read_ok True (ObjV (fold (\<lambda>(k, v). smap_put k (json_norm L v)) kvs [])) r"
    using f x by (intro reads_membsD [OF assms(1)]) auto
  then show "readValue L (read L n) depth cur ((''{'' @ t @ ''}'') @ r) = read_ok True (json_norm L (ObjV (smap_of kvs))) r"
    using d smap_of_norm [of "json_norm L" kvs "[]"] by (simp add: readValue_def structural_tokens smap_of_def)
qed

lemma reads_text_empty:
  assumes "spaces a"
  shows "reads_text L (ArrV []) (''['' @ a @ '']'')" "reads_text L (ObjV []) (''{'' @ a @ ''}'')"
proof -
  have "skipSpaces (a @ CHR '']'' # r) = CHR '']'' # r" for r
    using assms by (simp add: skipSpaces_append skipSpaces_id is_space_def)
  then show "reads_text L (ArrV []) (''['' @ a @ '']'')"
    by (intro reads_textI) (case_tac n, simp_all add: readValue_def structural_tokens readArray_def)
  have "skipCommentTokens (a @ CHR ''}'' # r) = (tokenObjectEnd, ''}'', r)" for r
    using assms by (simp add: skipCommentTokens_spaces structural_tokens)
  then show "reads_text L (ObjV []) (''{'' @ a @ ''}'')"
    by (intro reads_textI) (case_tac n, simp_all add: readValue_def structural_tokens readObject_def)
qed

lemma layout_reads:
  "layout L v s \<Longrightarrow> json_ok L v \<Longrightarrow> reads_text L v s"
  "elements L xs t \<Longrightarrow> list_all (json_ok L) xs \<Longrightarrow> reads_elems L xs t"
  "members L kvs u \<Longrightarrow> list_all (\<lambda>(k, v). json_ok L v) kvs \<Longrightarrow> reads_membs L kvs u"
proof (induction rule: layout_elements_members.inducts)
  case (layout_array xs t)
  then show ?case
    using elements_head by (intro reads_text_array) auto
next
  case (members_more a b c x s d kvs t k)
  then show ?case
    by (intro reads_membs_more) auto
next
  case (layout_object kvs t)
  then show ?case
    by (intro reads_text_object) (auto simp: list_all_iff set_smap_of)
next
  case (members_one a b c x s d k)
  then show ?case
    by (intro reads_membs_one) auto
next
  case (elements_more a x s b xs t)
  then show ?case
    by (intro reads_elems_more) auto
qed (simp_all add: reads_scalar_text reads_text_empty [simplified] reads_elems_one)

text \<open>Every layout of a value is parsed to it.\<close>

lemma layout_parsed:
  assumes "layout L v s" "json_ok L v" "json_depth v \<le> stackLimit_g" "spaces a" "scalar v \<Longrightarrow> delimiter (z @ slack)"
  shows "parse_string L slack (a @ s @ z) = Some (Inr (True, json_norm L v))"
proof -
  have "read L (parse_fuel (a @ s @ z @ slack)) 0 (ReadValue NullV (a @ s @ z @ slack)) = read_ok True (json_norm L v) (z @ slack)"
    using assms(3,5) by (intro reads_textD [OF layout_reads(1) [OF assms(1,2)] assms(4)]) (auto simp: parse_fuel_def)
  then show ?thesis
    by (simp add: parse_string_def parse_range_def)
qed

section \<open>The styled text\<close>

lemma writeIndent_spaces: "spaces ind \<Longrightarrow> \<exists>a. writeIndent ind document = document @ a \<and> spaces a"
  by (auto simp: writeIndent_def is_space_def)

lemma writeWithIndent_spaces: "spaces ind \<Longrightarrow> \<exists>a. writeWithIndent ind document v = document @ a @ v \<and> spaces a"
  using writeIndent_spaces [of ind document] by (auto simp: writeWithIndent_def)

lemma indent_spaces: "spaces ind \<Longrightarrow> spaces (indent ind)"
  by (simp add: indent_def is_space_def numeral_3_eq_3)

lemma childText_layout: "\<not> nonEmptyContainer v \<Longrightarrow> layout L v (childText L v)"
proof (cases v)
  case (ArrV xs)
  assume "\<not> nonEmptyContainer v"
  then show ?thesis
    using layout_no_elements [of "[]" L] ArrV by simp
next
  case (ObjV kvs)
  assume "\<not> nonEmptyContainer v"
  then show ?thesis
    using layout_no_members [of "[]" L] ObjV by simp
qed (use layout_scalar [of v L] in auto)

lemma oneLine_elements:
  assumes "xs \<noteq> []" "\<not> list_ex nonEmptyContainer xs" "spaces a" "spaces b"
  shows "elements L xs (a @ oneLine L xs @ b)"
  using assms(1-3)
proof (induction L xs arbitrary: a rule: oneLine.induct)
  case (3 L x y xs)
  have "elements L (y # xs) ('' '' @ oneLine L (y # xs) @ b)"
    using 3 by (intro "3.IH") (simp_all add: is_space_def)
  then show ?case
    using elements_more [OF 3(4) childText_layout [of x L] spaces_simps(1), of "y # xs"] 3(3) by simp
qed (auto intro: elements_one childText_layout assms(4))

text \<open>Names without the terminating NUL of C strings.\<close>

fun names_ok :: "json \<Rightarrow> bool" where
  "names_ok (ArrV xs) \<longleftrightarrow> list_all names_ok xs"
| "names_ok (ObjV kvs) \<longleftrightarrow> list_all (\<lambda>(k, v). CHR 0x00 \<notin> set k \<and> names_ok v) kvs"
| "names_ok v \<longleftrightarrow> True"

lemma valueToQuotedString_eq: "CHR 0x00 \<notin> set k \<Longrightarrow> valueToQuotedString k = valueToQuotedStringN k"
proof -
  assume k: "CHR 0x00 \<notin> set k"
  have c: "c_str k = k"
    using k by (induction k) (auto simp: c_str_def)
  have "concat (map quote_char k) = k"
    if "\<not> strnpbrk k [dquote, bslash, CHR 0x08, CHR 0x0C, CHR 0x0A, CHR 0x0D, CHR 0x09]" "\<not> list_ex isControlCharacter k"
    using that k by (induction k) (auto simp: strnpbrk_def quote_char_def)
  then show ?thesis
    by (simp add: valueToQuotedString_def c quoted_eq)
qed

lemma trailing_spaces:
  "layout L v s \<Longrightarrow> True"
  "elements L xs t \<Longrightarrow> spaces a \<Longrightarrow> elements L xs (t @ a)"
  "members L kvs u \<Longrightarrow> spaces a \<Longrightarrow> members L kvs (u @ a)"
proof (induction rule: layout_elements_members.inducts)
  case (elements_one b x s d)
  then show ?case
    using layout_elements_members.elements_one [of b L x s "d @ a"] by simp
next
  case (elements_more b x s d xs t)
  then show ?case
    using layout_elements_members.elements_more [of b L x s d xs "t @ a"] by simp
next
  case (members_one b c d x s e k)
  then show ?case
    using layout_elements_members.members_one [of b c d L x s "e @ a" k] by simp
next
  case (members_more b c d x s e kvs t k)
  then show ?case
    using layout_elements_members.members_more [of b c d L x s e kvs "t @ a" k] by simp
qed simp_all

lemma styled_array:
  assumes "spaces ind" "\<And>document. \<exists>t. f document = document @ t \<and> elements L xs t"
  shows "\<exists>a t. writeWithIndent ind (f (writeWithIndent ind document ''['')) '']'' = document @ a @ t \<and> spaces a \<and> layout L (ArrV xs) t"
proof -
  obtain a where a: "writeWithIndent ind document ''['' = document @ a @ ''[''" "spaces a"
    using writeWithIndent_spaces [OF assms(1)] by blast
  obtain t where t: "f (document @ a @ ''['') = (document @ a @ ''['') @ t" "elements L xs t"
    using assms(2) by blast
  obtain b where b: "writeWithIndent ind ((document @ a @ ''['') @ t) '']'' = ((document @ a @ ''['') @ t) @ b @ '']''" "spaces b"
    using writeWithIndent_spaces [OF assms(1)] by blast
  have "layout L (ArrV xs) (''['' @ (t @ b) @ '']'')"
    using trailing_spaces(2) [OF t(2) b(2)] by (rule layout_array)
  then show ?thesis
    using a b t(1) by (intro exI [of _ a] exI [of _ "''['' @ (t @ b) @ '']''"]) simp
qed

lemma styled_object:
  assumes "smap_inv kvs" "spaces ind" "\<And>document. \<exists>t. f document = document @ t \<and> members L kvs t"
  shows "\<exists>a t. writeWithIndent ind (f (writeWithIndent ind document ''{'')) ''}'' = document @ a @ t \<and> spaces a \<and> layout L (ObjV kvs) t"
proof -
  obtain a where a: "writeWithIndent ind document ''{'' = document @ a @ ''{''" "spaces a"
    using writeWithIndent_spaces [OF assms(2)] by blast
  obtain t where t: "f (document @ a @ ''{'') = (document @ a @ ''{'') @ t" "members L kvs t"
    using assms(3) by blast
  obtain b where b: "writeWithIndent ind ((document @ a @ ''{'') @ t) ''}'' = ((document @ a @ ''{'') @ t) @ b @ ''}''" "spaces b"
    using writeWithIndent_spaces [OF assms(2)] by blast
  have "layout L (ObjV kvs) (''{'' @ (t @ b) @ ''}'')"
    using layout_object [OF trailing_spaces(3) [OF t(2) b(2)]] assms(1) by (simp add: smap_of_sorted smap_inv_distinct)
  then show ?thesis
    using a b t(1) by (intro exI [of _ a] exI [of _ "''{'' @ (t @ b) @ ''}''"]) simp
qed

definition styled_ok :: "libc \<Rightarrow> json \<Rightarrow> bool" where
  "styled_ok L v \<longleftrightarrow> (\<forall>ind document. spaces ind \<longrightarrow> (\<exists>a t. styledValue L ind document v = document @ a @ t \<and> spaces a \<and> layout L v t))"

lemma styled_elements:
  assumes "spaces ind" "xs \<noteq> []" "\<And>x. x \<in> set xs \<Longrightarrow> styled_ok L x" "h \<Longrightarrow> \<not> list_ex nonEmptyContainer xs"
  shows "\<exists>t. styledElements L ind h document xs = document @ t \<and> elements L xs t"
  using assms(2-4)
proof (induction xs arbitrary: document)
  case (Cons x xs)
  define document1 where "document1 = (if h then writeWithIndent ind document (childText L x) else styledValue L ind (writeIndent ind document) x)"
  have "\<exists>a t. document1 = document @ a @ t \<and> spaces a \<and> layout L x t"
  proof (cases h)
    case True
    then show ?thesis
      using Cons.prems(3) writeWithIndent_spaces [OF assms(1), of document "childText L x"] childText_layout [of x L] by (auto simp: document1_def)
  next
    case False
    obtain b where b: "writeIndent ind document = document @ b" "spaces b"
      using writeIndent_spaces [OF assms(1)] by blast
    obtain a t where "styledValue L ind (document @ b) x = (document @ b) @ a @ t" "spaces a" "layout L x t"
      using Cons.prems(2) [OF list.set_intros(1)] assms(1) unfolding styled_ok_def by blast
    then show ?thesis
      using False b by (intro exI [of _ "b @ a"] exI [of _ t]) (simp add: document1_def)
  qed
  then obtain a t where d: "document1 = document @ a @ t" "spaces a" "layout L x t"
    by blast
  show ?case
  proof (cases "xs = []")
    case True
    then show ?thesis
      using d elements_one [OF d(2,3) spaces_simps(1)] by (simp add: Let_def flip: document1_def)
  next
    case False
    obtain u where "styledElements L ind h (document1 @ '','') xs = (document1 @ '','') @ u" "elements L xs u"
      using Cons.IH [OF False, of "document1 @ '',''"] Cons.prems(2,3) by auto
    then show ?thesis
      using False d elements_more [OF d(2,3) spaces_simps(1), of xs u] by (simp add: Let_def flip: document1_def)
  qed
qed simp

lemma styled_members:
  assumes "spaces ind" "kvs \<noteq> []" "\<And>k x. (k, x) \<in> set kvs \<Longrightarrow> CHR 0x00 \<notin> set k \<and> styled_ok L x"
  shows "\<exists>t. styledMembers L ind document kvs = document @ t \<and> members L kvs t"
  using assms(2,3)
proof (induction kvs arbitrary: document)
  case (Cons kx kvs)
  obtain k x where kx: "kx = (k, x)"
    by (cases kx)
  have k: "valueToQuotedString k = valueToQuotedStringN k" "styled_ok L x"
    using Cons.prems(2) [of k x] by (simp_all add: kx valueToQuotedString_eq)
  define document1 where "document1 = styledValue L ind (writeWithIndent ind document (valueToQuotedString k) @ '' : '') x"
  obtain b where b: "writeWithIndent ind document (valueToQuotedString k) = document @ b @ valueToQuotedStringN k" "spaces b"
    using writeWithIndent_spaces [OF assms(1), of document "valueToQuotedString k"] k(1) by auto
  obtain a t where d: "document1 = ((document @ b @ valueToQuotedStringN k) @ '' : '') @ a @ t" "spaces a" "layout L x t"
    using k(2) assms(1) unfolding styled_ok_def document1_def b(1) by blast
  have sp: "spaces '' ''" "spaces ('' '' @ a)"
    using d(2) by (simp_all add: is_space_def)
  show ?case
  proof (cases "kvs = []")
    case True
    then show ?thesis
      using d(1) members_one [OF b(2) sp d(3) spaces_simps(1), of k] by (simp add: kx Let_def flip: document1_def)
  next
    case False
    obtain u where "styledMembers L ind (document1 @ '','') kvs = (document1 @ '','') @ u" "members L kvs u"
      using Cons.IH [OF False, of "document1 @ '',''"] Cons.prems(2) by auto
    then show ?thesis
      using False d(1) members_more [OF b(2) sp d(3) spaces_simps(1), of kvs u k] by (simp add: kx Let_def flip: document1_def)
  qed
qed simp

lemma styled_scalar: "scalar v \<Longrightarrow> styled_ok L v"
  using layout_scalar [of v L] by (cases v) (auto simp: styled_ok_def intro: exI [of _ "[]"])

lemma styled_layout: "json_ok L v \<Longrightarrow> names_ok v \<Longrightarrow> styled_ok L v"
proof (induction v)
  case (ArrV xs)
  have x: "styled_ok L x" if "x \<in> set xs" for x
    using ArrV that by (simp add: list_all_iff)
  show ?case
    unfolding styled_ok_def
  proof (intro allI impI)
    fix ind document
    assume ind: "spaces ind"
    consider (empty) "xs = []" | (multi) "xs \<noteq> []" "isMultineArray L xs" | (line) "xs \<noteq> []" "\<not> isMultineArray L xs"
      by blast
    then show "\<exists>a t. styledValue L ind document (ArrV xs) = document @ a @ t \<and> spaces a \<and> layout L (ArrV xs) t"
    proof cases
      case empty
      then show ?thesis
        using layout_no_elements [of "[]" L] by (intro exI [of _ "[]"] exI [of _ "''[]''"]) simp
    next
      case multi
      have "\<exists>t. styledElements L (indent ind) (\<not> noChildValues xs) doc xs = doc @ t \<and> elements L xs t" for doc
        using x by (intro styled_elements [OF indent_spaces [OF ind] multi(1)]) (auto simp: noChildValues_def)
      then show ?thesis
        using styled_array [OF ind, of "\<lambda>doc. styledElements L (indent ind) (\<not> noChildValues xs) doc xs" L xs document] multi by simp
    next
      case line
      then have "elements L xs ('' '' @ oneLine L xs @ '' '')"
        by (intro oneLine_elements) (auto simp: isMultineArray_def noChildValues_def is_space_def)
      then show ?thesis
        using layout_array [of L xs "'' '' @ oneLine L xs @ '' ''"] line
        by (intro exI [of _ "[]"] exI [of _ "''['' @ ('' '' @ oneLine L xs @ '' '') @ '']''"]) simp
    qed
  qed
next
  case (ObjV kvs)
  have x: "CHR 0x00 \<notin> set k \<and> styled_ok L x" if "(k, x) \<in> set kvs" for k x
    using ObjV that by (force simp: list_all_iff)
  show ?case
    unfolding styled_ok_def
  proof (intro allI impI)
    fix ind document
    assume ind: "spaces ind"
    show "\<exists>a t. styledValue L ind document (ObjV kvs) = document @ a @ t \<and> spaces a \<and> layout L (ObjV kvs) t"
    proof (cases "kvs = []")
      case True
      then show ?thesis
        using layout_no_members [of "[]" L] by (intro exI [of _ "[]"] exI [of _ "''{}''"]) simp
    next
      case False
      have "\<exists>t. styledMembers L (indent ind) doc kvs = doc @ t \<and> members L kvs t" for doc
        using x by (intro styled_members [OF indent_spaces [OF ind] False])
      then show ?thesis
        using ObjV.prems(1) styled_object [OF _ ind, of kvs "\<lambda>doc. styledMembers L (indent ind) doc kvs" L document] False by simp
    qed
  qed
qed (simp_all add: styled_scalar)

text \<open>
  C14. The bodies of the responses are read back: for every value whose integers fit their types, whose doubles the C library
  prints as it documents, whose objects are ordered with names without NUL and whose nesting stays within the limit, \<open>Reader\<close>
  parses what \<open>toStyledString\<close> prints and gives the value back: its integers in the representation that the reader has for their
  size, and its doubles as themselves or, where the printed form has digits only, as an integer of the same value.
\<close>

theorem styled_roundtrip:
  assumes "json_printable L v" "names_ok v" "json_depth v \<le> stackLimit_g"
  shows "\<exists>w. parse_json L (toStyledString L v) = Inr (True, w) \<and> json_same L v w"
proof -
  have ok: "json_ok L v"
    by (rule json_printable_ok [OF assms(1)])
  obtain a t where t: "styledValue L [] [] v = a @ t" "spaces a" "layout L v t"
    using styled_layout [OF ok assms(2), unfolded styled_ok_def, rule_format, of "[]" "[]"] by auto
  have "parse_string L slack (a @ t @ [CHR 0x0A]) = Some (Inr (True, json_norm L v))" for slack
    using ok assms(3) t by (intro layout_parsed) (auto simp: delimiter_def is_space_def)
  then show ?thesis
    using t(1) json_printable_same [OF assms(1)] by (simp add: parse_json_def toStyledString_def)
qed

theorem styled_roundtrip_witness:
  "\<exists>w. parse_json libc_plain (toStyledString libc_plain (ObjV [(''contacts'', ArrV [ObjV [(''id'', IntV 7), (''name'', StrV ''ada'')]]), (''lat'', RealV 0x3FE0000000000000)]))
   = Inr (True, w) \<and> json_same libc_plain (ObjV [(''contacts'', ArrV [ObjV [(''id'', IntV 7), (''name'', StrV ''ada'')]]), (''lat'', RealV 0x3FE0000000000000)]) w"
  by (rule styled_roundtrip) (simp_all add: printed_plain minInt64_def maxInt64_def stackLimit_g_def)

end
