(* ===== verification/Initial_Data.thy ===== *)
theory Initial_Data
  imports Accounts Handlers Json_Layout
begin

text \<open>
  The users that the server creates when it starts (\<open>tools/DbBuilder.cpp\<close>), with the setters of \<open>Person\<close> and \<open>Skill\<close> that
  build them.
\<close>

section \<open>Setters\<close>

definition Person0 :: person where
  "Person0 = \<lparr>p_id = 0, p_totRecommendations = 0, p_firstName = '''', p_lastName = '''', p_email = '''', p_password = '''',
     p_dateOfBirth = '''', p_city = '''', p_summary = '''', p_location = \<lparr>latitude = 0, longitude = 0\<rparr>, p_workHistory = [], p_skills = []\<rparr>"

text \<open>\<open>setFirstName\<close> and \<open>setLastName\<close> compute the name in lower case and store the name as given.\<close>

definition setFirstName :: "string \<Rightarrow> person \<Rightarrow> person" where
  "setFirstName firstName p = p\<lparr>p_firstName := firstName\<rparr>"
definition setLastName :: "string \<Rightarrow> person \<Rightarrow> person" where
  "setLastName lastName p = p\<lparr>p_lastName := lastName\<rparr>"
definition setEmail :: "string \<Rightarrow> person \<Rightarrow> person" where
  "setEmail email p = p\<lparr>p_email := email\<rparr>"
definition setPassword :: "string \<Rightarrow> person \<Rightarrow> person" where
  "setPassword password p = p\<lparr>p_password := password\<rparr>"
definition setDateOfBirth :: "string \<Rightarrow> person \<Rightarrow> person" where
  "setDateOfBirth dateOfBirth p = p\<lparr>p_dateOfBirth := dateOfBirth\<rparr>"
definition setCity :: "string \<Rightarrow> person \<Rightarrow> person" where
  "setCity city p = p\<lparr>p_city := lower city\<rparr>"
definition setSummary :: "string \<Rightarrow> person \<Rightarrow> person" where
  "setSummary summary p = p\<lparr>p_summary := summary\<rparr>"
definition setLocation :: "double \<Rightarrow> double \<Rightarrow> person \<Rightarrow> person" where
  "setLocation lat lon p = p\<lparr>p_location := \<lparr>latitude = lat, longitude = lon\<rparr>\<rparr>"
definition addWorkHistory :: "workHistory \<Rightarrow> person \<Rightarrow> person" where
  "addWorkHistory h p = p\<lparr>p_workHistory := p_workHistory p @ [h]\<rparr>"
definition addSkill :: "skill \<Rightarrow> person \<Rightarrow> person" where
  "addSkill s p = p\<lparr>p_skills := p_skills p @ [s]\<rparr>"

lemmas setter_defs = Person0_def setFirstName_def setLastName_def setEmail_def setPassword_def setDateOfBirth_def setCity_def
  setSummary_def setLocation_def

section \<open>DbBuilder\<close>

record dbBuilder =
  jobPositions :: "string list"
  builder_skills :: "skill list"

definition JOB_POSITIONS_FILE :: string where
  "JOB_POSITIONS_FILE = quoted (''{'' @ [CHR 0x0A]
     @ ''    ~job_positions~:['' @ [CHR 0x0A]
     @ ''    {'' @ [CHR 0x0A]
     @ ''        ~name~:~Developer~,'' @ [CHR 0x0A]
     @ ''        ~description~:~Un desarrollador de software com'' @ [CHR 0xC3, CHR 0xBA] @ ''n y silvestre.~,'' @ [CHR 0x0A]
     @ ''        ~category~:~Programaci'' @ [CHR 0xC3, CHR 0xB3] @ ''n~'' @ [CHR 0x0A]
     @ ''    },'' @ [CHR 0x0A]
     @ ''    {'' @ [CHR 0x0A]
     @ ''        ~name~:~CEO~,'' @ [CHR 0x0A]
     @ ''        ~description~:~Ruler of the world, empezando por una empresa.~,'' @ [CHR 0x0A]
     @ ''        ~category~:~Management~'' @ [CHR 0x0A]
     @ ''    },'' @ [CHR 0x0A]
     @ ''    {'' @ [CHR 0x0A]
     @ ''        ~name~:~Barista~,'' @ [CHR 0x0A]
     @ ''        ~description~:~Toco botones art'' @ [CHR 0xC3, CHR 0xAD] @ ''sticamente.~,'' @ [CHR 0x0A]
     @ ''        ~category~:~Cafeter'' @ [CHR 0xC3, CHR 0xAD] @ ''a~'' @ [CHR 0x0A]
     @ ''    },'' @ [CHR 0x0A]
     @ ''    {'' @ [CHR 0x0A]
     @ ''        ~name~:~Ninja~,'' @ [CHR 0x0A]
     @ ''        ~description~:~Puede resolver toto tipo de problemas t'' @ [CHR 0xC3, CHR 0xA9] @ ''cnicos en una organizaci'' @ [CHR 0xC3, CHR 0xB3] @ ''n~,'' @ [CHR 0x0A]
     @ ''        ~category~:~Programaci'' @ [CHR 0xC3, CHR 0xB3] @ ''n~'' @ [CHR 0x0A]
     @ ''    }'' @ [CHR 0x0A]
     @ '']'' @ [CHR 0x0A]
     @ ''}'')"

definition SKILLS_FILE :: string where
  "SKILLS_FILE = quoted (''{'' @ [CHR 0x0A]
     @ ''    ~skills~:['' @ [CHR 0x0A]
     @ ''    {'' @ [CHR 0x0A]
     @ ''        ~name~:~Caf'' @ [CHR 0xC3, CHR 0xA9] @ ''~,'' @ [CHR 0x0A]
     @ ''        ~description~:~Habilidad para apretar el bot'' @ [CHR 0xC3, CHR 0xB3] @ ''n de la m'' @ [CHR 0xC3, CHR 0xA1] @ ''quina de caf'' @ [CHR 0xC3, CHR 0xA9] @ '' sin le que tiemble el pulso.~,'' @ [CHR 0x0A]
     @ ''        ~category~:~Cafeter'' @ [CHR 0xC3, CHR 0xAD] @ ''a~'' @ [CHR 0x0A]
     @ ''    },'' @ [CHR 0x0A]
     @ ''    {'' @ [CHR 0x0A]
     @ ''        ~name~:~Liderazgo~,'' @ [CHR 0x0A]
     @ ''        ~description~:~Superpotencia mundial en hacer que los dem'' @ [CHR 0xC3, CHR 0xA1] @ ''s hagan lo que desee.~,'' @ [CHR 0x0A]
     @ ''        ~category~:~Management~'' @ [CHR 0x0A]
     @ ''    },'' @ [CHR 0x0A]
     @ ''    {'' @ [CHR 0x0A]
     @ ''        ~name~:~PHP~,'' @ [CHR 0x0A]
     @ ''        ~description~:~Conocimiento novato del lenguaje PHP.~,'' @ [CHR 0x0A]
     @ ''        ~category~:~Programaci'' @ [CHR 0xC3, CHR 0xB3] @ ''n~'' @ [CHR 0x0A]
     @ ''    },'' @ [CHR 0x0A]
     @ ''    {'' @ [CHR 0x0A]
     @ ''        ~name~:~JavaScript avanzado~,'' @ [CHR 0x0A]
     @ ''        ~description~:~Conocimiento avanzado de lenguaje JavaScript.~,'' @ [CHR 0x0A]
     @ ''        ~category~:~Programaci'' @ [CHR 0xC3, CHR 0xB3] @ ''n~'' @ [CHR 0x0A]
     @ ''    }'' @ [CHR 0x0A]
     @ '']'' @ [CHR 0x0A]
     @ ''}'')"

definition parseFile :: "libc \<Rightarrow> string \<Rightarrow> json res" where
  "parseFile L fileContent = res_bind (parse_json L fileContent) (\<lambda>(parsingSuccessful, root).
     if \<not> parsingSuccessful then Inl (Thrown_text ''Invalid Config file.'') else Inr root)"

definition loadAvailableJobPositions :: "libc \<Rightarrow> string list res" where
  "loadAvailableJobPositions L =
     res_bind (parseFile L JOB_POSITIONS_FILE) (\<lambda>root. res_bind (json_get root ''job_positions'') (\<lambda>jobPositionsAsArray.
     json_each jobPositionsAsArray (\<lambda>v. str_member L v ''name'')))"

definition loadAvailableSkills :: "libc \<Rightarrow> skill list res" where
  "loadAvailableSkills L =
     res_bind (parseFile L SKILLS_FILE) (\<lambda>root. res_bind (json_get root ''skills'') (\<lambda>skillsAsArray.
     json_each skillsAsArray (skill_deserialize L)))"

text \<open>The constructor after it has opened the database (\<open>openDb\<close>); both lists are filled from the texts above.\<close>

definition DbBuilder :: "libc \<Rightarrow> dbBuilder res" where
  "DbBuilder L = res_bind (loadAvailableJobPositions L) (\<lambda>ps. res_bind (loadAvailableSkills L) (\<lambda>ss.
     Inr \<lparr>jobPositions = ps, builder_skills = ss\<rparr>))"

definition getWorkHistory :: "dbBuilder \<Rightarrow> nat \<times> string \<times> string \<times> string \<Rightarrow> workHistory res" where
  "getWorkHistory b = (\<lambda>(jobPositionIndex, company, fromDate, toDate).
     if jobPositionIndex < length (jobPositions b)
     then Inr \<lparr>wh_positionTitle = jobPositions b ! jobPositionIndex, wh_company = company, wh_fromDate = fromDate, wh_toDate = toDate\<rparr>
     else Inl Bad_pointer)"

definition getSkill :: "dbBuilder \<Rightarrow> nat \<Rightarrow> skill res" where
  "getSkill b skillIndex =
     (if skillIndex < length (builder_skills b)
      then let s = builder_skills b ! skillIndex in Inr \<lparr>sk_name = lower (sk_name s), sk_description = sk_description s, sk_category = sk_category s\<rparr>
      else Inl Bad_pointer)"

text \<open>The calls that all of \<open>getFakePerson1\<close> to \<open>getFakePerson16\<close> make, in their order.\<close>

definition fake_person :: "dbBuilder \<Rightarrow> string \<Rightarrow> string \<Rightarrow> string \<Rightarrow> string \<Rightarrow> string \<Rightarrow> string \<Rightarrow> string \<Rightarrow> double \<Rightarrow> double
    \<Rightarrow> (nat \<times> string \<times> string \<times> string) list \<Rightarrow> nat list \<Rightarrow> person res" where
  "fake_person b firstName lastName email password dateOfBirth city summary lat lon works skills =
     (let person = setLocation lat lon (setSummary summary (setCity city (setDateOfBirth dateOfBirth (setPassword password
        (setEmail email (setLastName lastName (setFirstName firstName (Person0\<lparr>p_id := 0\<rparr>))))))))
      in res_bind (res_map (getWorkHistory b) works) (\<lambda>hs. res_bind (res_map (getSkill b) skills) (\<lambda>ss.
         Inr (fold addSkill ss (fold addWorkHistory hs person)))))"

definition getFakePerson1 :: "dbBuilder \<Rightarrow> person res" where
  "getFakePerson1 b = fake_person b ''John'' ''Doe'' ''john@doe.com'' ''123abc'' ''01/01/1990'' ''Buenos Aires''
     ''Hi, this is John Doe'' 0xC04D2F26AEC0724B 0xC0414F0D2806AF47
     [(0, ''IBM'', ''10/2012'', ''11/2014''),
      (1, ''Amazon'', ''12/2014'', '''')] [0, 1]"

definition getFakePerson2 :: "dbBuilder \<Rightarrow> person res" where
  "getFakePerson2 b = fake_person b ''Jane'' ''Doe'' ''jane@doe.com'' ''123abc'' ''01/11/1991'' ''Madrid''
     ''Hi, this is Jane Doe'' 0xC04D2F26AEC0724B 0xC0414F0D2806AF47
     [(2, ''Microsoft'', ''10/2013'', ''11/2015''),
      (3, ''E-bay'', ''12/2015'', '''')] [2, 3]"

definition getFakePerson3 :: "dbBuilder \<Rightarrow> person res" where
  "getFakePerson3 b = fake_person b ''Carlos'' ''Rodriguez'' ''crodriguez@gmail.com'' ''123abc'' ''01/01/1990'' ''CABA''
     ''Hola, soy Carlos Rodriguez'' 0xC04D2F26AEC0724B 0xC0414F0D2806AF47
     [(2, ''Microsoft'', ''10/2012'', ''11/2014'')] [2]"

definition getFakePerson4 :: "dbBuilder \<Rightarrow> person res" where
  "getFakePerson4 b = fake_person b ''Marty'' ''McFly'' ''marty@mcfly.com'' ''123abc'' ''06/09/1968'' ''Hill Valley, California''
     ''Mi gran habilidad es viajar por el tiempo.'' 0xC04D2F26BF8769EC 0xC0414F0A3D70A3D7
     [(0, ''IBM'', ''10/2012'', ''11/2014''),
      (1, ''Amazon'', ''12/2014'', '''')] [1, 2]"

definition getFakePerson5 :: "dbBuilder \<Rightarrow> person res" where
  "getFakePerson5 b = fake_person b ''Tony'' ''Stark'' ''tony@stark.com'' ''123abc'' ''01/01/1970'' ''Manhattan''
     ''Mi hobbie es salvar al mundo.'' 0xC04D2F26AEC0724B 0xC0414F0D2806AF47
     [(2, ''Microsoft'', ''10/2012'', ''11/2014'')] [2]"

definition getFakePerson6 :: "dbBuilder \<Rightarrow> person res" where
  "getFakePerson6 b = fake_person b ''Madonna'' ''Ciccone'' ''madonna@ciccone.com'' ''123abc'' ''16/08/1958'' ''Michigan''
     ''soy la reina del pop.'' 0xC04D2F29F59CCFAF 0xC0415054D61B2A28
     [(0, ''Sony'', ''10/1970'', '''')] [0]"

definition getFakePerson7 :: "dbBuilder \<Rightarrow> person res" where
  "getFakePerson7 b = fake_person b ''Lionel'' ''Messi'' ''lionel@messi.com'' ''123abc'' ''24/06/1987'' ''Barcelona''
     ''Me gusta mucho jugar al futbol.'' 0xC04D2F29F59CCFAF 0xC03FA0A5BD944AA5
     [(1, ''Barcelona FC'', ''10/2000'', '''')] [1, 2]"

definition getFakePerson8 :: "dbBuilder \<Rightarrow> person res" where
  "getFakePerson8 b = fake_person b ''Jack'' ''Sparrow'' ''jack@sparrow.com'' ''123abc'' ''24/06/1980'' ''Caribe''
     ''Soy un gran pirata.'' 0xC04CAF29F59CCFAF 0xC03FA0A5BD944AA5
     [(1, ''La Perla Negra'', ''10/2000'', '''')] [3]"

definition getFakePerson9 :: "dbBuilder \<Rightarrow> person res" where
  "getFakePerson9 b = fake_person b ''Maria'' ''Sanchez'' ''maria@sanchez.com'' ''123abc'' ''04/06/1975'' ''Los Angeles''
     ''Hola, soy Maria Sanchez'' 0xC04CAF29F59CCFAF 0xC0359E16616B54E3
     [(0, ''Microsoft'', ''10/2000'', ''10/2014''),
      (3, ''IBM'', ''11/2014'', '''')] [2, 3]"

definition getFakePerson10 :: "dbBuilder \<Rightarrow> person res" where
  "getFakePerson10 b = fake_person b ''Antonella'' ''Roccuzzo'' ''antonella@roccuzzo.com'' ''123abc'' ''26/02/1988'' ''Barcelona''
     ''Hola, soy la novia de Messi.'' 0xC04CAC9AED56B010 0xC0359E16616B54E3
     [(3, ''Barcelona FC'', ''10/2000'', '''')] [0]"

definition getFakePerson11 :: "dbBuilder \<Rightarrow> person res" where
  "getFakePerson11 b = fake_person b ''Luke'' ''Skywalker'' ''luke@skywalker.com'' ''123abc'' ''26/02/1968'' ''Tatooine''
     ''Soy Luke Skywalker, mejor conocido como el hijo de Darth Vader.'' 0xC04BAC9AED56B010 0xC0273C2CC2D6A9C5
     [(2, ''Granjero'', ''09/1969'', ''09/1070''),
      (1, ''La Rebelion'', ''10/1070'', '''')] [0, 1]"

definition getFakePerson12 :: "dbBuilder \<Rightarrow> person res" where
  "getFakePerson12 b = fake_person b ''Britney'' ''Spears'' ''britney@spears.com'' ''123abc'' ''01/12/1981'' ''Mississippi''
     ''Ups, I did it again.'' 0xC04BAC9AED56B010 0xC0273C2CC2D6A9C5
     [(2, ''Sony'', ''01/1992'', '''')] [3]"

definition getFakePerson13 :: "dbBuilder \<Rightarrow> person res" where
  "getFakePerson13 b = fake_person b ''Evan'' ''Baxter'' ''evan@baxter.com'' ''123abc'' ''22/07/2007'' ''Manhattan''
     ''Soy un presentador de noticias.'' 0xC04CAC9AED56B010 0xC0273C2CC2D6A9C5
     [(3, ''7 News'', ''01/1992'', '''')] [1]"

definition getFakePerson14 :: "dbBuilder \<Rightarrow> person res" where
  "getFakePerson14 b = fake_person b ''Michael'' ''Jordan'' ''michael@jordan.com'' ''123abc'' ''17/02/1963'' ''Brooklyn''
     ''Me gusta mucho jugar al basket.'' 0xC04CAC97A67A52AC 0xC0273C2CC2D6A9C5
     [(0, ''Starbucks'', ''01/1992'', ''01/1994''),
      (1, ''NBA'', ''02/1994'', '''')] [1, 3]"

definition getFakePerson15 :: "dbBuilder \<Rightarrow> person res" where
  "getFakePerson15 b = fake_person b ''Harry'' ''Potter'' ''harry@potter.com'' ''123abc'' ''17/12/1990'' ''Hogwarts''
     ''Soy un gran mago.'' 0xC04BAC97A67A52AC 0xC027414B7B28954A
     [(0, ''Starbucks'', ''01/1992'', ''01/1994''),
      (1, ''Wendys'', ''01/1995'', ''01/1999''),
      (2, ''Hogwarts'', ''02/2000'', '''')] [1, 2]"

definition getFakePerson16 :: "dbBuilder \<Rightarrow> person res" where
  "getFakePerson16 b = fake_person b ''Maggie'' ''Sparrow'' ''jacksparrow@idem.com'' ''123abc'' ''24/06/1992'' ''Caribe''
     ''Soy un gran pirata.'' 0xC04CAF29F59CCFAF 0xC03FA0A5BD944AA5
     [(1, ''La Perla Negra'', ''10/2000'', '''')] [3]"


definition fakePeople :: "dbBuilder \<Rightarrow> person res list" where
  "fakePeople b = [getFakePerson1 b, getFakePerson2 b, getFakePerson3 b, getFakePerson4 b, getFakePerson5 b, getFakePerson6 b,
     getFakePerson7 b, getFakePerson8 b, getFakePerson9 b, getFakePerson10 b, getFakePerson11 b, getFakePerson12 b,
     getFakePerson13 b, getFakePerson14 b, getFakePerson15 b, getFakePerson16 b]"

text \<open>
  One turn of the loop, and the loop. The clean-up after it frees the profiles; it indexes the vector while it takes
  elements from its end, reads the pointers that \<open>pop_back\<close> leaves in place, and is not part of the model.
\<close>

definition load_user :: "libc \<Rightarrow> int \<Rightarrow> person \<Rightarrow> unit prog" where
  "load_user L i person = handle
     (bnd (lift (person_serialize person)) (\<lambda>v. seq (savePerson L v (-1)) (saveToken L (''tokenUser'' @ to_string i) (p_email person))))
     (\<lambda>e. if e = UserAlreadyExists then ret () else raise e)"

fun load_loop :: "libc \<Rightarrow> int \<Rightarrow> person list \<Rightarrow> unit prog" where
  "load_loop L i [] = ret ()"
| "load_loop L i (person # people) = seq (load_user L i person) (load_loop L (i + 1) people)"

definition loadUsers :: "libc \<Rightarrow> dbBuilder \<Rightarrow> unit prog" where
  "loadUsers L b = bnd (lift (res_map (\<lambda>r. r) (fakePeople b))) (load_loop L 1)"

definition setLastId :: "unit prog" where
  "setLastId = seq (putKey ''lastID'' (to_string 3)) (ret ())"

section \<open>One user\<close>

text \<open>What \<open>deserializeMe\<close> makes of a profile that \<open>serializeMe\<close> gave it directly.\<close>

definition lowered :: "person \<Rightarrow> person" where
  "lowered p = p\<lparr>p_firstName := lower (p_firstName p), p_lastName := lower (p_lastName p), p_email := lower (p_email p), p_city := lower (p_city p),
     p_skills := map (\<lambda>s. s\<lparr>sk_name := lower (sk_name s)\<rparr>) (p_skills p)\<rparr>"

lemma deserialize_enc:
  assumes "long_ok (p_id p)" "minInt \<le> p_totRecommendations p" "p_totRecommendations p \<le> maxInt"
  shows "person_deserialize L (person_enc p) = Inr (lowered p)"
proof -
  have s: "skill_deserialize L (skill_enc s) = Inr (s\<lparr>sk_name := lower (sk_name s)\<rparr>)" for s
    by (simp add: skill_enc_def skill_deserialize_def str_member_def)
  have h: "workHistory_deserialize L (workHistory_enc h) = Inr h" for h
    by (simp add: workHistory_enc_def workHistory_deserialize_def str_member_def)
  have get: "json_get (ObjV kvs) key = Inr (case smap_get kvs key of None \<Rightarrow> NullV | Some x \<Rightarrow> x)" for kvs key
    by (simp add: json_get_def)
  show ?thesis
    unfolding person_deserialize_def str_member_def long_member_def double_member_def person_enc_def
    using assms by (simp add: get smap_get_member lowered_def long_ok_def asLargestInt_def res_map_map res_map_Inr s h)
qed

definition loaded :: "person \<Rightarrow> int \<Rightarrow> person" where
  "loaded p i = (lowered p)\<lparr>p_id := i, p_totRecommendations := 0\<rparr>"

definition token_of :: "int \<Rightarrow> string" where
  "token_of i = ''tokenUser'' @ to_string i"

text \<open>What the loop needs of a profile.\<close>

definition plain_profile :: "person \<Rightarrow> bool" where
  "plain_profile p \<longleftrightarrow> p_id p = 0 \<and> p_totRecommendations p = 0 \<and> is_lower (p_email p) \<and> mail_ok (p_email p)"

definition fresh_profile :: "libc \<Rightarrow> person \<Rightarrow> bool" where
  "fresh_profile L p \<longleftrightarrow> plain_profile p \<and> double_safe L (latitude (p_location p)) \<and> double_safe L (longitude (p_location p))"

lemma plain_deserialize:
  assumes "plain_profile p"
  shows "person_deserialize L (person_enc p) = Inr (lowered p)" "p_email (lowered p) = p_email p"
  using assms deserialize_enc [of p L] by (simp_all add: plain_profile_def lowered_def long_ok_def minInt64_def maxInt64_def minInt_def maxInt_def)

text \<open>No entry is lost, and no mail of the index of a skill.\<close>

definition keeps :: "dbw \<Rightarrow> dbw \<Rightarrow> bool" where
  "keeps w w' \<longleftrightarrow> (\<forall>k. kv w k \<noteq> None \<longrightarrow> kv w' k \<noteq> None) \<and> (\<forall>x m. mail_in w x m \<longrightarrow> mail_in w' x m)"

lemma keeps_refl: "keeps w w"
  by (simp add: keeps_def)

lemma keeps_trans: "keeps w w1 \<Longrightarrow> keeps w1 w2 \<Longrightarrow> keeps w w2"
  unfolding keeps_def by blast

lemma keeps_put: "dbw_ok w \<Longrightarrow> (\<And>x. k \<noteq> USER_SKILL @ x) \<Longrightarrow> keeps w (kv_put k v w)"
proof -
  assume w: "dbw_ok w" "\<And>x. k \<noteq> USER_SKILL @ x"
  have "mail_in w x m = mail_in (kv_put k v w) x m" for x m
    using w(2) [of x] w(1) by (intro mail_in_cong) auto
  then show ?thesis
    using w(1) by (simp add: keeps_def)
qed

lemma registered_stays:
  assumes "registered L w p" "dbw_ok w'" "index_inv w'" "keeps w w'"
    and "kv w' (USER_MAIL_ID @ p_email p) = kv w (USER_MAIL_ID @ p_email p)" "kv w' (USER_PASSWORD @ p_email p) = kv w (USER_PASSWORD @ p_email p)"
    and "kv w' (USER_UUID_ID @ to_string (p_id p)) = kv w (USER_UUID_ID @ to_string (p_id p))"
  shows "registered L w' p"
  using assms unfolding registered_def stored_user_def keeps_def by simp

lemma token_key_apart:
  "\<not> index_key (USER_TOKEN @ x)" "USER_TOKEN @ x \<noteq> ''lastID''" "USER_TOKEN @ x \<noteq> USER_MAIL_ID @ y" "USER_TOKEN @ x \<noteq> USER_PASSWORD @ y"
  "USER_TOKEN @ x \<noteq> USER_UUID_ID @ y" "USER_TOKEN @ x \<noteq> USER_NAME_ID @ y" "USER_TOKEN @ x \<noteq> USER_SKILL @ y"
  by (simp_all add: index_key_def key_defs)

lemma load_user_new:
  assumes "dbw_ok w" "index_inv w" "last_id w n" "n < maxInt64" and "fresh_profile L p" "kv w (USER_MAIL_ID @ p_email p) = None"
  shows "\<exists>w'. load_user L i p w = (Inr (), w') \<and> registered L w' (loaded p (n + 1)) \<and> last_id w' (n + 1)
    \<and> kv w' (USER_TOKEN @ token_of i) = Some (fastWrite L (token_entry L (p_email p) (n + 1)))
    \<and> (\<forall>k. \<not> index_key k \<longrightarrow> k \<noteq> ''lastID'' \<longrightarrow> k \<notin> user_keys (loaded p (n + 1)) \<longrightarrow> k \<noteq> USER_TOKEN @ p_email p \<longrightarrow> k \<noteq> USER_TOKEN @ token_of i
         \<longrightarrow> kv w' k = kv w k)
    \<and> keeps w w'"
proof -
  have des: "person_deserialize L (person_enc p) = Inr (lowered p)"
    using plain_deserialize assms(5) by (simp add: fresh_profile_def)
  have m: "p_email (lowered p) = p_email p" "p_location (lowered p) = p_location p" "p_email (loaded p (n + 1)) = p_email p" "p_id (loaded p (n + 1)) = n + 1"
    using assms(5) by (simp_all add: lowered_def loaded_def fresh_profile_def plain_profile_def)
  have l: "(lowered p)\<lparr>p_id := n + 1, p_totRecommendations := 0\<rparr> = loaded p (n + 1)"
    by (simp add: loaded_def)
  obtain w1 where w1: "savePerson L (person_enc p) (-1) w = (Inr (n + 1), w1)" "registered L w1 (loaded p (n + 1))" "last_id w1 (n + 1)"
    "\<forall>k. \<not> index_key k \<longrightarrow> kv w1 k = kv (put_user L (loaded p (n + 1)) (kv_put ''lastID'' (to_string (n + 1)) w)) k"
    "keeps w w1"
    using savePerson_registers [OF assms(1,2) des, of n, unfolded l m] assms(3-6) unfolding fresh_profile_def plain_profile_def keeps_def by blast
  have w1ok: "dbw_ok w1" "index_inv w1" "stored_user L w1 (loaded p (n + 1))"
    using w1(2) by (simp_all add: registered_def)
  let ?w = "kv_put (USER_TOKEN @ token_of i) (fastWrite L (token_entry L (p_email p) (n + 1))) (kv_put (USER_TOKEN @ p_email p) (fastWrite L (mail_entry L (token_of i))) w1)"
  have "saveToken L (token_of i) (p_email p) w1 = (Inr (), ?w)"
    using getUserByMail_run [OF w1ok(1,3) m(3)] w1ok(1) by (simp add: saveToken_def token_json m(4))
  then have run: "load_user L i p w = (Inr (), ?w)"
    using w1(1) by (simp add: load_user_def person_serialize_eq token_of_def)
  have keep: "keeps w1 ?w"
    using w1ok(1) token_key_apart(7) by (intro keeps_trans [OF keeps_put keeps_put]) simp_all
  have "index_inv ?w"
    using w1ok(1,2) by (simp add: kv_put_index_inv token_key_apart)
  then have "registered L ?w (loaded p (n + 1))"
    using w1ok(1) keep by (intro registered_stays [OF w1(2)]) (auto simp: key_defs)
  moreover have "last_id ?w (n + 1)"
    using w1(3) w1ok(1) by (simp add: last_id_def key_defs)
  moreover have "kv ?w k = kv w k" if "\<not> index_key k" "k \<noteq> ''lastID''" "k \<notin> user_keys (loaded p (n + 1))" "k \<noteq> USER_TOKEN @ p_email p" "k \<noteq> USER_TOKEN @ token_of i" for k
    using that w1ok(1) w1(4) assms(1) by (simp add: put_user_def user_keys_def)
  ultimately show ?thesis
    using run keeps_trans [OF w1(5) keep] w1ok(1) by (intro exI [of _ ?w]) simp
qed

lemma load_user_again:
  assumes "dbw_ok w" "plain_profile p" "kv w (USER_MAIL_ID @ p_email p) \<noteq> None"
  shows "load_user L i p w = (Inr (), w)"
proof -
  have "savePerson L (person_enc p) (-1) w = (Inl UserAlreadyExists, w)"
    using plain_deserialize [OF assms(2)] userExistsMail_run [OF assms(1), of "p_email p"] assms(3)
    by (simp add: savePerson_def bnd_Inr [where x = True])
  then show ?thesis
    by (simp add: load_user_def person_serialize_eq)
qed

lemma load_loop_again:
  "dbw_ok w \<Longrightarrow> (\<And>p. p \<in> set ps \<Longrightarrow> plain_profile p \<and> kv w (USER_MAIL_ID @ p_email p) \<noteq> None) \<Longrightarrow> load_loop L i ps w = (Inr (), w)"
  by (induction ps arbitrary: i) (auto simp: load_user_again)

section \<open>All users\<close>

text \<open>The entries that the loop writes, other than the indexes and the counter.\<close>

definition load_keys :: "int \<Rightarrow> int \<Rightarrow> person \<Rightarrow> string set" where
  "load_keys i ident p = user_keys (loaded p ident) \<union> {USER_TOKEN @ p_email p, USER_TOKEN @ token_of i}"

definition loaded_user :: "libc \<Rightarrow> dbw \<Rightarrow> int \<Rightarrow> int \<Rightarrow> person \<Rightarrow> bool" where
  "loaded_user L w i ident p \<longleftrightarrow> registered L w (loaded p ident)
     \<and> kv w (USER_TOKEN @ token_of i) = Some (fastWrite L (token_entry L (p_email p) ident))"

lemma token_of_neq:
  assumes "is_lower m"
  shows "m \<noteq> token_of i"
proof
  assume "m = token_of i"
  then have "tolower (CHR ''U'') = CHR ''U''"
    using assms by (simp add: token_of_def lower_def)
  moreover have "tolower (CHR ''U'') = CHR ''u''"
    by code_simp
  ultimately show False
    by simp
qed

lemma token_of_inj: "token_of i = token_of j \<longleftrightarrow> i = j"
  by (simp add: token_of_def)

lemma load_keys_apart:
  assumes "fresh_profile L p" "fresh_profile L q" "p_email p \<noteq> p_email q" "i \<noteq> j" "ident \<noteq> ident'"
  shows "USER_MAIL_ID @ p_email p \<notin> load_keys j ident' q" "USER_PASSWORD @ p_email p \<notin> load_keys j ident' q"
    "USER_UUID_ID @ to_string ident \<notin> load_keys j ident' q" "USER_TOKEN @ token_of i \<notin> load_keys j ident' q"
  using assms token_of_neq [of "p_email q" i] token_of_inj [of i j]
  by (auto simp: load_keys_def user_keys_def fresh_profile_def plain_profile_def loaded_def lowered_def key_defs)

lemma loaded_user_stays:
  assumes "loaded_user L w i ident p" "dbw_ok w'" "index_inv w'" "keeps w w'" "fresh_profile L p"
    and "\<forall>k. \<not> index_key k \<longrightarrow> k \<noteq> ''lastID'' \<longrightarrow> (\<forall>j < length ps. k \<notin> load_keys (i0 + int j) (n0 + int j) (ps ! j)) \<longrightarrow> kv w' k = kv w k"
    and "\<forall>q \<in> set ps. fresh_profile L q \<and> p_email q \<noteq> p_email p" "i < i0" "ident < n0"
  shows "loaded_user L w' i ident p"
proof -
  have q: "fresh_profile L (ps ! j)" "p_email p \<noteq> p_email (ps ! j)" if "j < length ps" for j
    using assms(7) nth_mem [OF that] by auto
  have ne: "i \<noteq> i0 + int j" "ident \<noteq> n0 + int j" for j
    using assms(8,9) by auto
  note a = load_keys_apart [OF assms(5) q ne]
  have k: "kv w' (USER_MAIL_ID @ p_email p) = kv w (USER_MAIL_ID @ p_email p)" "kv w' (USER_PASSWORD @ p_email p) = kv w (USER_PASSWORD @ p_email p)"
    "kv w' (USER_UUID_ID @ to_string ident) = kv w (USER_UUID_ID @ to_string ident)" "kv w' (USER_TOKEN @ token_of i) = kv w (USER_TOKEN @ token_of i)"
    using assms(6) a index_key_apart token_key_apart(1,2) by (simp_all add: key_defs)
  have "p_email (loaded p ident) = p_email p" "p_id (loaded p ident) = ident"
    using assms(5) by (simp_all add: loaded_def lowered_def fresh_profile_def plain_profile_def)
  then show ?thesis
    using assms(1-4) k unfolding loaded_user_def by (auto intro: registered_stays)
qed

lemma load_loop_new:
  assumes "dbw_ok w" "index_inv w" "last_id w n" "n + int (length ps) \<le> maxInt64"
    and "\<forall>p \<in> set ps. fresh_profile L p \<and> kv w (USER_MAIL_ID @ p_email p) = None" "distinct (map p_email ps)"
  shows "\<exists>w'. load_loop L i ps w = (Inr (), w') \<and> dbw_ok w' \<and> index_inv w' \<and> last_id w' (n + int (length ps))
    \<and> (\<forall>j < length ps. loaded_user L w' (i + int j) (n + 1 + int j) (ps ! j))
    \<and> (\<forall>k. \<not> index_key k \<longrightarrow> k \<noteq> ''lastID'' \<longrightarrow> (\<forall>j < length ps. k \<notin> load_keys (i + int j) (n + 1 + int j) (ps ! j)) \<longrightarrow> kv w' k = kv w k)
    \<and> keeps w w'"
  using assms
proof (induction ps arbitrary: w n i)
  case Nil
  then show ?case
    by (simp add: keeps_refl)
next
  case (Cons p ps)
  have p: "fresh_profile L p" "kv w (USER_MAIL_ID @ p_email p) = None" "n < maxInt64"
    using Cons.prems(4,5) by auto
  obtain w1 where w1: "load_user L i p w = (Inr (), w1)" "registered L w1 (loaded p (n + 1))" "last_id w1 (n + 1)"
    "kv w1 (USER_TOKEN @ token_of i) = Some (fastWrite L (token_entry L (p_email p) (n + 1)))"
    "\<forall>k. \<not> index_key k \<longrightarrow> k \<noteq> ''lastID'' \<longrightarrow> k \<notin> load_keys i (n + 1) p \<longrightarrow> kv w1 k = kv w k" "keeps w w1"
    using load_user_new [OF Cons.prems(1-3) p(3,1,2), of i] unfolding load_keys_def by auto
  have ok: "dbw_ok w1" "index_inv w1"
    using w1(2) by (simp_all add: registered_def)
  have new: "fresh_profile L q \<and> kv w1 (USER_MAIL_ID @ p_email q) = None \<and> p_email q \<noteq> p_email p" if q: "q \<in> set ps" for q
  proof -
    have "p_email q \<noteq> p_email p" "fresh_profile L q" "kv w (USER_MAIL_ID @ p_email q) = None"
      using Cons.prems(5,6) q by (auto simp: image_iff)
    then show ?thesis
      using w1(5) load_keys_apart(1) [of L q p "i + 1" i "n + 2" "n + 1"] p(1) index_key_apart(1) by (simp add: key_defs)
  qed
  have n1: "n + 1 + int (length ps) \<le> maxInt64"
    using Cons.prems(4) by simp
  obtain w2 where w2: "load_loop L (i + 1) ps w1 = (Inr (), w2)" "dbw_ok w2" "index_inv w2" "last_id w2 (n + 1 + int (length ps))"
    "\<forall>j < length ps. loaded_user L w2 (i + 1 + int j) (n + 1 + 1 + int j) (ps ! j)"
    "\<forall>k. \<not> index_key k \<longrightarrow> k \<noteq> ''lastID'' \<longrightarrow> (\<forall>j < length ps. k \<notin> load_keys (i + 1 + int j) (n + 1 + 1 + int j) (ps ! j)) \<longrightarrow> kv w2 k = kv w1 k"
    "keeps w1 w2"
    using Cons.IH [OF ok w1(3) n1, of "i + 1"] new Cons.prems(6) by auto
  have first: "loaded_user L w2 i (n + 1) p"
    using loaded_user_stays [OF _ w2(2,3,7) p(1) w2(6)] w1(2,4) new by (simp add: loaded_user_def)
  have all: "loaded_user L w2 (i + int j) (n + 1 + int j) ((p # ps) ! j)" if "j < length (p # ps)" for j
    using that first w2(5) by (cases j) (auto simp: algebra_simps)
  have frame: "kv w2 k = kv w k" if "\<not> index_key k" "k \<noteq> ''lastID''" "\<forall>j < length (p # ps). k \<notin> load_keys (i + int j) (n + 1 + int j) ((p # ps) ! j)" for k
  proof -
    have "k \<notin> load_keys i (n + 1) p" "\<forall>j < length ps. k \<notin> load_keys (i + 1 + int j) (n + 1 + 1 + int j) (ps ! j)"
      using that(3) [rule_format, of 0] that(3) [rule_format, of "Suc _"] by (auto simp: algebra_simps)
    then show ?thesis
      using that(1,2) w1(5) w2(6) by simp
  qed
  show ?case
    using w1(1) keeps_trans [OF w1(6) w2(7)] w2(1-4) all frame by (intro exI [of _ w2]) (simp add: algebra_simps)
qed

section \<open>The users of the source\<close>

definition fake_mails :: "string list" where
  "fake_mails = [''john@doe.com'',
     ''jane@doe.com'',
     ''crodriguez@gmail.com'',
     ''marty@mcfly.com'',
     ''tony@stark.com'',
     ''madonna@ciccone.com'',
     ''lionel@messi.com'',
     ''jack@sparrow.com'',
     ''maria@sanchez.com'',
     ''antonella@roccuzzo.com'',
     ''luke@skywalker.com'',
     ''britney@spears.com'',
     ''evan@baxter.com'',
     ''michael@jordan.com'',
     ''harry@potter.com'',
     ''jacksparrow@idem.com'']"

definition fake_coordinates :: "double list" where
  "fake_coordinates = [0xC0273C2CC2D6A9C5, 0xC027414B7B28954A, 0xC0359E16616B54E3, 0xC03FA0A5BD944AA5, 0xC0414F0A3D70A3D7, 0xC0414F0D2806AF47, 0xC0415054D61B2A28, 0xC04BAC97A67A52AC, 0xC04BAC9AED56B010, 0xC04CAC97A67A52AC, 0xC04CAC9AED56B010, 0xC04CAF29F59CCFAF, 0xC04D2F26AEC0724B, 0xC04D2F26BF8769EC, 0xC04D2F29F59CCFAF]"

text \<open>What is used of the profiles: mail, password and coordinates.\<close>

definition fake_ok :: "string \<Rightarrow> person \<Rightarrow> bool" where
  "fake_ok m p \<longleftrightarrow> p_id p = 0 \<and> p_totRecommendations p = 0 \<and> p_email p = m \<and> p_password p = ''123abc''
     \<and> latitude (p_location p) \<in> set fake_coordinates \<and> longitude (p_location p) \<in> set fake_coordinates"

lemma fold_add:
  "p_id (fold addSkill ss (fold addWorkHistory hs p)) = p_id p" "p_totRecommendations (fold addSkill ss (fold addWorkHistory hs p)) = p_totRecommendations p"
  "p_email (fold addSkill ss (fold addWorkHistory hs p)) = p_email p" "p_password (fold addSkill ss (fold addWorkHistory hs p)) = p_password p"
  "p_location (fold addSkill ss (fold addWorkHistory hs p)) = p_location p"
proof -
  have h: "p_id (fold addWorkHistory hs p) = p_id p \<and> p_totRecommendations (fold addWorkHistory hs p) = p_totRecommendations p
      \<and> p_email (fold addWorkHistory hs p) = p_email p \<and> p_password (fold addWorkHistory hs p) = p_password p \<and> p_location (fold addWorkHistory hs p) = p_location p" for p
    by (induction hs arbitrary: p) (simp_all add: addWorkHistory_def)
  have s: "p_id (fold addSkill ss p) = p_id p \<and> p_totRecommendations (fold addSkill ss p) = p_totRecommendations p
      \<and> p_email (fold addSkill ss p) = p_email p \<and> p_password (fold addSkill ss p) = p_password p \<and> p_location (fold addSkill ss p) = p_location p" for p
    by (induction ss arbitrary: p) (simp_all add: addSkill_def)
  show "p_id (fold addSkill ss (fold addWorkHistory hs p)) = p_id p" "p_totRecommendations (fold addSkill ss (fold addWorkHistory hs p)) = p_totRecommendations p"
    "p_email (fold addSkill ss (fold addWorkHistory hs p)) = p_email p" "p_password (fold addSkill ss (fold addWorkHistory hs p)) = p_password p"
    "p_location (fold addSkill ss (fold addWorkHistory hs p)) = p_location p"
    using h s by simp_all
qed

text \<open>A builder with the four positions and the four skills that the profiles select.\<close>

definition builder_ok :: "dbBuilder \<Rightarrow> bool" where
  "builder_ok b \<longleftrightarrow> 4 \<le> length (jobPositions b) \<and> 4 \<le> length (builder_skills b)"

lemma fake_person_ok:
  assumes "builder_ok b" "\<forall>(k, x) \<in> set works. k < 4" "\<forall>k \<in> set skills. k < 4" "lat \<in> set fake_coordinates" "lon \<in> set fake_coordinates"
  shows "\<exists>p. fake_person b first_name last_name m ''123abc'' dob city summary lat lon works skills = Inr p \<and> fake_ok m p"
proof -
  have w: "res_map (getWorkHistory b) works = Inr (map (\<lambda>(k, c, f, t). \<lparr>wh_positionTitle = jobPositions b ! k, wh_company = c, wh_fromDate = f, wh_toDate = t\<rparr>) works)"
    using assms(1,2) by (intro res_map_Inr) (auto simp: getWorkHistory_def builder_ok_def)
  have s: "res_map (getSkill b) skills = Inr (map (\<lambda>k. let s = builder_skills b ! k in \<lparr>sk_name = lower (sk_name s), sk_description = sk_description s, sk_category = sk_category s\<rparr>) skills)"
    using assms(1,3) by (intro res_map_Inr) (auto simp: getSkill_def builder_ok_def Let_def)
  show ?thesis
    unfolding fake_person_def Let_def w s using assms(4,5) by (simp add: fake_ok_def fold_add setter_defs)
qed

lemmas fake_defs = getFakePerson1_def getFakePerson2_def getFakePerson3_def getFakePerson4_def getFakePerson5_def getFakePerson6_def getFakePerson7_def getFakePerson8_def getFakePerson9_def getFakePerson10_def getFakePerson11_def getFakePerson12_def getFakePerson13_def getFakePerson14_def getFakePerson15_def getFakePerson16_def

lemma fake_people_ok:
  assumes "builder_ok b"
  shows "list_all2 (\<lambda>m r. \<exists>p. r = Inr p \<and> fake_ok m p) fake_mails (fakePeople b)"
  unfolding fake_mails_def fakePeople_def fake_defs list_all2_Cons list_all2_Nil
  by (intro conjI fake_person_ok [OF assms] TrueI) (simp_all add: fake_coordinates_def)

lemma res_map_list_all2:
  "list_all2 (\<lambda>m r. \<exists>p. r = Inr p \<and> P m p) ms rs \<Longrightarrow> \<exists>ps. res_map (\<lambda>r. r) rs = Inr ps \<and> list_all2 P ms ps"
  by (induction rule: list_all2_induct) (auto simp: list_all2_Cons1)

lemma fake_mails_ok: "list_all (\<lambda>m. is_lower m \<and> mail_ok m) fake_mails" "distinct fake_mails" "length fake_mails = 16"
  by code_simp+

section \<open>The built-in files\<close>

text \<open>The entries of the two files, and the text and the value that a list of entries gives.\<close>

definition job_entries :: "(string \<times> string \<times> string) list" where
  "job_entries = [(''Developer'', (''Un desarrollador de software com'' @ [CHR 0xC3, CHR 0xBA] @ ''n y silvestre.''), (''Programaci'' @ [CHR 0xC3, CHR 0xB3] @ ''n'')),
     (''CEO'', ''Ruler of the world, empezando por una empresa.'', ''Management''),
     (''Barista'', (''Toco botones art'' @ [CHR 0xC3, CHR 0xAD] @ ''sticamente.''), (''Cafeter'' @ [CHR 0xC3, CHR 0xAD] @ ''a'')),
     (''Ninja'', (''Puede resolver toto tipo de problemas t'' @ [CHR 0xC3, CHR 0xA9] @ ''cnicos en una organizaci'' @ [CHR 0xC3, CHR 0xB3] @ ''n''), (''Programaci'' @ [CHR 0xC3, CHR 0xB3] @ ''n''))]"

definition skill_entries :: "(string \<times> string \<times> string) list" where
  "skill_entries = [((''Caf'' @ [CHR 0xC3, CHR 0xA9]), (''Habilidad para apretar el bot'' @ [CHR 0xC3, CHR 0xB3] @ ''n de la m'' @ [CHR 0xC3, CHR 0xA1] @ ''quina de caf'' @ [CHR 0xC3, CHR 0xA9] @ '' sin le que tiemble el pulso.''), (''Cafeter'' @ [CHR 0xC3, CHR 0xAD] @ ''a'')),
     (''Liderazgo'', (''Superpotencia mundial en hacer que los dem'' @ [CHR 0xC3, CHR 0xA1] @ ''s hagan lo que desee.''), ''Management''),
     (''PHP'', ''Conocimiento novato del lenguaje PHP.'', (''Programaci'' @ [CHR 0xC3, CHR 0xB3] @ ''n'')),
     (''JavaScript avanzado'', ''Conocimiento avanzado de lenguaje JavaScript.'', (''Programaci'' @ [CHR 0xC3, CHR 0xB3] @ ''n''))]"

definition in_quotes :: "string \<Rightarrow> string" where
  "in_quotes s = [dquote] @ s @ [dquote]"

definition newline :: "nat \<Rightarrow> string" where
  "newline n = CHR 0x0A # replicate n (CHR '' '')"

definition entry_text :: "string \<times> string \<times> string \<Rightarrow> string" where
  "entry_text e = (case e of (n, d, c) \<Rightarrow> ''{'' @ (newline 8 @ in_quotes ''name'' @ [] @ '':'' @ [] @ in_quotes n @ [] @ '',''
     @ (newline 8 @ in_quotes ''description'' @ [] @ '':'' @ [] @ in_quotes d @ [] @ '',''
     @ (newline 8 @ in_quotes ''category'' @ [] @ '':'' @ [] @ in_quotes c @ newline 4))) @ ''}'')"

fun entries_text :: "(string \<times> string \<times> string) list \<Rightarrow> string" where
  "entries_text [] = []"
| "entries_text [e] = newline 4 @ entry_text e @ newline 0"
| "entries_text (e # e' # es) = newline 4 @ entry_text e @ [] @ '','' @ entries_text (e' # es)"

definition file_text :: "string \<Rightarrow> (string \<times> string \<times> string) list \<Rightarrow> string" where
  "file_text key es = ''{'' @ (newline 4 @ in_quotes key @ [] @ '':'' @ [] @ (''['' @ entries_text es @ '']'') @ newline 0) @ ''}''"

definition entry_value :: "string \<times> string \<times> string \<Rightarrow> json" where
  "entry_value e = (case e of (n, d, c) \<Rightarrow> ObjV [(''category'', StrV c), (''description'', StrV d), (''name'', StrV n)])"

definition plain_text :: "string \<Rightarrow> bool" where
  "plain_text s \<longleftrightarrow> list_all (\<lambda>c. quote_char c = [c]) s"

definition plain_entry :: "string \<times> string \<times> string \<Rightarrow> bool" where
  "plain_entry e = (case e of (n, d, c) \<Rightarrow> plain_text n \<and> plain_text d \<and> plain_text c)"

lemma in_quotes_plain: "plain_text s \<Longrightarrow> in_quotes s = valueToQuotedStringN s"
proof -
  assume "plain_text s"
  then have "concat (map quote_char s) = s"
    by (induction s) (simp_all add: plain_text_def)
  then show ?thesis
    by (simp add: in_quotes_def quoted_eq)
qed

lemma newline_spaces: "spaces (newline n)"
  by (simp add: newline_def spaces_def list_all_iff is_space_def)

lemma string_layout: "plain_text s \<Longrightarrow> layout L (StrV s) (in_quotes s)"
  using layout_scalar [of "StrV s" L] by (simp add: in_quotes_plain)

lemma entry_layout:
  assumes "plain_entry e"
  shows "layout L (entry_value e) (entry_text e)"
proof -
  obtain n d c where e: "e = (n, d, c)"
    by (cases e)
  have p: "plain_text n" "plain_text d" "plain_text c" "plain_text ''name''" "plain_text ''description''" "plain_text ''category''"
    using assms by (simp_all add: e plain_entry_def) (code_simp+)
  let ?kvs = "[(''name'', StrV n), (''description'', StrV d), (''category'', StrV c)]"
  have "members L ?kvs (newline 8 @ in_quotes ''name'' @ [] @ '':'' @ [] @ in_quotes n @ [] @ '',''
     @ (newline 8 @ in_quotes ''description'' @ [] @ '':'' @ [] @ in_quotes d @ [] @ '',''
     @ (newline 8 @ in_quotes ''category'' @ [] @ '':'' @ [] @ in_quotes c @ newline 4)))"
    unfolding in_quotes_plain [OF p(4)] in_quotes_plain [OF p(5)] in_quotes_plain [OF p(6)]
    by (intro members_more members_one newline_spaces string_layout spaces_simps(1) p)
  from layout_object [OF this] have "layout L (ObjV (smap_of ?kvs)) (entry_text e)"
    by (simp add: e entry_text_def)
  moreover have "smap_of ?kvs = [(''category'', StrV c), (''description'', StrV d), (''name'', StrV n)]"
    by (simp add: smap_of_def)
  ultimately show ?thesis
    by (simp add: e entry_value_def)
qed

lemma entries_layout: "es \<noteq> [] \<Longrightarrow> list_all plain_entry es \<Longrightarrow> elements L (map entry_value es) (entries_text es)"
proof (induction es rule: entries_text.induct)
  case (2 e)
  then show ?case
    using elements_one [OF newline_spaces entry_layout newline_spaces] by simp
next
  case (3 e e' es)
  then show ?case
    using elements_more [OF newline_spaces entry_layout spaces_simps(1), of e L "map entry_value (e' # es)" "entries_text (e' # es)" 4] by simp
qed simp

lemma file_parsed:
  assumes "plain_text key" "es \<noteq> []" "list_all plain_entry es"
  shows "parse_json L (file_text key es) = Inr (True, ObjV [(key, ArrV (map entry_value es))])"
proof -
  let ?v = "ObjV [(key, ArrV (map entry_value es))]"
  have "members L [(key, ArrV (map entry_value es))] (newline 4 @ valueToQuotedStringN key @ [] @ '':'' @ [] @ (''['' @ entries_text es @ '']'') @ newline 0)"
    by (intro members_one newline_spaces spaces_simps(1) layout_array entries_layout assms(2,3))
  from layout_object [OF this] have l: "layout L ?v (file_text key es)"
    by (simp add: file_text_def in_quotes_plain [OF assms(1)] smap_of_def)
  have norm: "json_norm L (entry_value e) = entry_value e" and ok: "json_ok L (entry_value e)" and depth: "json_depth (entry_value e) = 2" for e
    by (cases e; simp add: entry_value_def)+
  have "foldr max (map (json_depth \<circ> entry_value) es) 0 \<le> 2"
    by (rule foldr_max_const) (simp add: depth)
  then have d: "json_depth ?v \<le> stackLimit_g"
    by (simp add: stackLimit_g_def)
  have "parse_string L slack (file_text key es) = Some (Inr (True, json_norm L ?v))" for slack
    using layout_parsed [OF l _ d spaces_simps(1), of "[]" slack] by (simp add: ok list_all_iff)
  then show ?thesis
    by (simp add: parse_json_def norm comp_def)
qed

lemma file_texts: "JOB_POSITIONS_FILE = file_text ''job_positions'' job_entries" "SKILLS_FILE = file_text ''skills'' skill_entries"
  by code_simp+

lemma plain_files: "list_all plain_entry job_entries" "list_all plain_entry skill_entries" "plain_text ''job_positions''" "plain_text ''skills''"
  by code_simp+

text \<open>The constructor of the builder succeeds.\<close>

lemma DbBuilder_eq:
  "DbBuilder L = Inr \<lparr>jobPositions = map fst job_entries,
     builder_skills = map (\<lambda>(n, d, c). \<lparr>sk_name = lower n, sk_description = d, sk_category = c\<rparr>) skill_entries\<rparr>"
proof -
  have ne: "job_entries \<noteq> []" "skill_entries \<noteq> []"
    by (simp_all add: job_entries_def skill_entries_def)
  have j: "res_map (\<lambda>v. str_member L v ''name'') (map entry_value es) = Inr (map fst es)" for es
    unfolding res_map_map by (rule res_map_Inr) (auto simp: entry_value_def str_member_def split: prod.split)
  have k: "res_map (skill_deserialize L) (map entry_value es) = Inr (map (\<lambda>(n, d, c). \<lparr>sk_name = lower n, sk_description = d, sk_category = c\<rparr>) es)" for es
    unfolding res_map_map by (rule res_map_Inr) (auto simp: entry_value_def skill_deserialize_def str_member_def split: prod.split)
  have "parseFile L JOB_POSITIONS_FILE = Inr (ObjV [(''job_positions'', ArrV (map entry_value job_entries))])"
    "parseFile L SKILLS_FILE = Inr (ObjV [(''skills'', ArrV (map entry_value skill_entries))])"
    unfolding file_texts parseFile_def by (simp_all add: file_parsed plain_files ne)
  then show ?thesis
    by (simp add: DbBuilder_def loadAvailableJobPositions_def loadAvailableSkills_def json_get_def smap_get_def j k)
qed

section \<open>Properties\<close>

lemma loadUsers_run:
  assumes "dbw_ok w" "index_inv w" "last_id w n" "n + 16 \<le> maxInt64" "builder_ok b"
    and "\<forall>d \<in> set fake_coordinates. double_safe L d" and "\<forall>m \<in> set fake_mails. kv w (USER_MAIL_ID @ m) = None"
  shows "\<exists>w' ps. loadUsers L b w = (Inr (), w') \<and> dbw_ok w' \<and> list_all2 fake_ok fake_mails ps
    \<and> (\<forall>j < 16. loaded_user L w' (1 + int j) (n + 1 + int j) (ps ! j))
    \<and> (\<forall>t v. dbw_db v = dbw_db w' \<longrightarrow> loadUsers (at L t) b v = (Inr (), v))"
proof -
  obtain ps where ps: "res_map (\<lambda>r. r) (fakePeople b) = Inr ps" "list_all2 fake_ok fake_mails ps"
    using res_map_list_all2 [OF fake_people_ok [OF assms(5)]] by blast
  have len: "length ps = 16"
    using ps(2) fake_mails_ok(3) by (simp add: list_all2_lengthD [symmetric])
  have mails: "map p_email ps = fake_mails"
    using ps(2) by (induction rule: list_all2_induct) (simp_all add: fake_ok_def)
  have plain: "plain_profile p" "fresh_profile L p" "p_email p \<in> set fake_mails" if p: "p \<in> set ps" for p
  proof -
    obtain k where k: "k < length ps" "p = ps ! k"
      using p by (metis in_set_conv_nth)
    have f: "fake_ok (fake_mails ! k) p"
      using list_all2_nthD2 [OF ps(2) k(1)] k(2) by simp
    show m: "p_email p \<in> set fake_mails"
      using mails p by (metis image_eqI set_map)
    then show pl: "plain_profile p"
      using f fake_mails_ok(1) by (auto simp: plain_profile_def fake_ok_def list_all_iff)
    show "fresh_profile L p"
      using pl f assms(6) by (simp add: fresh_profile_def fake_ok_def)
  qed
  obtain w' where w': "load_loop L 1 ps w = (Inr (), w')" "dbw_ok w'" "\<forall>j < length ps. loaded_user L w' (1 + int j) (n + 1 + int j) (ps ! j)"
    using load_loop_new [OF assms(1-3), of ps L 1] assms(4,7) plain mails fake_mails_ok(2) len by auto
  have "kv w' (USER_MAIL_ID @ p_email p) \<noteq> None" if p: "p \<in> set ps" for p
  proof -
    obtain k where k: "k < length ps" "p = ps ! k"
      using p by (metis in_set_conv_nth)
    then show ?thesis
      using w'(3) plain(1) [OF p] by (auto simp: loaded_user_def registered_def stored_user_def loaded_def lowered_def plain_profile_def)
  qed
  then have "load_loop (at L t) 1 ps v = (Inr (), v)" if "dbw_db v = dbw_db w'" for t v
    using plain(1) w'(2) that by (intro load_loop_again) (simp_all add: dbw_ok_def kv_def)
  then show ?thesis
    using w' ps len by (intro exI [of _ w'] exI [of _ ps]) (simp add: loadUsers_def)
qed

text \<open>
  After the start of the server on a database without its sixteen initial users, each of them is stored under the next identifiers and can log in
  with the password of the source, and the fixed tokens \<open>tokenUser1\<close> to \<open>tokenUser16\<close>, which everybody can
  know, open their sessions for 14400 seconds, less the error of the clock. Loading the users again
  changes nothing.
\<close>

lemma initial_users_ready:
  assumes "dbw_ok w" "index_inv w" "last_id w n" "n + 16 \<le> maxInt64"
    and "\<forall>d \<in> set fake_coordinates. double_safe L d" and "\<forall>m \<in> set fake_mails. kv w (USER_MAIL_ID @ m) = None" and "clock_near L d (time_now L)"
  shows "\<exists>b w'. DbBuilder L = Inr b \<and> loadUsers L b w = (Inr (), w') \<and> (\<forall>t v. dbw_db v = dbw_db w' \<longrightarrow> loadUsers (at L t) b v = (Inr (), v))
    \<and> (\<forall>j < 16. (\<exists>p. getUserById L (n + 1 + int j) w' = (Inr p, w') \<and> p_email p = fake_mails ! j)
        \<and> (\<forall>t. \<exists>token w2. login (at L t) (fake_mails ! j) ''123abc'' w' = (Inr token, w2))
        \<and> (\<forall>t. t - time_now L \<le> 14400 - d \<longrightarrow> (\<exists>s w2. getSession (at L t) (''tokenUser'' @ to_string (1 + int j)) w' = (Inr s, w2)
              \<and> se_user_id s = n + 1 + int j \<and> se_user_mail s = fake_mails ! j)))"
proof -
  obtain b where b: "DbBuilder L = Inr b" "builder_ok b"
    unfolding DbBuilder_eq by (simp add: builder_ok_def job_entries_def skill_entries_def)
  obtain w' ps where w': "loadUsers L b w = (Inr (), w')" "dbw_ok w'" "list_all2 fake_ok fake_mails ps"
    "\<forall>j < 16. loaded_user L w' (1 + int j) (n + 1 + int j) (ps ! j)" "\<forall>t v. dbw_db v = dbw_db w' \<longrightarrow> loadUsers (at L t) b v = (Inr (), v)"
    using loadUsers_run [OF assms(1-4) b(2) assms(5,6)] by blast
  have "(\<exists>p. getUserById L (n + 1 + int j) w' = (Inr p, w') \<and> p_email p = fake_mails ! j)
        \<and> (\<forall>t. \<exists>token w2. login (at L t) (fake_mails ! j) ''123abc'' w' = (Inr token, w2))
        \<and> (\<forall>t. t - time_now L \<le> 14400 - d \<longrightarrow> (\<exists>s w2. getSession (at L t) (token_of (1 + int j)) w' = (Inr s, w2)
              \<and> se_user_id s = n + 1 + int j \<and> se_user_mail s = fake_mails ! j))" if j: "j < 16" for j
  proof -
    let ?m = "fake_mails ! j" and ?q = "loaded (ps ! j) (n + 1 + int j)"
    have f: "fake_ok ?m (ps ! j)"
      using list_all2_nthD [OF w'(3)] j fake_mails_ok(3) by simp
    have "is_lower ?m"
      using fake_mails_ok(1,3) j by (simp add: list_all_length)
    then have m: "p_email (ps ! j) = ?m" "p_email ?q = ?m" "p_password ?q = ''123abc''" "p_id ?q = n + 1 + int j"
      using f by (simp_all add: fake_ok_def loaded_def lowered_def)
    have r: "stored_user L w' ?q" "kv w' (USER_UUID_ID @ to_string (n + 1 + int j)) = Some ?m" "kv w' (USER_PASSWORD @ ?m) = Some ''123abc''"
      and tok: "kv w' (USER_TOKEN @ token_of (1 + int j)) = Some (fastWrite L (token_entry (at L (time_now L)) ?m (n + 1 + int j)))"
      using w'(4) j m by (auto simp: loaded_user_def registered_def)
    have "long_ok (n + 1 + int j)"
      using r(1) m(4) by (simp add: stored_user_def person_ok_def)
    then have "session_at L w' (token_of (1 + int j)) ?m (n + 1 + int j) (time_now L)"
      using w'(2) tok by (simp add: session_at_def)
    then have "\<exists>s w2. getSession (at L t) (token_of (1 + int j)) w' = (Inr s, w2) \<and> se_user_id s = n + 1 + int j \<and> se_user_mail s = ?m"
      if "t - time_now L \<le> 14400 - d" for t
      using getSession_open [OF _ assms(7) that] by fastforce
    moreover have "getUserById L (n + 1 + int j) w' = (Inr ?q, w')"
      using w'(2) r(2) getUserByMail_run [OF w'(2) r(1) m(2)] by (simp add: getUserById_def)
    ultimately show ?thesis
      using login_run [OF w'(2) r(1) m(2) r(3)] m(2) by blast
  qed
  then show ?thesis
    using b(1) w'(1,5) by (intro exI [of _ b] exI [of _ w']) (simp add: token_of_def)
qed

text \<open>A C library that prints and reads the coordinates of the source.\<close>

definition coordinate_texts :: "(double \<times> string) list" where
  "coordinate_texts = [(0xC0273C2CC2D6A9C5, ''-11.617529''), (0xC027414B7B28954A, ''-11.627529''), (0xC0359E16616B54E3, ''-21.617529''), (0xC03FA0A5BD944AA5, ''-31.627529''), (0xC0414F0A3D70A3D7, ''-34.617500''), (0xC0414F0D2806AF47, ''-34.617589''), (0xC0415054D61B2A28, ''-34.627589''), (0xC04BAC97A67A52AC, ''-55.348378''), (0xC04BAC9AED56B010, ''-55.348478''), (0xC04CAC97A67A52AC, ''-57.348378''), (0xC04CAC9AED56B010, ''-57.348478''), (0xC04CAF29F59CCFAF, ''-57.368468''), (0xC04D2F26AEC0724B, ''-58.368368''), (0xC04D2F26BF8769EC, ''-58.368370''), (0xC04D2F29F59CCFAF, ''-58.368468'')]"

definition libc_coordinates :: libc where
  "libc_coordinates = libc_clock\<lparr>snprintf_g := (\<lambda>n d. case map_of coordinate_texts d of Some s \<Rightarrow> s | None \<Rightarrow> ''0''),
     stream_double := (\<lambda>s. map_of (map prod.swap coordinate_texts) s), time_now := 1000\<rparr>"

text \<open>A negative number with a point, as \<open>snprintf\<close> prints the coordinates.\<close>

definition decimal_text :: "string \<Rightarrow> bool" where
  "decimal_text t \<longleftrightarrow> length t \<le> 31 \<and> take 1 t = ''-'' \<and> (let r = dropWhile is_digit (drop 1 t) in r \<noteq> [] \<and> take 1 r = ''.'' \<and> list_all is_digit (drop 1 r))
     \<and> CHR '','' \<notin> set t"

lemma decimal_safe:
  assumes "dbl_isfinite d" "snprintf_g L 17 d = t" "stream_double L t = Some d" "decimal_text t"
  shows "double_safe L d"
proof -
  define a where "a = takeWhile is_digit (drop 1 t)"
  define b where "b = drop 1 (dropWhile is_digit (drop 1 t))"
  have len: "length t \<le> 31" and c: "CHR '','' \<notin> set t" and hd: "take 1 t = ''-''" and r: "take 1 (dropWhile is_digit (drop 1 t)) = ''.''"
    and b: "list_all is_digit b"
    using assms(4) by (simp_all add: decimal_text_def Let_def b_def)
  have a: "list_all is_digit a"
    by (auto simp: a_def list_all_iff dest: set_takeWhileD)
  have "dropWhile is_digit (drop 1 t) = CHR ''.'' # b"
    using append_take_drop_id [of 1 "dropWhile is_digit (drop 1 t)"] unfolding r b_def by simp
  then have "drop 1 t = a @ CHR ''.'' # b"
    using takeWhile_dropWhile_id [of is_digit "drop 1 t"] unfolding a_def by simp
  then have t: "t = CHR ''-'' # a @ CHR ''.'' # b"
    using append_take_drop_id [of 1 t] unfolding hd by simp
  note ab = a b
  have "fixNumericLocale t = t"
    using c unfolding fixNumericLocale_def by (induction t) auto
  then have v: "valueToString_double L d = t"
    using assms(1,2) len by (simp add: valueToString_double_def)
  have pt: "\<not> is_digit (CHR ''.'')"
    by (simp add: is_digit_def)
  have "dropWhile is_digit (a @ CHR ''.'' # b) = CHR ''.'' # b" and eb: "dropWhile is_digit b = []"
    using ab pt by (simp_all add: list_all_iff dropWhile_append)
  then have "number_text t"
    unfolding number_text_def t by (simp add: readNumber_def eb del: dropWhile_eq_Nil_conv)
  moreover have "decodeNumber L t = Some (RealV d)"
    using assms(3) decodeDigits_stop [OF ab(1) pt] unfolding decodeNumber_def Let_def decodeDouble_def by (simp add: t)
  ultimately show ?thesis
    by (simp add: double_safe_def double_ok_def v)
qed

lemma coordinates_safe: "\<forall>d \<in> set fake_coordinates. double_safe libc_coordinates d"
proof
  fix d
  assume "d \<in> set fake_coordinates"
  moreover have "fake_coordinates = map fst coordinate_texts"
    by (simp add: fake_coordinates_def coordinate_texts_def)
  ultimately have "d \<in> fst ` set coordinate_texts"
    by (metis set_map)
  then obtain t where t: "(d, t) \<in> set coordinate_texts"
    by force
  have dist: "distinct (map fst coordinate_texts)" "distinct (map snd coordinate_texts)"
    and all: "\<forall>(d, t) \<in> set coordinate_texts. dbl_isfinite d \<and> decimal_text t"
    by code_simp+
  have "map_of coordinate_texts d = Some t"
    using t dist(1) by simp
  moreover have "map_of (map prod.swap coordinate_texts) t = Some d"
    using t dist(2) by (intro map_of_is_SomeI) (force simp: comp_def prod.swap_def split_def)+
  ultimately show "double_safe libc_coordinates d"
    using all t by (intro decimal_safe [of d libc_coordinates t]) (auto simp: libc_coordinates_def)
qed

lemma initial_users_ready_witness:
  "\<exists>b w' s w2. DbBuilder libc_coordinates = Inr b \<and> loadUsers libc_coordinates b (dbw_of []) = (Inr (), w')
    \<and> getSession (at libc_coordinates 5000) ''tokenUser1'' w' = (Inr s, w2) \<and> se_user_id s = 1 \<and> se_user_mail s = ''john@doe.com''"
proof -
  have "clock_near libc_coordinates 0 (time_now libc_coordinates)"
    using clock_small(1) by (simp add: clock_near_def libc_coordinates_def now_text_def)
  moreover have "last_id (dbw_of []) 0" "(0::int) + 16 \<le> maxInt64"
    by (simp_all add: last_id_def smap_get_def maxInt64_def)
  ultimately obtain b w' where w': "DbBuilder libc_coordinates = Inr b" "loadUsers libc_coordinates b (dbw_of []) = (Inr (), w')"
    "\<forall>j < 16. (\<forall>t. t - time_now libc_coordinates \<le> 14400 \<longrightarrow> (\<exists>s w2. getSession (at libc_coordinates t) (''tokenUser'' @ to_string (1 + int j)) w' = (Inr s, w2)
              \<and> se_user_id s = 0 + 1 + int j \<and> se_user_mail s = fake_mails ! j))"
    using initial_users_ready [OF dbw_of_ok [OF smap_inv_Nil] index_inv_empty _ _ coordinates_safe, of 0 0] by (auto simp: smap_get_def)
  have "to_string 1 = ''1''" "fake_mails ! 0 = ''john@doe.com''" "time_now libc_coordinates = 1000"
    by (code_simp, simp add: fake_mails_def, simp add: libc_coordinates_def)
  then show ?thesis
    using w'(1,2) w'(3) [rule_format, of 0 5000] by auto
qed

end
