(* ===== verification/Pictures.thy ===== *)
theory Pictures
  imports Handlers
begin

text \<open>
  The pictures of the users (\<open>api/handler/PictureHandler.cpp\<close>) over the files of the host, and the handler of the top ten
  (\<open>api/handler/TopTenHandler.cpp\<close>), which no route selects.
\<close>

section \<open>Files\<close>

text \<open>\<open>fopen\<close> for reading and reading to the end; \<open>remove\<close>; an \<open>ofstream\<close> that is opened, written and closed.\<close>

definition read_file :: "string \<Rightarrow> string option prog" where
  "read_file path = (\<lambda>w. (Inr (if fs_unreadable (dbw_files w) (c_str path) then None else smap_get (fs_files (dbw_files w)) (c_str path)), w))"

definition remove_file :: "string \<Rightarrow> bool prog" where
  "remove_file path = (\<lambda>w. let f = dbw_files w in
     if fs_locked f (c_str path) \<or> smap_get (fs_files f) (c_str path) = None then (Inr False, w)
     else (Inr True, w\<lparr>dbw_files := f\<lparr>fs_files := smap_del (c_str path) (fs_files f)\<rparr>\<rparr>))"

definition write_file :: "string \<Rightarrow> string \<Rightarrow> unit prog" where
  "write_file path data = (\<lambda>w. let f = dbw_files w in
     if fs_locked f (c_str path) then (Inr (), w)
     else (Inr (), w\<lparr>dbw_files := f\<lparr>fs_files := smap_put (c_str path) data (fs_files f)\<rparr>\<rparr>))"

section \<open>PictureHandler\<close>

definition getFilePath :: "libc \<Rightarrow> env \<Rightarrow> int \<Rightarrow> string res" where
  "getFilePath L env ident = res_bind (config_get L env ''imgDir'') (\<lambda>dir. Inr (dir @ to_string ident @ ''.jpeg''))"

text \<open>The vector that the response points to ends with the function.\<close>

definition buildGetPictureResponse :: "libc \<Rightarrow> env \<Rightarrow> int \<Rightarrow> response prog" where
  "buildGetPictureResponse L env ident =
     bnd (lift (getFilePath L env ident)) (\<lambda>path.
     bnd (read_file path) (\<lambda>stream. case stream of
       None \<Rightarrow> raise (PictureNotFound ''Cannot find requested picture'')
     | Some buf \<Rightarrow>
         if length buf = 0 then raise (InvalidRequest ''Failed to open requested picture'')
         else ret ((setBinaryBody buf ''image/jpeg'' (setSuccessfulHeader Response0))\<lparr>rs_binaryBody := Some (Freed buf)\<rparr>)))"

definition existsPictureForId :: "libc \<Rightarrow> env \<Rightarrow> int \<Rightarrow> bool prog" where
  "existsPictureForId L env ident =
     bnd (lift (getFilePath L env ident)) (\<lambda>path. bnd (read_file path) (\<lambda>file. ret (file \<noteq> None)))"

definition deletePicture :: "libc \<Rightarrow> env \<Rightarrow> int \<Rightarrow> unit prog" where
  "deletePicture L env ident =
     bnd (lift (getFilePath L env ident)) (\<lambda>path. bnd (remove_file path) (\<lambda>removed.
       ensure removed (ErrorDeletingFile (''An error has occurred trying to delete file '' @ path))))"

text \<open>The loop over the first lines; \<open>n\<close> characters are left of the 200, and the result is the number that is skipped.\<close>

fun skip_lines :: "nat \<Rightarrow> nat \<Rightarrow> string \<Rightarrow> nat res" where
  "skip_lines 0 lineBreaksCounter body = Inr 0"
| "skip_lines (Suc n) lineBreaksCounter body =
     (if lineBreaksCounter = 4 then Inr 0
      else case body of
        [] \<Rightarrow> Inl Bad_pointer
      | c # body' \<Rightarrow> res_bind (skip_lines n (if c = CHR 0x0A then lineBreaksCounter + 1 else lineBreaksCounter) body') (\<lambda>k. Inr (k + 1)))"

text \<open>The length is a \<open>size_t\<close> that wraps and is then read as a signed number; a negative length is undefined.\<close>

definition savePicture :: "libc \<Rightarrow> env \<Rightarrow> int \<Rightarrow> string \<Rightarrow> nat \<Rightarrow> unit prog" where
  "savePicture L env ident body sz =
     bnd (lift (getFilePath L env ident)) (\<lambda>path.
     bnd (lift (skip_lines 200 0 body)) (\<lambda>charactersCounter.
       if sz < charactersCounter + 4 then raise Bad_pointer
       else write_file path (take (sz - charactersCounter - 4) (drop charactersCounter body))))"

definition picture_get :: "libc \<Rightarrow> env \<Rightarrow> request_fun" where
  "picture_get L env s hm url = catching (\<lambda>e. case e of
       InvalidRequest m \<Rightarrow> Some (setErrorBody L m (setBadRequestHeader Response0))
     | PictureNotFound m \<Rightarrow> Some (setErrorBody L m (setNotFoundHeader Response0)) | _ \<Rightarrow> None)
     (bnd (lift (getUserIdFromUrl url)) (\<lambda>userId. buildGetPictureResponse L env userId))"

definition picture_delete :: "libc \<Rightarrow> env \<Rightarrow> request_fun" where
  "picture_delete L env s hm url =
     bnd (lift (getUserIdFromUrl url)) (\<lambda>userId.
     seq (permit s (\<lambda>u. hasPermissionToDeleteProfilePicture u userId))
     (bnd (existsPictureForId L env userId) (\<lambda>exists.
        if \<not> exists then lift (setErrorBody L ''Cannot find requested picture'' (setNotFoundHeader Response0))
        else seq (deletePicture L env userId) (ret (setSuccessfulHeader Response0)))))"

definition picture_put :: "libc \<Rightarrow> env \<Rightarrow> request_fun" where
  "picture_put L env s hm url =
     bnd (lift (getUserIdFromUrl url)) (\<lambda>userId.
     seq (permit s (\<lambda>u. hasPermissionToEditProfilePicture u userId))
     (bnd (existsPictureForId L env userId) (\<lambda>exists.
        seq (if_do exists (deletePicture L env userId))
        (seq (savePicture L env userId (hm_body hm @ hm_after hm) (length (hm_body hm)))
        (ret (setSuccessfulHeader Response0))))))"

definition PictureHandler :: "libc \<Rightarrow> env \<Rightarrow> handler" where
  "PictureHandler L env = \<lparr>h_getPublic = True, h_putPublic = False, h_deletePublic = False, h_postPublic = False,
     h_get = picture_get L env, h_put = picture_put L env, h_delete = picture_delete L env, h_post = not_implemented\<rparr>"

section \<open>TopTenHandler\<close>

definition getOrderTypeFromQueryParams :: "string \<Rightarrow> string res" where
  "getOrderTypeFromQueryParams query_params =
     res_bind (getParameterFromQueryParams query_params ''orderBy'') (\<lambda>orderBy_type.
     if orderBy_type \<noteq> ''skill'' \<or> orderBy_type \<noteq> ''position''
     then Inl (InvalidRequest (''No cumple con ninguno de los posibles ordenes. Est'' @ [CHR 0xC3, CHR 0xA1] @ ''n disponibles: skill o position''))
     else Inr orderBy_type)"

definition getWhichOneFromQueryParams :: "string \<Rightarrow> string res" where
  "getWhichOneFromQueryParams query_params = getParameterFromQueryParams query_params ''whichOne''"

definition topten_get :: "libc \<Rightarrow> request_fun" where
  "topten_get L s hm url =
     (case res_bind (getOrderTypeFromQueryParams (hm_query_string hm)) (\<lambda>orderBy_type. getWhichOneFromQueryParams (hm_query_string hm)) of
        Inl (InvalidRequest m) \<Rightarrow> lift (setErrorBody L m (setBadRequestHeader Response0))
      | Inl e \<Rightarrow> raise e
      | Inr whichOne \<Rightarrow> ret Response0)"

text \<open>The order of the recommendations, which only a part of the source that is commented out uses.\<close>

definition myfunction :: "person \<Rightarrow> person \<Rightarrow> bool" where
  "myfunction p1 p2 \<longleftrightarrow> p_totRecommendations p1 > p_totRecommendations p2"

definition TopTenHandler :: "libc \<Rightarrow> handler" where
  "TopTenHandler L = \<lparr>h_getPublic = False, h_putPublic = False, h_deletePublic = False, h_postPublic = False,
     h_get = topten_get L, h_put = not_implemented, h_delete = not_implemented, h_post = not_implemented\<rparr>"

section \<open>What the operations do to the files\<close>

definition picture :: "dbw \<Rightarrow> string \<Rightarrow> string option" where
  "picture w path = smap_get (fs_files (dbw_files w)) path"

text \<open>Programs that leave the files alone.\<close>

definition keeps_files :: "'a prog \<Rightarrow> bool" where
  "keeps_files p \<longleftrightarrow> (\<forall>w. dbw_files (snd (p w)) = dbw_files w)"

named_theorems files

lemma keeps_files_basic [files]: "keeps_files (ret x)" "keeps_files (raise e)" "keeps_files (lift r)"
  by (simp_all add: keeps_files_def)

lemma keeps_files_bnd [files]: "keeps_files p \<Longrightarrow> (\<And>x. keeps_files (f x)) \<Longrightarrow> keeps_files (bnd p f)"
  unfolding keeps_files_def bnd_def by (auto split: prod.split sum.split) (metis snd_conv)+

lemma keeps_files_seq [files]: "keeps_files p \<Longrightarrow> keeps_files q \<Longrightarrow> keeps_files (seq p q)"
  by (simp add: seq_def keeps_files_bnd)

lemma keeps_files_if_do [files]: "(b \<Longrightarrow> keeps_files p) \<Longrightarrow> keeps_files (if_do b p)"
  by (cases b) (simp_all add: keeps_files_basic)

lemma keeps_files_ensure [files]: "keeps_files (ensure b e)"
  by (simp add: ensure_def keeps_files_if_do keeps_files_basic)

lemma keeps_files_store [files]: "keeps_files (lookupKey k)" "keeps_files (getKey k v)" "keeps_files (putKey k v)" "keeps_files (deleteKey k)"
  by (auto simp: keeps_files_def lookupKey_def existsKey_def getKey_def putKey_def deleteKey_def bnd_def split: option.split prod.split)

lemma keeps_files_option [files]: "keeps_files q \<Longrightarrow> (\<And>x. keeps_files (f x)) \<Longrightarrow> keeps_files (case x of None \<Rightarrow> q | Some x \<Rightarrow> f x)"
  by (cases x) simp_all

lemma keeps_files_if [files]: "(b \<Longrightarrow> keeps_files p) \<Longrightarrow> (\<not> b \<Longrightarrow> keeps_files q) \<Longrightarrow> keeps_files (if b then p else q)"
  by simp

lemma keeps_files_prod [files]: "(\<And>a b. keeps_files (f a b)) \<Longrightarrow> keeps_files (case x of (a, b) \<Rightarrow> f a b)"
  by (cases x) simp

lemma keeps_files_controlAccess: "keeps_files (controlAccess L hm)"
  unfolding controlAccess_def getSession_def updateToken_def getUserId_def put_def Let_def by (intro files)

lemma keeps_files_snd: "keeps_files p \<Longrightarrow> p w = (r, w') \<Longrightarrow> dbw_files w' = dbw_files w"
  by (metis keeps_files_def snd_conv)

text \<open>The lines before the picture.\<close>

lemma skip_lines_done [simp]: "skip_lines n 4 body = Inr 0"
  by (cases n) simp_all

lemma skip_lines_line:
  assumes "CHR 0x0A \<notin> set l" "k < 4" "length l < n"
  shows "skip_lines n k (l @ CHR 0x0A # rest) = res_bind (skip_lines (n - length l - 1) (k + 1) rest) (\<lambda>x. Inr (x + (length l + 1)))"
  using assms
proof (induction l arbitrary: n)
  case Nil
  then show ?case
    by (cases n) simp_all
next
  case (Cons c l)
  then obtain n' where n: "n = Suc n'"
    by (cases n) auto
  have c: "c \<noteq> CHR 0x0A" "length l < n'" "CHR 0x0A \<notin> set l"
    using Cons.prems n by auto
  show ?case
    using Cons.IH [OF c(3) Cons.prems(2) c(2)] c(1) Cons.prems(2) by (cases "skip_lines (n' - length l - 1) (k + 1) rest") (simp_all add: n)
qed

lemma skip_four_lines:
  assumes "CHR 0x0A \<notin> set l1 \<union> set l2 \<union> set l3 \<union> set l4" "length l1 + length l2 + length l3 + length l4 + 4 \<le> 200"
  shows "skip_lines 200 0 (l1 @ CHR 0x0A # l2 @ CHR 0x0A # l3 @ CHR 0x0A # l4 @ CHR 0x0A # rest)
     = Inr (length l1 + length l2 + length l3 + length l4 + 4)"
proof -
  have n: "CHR 0x0A \<notin> set l1" "CHR 0x0A \<notin> set l2" "CHR 0x0A \<notin> set l3" "CHR 0x0A \<notin> set l4"
    using assms(1) by auto
  have "3 + 1 = (4::nat)"
    by simp
  then show ?thesis
    using assms(2) skip_lines_line [OF n(1), of 0 200] skip_lines_line [OF n(2), of 1 "199 - length l1"]
      skip_lines_line [OF n(3), of 2 "198 - length l1 - length l2"] skip_lines_line [OF n(4), of 3 "197 - length l1 - length l2 - length l3"]
    by (simp add: numeral_2_eq_2 [symmetric] numeral_3_eq_3 [symmetric])
qed

text \<open>A picture as a form sends it, in one part under a boundary.\<close>

definition multipart :: "string \<Rightarrow> string \<Rightarrow> string \<Rightarrow> string \<Rightarrow> string" where
  "multipart boundary disposition ctype data = ''--'' @ boundary @ CRLF @ disposition @ CRLF @ ctype @ CRLF @ CRLF
     @ data @ CRLF @ ''--'' @ boundary @ ''--'' @ CRLF"

definition header_line :: "string \<Rightarrow> bool" where
  "header_line l \<longleftrightarrow> CHR 0x0A \<notin> set l"

lemma savePicture_multipart:
  fixes data :: string
  assumes "getFilePath L env ident = Inr path"
    and "header_line boundary" "header_line disposition" "header_line ctype"
    and "length boundary + length disposition + length ctype + 10 \<le> 200"
  defines "body \<equiv> multipart boundary disposition ctype data"
  shows "savePicture L env ident (body @ rest) (length body) w = write_file path (data @ CRLF @ ''--'' @ boundary) w"
proof -
  define pre where "pre = (''--'' @ boundary @ [CHR 0x0D]) @ CHR 0x0A # (disposition @ [CHR 0x0D]) @ CHR 0x0A # (ctype @ [CHR 0x0D]) @ CHR 0x0A
      # [CHR 0x0D] @ [CHR 0x0A]"
  have b: "body @ rest = pre @ (data @ CRLF @ ''--'' @ boundary) @ ''--'' @ CRLF @ rest" and l: "length pre = length boundary + length disposition + length ctype + 10"
    by (simp_all add: body_def multipart_def CRLF_def pre_def)
  have "skip_lines 200 0 (body @ rest) = Inr (length pre)"
    using skip_four_lines [of "''--'' @ boundary @ [CHR 0x0D]" "disposition @ [CHR 0x0D]" "ctype @ [CHR 0x0D]" "[CHR 0x0D]"] assms(2-5)
    unfolding b l by (simp add: header_line_def pre_def)
  moreover have "length body = length pre + length (data @ CRLF @ ''--'' @ boundary) + 4"
    unfolding l by (simp add: body_def multipart_def CRLF_def)
  moreover have "drop (length pre) (body @ rest) = (data @ CRLF @ ''--'' @ boundary) @ ''--'' @ CRLF @ rest"
    unfolding b by simp
  ultimately show ?thesis
    using assms(1) by (simp add: savePicture_def)
qed

section \<open>Properties\<close>

lemma setErrorBody_header: "\<exists>r'. setErrorBody L m r = Inr r' \<and> rs_header r' = rs_header r"
  using setErrorBody_eq [of L m r] by auto

lemma permit_run:
  "permit (Some s) allowed w = (if allowed (se_user_id s) then (Inr (), w) else (Inl NotAuthorized, w))"
  by (simp add: permit_def session_user_def ensure_def)

lemma picture_get_run:
  assumes "getUserIdFromUrl url = Inr uid" "getFilePath L env uid = Inr path" "\<not> fs_unreadable (dbw_files w) (c_str path)" "hm_method hm = ''GET''"
  shows "picture w (c_str path) = Some data \<Longrightarrow> data \<noteq> '''' \<Longrightarrow> \<exists>r. handleRequest L (PictureHandler L env) hm url w = (Inr r, w)
      \<and> rs_header r = ''200 OK'' \<and> rs_contentType r = ''image/jpeg'' \<and> rs_bodyLength r = length data \<and> getBody r = Inl Bad_pointer"
    and "picture w (c_str path) = None \<Longrightarrow> \<exists>r. handleRequest L (PictureHandler L env) hm url w = (Inr r, w) \<and> rs_header r = ''404 Not Found''"
  using assms setErrorBody_header [of L "''Cannot find requested picture''" "setNotFoundHeader Response0"]
  by (auto simp: handleRequest_def with_session_def PictureHandler_def picture_get_def catching_def buildGetPictureResponse_def
      read_file_def picture_def setBinaryBody_def getBody_def header_defs)

definition files_put :: "string \<Rightarrow> string \<Rightarrow> dbw \<Rightarrow> dbw" where
  "files_put path data w = w\<lparr>dbw_files := (dbw_files w)\<lparr>fs_files := smap_put path data (fs_files (dbw_files w))\<rparr>\<rparr>"

definition files_del :: "string \<Rightarrow> dbw \<Rightarrow> dbw" where
  "files_del path w = w\<lparr>dbw_files := (dbw_files w)\<lparr>fs_files := smap_del path (fs_files (dbw_files w))\<rparr>\<rparr>"

lemma files_update [simp]:
  "picture (files_put path data w) = (picture w)(path \<mapsto> data)" "picture (files_del path w) = (picture w)(path := None)"
  "dbw_db (files_put path data w) = dbw_db w" "dbw_db (files_del path w) = dbw_db w"
  "fs_locked (dbw_files (files_put path data w)) = fs_locked (dbw_files w)" "fs_locked (dbw_files (files_del path w)) = fs_locked (dbw_files w)"
  "fs_unreadable (dbw_files (files_put path data w)) = fs_unreadable (dbw_files w)"
  "fs_unreadable (dbw_files (files_del path w)) = fs_unreadable (dbw_files w)"
  by (simp_all add: picture_def files_put_def files_del_def fun_eq_iff)

lemma write_file_run: "write_file path data w = (Inr (), if fs_locked (dbw_files w) (c_str path) then w else files_put (c_str path) data w)"
  by (simp add: write_file_def files_put_def Let_def)

lemma existsPictureForId_run:
  "getFilePath L env ident = Inr path \<Longrightarrow>
     existsPictureForId L env ident w = (Inr (\<not> fs_unreadable (dbw_files w) (c_str path) \<and> picture w (c_str path) \<noteq> None), w)"
  by (simp add: existsPictureForId_def read_file_def picture_def bnd_def)

lemma deletePicture_run:
  "getFilePath L env ident = Inr path \<Longrightarrow> picture w (c_str path) \<noteq> None \<Longrightarrow> \<not> fs_locked (dbw_files w) (c_str path) \<Longrightarrow>
     deletePicture L env ident w = (Inr (), files_del (c_str path) w)"
  by (auto simp: deletePicture_def remove_file_def picture_def files_del_def bnd_def ensure_def Let_def)

lemma picture_put_run:
  assumes "controlAccess L hm w = (Inr s, w1)" "hm_method hm = ''PUT''" "getUserIdFromUrl url = Inr (se_user_id s)"
    and "getFilePath L env (se_user_id s) = Inr path" "\<not> fs_locked (dbw_files w) (c_str path)"
    and "\<And>w. savePicture L env (se_user_id s) (hm_body hm @ hm_after hm) (length (hm_body hm)) w = write_file path data w"
  shows "\<exists>w2. handleRequest L (PictureHandler L env) hm url w = (Inr (setSuccessfulHeader Response0), w2)
     \<and> picture w2 = (picture w)(c_str path \<mapsto> data) \<and> dbw_db w2 = dbw_db w1
     \<and> fs_unreadable (dbw_files w2) = fs_unreadable (dbw_files w) \<and> fs_locked (dbw_files w2) = fs_locked (dbw_files w)"
proof -
  have f: "dbw_files w1 = dbw_files w"
    using keeps_files_snd [OF keeps_files_controlAccess assms(1)] .
  define b where "b \<longleftrightarrow> \<not> fs_unreadable (dbw_files w) (c_str path) \<and> picture w (c_str path) \<noteq> None"
  let ?w = "if b then files_del (c_str path) w1 else w1"
  have e: "existsPictureForId L env (se_user_id s) w1 = (Inr b, w1)"
    using existsPictureForId_run [OF assms(4), of w1] f by (simp add: picture_def b_def)
  have d: "if_do b (deletePicture L env (se_user_id s)) w1 = (Inr (), ?w)"
    using deletePicture_run [OF assms(4), of w1] f assms(5) by (auto simp: picture_def b_def)
  have put: "picture_put L env (Some s) hm url w1 = (Inr (setSuccessfulHeader Response0), files_put (c_str path) data ?w)"
    unfolding picture_put_def assms(3) using assms(5,6) f
    by (simp add: permit_run permission_defs bnd_Inr [of "existsPictureForId L env (se_user_id s)", OF e] seq_Inr [of "if_do b (deletePicture L env (se_user_id s))", OF d] write_file_run)
  have "handleRequest L (PictureHandler L env) hm url w = (Inr (setSuccessfulHeader Response0), files_put (c_str path) data ?w)"
    using assms(1,2) put by (simp add: handleRequest_def with_session_def PictureHandler_def)
  moreover have "picture ?w = (picture w)(c_str path := picture ?w (c_str path))"
    using f by (auto simp: fun_eq_iff picture_def files_del_def)
  ultimately show ?thesis
    using f by (intro exI [of _ "files_put (c_str path) data ?w"]) (auto simp: fun_eq_iff picture_def)
qed

lemma picture_delete_run:
  assumes "controlAccess L hm w = (Inr s, w1)" "hm_method hm = ''DELETE''" "getUserIdFromUrl url = Inr (se_user_id s)"
    and "getFilePath L env (se_user_id s) = Inr path" "\<not> fs_locked (dbw_files w) (c_str path)" "\<not> fs_unreadable (dbw_files w) (c_str path)"
    and "picture w (c_str path) \<noteq> None"
  shows "handleRequest L (PictureHandler L env) hm url w = (Inr (setSuccessfulHeader Response0), files_del (c_str path) w1)"
proof -
  have f: "dbw_files w1 = dbw_files w"
    using keeps_files_snd [OF keeps_files_controlAccess assms(1)] .
  have e: "existsPictureForId L env (se_user_id s) w1 = (Inr True, w1)"
    using existsPictureForId_run [OF assms(4), of w1] f assms(6,7) by (simp add: picture_def)
  have d: "deletePicture L env (se_user_id s) w1 = (Inr (), files_del (c_str path) w1)"
    using deletePicture_run [OF assms(4), of w1] f assms(5,7) by (simp add: picture_def)
  have "picture_delete L env (Some s) hm url w1 = (Inr (setSuccessfulHeader Response0), files_del (c_str path) w1)"
    unfolding picture_delete_def assms(3) by (simp add: permit_run permission_defs bnd_Inr [of "existsPictureForId L env (se_user_id s)", OF e] d)
  then show ?thesis
    using assms(1,2) by (simp add: handleRequest_def with_session_def PictureHandler_def)
qed

text \<open>
  C15. A picture from upload to deletion: a picture that its owner sends as a form with one part is stored as its
  bytes followed by the closing boundary, no other file and nothing in the database changes after the
  check of the session; everybody can ask for it and is told its length, but the bytes of the body are freed memory; its owner can delete
  it, and then it is not found.
\<close>

theorem picture_upload_lifecycle:
  assumes "controlAccess L hm w = (Inr s, w1)" "hm_method hm = ''PUT''" "getUserIdFromUrl url = Inr (se_user_id s)"
    and "hm_body hm = multipart boundary disposition ctype data" "header_line boundary" "header_line disposition" "header_line ctype"
    and "length boundary + length disposition + length ctype + 10 \<le> 200"
    and "getFilePath L env (se_user_id s) = Inr path" "\<not> fs_locked (dbw_files w) (c_str path)" "\<not> fs_unreadable (dbw_files w) (c_str path)"
    and "hm_method hg = ''GET''" "hm_method hx = ''DELETE''"
  shows "\<exists>w2. handleRequest L (PictureHandler L env) hm url w = (Inr (setSuccessfulHeader Response0), w2)
    \<and> picture w2 = (picture w)(c_str path \<mapsto> data @ CRLF @ ''--'' @ boundary) \<and> dbw_db w2 = dbw_db w1
    \<and> (\<exists>r. handleRequest L (PictureHandler L env) hg url w2 = (Inr r, w2) \<and> rs_header r = ''200 OK'' \<and> rs_contentType r = ''image/jpeg''
        \<and> rs_bodyLength r = length data + length boundary + 4 \<and> getBody r = Inl Bad_pointer)
    \<and> (\<forall>s' w3. controlAccess L hx w2 = (Inr s', w3) \<and> se_user_id s' = se_user_id s \<longrightarrow>
        (\<exists>w4 r. handleRequest L (PictureHandler L env) hx url w2 = (Inr (setSuccessfulHeader Response0), w4)
          \<and> picture w4 = (picture w)(c_str path := None)
          \<and> handleRequest L (PictureHandler L env) hg url w4 = (Inr r, w4) \<and> rs_header r = ''404 Not Found''))"
proof -
  have "savePicture L env (se_user_id s) (hm_body hm @ hm_after hm) (length (hm_body hm)) x = write_file path (data @ CRLF @ ''--'' @ boundary) x" for x
    unfolding assms(4) by (rule savePicture_multipart [OF assms(9,5-8)])
  from picture_put_run [OF assms(1-3,9,10) this] obtain w2 where w2: "handleRequest L (PictureHandler L env) hm url w = (Inr (setSuccessfulHeader Response0), w2)"
    "picture w2 = (picture w)(c_str path \<mapsto> data @ CRLF @ ''--'' @ boundary)" "dbw_db w2 = dbw_db w1"
    "fs_unreadable (dbw_files w2) = fs_unreadable (dbw_files w)" "fs_locked (dbw_files w2) = fs_locked (dbw_files w)"
    by blast
  have get: "\<exists>r. handleRequest L (PictureHandler L env) hg url w2 = (Inr r, w2) \<and> rs_header r = ''200 OK'' \<and> rs_contentType r = ''image/jpeg''
        \<and> rs_bodyLength r = length data + length boundary + 4 \<and> getBody r = Inl Bad_pointer"
    using picture_get_run(1) [OF assms(3,9) _ assms(12), of w2 "data @ CRLF @ ''--'' @ boundary"] w2(2,4) assms(11)
    by (auto simp: CRLF_def)
  have del: "\<exists>w4 r. handleRequest L (PictureHandler L env) hx url w2 = (Inr (setSuccessfulHeader Response0), w4)
          \<and> picture w4 = (picture w)(c_str path := None)
          \<and> handleRequest L (PictureHandler L env) hg url w4 = (Inr r, w4) \<and> rs_header r = ''404 Not Found''"
    if s': "controlAccess L hx w2 = (Inr s', w3)" "se_user_id s' = se_user_id s" for s' w3
  proof -
    have f: "dbw_files w3 = dbw_files w2"
      using keeps_files_snd [OF keeps_files_controlAccess s'(1)] .
    let ?w4 = "files_del (c_str path) w3"
    have "handleRequest L (PictureHandler L env) hx url w2 = (Inr (setSuccessfulHeader Response0), ?w4)"
      using picture_delete_run [OF s'(1) assms(13)] s'(2) assms(3,9-11) w2(2,4,5) by simp
    moreover have p: "picture ?w4 = (picture w)(c_str path := None)"
      using f w2(2) by (auto simp: picture_def fun_eq_iff files_del_def)
    moreover obtain r where "handleRequest L (PictureHandler L env) hg url ?w4 = (Inr r, ?w4)" "rs_header r = ''404 Not Found''"
      using picture_get_run(2) [OF assms(3,9) _ assms(12), of ?w4] f p w2(4) assms(11) by auto
    ultimately show ?thesis
      by blast
  qed
  then show ?thesis
    using w2(1-3) get by blast
qed

text \<open>Programs that change files only within a set of paths.\<close>

definition touches :: "string set \<Rightarrow> 'a prog \<Rightarrow> bool" where
  "touches S p \<longleftrightarrow> (\<forall>w q. q \<notin> S \<longrightarrow> picture (snd (p w)) q = picture w q)"

named_theorems touching

lemma touches_basic [touching]: "touches S (ret x)" "touches S (raise e)" "touches S (lift r)" "touches S (read_file path)"
  by (simp_all add: touches_def read_file_def)

lemma touches_bnd: "touches S p \<Longrightarrow> (\<And>x. touches S (f x)) \<Longrightarrow> touches S (bnd p f)"
  unfolding touches_def bnd_def by (auto split: prod.split sum.split) (metis snd_conv)+

lemma touches_bnd_lift: "(\<And>x. r = Inr x \<Longrightarrow> touches S (f x)) \<Longrightarrow> touches S (bnd (lift r) f)"
  unfolding touches_def bnd_def by (auto split: sum.split)

lemma touches_seq [touching]: "touches S p \<Longrightarrow> touches S q \<Longrightarrow> touches S (seq p q)"
  by (simp add: seq_def touches_bnd)

lemma touches_if [touching]: "touches S p \<Longrightarrow> touches S q \<Longrightarrow> touches S (if b then p else q)"
  by simp

lemma touches_if_do [touching]: "touches S p \<Longrightarrow> touches S (if_do b p)"
  by (simp add: if_do_def touching)

lemma touches_ensure [touching]: "touches S (ensure b e)"
  by (simp add: ensure_def touching)

lemma touches_file [touching]: "c_str path \<in> S \<Longrightarrow> touches S (write_file path data)" "c_str path \<in> S \<Longrightarrow> touches S (remove_file path)"
  by (auto simp: touches_def picture_def write_file_def remove_file_def Let_def)

lemma touches_permit: "(allowed (se_user_id s) \<Longrightarrow> touches S q) \<Longrightarrow> touches S (seq (permit (Some s) allowed) q)"
  by (cases "allowed (se_user_id s)") (simp_all add: touches_def seq_def bnd_def permit_run)

text \<open>The file of a user's picture.\<close>

definition own_picture :: "libc \<Rightarrow> env \<Rightarrow> string \<Rightarrow> session \<Rightarrow> string set" where
  "own_picture L env url s = {p. \<exists>path. getUserIdFromUrl url = Inr (se_user_id s) \<and> getFilePath L env (se_user_id s) = Inr path \<and> p = c_str path}"

lemma touches_picture [touching]:
  assumes "\<And>path. getFilePath L env ident = Inr path \<Longrightarrow> c_str path \<in> S"
  shows "touches S (existsPictureForId L env ident)" "touches S (deletePicture L env ident)" "touches S (savePicture L env ident body n)"
  unfolding existsPictureForId_def deletePicture_def savePicture_def by (intro touches_bnd_lift touches_bnd touching assms; assumption)+

lemma touches_own_picture:
  "touches (own_picture L env url s) (picture_put L env (Some s) hm url)" "touches (own_picture L env url s) (picture_delete L env (Some s) hm url)"
proof -
  have own: "c_str path \<in> own_picture L env url s"
    if "getUserIdFromUrl url = Inr uid" "se_user_id s = uid" "getFilePath L env uid = Inr path" for uid path
    using that by (auto simp: own_picture_def)
  show "touches (own_picture L env url s) (picture_put L env (Some s) hm url)"
    unfolding picture_put_def permission_defs by (intro touches_bnd_lift touches_permit touches_bnd touching own; assumption)
  show "touches (own_picture L env url s) (picture_delete L env (Some s) hm url)"
    unfolding picture_delete_def permission_defs by (intro touches_bnd_lift touches_permit touches_bnd touching own; assumption)
qed

lemma snd_handle_lift: "snd (handle p (\<lambda>e. lift (h e)) w) = snd (p w)"
  by (auto simp: handle_def split: prod.split sum.split)

lemma touches_handle: "touches S p \<Longrightarrow> (\<And>e. touches S (h e)) \<Longrightarrow> touches S (handle p h)"
  unfolding touches_def handle_def by (auto split: prod.split sum.split) (metis snd_conv)+

lemma touches_picture_get: "touches {} (picture_get L env s hm url)"
  unfolding picture_get_def catching_def buildGetPictureResponse_def
  by (intro touches_handle touches_bnd_lift touches_bnd) (auto intro!: touching split: option.split)

text \<open>A method behind the check of the session.\<close>

lemma session_touches:
  assumes "\<And>s. touches (S s) (m (Some s))" and "picture (snd (bnd (controlAccess L hm) (\<lambda>s. m (Some s)) w)) p \<noteq> picture w p"
  shows "\<exists>s w1. controlAccess L hm w = (Inr s, w1) \<and> p \<in> S s"
proof -
  obtain r w1 where c: "controlAccess L hm w = (r, w1)"
    by (cases "controlAccess L hm w")
  have f: "picture w1 p = picture w p"
    using keeps_files_snd [OF keeps_files_controlAccess c] by (simp add: picture_def)
  show ?thesis
  proof (cases r)
    case (Inl e)
    then show ?thesis
      using assms(2) c f by (simp add: bnd_def)
  next
    case (Inr s)
    then have "picture (snd (m (Some s) w1)) p \<noteq> picture w1 p"
      using assms(2) c f by (simp add: bnd_def)
    then have "p \<in> S s"
      using assms(1) [of s] unfolding touches_def by blast
    then show ?thesis
      using c Inr by blast
  qed
qed

text \<open>
  C3. Only its owner changes a picture: when a request to the handler of the pictures changes a file, in whatever way
  the request ends, its method is \<open>PUT\<close> or \<open>DELETE\<close>, it carries the token of an open session, the user of the session is the
  one in the URL, and the file is the one of his picture.
\<close>

theorem picture_owner_only:
  assumes "handleRequest L (PictureHandler L env) hm url w = (r, w')" and "picture w' p \<noteq> picture w p"
  shows "hm_method hm \<in> {''PUT'', ''DELETE''} \<and> (\<exists>s w1 path. controlAccess L hm w = (Inr s, w1)
    \<and> getUserIdFromUrl url = Inr (se_user_id s) \<and> getFilePath L env (se_user_id s) = Inr path \<and> p = c_str path)"
proof -
  let ?h = "PictureHandler L env"
  let ?run = "if hm_method hm = ''GET'' then with_session L (h_getPublic ?h) (h_get ?h) hm url
      else if hm_method hm = ''PUT'' then with_session L (h_putPublic ?h) (h_put ?h) hm url
      else if hm_method hm = ''DELETE'' then with_session L (h_deletePublic ?h) (h_delete ?h) hm url
      else if hm_method hm = ''POST'' then with_session L (h_postPublic ?h) (h_post ?h) hm url
      else ret getNotImplementedResponse"
  have ch: "picture (snd (?run w)) p \<noteq> picture w p"
    using assms snd_handle_lift [of ?run "handler_error L" w] unfolding handleRequest_def by simp
  then have m: "hm_method hm \<noteq> ''GET''" "hm_method hm \<in> {''PUT'', ''DELETE'', ''POST''}"
    using touches_picture_get [of L env None hm url] by (auto simp: PictureHandler_def with_session_def touches_def split: if_splits)
  moreover have "hm_method hm \<noteq> ''POST''"
    using ch session_touches [of "\<lambda>s. {}" "\<lambda>s. not_implemented s hm url"] touches_basic(1) [of "{}" getNotImplementedResponse]
    by (auto simp: PictureHandler_def with_session_def not_implemented_def)
  ultimately have "\<exists>s w1. controlAccess L hm w = (Inr s, w1) \<and> p \<in> own_picture L env url s"
    using ch session_touches [of "own_picture L env url" "\<lambda>s. picture_put L env s hm url", OF touches_own_picture(1)]
      session_touches [of "own_picture L env url" "\<lambda>s. picture_delete L env s hm url", OF touches_own_picture(2)]
    by (auto simp: PictureHandler_def with_session_def)
  then show ?thesis
    using m \<open>hm_method hm \<noteq> ''POST''\<close> by (auto simp: own_picture_def)
qed

text \<open>No order is accepted by the handler of the top ten, since the two comparisons are joined by or.\<close>

lemma topten_refuses:
  assumes "find_sub ''orderBy'' (hm_query_string hm) = Some i" "i + 9 \<le> length (hm_query_string hm)"
  shows "\<exists>r. topten_get L s hm url w = (Inr r, w) \<and> rs_header r = ''400 Bad Request''"
proof -
  have "\<exists>v. getParameterFromQueryParams (hm_query_string hm) ''orderBy'' = Inr v"
    using assms by (simp add: getParameterFromQueryParams_def)
  then obtain m where "getOrderTypeFromQueryParams (hm_query_string hm) = Inl (InvalidRequest m)"
    by (auto simp: getOrderTypeFromQueryParams_def)
  then show ?thesis
    using setErrorBody_header [of L m "setBadRequestHeader Response0"] by (auto simp: topten_get_def header_defs)
qed

section \<open>Examples\<close>

definition tok_request :: "string \<Rightarrow> string \<Rightarrow> http_message" where
  "tok_request meth body = \<lparr>hm_method = meth, hm_uri = ''/profilepicture/7'', hm_query_string = '''', hm_headers = [(''authorization'', ''tok'')],
     hm_body = body, hm_after = ''''\<rparr>"

definition tok_db :: dbw where
  "tok_db = dbw_of [(''user:token_tok'', fastWrite libc_clock (token_entry (at libc_clock 1000) ''ada@x'' 7))]"

definition img_env :: env where
  "img_env = \<lparr>configValues = ObjV [(''imgDir'', StrV ''img/'')], popen_output = (\<lambda>_. None)\<rparr>"

definition tok_session :: session where
  "tok_session = \<lparr>se_token = ''tok'', se_user_mail = ''ada@x'', se_last_time = 1000, se_user_id = 7\<rparr>"

lemma tok_access: "\<exists>w1. controlAccess (at libc_clock 1000) (tok_request meth body) tok_db = (Inr tok_session, w1)"
proof -
  have "session_at libc_clock tok_db ''tok'' ''ada@x'' 7 1000"
    by (simp add: session_at_def tok_db_def dbw_of_ok long_ok_def minInt64_def maxInt64_def key_defs)
  then obtain w1 where w1: "getSession (at libc_clock 1000) ''tok'' tok_db = (Inr tok_session, w1)"
    using getSession_open [OF _ clock_small(1), of tok_db "''tok''" "''ada@x''" 7 1000] by (auto simp: tok_session_def)
  have "lower ''Authorization'' = ''authorization''" "lower ''authorization'' = ''authorization''"
    by code_simp+
  then have "getHttpHeader (tok_request meth body) ''Authorization'' = ''tok''"
    by (simp add: tok_request_def getHttpHeader_def mg_get_http_header_def c_str_def)
  then show ?thesis
    using w1 by (simp add: controlAccess_def)
qed

lemma img_path: "getFilePath L img_env 7 = Inr ''img/7.jpeg''" "c_str ''img/7.jpeg'' = ''img/7.jpeg''" "getUserIdFromUrl ''/profilepicture/7'' = Inr 7"
proof -
  have "to_string 7 = ''7''"
    by code_simp
  then show "getFilePath L img_env 7 = Inr ''img/7.jpeg''"
    by (simp add: getFilePath_def config_get_def img_env_def str_member_def isMember_def json_get_def smap_get_def)
  show "c_str ''img/7.jpeg'' = ''img/7.jpeg''" "getUserIdFromUrl ''/profilepicture/7'' = Inr 7"
    by code_simp+
qed

definition upload :: string where
  "upload = multipart ''b'' ''Content-Disposition: form-data'' ''Content-Type: image/jpeg'' ''JPEG''"

lemma tok_simps [simp]:
  "hm_method (tok_request meth body) = meth" "hm_body (tok_request meth body) = body" "hm_after (tok_request meth body) = ''''"
  "se_user_id tok_session = 7" "fs_locked (dbw_files tok_db) p = False" "fs_unreadable (dbw_files tok_db) p = False" "picture tok_db p = None"
  by (simp_all add: tok_request_def tok_session_def tok_db_def dbw_of_def no_files_def picture_def)

theorem picture_upload_lifecycle_witness:
  "\<exists>w2 r. handleRequest (at libc_clock 1000) (PictureHandler (at libc_clock 1000) img_env) (tok_request ''PUT'' upload) ''/profilepicture/7'' tok_db
      = (Inr (setSuccessfulHeader Response0), w2) \<and> picture w2 ''img/7.jpeg'' = Some (''JPEG'' @ CRLF @ ''--b'')
    \<and> handleRequest (at libc_clock 1000) (PictureHandler (at libc_clock 1000) img_env) (tok_request ''GET'' '''') ''/profilepicture/7'' w2 = (Inr r, w2)
    \<and> rs_bodyLength r = 9"
proof -
  obtain w1 where a: "controlAccess (at libc_clock 1000) (tok_request ''PUT'' upload) tok_db = (Inr tok_session, w1)"
    using tok_access by blast
  show ?thesis
    using picture_upload_lifecycle [OF a, of "''/profilepicture/7''" "''b''" "''Content-Disposition: form-data''" "''Content-Type: image/jpeg''" "''JPEG''"
        img_env "''img/7.jpeg''" "tok_request ''GET'' ''''" "tok_request ''DELETE'' ''''"] img_path
    by (auto simp: upload_def header_line_def)
qed

theorem picture_owner_only_witness:
  "\<exists>s w1. controlAccess (at libc_clock 1000) (tok_request ''PUT'' upload) tok_db = (Inr s, w1) \<and> se_user_id s = 7"
proof -
  obtain w1 where a: "controlAccess (at libc_clock 1000) (tok_request ''PUT'' upload) tok_db = (Inr tok_session, w1)"
    using tok_access by blast
  have "savePicture (at libc_clock 1000) img_env 7 (upload @ '''') (length upload) w = write_file ''img/7.jpeg'' (''JPEG'' @ CRLF @ ''--'' @ ''b'') w" for w
    unfolding upload_def by (rule savePicture_multipart) (simp_all add: img_path header_line_def)
  then obtain w2 where "handleRequest (at libc_clock 1000) (PictureHandler (at libc_clock 1000) img_env) (tok_request ''PUT'' upload) ''/profilepicture/7'' tok_db
      = (Inr (setSuccessfulHeader Response0), w2)" "picture w2 = (picture tok_db)(''img/7.jpeg'' \<mapsto> ''JPEG'' @ CRLF @ ''--'' @ ''b'')"
    using picture_put_run [OF a, of "''/profilepicture/7''" img_env "''img/7.jpeg''" "''JPEG'' @ CRLF @ ''--'' @ ''b''"] img_path
    by auto
  then show ?thesis
    using picture_owner_only [of "at libc_clock 1000" img_env "tok_request ''PUT'' upload" "''/profilepicture/7''" tok_db _ w2 "''img/7.jpeg''"] img_path(3)
    by auto
qed

end
