(* ===== verification/Entry.thy ===== *)
theory Entry
  imports Initial_Data Pictures Http_Body
begin

text \<open>
  The start of the program: the configuration file (\<open>config/Config.cpp\<close>), the options of the command line and the start of the database (\<open>main.cpp\<close>), and the
  comparison of a response with the send buffer (\<open>tools/MainHelper.cpp\<close>).
\<close>

section \<open>Config\<close>

text \<open>\<open>getline\<close>: the characters before the next line break and the rest; \<open>None\<close> at the end of the file.\<close>

fun getline :: "string \<Rightarrow> (string \<times> string) option" where
  "getline [] = None"
| "getline (c # s) =
     (if c = CHR 0x0A then Some ([], s)
      else case getline s of None \<Rightarrow> Some ([c], []) | Some (line, rest) \<Rightarrow> Some (c # line, rest))"

lemma getline_rest: "getline s = Some (line, rest) \<Longrightarrow> length rest < length s"
  by (induction s arbitrary: line) (auto split: if_splits option.splits)

function file_lines :: "string \<Rightarrow> string" where
  "file_lines s = (case getline s of None \<Rightarrow> [] | Some (line, rest) \<Rightarrow> line @ file_lines rest)"
  by auto
termination
  by (relation "measure length") (auto dest: getline_rest)

declare file_lines.simps [simp del]

definition loadFile :: "string \<Rightarrow> string prog" where
  "loadFile path = bnd (read_file path) (\<lambda>f. case f of
     None \<Rightarrow> raise (Thrown_text ''Invalid or nonexistent config file'') | Some content \<Rightarrow> ret (file_lines content))"

definition config_parseFile :: "libc \<Rightarrow> string \<Rightarrow> json res" where
  "config_parseFile L fileContent = res_bind (parse_json L fileContent) (\<lambda>(parsingSuccessful, root).
     if \<not> parsingSuccessful then Inl (Thrown_text ''Invalid Config file.'') else Inr root)"

definition config_load :: "libc \<Rightarrow> string \<Rightarrow> json prog" where
  "config_load L path = bnd (loadFile path) (\<lambda>fileContent. lift (config_parseFile L fileContent))"

section \<open>Options\<close>

text \<open>What \<open>main\<close> sets from the command line.\<close>

record main_opts =
  o_hexdump_file :: "string option"
  o_document_root :: "string option"
  o_http_port :: string
  o_auth_domain :: "string option"
  o_global_auth_file :: "string option"
  o_per_directory_auth_file :: "string option"
  o_url_rewrites :: "string option"
  o_cgi_interpreter :: "string option"

definition main_opts0 :: main_opts where
  "main_opts0 = \<lparr>o_hexdump_file = None, o_document_root = None, o_http_port = ''8000'', o_auth_domain = None, o_global_auth_file = None,
     o_per_directory_auth_file = None, o_url_rewrites = None, o_cgi_interpreter = None\<rparr>"

text \<open>The loop over the arguments; \<open>None\<close> is the exit for an unknown option, or for one without its value.\<close>

fun main_args :: "string list \<Rightarrow> main_opts \<Rightarrow> main_opts option" where
  "main_args [] opts = Some opts"
| "main_args [arg] opts = None"
| "main_args (arg # v # args) opts =
     (if arg = ''-D'' then main_args args (opts\<lparr>o_hexdump_file := Some v\<rparr>)
      else if arg = ''-d'' then main_args args (opts\<lparr>o_document_root := Some v\<rparr>)
      else if arg = ''-p'' then main_args args (opts\<lparr>o_http_port := v\<rparr>)
      else if arg = ''-a'' then main_args args (opts\<lparr>o_auth_domain := Some v\<rparr>)
      else if arg = ''-P'' then main_args args (opts\<lparr>o_global_auth_file := Some v\<rparr>)
      else if arg = ''-A'' then main_args args (opts\<lparr>o_per_directory_auth_file := Some v\<rparr>)
      else if arg = ''-r'' then main_args args (opts\<lparr>o_url_rewrites := Some v\<rparr>)
      else if arg = ''-i'' then main_args args (opts\<lparr>o_cgi_interpreter := Some v\<rparr>)
      else None)"

text \<open>The root is the directory of the program: the part of its name before the last slash (\<open>strrchr\<close>).\<close>

definition program_dir :: "string \<Rightarrow> string option" where
  "program_dir name = (if CHR ''/'' \<in> set name then Some (rev (tl (dropWhile (\<lambda>c. c \<noteq> CHR ''/'') (rev name)))) else None)"

definition main_options :: "string list \<Rightarrow> main_opts option" where
  "main_options argv = (case argv of [] \<Rightarrow> Some main_opts0
     | name # args \<Rightarrow> main_args args (case program_dir name of None \<Rightarrow> main_opts0 | Some d \<Rightarrow> main_opts0\<lparr>o_document_root := Some d\<rparr>))"

section \<open>Start of the database\<close>

definition CONFIG_PATH :: string where "CONFIG_PATH = ''/usr/appServer/config.js''"

text \<open>
  \<open>main\<close> from the configuration to the initial users. \<open>opened\<close> is what \<open>leveldb::DB::Open\<close> gives for a name, and no database is open before. A failure of the
  configuration ends the program, which is the result \<open>None\<close>; other exceptions are not caught. The result is the state in which the
  constructed \<open>DbBuilder\<close> is deleted.
\<close>

definition start_db :: "libc \<Rightarrow> (string \<Rightarrow> leveldb option) \<Rightarrow> json \<Rightarrow> unit prog" where
  "start_db L opened config =
     bnd (lift (config_get L \<lparr>configValues = config, popen_output = (\<lambda>_. None)\<rparr> ''DbName'')) (\<lambda>namedb.
     seq (\<lambda>w. (Inr (), w\<lparr>dbw_db := openDb opened namedb None\<rparr>))
     (bnd (lift (DbBuilder L)) (\<lambda>b. loadUsers L b)))"

definition main_start :: "libc \<Rightarrow> (string \<Rightarrow> leveldb option) \<Rightarrow> json option prog" where
  "main_start L opened =
     bnd (handle (bnd (config_load L CONFIG_PATH) (\<lambda>config. ret (Some config)))
       (\<lambda>e. case e of Thrown_text m \<Rightarrow> ret None | _ \<Rightarrow> raise e))
     (\<lambda>c. case c of None \<Rightarrow> ret None | Some config \<Rightarrow> seq (start_db L opened config) (ret (Some config)))"

section \<open>MainHelper\<close>

text \<open>
  Both pointers run from the ends of the buffers towards their starts; the send buffer is read from seven bytes before its end. \<open>None\<close> is a read in
  front of the send buffer.
\<close>

fun validBody_loop :: "byte list \<Rightarrow> byte list \<Rightarrow> bool option" where
  "validBody_loop [] to_send = Some True"
| "validBody_loop (c # body) [] = None"
| "validBody_loop (c # body) (d # to_send) = (if c \<noteq> d then Some False else validBody_loop body to_send)"

definition validBody :: "byte list \<Rightarrow> byte list \<Rightarrow> bool option" where
  "validBody body bodyToSend = validBody_loop (rev body) (drop 7 (rev bodyToSend))"

lemma validBody_loop_prefix: "validBody_loop body to_send = Some True \<longleftrightarrow> (\<exists>rest. to_send = body @ rest)"
  by (induction body to_send rule: validBody_loop.induct) auto

text \<open>A body is taken for valid exactly if it ends seven bytes before the end of the send buffer.\<close>

lemma validBody_iff: "length bodyToSend \<ge> 7 \<Longrightarrow> validBody body bodyToSend = Some True \<longleftrightarrow> (\<exists>front tail. bodyToSend = front @ body @ tail \<and> length tail = 7)"
proof -
  assume l: "length bodyToSend \<ge> 7"
  have "validBody body bodyToSend = Some True \<longleftrightarrow> (\<exists>rest. drop 7 (rev bodyToSend) = rev body @ rest)"
    by (simp add: validBody_def validBody_loop_prefix)
  also have "\<dots> \<longleftrightarrow> (\<exists>rest. take (length bodyToSend - 7) bodyToSend = rest @ body)"
    by (metis (no_types, opaque_lifting) drop_rev rev_append rev_rev_ident)
  also have "\<dots> \<longleftrightarrow> (\<exists>front tail. bodyToSend = front @ body @ tail \<and> length tail = 7)"
  proof
    assume "\<exists>rest. take (length bodyToSend - 7) bodyToSend = rest @ body"
    then obtain rest where "take (length bodyToSend - 7) bodyToSend = rest @ body" by blast
    then have "bodyToSend = rest @ body @ drop (length bodyToSend - 7) bodyToSend"
      by (metis append.assoc append_take_drop_id)
    then show "\<exists>front tail. bodyToSend = front @ body @ tail \<and> length tail = 7"
      using l by (intro exI [of _ rest] exI [of _ "drop (length bodyToSend - 7) bodyToSend"]) simp
  next
    assume "\<exists>front tail. bodyToSend = front @ body @ tail \<and> length tail = 7"
    then show "\<exists>rest. take (length bodyToSend - 7) bodyToSend = rest @ body"
      by auto
  qed
  finally show ?thesis .
qed

text \<open>After a body was sent as one chunk and closed, it is found again, so the request is not handled a second time.\<close>

lemma validBody_chunk: "validBody body (mg_send_http_chunk (mg_send_http_chunk sb body) []) = Some True"
proof -
  have z: "hexX 0 = [48]"
    by code_simp
  have "mg_send_http_chunk (mg_send_http_chunk sb body) [] = (sb @ hexX (length body) @ [CR, LF]) @ body @ [CR, LF, 48, CR, LF, CR, LF]"
    by (simp add: mg_send_http_chunk_def z)
  then show ?thesis
    by (intro validBody_iff [THEN iffD2] exI [of _ "sb @ hexX (length body) @ [CR, LF]"] exI [of _ "[CR, LF, 48, CR, LF, CR, LF]"]) simp_all
qed

section \<open>Reading the configuration\<close>

abbreviation no_nl :: "string \<Rightarrow> string" where
  "no_nl s \<equiv> filter (\<lambda>c. c \<noteq> CHR 0x0A) s"

lemma getline_eq: "getline s = (if s = [] then None else Some (takeWhile (\<lambda>c. c \<noteq> CHR 0x0A) s, tl (dropWhile (\<lambda>c. c \<noteq> CHR 0x0A) s)))"
  by (induction s) auto

lemma file_lines_eq: "file_lines s = no_nl s"
proof (induction s rule: file_lines.induct)
  case (1 s)
  have "no_nl s = takeWhile (\<lambda>c. c \<noteq> CHR 0x0A) s @ no_nl (tl (dropWhile (\<lambda>c. c \<noteq> CHR 0x0A) s))"
    by (induction s) auto
  then show ?case
    using 1 by (auto simp: file_lines.simps [of s] getline_eq)
qed

text \<open>The text of a scalar is in one line.\<close>

lemma number_one_line: "number_text t \<Longrightarrow> CHR 0x0A \<notin> set t"
proof -
  have d: "CHR 0x0A \<in> set s \<Longrightarrow> CHR 0x0A \<in> set (dropWhile is_digit s)" for s
    by (induction s) (auto simp: is_digit_def)
  have e: "CHR 0x0A \<in> set s \<Longrightarrow> peek s \<noteq> CHR 0x0A \<Longrightarrow> CHR 0x0A \<in> set (tl s)" for s
    by (cases s) (auto simp: peek_def)
  assume t: "number_text t"
  show ?thesis
  proof
    assume "CHR 0x0A \<in> set t"
    then have "CHR 0x0A \<in> set (tl t)"
      using t by (cases t) (auto simp: number_text_def is_digit_def)
    then have "CHR 0x0A \<in> set (readNumber (tl t))"
      unfolding readNumber_def Let_def using d e by (auto split: if_splits)
    then show False
      using t by (simp add: number_text_def)
  qed
qed

lemma quote_char_one_line: "CHR 0x0A \<notin> set (quote_char c)"
proof -
  have "\<forall>d \<in> set [0..<16]. hex_upper d \<noteq> CHR 0x0A"
    by code_simp
  then have "hex_upper (n mod 16) \<noteq> CHR 0x0A" for n
    by simp
  then have "CHR 0x0A \<notin> set (hex4 n)" for n
    by (metis (no_types, lifting) hex4_def imageE set_map)
  then show ?thesis
    by (simp add: quote_char_def)
qed

lemma quoted_one_line: "CHR 0x0A \<notin> set (valueToQuotedStringN k)"
proof -
  have "CHR 0x0A \<in> set k \<Longrightarrow> strnpbrk k [dquote, bslash, CHR 0x08, CHR 0x0C, CHR 0x0A, CHR 0x0D, CHR 0x09]"
    by (auto simp: strnpbrk_def list_ex_iff)
  then show ?thesis
    using quote_char_one_line by (auto simp: valueToQuotedStringN_def)
qed

lemma scalar_one_line: "json_ok L v \<Longrightarrow> scalar v \<Longrightarrow> CHR 0x0A \<notin> set (writeValue L v)"
  using int_text uint_value_text number_one_line
  by (cases v) (auto simp: double_ok_def quoted_one_line valueToString_bool_def)

lemma no_nl_id: "CHR 0x0A \<notin> set s \<Longrightarrow> no_nl s = s"
  by (induction s) auto

lemma no_nl_spaces: "spaces a \<Longrightarrow> spaces (no_nl a)"
  by (induction a) auto

text \<open>Without its line breaks a text is still a text of the same value.\<close>

lemma layout_no_nl:
  "layout L v s \<Longrightarrow> json_ok L v \<Longrightarrow> layout L v (no_nl s)"
  "elements L xs t \<Longrightarrow> list_all (json_ok L) xs \<Longrightarrow> elements L xs (no_nl t)"
  "members L kvs t \<Longrightarrow> list_all (\<lambda>(k, v). json_ok L v) kvs \<Longrightarrow> members L kvs (no_nl t)"
proof (induction rule: layout_elements_members.inducts)
  case (layout_scalar v)
  then show ?case
    using no_nl_id [OF scalar_one_line] by (simp add: layout_intros)
next
  case (layout_object kvs t)
  then show ?case
    using set_smap_of [of kvs] layout_intros(5) by (auto simp: list_all_iff)
qed (auto simp: no_nl_spaces no_nl_id quoted_one_line intro: layout_intros [simplified])

section \<open>The start\<close>

lemma config_path: "c_str CONFIG_PATH = CONFIG_PATH"
  by code_simp

lemma config_load_run:
  assumes "smap_get (fs_files (dbw_files w)) CONFIG_PATH = Some (a @ s @ z)" "\<not> fs_unreadable (dbw_files w) CONFIG_PATH"
    and "spaces a" "layout L (ObjV kvs) s" "json_ok L (ObjV kvs)" "json_depth (ObjV kvs) \<le> stackLimit_g"
  shows "config_load L CONFIG_PATH w = (Inr (json_norm L (ObjV kvs)), w)"
proof -
  have "parse_string L slack (no_nl a @ no_nl s @ no_nl z) = Some (Inr (True, json_norm L (ObjV kvs)))" for slack
    using assms(3-6) by (intro layout_parsed layout_no_nl no_nl_spaces) simp_all
  then have "parse_json L (no_nl (a @ s @ z)) = Inr (True, json_norm L (ObjV kvs))"
    by (simp add: parse_json_def)
  then show ?thesis
    using assms(1,2) by (simp add: config_load_def loadFile_def read_file_def config_path bnd_def file_lines_eq config_parseFile_def)
qed

lemma config_get_string:
  "smap_get kvs k = Some (StrV v) \<Longrightarrow> config_get L \<lparr>configValues = json_norm L (ObjV kvs), popen_output = out\<rparr> k = Inr v"
  by (simp add: config_get_def isMember_def str_member_def json_get_def smap_get_map)

lemma config_load_at: "config_load (at L t) = config_load L"
  unfolding config_load_def [abs_def] config_parseFile_def [abs_def] json_at ..

lemma config_get_at: "config_get (at L t) = config_get L"
  unfolding config_get_def [abs_def] json_at_members ..

text \<open>
  C9. The starts of the server. The configuration file has an object with the name of the database under \<open>DbName\<close>, in any layout and in any
  number of lines, and the database opens, has well-formed indexes and a counter, and has none of the sixteen initial mails. Then the server has every text of the file in its
  configuration, each initial user is stored under the next identifiers and can log in with the password of the source, and the
  fixed tokens \<open>tokenUser1\<close> to \<open>tokenUser16\<close>, which everybody can know, open their sessions for 14400 seconds less the error \<open>d\<close> of
  the clock. Every later start with that file on the database as the first one left it has the same configuration and leaves
  the database as it is. The coordinates of the source must print and read as themselves.
\<close>

theorem server_starts:
  assumes "smap_get (fs_files (dbw_files w)) CONFIG_PATH = Some (a @ s @ z)" and "\<not> fs_unreadable (dbw_files w) CONFIG_PATH"
    and "spaces a" and "layout L (ObjV kvs) s" and "json_ok L (ObjV kvs)" and "json_depth (ObjV kvs) \<le> stackLimit_g"
    and "smap_get kvs ''DbName'' = Some (StrV name)" and "opened name = Some l" and "w1 = w\<lparr>dbw_db := Some l\<rparr>"
    and "dbw_ok w1" "index_inv w1" "last_id w1 n" "n + 16 \<le> maxInt64" and "\<forall>m \<in> set fake_mails. kv w1 (USER_MAIL_ID @ m) = None"
    and "\<forall>d \<in> set fake_coordinates. double_safe L d" and "clock_near L d (time_now L)"
  shows "\<exists>config w'. main_start L opened w = (Inr (Some config), w')
    \<and> (\<forall>k v out. smap_get kvs k = Some (StrV v) \<longrightarrow> config_get L \<lparr>configValues = config, popen_output = out\<rparr> k = Inr v)
    \<and> (\<forall>j < 16. (\<exists>p. getUserById L (n + 1 + int j) w' = (Inr p, w') \<and> p_email p = fake_mails ! j)
        \<and> (\<forall>t. \<exists>token w2. login (at L t) (fake_mails ! j) ''123abc'' w' = (Inr token, w2))
        \<and> (\<forall>t. t - time_now L \<le> 14400 - d \<longrightarrow> (\<exists>s w2. getSession (at L t) (''tokenUser'' @ to_string (1 + int j)) w' = (Inr s, w2)
              \<and> se_user_id s = n + 1 + int j \<and> se_user_mail s = fake_mails ! j)))
    \<and> (\<forall>t opened'. opened' name = dbw_db w' \<longrightarrow> main_start (at L t) opened' w = (Inr (Some config), w\<lparr>dbw_db := dbw_db w'\<rparr>))"
proof -
  obtain b w' where b: "DbBuilder L = Inr b" and w': "loadUsers L b w1 = (Inr (), w')"
    and again: "\<forall>t v. dbw_db v = dbw_db w' \<longrightarrow> loadUsers (at L t) b v = (Inr (), v)"
    and users: "\<forall>j < 16. (\<exists>p. getUserById L (n + 1 + int j) w' = (Inr p, w') \<and> p_email p = fake_mails ! j)
        \<and> (\<forall>t. \<exists>token w2. login (at L t) (fake_mails ! j) ''123abc'' w' = (Inr token, w2))
        \<and> (\<forall>t. t - time_now L \<le> 14400 - d \<longrightarrow> (\<exists>s w2. getSession (at L t) (''tokenUser'' @ to_string (1 + int j)) w' = (Inr s, w2)
              \<and> se_user_id s = n + 1 + int j \<and> se_user_mail s = fake_mails ! j))"
    using initial_users_ready [OF assms(10-13) assms(15,14,16)] by blast
  note c = config_load_run [OF assms(1-6)] and g = config_get_string [OF assms(7), of L "\<lambda>_. None"]
  have "start_db L opened (json_norm L (ObjV kvs)) w = (Inr (), w')"
    using g b w' assms(8,9) by (simp add: start_db_def bnd_def seq_def openDb_def del: json_norm.simps)
  then have "main_start L opened w = (Inr (Some (json_norm L (ObjV kvs))), w')"
    using c by (simp add: main_start_def bnd_def seq_def handle_def del: json_norm.simps)
  moreover have "main_start (at L t) opened' w = (Inr (Some (json_norm L (ObjV kvs))), w\<lparr>dbw_db := dbw_db w'\<rparr>)"
    if o: "opened' name = dbw_db w'" for t opened'
  proof -
    have "config_load (at L t) CONFIG_PATH w = (Inr (json_norm L (ObjV kvs)), w)"
      using c by (simp add: config_load_at)
    moreover have "DbBuilder (at L t) = Inr b"
      using b by (simp add: DbBuilder_eq)
    ultimately show ?thesis
      using g o again [rule_format, of "w\<lparr>dbw_db := dbw_db w'\<rparr>" t]
      by (simp add: main_start_def start_db_def config_get_at bnd_def seq_def handle_def openDb_def del: json_norm.simps)
  qed
  ultimately show ?thesis
    using config_get_string users by blast
qed

text \<open>Without a readable configuration file the server ends and leaves the databases alone.\<close>

lemma no_config:
  "smap_get (fs_files (dbw_files w)) CONFIG_PATH = None \<or> fs_unreadable (dbw_files w) CONFIG_PATH \<Longrightarrow> main_start L opened w = (Inr None, w)"
  by (auto simp: main_start_def config_load_def loadFile_def read_file_def config_path bnd_def handle_def)

text \<open>A file in three lines, and an empty database.\<close>

definition config_text :: string where
  "config_text = ''{'' @ [CHR 0x0A] @ quoted '' ~DbName~ : ~db~'' @ [CHR 0x0A] @ ''}''"

definition start_state :: dbw where
  "start_state = \<lparr>dbw_db = None, dbw_files = no_files\<lparr>fs_files := [(CONFIG_PATH, config_text)]\<rparr>\<rparr>"

lemma config_layout: "layout L (ObjV [(''DbName'', StrV ''db'')]) config_text"
proof -
  have "members L [(''DbName'', StrV ''db'')] ([CHR 0x0A, CHR '' ''] @ valueToQuotedStringN ''DbName'' @ '' '' @ '':'' @ '' '' @ writeValue L (StrV ''db'') @ [CHR 0x0A])"
    by (intro members_one layout_scalar) (simp_all add: is_space_def)
  then have "layout L (ObjV (smap_of [(''DbName'', StrV ''db'')])) (''{'' @ ([CHR 0x0A, CHR '' ''] @ valueToQuotedStringN ''DbName'' @ '' '' @ '':'' @ '' ''
      @ writeValue L (StrV ''db'') @ [CHR 0x0A]) @ ''}'')"
    by (rule layout_object) simp
  moreover have "config_text = ''{'' @ ([CHR 0x0A, CHR '' ''] @ valueToQuotedStringN ''DbName'' @ '' '' @ '':'' @ '' '' @ valueToQuotedStringN ''db'' @ [CHR 0x0A]) @ ''}''"
    by code_simp
  moreover have "smap_of [(''DbName'', StrV ''db'')] = [(''DbName'', StrV ''db'')]"
    by (simp add: smap_of_def)
  ultimately show ?thesis
    by simp
qed

theorem server_starts_witness:
  "\<exists>config w' s w2. main_start libc_coordinates (\<lambda>_. dbw_db (dbw_of [])) start_state = (Inr (Some config), w')
    \<and> config_get libc_coordinates \<lparr>configValues = config, popen_output = (\<lambda>_. None)\<rparr> ''DbName'' = Inr ''db''
    \<and> getSession (at libc_coordinates 5000) ''tokenUser1'' w' = (Inr s, w2) \<and> se_user_id s = 1"
proof -
  let ?L = libc_coordinates and ?kvs = "[(''DbName'', StrV ''db'')]" and ?l = "\<lparr>entries = [], io_fault = (\<lambda>_. False)\<rparr>"
  define w1 where "w1 = start_state\<lparr>dbw_db := Some ?l\<rparr>"
  have kv: "kv w1 = Map.empty"
    by (simp add: w1_def kv_def smap_get_def fun_eq_iff)
  have ok: "dbw_ok w1" "index_inv w1" "last_id w1 0" "\<forall>m \<in> set fake_mails. kv w1 (USER_MAIL_ID @ m) = None" "(0 :: int) + 16 \<le> maxInt64"
    using kv by (auto simp: w1_def dbw_ok_def index_inv_def skill_index_def last_id_def maxInt64_def intro: exI [of _ "[]"])
  have f: "smap_get (fs_files (dbw_files start_state)) CONFIG_PATH = Some ([] @ config_text @ [])" "\<not> fs_unreadable (dbw_files start_state) CONFIG_PATH"
    by (simp_all add: start_state_def no_files_def smap_get_def)
  have c: "json_ok ?L (ObjV ?kvs)" "json_depth (ObjV ?kvs) \<le> stackLimit_g" "smap_get ?kvs ''DbName'' = Some (StrV ''db'')"
    by (simp_all add: stackLimit_g_def smap_get_def smap_inv_def)
  have clock: "clock_near ?L 0 (time_now ?L)" "time_now ?L = 1000"
    using clock_small(1) by (simp_all add: clock_near_def libc_coordinates_def now_text_def)
  obtain config w' where w': "main_start ?L (\<lambda>_. Some ?l) start_state = (Inr (Some config), w')"
    "\<forall>k v out. smap_get ?kvs k = Some (StrV v) \<longrightarrow> config_get ?L \<lparr>configValues = config, popen_output = out\<rparr> k = Inr v"
    "\<forall>j < 16. \<forall>t. t - time_now ?L \<le> 14400 - 0 \<longrightarrow> (\<exists>s w2. getSession (at ?L t) (''tokenUser'' @ to_string (1 + int j)) w' = (Inr s, w2)
       \<and> se_user_id s = 0 + 1 + int j \<and> se_user_mail s = fake_mails ! j)"
    using server_starts [OF f spaces_simps(1) config_layout c, of "\<lambda>_. Some ?l", OF refl w1_def ok(1-3,5,4) coordinates_safe clock(1)] by blast
  have "to_string 1 = ''1''" "dbw_db (dbw_of []) = Some ?l"
    by (code_simp, simp add: dbw_of_def)
  then show ?thesis
    using w'(1) w'(2) [rule_format, OF c(3)] w'(3) [rule_format, of 0 5000] clock(2) by auto
qed

end
