(* ===== verification/Spec2Isabelle.thy ===== *)
theory Spec2Isabelle
  imports Base64 Md5 Sha1 Mbuf Uri Mqtt_Broker Dns Coap Websocket Http_Server Address Local_Path Printf Entry
begin

text \<open>
  Verification of the Jobify application server (\<open>ApplicationServer/src\<close>).

  The program. A server in C++ keeps the profiles, contacts, messages, recommendations and
  sessions of the users of a job network. Requests arrive over HTTP through the embedded
  Mongoose library (\<open>Mongoose/mongoose.c\<close>); \<open>WebHandler\<close> selects a handler by the URL;
  \<open>Handler\<close> finds the session of the request through \<open>SessionManager\<close> and calls the method of
  the handler; the handlers read the request with jsoncpp, check permissions (\<open>Security\<close>) and call
  \<open>PersonManager\<close>, which calls the managers of contacts, messages, recommendations and notification tokens;
  all of them read and write JSON texts in LevelDB through \<open>DBWrapper\<close>. The development models this
  path from the request to the database, and the packet formats and helpers of Mongoose.

  The theories, from the bottom up.

  Shared. \<open>Prelude\<close> has the byte and word types and the lemmas on lists. \<open>Outcome\<close> has the
  exceptions of the server as a datatype, results that are an exception or a value, and the record
  \<open>libc\<close> of what is left to the C and C++ libraries: printing and reading of floating-point
  numbers, the clock and its textual form (read back with whatever value \<open>tm_isdst\<close> has on the stack), regular expressions, random numbers, uninitialised
  memory. Every definition that uses one of them takes the record as its argument \<open>L\<close>; \<open>at L t\<close> is
  the same library at another time. \<open>Sorted_Map\<close> has the ordered association lists under JSON objects
  and under the database.

  Mongoose. \<open>Base64\<close> (\<open>common/base64.c\<close>), \<open>Hash_Stream\<close>, \<open>Md5\<close> and \<open>Sha1\<close> (\<open>common/md5.c\<close>, \<open>common/sha1.c\<close>), \<open>Mbuf\<close>
  (\<open>common/mbuf.c\<close>), \<open>MgStr\<close> (\<open>common/mg_str.c\<close> and the text helpers of \<open>src/util.c\<close>), \<open>Uri\<close>
  (\<open>src/uri.c\<close>), \<open>Mqtt\<close>, \<open>Dns\<close>, \<open>Coap\<close> (\<open>src/mqtt.c\<close>, \<open>src/dns.c\<close>, \<open>src/dns-server.c\<close>, \<open>src/coap.c\<close>) and
  \<open>Websocket\<close> (the frames in \<open>src/http.c\<close>). \<open>Mqtt_Broker\<close> (\<open>src/mqtt-broker.c\<close>) has the broker over a heap of linked
  sessions. \<open>Format\<close> (\<open>common/str_util.c\<close>) is formatted output into a buffer, and \<open>Printf\<close> its way to a connection, with the contract of \<open>vsnprintf\<close> as the locale
  \<open>vsnprintf_contract\<close> and an interpretation on the function of the library; a connection is there its \<open>mbuf\<close> with an allocator that may fail, and what is printed arrives if the memory is there. The rest of \<open>src/http.c\<close> that works on messages is in \<open>Http\<close> (the parser), \<open>Http_Body\<close>
  (chunked bodies), \<open>Http_Vars\<close> (URL encoding, form variables), \<open>Http_Auth\<close> (parameters of headers, digest
  authentication), \<open>Local_Path\<close> (from the URI to the path of a file) and \<open>Http_Server\<close> (\<open>mg_http_handler\<close> on the bytes that a connection receives). \<open>Scan\<close> has
  \<open>sscanf\<close> and the access lists of \<open>src/net.c\<close>, \<open>Address\<close> the addresses of connections, the hosts file and the name server (\<open>src/net.c\<close>, \<open>src/resolv.c\<close>). Integers have the width they have in C. The properties are that
  the hashes equal their block-wise definitions however the input is cut, that parsers invert the encoders
  and never read outside of their input, that the growable buffer refines a sequence of bytes with
  an allocator that may fail, that path normalisation and the paths of files leave no way out of the root, that access lists decide by their last matching entry, that printed addresses are read back, that a stream of
  websocket messages is delivered as it was sent (fragments as long as \<open>realloc\<close> leaves the receive buffer in its place), that every plain request that arrives in any pieces raises one event with its
  body, that the broker delivers each message to the subscribed clients, that printing never leaves its buffer and loses nothing when memory suffices, that chunked bodies are reassembled, and that digest authentication accepts the header of the right password.

  JSON. \<open>Json_Value\<close> has the values of jsoncpp with their accessors and conversions, errors included;
  \<open>Json_Text\<close> \<open>FastWriter\<close> and \<open>Reader\<close>; \<open>Json_Styled\<close> \<open>StyledWriter\<close>. \<open>Json_Roundtrip\<close> shows that the
  reader gives back what the writer printed (\<open>json_same\<close>): strings and structure as they were, integers in the representation of the reader, and
  doubles, for a C library that prints and reads 17 digits as documented (\<open>printed_17\<close>), as themselves or as an integer of the same value; it also shows that the reader returns on every document, and has the locale \<open>json_codec\<close>: a
  type with an encoder and a decoder whose values, alone and in lists, survive the way through
  the database. Every stored type is an interpretation of it. \<open>Json_Layout\<close> describes the texts that the reader takes for a
  value, with any white space between the tokens, and shows that the styled output is one of them.

  Database. \<open>Server_Db\<close> has LevelDB by the contract of \<open>leveldb/include/leveldb/db.h\<close> and
  \<open>iterator.h\<close>, with keys whose reads and writes fail; programs over it (return, raise, sequence, catch,
  loops), in which the managers are written; \<open>DBWrapper\<close>; and the locale \<open>kv_store\<close>, interpreted on
  \<open>DBWrapper\<close>, through which the other theories see the store as a map.

  Managers. \<open>Contacts\<close> (\<open>person/relation\<close>): the two sides of every relation agree after any requests, and
  an operation changes exactly the two entries of its pair. \<open>Messages\<close> (\<open>person/messages\<close>): a
  conversation is the sequence of messages of its pair, whoever asks. \<open>Person_Data\<close> (\<open>person/Person.cpp\<close> and its
  parts): profiles survive storing. \<open>Sessions\<close> (\<open>person/Manager.cpp\<close>, \<open>session/\<close>, \<open>Security/\<close>): login, the life of
  a token, permissions. \<open>Recommendations\<close> (\<open>person/recommendation\<close>): the number in the profile is the
  number of distinct recommenders. \<open>Person_Manager\<close> (\<open>person/PersonManager.cpp\<close>): registering,
  updating, deleting, the indexes and the searches. \<open>Accounts\<close> follows an account through these operations on
  whole databases: after registering and after every update the profile, the keys and the indexes of a user belong together, and deleting
  takes it back, except for the indexes of positions, and unless he lists a skill twice. \<open>Initial_Data\<close> (\<open>tools/DbBuilder.cpp\<close>) has the users that the server
  creates when it starts. \<open>Entry\<close> (\<open>main.cpp\<close>, \<open>config/Config.cpp\<close>, \<open>tools/MainHelper.cpp\<close>) is the start from the configuration file on: on a new database these users can log in, tokens that are fixed in the
  source open their sessions, and later starts change nothing.

  Interface. \<open>Api\<close> (\<open>api/Response.cpp\<close>, \<open>api/handler/Handler.cpp\<close>, \<open>api/WebHandler.cpp\<close>): no
  protected method runs without a session. \<open>Handlers\<close> (\<open>api/handler/\<close>, \<open>tools/NotificationSender.cpp\<close>): a user has access to his own data only; windows of messages, identifiers in queries,
  percent decoding. \<open>Pictures\<close> (\<open>api/handler/PictureHandler.cpp\<close>, \<open>api/handler/TopTenHandler.cpp\<close>): only its owner changes the
  file of a picture.

  State and effects. The state of the server is the record \<open>dbw\<close>, the pointer to the database
  and its contents, and the files of the host, some of which cannot be read or written; a handler or an operation of a manager is a function from it to a result and the next
  state. An access through a null or freed pointer or outside of a vector is the outcome
  \<open>Bad_pointer\<close>, which no handler catches. Some properties state behaviour that the code does not intend, such as
  the mail that works as a token, the index entry that survives its user, or identifiers
  cut to six digits.

  Bounds and fuel. The reader of JSON is a function with fuel; three units for every character and one more
  are enough, which \<open>parse_total\<close> shows, and its recursion is bounded by the limit of the
  source, 1000. The receive loop of websockets and the other loops of Mongoose that need fuel have theorems that give an amount
  that is enough. All other recursion is structural or has a measure. Identifiers are \<open>long\<close> of 64 bits and counts \<open>int\<close> of 32
  bits, with their wrap-around written out where the code computes with them. Sizes of buffers (\<open>Mbuf\<close>) and the counters of the base64
  encoder are natural numbers, below the limits of \<open>size_t\<close> and \<open>int\<close>.

  Not modelled. LevelDB below its interface, googletest and lcov are third-party. The event loop, sockets,
  logging, SSI and CGI are input and output. \<open>ev_handler\<close> of \<open>main.cpp\<close> reads memory that \<open>Response::getHeader\<close> and the response have
  freed, so what it sends has no model; the text of the header, the chunks and the comparison of the bodies have one. \<open>Person::updateMe\<close> is
  not reached. The Android application and the shared server are separate programs.
\<close>

end
